(* ===== verification/Prelude.thy ===== *)
theory Prelude
  imports Main "HOL-Library.Word"
begin

unbundle bit_operations_syntax

text \<open>
  Shared vocabulary of the development: the byte and word types, big-endian integers, the
  list operations of the Rust standard library that the program uses (\<^verbatim>\<open>last\<close>,
  \<^verbatim>\<open>iter().rev().find\<close>, \<^verbatim>\<open>get(a..b)\<close>), and two contracts that several components share:
  a transition system with an invariant, and a byte codec that reads back what it wrote.
\<close>

section \<open>Types and constants\<close>

type_synonym u8 = "8 word"
type_synonym u16 = "16 word"
type_synonym u32 = "32 word"
type_synonym u64 = "64 word"
type_synonym bytes = "u8 list"

text \<open>
  Rewrite rules for the fields an operation leaves alone (\<open>frame_simps\<close>), and the
  facts that an operation keeps an invariant (\<open>wf_intros\<close>).
\<close>

named_theorems frame_simps
named_theorems wf_intros

text \<open>A string literal of the source, as its bytes: none of them has another character than ASCII.\<close>

definition ascii :: "string \<Rightarrow> bytes" where
  "ascii s = map of_char s"

section \<open>Lists as the standard library reads them\<close>

definition last_opt :: "'a list \<Rightarrow> 'a option" where
  "last_opt xs = (if xs = [] then None else Some (last xs))"

definition front_opt :: "'a list \<Rightarrow> 'a option" where
  "front_opt xs = (case xs of [] \<Rightarrow> None | x # _ \<Rightarrow> Some x)"

definition get_opt :: "'a list \<Rightarrow> nat \<Rightarrow> 'a option" where
  "get_opt xs i = (if i < length xs then Some (xs ! i) else None)"

text \<open>\<open>slice_opt xs a n\<close> is \<^verbatim>\<open>xs.get(a..a + n)\<close>.\<close>

definition slice_opt :: "'a list \<Rightarrow> nat \<Rightarrow> nat \<Rightarrow> 'a list option" where
  "slice_opt xs a n = (if a + n \<le> length xs then Some (take n (drop a xs)) else None)"

definition map_last :: "('a \<Rightarrow> 'a) \<Rightarrow> 'a list \<Rightarrow> 'a list" where
  "map_last f xs = (if xs = [] then [] else butlast xs @ [f (last xs)])"

text \<open>\<open>find_last P xs\<close> is \<^verbatim>\<open>xs.iter().rev().find(P)\<close>.\<close>

definition find_last :: "('a \<Rightarrow> bool) \<Rightarrow> 'a list \<Rightarrow> 'a option" where
  "find_last P xs = find P (rev xs)"

lemma last_opt_simps [simp]:
  "last_opt [] = None" "last_opt (xs @ [x]) = Some x"
  by (simp_all add: last_opt_def)

lemma last_opt_Some: "last_opt xs = Some x \<longleftrightarrow> xs \<noteq> [] \<and> x = last xs"
  by (auto simp: last_opt_def)

lemma last_opt_None [simp]: "last_opt xs = None \<longleftrightarrow> xs = []"
  by (simp add: last_opt_def)

lemma last_opt_in: "last_opt xs = Some x \<Longrightarrow> x \<in> set xs"
  by (auto simp: last_opt_def split: if_splits)

lemma front_opt_simps [simp]:
  "front_opt [] = None" "front_opt (x # xs) = Some x"
  by (simp_all add: front_opt_def)

lemma front_opt_Some: "front_opt xs = Some x \<longleftrightarrow> xs \<noteq> [] \<and> x = hd xs"
  by (cases xs) auto

lemma get_opt_Some: "get_opt xs i = Some x \<longleftrightarrow> i < length xs \<and> x = xs ! i"
  by (auto simp: get_opt_def)

lemma slice_opt_Some:
  "slice_opt xs a n = Some ys \<longleftrightarrow> a + n \<le> length xs \<and> ys = take n (drop a xs)"
  by (auto simp: slice_opt_def)

lemma length_map_last [simp]: "length (map_last f xs) = length xs"
  by (simp add: map_last_def)

lemma set_map_last: "x \<in> set (map_last f xs) \<Longrightarrow> x \<in> set xs \<or> (xs \<noteq> [] \<and> x = f (last xs))"
  by (auto simp: map_last_def dest: in_set_butlastD split: if_splits)

lemma map_map_last_same:
  "(\<And>x. g (f x) = g x) \<Longrightarrow> map g (map_last f xs) = map g xs"
  by (cases xs rule: rev_cases) (simp_all add: map_last_def)

lemma last_map_last: "xs \<noteq> [] \<Longrightarrow> last (map_last f xs) = f (last xs)"
  by (simp add: map_last_def)

lemma map_last_eq_Nil [simp]: "map_last f xs = [] \<longleftrightarrow> xs = []"
  by (simp add: map_last_def)

lemma find_Some_in: "find P xs = Some x \<Longrightarrow> x \<in> set xs \<and> P x"
  by (auto simp: find_Some_iff)

lemma find_append: "find P (xs @ ys) = (case find P xs of None \<Rightarrow> find P ys | Some x \<Rightarrow> Some x)"
  by (induction xs) auto

lemma find_last_Some: "find_last P xs = Some x \<Longrightarrow> x \<in> set xs \<and> P x"
  by (auto simp: find_last_def dest!: find_Some_in)

lemma find_last_None: "find_last P xs = None \<longleftrightarrow> (\<forall>x \<in> set xs. \<not> P x)"
  by (auto simp: find_last_def find_None_iff)

lemma find_last_max:
  "sorted xs \<Longrightarrow> find_last P xs = Some m \<Longrightarrow> x \<in> set xs \<Longrightarrow> P x \<Longrightarrow> x \<le> m"
  for xs :: "'a :: linorder list"
proof (induction xs)
  case (Cons y ys)
  show ?case
  proof (cases "find_last P ys")
    case None
    then have "x = y" using Cons.prems(3,4) by (auto simp: find_last_None)
    moreover have "m \<in> set (y # ys)" using find_last_Some [OF Cons.prems(2)] by blast
    ultimately show ?thesis using Cons.prems(1) by auto
  next
    case (Some z)
    then have "m = z" using Cons.prems(2) by (simp add: find_last_def find_append)
    then show ?thesis
      using Cons Some by (auto dest: find_last_Some)
  qed
qed (simp add: find_last_def)

lemma find_min:
  "sorted xs \<Longrightarrow> find P xs = Some m \<Longrightarrow> x \<in> set xs \<Longrightarrow> P x \<Longrightarrow> m \<le> x"
  for xs :: "'a :: linorder list"
  by (induction xs) (auto split: if_splits)

section \<open>Big-endian integers\<close>

text \<open>\<open>be_nat bs\<close> reads all of \<open>bs\<close> as an unsigned big-endian integer.\<close>

definition be_nat :: "bytes \<Rightarrow> nat" where
  "be_nat bs = foldl (\<lambda>acc b. acc * 256 + unat b) 0 bs"

text \<open>The \<open>n\<close> low bytes of \<open>v\<close>, most significant first.\<close>

fun put_be :: "nat \<Rightarrow> nat \<Rightarrow> bytes" where
  "put_be 0 v = []"
| "put_be (Suc n) v = put_be n (v div 256) @ [of_nat v]"

lemma length_put_be [simp]: "length (put_be n v) = n"
  by (induction n arbitrary: v) auto

lemma be_nat_snoc [simp]: "be_nat (bs @ [b]) = be_nat bs * 256 + unat b"
  by (simp add: be_nat_def)

lemma be_nat_Nil [simp]: "be_nat [] = 0"
  by (simp add: be_nat_def)

lemma be_nat_put_be: "be_nat (put_be n v) = v mod 256 ^ n"
proof (induction n arbitrary: v)
  case (Suc n)
  have "be_nat (put_be (Suc n) v) = (v div 256 mod 256 ^ n) * 256 + v mod 256"
    by (simp add: Suc unat_of_nat)
  also have "\<dots> = v mod (256 * 256 ^ n)"
    by (simp add: mod_mult2_eq mult.commute)
  finally show ?case by simp
qed simp

lemma be_nat_bound: "be_nat bs < 256 ^ length bs"
proof (induction bs rule: rev_induct)
  case (snoc b bs)
  have "unat b < 256" using unsigned_less [of b] by simp
  then have "be_nat (bs @ [b]) < be_nat bs * 256 + 256" by simp
  also have "\<dots> \<le> 256 ^ length bs * 256" using snoc by (simp add: algebra_simps)
  finally show ?case by (simp add: mult.commute)
qed simp

lemma times_256_u8 [simp]: "x * 256 = 0" for x :: u8
proof -
  have "(256 :: u8) = 0" by simp
  then show ?thesis by (simp only: mult_zero_right)
qed

lemma put_be_be_nat: "length bs = n \<Longrightarrow> put_be n (be_nat bs) = bs"
proof (induction bs arbitrary: n rule: rev_induct)
  case (snoc b bs)
  have "unat b < 256" using unsigned_less [of b] by simp
  with snoc show ?case by auto
qed simp

section \<open>Loops with a break\<close>

text \<open>
  A \<^verbatim>\<open>loop\<close> whose body breaks with a result (\<open>Inl\<close>) or goes round
  again (\<open>Inr\<close>). A loop that never breaks has the value \<open>None\<close>.
\<close>

partial_function (option) loop :: "('s \<Rightarrow> 'r + 's) \<Rightarrow> 's \<Rightarrow> 'r option" where
  "loop body s = (case body s of Inl r \<Rightarrow> Some r | Inr s' \<Rightarrow> loop body s')"

text \<open>A loop whose rounds keep \<open>P\<close> and go down in a measure breaks, from a state with \<open>P\<close>.\<close>

lemma loop_breaks:
  assumes "P s"
    and round: "\<And>s s'. P s \<Longrightarrow> body s = Inr s' \<Longrightarrow> P s' \<and> (s', s) \<in> R" and "wf R"
  obtains r s' where "loop body s = Some r" and "P s'" and "body s' = Inl r"
proof -
  have "\<exists>r s'. loop body s = Some r \<and> P s' \<and> body s' = Inl r" if "P s" for s
    using \<open>wf R\<close> that
  proof (induction s rule: wf_induct_rule)
    case (less s)
    show ?case
    proof (cases "body s")
      case (Inl r)
      with less.prems show ?thesis by (auto simp: loop.simps [of body s])
    next
      case (Inr s')
      with less round [OF less.prems Inr] show ?thesis by (simp add: loop.simps [of body s])
    qed
  qed
  with assms(1) that show thesis by blast
qed

section \<open>A transition system and its invariant\<close>

text \<open>
  The contract of a component that is a state machine: a start state and steps, and an
  invariant that the start has and every step keeps. Its client, whoever reasons about
  the states the component reaches, gets the invariant in all of them.
\<close>

locale state_machine =
  fixes start :: "'s \<Rightarrow> bool"
    and step :: "'s \<Rightarrow> 's \<Rightarrow> bool"
    and inv :: "'s \<Rightarrow> bool"
  assumes start_inv: "start s \<Longrightarrow> inv s"
    and step_inv: "inv s \<Longrightarrow> step s t \<Longrightarrow> inv t"
begin

lemma steps_inv:
  assumes "step\<^sup>*\<^sup>* s t" and "inv s"
  shows "inv t"
  using assms by (induction rule: rtranclp_induct) (auto intro: step_inv)

lemma reachable_inv:
  assumes "start s" and "step\<^sup>*\<^sup>* s t"
  shows "inv t"
  using assms(2) start_inv [OF assms(1)] by (rule steps_inv)

end

text \<open>A measure of the state that no step of the machine decreases.\<close>

locale monotone_machine = state_machine +
  fixes level :: "'s \<Rightarrow> nat"
  assumes step_level: "inv s \<Longrightarrow> step s t \<Longrightarrow> level s \<le> level t"
begin

lemma steps_level:
  assumes "step\<^sup>*\<^sup>* s t" and "inv s"
  shows "level s \<le> level t"
  using assms
proof (induction rule: rtranclp_induct)
  case (step t u)
  then have "inv t" by (blast intro: steps_inv)
  with step show ?case by (auto dest: step_level)
qed simp

end

section \<open>Refinement of an automaton\<close>

text \<open>
  An abstract specification is a partial transition function on its own states; \<open>spec_run\<close>
  follows it along a list of items. A component that makes a list of items visible in each
  step refines it when every step is a path of the automaton between the states' abstractions;
  then so is every sequence of steps (\<open>trace_steps\<close>).
\<close>

fun spec_run :: "('p \<Rightarrow> 'i \<Rightarrow> 'p option) \<Rightarrow> 'p \<Rightarrow> 'i list \<Rightarrow> 'p option" where
  "spec_run spec p [] = Some p"
| "spec_run spec p (i # is) = (case spec p i of None \<Rightarrow> None | Some q \<Rightarrow> spec_run spec q is)"

lemma spec_run_append:
  "spec_run spec p (is @ js) =
     (case spec_run spec p is of None \<Rightarrow> None | Some q \<Rightarrow> spec_run spec q js)"
  by (induction "is" arbitrary: p) (auto split: option.split)

inductive trace_steps :: "('s \<Rightarrow> 'i list \<Rightarrow> 's \<Rightarrow> bool) \<Rightarrow> 's \<Rightarrow> 'i list \<Rightarrow> 's \<Rightarrow> bool"
  for step where
  none: "trace_steps step s [] s"
| snoc: "trace_steps step s is t \<Longrightarrow> step t js u \<Longrightarrow> trace_steps step s (is @ js) u"

locale automaton_refinement =
  fixes spec :: "'p \<Rightarrow> 'i \<Rightarrow> 'p option"
    and abstr :: "'s \<Rightarrow> 'p"
    and step :: "'s \<Rightarrow> 'i list \<Rightarrow> 's \<Rightarrow> bool"
  assumes step_refines: "step s is t \<Longrightarrow> spec_run spec (abstr s) is = Some (abstr t)"
begin

lemma trace_refines:
  assumes "trace_steps step s is t"
  shows "spec_run spec (abstr s) is = Some (abstr t)"
  using assms by induction (simp_all add: spec_run_append step_refines)

end

section \<open>A byte codec\<close>

text \<open>
  The contract of an encoder and a reader of one value: the reader, given what the encoder
  wrote and anything after it, returns the value and how many bytes it took. A client that
  writes a sequence of values reads the sequence back.
\<close>

locale codec =
  fixes enc :: "'v \<Rightarrow> bytes"
    and dec :: "bytes \<Rightarrow> ('v \<times> nat) option"
    and ok :: "'v \<Rightarrow> bool"
  assumes dec_enc: "ok v \<Longrightarrow> dec (enc v @ rest) = Some (v, length (enc v))"
    and enc_nonempty: "enc v \<noteq> []"
begin

fun dec_n :: "nat \<Rightarrow> bytes \<Rightarrow> 'v list option" where
  "dec_n 0 bs = (if bs = [] then Some [] else None)"
| "dec_n (Suc n) bs =
     (if bs = [] then Some []
      else case dec bs of None \<Rightarrow> None
           | Some (v, used) \<Rightarrow> map_option (Cons v) (dec_n n (drop used bs)))"

lemma dec_n_enc:
  "\<forall>v \<in> set vs. ok v \<Longrightarrow> length vs \<le> n \<Longrightarrow> dec_n n (concat (map enc vs)) = Some vs"
proof (induction vs arbitrary: n)
  case Nil
  then show ?case by (cases n) auto
next
  case (Cons v vs)
  then obtain m where m: "n = Suc m" "length vs \<le> m" by (cases n) auto
  have "enc v @ concat (map enc vs) \<noteq> []" using enc_nonempty by simp
  with Cons m show ?case by (simp add: dec_enc)
qed

lemma enc_inj: "ok v \<Longrightarrow> ok w \<Longrightarrow> enc v = enc w \<Longrightarrow> v = w"
  using dec_enc [of v "[]"] dec_enc [of w "[]"] by simp

end

end
