(* ===== verification/Timestamps.thy ===== *)
theory Timestamps
  imports Prelude
begin

text \<open>
  The timestamp unwrapper of \<^verbatim>\<open>crates/rtmp/src/ts.rs\<close>: RTMP timestamps are 32-bit
  milliseconds that wrap, and the relay counts in 64 bits. The field \<^verbatim>\<open>current\<close>
  (an \<^verbatim>\<open>i64\<close>) is an \<open>int\<close>: it moves by at most \<open>2\<^sup>3\<^sup>1\<close> per
  message, so it leaves the 64-bit range only after \<open>2\<^sup>3\<^sup>2\<close> extreme steps.
\<close>

record ts_unwrapper =
  last_ts :: "u32 option"
  current :: int

definition new_unwrapper :: ts_unwrapper where
  "new_unwrapper = \<lparr>last_ts = None, current = 0\<rparr>"

text \<open>\<^verbatim>\<open>TsUnwrapper::unwrap\<close>: the result and the new state.\<close>

definition unwrap :: "ts_unwrapper \<Rightarrow> u32 \<Rightarrow> nat \<times> ts_unwrapper" where
  "unwrap u ts =
     (let cur = (case last_ts u of
                   Some l \<Rightarrow> current u + sint (ts - l)
                 | None \<Rightarrow> uint ts)
      in (nat (max cur 0), \<lparr>last_ts = Some ts, current = cur\<rparr>))"

text \<open>A whole stream: the outputs in order.\<close>

fun unwrap_all :: "ts_unwrapper \<Rightarrow> u32 list \<Rightarrow> nat list" where
  "unwrap_all u [] = []"
| "unwrap_all u (t # ts) = fst (unwrap u t) # unwrap_all (snd (unwrap u t)) ts"

text \<open>A small step of the true timestamp is read off exactly from the 32-bit difference.\<close>

lemma sint_small_step:
  fixes x y :: int
  assumes "\<bar>y - x\<bar> < 2 ^ 31"
  shows "sint ((of_int y :: u32) - of_int x) = y - x"
proof -
  have "sint (of_int z :: u32) = z" if "- (2 ^ 31) \<le> z" "z < 2 ^ 31" for z :: int
    using that by (simp add: signed_of_int signed_take_bit_int_eq_self)
  from this [of "y - x"] show ?thesis using assms by auto
qed

lemma unwrap_follows:
  assumes "last_ts u = Some (of_int x)" and "current u = x" and "\<bar>y - x\<bar> < 2 ^ 31"
  shows "unwrap u (of_int y) = (nat (max y 0), \<lparr>last_ts = Some (of_int y), current = y\<rparr>)"
  using assms by (simp add: unwrap_def Let_def sint_small_step)

lemma unwrap_all_follows:
  assumes "last_ts u = Some (of_int x)" and "current u = x"
    and "successively (\<lambda>a b. \<bar>b - a\<bar> < 2 ^ 31) (x # xs)"
  shows "unwrap_all u (map of_int xs) = map (\<lambda>y. nat (max y 0)) xs"
  using assms
proof (induction xs arbitrary: u x)
  case (Cons y ys)
  then have "unwrap u (of_int y) = (nat (max y 0), \<lparr>last_ts = Some (of_int y), current = y\<rparr>)"
    by (intro unwrap_follows) auto
  with Cons show ?case by simp
qed simp

text \<open>
  C40. The unwrapper recovers the encoder's clock: whatever the true millisecond times of
  the messages are, if the first lies within the 32-bit range and consecutive ones are less
  than \<open>2\<^sup>3\<^sup>1\<close> ms apart (either way), feeding their 32-bit truncations gives back the
  true times, across any number of wraps and steps back (times below zero read as zero).
\<close>

theorem unwrap_recovers_clock:
  assumes "0 \<le> x" and "x < 2 ^ 32"
    and "successively (\<lambda>a b. \<bar>b - a\<bar> < 2 ^ 31) (x # xs)"
  shows "unwrap_all new_unwrapper (map of_int (x # xs)) = map (\<lambda>y. nat (max y 0)) (x # xs)"
proof -
  have "uint (of_int x :: u32) = x"
    using assms(1,2) by (simp add: unsigned_of_int take_bit_int_eq_self)
  then have first: "unwrap new_unwrapper (of_int x) =
      (nat (max x 0), \<lparr>last_ts = Some (of_int x), current = x\<rparr>)"
    by (simp add: unwrap_def new_unwrapper_def Let_def)
  show ?thesis
    using assms(3) by (simp add: first unwrap_all_follows)
qed

theorem unwrap_recovers_clock_witness:
  "unwrap_all new_unwrapper (map of_int [4294967285, 4294967301, 4294967292, 4294967316])
     = [4294967285, 4294967301, 4294967292, 4294967316]"
  using unwrap_recovers_clock [of 4294967285 "[4294967301, 4294967292, 4294967316]"] by simp

end
