(* ===== verification/Flv.thy ===== *)
theory Flv
  imports Prelude
begin

text \<open>
  The message inspection of \<^verbatim>\<open>crates/flv/src/lib.rs\<close>: what an audio or video
  message body is (codec, keyframe, decoder configuration, HEVC NAL type), and the rewrite
  of CRA slices as BLA slices. The Rust \<^verbatim>\<open>Reader\<close> is the payload and a position; a
  read gives the value and the next position, or \<open>None\<close> when the payload ends.
\<close>

section \<open>Data\<close>

datatype video_codec = Avc | Hevc | Av1 | Vp9 | Vp8 | OtherVideo

datatype audio_codec = Aac | Mp3 | Opus | Flac | Ac3 | Eac3 | OtherAudio

record video_info =
  vi_codec :: video_codec
  vi_keyframe :: bool
  vi_config :: bool
  vi_config_class :: u16
  vi_enhanced :: bool
  vi_multitrack :: bool
  vi_composition_time :: int
  vi_hevc_nal_type :: "u8 option"
  vi_nal_offset :: "nat option"
  vi_config_offset :: "nat option"

record audio_info =
  ai_codec :: audio_codec
  ai_config :: bool
  ai_config_class :: u16
  ai_enhanced :: bool
  ai_multitrack :: bool

section \<open>HEVC NAL units\<close>

definition RASL_N :: u8 where "RASL_N = 8"
definition RASL_R :: u8 where "RASL_R = 9"
definition CRA :: u8 where "CRA = 21"
definition BLA_W_LP :: u8 where "BLA_W_LP = 16"

definition is_leading :: "u8 \<Rightarrow> bool" where
  "is_leading t \<longleftrightarrow> 6 \<le> t \<and> t \<le> 9"

definition is_irap :: "u8 \<Rightarrow> bool" where
  "is_irap t \<longleftrightarrow> 16 \<le> t \<and> t \<le> 23"

definition is_trailing :: "u8 \<Rightarrow> bool" where
  "is_trailing t \<longleftrightarrow> t \<le> 5"

text \<open>The NAL unit type in the first byte of its header.\<close>

definition nal_type :: "u8 \<Rightarrow> u8" where
  "nal_type b = drop_bit 1 b AND 0x3f"

definition as_bla :: "u8 \<Rightarrow> u8" where
  "as_bla b = (b AND 0x81) OR push_bit 1 BLA_W_LP"

text \<open>The length prefix at \<open>pos\<close>.\<close>

definition len_at :: "bytes \<Rightarrow> nat \<Rightarrow> nat" where
  "len_at b pos = be_nat [b ! pos, b ! (pos + 1), b ! (pos + 2), b ! (pos + 3)]"

function cra_loop :: "bytes \<Rightarrow> nat \<Rightarrow> bool \<Rightarrow> bytes \<times> bool" where
  "cra_loop out pos changed =
     (if pos + 5 \<le> length out then
        (let len = len_at out pos; header = pos + 4 in
         if len = 0 \<or> header + len > length out then (out, changed)
         else if nal_type (out ! header) = CRA
         then cra_loop (out[header := as_bla (out ! header)]) (header + len) True
         else cra_loop out (header + len) changed)
      else (out, changed))"
  by pat_completeness auto
termination
  by (relation "measure (\<lambda>(out, pos, changed). length out - pos)") auto

declare cra_loop.simps [simp del]

definition cra_to_bla :: "bytes \<Rightarrow> nat \<Rightarrow> bytes option" where
  "cra_to_bla payload offset =
     (let (out, changed) = cra_loop payload offset False
      in if changed then Some out else None)"

text \<open>The NAL type of the first coded slice in length-prefixed data.\<close>

function first_hevc_vcl :: "bytes \<Rightarrow> u8 option" where
  "first_hevc_vcl data =
     (if length data \<ge> 6 then
        (let len = len_at data 0 in
         case slice_opt data 4 len of
           None \<Rightarrow> None
         | Some nal \<Rightarrow>
             (case front_opt nal of
                None \<Rightarrow> None
              | Some h \<Rightarrow>
                  (let t = nal_type h in
                   if t < 32 then Some t else first_hevc_vcl (drop (4 + len) data))))
      else None)"
  by pat_completeness auto
termination
  by (relation "measure length") auto

declare first_hevc_vcl.simps [simp del]

section \<open>The reader\<close>

definition r_u8 :: "bytes \<Rightarrow> nat \<Rightarrow> (u8 \<times> nat) option" where
  "r_u8 b pos = map_option (\<lambda>v. (v, pos + 1)) (get_opt b pos)"

definition r_u16 :: "bytes \<Rightarrow> nat \<Rightarrow> (nat \<times> nat) option" where
  "r_u16 b pos =
     (case r_u8 b pos of
        None \<Rightarrow> None
      | Some (x, pos1) \<Rightarrow>
          (case r_u8 b pos1 of
             None \<Rightarrow> None
           | Some (y, pos2) \<Rightarrow> Some (be_nat [x, y], pos2)))"

text \<open>\<^verbatim>\<open>si24().unwrap_or(0)\<close>: the signed value and the next position.\<close>

definition si24_value :: "u8 \<Rightarrow> u8 \<Rightarrow> u8 \<Rightarrow> int" where
  "si24_value a b c =
     (let v = be_nat [a, b, c] in if v < 2 ^ 23 then int v else int v - 2 ^ 24)"

definition r_si24_or_0 :: "bytes \<Rightarrow> nat \<Rightarrow> int \<times> nat" where
  "r_si24_or_0 b pos =
     (case slice_opt b pos 3 of
        None \<Rightarrow> (0, pos)
      | Some s \<Rightarrow> (si24_value (s ! 0) (s ! 1) (s ! 2), pos + 3))"

definition r_fourcc :: "bytes \<Rightarrow> nat \<Rightarrow> (bytes \<times> nat) option" where
  "r_fourcc b pos = map_option (\<lambda>s. (s, pos + 4)) (slice_opt b pos 4)"

definition r_skip :: "bytes \<Rightarrow> nat \<Rightarrow> nat \<Rightarrow> nat option" where
  "r_skip b pos n = (if pos + n > length b then None else Some (pos + n))"

text \<open>
  \<^verbatim>\<open>skip_mod_ex\<close>: \<open>left\<close> is how many more blocks may come (16 at the start).
\<close>

fun skip_mod_ex :: "bytes \<Rightarrow> u8 \<Rightarrow> nat \<Rightarrow> nat \<Rightarrow> u8 \<Rightarrow> (u8 \<times> nat) option" where
  "skip_mod_ex b mod_ex left pos packet_type =
     (if packet_type \<noteq> mod_ex then Some (packet_type, pos)
      else case left of
        0 \<Rightarrow> None
      | Suc left' \<Rightarrow>
          (case r_u8 b pos of
             None \<Rightarrow> None
           | Some (s, pos1) \<Rightarrow>
               (case (if unat s + 1 = 256
                      then map_option (\<lambda>(n, p). (n + 1, p)) (r_u16 b pos1)
                      else Some (unat s + 1, pos1)) of
                  None \<Rightarrow> None
                | Some (sz, pos2) \<Rightarrow>
                    (case r_skip b pos2 sz of
                       None \<Rightarrow> None
                     | Some pos3 \<Rightarrow>
                         (case r_u8 b pos3 of
                            None \<Rightarrow> None
                          | Some (x, pos4) \<Rightarrow>
                              skip_mod_ex b mod_ex left' pos4 (x AND 0x0f))))))"

declare skip_mod_ex.simps [simp del]

definition video_codec_from_fourcc :: "bytes \<Rightarrow> video_codec" where
  "video_codec_from_fourcc f =
     (if f = ascii ''avc1'' then Avc
      else if f = ascii ''hvc1'' then Hevc
      else if f = ascii ''av01'' then Av1
      else if f = ascii ''vp09'' then Vp9
      else if f = ascii ''vp08'' then Vp8
      else OtherVideo)"

definition audio_codec_from_fourcc :: "bytes \<Rightarrow> audio_codec" where
  "audio_codec_from_fourcc f =
     (if f = ascii ''mp4a'' then Aac
      else if f = ascii ''.mp3'' then Mp3
      else if f = ascii ''Opus'' then Opus
      else if f = ascii ''fLaC'' then Flac
      else if f = ascii ''ac-3'' then Ac3
      else if f = ascii ''ec-3'' then Eac3
      else OtherAudio)"

definition config_class_of :: "u8 \<Rightarrow> u8 \<Rightarrow> u16" where
  "config_class_of track_id packet_type =
     push_bit 8 (ucast track_id) OR ucast packet_type"

section \<open>Video messages\<close>

text \<open>A command frame (seek start or end): no coded data.\<close>

definition command_info :: "u8 \<Rightarrow> video_info" where
  "command_info b0 =
     \<lparr>vi_codec = OtherVideo, vi_keyframe = False, vi_config = False, vi_config_class = 0,
      vi_enhanced = (b0 AND 0x80 \<noteq> 0), vi_multitrack = False, vi_composition_time = 0,
      vi_hevc_nal_type = None, vi_nal_offset = None, vi_config_offset = None\<rparr>"

definition nal_type_from :: "bytes \<Rightarrow> nat option \<Rightarrow> u8 option" where
  "nal_type_from payload nal_offset =
     (case nal_offset of
        None \<Rightarrow> None
      | Some o' \<Rightarrow> if o' \<le> length payload then first_hevc_vcl (drop o' payload) else None)"

definition inspect_legacy_video :: "bytes \<Rightarrow> u8 \<Rightarrow> nat \<Rightarrow> video_info option" where
  "inspect_legacy_video payload b0 pos =
     (let ft = drop_bit 4 b0 in
      if ft = 5 then Some (command_info b0)
      else
        (let low = b0 AND 0x0f;
             codec = (if low = 7 then Avc else if low = 12 then Hevc
                      else if low = 13 then Av1 else OtherVideo);
             has_packet_type = (codec \<noteq> OtherVideo) in
         case (if has_packet_type then r_u8 payload pos else Some (1, pos)) of
           None \<Rightarrow> None
         | Some (packet_type, pos1) \<Rightarrow>
             (let config = (has_packet_type \<and> packet_type = 0);
                  (composition_time, pos2) =
                    (if has_packet_type \<and> packet_type = 1 then r_si24_or_0 payload pos1
                     else (0, pos1));
                  nal_offset = (if codec = Hevc \<and> packet_type = 1 then Some pos2 else None)
              in Some \<lparr>vi_codec = codec, vi_keyframe = (ft = 1 \<and> packet_type = 1),
                       vi_config = config, vi_config_class = 0, vi_enhanced = False,
                       vi_multitrack = False, vi_composition_time = composition_time,
                       vi_hevc_nal_type = nal_type_from payload nal_offset,
                       vi_nal_offset = nal_offset,
                       vi_config_offset =
                         (if codec = Hevc \<and> config then Some (pos2 + 3) else None)\<rparr>)))"

text \<open>
  The FourCC of an enhanced message and what precedes it: the packet type, whether it is
  multitrack, the track id, the FourCC and the next position. \<open>sizes\<close> says whether a
  layout of several tracks has a 24-bit size to skip (video) or not (audio).
\<close>

definition read_track ::
  "bytes \<Rightarrow> u8 \<Rightarrow> bool \<Rightarrow> nat \<Rightarrow> u8 \<Rightarrow> (u8 \<times> bool \<times> u8 \<times> bytes \<times> nat) option" where
  "read_track payload multitrack_type sizes pos packet_type =
     (if packet_type = multitrack_type then
        (case r_u8 payload pos of
           None \<Rightarrow> None
         | Some (b, pos1) \<Rightarrow>
             (case r_fourcc payload pos1 of
                None \<Rightarrow> None
              | Some (fourcc, pos2) \<Rightarrow>
                  (let (track_id, pos3) =
                         (case r_u8 payload pos2 of None \<Rightarrow> (0, pos2) | Some (t, p) \<Rightarrow> (t, p));
                       pos4 = (if sizes \<and> drop_bit 4 b \<noteq> 0
                               then (case r_skip payload pos3 3 of None \<Rightarrow> pos3 | Some p \<Rightarrow> p)
                               else pos3)
                   in Some (b AND 0x0f, True, track_id, fourcc, pos4))))
      else
        (case r_fourcc payload pos of
           None \<Rightarrow> None
         | Some (fourcc, pos1) \<Rightarrow> Some (packet_type, False, 0, fourcc, pos1)))"

definition inspect_enhanced_video :: "bytes \<Rightarrow> u8 \<Rightarrow> nat \<Rightarrow> video_info option" where
  "inspect_enhanced_video payload b0 pos =
     (let ft = drop_bit 4 b0 AND 0x07 in
      case skip_mod_ex payload 7 16 pos (b0 AND 0x0f) of
        None \<Rightarrow> None
      | Some (packet_type0, pos1) \<Rightarrow>
          if packet_type0 \<noteq> 4 \<and> ft = 5 then Some (command_info b0)
          else
            (case read_track payload 6 True pos1 packet_type0 of
               None \<Rightarrow> None
             | Some (packet_type, multitrack, track_id, fourcc, pos2) \<Rightarrow>
                 (let config = (packet_type = 0 \<or> packet_type = 5);
                      codec = video_codec_from_fourcc fourcc;
                      (composition_time, pos3) =
                        (if packet_type = 1 \<and> (codec = Avc \<or> codec = Hevc)
                         then r_si24_or_0 payload pos2 else (0, pos2));
                      coded = (packet_type = 1 \<or> packet_type = 3);
                      nal_offset =
                        (if codec = Hevc \<and> coded \<and> \<not> multitrack then Some pos3 else None)
                  in Some \<lparr>vi_codec = codec, vi_keyframe = (ft = 1 \<and> coded),
                           vi_config = config,
                           vi_config_class = config_class_of track_id packet_type,
                           vi_enhanced = True, vi_multitrack = multitrack,
                           vi_composition_time = composition_time,
                           vi_hevc_nal_type = nal_type_from payload nal_offset,
                           vi_nal_offset = nal_offset,
                           vi_config_offset =
                             (if codec = Hevc \<and> packet_type = 0 \<and> \<not> multitrack
                              then Some pos3 else None)\<rparr>)))"

definition inspect_video :: "bytes \<Rightarrow> video_info option" where
  "inspect_video payload =
     (case r_u8 payload 0 of
        None \<Rightarrow> None
      | Some (b0, pos) \<Rightarrow>
          if b0 AND 0x80 = 0 then inspect_legacy_video payload b0 pos
          else inspect_enhanced_video payload b0 pos)"

section \<open>Audio messages\<close>

definition inspect_audio :: "bytes \<Rightarrow> audio_info option" where
  "inspect_audio payload =
     (case r_u8 payload 0 of
        None \<Rightarrow> None
      | Some (b0, pos) \<Rightarrow>
          (let format = drop_bit 4 b0 in
           if format \<noteq> 9 then
             (let codec = (if format = 10 then Aac else if format = 2 \<or> format = 14 then Mp3
                           else OtherAudio) in
              case (if codec = Aac then map_option (\<lambda>(t, _). t = 0) (r_u8 payload pos)
                    else Some False) of
                None \<Rightarrow> None
              | Some config \<Rightarrow>
                  Some \<lparr>ai_codec = codec, ai_config = config, ai_config_class = 0,
                        ai_enhanced = False, ai_multitrack = False\<rparr>)
           else
             (case skip_mod_ex payload 7 16 pos (b0 AND 0x0f) of
                None \<Rightarrow> None
              | Some (packet_type0, pos1) \<Rightarrow>
                  (case read_track payload 5 False pos1 packet_type0 of
                     None \<Rightarrow> None
                   | Some (packet_type, multitrack, track_id, fourcc, pos2) \<Rightarrow>
                       Some \<lparr>ai_codec = audio_codec_from_fourcc fourcc,
                             ai_config = (packet_type = 0 \<or> packet_type = 4),
                             ai_config_class = config_class_of track_id packet_type,
                             ai_enhanced = True, ai_multitrack = multitrack\<rparr>))))"

section \<open>The rewrite of CRA slices\<close>

lemma u8_eqI:
  fixes a b :: u8
  assumes "bit a 0 = bit b 0" "bit a 1 = bit b 1" "bit a 2 = bit b 2" "bit a 3 = bit b 3"
    "bit a 4 = bit b 4" "bit a 5 = bit b 5" "bit a 6 = bit b 6" "bit a 7 = bit b 7"
  shows "a = b"
proof (rule bit_eqI)
  fix n assume "possible_bit TYPE(u8) n"
  then have "n < 8" by simp
  then have "n \<in> {0, 1, 2, 3, 4, 5, 6, 7}" by auto
  with assms show "bit a n = bit b n" by auto
qed

lemma nal_type_as_bla: "nal_type (as_bla x) = BLA_W_LP"
  unfolding nal_type_def as_bla_def BLA_W_LP_def
  by (rule u8_eqI) (simp_all add: bit_simps)

lemma as_bla_keeps_layer: "as_bla x AND 0x81 = x AND 0x81"
  unfolding as_bla_def BLA_W_LP_def
  by (rule u8_eqI) (simp_all add: bit_simps)

text \<open>The positions of the NAL unit headers that a scan from \<open>pos\<close> meets.\<close>

function nal_headers :: "bytes \<Rightarrow> nat \<Rightarrow> nat list" where
  "nal_headers b pos =
     (if pos + 5 \<le> length b \<and> len_at b pos \<noteq> 0 \<and> pos + 4 + len_at b pos \<le> length b
      then (pos + 4) # nal_headers b (pos + 4 + len_at b pos) else [])"
  by pat_completeness auto
termination
  by (relation "measure (\<lambda>(b, pos). length b - pos)") auto

declare nal_headers.simps [simp del]

text \<open>The reference rewrite: every CRA header in \<open>hs\<close> as BLA, everything else as it was.\<close>

definition rewrite_cra :: "nat list \<Rightarrow> bytes \<Rightarrow> bytes" where
  "rewrite_cra hs b =
     map (\<lambda>i. if i \<in> set hs \<and> nal_type (b ! i) = CRA then as_bla (b ! i) else b ! i)
       [0..<length b]"

lemma nal_headers_bounds: "h \<in> set (nal_headers b pos) \<Longrightarrow> pos + 4 \<le> h \<and> h < length b"
proof (induction b pos rule: nal_headers.induct)
  case (1 b pos)
  show ?case
  proof (cases "pos + 5 \<le> length b \<and> len_at b pos \<noteq> 0 \<and> pos + 4 + len_at b pos \<le> length b")
    case True
    with "1.prems" have "h = pos + 4 \<or> h \<in> set (nal_headers b (pos + 4 + len_at b pos))"
      by (simp add: nal_headers.simps [of b pos])
    then show ?thesis using "1.IH" [OF True] True by auto
  next
    case False
    with "1.prems" show ?thesis by (subst (asm) nal_headers.simps) auto
  qed
qed

lemma len_at_update: "i < pos \<Longrightarrow> len_at (b[i := x]) pos = len_at b pos"
  by (simp add: len_at_def)

lemma nal_headers_update: "i < pos \<Longrightarrow> nal_headers (b[i := x]) pos = nal_headers b pos"
proof (induction b pos rule: nal_headers.induct)
  case (1 b pos)
  then show ?case
    by (simp add: nal_headers.simps [of b pos] nal_headers.simps [of "b[i := x]" pos] len_at_update)
qed

lemma rewrite_cra_Nil [simp]: "rewrite_cra [] b = b"
  by (simp add: rewrite_cra_def map_nth)

lemma length_rewrite_cra [simp]: "length (rewrite_cra hs b) = length b"
  by (simp add: rewrite_cra_def)

lemma rewrite_cra_nth: "i < length b \<Longrightarrow> rewrite_cra hs b ! i =
    (if i \<in> set hs \<and> nal_type (b ! i) = CRA then as_bla (b ! i) else b ! i)"
  by (simp add: rewrite_cra_def)

lemma cra_loop_eq:
  "cra_loop out pos changed =
     (rewrite_cra (nal_headers out pos) out,
      changed \<or> (\<exists>h \<in> set (nal_headers out pos). nal_type (out ! h) = CRA))"
proof (induction out pos changed rule: cra_loop.induct)
  case (1 out pos changed)
  let ?len = "len_at out pos" and ?h = "pos + 4"
  show ?case
  proof (cases "pos + 5 \<le> length out \<and> ?len \<noteq> 0 \<and> ?h + ?len \<le> length out")
    case False
    then show ?thesis
      by (auto simp: cra_loop.simps [of out pos] nal_headers.simps [of out pos] Let_def)
  next
    case True
    define rest where "rest = nal_headers out (?h + ?len)"
    have hs: "nal_headers out pos = ?h # rest"
      using True by (simp add: nal_headers.simps [of out pos] rest_def)
    have later: "h \<noteq> ?h" if "h \<in> set rest" for h
      using nal_headers_bounds [of h out "?h + ?len"] that by (auto simp: rest_def)
    show ?thesis
    proof (cases "nal_type (out ! ?h) = CRA")
      case cra: True
      let ?out = "out[?h := as_bla (out ! ?h)]"
      have rest': "nal_headers ?out (?h + ?len) = rest"
        using True by (simp add: rest_def nal_headers_update)
      have "cra_loop out pos changed = cra_loop ?out (?h + ?len) True"
        using True cra by (simp add: cra_loop.simps [of out pos] Let_def)
      also have "\<dots> = (rewrite_cra rest ?out, True)"
        using "1.IH"(1) [of ?len ?h] True cra by (simp add: rest')
      also have "rewrite_cra rest ?out = rewrite_cra (?h # rest) out"
        using True cra later by (intro nth_equalityI) (auto simp: rewrite_cra_nth nth_list_update)
      finally show ?thesis using cra by (simp add: hs)
    next
      case no: False
      have "cra_loop out pos changed = cra_loop out (?h + ?len) changed"
        using True no by (simp add: cra_loop.simps [of out pos] Let_def)
      also have "\<dots> = (rewrite_cra rest out, changed \<or> (\<exists>h \<in> set rest. nal_type (out ! h) = CRA))"
        using "1.IH"(2) [of ?len ?h] True no by (simp add: rest_def)
      also have "rewrite_cra rest out = rewrite_cra (?h # rest) out"
        using no by (intro nth_equalityI) (auto simp: rewrite_cra_nth)
      finally show ?thesis using no by (simp add: hs)
    qed
  qed
qed

text \<open>
  The BLA rewrite is exactly the reference rewrite: the result has the length of the
  payload, every NAL unit header that a scan from the offset meets and that is a CRA has its
  type changed to BLA (its layer bits stay), every other byte is as it was; and there is no
  result exactly when the scan meets no CRA.
\<close>

theorem cra_to_bla_correct:
  "cra_to_bla payload offset =
     (if \<exists>h \<in> set (nal_headers payload offset). nal_type (payload ! h) = CRA
      then Some (rewrite_cra (nal_headers payload offset) payload) else None)"
  by (simp add: cra_to_bla_def cra_loop_eq)

lemma take_drop_Cons:
  "k < length xs \<Longrightarrow> n \<noteq> 0 \<Longrightarrow> take n (drop k xs) = xs ! k # take (n - 1) (drop (Suc k) xs)"
  by (cases n) (simp_all add: Cons_nth_drop_Suc [symmetric])

text \<open>\<open>first_hevc_vcl\<close> as a scan of the payload by position.\<close>

lemma first_hevc_vcl_drop:
  "first_hevc_vcl (drop pos b) =
     (if pos + 6 \<le> length b \<and> len_at b pos \<noteq> 0 \<and> pos + 4 + len_at b pos \<le> length b
      then if nal_type (b ! (pos + 4)) < 32 then Some (nal_type (b ! (pos + 4)))
           else first_hevc_vcl (drop (pos + 4 + len_at b pos) b)
      else None)"
proof (cases "pos + 6 \<le> length b")
  case False
  then have "\<not> 6 \<le> length (drop pos b)" by auto
  with False show ?thesis by (simp add: first_hevc_vcl.simps [of "drop pos b"])
next
  case True
  have len: "len_at (drop pos b) 0 = len_at b pos"
    using True by (simp add: len_at_def add.commute)
  have slice: "slice_opt (drop pos b) 4 (len_at b pos) =
      (if pos + 4 + len_at b pos \<le> length b
       then Some (take (len_at b pos) (drop (pos + 4) b)) else None)"
    using True by (auto simp: slice_opt_def add.commute)
  have nal: "take (len_at b pos) (drop (pos + 4) b) =
      b ! (pos + 4) # take (len_at b pos - 1) (drop (Suc (pos + 4)) b)"
    if "len_at b pos \<noteq> 0"
    using that True by (intro take_drop_Cons) auto
  have rest: "drop (4 + len_at b pos) (drop pos b) = drop (pos + 4 + len_at b pos) b"
    by (simp add: ac_simps)
  have long: "6 \<le> length (drop pos b)" using True by simp
  note unfolded = first_hevc_vcl.simps [of "drop pos b"] if_P [OF long] Let_def len slice rest
  show ?thesis
  proof (cases "len_at b pos = 0")
    case zero: True
    show ?thesis unfolding unfolded using True by (simp add: zero)
  next
    case False
    then show ?thesis unfolding unfolded using True by (simp add: nal)
  qed
qed

lemma first_hevc_vcl_rewrite:
  assumes "length b' = length b"
    and "\<And>i. pos \<le> i \<Longrightarrow> i < length b \<Longrightarrow> b' ! i =
      (if i \<in> set (nal_headers b pos) \<and> nal_type (b ! i) = CRA then as_bla (b ! i) else b ! i)"
  shows "first_hevc_vcl (drop pos b') =
    map_option (\<lambda>t. if t = CRA then BLA_W_LP else t) (first_hevc_vcl (drop pos b))"
  using assms
proof (induction b pos rule: nal_headers.induct)
  case (1 b pos)
  let ?len = "len_at b pos" and ?h = "pos + 4"
  show ?case
  proof (cases "pos + 6 \<le> length b")
    case False
    with "1.prems"(1) show ?thesis by (simp add: first_hevc_vcl_drop [of pos])
  next
    case long: True
    have "len_at b' pos = ?len"
    proof -
      have "b' ! i = b ! i" if "pos \<le> i" "i < ?h" for i
        using "1.prems"(2) [of i] nal_headers_bounds [of i b pos] that long by auto
      then show ?thesis by (simp add: len_at_def)
    qed
    note same = this
    show ?thesis
    proof (cases "?len \<noteq> 0 \<and> ?h + ?len \<le> length b")
      case False
      with "1.prems"(1) same show ?thesis by (auto simp: first_hevc_vcl_drop [of pos])
    next
      case True
      have hs: "nal_headers b pos = ?h # nal_headers b (?h + ?len)"
        using True long by (simp add: nal_headers.simps [of b pos])
      have head: "b' ! ?h = (if nal_type (b ! ?h) = CRA then as_bla (b ! ?h) else b ! ?h)"
        using "1.prems"(2) [of ?h] hs long by simp
      have IH: "first_hevc_vcl (drop (?h + ?len) b') =
          map_option (\<lambda>t. if t = CRA then BLA_W_LP else t) (first_hevc_vcl (drop (?h + ?len) b))"
        using True long "1.prems" hs by (intro "1.IH") auto
      show ?thesis
        using "1.prems"(1) same True long head IH
        by (auto simp: first_hevc_vcl_drop [of pos] nal_type_as_bla CRA_def BLA_W_LP_def)
    qed
  qed
qed

text \<open>
  A payload whose first slice is a CRA is always rewritten, and whoever inspects the
  result (the engine at the next dump, the order-count guard) sees a BLA there.
\<close>

theorem bla_is_seen:
  assumes "first_hevc_vcl (drop offset payload) = Some CRA"
  shows "\<exists>out. cra_to_bla payload offset = Some out \<and> length out = length payload \<and>
    first_hevc_vcl (drop offset out) = Some BLA_W_LP"
proof -
  have spliced: "first_hevc_vcl (drop offset (rewrite_cra (nal_headers payload offset) payload)) =
      Some BLA_W_LP"
    by (subst first_hevc_vcl_rewrite [of _ payload]) (auto simp: rewrite_cra_nth assms)
  have "\<exists>h \<in> set (nal_headers payload offset). nal_type (payload ! h) = CRA"
    using assms
  proof (induction payload offset rule: nal_headers.induct)
    case (1 b pos)
    then show ?case
      by (subst nal_headers.simps) (auto simp: first_hevc_vcl_drop [of pos] split: if_splits)
  qed
  then show ?thesis using spliced by (simp add: cra_to_bla_def cra_loop_eq)
qed

theorem bla_is_seen_witness:
  "first_hevc_vcl (drop 1 [0, 0, 0, 0, 3, 42, 1, 175]) = Some CRA \<and>
   (\<exists>out. cra_to_bla [0, 0, 0, 0, 3, 42, 1, 175] 1 = Some out \<and> length out = length [0, 0, 0, 0, 3, 42, 1, 175 :: u8] \<and>
     first_hevc_vcl (drop 1 out) = Some BLA_W_LP)"
proof -
  have "first_hevc_vcl (drop 1 [0, 0, 0, 0, 3, 42, 1, 175]) = Some CRA" by code_simp
  with bla_is_seen [OF this] show ?thesis by simp
qed

section \<open>What an inspection promises\<close>

lemma skip_mod_ex_pos:
  "skip_mod_ex b m left pos t = Some (t', pos') \<Longrightarrow> pos \<le> length b \<Longrightarrow> pos' \<le> length b"
proof (induction b m left pos t rule: skip_mod_ex.induct)
  case (1 b m left pos t)
  then show ?case
    by (subst (asm) skip_mod_ex.simps)
      (auto simp: r_u8_def r_skip_def get_opt_def split: if_splits nat.splits option.splits)
qed

lemma read_track_pos:
  "read_track b mt sizes pos t = Some (t', m, i, f, pos') \<Longrightarrow> pos' \<le> length b"
  by (auto simp: read_track_def r_u8_def r_fourcc_def r_skip_def get_opt_def slice_opt_def Let_def
      split: if_splits option.splits prod.splits)

lemma r_u8_pos: "r_u8 b pos = Some (v, pos') \<Longrightarrow> pos < length b \<and> pos' = pos + 1"
  by (auto simp: r_u8_def get_opt_def split: if_splits)

lemma r_si24_or_0_pos:
  "r_si24_or_0 b pos = (c, pos') \<Longrightarrow> pos \<le> length b \<Longrightarrow> pos' \<le> length b"
  by (auto simp: r_si24_or_0_def slice_opt_def split: if_splits option.splits)

lemma nal_type_from_None [simp]: "nal_type_from b None = None"
  by (simp add: nal_type_from_def)

definition video_info_ok :: "bytes \<Rightarrow> video_info \<Rightarrow> bool" where
  "video_info_ok b i \<longleftrightarrow>
     \<not> (vi_keyframe i \<and> vi_config i) \<and>
     (\<forall>o'. vi_nal_offset i = Some o' \<longrightarrow> vi_codec i = Hevc \<and> o' \<le> length b) \<and>
     vi_hevc_nal_type i = nal_type_from b (vi_nal_offset i)"

lemma command_info_ok: "video_info_ok b (command_info b0)"
  by (simp add: video_info_ok_def command_info_def)

lemma inspect_legacy_video_ok:
  assumes "inspect_legacy_video b b0 pos = Some i" and "pos \<le> length b"
  shows "video_info_ok b i"
proof (cases "drop_bit 4 b0 = (5 :: u8)")
  case True
  with assms show ?thesis by (auto simp: inspect_legacy_video_def command_info_ok)
next
  case False
  with assms show ?thesis
    unfolding inspect_legacy_video_def Let_def
    by (auto simp: video_info_ok_def split: if_splits option.splits prod.splits
        dest!: r_u8_pos dest: r_si24_or_0_pos)
qed

lemma inspect_enhanced_video_ok:
  assumes "inspect_enhanced_video b b0 pos = Some i" and "pos \<le> length b"
  shows "video_info_ok b i"
proof -
  from assms(1) consider "i = command_info b0"
    | t p t' m tr f p' where "skip_mod_ex b 7 16 pos (b0 AND 0x0f) = Some (t, p)"
      "read_track b 6 True p t = Some (t', m, tr, f, p')"
      "video_info_ok b i \<or> i = i"
    unfolding inspect_enhanced_video_def Let_def
    by (auto split: if_splits option.splits prod.splits)
  then show ?thesis
  proof cases
    case 1
    then show ?thesis by (simp add: command_info_ok)
  next
    case 2
    then have "p' \<le> length b" by (blast dest: read_track_pos)
    with 2(1,2) assms(1) show ?thesis
      unfolding inspect_enhanced_video_def Let_def
      by (auto simp: video_info_ok_def command_info_def split: if_splits prod.splits
          dest: r_si24_or_0_pos)
  qed
qed

lemma inspect_video_ok:
  assumes "inspect_video payload = Some i"
  shows "payload \<noteq> [] \<and> video_info_ok payload i"
proof (cases payload)
  case Nil
  with assms show ?thesis by (simp add: inspect_video_def r_u8_def get_opt_def)
next
  case (Cons b0 rest)
  then have "r_u8 payload 0 = Some (b0, 1)" and "1 \<le> length payload"
    by (simp_all add: r_u8_def get_opt_def)
  with assms Cons show ?thesis
    by (auto simp: inspect_video_def split: if_splits
        dest: inspect_legacy_video_ok inspect_enhanced_video_ok)
qed

text \<open>
  Inspection of a video message is sound: a result needs a non-empty body; a message is
  never both a keyframe and decoder configuration (so a splice point is never taken for a
  header and left out as a repeat); the NAL offset, which only HEVC has, lies within the
  payload, so reading and rewriting from it stays in bounds; and the NAL type is the one
  found there.
\<close>

theorem inspect_video_sound:
  assumes "inspect_video payload = Some i"
  shows "payload \<noteq> [] \<and> video_info_ok payload i"
  using assms by (rule inspect_video_ok)

theorem inspect_video_sound_witness:
  "inspect_video [0x27, 0x01, 0xff, 0xff, 0xfe] \<noteq> None \<and>
   video_info_ok [0x27, 0x01, 0xff, 0xff, 0xfe] (the (inspect_video [0x27, 0x01, 0xff, 0xff, 0xfe]))"
proof -
  have "\<exists>i. inspect_video [0x27, 0x01, 0xff, 0xff, 0xfe] = Some i"
    by (simp add: inspect_video_def r_u8_def get_opt_def inspect_legacy_video_def Let_def
        r_si24_or_0_def slice_opt_def)
  then obtain i where i: "inspect_video [0x27, 0x01, 0xff, 0xff, 0xfe] = Some i" ..
  then show ?thesis using inspect_video_sound [OF i] by simp
qed

end
