(* ===== verification/Engine_Types.thy ===== *)
theory Engine_Types
  imports Flv
begin

text \<open>
  The data of the delay engine (\<^verbatim>\<open>crates/engine/src/lib.rs\<close>) and of its ingest
  statistics (\<^verbatim>\<open>crates/engine/src/snapshot.rs\<close>). Times are microseconds and sequence
  numbers are counters, both \<^verbatim>\<open>u64\<close>, here \<open>nat\<close>: they would wrap after more
  than half a million years. Offsets and presentation times (\<^verbatim>\<open>i64\<close>) are \<open>int\<close>.
  What is truncated in the source, the 32-bit timestamp of an output message, is a
  \<open>32 word\<close> here. Fields carry a prefix for their record, since the engine, its
  output, its sessions and its entries share names such as \<^verbatim>\<open>next_seq\<close>.
\<close>

section \<open>Constants\<close>

definition MS :: nat where "MS = 1000"
definition SEC :: nat where "SEC = 1000000"

definition MAX_HEADERS :: nat where "MAX_HEADERS = 64"
definition MAX_HEADER_BYTES :: nat where "MAX_HEADER_BYTES = 1024 * 1024"
definition HEADER_SHARE_OF_RAM_CAP :: nat where "HEADER_SHARE_OF_RAM_CAP = 8"
definition MAX_METADATA_BYTES :: nat where "MAX_METADATA_BYTES = 64 * 1024"
definition REPLAY_GAP_HELD_AFTER :: nat where "REPLAY_GAP_HELD_AFTER = 2 * SEC"
definition SLATE_CONFIRM_WAIT :: nat where "SLATE_CONFIRM_WAIT = 2 * SEC"

text \<open>
  \<^verbatim>\<open>size_of::<Entry>() + 64\<close>: 88 bytes for the entry on a 64-bit target. No
  theorem depends on the value.
\<close>

definition ENTRY_OVERHEAD :: nat where "ENTRY_OVERHEAD = 88 + 64"

definition cost :: "nat \<Rightarrow> nat" where
  "cost len = len + ENTRY_OVERHEAD"

section \<open>Configuration, commands and results\<close>

record engine_config =
  max_delay_ms :: nat
  headroom_ms :: nat
  ram_cap_bytes :: nat
  mask_margin_ms :: nat
  mute_under_slate :: bool
  keep_history :: bool
  restore_after_reconnect :: bool

definition default_config :: engine_config where
  "default_config =
     \<lparr>max_delay_ms = 120000, headroom_ms = 10000, ram_cap_bytes = 512 * 1024 * 1024,
      mask_margin_ms = 1500, mute_under_slate = True, keep_history = True,
      restore_after_reconnect = False\<rparr>"

datatype kind = Audio | Video | Data

text \<open>\<^verbatim>\<open>Kind::index\<close> orders the kinds; the library's order follows it.\<close>

fun kind_index :: "kind \<Rightarrow> nat" where
  "kind_index Audio = 0"
| "kind_index Video = 1"
| "kind_index Data = 2"

lemma kind_index_inj: "kind_index a = kind_index b \<Longrightarrow> a = b"
  by (cases a; cases b) auto

instantiation kind :: linorder
begin

definition less_eq_kind :: "kind \<Rightarrow> kind \<Rightarrow> bool" where
  "less_eq_kind a b \<longleftrightarrow> kind_index a \<le> kind_index b"

definition less_kind :: "kind \<Rightarrow> kind \<Rightarrow> bool" where
  "less_kind a b \<longleftrightarrow> kind_index a < kind_index b"

instance
  by standard (auto simp: less_eq_kind_def less_kind_def intro: kind_index_inj)

end

record out_msg =
  m_kind :: kind
  m_timestamp :: u32
  m_payload :: bytes
  m_seq :: "nat option"

datatype delay_mode = Rewind | MaskMode

datatype go_live_when = Now | WhenAired

datatype command =
    SetDelay nat delay_mode
  | GoLive go_live_when
  | Cancel
  | DumpCmd delay_mode bool
  | SlateShown nat

datatype dump_outcome = DumpReplay | DumpCover | DumpHold

record ack =
  target_ms :: nat
  effective_ms :: nat
  ack_pending :: bool
  ack_history_short :: bool
  ack_dump :: "dump_outcome option"

datatype engine_error =
    TooLarge nat nat
  | NothingToDump
  | NotEnoughMemory nat nat

section \<open>The buffer\<close>

record entry_rec =
  e_seq :: nat
  e_arrival :: nat
  e_session :: nat
  e_kind :: kind
  e_ts :: nat
  e_payload :: bytes
  e_sync :: bool
  e_config :: "u16 option"
  e_cts :: int
  e_hevc_nal :: "u8 option"
  e_nal_offset :: "nat option"

record header_rec =
  h_seq :: nat
  h_kind :: kind
  h_class :: u16
  h_payload :: bytes

record headers =
  hd_metadata :: "bytes option"
  hd_config :: "(kind \<times> u16 \<times> bytes) list"

record session =
  s_id :: nat
  s_headers :: "header_rec list"
  s_metadata :: "bytes option"
  s_has_video :: bool
  s_last_video_ts :: "nat option"
  s_frame_ms :: nat

definition header_cost :: "header_rec \<Rightarrow> nat" where
  "header_cost h = cost (length (h_payload h))"

text \<open>\<^verbatim>\<open>Session::cost\<close>\<close>

definition session_cost :: "session \<Rightarrow> nat" where
  "session_cost s =
     cost (case s_metadata s of None \<Rightarrow> 0 | Some m \<Rightarrow> length m) +
     sum_list (map header_cost (s_headers s))"

section \<open>Pending changes\<close>

text \<open>
  The arguments of \<open>Mask\<close> are the delay, when it started, the anchor, whether audio is
  muted, when the slate was shown, and whether it covers a dump; those of \<open>Dump\<close> the
  delay, when it started, from where on, and when the slate was shown; those of \<open>Hold\<close>
  and \<open>Replay\<close> from where on, and the delay.
\<close>

datatype pending =
    PendNone
  | GoLiveNow nat
  | AfterAir nat
  | Reduce nat
  | Mask nat nat "nat option" bool "nat option" bool
  | Dump nat nat nat "nat option"
  | Hold nat nat
  | Replay nat nat

fun covers :: "pending \<Rightarrow> bool" where
  "covers (Mask _ _ _ _ _ _) = True"
| "covers (Dump _ _ _ _) = True"
| "covers _ = False"

fun after_dump :: "pending \<Rightarrow> bool" where
  "after_dump (Replay _ _) = True"
| "after_dump (Hold _ _) = True"
| "after_dump (Dump _ _ _ _) = True"
| "after_dump (Mask _ _ _ _ _ dump) = dump"
| "after_dump _ = False"

text \<open>
  \<^verbatim>\<open>dump_delay_mut\<close>: for a dump building the delay back up, the pending change with
  another delay; \<open>None\<close> for every other change.
\<close>

fun with_dump_delay :: "nat \<Rightarrow> pending \<Rightarrow> pending option" where
  "with_dump_delay d (Replay from _) = Some (Replay from d)"
| "with_dump_delay d (Hold from _) = Some (Hold from d)"
| "with_dump_delay d (Dump _ started from shown) = Some (Dump d started from shown)"
| "with_dump_delay d (Mask _ started anchor mute shown True) =
     Some (Mask d started anchor mute shown True)"
| "with_dump_delay d _ = None"

definition cancellable :: "pending \<Rightarrow> bool" where
  "cancellable p \<longleftrightarrow> p \<noteq> PendNone \<and> \<not> after_dump p"

record hold_frame =
  hf_payload :: bytes
  hf_cts :: int
  hf_frame_ms :: nat
  hf_headers :: headers
  hf_last :: nat
  hf_next :: nat
  hf_needs_headers :: bool

section \<open>Output and engine\<close>

record output_state =
  o_connected :: bool
  o_generation :: nat
  o_next_seq :: nat
  o_delay :: nat
  o_target :: nat
  o_ts_offset :: int
  o_fresh :: bool
  o_need_sync :: bool
  o_started :: bool
  o_current_session :: "nat option"
  o_last_out_ts :: nat
  o_last_kind_ts :: "kind \<Rightarrow> nat option"
  o_last_pts :: int
  o_skip_leading_after :: "nat option"
  o_gate :: "(nat \<times> nat) option"
  o_pending_headers :: bool
  o_sent_headers :: "(kind \<times> u16 \<times> u64) list"
  o_sent_metadata :: "bytes option"
  o_pending :: pending
  o_mask_visible :: bool
  o_history_short :: bool
  o_history_then :: nat
  o_memory_short :: bool
  o_hold :: "hold_frame option"
  o_slate_change :: nat
  o_slate_unconfirmed :: bool
  o_cover_lost :: bool
  o_grew_on_reconnect :: bool
  o_end_mark :: "nat option"
  o_splices :: nat
  o_dropped :: nat
  o_sent_bytes :: nat
  o_first_emitted :: "nat option"

record tracker =
  t_window :: "(nat \<times> nat \<times> bool) list"
  t_video_codec :: "video_codec option"
  t_audio_codec :: "audio_codec option"
  t_last_key_ts :: "nat option"
  t_gop_ms :: "nat option"
  t_enhanced :: bool
  t_multitrack :: bool

record engine =
  config :: engine_config
  ring :: "entry_rec list"
  syncs :: "nat list"
  base_seq :: nat
  next_seq :: nat
  bytes_held :: nat
  sessions :: "session list"
  session_bytes :: nat
  ingest_active :: bool
  next_session :: nat
  out :: output_state
  stats :: tracker

definition new_tracker :: tracker where
  "new_tracker =
     \<lparr>t_window = [], t_video_codec = None, t_audio_codec = None, t_last_key_ts = None,
      t_gop_ms = None, t_enhanced = False, t_multitrack = False\<rparr>"

definition new_output :: output_state where
  "new_output =
     \<lparr>o_connected = False, o_generation = 0, o_next_seq = 0, o_delay = 0, o_target = 0,
      o_ts_offset = 0, o_fresh = True, o_need_sync = True, o_started = False,
      o_current_session = None, o_last_out_ts = 0, o_last_kind_ts = (\<lambda>_. None),
      o_last_pts = 0, o_skip_leading_after = None, o_gate = None, o_pending_headers = False,
      o_sent_headers = [], o_sent_metadata = None, o_pending = PendNone,
      o_mask_visible = False, o_history_short = False, o_history_then = 0,
      o_memory_short = False, o_hold = None, o_slate_change = 0,
      o_slate_unconfirmed = False, o_cover_lost = False, o_grew_on_reconnect = False,
      o_end_mark = None, o_splices = 0, o_dropped = 0, o_sent_bytes = 0,
      o_first_emitted = None\<rparr>"

text \<open>\<^verbatim>\<open>Engine::new\<close>\<close>

definition new_engine :: "engine_config \<Rightarrow> engine" where
  "new_engine c =
     \<lparr>config = c, ring = [], syncs = [], base_seq = 0, next_seq = 0, bytes_held = 0,
      sessions = [], session_bytes = 0, ingest_active = False, next_session = 1,
      out = new_output, stats = new_tracker\<rparr>"

section \<open>Ingest statistics\<close>

definition WINDOW :: nat where "WINDOW = 2 * SEC"

definition tracker_video :: "nat \<Rightarrow> video_info \<Rightarrow> nat \<Rightarrow> tracker \<Rightarrow> tracker" where
  "tracker_video now info ts t =
     (let t = t\<lparr>t_video_codec :=
                  (if vi_codec info \<noteq> OtherVideo then Some (vi_codec info) else t_video_codec t),
                t_enhanced := (t_enhanced t \<or> vi_enhanced info),
                t_multitrack := (t_multitrack t \<or> vi_multitrack info)\<rparr>;
          t = (if vi_keyframe info
               then t\<lparr>t_gop_ms := (case t_last_key_ts t of
                                      Some l \<Rightarrow> Some (ts - l) | None \<Rightarrow> t_gop_ms t),
                      t_last_key_ts := Some ts\<rparr>
               else t)
      in if \<not> vi_config info then t\<lparr>t_window := t_window t @ [(now, 0, True)]\<rparr> else t)"

definition tracker_audio :: "audio_info \<Rightarrow> tracker \<Rightarrow> tracker" where
  "tracker_audio info t =
     t\<lparr>t_audio_codec :=
         (if ai_codec info \<noteq> OtherAudio then Some (ai_codec info) else t_audio_codec t),
       t_enhanced := (t_enhanced t \<or> ai_enhanced info),
       t_multitrack := (t_multitrack t \<or> ai_multitrack info)\<rparr>"

definition bitrate_bps :: "tracker \<Rightarrow> nat" where
  "bitrate_bps t = (sum_list (map (\<lambda>(_, n, _). n) (t_window t)) * 8 * SEC) div WINDOW"

definition tracker_bytes :: "nat \<Rightarrow> nat \<Rightarrow> tracker \<Rightarrow> tracker" where
  "tracker_bytes now n t =
     t\<lparr>t_window := dropWhile (\<lambda>(at, _, _). at + WINDOW < now) (t_window t @ [(now, n, False)])\<rparr>"

end
