(* ===== verification/Engine_Buffer.thy ===== *)
theory Engine_Buffer
  imports Engine_Types
begin

text \<open>
  The ring buffer of the engine: messages in arrival order with contiguous sequence
  numbers, the index of those the output can start from (\<^verbatim>\<open>syncs\<close>), and the encoder
  sessions with the decoder configuration kept for them. This theory holds the operations
  that read and drop, the invariant \<open>buf_wf\<close>, and the contract of the keyframe index
  (\<open>keyframe_index\<close>) that the output side relies on.
\<close>

section \<open>Reading\<close>

definition entry :: "engine \<Rightarrow> nat \<Rightarrow> entry_rec option" where
  "entry e s = (if s < base_seq e then None else get_opt (ring e) (s - base_seq e))"

text \<open>The arrival time of entry \<open>s\<close>, or \<open>d\<close> where there is none.\<close>

definition arrival_or :: "nat \<Rightarrow> engine \<Rightarrow> nat \<Rightarrow> nat" where
  "arrival_or d e s = (case entry e s of Some x \<Rightarrow> e_arrival x | None \<Rightarrow> d)"

definition arrived_by :: "engine \<Rightarrow> nat \<Rightarrow> nat \<Rightarrow> bool" where
  "arrived_by e t s \<longleftrightarrow> (case entry e s of Some x \<Rightarrow> e_arrival x \<le> t | None \<Rightarrow> False)"

definition arrived_from :: "engine \<Rightarrow> nat \<Rightarrow> nat \<Rightarrow> bool" where
  "arrived_from e t s \<longleftrightarrow> (case entry e s of Some x \<Rightarrow> t \<le> e_arrival x | None \<Rightarrow> False)"

definition sync_at_or_before :: "engine \<Rightarrow> nat \<Rightarrow> nat option" where
  "sync_at_or_before e s = find_last (\<lambda>k. k \<le> s) (syncs e)"

definition newest_sync_arrived_by :: "engine \<Rightarrow> nat option \<Rightarrow> nat option" where
  "newest_sync_arrived_by e t =
     (case t of None \<Rightarrow> None | Some t \<Rightarrow> find_last (arrived_by e t) (syncs e))"

text \<open>\<^verbatim>\<open>now.checked_sub(d)\<close>\<close>

definition checked_sub :: "nat \<Rightarrow> nat \<Rightarrow> nat option" where
  "checked_sub a b = (if b \<le> a then Some (a - b) else None)"

definition restart_point :: "engine \<Rightarrow> nat option" where
  "restart_point e =
     (if o_started (out e)
      then Some (case sync_at_or_before e (o_next_seq (out e)) of
                   Some k \<Rightarrow> k | None \<Rightarrow> o_next_seq (out e))
      else None)"

definition gap_after :: "engine \<Rightarrow> nat \<Rightarrow> nat \<Rightarrow> bool" where
  "gap_after e k over =
     (let interval =
            (case find_last (\<lambda>s. s < k) (syncs e) of
               None \<Rightarrow> None
             | Some p \<Rightarrow>
                 (case (entry e k, entry e p) of
                    (Some x, Some y) \<Rightarrow> Some (e_arrival x - e_arrival y)
                  | _ \<Rightarrow> None));
          later = (case last_opt (syncs e) of Some s \<Rightarrow> k < s | None \<Rightarrow> False)
      in later \<and> (case interval of Some i \<Rightarrow> i < over | None \<Rightarrow> False))"

definition next_session_start :: "engine \<Rightarrow> nat \<Rightarrow> nat" where
  "next_session_start e s =
     (case find (\<lambda>x. s < e_session x) (ring e) of Some x \<Rightarrow> e_seq x | None \<Rightarrow> next_seq e)"

text \<open>\<^verbatim>\<open>Engine::frame_ms\<close>: 33 ms while unknown.\<close>

definition frame_ms :: "engine \<Rightarrow> nat \<Rightarrow> nat" where
  "frame_ms e sid =
     (case find (\<lambda>s. s_id s = sid) (sessions e) of Some s \<Rightarrow> s_frame_ms s | None \<Rightarrow> 33)"

definition clamp :: "nat \<Rightarrow> nat \<Rightarrow> nat \<Rightarrow> nat" where
  "clamp lo hi x = max lo (min hi x)"

definition keyframe_interval :: "engine \<Rightarrow> nat" where
  "keyframe_interval e =
     (case t_gop_ms (stats e) of None \<Rightarrow> 2 * SEC | Some ms \<Rightarrow> clamp 1 60000 ms * MS)"

definition drained :: "engine \<Rightarrow> bool" where
  "drained e \<longleftrightarrow> next_seq e \<le> o_next_seq (out e)"

definition has_buffered :: "engine \<Rightarrow> bool" where
  "has_buffered e \<longleftrightarrow> ring e \<noteq> []"

definition last_seq :: "engine \<Rightarrow> nat option" where
  "last_seq e = checked_sub (next_seq e) 1"

definition effective_delay :: "engine \<Rightarrow> nat" where
  "effective_delay e = (if o_started (out e) then o_delay (out e) else o_target (out e))"

section \<open>Dropping\<close>

definition count_sessions :: "engine \<Rightarrow> engine" where
  "count_sessions e = e\<lparr>session_bytes := sum_list (map session_cost (sessions e))\<rparr>"

text \<open>
  The inner loop of \<^verbatim>\<open>forget_headers\<close> over one session's headers: a header goes when
  a later one of its kind and class came before \<open>base\<close>.
\<close>

fun forget_replaced :: "nat \<Rightarrow> header_rec list \<Rightarrow> header_rec list" where
  "forget_replaced base [] = []"
| "forget_replaced base (h # hs) =
     (if list_ex (\<lambda>n. h_kind n = h_kind h \<and> h_class n = h_class h \<and> h_seq n < base) hs
      then forget_replaced base hs else h # forget_replaced base hs)"

definition forget_headers :: "engine \<Rightarrow> engine" where
  "forget_headers e =
     (let keep = (\<lambda>s. s\<lparr>s_headers := forget_replaced (base_seq e) (s_headers s)\<rparr>);
          changed = list_ex (\<lambda>s. forget_replaced (base_seq e) (s_headers s) \<noteq> s_headers s)
                      (sessions e);
          e' = e\<lparr>sessions := map keep (sessions e)\<rparr>
      in if changed then count_sessions e' else e')"

definition forget_sessions :: "engine \<Rightarrow> engine" where
  "forget_sessions e0 =
     (let e = forget_headers e0 in
      case ring e of
        [] \<Rightarrow> e
      | front # _ \<Rightarrow>
          (let oldest = e_session front in
           if (case sessions e of s # _ \<Rightarrow> s_id s < oldest | [] \<Rightarrow> False)
           then (let current = map_option s_id (last_opt (sessions e)) in
                 count_sessions
                   (e\<lparr>sessions := filter (\<lambda>s. oldest \<le> s_id s \<or> Some (s_id s) = current)
                                   (sessions e)\<rparr>))
           else e))"

text \<open>
  Popping entries older than \<open>q\<close> off the front, with the byte count, the base and the
  index: the inner loop of \<^verbatim>\<open>evict\<close> and of \<^verbatim>\<open>drop_before\<close>.
\<close>

fun pop_before ::
  "nat \<Rightarrow> entry_rec list \<Rightarrow> nat list \<Rightarrow> nat \<Rightarrow> nat \<Rightarrow> entry_rec list \<times> nat list \<times> nat \<times> nat"
where
  "pop_before q [] ss b base = ([], ss, b, base)"
| "pop_before q (f # fs) ss b base =
     (if e_seq f < q
      then pop_before q fs (if front_opt ss = Some (e_seq f) then tl ss else ss)
             (b - cost (length (e_payload f))) (e_seq f + 1)
      else (f # fs, ss, b, base))"

definition pop_entries :: "nat \<Rightarrow> engine \<Rightarrow> engine" where
  "pop_entries q e =
     (case pop_before q (ring e) (syncs e) (bytes_held e) (base_seq e) of
        (r, ss, b, base) \<Rightarrow>
          e\<lparr>ring := r, syncs := ss, bytes_held := b, base_seq := base\<rparr>)"

definition drop_before :: "nat \<Rightarrow> engine \<Rightarrow> engine" where
  "drop_before q e0 =
     (let e = pop_entries q e0;
          e = (if ring e = []
               then e\<lparr>base_seq := max (base_seq e) (min q (next_seq e))\<rparr> else e)
      in forget_headers e)"

definition drop_buffer :: "engine \<Rightarrow> engine" where
  "drop_buffer e =
     (let current = (if ingest_active e then map_option s_id (last_opt (sessions e)) else None);
          e1 = e\<lparr>ring := [], syncs := [], bytes_held := 0, base_seq := next_seq e,
                 sessions := filter (\<lambda>s. Some (s_id s) = current) (sessions e)\<rparr>;
          e2 = forget_headers (count_sessions e1)
      in e2\<lparr>out := (out e2)\<lparr>o_next_seq := next_seq e2, o_need_sync := True\<rparr>\<rparr>)"

section \<open>The invariant of the buffer\<close>

definition entry_cost :: "entry_rec \<Rightarrow> nat" where
  "entry_cost x = cost (length (e_payload x))"

definition entry_ok :: "entry_rec \<Rightarrow> bool" where
  "entry_ok x \<longleftrightarrow> e_payload x \<noteq> [] \<and> (e_sync x \<longrightarrow> e_config x = None)"

definition headers_fit :: "engine_config \<Rightarrow> session \<Rightarrow> bool" where
  "headers_fit c s \<longleftrightarrow>
     length (s_headers s) \<le> MAX_HEADERS \<and>
     sum_list (map header_cost (s_headers s)) \<le> ram_cap_bytes c div HEADER_SHARE_OF_RAM_CAP \<and>
     (case s_metadata s of None \<Rightarrow> True | Some m \<Rightarrow> length m \<le> MAX_METADATA_BYTES)"

definition ring_wf :: "engine \<Rightarrow> bool" where
  "ring_wf e \<longleftrightarrow>
     base_seq e \<le> next_seq e \<and>
     map e_seq (ring e) = [base_seq e..<next_seq e] \<and>
     syncs e = map e_seq (filter e_sync (ring e)) \<and>
     bytes_held e = sum_list (map entry_cost (ring e)) \<and>
     (\<forall>x \<in> set (ring e). entry_ok x)"

definition sessions_wf :: "engine \<Rightarrow> bool" where
  "sessions_wf e \<longleftrightarrow>
     sorted_wrt (<) (map s_id (sessions e)) \<and>
     (\<forall>s \<in> set (sessions e). s_id s < next_session e \<and> headers_fit (config e) s) \<and>
     session_bytes e = sum_list (map session_cost (sessions e)) \<and>
     sorted (map e_session (ring e)) \<and>
     (\<forall>x \<in> set (ring e). e_session x \<in> s_id ` set (sessions e))"

definition buf_wf :: "engine \<Rightarrow> bool" where
  "buf_wf e \<longleftrightarrow> ring_wf e \<and> sessions_wf e"

lemma ring_wf_out [simp]: "ring_wf (e\<lparr>out := p\<rparr>) = ring_wf e"
  by (simp add: ring_wf_def)

lemma sessions_wf_out [simp]: "sessions_wf (e\<lparr>out := p\<rparr>) = sessions_wf e"
  by (simp add: sessions_wf_def)

lemma buf_wf_out [simp]: "buf_wf (e\<lparr>out := p\<rparr>) = buf_wf e"
  by (simp add: buf_wf_def)

lemma entry_out [simp]: "entry (e\<lparr>out := p\<rparr>) s = entry e s"
  by (simp add: entry_def)

lemma new_engine_wf: "buf_wf (new_engine c)"
  by (simp add: buf_wf_def ring_wf_def sessions_wf_def new_engine_def)

section \<open>The keyframe index\<close>

text \<open>
  What the output side relies on: lookups answer for exactly the sequence numbers from
  \<open>first\<close> up to \<open>limit\<close>, and the index lists the numbers of the keyframes among
  them, in order.
\<close>

locale keyframe_index =
  fixes lookup :: "'b \<Rightarrow> nat \<Rightarrow> 'x option"
    and index :: "'b \<Rightarrow> nat list"
    and first :: "'b \<Rightarrow> nat"
    and limit :: "'b \<Rightarrow> nat"
    and is_key :: "'x \<Rightarrow> bool"
    and ok :: "'b \<Rightarrow> bool"
  assumes lookup_range: "ok b \<Longrightarrow> (lookup b s \<noteq> None) = (first b \<le> s \<and> s < limit b)"
    and index_sorted: "ok b \<Longrightarrow> sorted (index b)"
    and index_key: "ok b \<Longrightarrow> (s \<in> set (index b)) = (\<exists>x. lookup b s = Some x \<and> is_key x)"
begin

lemma index_range: "ok b \<Longrightarrow> s \<in> set (index b) \<Longrightarrow> first b \<le> s \<and> s < limit b"
  using index_key [of b s] lookup_range [of b s] by auto

lemma newest_key:
  assumes "ok b" and "find_last P (index b) = Some k"
  shows "\<exists>x. lookup b k = Some x \<and> is_key x" and "P k"
    and "\<And>j x. lookup b j = Some x \<Longrightarrow> is_key x \<Longrightarrow> P j \<Longrightarrow> j \<le> k"
proof -
  from assms have k: "k \<in> set (index b)" "P k" by (auto dest: find_last_Some)
  then show "\<exists>x. lookup b k = Some x \<and> is_key x" and "P k" using assms(1) index_key by auto
  fix j x assume "lookup b j = Some x" and "is_key x" and "P j"
  then show "j \<le> k"
    using find_last_max [OF index_sorted [OF assms(1)] assms(2)] index_key [OF assms(1)] by blast
qed

lemma oldest_key:
  assumes "ok b" and "find P (index b) = Some k"
  shows "\<exists>x. lookup b k = Some x \<and> is_key x" and "P k"
    and "\<And>j x. lookup b j = Some x \<Longrightarrow> is_key x \<Longrightarrow> P j \<Longrightarrow> k \<le> j"
proof -
  from assms have k: "k \<in> set (index b)" "P k" by (auto dest: find_Some_in)
  then show "\<exists>x. lookup b k = Some x \<and> is_key x" and "P k" using assms(1) index_key by auto
  fix j x assume "lookup b j = Some x" and "is_key x" and "P j"
  then show "k \<le> j"
    using find_min [OF index_sorted [OF assms(1)] assms(2)] index_key [OF assms(1)] by blast
qed

lemma no_key:
  assumes "ok b" and "find P (index b) = None" and "lookup b j = Some x" and "is_key x"
  shows "\<not> P j"
  using assms index_key by (auto simp: find_None_iff)

end

lemma ring_length: "ring_wf e \<Longrightarrow> base_seq e + length (ring e) = next_seq e"
proof -
  assume wf: "ring_wf e"
  then have "length (ring e) = next_seq e - base_seq e" and "base_seq e \<le> next_seq e"
    unfolding ring_wf_def by (metis length_map length_upt, blast)
  then show ?thesis by simp
qed

lemma ring_nth_seq:
  assumes "ring_wf e" and "i < length (ring e)"
  shows "e_seq (ring e ! i) = base_seq e + i"
proof -
  have "map e_seq (ring e) ! i = [base_seq e..<next_seq e] ! i"
    using assms by (simp add: ring_wf_def)
  then show ?thesis using assms(2) ring_length [OF assms(1)] by simp
qed

lemma entry_range: "ring_wf e \<Longrightarrow> (entry e s \<noteq> None) = (base_seq e \<le> s \<and> s < next_seq e)"
  using ring_length [of e] by (auto simp: entry_def get_opt_def)

lemma entry_seq: "ring_wf e \<Longrightarrow> entry e s = Some x \<Longrightarrow> e_seq x = s"
  by (auto simp: entry_def get_opt_Some ring_nth_seq split: if_splits)

lemma entry_in_ring: "entry e s = Some x \<Longrightarrow> x \<in> set (ring e)"
  by (auto simp: entry_def get_opt_Some split: if_splits)

lemma ring_entry: "ring_wf e \<Longrightarrow> x \<in> set (ring e) \<Longrightarrow> entry e (e_seq x) = Some x"
  by (auto simp: in_set_conv_nth ring_nth_seq entry_def get_opt_def)

lemma entry_bounds: "ring_wf e \<Longrightarrow> entry e s = Some x \<Longrightarrow> base_seq e \<le> s \<and> s < next_seq e"
  using entry_range [of e s] by simp

lemma syncs_sorted: "ring_wf e \<Longrightarrow> sorted (syncs e)"
proof -
  assume wf: "ring_wf e"
  have "sorted (map e_seq (filter e_sync xs))" if "sorted (map e_seq xs)" for xs
    using that by (induction xs) auto
  from this [of "ring e"] wf show ?thesis unfolding ring_wf_def by auto
qed

lemma syncs_iff: "ring_wf e \<Longrightarrow> s \<in> set (syncs e) \<longleftrightarrow> (\<exists>x. entry e s = Some x \<and> e_sync x)"
proof -
  assume wf: "ring_wf e"
  then have "s \<in> set (syncs e) \<longleftrightarrow> (\<exists>x \<in> set (ring e). e_sync x \<and> e_seq x = s)"
    by (auto simp: ring_wf_def)
  also have "\<dots> \<longleftrightarrow> (\<exists>x. entry e s = Some x \<and> e_sync x)"
    using wf by (metis ring_entry entry_seq entry_in_ring)
  finally show ?thesis .
qed

interpretation ring_index: keyframe_index entry syncs base_seq next_seq e_sync buf_wf
  by unfold_locales (simp_all add: buf_wf_def entry_range syncs_sorted syncs_iff del: not_None_eq)

section \<open>Forgetting headers and sessions\<close>

lemma count_sessions_frame [frame_simps, simp]:
  "ring (count_sessions e) = ring e" "syncs (count_sessions e) = syncs e"
  "base_seq (count_sessions e) = base_seq e" "next_seq (count_sessions e) = next_seq e"
  "bytes_held (count_sessions e) = bytes_held e" "config (count_sessions e) = config e"
  "sessions (count_sessions e) = sessions e" "out (count_sessions e) = out e"
  "ingest_active (count_sessions e) = ingest_active e"
  "next_session (count_sessions e) = next_session e" "stats (count_sessions e) = stats e"
  "session_bytes (count_sessions e) = sum_list (map session_cost (sessions e))"
  by (simp_all add: count_sessions_def)

lemma forget_headers_frame [frame_simps, simp]:
  "ring (forget_headers e) = ring e" "syncs (forget_headers e) = syncs e"
  "base_seq (forget_headers e) = base_seq e" "next_seq (forget_headers e) = next_seq e"
  "bytes_held (forget_headers e) = bytes_held e" "config (forget_headers e) = config e"
  "out (forget_headers e) = out e" "ingest_active (forget_headers e) = ingest_active e"
  "next_session (forget_headers e) = next_session e" "stats (forget_headers e) = stats e"
  "sessions (forget_headers e) =
     map (\<lambda>s. s\<lparr>s_headers := forget_replaced (base_seq e) (s_headers s)\<rparr>) (sessions e)"
  by (simp_all add: forget_headers_def Let_def)

lemma forget_replaced_unchanged:
  "\<not> list_ex (\<lambda>s. forget_replaced b (s_headers s) \<noteq> s_headers s) ss \<Longrightarrow>
   map (\<lambda>s. s\<lparr>s_headers := forget_replaced b (s_headers s)\<rparr>) ss = ss"
  by (induction ss) auto

lemma forget_headers_bytes:
  "session_bytes e = sum_list (map session_cost (sessions e)) \<Longrightarrow>
   session_bytes (forget_headers e) = sum_list (map session_cost (sessions (forget_headers e)))"
  using forget_replaced_unchanged [of "base_seq e" "sessions e"]
  by (simp add: forget_headers_def Let_def)

lemma forget_replaced_le:
  "length (forget_replaced b hs) \<le> length hs"
  "sum_list (map header_cost (forget_replaced b hs)) \<le> sum_list (map header_cost hs)"
  by (induction hs) auto

lemma forget_replaced_subset: "set (forget_replaced b hs) \<subseteq> set hs"
  by (induction hs) auto

lemma headers_fit_forget:
  "headers_fit c s \<Longrightarrow> headers_fit c (s\<lparr>s_headers := forget_replaced b (s_headers s)\<rparr>)"
  using forget_replaced_le [of b "s_headers s"] by (auto simp: headers_fit_def)

lemma ring_wf_frame:
  assumes "ring_wf e" and "ring e' = ring e" and "syncs e' = syncs e"
    and "base_seq e' = base_seq e" and "next_seq e' = next_seq e"
    and "bytes_held e' = bytes_held e"
  shows "ring_wf e'"
  using assms by (simp add: ring_wf_def)

lemma forget_headers_wf [wf_intros]:
  assumes "buf_wf e" shows "buf_wf (forget_headers e)"
proof -
  have "ring_wf (forget_headers e)"
    using assms by (auto simp: buf_wf_def intro: ring_wf_frame)
  moreover have "sessions_wf (forget_headers e)"
    using assms forget_headers_bytes [of e]
    by (auto simp: buf_wf_def sessions_wf_def o_def image_image headers_fit_forget)
  ultimately show ?thesis by (simp add: buf_wf_def)
qed

lemma forget_sessions_frame [frame_simps, simp]:
  "ring (forget_sessions e) = ring e" "syncs (forget_sessions e) = syncs e"
  "base_seq (forget_sessions e) = base_seq e" "next_seq (forget_sessions e) = next_seq e"
  "bytes_held (forget_sessions e) = bytes_held e" "config (forget_sessions e) = config e"
  "out (forget_sessions e) = out e" "ingest_active (forget_sessions e) = ingest_active e"
  "next_session (forget_sessions e) = next_session e" "stats (forget_sessions e) = stats e"
  by (simp_all add: forget_sessions_def Let_def split: list.split)

lemma sorted_wrt_map_filter: "sorted_wrt r (map f xs) \<Longrightarrow> sorted_wrt r (map f (filter p xs))"
  by (induction xs) auto

lemma filter_sessions_wf:
  assumes "buf_wf e" and keep: "\<And>x. x \<in> set (ring e) \<Longrightarrow> p (e_session x)"
  shows "buf_wf (count_sessions (e\<lparr>sessions := filter (\<lambda>s. p (s_id s)) (sessions e)\<rparr>))"
proof -
  have "ring_wf (count_sessions (e\<lparr>sessions := filter (\<lambda>s. p (s_id s)) (sessions e)\<rparr>))"
    using assms(1) by (auto simp: buf_wf_def intro: ring_wf_frame)
  moreover have "sessions_wf (count_sessions (e\<lparr>sessions := filter (\<lambda>s. p (s_id s)) (sessions e)\<rparr>))"
  proof -
    have "e_session x \<in> s_id ` set (filter (\<lambda>s. p (s_id s)) (sessions e))" if "x \<in> set (ring e)" for x
    proof -
      obtain s where "s \<in> set (sessions e)" and "e_session x = s_id s"
        using assms(1) \<open>x \<in> set (ring e)\<close> by (auto simp: buf_wf_def sessions_wf_def)
      moreover have "p (e_session x)" using that by (rule keep)
      ultimately show ?thesis by auto
    qed
    then show ?thesis
      using assms(1) by (auto simp: buf_wf_def sessions_wf_def sorted_wrt_map_filter)
  qed
  ultimately show ?thesis by (simp add: buf_wf_def)
qed

lemma forget_sessions_wf [wf_intros]:
  assumes "buf_wf e" shows "buf_wf (forget_sessions e)"
proof -
  define h where "h = forget_headers e"
  have wf: "buf_wf h" unfolding h_def using assms by (rule forget_headers_wf)
  show ?thesis
  proof (cases "ring h")
    case Nil
    then show ?thesis using wf by (simp add: forget_sessions_def Let_def h_def)
  next
    case (Cons front rest)
    have "e_session front \<le> e_session x" if "x \<in> set (ring h)" for x
      using wf that Cons by (auto simp: buf_wf_def sessions_wf_def)
    then have "buf_wf (count_sessions (h\<lparr>sessions :=
        filter (\<lambda>s. (\<lambda>i. e_session front \<le> i \<or> Some i = cur) (s_id s)) (sessions h)\<rparr>))" for cur
      using wf by (intro filter_sessions_wf) auto
    then show ?thesis
      using wf Cons unfolding forget_sessions_def h_def [symmetric] Let_def by simp
  qed
qed

section \<open>Popping entries\<close>

lemma pop_before_spec:
  assumes "map e_seq r = [base..<n]" and "base \<le> n"
  shows "pop_before q r (map e_seq (filter e_sync r)) (sum_list (map entry_cost r)) base =
    (let r' = dropWhile (\<lambda>x. e_seq x < q) r
     in (r', map e_seq (filter e_sync r'), sum_list (map entry_cost r'), max base (min q n)))"
  using assms
proof (induction r arbitrary: base)
  case Nil
  then have "base = n" using Nil.prems(1) [symmetric] by (auto simp: upt_eq_Nil_conv)
  then show ?case by (simp add: Let_def)
next
  case (Cons f fs)
  then have f: "e_seq f = base" and fs: "map e_seq fs = [Suc base..<n]" and lt: "base < n"
    using Cons.prems(1) [symmetric] by (auto simp: upt_eq_Cons_conv)
  have others: "front_opt (map e_seq (filter e_sync fs)) \<noteq> Some base"
  proof
    assume "front_opt (map e_seq (filter e_sync fs)) = Some base"
    then have "base \<in> set (map e_seq (filter e_sync fs))"
      by (metis front_opt_Some hd_in_set)
    then have "base \<in> set (map e_seq fs)" by auto
    then show False using fs by simp
  qed
  show ?case
    using Cons.IH [OF fs] f lt others
    by (auto simp: Let_def entry_cost_def)
qed

lemma pop_entries_eq:
  assumes "ring_wf e"
  shows "pop_entries q e =
    e\<lparr>ring := dropWhile (\<lambda>x. e_seq x < q) (ring e),
      syncs := map e_seq (filter e_sync (dropWhile (\<lambda>x. e_seq x < q) (ring e))),
      bytes_held := sum_list (map entry_cost (dropWhile (\<lambda>x. e_seq x < q) (ring e))),
      base_seq := max (base_seq e) (min q (next_seq e))\<rparr>"
  using assms pop_before_spec [of "ring e" "base_seq e" "next_seq e" q]
  by (simp add: pop_entries_def ring_wf_def Let_def)

lemma dropWhile_upt: "map f (dropWhile (\<lambda>x. f x < q) xs) = dropWhile (\<lambda>s. s < q) (map f xs)"
  by (induction xs) auto

lemma dropWhile_upt': "dropWhile (\<lambda>s. s < q) [a..<n] = [max a (min q n)..<n]"
proof (induction "n - a" arbitrary: a)
  case (Suc k)
  then have "[a..<n] = a # [Suc a..<n]" by (simp add: upt_conv_Cons)
  with Suc.hyps(1) [of "Suc a"] Suc.hyps(2) show ?case by (auto simp: max_def min_def)
qed auto

lemma sorted_map_dropWhile: "sorted (map f xs) \<Longrightarrow> sorted (map f (dropWhile p xs))"
  by (induction xs) auto

lemma pop_entries_frame [frame_simps, simp]:
  "next_seq (pop_entries q e) = next_seq e" "config (pop_entries q e) = config e"
  "sessions (pop_entries q e) = sessions e" "session_bytes (pop_entries q e) = session_bytes e"
  "out (pop_entries q e) = out e" "ingest_active (pop_entries q e) = ingest_active e"
  "next_session (pop_entries q e) = next_session e" "stats (pop_entries q e) = stats e"
  by (simp_all add: pop_entries_def split: prod.split)

lemma pop_entries_wf [wf_intros]:
  assumes "buf_wf e" shows "buf_wf (pop_entries q e)"
proof -
  have r: "ring_wf e" and s: "sessions_wf e" using assms by (auto simp: buf_wf_def)
  have "ring_wf (pop_entries q e)"
    using r unfolding pop_entries_eq [OF r]
    by (auto simp: ring_wf_def dropWhile_upt dropWhile_upt' dest: set_dropWhileD)
  moreover have "sessions_wf (pop_entries q e)"
    using s unfolding pop_entries_eq [OF r]
    by (auto simp: sessions_wf_def sorted_map_dropWhile dest: set_dropWhileD)
  ultimately show ?thesis by (simp add: buf_wf_def)
qed

lemma pop_entries_base:
  "ring_wf e \<Longrightarrow> base_seq (pop_entries q e) = max (base_seq e) (min q (next_seq e))"
  by (simp add: pop_entries_eq)

lemma pop_before_shorter: "pop_before q r ss b base = (r', ss', b', base') \<Longrightarrow> length r' \<le> length r"
  by (induction q r ss b base rule: pop_before.induct) (fastforce split: if_splits)+

lemma pop_entries_shrinks:
  assumes "ring e = f # fs" and "e_seq f < q"
  shows "length (ring (pop_entries q e)) < length (ring e)"
  using assms pop_before_shorter
  by (fastforce simp: pop_entries_def less_Suc_eq_le split: prod.split)

lemma pop_entries_entry:
  assumes "buf_wf e" and "q \<le> s" and "entry e s = Some x"
  shows "entry (pop_entries q e) s = Some x"
proof -
  have r: "ring_wf e" and r': "ring_wf (pop_entries q e)"
    using assms(1) pop_entries_wf [OF assms(1)] by (auto simp: buf_wf_def)
  have seq: "e_seq x = s" using r assms(3) by (rule entry_seq)
  have "x \<in> set (dropWhile (\<lambda>y. e_seq y < q) (ring e))"
  proof -
    have "x \<in> set (ring e)" using assms(3) by (rule entry_in_ring)
    then have "x \<in> set (takeWhile (\<lambda>y. e_seq y < q) (ring e)) \<union>
        set (dropWhile (\<lambda>y. e_seq y < q) (ring e))"
      by (metis set_append takeWhile_dropWhile_id)
    then show ?thesis using seq assms(2) by (auto dest: set_takeWhileD)
  qed
  then have "x \<in> set (ring (pop_entries q e))" by (simp add: pop_entries_eq [OF r])
  from ring_entry [OF r' this] show ?thesis by (simp add: seq)
qed

section \<open>Dropping the buffer\<close>

lemma ring_empty_base: "ring_wf e \<Longrightarrow> ring e = [] \<Longrightarrow> base_seq e = next_seq e"
  by (drule ring_length) simp

lemma drop_before_frame [frame_simps, simp]:
  "next_seq (drop_before q e) = next_seq e" "config (drop_before q e) = config e"
  "out (drop_before q e) = out e" "ingest_active (drop_before q e) = ingest_active e"
  "next_session (drop_before q e) = next_session e" "stats (drop_before q e) = stats e"
  by (simp_all add: drop_before_def Let_def)

lemma base_seq_same: "base_seq e = b \<Longrightarrow> e\<lparr>base_seq := b\<rparr> = e"
  by (cases e) simp

lemma drop_before_eq:
  assumes "buf_wf e" shows "drop_before q e = forget_headers (pop_entries q e)"
proof -
  have "ring_wf (pop_entries q e)" using pop_entries_wf [OF assms] by (simp add: buf_wf_def)
  then have "base_seq (pop_entries q e) = next_seq e" if "ring (pop_entries q e) = []"
    using that ring_empty_base by fastforce
  then show ?thesis
    by (cases "ring (pop_entries q e) = []")
      (simp_all add: drop_before_def Let_def base_seq_same)
qed

lemma drop_before_wf [wf_intros]: "buf_wf e \<Longrightarrow> buf_wf (drop_before q e)"
  by (simp add: drop_before_eq wf_intros)

lemma drop_before_base:
  "buf_wf e \<Longrightarrow> base_seq (drop_before q e) = max (base_seq e) (min q (next_seq e))"
  by (simp add: drop_before_eq pop_entries_base buf_wf_def)

lemma drop_buffer_frame [frame_simps, simp]:
  "ring (drop_buffer e) = []" "syncs (drop_buffer e) = []" "bytes_held (drop_buffer e) = 0"
  "base_seq (drop_buffer e) = next_seq e" "next_seq (drop_buffer e) = next_seq e"
  "config (drop_buffer e) = config e" "ingest_active (drop_buffer e) = ingest_active e"
  "next_session (drop_buffer e) = next_session e" "stats (drop_buffer e) = stats e"
  "out (drop_buffer e) = (out e)\<lparr>o_next_seq := next_seq e, o_need_sync := True\<rparr>"
  by (simp_all add: drop_buffer_def Let_def)

lemma drop_buffer_wf [wf_intros]:
  assumes "buf_wf e" shows "buf_wf (drop_buffer e)"
proof -
  let ?cur = "if ingest_active e then map_option s_id (last_opt (sessions e)) else None"
  let ?e = "e\<lparr>ring := [], syncs := [], bytes_held := 0, base_seq := next_seq e\<rparr>"
  have "buf_wf ?e" using assms by (auto simp: buf_wf_def ring_wf_def sessions_wf_def)
  then have "buf_wf (count_sessions (?e\<lparr>sessions :=
      filter (\<lambda>s. (\<lambda>i. Some i = ?cur) (s_id s)) (sessions ?e)\<rparr>))"
    by (rule filter_sessions_wf) simp
  then show ?thesis
    unfolding drop_buffer_def Let_def buf_wf_out by (intro forget_headers_wf) simp
qed

end
