(* ===== verification/Engine_Splice.thy ===== *)
theory Engine_Splice
  imports Engine_Buffer
begin

text \<open>
  The output side of the engine: splicing the cursor to a keyframe and shifting timestamps,
  the decoder configuration sent before it, one buffered message, and the held frame. Each
  operation changes only the \<open>out\<close> record. Emitted messages are appended to a list, as
  the source pushes them onto \<^verbatim>\<open>out\<close>. The fingerprint of a decoder configuration
  (\<^verbatim>\<open>DefaultHasher\<close>, whose algorithm the library leaves open) is the parameter
  \<open>fp\<close>.
\<close>

section \<open>Splicing\<close>

text \<open>
  \<^verbatim>\<open>after_sent\<close>: the earliest timestamp for a keyframe with composition time
  \<open>cts\<close> to come a frame after everything sent, in decode and in presentation order.
\<close>

definition after_sent :: "engine \<Rightarrow> nat \<Rightarrow> int \<Rightarrow> nat" where
  "after_sent e frame cts =
     (let after_dts = o_last_out_ts (out e) + max frame 1;
          after_pts = o_last_pts (out e) + int (max frame 1) - cts
      in max after_dts (nat (max after_pts 0)))"

definition splice_to :: "nat \<Rightarrow> nat \<Rightarrow> engine \<Rightarrow> engine" where
  "splice_to k delay e =
     (case entry e k of
        None \<Rightarrow> e
      | Some x \<Rightarrow>
          (let base = (if o_fresh (out e) then 0
                       else after_sent e (frame_ms e (e_session x)) (e_cts x))
           in e\<lparr>out := (out e)
                 \<lparr>o_ts_offset := int base - int (e_ts x),
                  o_fresh := False,
                  o_gate := Some (e_session x, e_ts x),
                  o_skip_leading_after := (if e_hevc_nal x = Some CRA then Some k else None),
                  o_splices := o_splices (out e) + (if o_started (out e) then 1 else 0),
                  o_started := True,
                  o_next_seq := k,
                  o_delay := delay,
                  o_need_sync := False,
                  o_current_session := Some (e_session x),
                  o_pending_headers := True\<rparr>\<rparr>))"

text \<open>\<^verbatim>\<open>Engine::out_ts\<close>: the output timestamp of a message of kind \<open>k\<close>.\<close>

definition out_ts :: "kind \<Rightarrow> nat \<Rightarrow> engine \<Rightarrow> nat \<times> engine" where
  "out_ts k ts e =
     (let o' = out e;
          t0 = nat (max (int ts + o_ts_offset o') 0);
          t = (case o_last_kind_ts o' k of Some l \<Rightarrow> max t0 l | None \<Rightarrow> t0)
      in (t, e\<lparr>out := o'\<lparr>o_last_kind_ts := (o_last_kind_ts o')(k := Some t),
                           o_last_out_ts := max (o_last_out_ts o') t\<rparr>\<rparr>))"

section \<open>Decoder configuration\<close>

fun headers_in_effect ::
  "nat \<Rightarrow> header_rec list \<Rightarrow> (kind \<times> u16 \<times> bytes) list \<Rightarrow> (kind \<times> u16 \<times> bytes) list" where
  "headers_in_effect s [] acc = acc"
| "headers_in_effect s (h # hs) acc =
     (if h_seq h < s
      then headers_in_effect s hs
             (filter (\<lambda>(k, c, _). \<not> (k = h_kind h \<and> c = h_class h)) acc @
              [(h_kind h, h_class h, h_payload h)])
      else headers_in_effect s hs acc)"

definition headers_at :: "engine \<Rightarrow> nat \<Rightarrow> nat \<Rightarrow> headers" where
  "headers_at e sid s =
     (case find (\<lambda>x. s_id x = sid) (sessions e) of
        None \<Rightarrow> \<lparr>hd_metadata = None, hd_config = []\<rparr>
      | Some x \<Rightarrow> \<lparr>hd_metadata = s_metadata x,
                    hd_config = headers_in_effect s (s_headers x) []\<rparr>)"

definition mark_header_sent ::
  "(bytes \<Rightarrow> u64) \<Rightarrow> kind \<Rightarrow> u16 \<Rightarrow> bytes \<Rightarrow> engine \<Rightarrow> bool \<times> engine" where
  "mark_header_sent fp k c payload e =
     (let sent = o_sent_headers (out e) in
      if (k, c, fp payload) \<in> set sent then (False, e)
      else (True, e\<lparr>out := (out e)\<lparr>o_sent_headers :=
                      filter (\<lambda>(k', c', _). \<not> (k' = k \<and> c' = c)) sent @ [(k, c, fp payload)]\<rparr>\<rparr>))"

definition count_sent :: "bytes \<Rightarrow> engine \<Rightarrow> engine" where
  "count_sent payload e =
     e\<lparr>out := (out e)\<lparr>o_sent_bytes := o_sent_bytes (out e) + length payload\<rparr>\<rparr>"

definition msg :: "kind \<Rightarrow> nat \<Rightarrow> bytes \<Rightarrow> nat option \<Rightarrow> out_msg" where
  "msg k t payload s =
     \<lparr>m_kind = k, m_timestamp = of_nat t, m_payload = payload, m_seq = s\<rparr>"

text \<open>
  A message at the output timestamp of \<open>ts\<close>: what \<^verbatim>\<open>emit_headers\<close> and
  \<^verbatim>\<open>emit_entry\<close> end with.
\<close>

definition send_at ::
  "kind \<Rightarrow> nat \<Rightarrow> bytes \<Rightarrow> nat option \<Rightarrow> engine \<times> out_msg list \<Rightarrow> engine \<times> out_msg list" where
  "send_at k ts payload s eo =
     (let (t, e) = out_ts k ts (fst eo)
      in (count_sent payload e, snd eo @ [msg k t payload s]))"

fun send_headers ::
  "(bytes \<Rightarrow> u64) \<Rightarrow> nat \<Rightarrow> (kind \<times> u16 \<times> bytes) list \<Rightarrow> engine \<times> out_msg list \<Rightarrow>
   engine \<times> out_msg list" where
  "send_headers fp ts [] eo = eo"
| "send_headers fp ts ((k, c, payload) # hs) eo =
     (let (new, e) = mark_header_sent fp k c payload (fst eo)
      in send_headers fp ts hs
           (if new then send_at k ts payload None (e, snd eo) else (e, snd eo)))"

text \<open>
  \<^verbatim>\<open>emit_headers\<close>. (Metadata does not count towards \<^verbatim>\<open>sent_bytes\<close>.)
\<close>

definition emit_headers ::
  "(bytes \<Rightarrow> u64) \<Rightarrow> engine \<times> out_msg list \<Rightarrow> engine \<times> out_msg list" where
  "emit_headers fp eo =
     (let e = (fst eo)\<lparr>out := (out (fst eo))\<lparr>o_pending_headers := False\<rparr>\<rparr>; outs = snd eo in
      case entry e (o_next_seq (out e)) of
        None \<Rightarrow> (e, outs)
      | Some x \<Rightarrow>
          (let hs = headers_at e (e_session x) (e_seq x);
               eo1 = (case hd_metadata hs of
                        None \<Rightarrow> (e, outs)
                      | Some m \<Rightarrow>
                          if o_sent_metadata (out e) = Some m then (e, outs)
                          else (let (t, e1) = out_ts Data (e_ts x) e
                                in (e1\<lparr>out := (out e1)\<lparr>o_sent_metadata := Some m\<rparr>\<rparr>,
                                    outs @ [msg Data t m None])))
           in send_headers fp (e_ts x) (hd_config hs) eo1))"

section \<open>One buffered message\<close>

definition count_dropped :: "engine \<Rightarrow> engine" where
  "count_dropped e = e\<lparr>out := (out e)\<lparr>o_dropped := o_dropped (out e) + 1\<rparr>\<rparr>"

text \<open>
  After a splice to a CRA: \<open>None\<close> when the entry is a leading picture, which is left
  out; otherwise the engine, which looks for leading pictures no further once a trailing or
  random access picture came.
\<close>

definition past_leading :: "engine \<Rightarrow> entry_rec \<Rightarrow> engine option" where
  "past_leading e x =
     (case (o_skip_leading_after (out e), e_hevc_nal x) of
        (Some k, Some t) \<Rightarrow>
          if e_kind x \<noteq> Video then Some e
          else if k < e_seq x \<and> (is_trailing t \<or> is_irap t)
          then Some (e\<lparr>out := (out e)\<lparr>o_skip_leading_after := None\<rparr>\<rparr>)
          else if is_leading t then None
          else Some e
      | _ \<Rightarrow> Some e)"

text \<open>Audio and data from before the keyframe spliced to are left out.\<close>

definition gated :: "engine \<Rightarrow> entry_rec \<Rightarrow> bool" where
  "gated e x \<longleftrightarrow>
     e_kind x \<noteq> Video \<and>
     (case o_gate (out e) of Some (gs, gts) \<Rightarrow> gs = e_session x \<and> e_ts x < gts | None \<Rightarrow> False)"

definition spliced_payload :: "engine \<Rightarrow> entry_rec \<Rightarrow> bytes" where
  "spliced_payload e x =
     (if o_skip_leading_after (out e) = Some (e_seq x)
      then (case e_nal_offset x of
              None \<Rightarrow> e_payload x
            | Some off \<Rightarrow>
                (case cra_to_bla (e_payload x) off of None \<Rightarrow> e_payload x | Some b \<Rightarrow> b))
      else e_payload x)"

definition emit_entry ::
  "(bytes \<Rightarrow> u64) \<Rightarrow> engine \<times> out_msg list \<Rightarrow> engine \<times> out_msg list" where
  "emit_entry fp eo =
     (let e = fst eo; outs = snd eo in
      case entry e (o_next_seq (out e)) of
        None \<Rightarrow> (e, outs)
      | Some x \<Rightarrow>
          (case e_config x of
             Some c \<Rightarrow>
               (let (new, e1) = mark_header_sent fp (e_kind x) c (e_payload x) e in
                if new then send_at (e_kind x) (e_ts x) (e_payload x) (Some (e_seq x)) (e1, outs)
                else (e1, outs))
           | None \<Rightarrow>
               (case past_leading e x of
                  None \<Rightarrow> (count_dropped e, outs)
                | Some e1 \<Rightarrow>
                    if gated e1 x then (count_dropped e1, outs)
                    else
                      (let payload = spliced_payload e1 x;
                           (t, e2) = out_ts (e_kind x) (e_ts x) e1;
                           e3 = (if e_kind x = Video
                                 then e2\<lparr>out := (out e2)
                                        \<lparr>o_last_pts := max (o_last_pts (out e2)) (int t + e_cts x)\<rparr>\<rparr>
                                 else e2)
                       in (count_sent payload e3,
                           outs @ [msg (e_kind x) t payload (Some (e_seq x))])))))"

section \<open>The held frame\<close>

definition aired_keyframe :: "nat \<Rightarrow> engine \<Rightarrow> hold_frame option" where
  "aired_keyframe now e =
     (case find_last (\<lambda>s. s < o_next_seq (out e)) (syncs e) of
        None \<Rightarrow> None
      | Some k \<Rightarrow>
          (case entry e k of
             None \<Rightarrow> None
           | Some x \<Rightarrow>
               if e_kind x \<noteq> Video then None
               else
                 (let payload =
                        (case (e_hevc_nal x, e_nal_offset x) of
                           (Some t, Some off) \<Rightarrow>
                             if t = CRA
                             then (case cra_to_bla (e_payload x) off of
                                     None \<Rightarrow> e_payload x | Some b \<Rightarrow> b)
                             else e_payload x
                         | _ \<Rightarrow> e_payload x)
                  in Some \<lparr>hf_payload = payload, hf_cts = e_cts x,
                           hf_frame_ms = frame_ms e (e_session x),
                           hf_headers = headers_at e (e_session x) (e_seq x),
                           hf_last = now, hf_next = now, hf_needs_headers = False\<rparr>)))"

definition stamp :: "kind \<Rightarrow> nat \<Rightarrow> engine \<Rightarrow> engine" where
  "stamp k t e = e\<lparr>out := (out e)\<lparr>o_last_kind_ts := (o_last_kind_ts (out e))(k := Some t)\<rparr>\<rparr>"

fun send_hold_headers ::
  "(bytes \<Rightarrow> u64) \<Rightarrow> nat \<Rightarrow> (kind \<times> u16 \<times> bytes) list \<Rightarrow> engine \<times> out_msg list \<Rightarrow>
   engine \<times> out_msg list" where
  "send_hold_headers fp t [] eo = eo"
| "send_hold_headers fp t ((k, c, payload) # hs) eo =
     (let (new, e) = mark_header_sent fp k c payload (fst eo)
      in send_hold_headers fp t hs
           (if new then (stamp k t (count_sent payload e), snd eo @ [msg k t payload None])
            else (e, snd eo)))"

definition emit_hold_headers ::
  "(bytes \<Rightarrow> u64) \<Rightarrow> headers \<Rightarrow> nat \<Rightarrow> engine \<times> out_msg list \<Rightarrow> engine \<times> out_msg list" where
  "emit_hold_headers fp hs t eo =
     (let eo1 = (case hd_metadata hs of
                   None \<Rightarrow> eo
                 | Some m \<Rightarrow>
                     (stamp Data t ((fst eo)\<lparr>out := (out (fst eo))\<lparr>o_sent_metadata := Some m\<rparr>\<rparr>),
                      snd eo @ [msg Data t m None]));
          (e, outs) = send_hold_headers fp t (hd_config hs) eo1
      in (e\<lparr>out := (out e)\<lparr>o_last_out_ts := max (o_last_out_ts (out e)) t\<rparr>\<rparr>, outs))"

text \<open>\<^verbatim>\<open>emit_hold_frame\<close>: also when to call again.\<close>

definition hold_stamp :: "nat \<Rightarrow> engine \<Rightarrow> hold_frame \<Rightarrow> nat" where
  "hold_stamp now e h =
     (let last_video = (case o_last_kind_ts (out e) Video of Some t \<Rightarrow> t | None \<Rightarrow> 0);
          paced = max (o_last_out_ts (out e)) last_video + max ((now - hf_last h) div MS) 1
      in max paced (after_sent e (hf_frame_ms h) (hf_cts h)))"

definition emit_hold_frame ::
  "(bytes \<Rightarrow> u64) \<Rightarrow> nat \<Rightarrow> engine \<times> out_msg list \<Rightarrow> (engine \<times> out_msg list) \<times> nat option" where
  "emit_hold_frame fp now eo =
     (let e = fst eo; outs = snd eo in
      case o_hold (out e) of
        None \<Rightarrow> (eo, None)
      | Some h \<Rightarrow>
          if now < hf_next h then (eo, Some (hf_next h))
          else
            (let t = hold_stamp now e h;
                 h' = h\<lparr>hf_last := now, hf_next := now + SEC, hf_needs_headers := False\<rparr>;
                 e1 = e\<lparr>out := (out e)\<lparr>o_hold := Some h', o_fresh := False\<rparr>\<rparr>;
                 (e2, outs2) = (if hf_needs_headers h
                                then emit_hold_headers fp (hf_headers h) t (e1, outs)
                                else (e1, outs));
                 e3 = stamp Video t e2;
                 e4 = e3\<lparr>out := (out e3)
                         \<lparr>o_last_out_ts := max (o_last_out_ts (out e3)) t,
                          o_last_pts := max (o_last_pts (out e3)) (int t + hf_cts h)\<rparr>\<rparr>
             in ((count_sent (hf_payload h) e4, outs2 @ [msg Video t (hf_payload h) None]),
                 Some (hf_next h'))))"

definition end_hold :: "nat \<Rightarrow> engine \<Rightarrow> engine" where
  "end_hold now e =
     (case o_hold (out e) of
        None \<Rightarrow> e
      | Some h \<Rightarrow>
          e\<lparr>out := (out e)\<lparr>o_hold := None,
                           o_last_out_ts := o_last_out_ts (out e) + (now - hf_last h) div MS\<rparr>\<rparr>)"

section \<open>The buffer is left alone\<close>

lemma splice_to_frame [frame_simps, simp]:
  "ring (splice_to k d e) = ring e" "syncs (splice_to k d e) = syncs e"
  "base_seq (splice_to k d e) = base_seq e" "next_seq (splice_to k d e) = next_seq e"
  "bytes_held (splice_to k d e) = bytes_held e" "config (splice_to k d e) = config e"
  "sessions (splice_to k d e) = sessions e" "session_bytes (splice_to k d e) = session_bytes e"
  "ingest_active (splice_to k d e) = ingest_active e"
  "next_session (splice_to k d e) = next_session e" "stats (splice_to k d e) = stats e"
  by (simp_all add: splice_to_def Let_def split: option.split)

lemma out_ts_frame [frame_simps, simp]:
  "ring (snd (out_ts k ts e)) = ring e" "syncs (snd (out_ts k ts e)) = syncs e"
  "base_seq (snd (out_ts k ts e)) = base_seq e" "next_seq (snd (out_ts k ts e)) = next_seq e"
  "bytes_held (snd (out_ts k ts e)) = bytes_held e" "config (snd (out_ts k ts e)) = config e"
  "sessions (snd (out_ts k ts e)) = sessions e"
  "session_bytes (snd (out_ts k ts e)) = session_bytes e"
  "ingest_active (snd (out_ts k ts e)) = ingest_active e"
  "next_session (snd (out_ts k ts e)) = next_session e" "stats (snd (out_ts k ts e)) = stats e"
  by (simp_all add: out_ts_def Let_def)

lemma mark_header_sent_frame [frame_simps, simp]:
  "ring (snd (mark_header_sent fp k c p e)) = ring e"
  "syncs (snd (mark_header_sent fp k c p e)) = syncs e"
  "base_seq (snd (mark_header_sent fp k c p e)) = base_seq e"
  "next_seq (snd (mark_header_sent fp k c p e)) = next_seq e"
  "bytes_held (snd (mark_header_sent fp k c p e)) = bytes_held e"
  "config (snd (mark_header_sent fp k c p e)) = config e"
  "sessions (snd (mark_header_sent fp k c p e)) = sessions e"
  "session_bytes (snd (mark_header_sent fp k c p e)) = session_bytes e"
  "ingest_active (snd (mark_header_sent fp k c p e)) = ingest_active e"
  "next_session (snd (mark_header_sent fp k c p e)) = next_session e"
  "stats (snd (mark_header_sent fp k c p e)) = stats e"
  by (simp_all add: mark_header_sent_def Let_def)

lemma count_sent_frame [frame_simps, simp]:
  "ring (count_sent p e) = ring e" "syncs (count_sent p e) = syncs e"
  "base_seq (count_sent p e) = base_seq e" "next_seq (count_sent p e) = next_seq e"
  "bytes_held (count_sent p e) = bytes_held e" "config (count_sent p e) = config e"
  "sessions (count_sent p e) = sessions e" "session_bytes (count_sent p e) = session_bytes e"
  "ingest_active (count_sent p e) = ingest_active e"
  "next_session (count_sent p e) = next_session e" "stats (count_sent p e) = stats e"
  by (simp_all add: count_sent_def)

lemma count_dropped_frame [frame_simps, simp]:
  "ring (count_dropped e) = ring e" "syncs (count_dropped e) = syncs e"
  "base_seq (count_dropped e) = base_seq e" "next_seq (count_dropped e) = next_seq e"
  "bytes_held (count_dropped e) = bytes_held e" "config (count_dropped e) = config e"
  "sessions (count_dropped e) = sessions e" "session_bytes (count_dropped e) = session_bytes e"
  "ingest_active (count_dropped e) = ingest_active e"
  "next_session (count_dropped e) = next_session e" "stats (count_dropped e) = stats e"
  by (simp_all add: count_dropped_def)

lemma stamp_frame [frame_simps, simp]:
  "ring (stamp k t e) = ring e" "syncs (stamp k t e) = syncs e"
  "base_seq (stamp k t e) = base_seq e" "next_seq (stamp k t e) = next_seq e"
  "bytes_held (stamp k t e) = bytes_held e" "config (stamp k t e) = config e"
  "sessions (stamp k t e) = sessions e" "session_bytes (stamp k t e) = session_bytes e"
  "ingest_active (stamp k t e) = ingest_active e" "next_session (stamp k t e) = next_session e"
  "stats (stamp k t e) = stats e"
  by (simp_all add: stamp_def)

lemma end_hold_frame [frame_simps, simp]:
  "ring (end_hold now e) = ring e" "syncs (end_hold now e) = syncs e"
  "base_seq (end_hold now e) = base_seq e" "next_seq (end_hold now e) = next_seq e"
  "bytes_held (end_hold now e) = bytes_held e" "config (end_hold now e) = config e"
  "sessions (end_hold now e) = sessions e" "session_bytes (end_hold now e) = session_bytes e"
  "ingest_active (end_hold now e) = ingest_active e"
  "next_session (end_hold now e) = next_session e" "stats (end_hold now e) = stats e"
  by (simp_all add: end_hold_def split: option.split)

text \<open>
  Emission only touches the book-keeping of the output: \<open>quiet\<close> blanks those fields,
  and every emission leaves the rest of the engine as it was.
\<close>

definition quiet :: "engine \<Rightarrow> engine" where
  "quiet e = e\<lparr>out := (out e)
     \<lparr>o_last_out_ts := 0, o_last_kind_ts := (\<lambda>_. None), o_last_pts := 0,
      o_skip_leading_after := None, o_pending_headers := False, o_sent_headers := [],
      o_sent_metadata := None, o_dropped := 0, o_sent_bytes := 0\<rparr>\<rparr>"

lemma quiet_fields:
  "ring (quiet e) = ring e" "syncs (quiet e) = syncs e" "base_seq (quiet e) = base_seq e"
  "next_seq (quiet e) = next_seq e" "bytes_held (quiet e) = bytes_held e"
  "config (quiet e) = config e" "sessions (quiet e) = sessions e"
  "session_bytes (quiet e) = session_bytes e" "ingest_active (quiet e) = ingest_active e"
  "next_session (quiet e) = next_session e" "stats (quiet e) = stats e"
  "o_connected (out (quiet e)) = o_connected (out e)"
  "o_generation (out (quiet e)) = o_generation (out e)"
  "o_next_seq (out (quiet e)) = o_next_seq (out e)" "o_delay (out (quiet e)) = o_delay (out e)"
  "o_target (out (quiet e)) = o_target (out e)"
  "o_ts_offset (out (quiet e)) = o_ts_offset (out e)"
  "o_fresh (out (quiet e)) = o_fresh (out e)" "o_need_sync (out (quiet e)) = o_need_sync (out e)"
  "o_started (out (quiet e)) = o_started (out e)"
  "o_current_session (out (quiet e)) = o_current_session (out e)"
  "o_gate (out (quiet e)) = o_gate (out e)" "o_pending (out (quiet e)) = o_pending (out e)"
  "o_hold (out (quiet e)) = o_hold (out e)" "o_end_mark (out (quiet e)) = o_end_mark (out e)"
  "o_memory_short (out (quiet e)) = o_memory_short (out e)"
  "o_first_emitted (out (quiet e)) = o_first_emitted (out e)"
  by (simp_all add: quiet_def)

lemma quiet_eqD:
  assumes "quiet e' = quiet e"
  shows "ring e' = ring e" "syncs e' = syncs e" "base_seq e' = base_seq e"
    "next_seq e' = next_seq e" "bytes_held e' = bytes_held e" "config e' = config e"
    "sessions e' = sessions e" "session_bytes e' = session_bytes e"
    "ingest_active e' = ingest_active e" "next_session e' = next_session e" "stats e' = stats e"
    "o_connected (out e') = o_connected (out e)" "o_generation (out e') = o_generation (out e)"
    "o_next_seq (out e') = o_next_seq (out e)" "o_delay (out e') = o_delay (out e)"
    "o_target (out e') = o_target (out e)" "o_ts_offset (out e') = o_ts_offset (out e)"
    "o_fresh (out e') = o_fresh (out e)" "o_need_sync (out e') = o_need_sync (out e)"
    "o_started (out e') = o_started (out e)"
    "o_current_session (out e') = o_current_session (out e)"
    "o_gate (out e') = o_gate (out e)" "o_pending (out e') = o_pending (out e)"
    "o_hold (out e') = o_hold (out e)" "o_end_mark (out e') = o_end_mark (out e)"
    "o_memory_short (out e') = o_memory_short (out e)"
    "o_first_emitted (out e') = o_first_emitted (out e)"
  using quiet_fields [of e] quiet_fields [of e'] assms by simp_all

lemma quiet_entry: "quiet e' = quiet e \<Longrightarrow> entry e' s = entry e s"
  by (simp add: entry_def quiet_eqD [of e' e])

lemma quiet_buf_wf: "quiet e' = quiet e \<Longrightarrow> buf_wf e' = buf_wf e"
  by (simp add: buf_wf_def ring_wf_def sessions_wf_def quiet_eqD [of e' e])

lemma quiet_steps [simp]:
  "quiet (snd (out_ts k ts e)) = quiet e"
  "quiet (snd (mark_header_sent fp k c p e)) = quiet e"
  "quiet (count_sent p e) = quiet e"
  "quiet (count_dropped e) = quiet e"
  "quiet (stamp k t e) = quiet e"
  "quiet (e\<lparr>out := (out e)\<lparr>o_pending_headers := b\<rparr>\<rparr>) = quiet e"
  "quiet (e\<lparr>out := (out e)\<lparr>o_skip_leading_after := l\<rparr>\<rparr>) = quiet e"
  "quiet (e\<lparr>out := (out e)\<lparr>o_sent_metadata := m\<rparr>\<rparr>) = quiet e"
  "quiet (e\<lparr>out := (out e)\<lparr>o_last_pts := p'\<rparr>\<rparr>) = quiet e"
  "quiet (e\<lparr>out := (out e)\<lparr>o_last_out_ts := n\<rparr>\<rparr>) = quiet e"
  "quiet (e\<lparr>out := (out e)\<lparr>o_last_out_ts := n, o_last_pts := p'\<rparr>\<rparr>) = quiet e"
  by (simp_all add: quiet_def out_ts_def mark_header_sent_def count_sent_def count_dropped_def
      stamp_def Let_def)

lemma quiet_send_at [simp]: "quiet (fst (send_at k ts p s eo)) = quiet (fst eo)"
  using quiet_steps(1) [of k ts "fst eo"]
  by (cases "out_ts k ts (fst eo)") (simp add: send_at_def)

lemma quiet_send_headers [simp]: "quiet (fst (send_headers fp ts hs eo)) = quiet (fst eo)"
proof (induction fp ts hs eo rule: send_headers.induct)
  case (2 fp ts k c payload hs eo)
  obtain new e where m: "mark_header_sent fp k c payload (fst eo) = (new, e)" by fastforce
  then have "quiet e = quiet (fst eo)" by (metis quiet_steps(2) snd_conv)
  with 2 m show ?case by simp
qed simp

lemma quiet_emit_headers [simp]: "quiet (fst (emit_headers fp eo)) = quiet (fst eo)"
proof -
  have "quiet e1 = quiet e" if "out_ts Data ts e = (t, e1)" for ts t e e1
    using that by (metis quiet_steps(1) snd_conv)
  then show ?thesis
    by (auto simp: emit_headers_def Let_def split: option.splits prod.splits)
qed

lemma past_leading_quiet: "past_leading e x = Some e' \<Longrightarrow> quiet e' = quiet e"
  by (auto simp: past_leading_def split: option.splits if_splits)

lemma quiet_emit_entry [simp]: "quiet (fst (emit_entry fp eo)) = quiet (fst eo)"
proof -
  have out: "quiet e1 = quiet e" if "out_ts k ts e = (t, e1)" for k ts t e e1
    using that by (metis quiet_steps(1) snd_conv)
  have mark: "quiet e1 = quiet e" if "mark_header_sent fp k c p e = (b, e1)" for k c p e b e1
    using that by (metis quiet_steps(2) snd_conv)
  show ?thesis
    by (auto simp: emit_entry_def Let_def split: option.splits prod.splits
        dest!: out mark past_leading_quiet)
qed

lemma quiet_send_hold_headers [simp]:
  "quiet (fst (send_hold_headers fp t hs eo)) = quiet (fst eo)"
proof (induction fp t hs eo rule: send_hold_headers.induct)
  case (2 fp t k c payload hs eo)
  obtain new e where m: "mark_header_sent fp k c payload (fst eo) = (new, e)" by fastforce
  then have "quiet e = quiet (fst eo)" by (metis quiet_steps(2) snd_conv)
  with 2 m show ?case by simp
qed simp

lemma quiet_emit_hold_headers [simp]:
  "quiet (fst (emit_hold_headers fp hs t eo)) = quiet (fst eo)"
proof -
  have "quiet (fst r) = quiet (fst eo) \<Longrightarrow>
      quiet ((fst r)\<lparr>out := (out (fst r))\<lparr>o_last_out_ts := n\<rparr>\<rparr>) = quiet (fst eo)" for r :: "engine \<times> out_msg list" and n
    by simp
  from this [of "send_hold_headers fp t (hd_config hs) _"] show ?thesis
    by (simp add: emit_hold_headers_def Let_def split: prod.split option.split)
      (metis fst_conv quiet_send_hold_headers quiet_steps(5) quiet_steps(8))
qed

section \<open>What a splice sets\<close>

lemma splice_to_fields:
  assumes "entry e k = Some x"
  shows "o_next_seq (out (splice_to k d e)) = k" "o_delay (out (splice_to k d e)) = d"
    "o_need_sync (out (splice_to k d e)) = False" "o_started (out (splice_to k d e)) = True"
    "o_fresh (out (splice_to k d e)) = False"
    "o_current_session (out (splice_to k d e)) = Some (e_session x)"
    "o_pending_headers (out (splice_to k d e)) = True"
  using assms by (simp_all add: splice_to_def Let_def)

lemma splice_to_keeps [simp]:
  "o_pending (out (splice_to k d e)) = o_pending (out e)"
  "o_hold (out (splice_to k d e)) = o_hold (out e)"
  "o_target (out (splice_to k d e)) = o_target (out e)"
  "o_end_mark (out (splice_to k d e)) = o_end_mark (out e)"
  "o_connected (out (splice_to k d e)) = o_connected (out e)"
  "o_generation (out (splice_to k d e)) = o_generation (out e)"
  "o_memory_short (out (splice_to k d e)) = o_memory_short (out e)"
  "o_last_out_ts (out (splice_to k d e)) = o_last_out_ts (out e)"
  "o_last_kind_ts (out (splice_to k d e)) = o_last_kind_ts (out e)"
  "o_last_pts (out (splice_to k d e)) = o_last_pts (out e)"
  "o_first_emitted (out (splice_to k d e)) = o_first_emitted (out e)"
  by (simp_all add: splice_to_def Let_def split: option.split)

lemma splice_to_None: "entry e k = None \<Longrightarrow> splice_to k d e = e"
  by (simp add: splice_to_def)

lemma entry_splice_to [simp]: "entry (splice_to k d e) s = entry e s"
  by (simp add: entry_def)

lemma after_sent_bounds:
  "o_last_out_ts (out e) + max frame 1 \<le> after_sent e frame cts"
  "o_last_pts (out e) + int (max frame 1) \<le> int (after_sent e frame cts) + cts"
  by (auto simp: after_sent_def Let_def)

text \<open>
  Splices keep both orders: on a connection that has already sent something, the
  keyframe the output is spliced to is stamped at least one frame after everything sent, in
  decode order (its timestamp) and in presentation order (timestamp plus composition time),
  so frames reordered by B-frames never come after it.
\<close>

theorem splice_after_everything_sent:
  assumes "entry e k = Some x" and "\<not> o_fresh (out e)"
  shows "o_last_out_ts (out e) + max (frame_ms e (e_session x)) 1
           \<le> fst (out_ts (e_kind x) (e_ts x) (splice_to k d e)) \<and>
         o_last_pts (out e) + int (max (frame_ms e (e_session x)) 1)
           \<le> int (fst (out_ts (e_kind x) (e_ts x) (splice_to k d e))) + e_cts x"
proof -
  have "after_sent e (frame_ms e (e_session x)) (e_cts x)
      \<le> fst (out_ts (e_kind x) (e_ts x) (splice_to k d e))"
    using assms by (auto simp: out_ts_def splice_to_def Let_def split: option.split)
  with after_sent_bounds [of e "frame_ms e (e_session x)" "e_cts x"] show ?thesis
    by linarith
qed

section \<open>Timestamps never go back\<close>

text \<open>
  The messages \<open>ms\<close> carry the 32-bit truncations of timestamps that, kind by kind,
  start no lower than \<open>L\<close> and never decrease; \<open>L'\<close> has the last ones.
\<close>

fun kind_order :: "(kind \<Rightarrow> nat option) \<Rightarrow> (kind \<times> nat) list \<Rightarrow> (kind \<Rightarrow> nat option) \<Rightarrow> bool" where
  "kind_order L [] L' \<longleftrightarrow> L' = L"
| "kind_order L ((k, t) # xs) L' \<longleftrightarrow>
     (case L k of None \<Rightarrow> True | Some l \<Rightarrow> l \<le> t) \<and> kind_order (L(k := Some t)) xs L'"

definition stamped :: "(kind \<Rightarrow> nat option) \<Rightarrow> out_msg list \<Rightarrow> (kind \<Rightarrow> nat option) \<Rightarrow> bool" where
  "stamped L ms L' \<longleftrightarrow>
     (\<exists>ts. list_all2 (\<lambda>m (k, t). m_kind m = k \<and> m_timestamp m = of_nat t) ms ts \<and>
           kind_order L ts L')"

lemma kind_order_append:
  "kind_order L xs L1 \<Longrightarrow> kind_order L1 ys L2 \<Longrightarrow> kind_order L (xs @ ys) L2"
  by (induction L xs L1 rule: kind_order.induct) auto

lemma stamped_refl [simp]: "stamped L [] L"
  by (simp add: stamped_def)

lemma stamped_append: "stamped L xs L1 \<Longrightarrow> stamped L1 ys L2 \<Longrightarrow> stamped L (xs @ ys) L2"
  unfolding stamped_def by (blast intro: list_all2_appendI kind_order_append)

lemma stamped_single:
  "(case L k of None \<Rightarrow> True | Some l \<Rightarrow> l \<le> t) \<Longrightarrow> L' = L(k := Some t) \<Longrightarrow>
   stamped L [msg k t p s] L'"
  unfolding stamped_def by (rule exI [of _ "[(k, t)]"]) (simp add: msg_def)

abbreviation lkt :: "engine \<Rightarrow> kind \<Rightarrow> nat option" where
  "lkt e \<equiv> o_last_kind_ts (out e)"

text \<open>
  No kind is ahead of the last timestamp sent, which is what the held frame continues from.
  \<open>stamps\<close>: an emission keeps that, and what it appends continues each kind's order.
\<close>

definition ts_ok :: "engine \<Rightarrow> bool" where
  "ts_ok e \<longleftrightarrow> (\<forall>k l. lkt e k = Some l \<longrightarrow> l \<le> o_last_out_ts (out e))"

definition stamps :: "engine \<times> out_msg list \<Rightarrow> engine \<times> out_msg list \<Rightarrow> bool" where
  "stamps eo eo' \<longleftrightarrow>
     (ts_ok (fst eo) \<longrightarrow>
        ts_ok (fst eo') \<and>
        (\<exists>ms. snd eo' = snd eo @ ms \<and> stamped (lkt (fst eo)) ms (lkt (fst eo'))))"

lemma stamps_silent:
  "lkt e' = lkt (fst eo) \<Longrightarrow> o_last_out_ts (out (fst eo)) \<le> o_last_out_ts (out e') \<Longrightarrow>
   stamps eo (e', snd eo)"
  by (fastforce simp: stamps_def ts_ok_def)

lemma stamps_refl: "stamps eo eo"
  using stamps_silent [of "fst eo" eo] by simp

lemma stamps_trans [trans]: "stamps a b \<Longrightarrow> stamps b c \<Longrightarrow> stamps a c"
  unfolding stamps_def by (metis append.assoc stamped_append)

lemma stamps_push:
  assumes "ts_ok (fst eo) \<Longrightarrow> case lkt (fst eo) k of None \<Rightarrow> True | Some l \<Rightarrow> l \<le> t"
    and "lkt e' = (lkt (fst eo))(k := Some t)"
    and "max (o_last_out_ts (out (fst eo))) t \<le> o_last_out_ts (out e')"
  shows "stamps eo (e', snd eo @ [msg k t p s])"
  using assms unfolding stamps_def ts_ok_def
  by (auto intro: stamped_single split: if_splits dest: order_trans)

lemma lkt_steps [simp]:
  "lkt (snd (mark_header_sent fp k c p e)) = lkt e"
  "lkt (count_sent p e) = lkt e" "lkt (count_dropped e) = lkt e"
  "o_last_out_ts (out (snd (mark_header_sent fp k c p e))) = o_last_out_ts (out e)"
  "o_last_out_ts (out (count_sent p e)) = o_last_out_ts (out e)"
  "o_last_out_ts (out (count_dropped e)) = o_last_out_ts (out e)"
  by (simp_all add: mark_header_sent_def count_sent_def count_dropped_def Let_def)

lemma out_ts_order:
  assumes "out_ts k ts e = (t, e')"
  shows "case lkt e k of None \<Rightarrow> True | Some l \<Rightarrow> l \<le> t" and "lkt e' = (lkt e)(k := Some t)"
    and "o_last_out_ts (out e') = max (o_last_out_ts (out e)) t"
  using assms by (auto simp: out_ts_def Let_def split: option.splits)

lemma stamps_send_at: "stamps eo (send_at k ts p s eo)"
proof (cases "out_ts k ts (fst eo)")
  case (Pair t e)
  then show ?thesis
    using out_ts_order [OF Pair] by (auto simp: send_at_def intro: stamps_push)
qed

lemma stamps_mark: "mark_header_sent fp k c p (fst eo) = (b, e1) \<Longrightarrow> stamps eo (e1, snd eo)"
  by (rule stamps_silent) (metis lkt_steps(1,4) order_refl snd_conv)+

lemma stamps_send_headers: "stamps eo (send_headers fp ts hs eo)"
proof (induction fp ts hs eo rule: send_headers.induct)
  case (2 fp ts k c payload hs eo)
  obtain new e where m: "mark_header_sent fp k c payload (fst eo) = (new, e)" by fastforce
  let ?eo' = "if new then send_at k ts payload None (e, snd eo) else (e, snd eo)"
  note stamps_mark [OF m]
  also have "stamps (e, snd eo) ?eo'" by (simp add: stamps_send_at stamps_refl)
  also have "stamps ?eo' (send_headers fp ts hs ?eo')" by (rule 2 [OF m [symmetric] refl])
  finally show ?case using m by simp
qed (simp add: stamps_refl)

lemma stamps_emit_headers: "stamps eo (emit_headers fp eo)"
proof -
  let ?e = "(fst eo)\<lparr>out := (out (fst eo))\<lparr>o_pending_headers := False\<rparr>\<rparr>"
  have first: "stamps eo (?e, snd eo)" by (simp add: stamps_silent)
  have meta: "stamps (?e, snd eo)
      (e1\<lparr>out := (out e1)\<lparr>o_sent_metadata := m\<rparr>\<rparr>, snd eo @ [msg Data t p None])"
    if "out_ts Data ts ?e = (t, e1)" for ts t e1 m p
    using out_ts_order [OF that] stamps_push [where eo = "(?e, snd eo)" and k = Data and t = t]
    by simp
  note rest = stamps_trans [OF _ stamps_send_headers] stamps_trans [OF first meta]
  show ?thesis
    by (auto simp: emit_headers_def Let_def split: option.splits prod.splits intro: first rest)
qed

lemma past_leading_lkt:
  "past_leading e x = Some e' \<Longrightarrow> lkt e' = lkt e \<and> o_last_out_ts (out e') = o_last_out_ts (out e)"
  by (auto simp: past_leading_def split: option.splits if_splits)

lemma stamps_emit_entry: "stamps eo (emit_entry fp eo)"
proof (cases "entry (fst eo) (o_next_seq (out (fst eo)))")
  case None
  then show ?thesis by (simp add: emit_entry_def stamps_refl Let_def)
next
  case (Some x)
  have sent: "stamps eo (count_sent p (if b then e2\<lparr>out := (out e2)\<lparr>o_last_pts := q\<rparr>\<rparr> else e2),
      snd eo @ [msg k t p s])"
    if "past_leading (fst eo) x = Some e1" "out_ts k ts e1 = (t, e2)" for e1 k ts t e2 p b q s
    using out_ts_order [OF that(2)] past_leading_lkt [OF that(1)]
    by (intro stamps_push) (auto simp: ts_ok_def)
  have left_out: "stamps eo (count_dropped e1, snd eo)"
    if "past_leading (fst eo) x = Some e1" for e1
    using past_leading_lkt [OF that] by (intro stamps_silent) simp_all
  have skipped: "stamps eo (count_dropped (fst eo), snd eo)" by (intro stamps_silent) simp_all
  show ?thesis
  proof (cases "e_config x")
    case None
    then show ?thesis
      using Some sent left_out skipped
      by (cases "past_leading (fst eo) x") (auto simp: emit_entry_def Let_def split: prod.split)
  next
    case c: (Some c)
    obtain b e1 where m: "mark_header_sent fp (e_kind x) c (e_payload x) (fst eo) = (b, e1)"
      by fastforce
    from stamps_mark [OF m] stamps_trans [OF stamps_mark [OF m] stamps_send_at] show ?thesis
      using Some c m by (auto simp: emit_entry_def Let_def)
  qed
qed

lemma stamp_fields [simp]:
  "lkt (stamp k t e) = (lkt e)(k := Some t)" "o_last_out_ts (out (stamp k t e)) = o_last_out_ts (out e)"
  by (simp_all add: stamp_def)

text \<open>The held frame and its configuration carry one timestamp, at or after everything sent.\<close>

definition stamps_at :: "nat \<Rightarrow> engine \<times> out_msg list \<Rightarrow> engine \<times> out_msg list \<Rightarrow> bool" where
  "stamps_at t eo eo' \<longleftrightarrow>
     ((\<forall>k l. lkt (fst eo) k = Some l \<longrightarrow> l \<le> t) \<longrightarrow>
        (\<forall>k l. lkt (fst eo') k = Some l \<longrightarrow> l \<le> t) \<and>
        o_last_out_ts (out (fst eo')) = o_last_out_ts (out (fst eo)) \<and>
        (\<exists>ms. snd eo' = snd eo @ ms \<and> stamped (lkt (fst eo)) ms (lkt (fst eo'))))"

lemma stamps_at_refl: "stamps_at t eo eo"
  by (simp add: stamps_at_def)

lemma stamps_at_trans [trans]:
  assumes "stamps_at t a b" and "stamps_at t b c"
  shows "stamps_at t a c"
  unfolding stamps_at_def
proof (rule impI)
  assume "\<forall>k l. lkt (fst a) k = Some l \<longrightarrow> l \<le> t"
  with assms(1) obtain ms where ab: "\<forall>k l. lkt (fst b) k = Some l \<longrightarrow> l \<le> t"
    "o_last_out_ts (out (fst b)) = o_last_out_ts (out (fst a))" "snd b = snd a @ ms"
    "stamped (lkt (fst a)) ms (lkt (fst b))"
    unfolding stamps_at_def by blast
  from assms(2) ab(1) obtain ms' where bc: "\<forall>k l. lkt (fst c) k = Some l \<longrightarrow> l \<le> t"
    "o_last_out_ts (out (fst c)) = o_last_out_ts (out (fst b))" "snd c = snd b @ ms'"
    "stamped (lkt (fst b)) ms' (lkt (fst c))"
    unfolding stamps_at_def by blast
  from stamped_append [OF ab(4) bc(4)] ab bc
  show "(\<forall>k l. lkt (fst c) k = Some l \<longrightarrow> l \<le> t) \<and>
      o_last_out_ts (out (fst c)) = o_last_out_ts (out (fst a)) \<and>
      (\<exists>ms. snd c = snd a @ ms \<and> stamped (lkt (fst a)) ms (lkt (fst c)))"
    by simp
qed

lemma stamps_at_push:
  "lkt e' = (lkt (fst eo))(k := Some t) \<Longrightarrow> o_last_out_ts (out e') = o_last_out_ts (out (fst eo)) \<Longrightarrow>
   stamps_at t eo (e', snd eo @ [msg k t p s])"
  unfolding stamps_at_def by (auto intro: stamped_single split: option.split)

lemma stamps_at_mark:
  "mark_header_sent fp k c p (fst eo) = (b, e1) \<Longrightarrow> stamps_at t eo (e1, snd eo)"
  using lkt_steps(1,4) [of fp k c p "fst eo"] by (simp add: stamps_at_def)

lemma stamps_at_send_hold_headers: "stamps_at t eo (send_hold_headers fp t hs eo)"
proof (induction fp t hs eo rule: send_hold_headers.induct)
  case (2 fp t k c payload hs eo)
  obtain new e where m: "mark_header_sent fp k c payload (fst eo) = (new, e)" by fastforce
  let ?eo' = "if new then (stamp k t (count_sent payload e), snd eo @ [msg k t payload None])
              else (e, snd eo)"
  note stamps_at_mark [OF m, of t]
  also have "stamps_at t (e, snd eo) ?eo'"
    using stamps_at_push [where eo = "(e, snd eo)" and k = k and t = t]
    by (simp add: stamps_at_refl)
  also have "stamps_at t ?eo' (send_hold_headers fp t hs ?eo')"
    by (rule 2 [OF m [symmetric] refl])
  finally show ?case using m by simp
qed (simp add: stamps_at_refl)

lemma stamps_at_emit_hold_headers:
  obtains e where "stamps_at t eo (e, snd (emit_hold_headers fp hs t eo))"
    and "fst (emit_hold_headers fp hs t eo) =
         e\<lparr>out := (out e)\<lparr>o_last_out_ts := max (o_last_out_ts (out e)) t\<rparr>\<rparr>"
proof -
  define eo1 where "eo1 = (case hd_metadata hs of
                None \<Rightarrow> eo
              | Some m \<Rightarrow>
                  (stamp Data t ((fst eo)\<lparr>out := (out (fst eo))\<lparr>o_sent_metadata := Some m\<rparr>\<rparr>),
                   snd eo @ [msg Data t m None]))"
  have "stamps_at t eo eo1"
  proof (cases "hd_metadata hs")
    case None
    then show ?thesis by (simp add: eo1_def stamps_at_refl)
  next
    case (Some m)
    then show ?thesis unfolding eo1_def by (simp, intro stamps_at_push) simp_all
  qed
  from stamps_at_trans [OF this stamps_at_send_hold_headers]
  have all: "stamps_at t eo (send_hold_headers fp t (hd_config hs) eo1)" .
  obtain e outs where r: "send_hold_headers fp t (hd_config hs) eo1 = (e, outs)" by fastforce
  have "emit_hold_headers fp hs t eo =
      (e\<lparr>out := (out e)\<lparr>o_last_out_ts := max (o_last_out_ts (out e)) t\<rparr>\<rparr>, outs)"
    unfolding emit_hold_headers_def eo1_def [symmetric] Let_def r by simp
  with all r that show ?thesis by simp
qed

lemma hold_stamp_ge: "o_last_out_ts (out e) \<le> hold_stamp now e h"
  unfolding hold_stamp_def Let_def by (simp add: max_def)

lemma stamps_emit_hold_frame: "stamps eo (fst (emit_hold_frame fp now eo))"
proof (cases "o_hold (out (fst eo))")
  case None
  then show ?thesis by (simp add: emit_hold_frame_def stamps_refl)
next
  case (Some h)
  show ?thesis
  proof (cases "now < hf_next h")
    case True
    with Some show ?thesis by (simp add: emit_hold_frame_def stamps_refl)
  next
    case False
    let ?e = "fst eo"
    let ?t = "hold_stamp now ?e h"
    let ?h' = "h\<lparr>hf_last := now, hf_next := now + SEC, hf_needs_headers := False\<rparr>"
    let ?e1 = "?e\<lparr>out := (out ?e)\<lparr>o_hold := Some ?h', o_fresh := False\<rparr>\<rparr>"
    obtain e2 outs2 where eo2: "(if hf_needs_headers h
        then emit_hold_headers fp (hf_headers h) ?t (?e1, snd eo) else (?e1, snd eo)) = (e2, outs2)"
      by fastforce
    obtain e where e: "stamps_at ?t (?e1, snd eo) (e, outs2)" "lkt e2 = lkt e"
      "max (o_last_out_ts (out e2)) ?t = max (o_last_out_ts (out e)) ?t"
    proof (cases "hf_needs_headers h")
      case True
      obtain e where "stamps_at ?t (?e1, snd eo)
          (e, snd (emit_hold_headers fp (hf_headers h) ?t (?e1, snd eo)))"
        "fst (emit_hold_headers fp (hf_headers h) ?t (?e1, snd eo)) =
          e\<lparr>out := (out e)\<lparr>o_last_out_ts := max (o_last_out_ts (out e)) ?t\<rparr>\<rparr>"
        by (rule stamps_at_emit_hold_headers)
      with True eo2 that [of e] show ?thesis by simp
    next
      case False
      with eo2 that show ?thesis by (auto intro: stamps_at_refl)
    qed
    let ?e4 = "(stamp Video ?t e2)\<lparr>out := (out (stamp Video ?t e2))
                 \<lparr>o_last_out_ts := max (o_last_out_ts (out (stamp Video ?t e2))) ?t,
                  o_last_pts := max (o_last_pts (out (stamp Video ?t e2))) (int ?t + hf_cts h)\<rparr>\<rparr>"
    have res: "fst (emit_hold_frame fp now eo)
        = (count_sent (hf_payload h) ?e4, outs2 @ [msg Video ?t (hf_payload h) None])"
      using Some False eo2 by (simp add: emit_hold_frame_def Let_def)
    have "stamps_at ?t (e, outs2)
        (e\<lparr>out := (out e)\<lparr>o_last_kind_ts := (lkt e)(Video := Some ?t)\<rparr>\<rparr>, outs2 @ [msg Video ?t (hf_payload h) None])"
      using stamps_at_push [where eo = "(e, outs2)" and k = Video and t = ?t] by simp
    with e(1) have all: "stamps_at ?t (?e1, snd eo)
        (e\<lparr>out := (out e)\<lparr>o_last_kind_ts := (lkt e)(Video := Some ?t)\<rparr>\<rparr>, outs2 @ [msg Video ?t (hf_payload h) None])"
      by (rule stamps_at_trans)
    have "\<forall>k l. lkt ?e k = Some l \<longrightarrow> l \<le> ?t" if "ts_ok ?e"
      using that hold_stamp_ge [of ?e now h] by (fastforce simp: ts_ok_def)
    with all show ?thesis
      unfolding res stamps_def stamps_at_def ts_ok_def using e(2,3) by (auto simp: le_max_iff_disj)
  qed
qed

text \<open>Splicing and ending the hold send nothing and move no kind back.\<close>

lemma stamps_splice_to: "stamps eo (splice_to k d (fst eo), snd eo)"
  by (rule stamps_silent) simp_all

lemma stamps_end_hold: "stamps eo (end_hold now (fst eo), snd eo)"
  by (rule stamps_silent) (simp_all add: end_hold_def split: option.split)

end
