(* ===== verification/Engine_Pending.thy ===== *)
theory Engine_Pending
  imports Engine_Splice
begin

text \<open>
  Pending changes of the delay (\<^verbatim>\<open>run_pending\<close> and what sets them up:
  \<^verbatim>\<open>set_pending\<close>, \<^verbatim>\<open>back_to_target\<close>, \<^verbatim>\<open>back_under_max\<close>,
  \<^verbatim>\<open>rewind\<close>, the replay of a dump, \<^verbatim>\<open>memory_short\<close>) and the eviction
  loop. \<^verbatim>\<open>run_pending\<close> is a \<^verbatim>\<open>loop\<close> over a \<^verbatim>\<open>match\<close>:
  \<open>pending_step\<close> is its body, whose result says whether it returned (\<open>Inl\<close>) or
  goes round again (\<open>Inr\<close>), with one definition per arm.
\<close>

section \<open>Setting a pending change\<close>

definition set_pending :: "pending \<Rightarrow> engine \<Rightarrow> engine" where
  "set_pending p e =
     (let o1 = (if covers (o_pending (out e)) then (out e)\<lparr>o_mask_visible := False\<rparr> else out e);
          o2 = (case p of Hold _ _ \<Rightarrow> o1 | _ \<Rightarrow> o1\<lparr>o_hold := None\<rparr>)
      in e\<lparr>out := o2\<lparr>o_pending := p\<rparr>\<rparr>)"

text \<open>\<^verbatim>\<open>self.out.pending = p\<close>, without the rest of \<open>set_pending\<close>.\<close>

definition put_pending :: "pending \<Rightarrow> engine \<Rightarrow> engine" where
  "put_pending p e = e\<lparr>out := (out e)\<lparr>o_pending := p\<rparr>\<rparr>"

definition back_to_target :: "engine \<Rightarrow> engine" where
  "back_to_target e =
     (let target = o_target (out e);
          go = set_pending (if target = 0 then GoLiveNow (next_seq e - 1) else Reduce target) e
      in if o_delay (out e) < target + 500 * MS then e
         else (case o_pending (out e) of
                 PendNone \<Rightarrow> go
               | Reduce d \<Rightarrow> if target < d then go else e
               | _ \<Rightarrow> e))"

definition back_under_max :: "engine \<Rightarrow> engine" where
  "back_under_max e =
     (let mx = max_delay_ms (config e) * MS
      in if o_pending (out e) = PendNone \<and> mx + keyframe_interval e < o_delay (out e)
         then set_pending (Reduce mx)
                (e\<lparr>out := (out e)\<lparr>o_target := min (o_target (out e)) mx\<rparr>\<rparr>)
         else e)"

section \<open>Going on with a pending change\<close>

definition run_go_live :: "nat \<Rightarrow> nat \<Rightarrow> engine \<Rightarrow> engine" where
  "run_go_live now after_seq e =
     (case last_opt (syncs e) of
        None \<Rightarrow> e
      | Some k \<Rightarrow>
          if \<not> after_seq < k then e
          else put_pending PendNone
                 (if o_next_seq (out e) < k \<or> o_need_sync (out e)
                  then splice_to k (now - arrival_or now e k) e
                  else e\<lparr>out := (out e)\<lparr>o_delay := min (o_delay (out e)) (o_target (out e))\<rparr>\<rparr>))"

definition run_reduce :: "nat \<Rightarrow> nat \<Rightarrow> engine \<Rightarrow> engine" where
  "run_reduce now d e =
     (if o_delay (out e) < d + 500 * MS then put_pending PendNone e
      else (case newest_sync_arrived_by e (checked_sub now d) of
              None \<Rightarrow> e
            | Some k \<Rightarrow>
                if \<not> o_next_seq (out e) < k then e
                else (let arrival = arrival_or now e k in
                      if gap_after e k (now - arrival - d) then e
                      else put_pending PendNone (splice_to k (now - arrival) e))))"

text \<open>
  \<^verbatim>\<open>Mask\<close>: the anchor, the first keyframe recorded once the slate surely shows, is
  found once (\<open>mask_anchor\<close>; \<open>None\<close> while waiting) and spliced to when it is
  \<open>d\<close> old.
\<close>

definition mask_from :: "nat \<Rightarrow> nat \<Rightarrow> nat option \<Rightarrow> engine \<Rightarrow> nat option \<times> engine" where
  "mask_from now started shown e =
     (let margin = mask_margin_ms (config e) * MS in
      case shown of
        Some t \<Rightarrow> (Some (t + margin), e)
      | None \<Rightarrow>
          if started + SLATE_CONFIRM_WAIT \<le> now
          then (Some (started + margin), e\<lparr>out := (out e)\<lparr>o_slate_unconfirmed := True\<rparr>\<rparr>)
          else (None, e))"

definition mask_anchor ::
  "nat \<Rightarrow> nat \<Rightarrow> nat \<Rightarrow> nat option \<Rightarrow> bool \<Rightarrow> nat option \<Rightarrow> bool \<Rightarrow> engine \<Rightarrow> nat option \<times> engine"
where
  "mask_anchor now d started anchor mute shown dump e =
     (case anchor of
        Some a \<Rightarrow> (Some a, e)
      | None \<Rightarrow>
          (case mask_from now started shown e of
             (None, e1) \<Rightarrow> (None, e1)
           | (Some from, e1) \<Rightarrow>
               (case find (arrived_from e1 from) (syncs e1) of
                  None \<Rightarrow> (None, e1)
                | Some a \<Rightarrow> (Some a, put_pending (Mask d started (Some a) mute shown dump) e1))))"

definition run_mask ::
  "nat \<Rightarrow> nat \<Rightarrow> nat \<Rightarrow> nat option \<Rightarrow> bool \<Rightarrow> nat option \<Rightarrow> bool \<Rightarrow> engine \<Rightarrow> engine" where
  "run_mask now d started anchor mute shown dump e =
     (case mask_anchor now d started anchor mute shown dump e of
        (None, e1) \<Rightarrow> e1
      | (Some a, e1) \<Rightarrow>
          (case entry e1 a of
             None \<Rightarrow> set_pending PendNone e1
           | Some x \<Rightarrow>
               if e_arrival x + d \<le> now
               then set_pending PendNone (splice_to a (now - e_arrival x) e1)
               else e1))"

text \<open>\<^verbatim>\<open>Dump\<close>: both ways out go round the loop again.\<close>

definition run_dump ::
  "nat \<Rightarrow> nat \<Rightarrow> nat \<Rightarrow> nat \<Rightarrow> nat option \<Rightarrow> engine \<Rightarrow> engine + engine" where
  "run_dump now d started from shown e =
     (let cover = (\<lambda>after.
            case find (arrived_from e after) (syncs e) of
              None \<Rightarrow> Inl e
            | Some anchor \<Rightarrow>
                (let arrival = arrival_or now e anchor in
                 Inr (put_pending
                        (Mask d started (Some anchor) (mute_under_slate (config e)) shown True)
                        (splice_to anchor (now - arrival) (end_hold now e)))))
      in case shown of
           Some t \<Rightarrow> cover (t + mask_margin_ms (config e) * MS)
         | None \<Rightarrow>
             if started + SLATE_CONFIRM_WAIT \<le> now
             then Inr (set_pending (Hold from d) (e\<lparr>out := (out e)\<lparr>o_cover_lost := True\<rparr>\<rparr>))
             else Inl e)"

definition run_hold :: "nat \<Rightarrow> nat \<Rightarrow> nat \<Rightarrow> engine \<Rightarrow> engine" where
  "run_hold now from d e =
     (let before_end = (\<lambda>s. case o_end_mark (out e) of None \<Rightarrow> True | Some m \<Rightarrow> s \<le> m) in
      case find (\<lambda>s. from \<le> s \<and> before_end s) (syncs e) of
        None \<Rightarrow>
          (case o_end_mark (out e) of
             None \<Rightarrow> e
           | Some m \<Rightarrow>
               e\<lparr>out := (out e)\<lparr>o_next_seq := max (o_next_seq (out e)) (m + 1),
                                o_pending := PendNone, o_hold := None, o_cover_lost := False\<rparr>\<rparr>)
      | Some k \<Rightarrow>
          (let arrival = arrival_or now e k in
           if arrival + d \<le> now
           then (let e1 = splice_to k (now - arrival) (end_hold now e)
                 in e1\<lparr>out := (out e1)\<lparr>o_pending := PendNone, o_cover_lost := False\<rparr>\<rparr>)
           else e))"

definition run_replay :: "nat \<Rightarrow> nat \<Rightarrow> nat \<Rightarrow> engine \<Rightarrow> engine" where
  "run_replay now from d e =
     (case find (\<lambda>s. from \<le> s) (syncs e) of
        None \<Rightarrow> e
      | Some k \<Rightarrow>
          (let arrival = arrival_or now e k in
           if arrival + d \<le> now then put_pending PendNone (splice_to k (now - arrival) e) else e))"

definition pending_step :: "nat \<Rightarrow> engine \<Rightarrow> engine + engine" where
  "pending_step now e =
     (case o_pending (out e) of
        PendNone \<Rightarrow> Inl e
      | GoLiveNow after_seq \<Rightarrow> Inl (run_go_live now after_seq e)
      | AfterAir mark \<Rightarrow>
          if mark < o_next_seq (out e) then Inr (put_pending (GoLiveNow (next_seq e - 1)) e)
          else Inl e
      | Reduce d \<Rightarrow> Inl (run_reduce now d e)
      | Mask d started anchor mute shown dump \<Rightarrow>
          Inl (run_mask now d started anchor mute shown dump e)
      | Dump d started from shown \<Rightarrow> run_dump now d started from shown e
      | Hold from d \<Rightarrow> Inl (run_hold now from d e)
      | Replay from d \<Rightarrow> Inl (run_replay now from d e))"

text \<open>The loop ends: only \<open>AfterAir\<close> and \<open>Dump\<close> go round, to arms that return.\<close>

fun pending_rank :: "pending \<Rightarrow> nat" where
  "pending_rank (AfterAir _) = 1"
| "pending_rank (Dump _ _ _ _) = 1"
| "pending_rank _ = 0"

lemma put_pending_fields [simp]:
  "o_pending (out (put_pending p e)) = p" "o_pending (out (set_pending p e)) = p"
  by (simp_all add: put_pending_def set_pending_def Let_def split: pending.split)

lemma pending_step_Inr:
  "pending_step now e = Inr e' \<Longrightarrow>
   pending_rank (o_pending (out e')) < pending_rank (o_pending (out e))"
  by (auto simp: pending_step_def run_dump_def Let_def
      split: pending.splits option.splits if_splits)

function run_pending :: "nat \<Rightarrow> engine \<Rightarrow> engine" where
  "run_pending now e =
     (case pending_step now e of Inl e' \<Rightarrow> e' | Inr e' \<Rightarrow> run_pending now e')"
  by pat_completeness auto
termination
  by (relation "measure (\<lambda>(now, e). pending_rank (o_pending (out e)))")
    (auto dest: pending_step_Inr)

declare run_pending.simps [simp del]

section \<open>Rewinding and replaying\<close>

definition rewind :: "nat \<Rightarrow> nat \<Rightarrow> engine \<Rightarrow> engine" where
  "rewind now d e =
     (let newest = newest_sync_arrived_by e (checked_sub now d);
          (k, e1) =
            (case newest of
               Some k \<Rightarrow> (Some k, e)
             | None \<Rightarrow>
                 (let e1 = e\<lparr>out := (out e)
                        \<lparr>o_history_short := True,
                         o_history_then := (case front_opt (ring e) of
                                              None \<Rightarrow> 0 | Some f \<Rightarrow> now - e_arrival f)\<rparr>\<rparr>;
                      full = (ram_cap_bytes (config e) * 9 \<le> (bytes_held e + session_bytes e) * 10);
                      inside = (if full then get_opt (syncs e) 1 else None)
                  in (case inside of Some k \<Rightarrow> Some k | None \<Rightarrow> front_opt (syncs e), e1)))
      in case k of
           None \<Rightarrow> e1
         | Some k \<Rightarrow>
             (let delay = now - arrival_or now e1 k in
              if delay \<le> o_delay (out e1) then e1
              else (let e2 = splice_to k delay e1 in
                    if newest \<noteq> None \<and> gap_after e2 k (delay - d)
                    then set_pending (Reduce d) e2 else e2)))"

definition replay_from :: "nat \<Rightarrow> nat \<Rightarrow> engine \<Rightarrow> nat option" where
  "replay_from now d e =
     (if \<not> keep_history (config e) then None
      else (let q = max (o_next_seq (out e)) (base_seq e);
                edge = arrival_or now e q
            in newest_sync_arrived_by e (checked_sub edge d)))"

definition split_session :: "nat \<Rightarrow> engine \<Rightarrow> engine" where
  "split_session s e =
     (case last_opt (sessions e) of
        None \<Rightarrow> e
      | Some c \<Rightarrow>
          (let next = c\<lparr>s_id := next_session e,
                        s_headers := map (\<lambda>h. h\<lparr>h_seq := min (h_seq h) (s - 1)\<rparr>) (s_headers c)\<rparr>
           in count_sessions
                (e\<lparr>next_session := next_session e + 1, sessions := sessions e @ [next]\<rparr>)))"

text \<open>
  The part of \<^verbatim>\<open>replay_instead\<close> that cuts the entries from \<open>q\<close> (\<^verbatim>\<open>cut\<close>) on off the
  buffer. (\<^verbatim>\<open>ring.drain(keep..)\<close> panics when \<open>keep\<close> is past the end, which
  \<open>out_wf\<close> rules out.)
\<close>

definition cut_from :: "nat \<Rightarrow> engine \<Rightarrow> engine" where
  "cut_from q e =
     (let keep = q - base_seq e
      in e\<lparr>ring := take keep (ring e),
           bytes_held := bytes_held e - sum_list (map entry_cost (drop keep (ring e))),
           syncs := filter (\<lambda>s. s < q) (syncs e),
           next_seq := q\<rparr>)"

definition replay_instead :: "nat \<Rightarrow> nat \<Rightarrow> engine \<Rightarrow> engine option" where
  "replay_instead now d e =
     (case replay_from now d e of
        None \<Rightarrow> None
      | Some k \<Rightarrow>
          (let q = max (o_next_seq (out e)) (base_seq e);
               e1 = set_pending (Replay q d) (split_session q (cut_from q e))
           in Some (splice_to k (now - arrival_or now e1 k) e1)))"

definition dump_delay :: "engine \<Rightarrow> nat" where
  "dump_delay e =
     min (if 0 < o_target (out e) then o_target (out e) else o_delay (out e))
         (max_delay_ms (config e) * MS)"

definition can_dump :: "engine \<Rightarrow> bool" where
  "can_dump e \<longleftrightarrow>
     \<not> o_started (out e) \<or> o_end_mark (out e) \<noteq> None \<or> \<not> ingest_active e \<or>
     500 * MS \<le> dump_delay e"

definition dump_would_replay :: "nat \<Rightarrow> engine \<Rightarrow> bool" where
  "dump_would_replay now e \<longleftrightarrow>
     o_started (out e) \<and> o_end_mark (out e) = None \<and> ingest_active e \<and>
     500 * MS \<le> dump_delay e \<and> replay_from now (dump_delay e) e \<noteq> None"

section \<open>Eviction\<close>

text \<open>
  \<^verbatim>\<open>memory_short\<close>: the limit threw away what was still to air.
\<close>

definition memory_short :: "nat \<Rightarrow> engine \<Rightarrow> engine" where
  "memory_short now e =
     (case (case front_opt (syncs e) of None \<Rightarrow> None | Some s \<Rightarrow> entry e s) of
        None \<Rightarrow> e
      | Some oldest \<Rightarrow>
          (let delay = now - e_arrival oldest - keyframe_interval e;
               e1 = e\<lparr>out := (out e)\<lparr>o_memory_short := True\<rparr>\<rparr>
           in if \<not> o_started (out e1)
              then e1\<lparr>out := (out e1)\<lparr>o_delay := min (o_delay (out e1)) delay\<rparr>\<rparr>
              else (let lower = (case o_pending (out e1) of
                                   PendNone \<Rightarrow> True
                                 | Reduce d \<Rightarrow> delay < d
                                 | _ \<Rightarrow> False)
                    in if lower \<and> delay < o_delay (out e1)
                       then set_pending (Reduce delay) e1 else e1)))"

definition keep_from :: "nat \<Rightarrow> engine \<Rightarrow> nat option" where
  "keep_from now e =
     (if keep_history (config e) then None
      else (case (case restart_point e of
                    Some r \<Rightarrow> Some r
                  | None \<Rightarrow> newest_sync_arrived_by e (checked_sub now (o_delay (out e)))) of
              None \<Rightarrow> None
            | Some keep \<Rightarrow>
                Some (case o_pending (out e) of
                        Mask _ _ (Some a) _ _ _ \<Rightarrow> min keep a
                      | _ \<Rightarrow> keep)))"

text \<open>
  One round of the eviction loop: \<open>None\<close> where the source breaks; otherwise the sequence
  number evicted up to and whether something that had not aired went for want of memory.
\<close>

definition evict_choice ::
  "nat \<Rightarrow> nat option \<Rightarrow> nat option \<Rightarrow> engine \<Rightarrow> (nat \<times> bool) option" where
  "evict_choice now keep restart e =
     (case ring e of
        [] \<Rightarrow> None
      | front # _ \<Rightarrow>
          (let capacity = (max_delay_ms (config e) + headroom_ms (config e)) * MS;
               over_ram = (ram_cap_bytes (config e) < bytes_held e + session_bytes e \<and>
                           1 < length (ring e));
               next_sync = find (\<lambda>s. e_seq front < s) (syncs e);
               end_seq = (case next_sync of Some s \<Rightarrow> s | None \<Rightarrow> e_seq front + 1);
               aired = (case restart of None \<Rightarrow> True | Some r \<Rightarrow> end_seq \<le> r);
               gop_expired =
                 (aired \<and>
                  (case next_sync of
                     Some s \<Rightarrow> (case entry e s of
                                  None \<Rightarrow> False | Some x \<Rightarrow> e_arrival x + capacity < now)
                   | None \<Rightarrow> \<not> e_sync front \<and> e_arrival front + capacity < now));
               not_needed = (case (keep, next_sync) of
                               (Some k, Some s) \<Rightarrow> s \<le> k | _ \<Rightarrow> False);
               unaired = (case restart of
                            Some _ \<Rightarrow> \<not> aired
                          | None \<Rightarrow> now < e_arrival front + o_delay (out e))
           in if \<not> over_ram \<and> \<not> gop_expired \<and> \<not> not_needed then None
              else Some (end_seq, unaired \<and> \<not> gop_expired \<and> \<not> not_needed)))"

lemma evict_choice_Some:
  assumes "evict_choice now keep restart e = Some (q, lost)"
  shows "length (ring (forget_sessions (pop_entries q e))) < length (ring e)"
proof -
  from assms obtain f fs where r: "ring e = f # fs"
    by (auto simp: evict_choice_def split: list.splits)
  have "e_seq f < q"
    using assms r
    by (auto simp: evict_choice_def Let_def dest: find_Some_in split: option.splits if_splits)
  with r show ?thesis using pop_entries_shrinks [of e f fs q] by simp
qed

function evict_loop ::
  "nat \<Rightarrow> nat option \<Rightarrow> nat option \<Rightarrow> bool \<Rightarrow> engine \<Rightarrow> bool \<times> engine" where
  "evict_loop now keep restart lost e =
     (case evict_choice now keep restart e of
        None \<Rightarrow> (lost, e)
      | Some (q, l) \<Rightarrow>
          evict_loop now keep restart (lost \<or> l) (forget_sessions (pop_entries q e)))"
  by pat_completeness auto
termination
  by (relation "measure (\<lambda>(_, _, _, _, e). length (ring e))") (auto dest: evict_choice_Some)

declare evict_loop.simps [simp del]

definition evict :: "nat \<Rightarrow> engine \<Rightarrow> engine" where
  "evict now e =
     (let (lost, e1) = evict_loop now (keep_from now e) (restart_point e) False e
      in if lost then memory_short now e1 else e1)"

section \<open>The buffer is left alone\<close>

text \<open>
  \<open>buffer_of e\<close> is the engine without its output: pending changes, splices and emission
  keep it.
\<close>

definition buffer_of :: "engine \<Rightarrow> engine" where
  "buffer_of e = e\<lparr>out := new_output\<rparr>"

lemma buffer_of_out [simp]: "buffer_of (e\<lparr>out := p\<rparr>) = buffer_of e"
  by (simp add: buffer_of_def)

lemma buffer_of_fields:
  "ring (buffer_of e) = ring e" "syncs (buffer_of e) = syncs e"
  "base_seq (buffer_of e) = base_seq e" "next_seq (buffer_of e) = next_seq e"
  "bytes_held (buffer_of e) = bytes_held e" "config (buffer_of e) = config e"
  "sessions (buffer_of e) = sessions e" "session_bytes (buffer_of e) = session_bytes e"
  "ingest_active (buffer_of e) = ingest_active e"
  "next_session (buffer_of e) = next_session e" "stats (buffer_of e) = stats e"
  by (simp_all add: buffer_of_def)

lemma buffer_of_eqD:
  assumes "buffer_of e' = buffer_of e"
  shows "ring e' = ring e" "syncs e' = syncs e" "base_seq e' = base_seq e"
    "next_seq e' = next_seq e" "bytes_held e' = bytes_held e" "config e' = config e"
    "sessions e' = sessions e" "session_bytes e' = session_bytes e"
    "ingest_active e' = ingest_active e" "next_session e' = next_session e" "stats e' = stats e"
  using buffer_of_fields [of e] buffer_of_fields [of e'] assms by simp_all

lemma buffer_of_entry: "buffer_of e' = buffer_of e \<Longrightarrow> entry e' s = entry e s"
  by (simp add: entry_def buffer_of_eqD [of e' e])

lemma buffer_of_wf: "buffer_of e' = buffer_of e \<Longrightarrow> buf_wf e' = buf_wf e"
  by (simp add: buf_wf_def ring_wf_def sessions_wf_def buffer_of_eqD [of e' e])

lemma buffer_of_arrival: "buffer_of e' = buffer_of e \<Longrightarrow> arrival_or d e' s = arrival_or d e s"
  by (simp add: arrival_or_def buffer_of_entry [of e' e])

lemma quiet_buffer_of: "quiet e' = quiet e \<Longrightarrow> buffer_of e' = buffer_of e"
proof -
  assume "quiet e' = quiet e"
  moreover have "buffer_of (quiet x) = buffer_of x" for x by (simp add: quiet_def)
  ultimately show ?thesis by metis
qed

lemma buffer_of_steps [simp]:
  "buffer_of (splice_to k d e) = buffer_of e" "buffer_of (end_hold now e) = buffer_of e"
  "buffer_of (set_pending p e) = buffer_of e" "buffer_of (put_pending p e) = buffer_of e"
  by (simp_all add: splice_to_def end_hold_def set_pending_def put_pending_def Let_def
      split: option.split)

lemma buffer_of_back [simp]:
  "buffer_of (back_to_target e) = buffer_of e" "buffer_of (back_under_max e) = buffer_of e"
  by (auto simp: back_to_target_def back_under_max_def Let_def split: pending.split)

lemma buffer_of_mask_from: "mask_from now started shown e = (a, e1) \<Longrightarrow> buffer_of e1 = buffer_of e"
  by (auto simp: mask_from_def Let_def split: option.splits if_splits)

lemma buffer_of_mask_anchor:
  "mask_anchor now d started anchor mute shown dump e = (a, e1) \<Longrightarrow> buffer_of e1 = buffer_of e"
  by (auto simp: mask_anchor_def dest: buffer_of_mask_from
      split: option.splits prod.splits)

lemma buffer_of_arms [simp]:
  "buffer_of (run_go_live now s e) = buffer_of e" "buffer_of (run_reduce now d e) = buffer_of e"
  "buffer_of (run_hold now from d e) = buffer_of e"
  "buffer_of (run_replay now from d e) = buffer_of e"
  by (simp_all add: run_go_live_def run_reduce_def run_hold_def run_replay_def Let_def
      split: option.split)

lemma buffer_of_run_mask [simp]:
  "buffer_of (run_mask now d started anchor mute shown dump e) = buffer_of e"
  using buffer_of_mask_anchor by (fastforce simp: run_mask_def split: option.split prod.split)

lemma buffer_of_run_dump:
  "run_dump now d started from shown e = Inl e' \<Longrightarrow> buffer_of e' = buffer_of e"
  "run_dump now d started from shown e = Inr e' \<Longrightarrow> buffer_of e' = buffer_of e"
  by (auto simp: run_dump_def Let_def split: option.splits if_splits)

lemma buffer_of_pending_step:
  "pending_step now e = Inl e' \<Longrightarrow> buffer_of e' = buffer_of e"
  "pending_step now e = Inr e' \<Longrightarrow> buffer_of e' = buffer_of e"
  by (auto simp: pending_step_def dest: buffer_of_run_dump split: pending.splits if_splits)

text \<open>What every round of the loop keeps, the loop keeps.\<close>

lemma run_pending_keeps:
  assumes "P e" and returned: "\<And>e e'. P e \<Longrightarrow> pending_step now e = Inl e' \<Longrightarrow> P e'"
    and again: "\<And>e e'. P e \<Longrightarrow> pending_step now e = Inr e' \<Longrightarrow> P e'"
  shows "P (run_pending now e)"
  using assms
proof (induction now e rule: run_pending.induct)
  case (1 now e)
  show ?case
  proof (cases "pending_step now e")
    case (Inl e')
    from 1(3) [OF 1(2) this] show ?thesis by (subst run_pending.simps) (simp add: Inl)
  next
    case (Inr e')
    from 1(1) [OF this 1(4) [OF 1(2) this] 1(3,4)]
    show ?thesis by (subst run_pending.simps) (simp add: Inr)
  qed
qed

lemma buffer_of_run_pending [simp]: "buffer_of (run_pending now e) = buffer_of e"
  by (rule run_pending_keeps [of "\<lambda>e'. buffer_of e' = buffer_of e"])
    (auto dest: buffer_of_pending_step)

lemma buffer_of_rewind [simp]: "buffer_of (rewind now d e) = buffer_of e"
  by (auto simp: rewind_def Let_def split: option.split prod.split)

lemma buffer_of_memory_short [simp]: "buffer_of (memory_short now e) = buffer_of e"
  by (auto simp: memory_short_def Let_def split: option.split pending.split)

end
