(* ===== verification/Engine_Poll.thy ===== *)
theory Engine_Poll
  imports Engine_Pending
begin

text \<open>
  \<^verbatim>\<open>poll_budget\<close>: what is due goes out. The source's \<^verbatim>\<open>loop\<close> is
  \<open>loop (poll_iter ...)\<close>; \<open>poll_iter\<close> is its body, split where the source's comments
  split it: a hold, a replay that ran out, starting at a keyframe (\<open>poll_sync\<close>) and
  sending one message (\<open>poll_send\<close>). \<^verbatim>\<open>output_wanted\<close> is here too.
\<close>

section \<open>Starting at a keyframe\<close>

definition end_reached :: "engine \<Rightarrow> bool" where
  "end_reached e \<longleftrightarrow>
     (case o_end_mark (out e) of None \<Rightarrow> False | Some m \<Rightarrow> m < o_next_seq (out e))"

definition move_to :: "nat \<Rightarrow> engine \<Rightarrow> engine" where
  "move_to s e = e\<lparr>out := (out e)\<lparr>o_next_seq := s\<rparr>\<rparr>"

definition ask_sync :: "engine \<Rightarrow> engine" where
  "ask_sync e = e\<lparr>out := (out e)\<lparr>o_need_sync := True\<rparr>\<rparr>"

text \<open>What was evicted is skipped; a new encoder session starts at its first keyframe.\<close>

definition skip_evicted :: "engine \<Rightarrow> engine" where
  "skip_evicted e =
     (if o_next_seq (out e) < base_seq e then ask_sync (move_to (base_seq e) e) else e)"

definition note_session :: "engine \<Rightarrow> engine" where
  "note_session e =
     (case (o_current_session (out e), entry e (o_next_seq (out e))) of
        (Some cs, Some x) \<Rightarrow>
          if \<not> o_need_sync (out e) \<and> e_session x \<noteq> cs then ask_sync e else e
      | _ \<Rightarrow> e)"

definition cursor_session :: "engine \<Rightarrow> nat option" where
  "cursor_session e = map_option e_session (entry e (o_next_seq (out e)))"

definition start_keyframe :: "nat \<Rightarrow> engine \<Rightarrow> nat option" where
  "start_keyframe now e =
     (let candidates =
            filter (\<lambda>s. o_next_seq (out e) \<le> s \<and>
                        map_option e_session (entry e s) = cursor_session e) (syncs e)
      in if o_started (out e) then front_opt candidates
         else (case candidates of
                 [] \<Rightarrow> None
               | f # _ \<Rightarrow>
                   (case last_opt (filter (\<lambda>s. case entry e s of
                                               None \<Rightarrow> False
                                             | Some x \<Rightarrow> e_arrival x + o_delay (out e) \<le> now)
                                     candidates) of
                      None \<Rightarrow> Some f
                    | Some s \<Rightarrow> Some s)))"

text \<open>How a part of the loop's body ends: a break, another round, or the rest of the body.\<close>

datatype flow = Break "nat option" engine | Again engine | Go engine

definition poll_sync :: "nat \<Rightarrow> engine \<Rightarrow> flow" where
  "poll_sync now e =
     (if \<not> o_need_sync (out e) then Go e
      else (case start_keyframe now e of
              None \<Rightarrow>
                (case cursor_session e of
                   None \<Rightarrow> Break None e
                 | Some s \<Rightarrow>
                     if map_option s_id (last_opt (sessions e)) \<noteq> Some s
                     then Again (move_to (next_session_start e s) e)
                     else Break None e)
            | Some k \<Rightarrow>
                if (case o_end_mark (out e) of None \<Rightarrow> False | Some m \<Rightarrow> m < k)
                then Break None (move_to (the (o_end_mark (out e)) + 1) e)
                else
                  (let arrival = arrival_or now e k in
                   if now < arrival + o_delay (out e)
                   then Break (Some (arrival + o_delay (out e))) e
                   else
                     (let delay = max (o_delay (out e)) (now - arrival);
                          late = (\<not> o_started (out e) \<and> o_pending (out e) = PendNone \<and>
                                  o_target (out e) + 500 * MS \<le> delay);
                          e1 = splice_to k delay e;
                          e2 = (if late then set_pending (Reduce (o_target (out e1))) e1
                                else back_under_max e1)
                      in if end_reached e2 then Break None e2 else Go e2))))"

section \<open>Sending one message\<close>

definition muted :: "engine \<Rightarrow> entry_rec \<Rightarrow> bool" where
  "muted e x \<longleftrightarrow>
     (case o_pending (out e) of Mask _ _ _ mute _ _ \<Rightarrow> mute | _ \<Rightarrow> False) \<and>
     e_kind x = Audio \<and> e_config x = None"

definition next_message :: "engine \<Rightarrow> engine" where
  "next_message e = move_to (o_next_seq (out e) + 1) e"

definition note_first :: "engine \<Rightarrow> engine" where
  "note_first e =
     e\<lparr>out := (out e)\<lparr>o_first_emitted :=
                  (case o_first_emitted (out e) of
                     None \<Rightarrow> Some (o_next_seq (out e)) | Some f \<Rightarrow> Some f)\<rparr>\<rparr>"

type_synonym poll_state = "engine \<times> out_msg list \<times> nat"
type_synonym poll_result = "nat option \<times> engine \<times> out_msg list"

definition payload_bytes :: "out_msg list \<Rightarrow> nat" where
  "payload_bytes ms = sum_list (map (\<lambda>m. length (m_payload m)) ms)"

definition send_entry :: "(bytes \<Rightarrow> u64) \<Rightarrow> engine \<times> out_msg list \<Rightarrow> engine \<times> out_msg list" where
  "send_entry fp eo =
     (let (e1, outs1) = (if o_pending_headers (out (fst eo)) then emit_headers fp eo else eo)
      in emit_entry fp (note_first e1, outs1))"

definition poll_send ::
  "(bytes \<Rightarrow> u64) \<Rightarrow> nat \<Rightarrow> nat \<Rightarrow> poll_state \<Rightarrow> poll_result + poll_state" where
  "poll_send fp now max_bytes st =
     (case st of (e, outs, emitted) \<Rightarrow>
        (case entry e (o_next_seq (out e)) of
           None \<Rightarrow> Inl (None, e, outs)
         | Some x \<Rightarrow>
             (let due = e_arrival x + o_delay (out e) in
              if now < due then Inl (Some due, e, outs)
              else if max_bytes \<le> emitted then Inl (Some (now + 50 * MS), e, outs)
              else if muted e x
              then Inr (run_pending now (next_message (count_dropped e)), outs, emitted)
              else
                (let (e1, outs1) = send_entry fp (e, outs)
                 in Inr (run_pending now (next_message e1), outs1,
                         emitted + payload_bytes (drop (length outs) outs1))))))"

section \<open>The loop\<close>

definition poll_media ::
  "(bytes \<Rightarrow> u64) \<Rightarrow> nat \<Rightarrow> nat \<Rightarrow> poll_state \<Rightarrow> poll_result + poll_state" where
  "poll_media fp now max_bytes st =
     (case st of (e0, outs, emitted) \<Rightarrow>
        (let e = skip_evicted e0 in
         if end_reached e then Inl (None, e, outs)
         else (case poll_sync now (note_session e) of
                 Break wake e1 \<Rightarrow> Inl (wake, e1, outs)
               | Again e1 \<Rightarrow> Inr (e1, outs, emitted)
               | Go e1 \<Rightarrow> poll_send fp now max_bytes (e1, outs, emitted))))"

text \<open>When what follows a replay is due.\<close>

definition replay_due :: "nat \<Rightarrow> nat \<Rightarrow> nat \<Rightarrow> engine \<Rightarrow> nat" where
  "replay_due now from d e =
     (case (case find (\<lambda>s. from \<le> s) (syncs e) of None \<Rightarrow> None | Some k \<Rightarrow> entry e k) of
        None \<Rightarrow> now + d
      | Some x \<Rightarrow> e_arrival x + d)"

definition poll_iter ::
  "(bytes \<Rightarrow> u64) \<Rightarrow> nat \<Rightarrow> nat \<Rightarrow> poll_state \<Rightarrow> poll_result + poll_state" where
  "poll_iter fp now max_bytes st =
     (case st of (e, outs, emitted) \<Rightarrow>
        (let hold = (let ((e1, outs1), wake) = emit_hold_frame fp now (e, outs)
                     in Inl (wake, e1, outs1))
         in case o_pending (out e) of
              Dump _ _ _ _ \<Rightarrow> hold
            | Hold _ _ \<Rightarrow> hold
            | Replay from d \<Rightarrow>
                if from \<le> o_next_seq (out e)
                then (if now + REPLAY_GAP_HELD_AFTER < replay_due now from d e
                      then (let frame = aired_keyframe now e;
                                e1 = set_pending (Hold from d) e
                            in Inr (e1\<lparr>out := (out e1)\<lparr>o_hold := frame, o_need_sync := True\<rparr>\<rparr>,
                                    outs, emitted))
                      else Inl (None, e, outs))
                else poll_media fp now max_bytes st
            | _ \<Rightarrow> poll_media fp now max_bytes st))"

definition earlier :: "nat option \<Rightarrow> nat option \<Rightarrow> nat option" where
  "earlier a b =
     (case (a, b) of (Some x, Some y) \<Rightarrow> Some (min x y) | (None, _) \<Rightarrow> b | (_, None) \<Rightarrow> a)"

definition poll_budget ::
  "(bytes \<Rightarrow> u64) \<Rightarrow> nat \<Rightarrow> nat \<Rightarrow> engine \<times> out_msg list \<Rightarrow> poll_result option" where
  "poll_budget fp now max_bytes eo =
     (let e = run_pending now (evict now (fst eo));
          pending_wake = (if o_pending (out e) \<noteq> PendNone then Some (now + 50 * MS) else None)
      in if \<not> o_connected (out e) then Some (pending_wake, e, snd eo)
         else map_option (\<lambda>(wake, e', outs). (earlier wake pending_wake, e', outs))
                (loop (poll_iter fp now max_bytes) (e, snd eo, 0)))"

definition poll :: "(bytes \<Rightarrow> u64) \<Rightarrow> nat \<Rightarrow> engine \<times> out_msg list \<Rightarrow> poll_result option" where
  "poll fp now eo = poll_budget fp now (2 ^ 64 - 1) eo"

definition output_wanted :: "nat \<Rightarrow> engine \<Rightarrow> bool" where
  "output_wanted now e \<longleftrightarrow>
     o_hold (out e) \<noteq> None \<or> (o_connected (out e) \<and> \<not> drained e) \<or>
     (let lead = 3 * SEC;
          cursor = (if o_need_sync (out e)
                    then find (\<lambda>s. o_next_seq (out e) \<le> s) (syncs e)
                    else Some (o_next_seq (out e)))
      in case (case cursor of None \<Rightarrow> None | Some s \<Rightarrow> entry e s) of
           None \<Rightarrow> False
         | Some x \<Rightarrow> e_arrival x + o_delay (out e) \<le> now + lead)"

end
