(* ===== verification/Engine_Progress.thy ===== *)
theory Engine_Progress
  imports Engine_Poll
begin

text \<open>
  The output loop ends: each round either takes a pending change forward, to one that
  cannot come back, or moves the cursor on towards the end of the buffer.
\<close>

section \<open>Progress\<close>

fun poll_rank :: "pending \<Rightarrow> nat" where
  "poll_rank PendNone = 0"
| "poll_rank (Reduce _) = 0"
| "poll_rank (GoLiveNow _) = 1"
| "poll_rank (Mask _ _ _ _ _ _) = 1"
| "poll_rank (Hold _ _) = 1"
| "poll_rank (AfterAir _) = 2"
| "poll_rank (Dump _ _ _ _) = 2"
| "poll_rank (Replay _ _) = 2"

abbreviation cursor :: "engine \<Rightarrow> nat" where
  "cursor e \<equiv> o_next_seq (out e)"

abbreviation rank :: "engine \<Rightarrow> nat" where
  "rank e \<equiv> poll_rank (o_pending (out e))"

definition progress :: "engine \<Rightarrow> engine \<Rightarrow> bool" where
  "progress e e' \<longleftrightarrow> rank e' < rank e \<or> (rank e' = rank e \<and> cursor e \<le> cursor e')"

lemma progress_refl [simp]: "progress e e"
  by (simp add: progress_def)

lemma progress_trans [trans]: "progress a b \<Longrightarrow> progress b c \<Longrightarrow> progress a c"
  by (auto simp: progress_def)

lemma pending_fields [simp]:
  "cursor (put_pending p e) = cursor e" "cursor (set_pending p e) = cursor e"
  "o_delay (out (put_pending p e)) = o_delay (out e)"
  "o_delay (out (set_pending p e)) = o_delay (out e)"
  "o_target (out (put_pending p e)) = o_target (out e)"
  "o_target (out (set_pending p e)) = o_target (out e)"
  "o_started (out (put_pending p e)) = o_started (out e)"
  "o_started (out (set_pending p e)) = o_started (out e)"
  "o_end_mark (out (put_pending p e)) = o_end_mark (out e)"
  "o_end_mark (out (set_pending p e)) = o_end_mark (out e)"
  "o_need_sync (out (put_pending p e)) = o_need_sync (out e)"
  "o_need_sync (out (set_pending p e)) = o_need_sync (out e)"
  "o_connected (out (put_pending p e)) = o_connected (out e)"
  "o_connected (out (set_pending p e)) = o_connected (out e)"
  by (simp_all add: put_pending_def set_pending_def Let_def split: pending.split)

lemma splice_to_cursor:
  "cursor (splice_to k d e) = (if entry e k = None then cursor e else k)"
  "o_delay (out (splice_to k d e)) = (if entry e k = None then o_delay (out e) else d)"
  "o_started (out (splice_to k d e)) = (entry e k \<noteq> None \<or> o_started (out e))"
  by (simp_all add: splice_to_def Let_def split: option.split)

lemma end_hold_fields [simp]:
  "cursor (end_hold now e) = cursor e" "o_delay (out (end_hold now e)) = o_delay (out e)"
  "o_target (out (end_hold now e)) = o_target (out e)"
  "o_pending (out (end_hold now e)) = o_pending (out e)"
  "o_started (out (end_hold now e)) = o_started (out e)"
  "o_end_mark (out (end_hold now e)) = o_end_mark (out e)"
  "entry (end_hold now e) s = entry e s"
  by (simp_all add: end_hold_def split: option.split)

lemma mask_from_fields:
  "mask_from now started shown e = (a, e1) \<Longrightarrow>
   cursor e1 = cursor e \<and> o_pending (out e1) = o_pending (out e) \<and>
   o_delay (out e1) = o_delay (out e) \<and> o_target (out e1) = o_target (out e) \<and>
   o_started (out e1) = o_started (out e) \<and> o_end_mark (out e1) = o_end_mark (out e)"
  by (auto simp: mask_from_def Let_def split: option.splits if_splits)

lemma mask_anchor_fields:
  assumes "mask_anchor now d started anchor mute shown dump e = (a, e1)"
    and "o_pending (out e) = Mask d started anchor mute shown dump"
  shows "cursor e1 = cursor e \<and> o_delay (out e1) = o_delay (out e) \<and>
    o_target (out e1) = o_target (out e) \<and> o_started (out e1) = o_started (out e) \<and>
    o_end_mark (out e1) = o_end_mark (out e) \<and>
    o_pending (out e1) = Mask d started a mute shown dump"
  using assms
  by (auto simp: mask_anchor_def dest!: mask_from_fields split: option.splits prod.splits)

lemma progress_pending_step:
  "pending_step now e = Inl e' \<Longrightarrow> progress e e'"
  "pending_step now e = Inr e' \<Longrightarrow> progress e e'"
proof -
  show "progress e e'" if "pending_step now e = Inr e'"
    using that by (auto simp: pending_step_def run_dump_def Let_def progress_def
        split: pending.splits option.splits if_splits)
  show "progress e e'" if "pending_step now e = Inl e'"
  proof (cases "o_pending (out e)")
    case (GoLiveNow s)
    with that show ?thesis
      by (auto simp: pending_step_def run_go_live_def progress_def split: option.splits if_splits)
  next
    case (Reduce d)
    with that show ?thesis
      by (auto simp: pending_step_def run_reduce_def progress_def Let_def splice_to_cursor
          split: option.splits if_splits)
  next
    case (Mask d started anchor mute shown dump)
    with that have e': "e' = run_mask now d started anchor mute shown dump e"
      by (simp add: pending_step_def)
    obtain a e1 where a: "mask_anchor now d started anchor mute shown dump e = (a, e1)"
      by fastforce
    from mask_anchor_fields [OF a Mask] e' a Mask show ?thesis
      by (auto simp: run_mask_def progress_def split: option.split)
  next
    case (Hold s d)
    with that show ?thesis
      by (auto simp: pending_step_def run_hold_def progress_def Let_def
          split: option.splits if_splits)
  next
    case (Replay s d)
    with that show ?thesis
      by (auto simp: pending_step_def run_replay_def progress_def Let_def
          split: option.splits if_splits)
  next
    case (Dump d started s shown)
    with that show ?thesis
      by (auto simp: pending_step_def run_dump_def Let_def split: if_splits option.splits)
  qed (insert that, auto simp: pending_step_def split: if_splits)
qed

lemma progress_run_pending: "progress e (run_pending now e)"
  by (rule run_pending_keeps [of "progress e"])
    (auto intro: progress_trans progress_pending_step)

section \<open>One round\<close>

lemma move_fields [simp]:
  "cursor (move_to s e) = s" "cursor (next_message e) = cursor e + 1"
  "cursor (ask_sync e) = cursor e" "rank (move_to s e) = rank e" "rank (next_message e) = rank e"
  "rank (ask_sync e) = rank e"
  "buffer_of (move_to s e) = buffer_of e" "buffer_of (next_message e) = buffer_of e"
  "buffer_of (ask_sync e) = buffer_of e" "buffer_of (note_first e) = buffer_of e"
  "cursor (note_first e) = cursor e" "rank (note_first e) = rank e"
  by (simp_all add: move_to_def ask_sync_def next_message_def note_first_def)

lemma progress_skip_evicted: "progress e (skip_evicted e)"
  by (simp add: skip_evicted_def progress_def)

lemma note_session_same: "note_session e = e \<or> note_session e = ask_sync e"
  by (simp add: note_session_def split: option.split)

lemma progress_note_session: "progress e (note_session e)"
  using note_session_same [of e] by (auto simp: progress_def)

lemma buffer_of_notes [simp]:
  "buffer_of (skip_evicted e) = buffer_of e" "buffer_of (note_session e) = buffer_of e"
  using note_session_same [of e] by (auto simp: skip_evicted_def)

lemma start_keyframe_from:
  assumes "start_keyframe now e = Some k"
  shows "k \<in> set (syncs e)" and "cursor e \<le> k"
proof -
  define cs where
    "cs = filter (\<lambda>s. cursor e \<le> s \<and> map_option e_session (entry e s) = cursor_session e) (syncs e)"
  have "k \<in> set cs"
  proof (cases "o_started (out e)")
    case True
    then show ?thesis using assms by (auto simp: start_keyframe_def cs_def [symmetric] front_opt_Some)
  next
    case False
    define p where "p = (\<lambda>s. case entry e s of
        None \<Rightarrow> False | Some x \<Rightarrow> e_arrival x + o_delay (out e) \<le> now)"
    from False assms obtain f fs where "cs = f # fs"
      and "(case last_opt (filter p (f # fs)) of None \<Rightarrow> Some f | Some s \<Rightarrow> Some s) = Some k"
      unfolding start_keyframe_def cs_def [symmetric] p_def [symmetric] Let_def
      by (auto split: list.splits)
    then show ?thesis
      by (cases "last_opt (filter p (f # fs))") (auto dest: last_opt_in split: if_splits)
  qed
  then show "k \<in> set (syncs e)" and "cursor e \<le> k" by (auto simp: cs_def)
qed

lemma sync_entry: "buf_wf e \<Longrightarrow> k \<in> set (syncs e) \<Longrightarrow> \<exists>x. entry e k = Some x \<and> e_sync x"
  by (auto simp: buf_wf_def syncs_iff)

text \<open>Moving to the next encoder session moves forward: sessions are in order.\<close>

lemma next_session_start_forward:
  assumes wf: "buf_wf e" and x: "entry e s = Some x"
  shows "s < next_session_start e (e_session x) \<and> next_session_start e (e_session x) \<le> next_seq e"
proof -
  have r: "ring_wf e" and sorted: "sorted (map e_session (ring e))"
    using wf by (auto simp: buf_wf_def sessions_wf_def)
  have s: "s < next_seq e" using entry_bounds [OF r x] by simp
  show ?thesis
  proof (cases "find (\<lambda>y. e_session x < e_session y) (ring e)")
    case None
    with s show ?thesis by (simp add: next_session_start_def)
  next
    case (Some y)
    then have y: "y \<in> set (ring e)" "e_session x < e_session y" by (auto dest: find_Some_in)
    then obtain j where j: "j < length (ring e)" "ring e ! j = y" by (auto simp: in_set_conv_nth)
    have i: "base_seq e \<le> s" "s - base_seq e < length (ring e)" "ring e ! (s - base_seq e) = x"
      using x by (auto simp: entry_def get_opt_Some split: if_splits)
    have "s - base_seq e < j"
    proof (rule ccontr)
      assume "\<not> s - base_seq e < j"
      then have "e_session (ring e ! j) \<le> e_session (ring e ! (s - base_seq e))"
        using sorted i(2) by (auto simp: sorted_iff_nth_mono)
      with i j y show False by simp
    qed
    moreover have "e_seq y = base_seq e + j" using ring_nth_seq [OF r j(1)] j(2) by simp
    ultimately show ?thesis
      using Some i(1) j(1) ring_length [OF r] by (simp add: next_session_start_def)
  qed
qed

lemma progress_back_under_max: "progress e (back_under_max e)"
  by (auto simp: back_under_max_def progress_def Let_def)

lemma rank_splice_to [simp]: "rank (splice_to k d e) = rank e"
  by simp

lemma poll_sync_progress:
  assumes "buf_wf e"
  shows "poll_sync now e = Go e' \<Longrightarrow> progress e e' \<and> buffer_of e' = buffer_of e"
    and "poll_sync now e = Again e' \<Longrightarrow>
      rank e' = rank e \<and> cursor e < cursor e' \<and> cursor e < next_seq e \<and> buffer_of e' = buffer_of e"
proof -
  show "rank e' = rank e \<and> cursor e < cursor e' \<and> cursor e < next_seq e \<and> buffer_of e' = buffer_of e"
    if "poll_sync now e = Again e'"
  proof -
    from that obtain x where "entry e (cursor e) = Some x"
      and "e' = move_to (next_session_start e (e_session x)) e"
      by (auto simp: poll_sync_def cursor_session_def Let_def split: if_splits option.splits)
    with next_session_start_forward [OF assms, of "cursor e" x] show ?thesis by auto
  qed
  show "progress e e' \<and> buffer_of e' = buffer_of e" if go: "poll_sync now e = Go e'"
  proof (cases "o_need_sync (out e)")
    case False
    with go show ?thesis by (simp add: poll_sync_def)
  next
    case True
    with go obtain k where k: "start_keyframe now e = Some k"
      by (auto simp: poll_sync_def split: option.splits if_splits)
    define d where "d = max (o_delay (out e)) (now - arrival_or now e k)"
    have sp: "progress e (splice_to k d e)"
      using start_keyframe_from(2) [OF k] by (simp add: progress_def splice_to_cursor)
    from go True k have "e' = back_under_max (splice_to k d e) \<or>
        (o_pending (out e) = PendNone \<and>
         e' = set_pending (Reduce (o_target (out e))) (splice_to k d e))"
      by (auto simp: poll_sync_def Let_def d_def split: if_splits)
    then show ?thesis
    proof
      assume "e' = back_under_max (splice_to k d e)"
      with progress_trans [OF sp progress_back_under_max] show ?thesis by simp
    next
      assume "o_pending (out e) = PendNone \<and>
         e' = set_pending (Reduce (o_target (out e))) (splice_to k d e)"
      then show ?thesis
        using start_keyframe_from(2) [OF k] by (auto simp: progress_def splice_to_cursor)
    qed
  qed
qed

lemma send_entry_quiet:
  assumes "send_entry fp eo = (e', outs')"
  shows "buffer_of e' = buffer_of (fst eo)" and "cursor e' = cursor (fst eo)"
    and "o_pending (out e') = o_pending (out (fst eo))"
    and "o_delay (out e') = o_delay (out (fst eo))" and "o_target (out e') = o_target (out (fst eo))"
    and "o_started (out e') = o_started (out (fst eo))"
    and "o_end_mark (out e') = o_end_mark (out (fst eo))"
    and "o_connected (out e') = o_connected (out (fst eo))"
proof -
  obtain e1 outs1 where h: "(if o_pending_headers (out (fst eo)) then emit_headers fp eo else eo) = (e1, outs1)"
    by fastforce
  then have q1: "quiet e1 = quiet (fst eo)"
    using quiet_emit_headers [of fp eo] by (cases "o_pending_headers (out (fst eo))") auto
  have q2: "quiet e' = quiet (note_first e1)"
    using assms h quiet_emit_entry [of fp "(note_first e1, outs1)"] by (simp add: send_entry_def)
  show "buffer_of e' = buffer_of (fst eo)"
    using quiet_buffer_of [OF q1] quiet_buffer_of [OF q2] by simp
  show "cursor e' = cursor (fst eo)" "o_pending (out e') = o_pending (out (fst eo))"
    "o_delay (out e') = o_delay (out (fst eo))" "o_target (out e') = o_target (out (fst eo))"
    "o_started (out e') = o_started (out (fst eo))"
    "o_end_mark (out e') = o_end_mark (out (fst eo))"
    "o_connected (out e') = o_connected (out (fst eo))"
    using quiet_eqD [OF q1] quiet_eqD [OF q2] by (simp_all add: note_first_def)
qed

definition below :: "nat \<Rightarrow> engine \<Rightarrow> engine \<Rightarrow> bool" where
  "below n e' e \<longleftrightarrow> rank e' < rank e \<or> (rank e' = rank e \<and> n - cursor e' < n - cursor e)"

lemma below_progress:
  "progress e e1 \<Longrightarrow> below n e2 e1 \<Longrightarrow> below n e2 e"
  "below n e1 e \<Longrightarrow> progress e1 e2 \<Longrightarrow> below n e2 e"
  by (auto simp: below_def progress_def)

lemma below_wf: "wf {(s', s). below n (fst s') (fst s)}"
proof -
  have "{(s', s). below n (fst s') (fst s)} =
      measures [\<lambda>s. rank (fst s), \<lambda>s. n - cursor (fst s)]"
    by (auto simp: below_def)
  then show ?thesis using wf_measures by metis
qed

lemma poll_send_below:
  assumes "buf_wf e" and "poll_send fp now mx (e, outs, n) = Inr (e', outs', n')"
  shows "below (next_seq e) e' e \<and> buffer_of e' = buffer_of e"
proof -
  from assms(2) obtain x where x: "entry e (cursor e) = Some x"
    by (auto simp: poll_send_def split: option.splits)
  then have lt: "cursor e < next_seq e" using assms(1) entry_bounds by (auto simp: buf_wf_def)
  from assms(2) x consider
      "e' = run_pending now (next_message (count_dropped e))"
    | e1 outs1 where "send_entry fp (e, outs) = (e1, outs1)" "e' = run_pending now (next_message e1)"
    by (auto simp: poll_send_def Let_def split: if_splits prod.splits)
  then show ?thesis
  proof cases
    case 1
    have "below (next_seq e) (next_message (count_dropped e)) e"
      using lt by (simp add: below_def count_dropped_def)
    from below_progress(2) [OF this progress_run_pending] 1 show ?thesis
      by (simp add: count_dropped_def)
  next
    case 2
    have "below (next_seq e) (next_message e1) e"
      using lt send_entry_quiet [OF 2(1)] by (simp add: below_def)
    from below_progress(2) [OF this progress_run_pending] 2 send_entry_quiet(1) [OF 2(1)]
    show ?thesis by simp
  qed
qed

lemma poll_media_below:
  assumes wf: "buf_wf e" and "poll_media fp now mx (e, outs, n) = Inr (e', outs', n')"
  shows "below (next_seq e) e' e \<and> buffer_of e' = buffer_of e"
proof -
  let ?e = "note_session (skip_evicted e)"
  have b: "buffer_of ?e = buffer_of e" by simp
  have wf': "buf_wf ?e" using wf buffer_of_wf [OF b] by simp
  have p: "progress e ?e" using progress_trans [OF progress_skip_evicted progress_note_session] .
  have n: "next_seq ?e = next_seq e" using buffer_of_eqD [OF b] by simp
  from assms(2) consider (again) "poll_sync now ?e = Again e'"
    | (go) e1 where "poll_sync now ?e = Go e1" "poll_send fp now mx (e1, outs, n) = Inr (e', outs', n')"
    by (auto simp: poll_media_def Let_def split: if_splits flow.splits)
  then show ?thesis
  proof cases
    case again
    from poll_sync_progress(2) [OF wf' again] have "below (next_seq e) e' ?e"
      using n by (auto simp: below_def)
    with below_progress(1) [OF p] poll_sync_progress(2) [OF wf' again] b show ?thesis by simp
  next
    case go
    from poll_sync_progress(1) [OF wf' go(1)] have e1: "progress ?e e1" "buffer_of e1 = buffer_of e"
      by auto
    have wf1: "buf_wf e1" using wf buffer_of_wf [OF e1(2)] by simp
    have "next_seq e1 = next_seq e" using buffer_of_eqD [OF e1(2)] by simp
    with poll_send_below [OF wf1 go(2)] below_progress(1) [OF progress_trans [OF p e1(1)]] e1(2)
    show ?thesis by simp
  qed
qed

lemma poll_iter_below:
  assumes wf: "buf_wf e" and "poll_iter fp now mx (e, outs, n) = Inr (e', outs', n')"
  shows "below (next_seq e) e' e \<and> buffer_of e' = buffer_of e"
proof (cases "poll_media fp now mx (e, outs, n) = Inr (e', outs', n')")
  case True
  with wf show ?thesis by (rule poll_media_below)
next
  case False
  with assms(2) obtain s d where "o_pending (out e) = Replay s d"
    and "o_pending (out e') = Hold s d" and "buffer_of e' = buffer_of e"
    by (auto simp: poll_iter_def Let_def split: pending.splits if_splits prod.splits)
  then show ?thesis by (simp add: below_def)
qed

section \<open>The loop ends\<close>

text \<open>
  What a round keeps holds when the loop breaks, which it does. \<open>P\<close> may mention the
  engine, what was sent and how much.
\<close>

lemma poll_loop_breaks:
  assumes "buf_wf e" and "P (e, outs, n)"
    and "\<And>st st'. P st \<Longrightarrow> buf_wf (fst st) \<Longrightarrow> poll_iter fp now mx st = Inr st' \<Longrightarrow> P st'"
  obtains r st where "loop (poll_iter fp now mx) (e, outs, n) = Some r" and "P st"
    and "buffer_of (fst st) = buffer_of e" and "buf_wf (fst st)"
    and "poll_iter fp now mx st = Inl r"
proof -
  let ?P = "\<lambda>st. P st \<and> buffer_of (fst st) = buffer_of e"
  have wf: "buf_wf (fst st) \<and> next_seq (fst st) = next_seq e" if "?P st" for st
    using that assms(1) buffer_of_wf [of "fst st" e] buffer_of_eqD [of "fst st" e] by simp
  have round: "?P st' \<and> (st', st) \<in> {(s', s). below (next_seq e) (fst s') (fst s)}"
    if st: "?P st" and it: "poll_iter fp now mx st = Inr st'" for st st'
  proof -
    obtain e1 o1 n1 e2 o2 n2 where eq: "st = (e1, o1, n1)" "st' = (e2, o2, n2)"
      by (metis prod_cases3)
    from poll_iter_below [of e1 fp now mx o1 n1 e2 o2 n2] wf [OF st] it eq
    have "below (next_seq e) e2 e1" "buffer_of e2 = buffer_of e1" by auto
    with st eq assms(3) [OF _ _ it] wf [OF st] show ?thesis by auto
  qed
  have start: "?P (e, outs, n)" using assms(2) by simp
  from loop_breaks [where P = ?P, OF start round below_wf] obtain r st
    where "loop (poll_iter fp now mx) (e, outs, n) = Some r" "?P st" "poll_iter fp now mx st = Inl r"
    by blast
  with wf that show thesis by blast
qed

end
