(* ===== verification/Engine_Evict.thy ===== *)
theory Engine_Evict
  imports Engine_Pending
begin

text \<open>
  What eviction keeps and what it is bound by: the buffer's invariant, the memory limit,
  and that without memory pressure nothing goes that the output is still to send.
\<close>

section \<open>The loop\<close>

lemma evict_loop_keeps:
  assumes "P e"
    and round: "\<And>e q l. P e \<Longrightarrow> evict_choice now keep restart e = Some (q, l) \<Longrightarrow>
           P (forget_sessions (pop_entries q e))"
  shows "P (snd (evict_loop now keep restart lost e)) \<and>
    evict_choice now keep restart (snd (evict_loop now keep restart lost e)) = None"
  using assms
proof (induction now keep restart lost e rule: evict_loop.induct)
  case (1 now keep restart lost e)
  show ?case
  proof (cases "evict_choice now keep restart e")
    case None
    then show ?thesis using 1(2) by (simp add: evict_loop.simps [of now keep restart lost e])
  next
    case (Some c)
    obtain q l where c: "c = (q, l)" by fastforce
    from 1(1) [OF Some c [symmetric] 1(3) [OF 1(2) Some [unfolded c]] 1(3)]
    show ?thesis using Some c by (simp add: evict_loop.simps [of now keep restart lost e])
  qed
qed

lemma evict_choice_bounds:
  assumes wf: "buf_wf e" and c: "evict_choice now keep restart e = Some (q, l)"
  shows "base_seq e < q" and "q \<le> next_seq e"
proof -
  have r: "ring_wf e" using wf by (simp add: buf_wf_def)
  from c obtain f fs where f: "ring e = f # fs"
    by (auto simp: evict_choice_def split: list.splits)
  have "map e_seq (ring e) = [base_seq e..<next_seq e]" using r by (simp add: ring_wf_def)
  with f have fs: "e_seq f = base_seq e" and lt: "base_seq e < next_seq e"
    by (auto simp: upt_eq_Cons_conv eq_commute [of "_ # _"])
  have q: "q = (case find (\<lambda>s. e_seq f < s) (syncs e) of Some s \<Rightarrow> s | None \<Rightarrow> e_seq f + 1)"
    using c f by (auto simp: evict_choice_def Let_def split: if_splits)
  show "base_seq e < q" "q \<le> next_seq e"
  proof (atomize(full), cases "find (\<lambda>s. e_seq f < s) (syncs e)")
    case None
    then show "base_seq e < q \<and> q \<le> next_seq e" using q fs lt by simp
  next
    case (Some s)
    then have "s \<in> set (syncs e)" "e_seq f < s" by (auto dest: find_Some_in)
    then show "base_seq e < q \<and> q \<le> next_seq e"
      using q Some fs ring_index.index_range [OF wf, of s] by auto
  qed
qed

text \<open>Eviction changes nothing but the front of the buffer and the sessions.\<close>

definition behind :: "engine \<Rightarrow> engine \<Rightarrow> bool" where
  "behind e e' \<longleftrightarrow>
     buf_wf e' \<and> out e' = out e \<and> base_seq e \<le> base_seq e' \<and> next_seq e' = next_seq e \<and>
     config e' = config e \<and> ingest_active e' = ingest_active e \<and>
     next_session e' = next_session e \<and> stats e' = stats e \<and>
     (\<forall>s x. entry e s = Some x \<longrightarrow> base_seq e' \<le> s \<longrightarrow> entry e' s = Some x)"

lemma behind_refl: "buf_wf e \<Longrightarrow> behind e e"
  by (simp add: behind_def)

lemma pop_entries_keeps:
  assumes wf: "buf_wf e" and x: "entry e s = Some x" and s: "base_seq (pop_entries q e) \<le> s"
  shows "entry (pop_entries q e) s = Some x"
proof -
  have r: "ring_wf e" using wf by (simp add: buf_wf_def)
  have "s < next_seq e" using entry_bounds [OF r x] by simp
  with s have "q \<le> s" by (auto simp: pop_entries_base [OF r])
  from pop_entries_entry [OF wf this x] show ?thesis .
qed

lemma entry_forget_sessions [simp]: "entry (forget_sessions e) s = entry e s"
  by (simp add: entry_def)

lemma behind_step:
  assumes "behind e e1"
  shows "behind e (forget_sessions (pop_entries q e1))"
proof -
  have wf: "buf_wf e1" using assms by (simp add: behind_def)
  then have base: "base_seq e1 \<le> base_seq (pop_entries q e1)"
    by (simp add: pop_entries_base buf_wf_def)
  have "buf_wf (forget_sessions (pop_entries q e1))" using wf by (simp add: wf_intros)
  moreover have "entry (pop_entries q e1) s = Some x"
    if "entry e s = Some x" "base_seq (pop_entries q e1) \<le> s" for s x
    using pop_entries_keeps [OF wf _ that(2)] that base assms by (simp add: behind_def)
  ultimately show ?thesis using assms base by (simp add: behind_def)
qed

lemma behind_evict_loop:
  "buf_wf e \<Longrightarrow> behind e (snd (evict_loop now keep restart lost e))"
  using evict_loop_keeps [of "behind e" e] behind_refl behind_step by blast

section \<open>Eviction as a whole\<close>

lemma evict_eq:
  "evict now e =
     (if fst (evict_loop now (keep_from now e) (restart_point e) False e)
      then memory_short now (snd (evict_loop now (keep_from now e) (restart_point e) False e))
      else snd (evict_loop now (keep_from now e) (restart_point e) False e))"
  by (simp add: evict_def split: prod.split)

lemma buffer_of_evict:
  "buffer_of (evict now e) =
   buffer_of (snd (evict_loop now (keep_from now e) (restart_point e) False e))"
  by (simp add: evict_eq)

lemma evict_wf [wf_intros]: "buf_wf e \<Longrightarrow> buf_wf (evict now e)"
  using behind_evict_loop [of e] buffer_of_wf [OF buffer_of_evict] by (simp add: behind_def)

lemma evict_buffer:
  assumes "buf_wf e"
  shows "base_seq e \<le> base_seq (evict now e)" and "next_seq (evict now e) = next_seq e"
    and "config (evict now e) = config e" and "ingest_active (evict now e) = ingest_active e"
    and "entry e s = Some x \<Longrightarrow> base_seq (evict now e) \<le> s \<Longrightarrow> entry (evict now e) s = Some x"
  using behind_evict_loop [OF assms] buffer_of_eqD [OF buffer_of_evict [of now e]]
    buffer_of_entry [OF buffer_of_evict [of now e]]
  by (simp_all add: behind_def)

lemma evict_out:
  assumes "buf_wf e"
  shows "out (evict now e) = out e \<or>
    (\<exists>e1. behind e e1 \<and> evict now e = memory_short now e1)"
  using behind_evict_loop [OF assms, of now "keep_from now e" "restart_point e" False]
  by (cases "fst (evict_loop now (keep_from now e) (restart_point e) False e)")
    (auto simp: evict_eq behind_def simp del: not_None_eq)

text \<open>
  The memory limit holds: after every eviction, what is buffered (messages with their
  overhead, and the decoder configuration and metadata of the sessions) is within the
  configured limit, or a single message is left.
\<close>

theorem evict_within_memory_limit:
  "bytes_held (evict now e) + session_bytes (evict now e) \<le> ram_cap_bytes (config (evict now e)) \<or>
   length (ring (evict now e)) \<le> 1"
proof -
  let ?e = "snd (evict_loop now (keep_from now e) (restart_point e) False e)"
  have "evict_choice now (keep_from now e) (restart_point e) ?e = None"
    using evict_loop_keeps [of "\<lambda>_. True" e] by simp
  then have "bytes_held ?e + session_bytes ?e \<le> ram_cap_bytes (config ?e) \<or> length (ring ?e) \<le> 1"
    by (auto simp: evict_choice_def Let_def not_less split: list.splits if_splits)
  then show ?thesis using buffer_of_eqD [OF buffer_of_evict [of now e]] by simp
qed

section \<open>Without memory pressure\<close>

lemma sum_list_filter_le: "sum_list (map f (filter p xs)) \<le> sum_list (map f xs)"
  for f :: "'a \<Rightarrow> nat"
  by (induction xs) auto

lemma forget_sessions_bytes:
  assumes "buf_wf e" shows "session_bytes (forget_sessions e) \<le> session_bytes e"
proof -
  have s: "session_bytes e = sum_list (map session_cost (sessions e))"
    using assms by (simp add: buf_wf_def sessions_wf_def)
  have "sum_list (map session_cost (sessions (forget_headers e))) \<le> session_bytes e"
    unfolding s forget_headers_frame(11) map_map
    using forget_replaced_le(2) [of "base_seq e"]
    by (intro sum_list_mono) (auto simp: session_cost_def)
  then have h: "session_bytes (forget_headers e) \<le> session_bytes e"
    using forget_headers_bytes [OF s] by simp
  have "session_bytes (forget_sessions e) \<le> sum_list (map session_cost (sessions (forget_headers e)))
      \<or> session_bytes (forget_sessions e) = session_bytes (forget_headers e)"
  proof -
    define h where "h = forget_headers e"
    show ?thesis
      unfolding forget_sessions_def h_def [symmetric] Let_def
      by (cases "ring h") (simp_all add: sum_list_filter_le)
  qed
  with h \<open>sum_list (map session_cost (sessions (forget_headers e))) \<le> session_bytes e\<close>
  show ?thesis by linarith
qed

lemma pop_entries_bytes:
  assumes "buf_wf e" shows "bytes_held (pop_entries q e) \<le> bytes_held e"
proof -
  have r: "ring_wf e" using assms by (simp add: buf_wf_def)
  have "sum_list (map entry_cost (dropWhile p xs)) \<le> sum_list (map entry_cost xs)" for p xs
    by (induction xs) auto
  then show ?thesis using r by (simp add: pop_entries_eq ring_wf_def)
qed

definition roomy :: "engine \<Rightarrow> bool" where
  "roomy e \<longleftrightarrow> bytes_held e + session_bytes e \<le> ram_cap_bytes (config e)"

lemma roomy_step:
  assumes "buf_wf e" and "roomy e"
  shows "roomy (forget_sessions (pop_entries q e))"
  using assms pop_entries_bytes [OF assms(1), of q]
    forget_sessions_bytes [OF pop_entries_wf [OF assms(1)], of q]
  by (simp add: roomy_def)

lemma roomy_choice:
  assumes "roomy e" and "evict_choice now keep (Some r) e = Some (q, l)"
    and "\<And>k. keep = Some k \<Longrightarrow> k \<le> r"
  shows "q \<le> r" and "\<not> l"
  using assms
  by (auto simp: roomy_def evict_choice_def Let_def split: list.splits if_splits option.splits)

lemma keep_from_restart:
  "restart_point e = Some r \<Longrightarrow> keep_from now e = Some k \<Longrightarrow> k \<le> r"
  by (auto simp: keep_from_def split: if_splits option.splits pending.splits)

lemma evict_loop_roomy:
  assumes "buf_wf e" and "roomy e" and keep: "\<And>k. keep = Some k \<Longrightarrow> k \<le> r" and "base_seq e \<le> b"
    and "r \<le> b"
  shows "fst (evict_loop now keep (Some r) False e) = False \<and>
    base_seq (snd (evict_loop now keep (Some r) False e)) \<le> b"
  using assms(1,2,4)
proof (induction "length (ring e)" arbitrary: e rule: less_induct)
  case less
  show ?case
  proof (cases "evict_choice now keep (Some r) e")
    case None
    then show ?thesis using less.prems by (simp add: evict_loop.simps [of now keep "Some r" False e])
  next
    case (Some c)
    obtain q l where c: "c = (q, l)" by fastforce
    let ?e = "forget_sessions (pop_entries q e)"
    have q: "q \<le> r" "\<not> l" using roomy_choice [OF less.prems(2) Some [unfolded c] keep] by auto
    have "base_seq ?e \<le> b"
      using less.prems(1,3) q(1) assms(5) by (simp add: pop_entries_base buf_wf_def)
    with less.hyps [of ?e] evict_choice_Some [OF Some [unfolded c]] roomy_step less.prems
    show ?thesis
      using Some c q(2) by (simp add: evict_loop.simps [of now keep "Some r" False e] wf_intros)
  qed
qed

text \<open>
  C35. Within the memory limit, eviction never takes what is still to air: once the broadcast
  has started, everything from the output's restart point on (the keyframe at or before the
  cursor) stays buffered, however old an outage made it, and the output's state, its delay
  included, is left alone.
\<close>

theorem evict_keeps_unaired:
  assumes wf: "buf_wf e" and started: "restart_point e = Some r"
    and room: "bytes_held e + session_bytes e \<le> ram_cap_bytes (config e)"
    and x: "entry e s = Some x" and s: "r \<le> s"
  shows "entry (evict now e) s = Some x \<and> out (evict now e) = out e"
proof -
  let ?r = "evict_loop now (keep_from now e) (restart_point e) False e"
  have "fst ?r = False \<and> base_seq (snd ?r) \<le> max (base_seq e) r"
    unfolding started
    by (rule evict_loop_roomy [OF wf])
      (use room keep_from_restart [OF started] in \<open>auto simp: roomy_def\<close>)
  moreover have "base_seq e \<le> s" using x entry_bounds wf by (auto simp: buf_wf_def)
  ultimately show ?thesis
    using behind_evict_loop [OF wf, of now "keep_from now e" "restart_point e" False] x s
    by (auto simp: evict_eq behind_def)
qed

end
