(* ===== verification/Engine_Safety.thy ===== *)
theory Engine_Safety
  imports Engine_Progress Engine_Evict
begin

text \<open>
  The promise of the delay: nothing recorded airs before it is as old as the state of the
  engine says. \<open>holds_back d e\<close> is that promise for a delay of \<open>d\<close> microseconds;
  the output loop keeps it whatever pending change it carries out, and every message it
  sends is at least that old.
\<close>

section \<open>The promise\<close>

definition holds_back :: "nat \<Rightarrow> engine \<Rightarrow> bool" where
  "holds_back d e \<longleftrightarrow>
     d \<le> max_delay_ms (config e) * MS \<and>
     (\<not> o_started (out e) \<longrightarrow> d \<le> o_target (out e)) \<and>
     (case o_pending (out e) of
        PendNone \<Rightarrow> d \<le> o_delay (out e) \<or> end_reached e
      | GoLiveNow _ \<Rightarrow> d = 0
      | AfterAir _ \<Rightarrow> d = 0
      | Dump _ _ _ _ \<Rightarrow> d = 0
      | Reduce to \<Rightarrow> d \<le> to \<and> d \<le> o_delay (out e)
      | Mask to _ _ _ _ _ \<Rightarrow> d \<le> to \<and> d \<le> o_delay (out e)
      | Hold _ to \<Rightarrow> d \<le> to
      | Replay _ to \<Rightarrow> d \<le> to \<and> d \<le> o_delay (out e))"

lemma holds_back_zero: "holds_back 0 e"
  by (simp add: holds_back_def split: pending.split)

lemma newest_sync_old:
  assumes "newest_sync_arrived_by e (checked_sub now d) = Some k"
  shows "arrival_or now e k + d \<le> now" and "entry e k \<noteq> None"
proof -
  from assms have "d \<le> now" "arrived_by e (now - d) k"
    by (auto simp: newest_sync_arrived_by_def checked_sub_def dest: find_last_Some split: if_splits)
  then show "arrival_or now e k + d \<le> now" and "entry e k \<noteq> None"
    by (auto simp: arrived_by_def arrival_or_def split: option.splits)
qed

lemma splice_to_started: "entry e k \<noteq> None \<Longrightarrow> o_started (out (splice_to k d e))"
  by (auto simp: splice_to_cursor)

text \<open>A splice to a keyframe \<open>d\<close> old, which ends the pending change.\<close>

lemma holds_back_splice:
  assumes "d \<le> max_delay_ms (config e) * MS" and "entry e k \<noteq> None" and "d \<le> d'"
    and "o_pending (out e') = PendNone" and "config e' = config e"
    and "o_delay (out e') = o_delay (out (splice_to k d' e))"
    and "o_started (out e') = o_started (out (splice_to k d' e))"
  shows "holds_back d e'"
  using assms by (auto simp: holds_back_def splice_to_cursor)

lemma holds_back_frame:
  assumes "holds_back d e" and "config e' = config e" and "o_started (out e') = o_started (out e)"
    and "o_target (out e') = o_target (out e)" and "o_pending (out e') = o_pending (out e)"
    and "o_delay (out e') = o_delay (out e)" and "o_end_mark (out e') = o_end_mark (out e)"
    and "cursor e \<le> cursor e'"
  shows "holds_back d e'"
  using assms by (auto simp: holds_back_def end_reached_def split: pending.splits option.splits)

lemma config_frame [simp]:
  "config (put_pending p e) = config e" "config (set_pending p e) = config e"
  "config (end_hold now e) = config e" "config (back_under_max e) = config e"
  "config (run_mask now d started anchor mute shown dump e) = config e"
  by (rule buffer_of_eqD, simp)+

section \<open>Carrying out a pending change\<close>

lemma holds_back_run_mask:
  assumes h: "holds_back d e" and p: "o_pending (out e) = Mask to started anchor mute shown dump"
  shows "holds_back d (run_mask now to started anchor mute shown dump e)"
proof -
  obtain a e1 where a: "mask_anchor now to started anchor mute shown dump e = (a, e1)" by fastforce
  have d: "d \<le> to" "d \<le> o_delay (out e)" "d \<le> max_delay_ms (config e) * MS"
    using h p by (auto simp: holds_back_def)
  note f = mask_anchor_fields [OF a p]
  have c: "config e1 = config e" using buffer_of_eqD(6) [OF buffer_of_mask_anchor [OF a]] .
  have h1: "holds_back d e1"
    using h f c p by (auto simp: holds_back_def)
  show ?thesis
  proof (cases a)
    case None
    with h1 a show ?thesis by (simp add: run_mask_def)
  next
    case (Some s)
    show ?thesis
    proof (cases "entry e1 s")
      case None
      then show ?thesis
        using a Some f c d h p by (auto simp: run_mask_def holds_back_def)
    next
      case x: (Some x)
      show ?thesis
      proof (cases "e_arrival x + to \<le> now")
        case True
        then show ?thesis
          using a Some x d c
          by (auto simp: run_mask_def intro!: holds_back_splice [of d e1 s "now - e_arrival x"])
      next
        case False
        then show ?thesis using a Some x h1 by (simp add: run_mask_def)
      qed
    qed
  qed
qed

lemma sync_has_entry:
  "buf_wf e \<Longrightarrow> find P (syncs e) = Some k \<Longrightarrow> entry e k \<noteq> None"
  using ring_index.oldest_key(1) by fastforce

lemma holds_back_pending_step:
  assumes h: "holds_back d e" and wf: "buf_wf e"
  shows "pending_step now e = Inl e' \<Longrightarrow> holds_back d e'"
    and "pending_step now e = Inr e' \<Longrightarrow> holds_back d e'"
proof -
  have d: "d \<le> max_delay_ms (config e) * MS" using h by (simp add: holds_back_def)
  show "holds_back d e'" if "pending_step now e = Inr e'"
  proof -
    from that have "o_pending (out e) \<noteq> PendNone \<and> pending_rank (o_pending (out e)) = 1"
      by (auto simp: pending_step_def run_dump_def split: pending.splits)
    with h have "d = 0" by (auto simp: holds_back_def split: pending.splits)
    then show ?thesis by (simp add: holds_back_zero)
  qed
  have zero: "holds_back d e'" if "d = 0" using that by (simp add: holds_back_zero)
  have "d = 0" if "o_pending (out e) \<in> range GoLiveNow \<union> range AfterAir \<or>
      (\<exists>a b c f. o_pending (out e) = Dump a b c f)"
    using that h by (auto simp: holds_back_def)
  note zero = zero [OF this]
  show "holds_back d e'" if step: "pending_step now e = Inl e'"
  proof (cases "o_pending (out e)")
    case PendNone
    with step h show ?thesis by (simp add: pending_step_def)
  next
    case (Reduce to)
    with h have to: "d \<le> to" "d \<le> o_delay (out e)" by (auto simp: holds_back_def)
    from step Reduce have e': "e' = run_reduce now to e" by (simp add: pending_step_def)
    show ?thesis
    proof (cases "o_delay (out e) < to + 500 * MS")
      case True
      with e' to h Reduce show ?thesis by (auto simp: run_reduce_def holds_back_def)
    next
      case False
      show ?thesis
      proof (cases "e' = e")
        case True with h show ?thesis by simp
      next
        case changed: False
        with e' False obtain k where k: "newest_sync_arrived_by e (checked_sub now to) = Some k"
          and e'k: "e' = put_pending PendNone (splice_to k (now - arrival_or now e k) e)"
          by (auto simp: run_reduce_def Let_def split: option.splits if_splits)
        from newest_sync_old [OF k] to(1) d show ?thesis
          unfolding e'k by (intro holds_back_splice [of d e k "now - arrival_or now e k"]) auto
      qed
    qed
  next
    case (Mask to started anchor mute shown dump)
    with step holds_back_run_mask [OF h Mask, of now] show ?thesis by (simp add: pending_step_def)
  next
    case (Hold s to)
    with h have to: "d \<le> to" by (auto simp: holds_back_def)
    from step Hold have e': "e' = run_hold now s to e" by (simp add: pending_step_def)
    show ?thesis
    proof (cases "find (\<lambda>x. s \<le> x \<and> (case o_end_mark (out e) of None \<Rightarrow> True | Some m \<Rightarrow> x \<le> m)) (syncs e)")
      case None
      with e' h d show ?thesis
        by (auto simp: run_hold_def holds_back_def end_reached_def split: option.splits)
    next
      case (Some k)
      with sync_has_entry [OF wf] have k: "entry e k \<noteq> None" by blast
      show ?thesis
      proof (cases "arrival_or now e k + to \<le> now")
        case True
        with Some e' k to d show ?thesis
          by (auto simp: run_hold_def Let_def
              intro!: holds_back_splice [of d "end_hold now e" k "now - arrival_or now e k"])
      next
        case False
        with Some e' h show ?thesis by (simp add: run_hold_def Let_def)
      qed
    qed
  next
    case (Replay s to)
    with h have to: "d \<le> to" by (auto simp: holds_back_def)
    from step Replay have e': "e' = run_replay now s to e" by (simp add: pending_step_def)
    show ?thesis
    proof (cases "find (\<lambda>x. s \<le> x) (syncs e)")
      case None
      with e' h show ?thesis by (simp add: run_replay_def)
    next
      case (Some k)
      with sync_has_entry [OF wf] have k: "entry e k \<noteq> None" by blast
      show ?thesis
      proof (cases "arrival_or now e k + to \<le> now")
        case True
        with Some e' k to d show ?thesis
          by (auto simp: run_replay_def Let_def
              intro!: holds_back_splice [of d e k "now - arrival_or now e k"])
      next
        case False
        with Some e' h show ?thesis by (simp add: run_replay_def Let_def)
      qed
    qed
  qed (use zero in auto)
qed

lemma holds_back_run_pending:
  assumes "holds_back d e" and "buf_wf e"
  shows "holds_back d (run_pending now e)"
proof -
  have "holds_back d (run_pending now e) \<and> buf_wf (run_pending now e)"
    by (rule run_pending_keeps [of "\<lambda>e. holds_back d e \<and> buf_wf e"])
      (use assms in \<open>auto dest: holds_back_pending_step buffer_of_pending_step
        simp: buffer_of_wf [OF buffer_of_pending_step(1)] buffer_of_wf [OF buffer_of_pending_step(2)]\<close>)
  then show ?thesis by simp
qed

section \<open>What the loop sends\<close>

text \<open>Messages that carry recorded media (a sequence number) are at least \<open>d\<close> old.\<close>

definition aged :: "nat \<Rightarrow> nat \<Rightarrow> engine \<Rightarrow> out_msg list \<Rightarrow> bool" where
  "aged d now e ms \<longleftrightarrow>
     (\<forall>m \<in> set ms. \<forall>s. m_seq m = Some s \<longrightarrow>
        (\<exists>x. entry e s = Some x \<and> e_arrival x + d \<le> now))"

text \<open>\<open>pushed P eo eo'\<close>: what was appended to the output satisfies \<open>P\<close>.\<close>

definition pushed :: "(out_msg \<Rightarrow> bool) \<Rightarrow> 'e \<times> out_msg list \<Rightarrow> 'e \<times> out_msg list \<Rightarrow> bool" where
  "pushed P eo eo' \<longleftrightarrow> (\<exists>ms. snd eo' = snd eo @ ms \<and> (\<forall>m \<in> set ms. P m))"

lemma pushed_none [simp]: "snd eo' = snd eo \<Longrightarrow> pushed P eo eo'"
  by (simp add: pushed_def)

lemma pushed_trans [trans]: "pushed P a b \<Longrightarrow> pushed P b c \<Longrightarrow> pushed P a c"
  unfolding pushed_def by (metis append.assoc Un_iff set_append)

lemma pushed_mono: "pushed P a b \<Longrightarrow> (\<And>m. P m \<Longrightarrow> Q m) \<Longrightarrow> pushed Q a b"
  unfolding pushed_def by blast

lemma pushed_send_at: "P (msg k (fst (out_ts k ts (fst eo))) p s) \<Longrightarrow> pushed P eo (send_at k ts p s eo)"
  by (auto simp: pushed_def send_at_def split: prod.splits)

abbreviation unnumbered :: "out_msg \<Rightarrow> bool" where
  "unnumbered m \<equiv> m_seq m = None"

lemma msg_seq [simp]: "m_seq (msg k t p s) = s" "m_payload (msg k t p s) = p"
  "m_kind (msg k t p s) = k"
  by (simp_all add: msg_def)

lemma pushed_send_headers: "pushed unnumbered eo (send_headers fp ts hs eo)"
proof (induction fp ts hs eo rule: send_headers.induct)
  case (2 fp ts k c payload hs eo)
  obtain new e where m: "mark_header_sent fp k c payload (fst eo) = (new, e)" by fastforce
  let ?eo' = "if new then send_at k ts payload None (e, snd eo) else (e, snd eo)"
  have "pushed unnumbered eo (e, snd eo)" by simp
  also have "pushed unnumbered (e, snd eo) ?eo'" by (simp add: pushed_send_at)
  also have "pushed unnumbered ?eo' (send_headers fp ts hs ?eo')" by (rule 2 [OF m [symmetric] refl])
  finally show ?case using m by simp
qed simp

lemma pushed_emit_headers: "pushed unnumbered eo (emit_headers fp eo)"
proof -
  have "pushed unnumbered eo (e1, snd eo @ [msg Data t p None])" for e1 t p
    by (simp add: pushed_def)
  note sent = pushed_trans [OF this pushed_send_headers]
  have "pushed unnumbered eo (send_headers fp ts hs (e1, snd eo))" for ts hs e1
    using pushed_send_headers [of "(e1, snd eo)"] by (simp add: pushed_def)
  with sent show ?thesis
    by (auto simp: emit_headers_def Let_def split: option.splits prod.splits)
qed

lemma pushed_send_hold_headers: "pushed unnumbered eo (send_hold_headers fp t hs eo)"
proof (induction fp t hs eo rule: send_hold_headers.induct)
  case (2 fp t k c payload hs eo)
  obtain new e where m: "mark_header_sent fp k c payload (fst eo) = (new, e)" by fastforce
  let ?eo' = "if new then (stamp k t (count_sent payload e), snd eo @ [msg k t payload None])
              else (e, snd eo)"
  have "pushed unnumbered eo ?eo'" by (simp add: pushed_def)
  also have "pushed unnumbered ?eo' (send_hold_headers fp t hs ?eo')"
    by (rule 2 [OF m [symmetric] refl])
  finally show ?case using m by simp
qed simp

lemma pushed_emit_hold_frame: "pushed unnumbered eo (fst (emit_hold_frame fp now eo))"
proof -
  have hold: "pushed unnumbered eo (emit_hold_headers fp hs t eo)" for hs t and eo :: "engine \<times> out_msg list"
  proof -
    define eo1 where "eo1 = (case hd_metadata hs of
                None \<Rightarrow> eo
              | Some m \<Rightarrow>
                  (stamp Data t ((fst eo)\<lparr>out := (out (fst eo))\<lparr>o_sent_metadata := Some m\<rparr>\<rparr>),
                   snd eo @ [msg Data t m None]))"
    have "pushed unnumbered eo eo1" by (simp add: eo1_def pushed_def split: option.split)
    from pushed_trans [OF this pushed_send_hold_headers]
    have "pushed unnumbered eo (send_hold_headers fp t (hd_config hs) eo1)" .
    then show ?thesis
      by (auto simp: emit_hold_headers_def Let_def eo1_def [symmetric] pushed_def split: prod.split)
  qed
  have frame: "pushed unnumbered eo (e4, outs2 @ [msg Video t p None])"
    if "pushed unnumbered eo (e2, outs2)" for e2 e4 :: engine and outs2 t p
    using that by (auto simp: pushed_def)
  show ?thesis
  proof (cases "o_hold (out (fst eo))")
    case None
    then show ?thesis by (simp add: emit_hold_frame_def)
  next
    case (Some h)
    show ?thesis
    proof (cases "now < hf_next h")
      case False
      let ?t = "hold_stamp now (fst eo) h"
      let ?e1 = "(fst eo)\<lparr>out := (out (fst eo))\<lparr>o_hold :=
          Some (h\<lparr>hf_last := now, hf_next := now + SEC, hf_needs_headers := False\<rparr>),
          o_fresh := False\<rparr>\<rparr>"
      obtain e2 outs2 where eo2: "(if hf_needs_headers h
          then emit_hold_headers fp (hf_headers h) ?t (?e1, snd eo) else (?e1, snd eo)) = (e2, outs2)"
        by fastforce
      have "pushed unnumbered (?e1, snd eo) (e2, outs2)"
        using hold [of "(?e1, snd eo)" "hf_headers h" ?t] eo2 by (cases "hf_needs_headers h") auto
      then have "pushed unnumbered eo (e2, outs2)" by (simp add: pushed_def)
      from frame [OF this] show ?thesis
        using Some False eo2 by (simp add: emit_hold_frame_def Let_def)
    qed (simp add: emit_hold_frame_def Some)
  qed
qed

lemma pushed_emit_entry:
  assumes "entry (fst eo) (cursor (fst eo)) = Some x"
  shows "pushed (\<lambda>m. m_seq m = Some (e_seq x)) eo (emit_entry fp eo)"
proof -
  have "pushed (\<lambda>m. m_seq m = Some (e_seq x)) eo
      (send_at (e_kind x) (e_ts x) (e_payload x) (Some (e_seq x)) (e1, snd eo))" for e1
    using pushed_send_at [of "\<lambda>m. m_seq m = Some (e_seq x)" "e_kind x" "e_ts x" "(e1, snd eo)"
        "e_payload x" "Some (e_seq x)"]
    by (simp add: pushed_def)
  then show ?thesis
    using assms
    by (auto simp: emit_entry_def Let_def pushed_def split: option.splits prod.splits)
qed

lemma pushed_send_entry:
  assumes "entry (fst eo) (cursor (fst eo)) = Some x"
  shows "pushed (\<lambda>m. m_seq m = None \<or> m_seq m = Some (e_seq x)) eo (send_entry fp eo)"
proof -
  obtain e1 outs1 where h: "(if o_pending_headers (out (fst eo)) then emit_headers fp eo else eo) = (e1, outs1)"
    by fastforce
  have q: "quiet e1 = quiet (fst eo)" and "pushed unnumbered eo (e1, outs1)"
    using h quiet_emit_headers [of fp eo] pushed_emit_headers [of eo fp]
    by (cases "o_pending_headers (out (fst eo))"; simp)+
  then have p1: "pushed (\<lambda>m. m_seq m = None \<or> m_seq m = Some (e_seq x)) eo (note_first e1, outs1)"
    by (auto simp: pushed_def)
  have "entry (note_first e1) (cursor (note_first e1)) = Some x"
    using assms quiet_entry [OF q] quiet_eqD(14) [OF q] by (simp add: note_first_def)
  from pushed_emit_entry [of "(note_first e1, outs1)" x fp, unfolded fst_conv, OF this]
  have "pushed (\<lambda>m. m_seq m = None \<or> m_seq m = Some (e_seq x)) (note_first e1, outs1)
      (emit_entry fp (note_first e1, outs1))"
    by (rule pushed_mono) simp
  from pushed_trans [OF p1 this] show ?thesis by (simp add: send_entry_def h)
qed

section \<open>The promise in the loop\<close>

lemma move_out [simp]:
  "o_pending (out (move_to s e)) = o_pending (out e)" "o_delay (out (move_to s e)) = o_delay (out e)"
  "o_target (out (move_to s e)) = o_target (out e)"
  "o_started (out (move_to s e)) = o_started (out e)"
  "o_end_mark (out (move_to s e)) = o_end_mark (out e)" "config (move_to s e) = config e"
  "o_pending (out (ask_sync e)) = o_pending (out e)" "o_delay (out (ask_sync e)) = o_delay (out e)"
  "o_target (out (ask_sync e)) = o_target (out e)"
  "o_started (out (ask_sync e)) = o_started (out e)"
  "o_end_mark (out (ask_sync e)) = o_end_mark (out e)" "config (ask_sync e) = config e"
  "o_pending (out (next_message e)) = o_pending (out e)"
  "o_delay (out (next_message e)) = o_delay (out e)"
  "o_target (out (next_message e)) = o_target (out e)"
  "o_started (out (next_message e)) = o_started (out e)"
  "o_end_mark (out (next_message e)) = o_end_mark (out e)" "config (next_message e) = config e"
  by (simp_all add: move_to_def ask_sync_def next_message_def)

lemma holds_back_skip_evicted: "holds_back d e \<Longrightarrow> holds_back d (skip_evicted e)"
  by (auto simp: skip_evicted_def intro: holds_back_frame)

lemma holds_back_note_session: "holds_back d e \<Longrightarrow> holds_back d (note_session e)"
  using note_session_same [of e] by (auto intro: holds_back_frame)

lemma end_reached_note_session [simp]: "end_reached (note_session e) = end_reached e"
  using note_session_same [of e] by (auto simp: end_reached_def split: option.split)

lemma pending_note_skip [simp]:
  "o_pending (out (note_session e)) = o_pending (out e)"
  "o_pending (out (skip_evicted e)) = o_pending (out e)"
  using note_session_same [of e] by (auto simp: skip_evicted_def)

lemma holds_back_started_splice:
  assumes "holds_back d e" and "\<not> end_reached e" and "entry e k \<noteq> None" and "o_delay (out e) \<le> d'"
  shows "holds_back d (splice_to k d' e)"
  using assms by (auto simp: holds_back_def splice_to_cursor split: pending.splits)

lemma holds_back_back_under_max:
  assumes "holds_back d e" and "o_pending (out e) = PendNone \<Longrightarrow> d \<le> o_delay (out e)"
    and "o_started (out e)"
  shows "holds_back d (back_under_max e)"
  using assms by (auto simp: holds_back_def back_under_max_def Let_def)

lemma holds_back_poll_sync:
  assumes wf: "buf_wf e" and h: "holds_back d e" and ne: "\<not> end_reached e"
  shows "poll_sync now e = Go e' \<Longrightarrow> holds_back d e' \<and> \<not> end_reached e'"
    and "poll_sync now e = Again e' \<Longrightarrow> holds_back d e'"
    and "poll_sync now e = Break wake e' \<Longrightarrow> holds_back d e'"
proof -
  show "holds_back d e'" if again: "poll_sync now e = Again e'"
  proof -
    obtain s where "e' = move_to s e"
      using again by (auto simp: poll_sync_def Let_def split: if_splits option.splits)
    with poll_sync_progress(2) [OF wf again] h show ?thesis by (auto intro: holds_back_frame)
  qed
  have spliced: "holds_back d (set_pending (Reduce (o_target (out (splice_to k d' e)))) (splice_to k d' e))"
    if "entry e k \<noteq> None" "o_delay (out e) \<le> d'" "\<not> o_started (out e)" "o_pending (out e) = PendNone" for k d'
    using that h ne by (auto simp: holds_back_def splice_to_cursor)
  have under: "holds_back d (back_under_max (splice_to k d' e))"
    if k: "entry e k \<noteq> None" and d': "o_delay (out e) \<le> d'" for k d'
    using holds_back_started_splice [OF h ne k d'] splice_to_started [OF k] h ne k d'
    by (intro holds_back_back_under_max) (auto simp: holds_back_def splice_to_cursor split: if_splits)
  have key: "entry e k \<noteq> None" if "start_keyframe now e = Some k" for k
    using start_keyframe_from(1) [OF that] sync_entry [OF wf] by fastforce
  show "holds_back d e' \<and> \<not> end_reached e'" if "poll_sync now e = Go e'"
    using that h ne key spliced under
    by (auto simp: poll_sync_def Let_def split: if_splits option.splits)
  have past: "holds_back d (move_to s e)" if "o_end_mark (out e) = Some m" "m < s" for s m
    using h ne that by (intro holds_back_frame [OF h]) (auto simp: end_reached_def)
  show "holds_back d e'" if "poll_sync now e = Break wake e'"
    using that h key spliced under past
    by (auto simp: poll_sync_def Let_def split: if_splits option.splits)
qed

text \<open>What the loop keeps, of the state and of what it sent.\<close>

definition old_enough :: "nat \<Rightarrow> nat \<Rightarrow> engine \<Rightarrow> out_msg \<Rightarrow> bool" where
  "old_enough d now e m \<longleftrightarrow>
     (\<forall>s. m_seq m = Some s \<longrightarrow> (\<exists>x. entry e s = Some x \<and> e_arrival x + d \<le> now))"

lemma unnumbered_old: "m_seq m = None \<Longrightarrow> old_enough d now e m"
  by (simp add: old_enough_def)

lemma holds_back_delay:
  assumes "holds_back d e" and "\<not> end_reached e"
    and "\<And>s to. o_pending (out e) \<noteq> Hold s to"
  shows "d \<le> o_delay (out e)"
  using assms by (auto simp: holds_back_def split: pending.splits)

lemma poll_send_keeps:
  assumes wf: "buf_wf e" and h: "holds_back d e" and ne: "\<not> end_reached e"
    and nh: "\<And>s to. o_pending (out e) \<noteq> Hold s to"
  shows "poll_send fp now mx (e, outs, n) = Inr (e', outs', n') \<Longrightarrow>
      holds_back d e' \<and> pushed (old_enough d now e) (e, outs) (e', outs')"
    and "poll_send fp now mx (e, outs, n) = Inl (wake, e', outs') \<Longrightarrow> e' = e \<and> outs' = outs"
proof -
  show "e' = e \<and> outs' = outs" if "poll_send fp now mx (e, outs, n) = Inl (wake, e', outs')"
    using that by (auto simp: poll_send_def Let_def split: option.splits if_splits prod.splits)
  show "holds_back d e' \<and> pushed (old_enough d now e) (e, outs) (e', outs')"
    if sent: "poll_send fp now mx (e, outs, n) = Inr (e', outs', n')"
  proof -
    from sent obtain x where x: "entry e (cursor e) = Some x"
      and due: "e_arrival x + o_delay (out e) \<le> now"
      by (auto simp: poll_send_def Let_def split: option.splits if_splits)
    from sent x consider
        "e' = run_pending now (next_message (count_dropped e))" "outs' = outs"
      | e1 where "send_entry fp (e, outs) = (e1, outs')" "e' = run_pending now (next_message e1)"
      by (auto simp: poll_send_def Let_def split: if_splits prod.splits)
    then show ?thesis
    proof cases
      case 1
      have "holds_back d (next_message (count_dropped e))"
        by (rule holds_back_frame [OF h]) (simp_all add: count_dropped_def)
      moreover have "buf_wf (next_message (count_dropped e))"
        using wf buffer_of_wf [of "next_message (count_dropped e)" e] by (simp add: count_dropped_def)
      ultimately show ?thesis using 1 holds_back_run_pending by simp
    next
      case 2
      note f = send_entry_quiet [OF 2(1), unfolded fst_conv]
      have "holds_back d (next_message e1)"
        by (rule holds_back_frame [OF h]) (use f buffer_of_eqD [OF f(1)] in simp_all)
      moreover have "buf_wf (next_message e1)"
        using wf buffer_of_wf [OF f(1)] buffer_of_wf [of "next_message e1" e1] by simp
      moreover have "pushed (old_enough d now e) (e, outs) (e', outs')"
      proof -
        have "e_seq x = cursor e" using x wf entry_seq by (auto simp: buf_wf_def)
        moreover have "d \<le> o_delay (out e)" using holds_back_delay [OF h ne nh] .
        ultimately have "old_enough d now e m" if "m_seq m = None \<or> m_seq m = Some (e_seq x)" for m
          using that x due by (auto simp: old_enough_def)
        with pushed_mono [OF pushed_send_entry [of "(e, outs)" x fp]] x 2(1)
        have "pushed (old_enough d now e) (e, outs) (e1, outs')" by simp
        then show ?thesis by (simp add: pushed_def)
      qed
      ultimately show ?thesis using 2 holds_back_run_pending by simp
    qed
  qed
qed

lemma old_enough_buffer:
  "buffer_of e' = buffer_of e \<Longrightarrow> old_enough d now e' = old_enough d now e"
  by (auto simp: old_enough_def fun_eq_iff buffer_of_entry [of e' e])

lemma poll_media_keeps:
  assumes wf: "buf_wf e" and h: "holds_back d e" and nh: "\<And>s to. o_pending (out e) \<noteq> Hold s to"
  shows "poll_media fp now mx (e, outs, n) = Inr (e', outs', n') \<Longrightarrow>
      holds_back d e' \<and> pushed (old_enough d now e) (e, outs) (e', outs')"
    and "poll_media fp now mx (e, outs, n) = Inl (wake, e', outs') \<Longrightarrow>
      holds_back d e' \<and> outs' = outs"
proof -
  let ?e = "note_session (skip_evicted e)"
  have b: "buffer_of ?e = buffer_of e" by simp
  have wf': "buf_wf ?e" using wf buffer_of_wf [OF b] by simp
  have h': "holds_back d ?e" using h by (intro holds_back_note_session holds_back_skip_evicted)
  have go: "holds_back d e1 \<and> \<not> end_reached e1 \<and> buf_wf e1 \<and> buffer_of e1 = buffer_of e \<and>
      (\<forall>s to. o_pending (out e1) \<noteq> Hold s to)"
    if "\<not> end_reached (skip_evicted e)" "poll_sync now ?e = Go e1" for e1
  proof -
    have "buffer_of e1 = buffer_of e" using poll_sync_progress(1) [OF wf' that(2)] by simp
    moreover have "o_pending (out e1) \<noteq> Hold s to" for s to
      using that(2) nh
      by (auto simp: poll_sync_def Let_def back_under_max_def split: if_splits option.splits)
    ultimately show ?thesis
      using holds_back_poll_sync(1) [OF wf' h' _ that(2)] that(1) wf buffer_of_wf [of e1 e] by simp
  qed
  show "holds_back d e' \<and> pushed (old_enough d now e) (e, outs) (e', outs')"
    if "poll_media fp now mx (e, outs, n) = Inr (e', outs', n')"
  proof -
    from that consider "\<not> end_reached (skip_evicted e)" "poll_sync now ?e = Again e'" "outs' = outs"
      | e1 where "\<not> end_reached (skip_evicted e)" "poll_sync now ?e = Go e1"
        "poll_send fp now mx (e1, outs, n) = Inr (e', outs', n')"
      by (auto simp: poll_media_def Let_def split: if_splits flow.splits)
    then show ?thesis
    proof cases
      case 1
      with holds_back_poll_sync(2) [OF wf' h' _ 1(2)] show ?thesis by simp
    next
      case 2
      note g = go [OF 2(1,2)]
      from poll_send_keeps(1) [OF _ _ _ _ 2(3), of d] g old_enough_buffer [of e1 e]
      show ?thesis by (auto simp: pushed_def)
    qed
  qed
  show "holds_back d e' \<and> outs' = outs"
    if "poll_media fp now mx (e, outs, n) = Inl (wake, e', outs')"
  proof -
    from that consider "e' = skip_evicted e" "outs' = outs"
      | "\<not> end_reached (skip_evicted e)" "poll_sync now ?e = Break wake e'" "outs' = outs"
      | e1 where "\<not> end_reached (skip_evicted e)" "poll_sync now ?e = Go e1"
        "poll_send fp now mx (e1, outs, n) = Inl (wake, e', outs')"
      by (auto simp: poll_media_def Let_def split: if_splits flow.splits)
    then show ?thesis
    proof cases
      case 1
      with holds_back_skip_evicted [OF h] show ?thesis by simp
    next
      case 2
      with holds_back_poll_sync(3) [OF wf' h' _ 2(2)] show ?thesis by simp
    next
      case 3
      note g = go [OF 3(1,2)]
      from poll_send_keeps(2) [OF _ _ _ _ 3(3), of d] g show ?thesis by auto
    qed
  qed
qed

lemma poll_media_buffer:
  assumes wf: "buf_wf e" and "poll_media fp now mx (e, outs, n) = Inl (wake, e', outs')"
  shows "buffer_of e' = buffer_of e"
proof -
  have b: "buffer_of (note_session (skip_evicted e)) = buffer_of e" by simp
  have go: "buffer_of e1 = buffer_of e"
    if "poll_sync now (note_session (skip_evicted e)) = Go e1" for e1
    using poll_sync_progress(1) [OF _ that] wf buffer_of_wf [OF b] b by simp
  have stop: "buffer_of e1 = buffer_of e"
    if "poll_sync now (note_session (skip_evicted e)) = Break w e1" for w e1
    using that b by (auto simp: poll_sync_def Let_def split: if_splits option.splits)
  have send: "e2 = e1" if "poll_send fp now mx (e1, outs, n) = Inl (w, e2, o2)" for e1 w e2 o2
    using that by (auto simp: poll_send_def Let_def split: option.splits if_splits prod.splits)
  show ?thesis
  proof (cases "end_reached (skip_evicted e)")
    case True
    with assms(2) have "e' = skip_evicted e" by (auto simp: poll_media_def Let_def)
    then show ?thesis by simp
  next
    case ne: False
    show ?thesis
    proof (cases "poll_sync now (note_session (skip_evicted e))")
      case (Break w e1)
      with ne assms(2) have "e' = e1" by (simp add: poll_media_def Let_def)
      with stop [OF Break] show ?thesis by simp
    next
      case (Again e1)
      with ne assms(2) show ?thesis by (simp add: poll_media_def Let_def)
    next
      case (Go e1)
      with ne assms(2) have "poll_send fp now mx (e1, outs, n) = Inl (wake, e', outs')"
        by (simp add: poll_media_def Let_def)
      from send [OF this] go [OF Go] show ?thesis by simp
    qed
  qed
qed

lemma emit_hold_frame_quiet:
  "fst (fst (emit_hold_frame fp now eo)) = fst eo \<or>
   (\<exists>h. quiet (fst (fst (emit_hold_frame fp now eo))) =
        quiet ((fst eo)\<lparr>out := (out (fst eo))\<lparr>o_hold := h, o_fresh := False\<rparr>\<rparr>))"
proof (cases "o_hold (out (fst eo))")
  case None
  then show ?thesis by (simp add: emit_hold_frame_def)
next
  case (Some h)
  show ?thesis
  proof (cases "now < hf_next h")
    case False
    let ?t = "hold_stamp now (fst eo) h"
    let ?h = "Some (h\<lparr>hf_last := now, hf_next := now + SEC, hf_needs_headers := False\<rparr>)"
    let ?e1 = "(fst eo)\<lparr>out := (out (fst eo))\<lparr>o_hold := ?h, o_fresh := False\<rparr>\<rparr>"
    obtain e2 outs2 where eo2: "(if hf_needs_headers h
        then emit_hold_headers fp (hf_headers h) ?t (?e1, snd eo) else (?e1, snd eo)) = (e2, outs2)"
      by fastforce
    have "quiet e2 = quiet ?e1"
      using eo2 quiet_emit_hold_headers [of fp "hf_headers h" ?t "(?e1, snd eo)"]
      by (cases "hf_needs_headers h") auto
    then have "quiet (fst (fst (emit_hold_frame fp now eo))) = quiet ?e1"
      using Some False eo2 by (simp add: emit_hold_frame_def Let_def)
    then show ?thesis by blast
  qed (simp add: emit_hold_frame_def Some)
qed

lemma emit_hold_frame_fields:
  assumes "emit_hold_frame fp now eo = ((e', outs'), wake)"
  shows "buffer_of e' = buffer_of (fst eo)" "cursor e' = cursor (fst eo)"
    "o_pending (out e') = o_pending (out (fst eo))" "o_delay (out e') = o_delay (out (fst eo))"
    "o_target (out e') = o_target (out (fst eo))" "o_started (out e') = o_started (out (fst eo))"
    "o_end_mark (out e') = o_end_mark (out (fst eo))"
    "o_connected (out e') = o_connected (out (fst eo))"
proof -
  consider "e' = fst eo"
    | h where "quiet e' = quiet ((fst eo)\<lparr>out := (out (fst eo))\<lparr>o_hold := h, o_fresh := False\<rparr>\<rparr>)"
    using emit_hold_frame_quiet [of fp now eo] assms by auto
  note cs = this
  have same: "buffer_of e' = buffer_of (fst eo) \<and> cursor e' = cursor (fst eo) \<and>
      o_pending (out e') = o_pending (out (fst eo)) \<and> o_delay (out e') = o_delay (out (fst eo)) \<and>
      o_target (out e') = o_target (out (fst eo)) \<and> o_started (out e') = o_started (out (fst eo)) \<and>
      o_end_mark (out e') = o_end_mark (out (fst eo)) \<and>
      o_connected (out e') = o_connected (out (fst eo))"
  proof (cases rule: cs)
    case (2 h)
    from quiet_buffer_of [OF 2] quiet_eqD [OF 2] show ?thesis by simp
  qed simp
  then show "buffer_of e' = buffer_of (fst eo)" "cursor e' = cursor (fst eo)"
    "o_pending (out e') = o_pending (out (fst eo))" "o_delay (out e') = o_delay (out (fst eo))"
    "o_target (out e') = o_target (out (fst eo))" "o_started (out e') = o_started (out (fst eo))"
    "o_end_mark (out e') = o_end_mark (out (fst eo))"
    "o_connected (out e') = o_connected (out (fst eo))"
    by simp_all
qed

lemma poll_iter_keeps:
  assumes wf: "buf_wf e" and h: "holds_back d e"
  shows "poll_iter fp now mx (e, outs, n) = Inr (e', outs', n') \<Longrightarrow>
      holds_back d e' \<and> pushed (old_enough d now e) (e, outs) (e', outs')"
    and "poll_iter fp now mx (e, outs, n) = Inl (wake, e', outs') \<Longrightarrow>
      holds_back d e' \<and> pushed (old_enough d now e) (e, outs) (e', outs') \<and>
      buffer_of e' = buffer_of e"
proof -
  note media = poll_media_keeps [OF wf h]
  show "holds_back d e' \<and> pushed (old_enough d now e) (e, outs) (e', outs')"
    if it: "poll_iter fp now mx (e, outs, n) = Inr (e', outs', n')"
  proof (cases "poll_media fp now mx (e, outs, n) = Inr (e', outs', n') \<and>
      (\<forall>s to. o_pending (out e) \<noteq> Hold s to)")
    case True
    with media(1) show ?thesis by blast
  next
    case False
    with it obtain s to f where "o_pending (out e) = Replay s to"
      "e' = (set_pending (Hold s to) e)\<lparr>out := (out (set_pending (Hold s to) e))
          \<lparr>o_hold := f, o_need_sync := True\<rparr>\<rparr>" "outs' = outs"
      by (auto simp: poll_iter_def Let_def split: pending.splits if_splits prod.splits)
    with h show ?thesis by (simp add: holds_back_def)
  qed
  show "holds_back d e' \<and> pushed (old_enough d now e) (e, outs) (e', outs') \<and>
      buffer_of e' = buffer_of e"
    if it: "poll_iter fp now mx (e, outs, n) = Inl (wake, e', outs')"
  proof -
    from it consider (media) "poll_media fp now mx (e, outs, n) = Inl (wake, e', outs')"
        "\<forall>s to. o_pending (out e) \<noteq> Hold s to"
      | (hold) "emit_hold_frame fp now (e, outs) = ((e', outs'), wake)"
      | (wait) "e' = e" "outs' = outs"
      by (auto simp: poll_iter_def Let_def split: pending.splits if_splits prod.splits)
    then show ?thesis
    proof cases
      case media
      with poll_media_keeps(2) [OF wf h] poll_media_buffer [OF wf media(1)] show ?thesis by simp
    next
      case hold
      note f = emit_hold_frame_fields [OF hold, unfolded fst_conv]
      have "holds_back d e'"
        by (rule holds_back_frame [OF h]) (use f buffer_of_eqD [OF f(1)] in simp_all)
      moreover have "pushed (old_enough d now e) (e, outs) (e', outs')"
        using pushed_emit_hold_frame [of "(e, outs)" fp now] hold
        by (auto intro: pushed_mono unnumbered_old)
      ultimately show ?thesis using f by simp
    next
      case wait
      with h show ?thesis by simp
    qed
  qed
qed

section \<open>Nothing airs early\<close>

lemma poll_budget_keeps:
  assumes "buf_wf e" and "holds_back d (evict now e)"
  obtains wake e' ms where "poll_budget fp now mx (e, outs) = Some (wake, e', outs @ ms)"
    and "holds_back d e'" and "aged d now (evict now e) ms"
    and "buffer_of e' = buffer_of (evict now e)"
proof -
  let ?e = "run_pending now (evict now e)"
  have wf: "buf_wf (evict now e)" using assms(1) by (rule evict_wf)
  have b: "buffer_of ?e = buffer_of (evict now e)" by simp
  have wf': "buf_wf ?e" using wf buffer_of_wf [OF b] by simp
  have h: "holds_back d ?e" using assms(2) wf by (rule holds_back_run_pending)
  show ?thesis
  proof (cases "o_connected (out ?e)")
    case False
    with h b that [of _ ?e "[]"] show ?thesis by (simp add: poll_budget_def Let_def aged_def)
  next
    case True
    let ?P = "\<lambda>(e', outs', n). holds_back d e' \<and> buffer_of e' = buffer_of ?e \<and>
        pushed (old_enough d now ?e) (?e, outs) (e', outs')"
    obtain r st where r: "loop (poll_iter fp now mx) (?e, outs, 0) = Some r" and P: "?P st"
      and wf_st: "buf_wf (fst st)" and it: "poll_iter fp now mx st = Inl r"
    proof (rule poll_loop_breaks [OF wf', of ?P outs 0 fp now mx])
      show "?P (?e, outs, 0)" using h by simp
      show "?P st'" if st: "?P st" and wf_st: "buf_wf (fst st)"
        and step: "poll_iter fp now mx st = Inr st'" for st st'
      proof -
        obtain e1 o1 n1 e2 o2 n2 where eq: "st = (e1, o1, n1)" "st' = (e2, o2, n2)"
          by (metis prod_cases3)
        from st eq have e1: "holds_back d e1" "buffer_of e1 = buffer_of ?e"
          "pushed (old_enough d now ?e) (?e, outs) (e1, o1)" by auto
        from poll_iter_keeps(1) [OF _ e1(1), of fp now mx o1 n1 e2 o2 n2] step eq wf_st
        have "holds_back d e2" "pushed (old_enough d now e1) (e1, o1) (e2, o2)" by auto
        moreover have "buffer_of e2 = buffer_of e1"
          using poll_iter_below [of e1 fp now mx o1 n1 e2 o2 n2] step eq wf_st by simp
        moreover note pushed_trans [OF e1(3), of "(e2, o2)"]
        ultimately show ?thesis using eq e1(2) old_enough_buffer [OF e1(2)] by simp
      qed
    qed blast
    obtain e1 o1 n1 where eq: "st = (e1, o1, n1)" by (metis prod_cases3)
    obtain wake e' outs' where r_eq: "r = (wake, e', outs')" by (metis prod_cases3)
    from P eq have e1: "holds_back d e1" "buffer_of e1 = buffer_of ?e"
      "pushed (old_enough d now ?e) (?e, outs) (e1, o1)" by auto
    from poll_iter_keeps(2) [OF _ e1(1), of fp now mx o1 n1 wake e' outs'] it eq r_eq wf_st
    have e': "holds_back d e'" "pushed (old_enough d now e1) (e1, o1) (e', outs')"
      "buffer_of e' = buffer_of e1" by auto
    have "pushed (old_enough d now (evict now e)) (?e, outs) (e', outs')"
      using pushed_trans [OF e1(3), of "(e', outs')"] e'(2) old_enough_buffer [OF e1(2)]
        old_enough_buffer [OF b] by simp
    then obtain ms where "outs' = outs @ ms" "\<forall>m \<in> set ms. old_enough d now (evict now e) m"
      by (auto simp: pushed_def)
    with True r r_eq e' e1(2) b that [of "earlier wake _" e' ms] show ?thesis
      by (simp add: poll_budget_def Let_def aged_def old_enough_def)
  qed
qed

text \<open>
  C1. Nothing recorded airs before it is old enough. Whatever change of the delay is under
  way, the output loop always returns, every message it sends that carries recorded media is
  in the buffer and was received at least \<open>d\<close> before now, and the promise of \<open>d\<close>
  still holds afterwards: for a delay that stands, for one being reduced (down to what is
  asked for), for a mask or a replay building up, and for the hold after a dump until the
  whole delay is back.
\<close>

theorem poll_airs_nothing_early:
  assumes "buf_wf e" and "holds_back d (evict now e)"
  shows "\<exists>wake e' ms. poll_budget fp now mx (e, outs) = Some (wake, e', outs @ ms) \<and>
    aged d now (evict now e) ms \<and> holds_back d e' \<and> buf_wf e'"
proof -
  obtain wake e' ms where r: "poll_budget fp now mx (e, outs) = Some (wake, e', outs @ ms)"
    "holds_back d e'" "aged d now (evict now e) ms" "buffer_of e' = buffer_of (evict now e)"
    by (rule poll_budget_keeps [OF assms])
  have "buf_wf e'" using buffer_of_wf [OF r(4)] evict_wf [OF assms(1)] by simp
  with r show ?thesis by blast
qed

text \<open>
  The output loop ends: in every well-formed state, \<^verbatim>\<open>poll\<close> returns, whatever
  is pending, however much is buffered and whatever encoder sessions it came from.
\<close>

theorem poll_returns:
  assumes "buf_wf e"
  shows "\<exists>wake e' ms. poll fp now (e, outs) = Some (wake, e', outs @ ms)"
  using poll_budget_keeps [OF assms holds_back_zero] unfolding poll_def by metis

end
