(* ===== verification/Engine_Command.thy ===== *)
theory Engine_Command
  imports Engine_Safety
begin

text \<open>
  The commands of the operator: \<^verbatim>\<open>Engine::command\<close> with its \<^verbatim>\<open>match\<close>
  split into one definition per command, the dump, and the acknowledgement. A command returns
  the new state with an error (\<open>Inl\<close>) or an acknowledgement (\<open>Inr\<close>).
\<close>

section \<open>The commands\<close>

definition ack_of :: "engine \<Rightarrow> ack" where
  "ack_of e =
     \<lparr>target_ms = o_target (out e) div MS,
      effective_ms = (case o_pending (out e) of
                        Replay _ d \<Rightarrow> d | _ \<Rightarrow> o_delay (out e)) div MS,
      ack_pending = (o_pending (out e) \<noteq> PendNone),
      ack_history_short = o_history_short (out e),
      ack_dump = None\<rparr>"

definition clear_notes :: "engine \<Rightarrow> engine" where
  "clear_notes e =
     e\<lparr>out := (out e)\<lparr>o_memory_short := False, o_slate_unconfirmed := False,
                      o_cover_lost := False, o_grew_on_reconnect := False\<rparr>\<rparr>"

definition check_memory :: "nat \<Rightarrow> engine \<Rightarrow> engine_error option" where
  "check_memory ms e =
     (let bits = bitrate_bps (stats e) in
      if \<not> ingest_active e \<or> bits = 0 then None
      else (let needed = bits div 8 * ms div 1000 * 6 div 5; cap = ram_cap_bytes (config e)
            in if cap < needed
               then Some (NotEnoughMemory ((needed + (2 ^ 20 - 1)) div 2 ^ 20) (cap div 2 ^ 20))
               else None))"

text \<open>What every command that does not return early ends with.\<close>

definition finish :: "nat \<Rightarrow> engine \<Rightarrow> engine \<times> (engine_error + ack)" where
  "finish now e = (let e' = run_pending now e in (e', Inr (ack_of e')))"

definition cmd_slate_shown :: "nat \<Rightarrow> nat \<Rightarrow> engine \<Rightarrow> engine" where
  "cmd_slate_shown now change e =
     (if change = o_slate_change (out e)
      then (case o_pending (out e) of
              Mask d started None mute None dump \<Rightarrow>
                put_pending (Mask d started None mute (Some now) dump) e
            | Dump d started from None \<Rightarrow> put_pending (Dump d started from (Some now)) e
            | _ \<Rightarrow> e)
      else e)"

definition cmd_cancel :: "engine \<Rightarrow> engine" where
  "cmd_cancel e =
     (if after_dump (o_pending (out e)) then e
      else (let e1 = set_pending PendNone e;
                delay = min (o_delay (out e1)) (max_delay_ms (config e1) * MS);
                e2 = e1\<lparr>out := (out e1)\<lparr>o_target := (if delay < 500 * MS then 0 else delay)\<rparr>\<rparr>
            in if o_started (out e2) then back_under_max e2 else e2))"

definition cmd_go_live :: "go_live_when \<Rightarrow> engine \<Rightarrow> engine" where
  "cmd_go_live when e =
     (let e1 = e\<lparr>out := (out e)\<lparr>o_target := 0, o_history_short := False\<rparr>\<rparr>;
          last = next_seq e1 - 1
      in if \<not> o_started (out e1)
         then set_pending PendNone (e1\<lparr>out := (out e1)\<lparr>o_delay := 0\<rparr>\<rparr>)
         else set_pending (case when of Now \<Rightarrow> GoLiveNow last | WhenAired \<Rightarrow> AfterAir last) e1)"

definition engine_dump :: "nat \<Rightarrow> delay_mode \<Rightarrow> bool \<Rightarrow> engine \<Rightarrow> dump_outcome \<times> engine" where
  "engine_dump now mode cover e =
     (if \<not> o_started (out e) then (DumpHold, drop_buffer e)
      else if o_end_mark (out e) \<noteq> None \<or> \<not> ingest_active e
      then (DumpHold, set_pending PendNone (drop_buffer e))
      else
        (let delay = dump_delay e;
             e1 = e\<lparr>out := (out e)\<lparr>o_history_short := False, o_target := delay\<rparr>\<rparr>
         in case (if mode = Rewind then replay_instead now delay e1 else None) of
              Some e2 \<Rightarrow> (DumpReplay, e2)
            | None \<Rightarrow>
                (let frame = aired_keyframe now e1;
                     e2 = drop_buffer e1;
                     from = next_seq e2;
                     (outcome, e3) =
                       (if cover
                        then (DumpCover,
                              (let e3 = set_pending (Dump delay now from None) e2
                               in e3\<lparr>out := (out e3)
                                      \<lparr>o_slate_change := o_slate_change (out e3) + 1,
                                       o_mask_visible := True\<rparr>\<rparr>))
                        else (DumpHold, set_pending (Hold from delay) e2))
                 in (outcome, e3\<lparr>out := (out e3)\<lparr>o_hold := frame\<rparr>\<rparr>))))"

definition cmd_dump ::
  "nat \<Rightarrow> delay_mode \<Rightarrow> bool \<Rightarrow> engine \<Rightarrow> engine \<times> (engine_error + ack)" where
  "cmd_dump now mode cover e =
     (if \<not> can_dump e then (e, Inl NothingToDump)
      else (let (outcome, e1) = engine_dump now mode cover e; e2 = run_pending now e1
            in (e2, Inr ((ack_of e2)\<lparr>ack_dump := Some outcome\<rparr>))))"

text \<open>\<^verbatim>\<open>SetDelay\<close>, once it is known to be neither too large nor too much.\<close>

definition cmd_set_delay ::
  "nat \<Rightarrow> nat \<Rightarrow> delay_mode \<Rightarrow> engine \<Rightarrow> engine \<times> (engine_error + ack)" where
  "cmd_set_delay now ms mode0 e =
     (let d = ms * MS in
      case (if 0 < ms then with_dump_delay d (o_pending (out e)) else None) of
        Some p \<Rightarrow>
          finish now (e\<lparr>out := (out e)\<lparr>o_pending := p, o_target := d, o_history_short := False\<rparr>\<rparr>)
      | None \<Rightarrow>
          (let mode = (if keep_history (config e) then mode0 else MaskMode) in
           if d = o_target (out e) \<and> mode = MaskMode \<and>
              (case o_pending (out e) of Mask _ _ _ _ _ _ \<Rightarrow> True | _ \<Rightarrow> False)
           then (e, Inr (ack_of e))
           else
             (let e1 = set_pending PendNone
                         (e\<lparr>out := (out e)\<lparr>o_target := d, o_history_short := False\<rparr>\<rparr>)
              in if \<not> o_started (out e1)
                 then finish now (e1\<lparr>out := (out e1)\<lparr>o_delay := d\<rparr>\<rparr>)
                 else if ms = 0 then finish now (cmd_go_live Now (clear_notes e1))
                 else if o_delay (out e1) < d
                 then (case mode of
                         Rewind \<Rightarrow> finish now (rewind now d e1)
                       | MaskMode \<Rightarrow>
                           (let e2 = set_pending (Mask d now None False None False) e1
                            in finish now (e2\<lparr>out := (out e2)
                                  \<lparr>o_slate_change := o_slate_change (out e2) + 1,
                                   o_mask_visible := True\<rparr>\<rparr>)))
                 else if d < o_delay (out e1) then finish now (set_pending (Reduce d) e1)
                 else finish now e1)))"

definition run_command :: "nat \<Rightarrow> command \<Rightarrow> engine \<Rightarrow> engine \<times> (engine_error + ack)" where
  "run_command now cmd e =
     (case cmd of
        SetDelay ms mode \<Rightarrow>
          if max_delay_ms (config e) < ms then (e, Inl (TooLarge ms (max_delay_ms (config e))))
          else (case check_memory ms e of
                  Some err \<Rightarrow> (e, Inl err)
                | None \<Rightarrow> cmd_set_delay now ms mode (clear_notes e))
      | GoLive when \<Rightarrow> finish now (cmd_go_live when (clear_notes e))
      | Cancel \<Rightarrow> finish now (cmd_cancel e)
      | DumpCmd mode cover \<Rightarrow> cmd_dump now mode cover (clear_notes e)
      | SlateShown change \<Rightarrow> finish now (cmd_slate_shown now change e))"

end
