(* ===== verification/Engine_Output.thy ===== *)
theory Engine_Output
  imports Engine_Command
begin

text \<open>
  The output's life: connecting and losing the destination, what was queued but never sent,
  the end of a broadcast and the operations that throw the buffer away.
\<close>

definition output_connected :: "nat \<Rightarrow> engine \<Rightarrow> nat \<times> engine" where
  "output_connected now e =
     (let o0 = out e;
          e1 = e\<lparr>out := o0\<lparr>o_connected := True,
                 o_hold := (case o_hold o0 of
                              None \<Rightarrow> None
                            | Some h \<Rightarrow> Some (h\<lparr>hf_needs_headers := True, hf_next := now\<rparr>)),
                 o_generation := o_generation o0 + 1, o_fresh := True, o_last_out_ts := 0,
                 o_last_kind_ts := (\<lambda>_. None), o_last_pts := 0, o_sent_headers := [],
                 o_sent_metadata := None, o_first_emitted := None\<rparr>\<rparr>;
          holding = (case o_pending (out e1) of
                       Hold _ _ \<Rightarrow> True | Dump _ _ _ _ \<Rightarrow> True | _ \<Rightarrow> False);
          e2 = (if holding then ask_sync e1
                else if o_started (out e1)
                then (case sync_at_or_before e1 (o_next_seq (out e1)) of
                        Some k \<Rightarrow>
                          (let arrival = arrival_or now e1 k;
                               delay = max (o_delay (out e1)) (now - arrival);
                               e2 = e1\<lparr>out := (out e1)
                                      \<lparr>o_grew_on_reconnect :=
                                         (o_grew_on_reconnect (out e1) \<or> o_delay (out e1) < delay)\<rparr>\<rparr>;
                               e3 = back_under_max (splice_to k delay e2)
                           in if restore_after_reconnect (config e3) then back_to_target e3 else e3)
                      | None \<Rightarrow> ask_sync e1)
                else e1)
      in (o_generation (out e2), e2))"

text \<open>Where sending resumes: after the last message taken, or at the first one emitted.\<close>

definition resume_at :: "nat option \<Rightarrow> engine \<Rightarrow> engine" where
  "resume_at taken e =
     (case (case taken of Some s \<Rightarrow> Some (s + 1) | None \<Rightarrow> o_first_emitted (out e)) of
        None \<Rightarrow> e
      | Some r \<Rightarrow> move_to (min (o_next_seq (out e)) r) e)"

definition output_disconnected :: "nat option \<Rightarrow> engine \<Rightarrow> engine" where
  "output_disconnected last_written e =
     resume_at last_written (e\<lparr>out := (out e)\<lparr>o_connected := False\<rparr>\<rparr>)"

definition forget_sent :: "engine \<Rightarrow> engine" where
  "forget_sent e = e\<lparr>out := (out e)\<lparr>o_sent_headers := [], o_sent_metadata := None\<rparr>\<rparr>"

definition unsend :: "nat option \<Rightarrow> engine \<Rightarrow> engine" where
  "unsend taken e =
     (if \<not> o_connected (out e) then e else forget_sent (resume_at taken e))"

definition run_dump_after ::
  "nat \<Rightarrow> nat option \<Rightarrow> delay_mode \<Rightarrow> bool \<Rightarrow> engine \<Rightarrow> engine \<times> (engine_error + ack)" where
  "run_dump_after now taken mode cover e =
     (if can_dump e then run_command now (DumpCmd mode cover) (unsend taken e)
      else if \<not> o_connected (out e) then (e, Inl NothingToDump)
      else (let spliced = o_pending_headers (out e);
                lost = (case taken of
                          Some s \<Rightarrow> s + 1 < o_next_seq (out e)
                        | None \<Rightarrow> o_first_emitted (out e) \<noteq> None);
                e1 = (if lost \<and> \<not> spliced then ask_sync e else e)
            in (forget_sent e1, Inl NothingToDump)))"

definition output_reset :: "engine \<Rightarrow> engine" where
  "output_reset e =
     (let o0 = out e in
      e\<lparr>out := o0\<lparr>o_connected := False, o_started := False, o_need_sync := True,
                   o_current_session := None, o_next_seq := next_seq e,
                   o_delay := o_target o0, o_history_short := False, o_memory_short := False,
                   o_hold := None, o_slate_unconfirmed := False, o_cover_lost := False,
                   o_grew_on_reconnect := False, o_gate := None, o_end_mark := None,
                   o_mask_visible := (if covers (o_pending o0) then False else o_mask_visible o0),
                   o_pending := PendNone\<rparr>\<rparr>)"

definition discard :: "engine \<Rightarrow> engine" where
  "discard e = output_reset (drop_buffer e)"

definition end_after :: "nat \<Rightarrow> engine \<Rightarrow> engine" where
  "end_after s e = e\<lparr>out := (out e)\<lparr>o_end_mark := Some s\<rparr>\<rparr>"

definition cancel_end :: "engine \<Rightarrow> engine" where
  "cancel_end e = e\<lparr>out := (out e)\<lparr>o_end_mark := None\<rparr>\<rparr>"

definition restart_after_end :: "engine \<Rightarrow> engine" where
  "restart_after_end e =
     (let from = (case o_end_mark (out e) of None \<Rightarrow> next_seq e | Some m \<Rightarrow> m + 1);
          e1 = output_reset (drop_before from e)
      in move_to (max from (base_seq e1)) e1)"

definition set_keep_history :: "bool \<Rightarrow> engine \<Rightarrow> engine" where
  "set_keep_history b e = e\<lparr>config := (config e)\<lparr>keep_history := b\<rparr>\<rparr>"

definition set_restore_after_reconnect :: "bool \<Rightarrow> engine \<Rightarrow> engine" where
  "set_restore_after_reconnect b e = e\<lparr>config := (config e)\<lparr>restore_after_reconnect := b\<rparr>\<rparr>"

section \<open>The output stays within the buffer\<close>

text \<open>
  The cursor never passes the end of the buffer (what \<^verbatim>\<open>ring.drain\<close> in a dump's
  replay relies on), and an end mark is at something received.
\<close>

definition out_wf :: "engine \<Rightarrow> bool" where
  "out_wf e \<longleftrightarrow>
     cursor e \<le> next_seq e \<and> (\<forall>m. o_end_mark (out e) = Some m \<longrightarrow> m < next_seq e)"

lemma out_wf_frame:
  "out_wf e \<Longrightarrow> cursor e' = cursor e \<Longrightarrow> next_seq e' = next_seq e \<Longrightarrow>
   o_end_mark (out e') = o_end_mark (out e) \<Longrightarrow> out_wf e'"
  by (simp add: out_wf_def)

definition engine_wf :: "engine \<Rightarrow> bool" where
  "engine_wf e \<longleftrightarrow> buf_wf e \<and> out_wf e"

lemma engine_wf_buffer: "buffer_of e' = buffer_of e \<Longrightarrow> buf_wf e \<Longrightarrow> out_wf e' \<Longrightarrow> engine_wf e'"
  by (simp add: engine_wf_def buffer_of_wf [of e' e])

lemma next_seq_frame [simp]:
  "next_seq (put_pending p e) = next_seq e" "next_seq (set_pending p e) = next_seq e"
  "next_seq (back_under_max e) = next_seq e" "next_seq (back_to_target e) = next_seq e"
  "next_seq (run_pending now e) = next_seq e" "next_seq (move_to s e) = next_seq e"
  "next_seq (ask_sync e) = next_seq e" "next_seq (memory_short now e) = next_seq e"
  "next_seq (rewind now d e) = next_seq e" "next_seq (next_message e) = next_seq e"
  by (rule buffer_of_eqD, simp)+

lemma out_wf_splice: "ring_wf e \<Longrightarrow> out_wf e \<Longrightarrow> out_wf (splice_to k d e)"
proof -
  assume wf: "ring_wf e" and o: "out_wf e"
  show ?thesis
  proof (cases "entry e k")
    case None
    with o show ?thesis by (simp add: splice_to_None)
  next
    case (Some x)
    from entry_bounds [OF wf Some] o Some show ?thesis by (simp add: out_wf_def splice_to_cursor)
  qed
qed

lemma out_wf_pending [simp]:
  "out_wf (put_pending p e) = out_wf e" "out_wf (set_pending p e) = out_wf e"
  by (simp_all add: out_wf_def)

lemma out_wf_end_hold [simp]: "out_wf (end_hold now e) = out_wf e"
  by (simp add: out_wf_def)

lemma ring_wf_pend [simp]:
  "ring_wf (end_hold now e) = ring_wf e" "ring_wf (put_pending p e) = ring_wf e"
  "ring_wf (set_pending p e) = ring_wf e"
  by (simp_all add: end_hold_def put_pending_def set_pending_def Let_def split: option.split)

lemma out_wf_mask:
  assumes "out_wf e" and "mask_anchor now d started anchor mute shown dump e = (a, e1)"
  shows "out_wf e1" and "buffer_of e1 = buffer_of e"
proof -
  have "mask_from now started shown e = (b, e2) \<Longrightarrow> out_wf e2" for b e2
    using assms(1) by (auto simp: mask_from_def Let_def out_wf_def split: option.splits if_splits)
  then show "out_wf e1" using assms by (auto simp: mask_anchor_def split: option.splits prod.splits)
  show "buffer_of e1 = buffer_of e" by (rule buffer_of_mask_anchor [OF assms(2)])
qed

lemma out_wf_pending_step:
  assumes wf: "buf_wf e" and o: "out_wf e"
  shows "pending_step now e = Inl e' \<Longrightarrow> out_wf e'" and "pending_step now e = Inr e' \<Longrightarrow> out_wf e'"
proof -
  have r: "ring_wf e" using wf by (simp add: buf_wf_def)
  note sp = out_wf_splice [OF r o]
  have dump: "out_wf e'" if "run_dump now d started s shown e = Inl e' \<or>
      run_dump now d started s shown e = Inr e'" for d started s shown
    using that o out_wf_splice [of "end_hold now e"] r
    by (auto simp: run_dump_def Let_def out_wf_def split: option.splits if_splits)
  show "out_wf e'" if "pending_step now e = Inr e'"
    using that dump [OF disjI2] o by (auto simp: pending_step_def split: pending.splits if_splits)
  have live: "out_wf (run_go_live now s e)" for s
    using o sp by (auto simp: run_go_live_def out_wf_def split: option.split)
  have reduce: "out_wf (run_reduce now d e)" for d
    using o sp by (auto simp: run_reduce_def Let_def split: option.split)
  have hold: "out_wf (run_hold now s d e)" for s d
    using o out_wf_splice [of "end_hold now e"] r
    by (auto simp: run_hold_def Let_def out_wf_def split: option.split)
  have replay: "out_wf (run_replay now s d e)" for s d
    using o sp by (auto simp: run_replay_def Let_def split: option.split)
  have mask: "out_wf (run_mask now d started anchor mute shown dump e)"
    for d started anchor mute shown dump
  proof (cases "mask_anchor now d started anchor mute shown dump e")
    case (Pair a e1)
    note m = out_wf_mask [OF o Pair]
    have "ring_wf e1" using buffer_of_wf [OF m(2)] wf by (simp add: buf_wf_def)
    with m(1) Pair out_wf_splice [of e1] show ?thesis
      by (auto simp: run_mask_def split: option.split)
  qed
  show "out_wf e'" if "pending_step now e = Inl e'"
    using that o live reduce hold replay mask dump [OF disjI1]
    by (auto simp: pending_step_def split: pending.splits if_splits)
qed

lemma run_pending_wf:
  assumes "engine_wf e" shows "engine_wf (run_pending now e)"
proof (rule run_pending_keeps [of engine_wf, OF assms])
  show "engine_wf e'" if "engine_wf e" "pending_step now e = Inl e'" for e e'
    using that out_wf_pending_step(1) [of e now e'] buffer_of_wf [OF buffer_of_pending_step(1)]
    by (auto simp: engine_wf_def)
  show "engine_wf e'" if "engine_wf e" "pending_step now e = Inr e'" for e e'
    using that out_wf_pending_step(2) [of e now e'] buffer_of_wf [OF buffer_of_pending_step(2)]
    by (auto simp: engine_wf_def)
qed

end
