(* ===== verification/Engine_Ingest.thy ===== *)
theory Engine_Ingest
  imports Engine_Evict
begin

text \<open>
  The publisher's side of the engine: \<^verbatim>\<open>ingest_start\<close>, \<^verbatim>\<open>ingest_end\<close>,
  \<^verbatim>\<open>ingest_metadata\<close> and \<^verbatim>\<open>ingest\<close>, which classifies a message, keeps
  decoder configuration within its budget, appends to the ring and evicts; and that each
  keeps the buffer's invariant.
\<close>

section \<open>Sessions\<close>

definition new_session :: "nat \<Rightarrow> session" where
  "new_session i =
     \<lparr>s_id = i, s_headers = [], s_metadata = None, s_has_video = False,
      s_last_video_ts = None, s_frame_ms = 33\<rparr>"

definition drop_idle_session :: "engine \<Rightarrow> engine" where
  "drop_idle_session e =
     (case last_opt (sessions e) of
        None \<Rightarrow> e
      | Some l \<Rightarrow>
          if (case last_opt (ring e) of None \<Rightarrow> True | Some x \<Rightarrow> e_session x \<noteq> s_id l)
          then e\<lparr>sessions := butlast (sessions e)\<rparr> else e)"

definition ingest_start :: "engine \<Rightarrow> nat \<times> engine" where
  "ingest_start e0 =
     (let e1 = (if \<not> o_started (out e0) then drop_buffer e0 else e0);
          e2 = drop_idle_session e1;
          i = next_session e2;
          e3 = count_sessions
                 (e2\<lparr>next_session := i + 1, sessions := sessions e2 @ [new_session i]\<rparr>)
      in (i, e3\<lparr>ingest_active := True, stats := new_tracker\<rparr>))"

definition ingest_end :: "engine \<Rightarrow> engine" where
  "ingest_end e = e\<lparr>ingest_active := False\<rparr>"

definition ingest_metadata :: "bytes \<Rightarrow> engine \<Rightarrow> engine" where
  "ingest_metadata payload e =
     (if MAX_METADATA_BYTES < length payload \<or> sessions e = [] then e
      else count_sessions
             (e\<lparr>sessions := map_last (\<lambda>s. s\<lparr>s_metadata := Some payload\<rparr>) (sessions e)\<rparr>))"

section \<open>One message\<close>

record media_info =
  mi_sync :: bool
  mi_config :: "u16 option"
  mi_cts :: int
  mi_hevc_nal :: "u8 option"
  mi_nal_offset :: "nat option"

definition plain_media :: media_info where
  "plain_media =
     \<lparr>mi_sync = False, mi_config = None, mi_cts = 0, mi_hevc_nal = None, mi_nal_offset = None\<rparr>"

definition measure_frame :: "nat \<Rightarrow> session \<Rightarrow> session" where
  "measure_frame ts s =
     (case s_last_video_ts s of
        None \<Rightarrow> s
      | Some l \<Rightarrow> if 1 \<le> ts - l \<and> ts - l \<le> 200 then s\<lparr>s_frame_ms := ts - l\<rparr> else s)"

text \<open>The \<^verbatim>\<open>match kind\<close> of \<^verbatim>\<open>ingest\<close>.\<close>

definition look_at ::
  "nat \<Rightarrow> kind \<Rightarrow> nat \<Rightarrow> bytes \<Rightarrow> tracker \<Rightarrow> session \<Rightarrow> tracker \<times> session \<times> media_info" where
  "look_at now k ts payload t s =
     (case k of
        Video \<Rightarrow>
          (case inspect_video payload of
             None \<Rightarrow> (t, s, plain_media)
           | Some i \<Rightarrow>
               (let s = s\<lparr>s_has_video := True\<rparr>;
                    s = (if vi_config i then s
                         else (measure_frame ts s)\<lparr>s_last_video_ts := Some ts\<rparr>)
                in (tracker_video now i ts t, s,
                    \<lparr>mi_sync = vi_keyframe i,
                     mi_config = (if vi_config i then Some (vi_config_class i) else None),
                     mi_cts = vi_composition_time i, mi_hevc_nal = vi_hevc_nal_type i,
                     mi_nal_offset = vi_nal_offset i\<rparr>)))
      | Audio \<Rightarrow>
          (case inspect_audio payload of
             None \<Rightarrow> (t, s, plain_media)
           | Some i \<Rightarrow>
               (tracker_audio i t, s,
                if ai_config i then plain_media\<lparr>mi_config := Some (ai_config_class i)\<rparr>
                else plain_media\<lparr>mi_sync := \<not> s_has_video s\<rparr>))
      | Data \<Rightarrow> (t, s, plain_media))"

text \<open>An unchanged repeat of the last configuration of its kind and class is not kept.\<close>

definition repeats :: "kind \<Rightarrow> u16 \<Rightarrow> bytes \<Rightarrow> header_rec list \<Rightarrow> bool" where
  "repeats k c payload hs =
     (case find_last (\<lambda>h. h_kind h = k \<and> h_class h = c) hs of
        None \<Rightarrow> False | Some h \<Rightarrow> h_payload h = payload)"

text \<open>The oldest go, to make room for \<open>new\<close> more bytes within the count and the budget.\<close>

fun trim_headers :: "nat \<Rightarrow> nat \<Rightarrow> header_rec list \<Rightarrow> header_rec list" where
  "trim_headers budget new [] = []"
| "trim_headers budget new (h # hs) =
     (if MAX_HEADERS \<le> length (h # hs) \<or> budget < sum_list (map header_cost (h # hs)) + new
      then trim_headers budget new hs else h # hs)"

definition keep_header :: "nat \<Rightarrow> nat \<Rightarrow> kind \<Rightarrow> u16 \<Rightarrow> bytes \<Rightarrow> session \<Rightarrow> session" where
  "keep_header budget s k c payload ses =
     (if \<not> repeats k c payload (s_headers ses) \<and> length payload \<le> MAX_HEADER_BYTES \<and>
         cost (length payload) \<le> budget
      then ses\<lparr>s_headers :=
             trim_headers budget (cost (length payload)) (s_headers ses) @
             [\<lparr>h_seq = s, h_kind = k, h_class = c, h_payload = payload\<rparr>]\<rparr>
      else ses)"

definition ingest :: "nat \<Rightarrow> kind \<Rightarrow> nat \<Rightarrow> bytes \<Rightarrow> engine \<Rightarrow> engine" where
  "ingest now k ts payload e =
     (if \<not> ingest_active e \<or> payload = [] then e
      else (case last_opt (sessions e) of
              None \<Rightarrow> e
            | Some s \<Rightarrow>
                (case look_at now k ts payload (stats e) s of
                   (t1, s1, mi) \<Rightarrow>
                     (let sq = next_seq e;
                          budget = ram_cap_bytes (config e) div HEADER_SHARE_OF_RAM_CAP;
                          s2 = (case mi_config mi of
                                  None \<Rightarrow> s1 | Some c \<Rightarrow> keep_header budget sq k c payload s1);
                          e1 = e\<lparr>next_seq := sq + 1,
                                 sessions := map_last (\<lambda>_. s2) (sessions e),
                                 syncs := (if mi_sync mi then syncs e @ [sq] else syncs e),
                                 stats := tracker_bytes now (length payload) t1,
                                 bytes_held := bytes_held e + cost (length payload)\<rparr>;
                          e2 = (if mi_config mi \<noteq> None then count_sessions e1 else e1)
                      in evict now
                           (e2\<lparr>ring := ring e2 @
                              [\<lparr>e_seq = sq, e_arrival = now, e_session = s_id s2, e_kind = k,
                                e_ts = ts, e_payload = payload, e_sync = mi_sync mi,
                                e_config = mi_config mi, e_cts = mi_cts mi,
                                e_hevc_nal = mi_hevc_nal mi, e_nal_offset = mi_nal_offset mi\<rparr>]\<rparr>)))))"

section \<open>The invariant is kept\<close>

lemma last_opt_snoc: "last_opt xs = Some x \<Longrightarrow> xs = butlast xs @ [x]"
  by (auto simp: last_opt_def split: if_splits)

lemma sessions_below_last:
  assumes "sorted_wrt (<) (map s_id ss)" and "last_opt ss = Some l" and "s \<in> set ss"
  shows "s_id s \<le> s_id l"
proof -
  have "ss = butlast ss @ [l]" using assms(2) by (rule last_opt_snoc)
  then have "sorted_wrt (<) (map s_id (butlast ss @ [l]))" and "s \<in> set (butlast ss @ [l])"
    using assms(1,3) by metis+
  then show ?thesis by (auto simp: sorted_wrt_append)
qed

lemma drop_idle_session_wf:
  assumes "buf_wf e"
  shows "buf_wf (count_sessions (drop_idle_session e))"
proof (cases "drop_idle_session e = e")
  case True
  have "count_sessions e = e"
    using assms by (simp add: count_sessions_def buf_wf_def sessions_wf_def)
  with True assms show ?thesis by simp
next
  case False
  then obtain l where l: "last_opt (sessions e) = Some l"
    and rear: "case last_opt (ring e) of None \<Rightarrow> True | Some x \<Rightarrow> e_session x \<noteq> s_id l"
    and e': "drop_idle_session e = e\<lparr>sessions := butlast (sessions e)\<rparr>"
    by (auto simp: drop_idle_session_def split: option.splits if_splits)
  have wf: "sorted_wrt (<) (map s_id (sessions e))" "sorted (map e_session (ring e))"
    "\<forall>x \<in> set (ring e). e_session x \<in> s_id ` set (sessions e)"
    using assms by (auto simp: buf_wf_def sessions_wf_def)
  have parts: "sessions e = butlast (sessions e) @ [l]" using l by (rule last_opt_snoc)
  have ids: "s_id s < s_id l" if "s \<in> set (butlast (sessions e))" for s
  proof -
    have "sorted_wrt (<) (map s_id (butlast (sessions e) @ [l]))" unfolding parts [symmetric] by (rule wf(1))
    with that show ?thesis by (auto simp: sorted_wrt_append)
  qed
  have no_use: "e_session x \<noteq> s_id l" if x: "x \<in> set (ring e)" for x
  proof
    assume eq: "e_session x = s_id l"
    obtain y where y: "last_opt (ring e) = Some y" using x by (cases "last_opt (ring e)") auto
    have ring: "ring e = butlast (ring e) @ [y]" using y by (rule last_opt_snoc)
    have "sorted (map e_session (butlast (ring e) @ [y]))" unfolding ring [symmetric] by (rule wf(2))
    moreover have "x \<in> set (butlast (ring e) @ [y])" unfolding ring [symmetric] by (rule x)
    ultimately have "e_session x \<le> e_session y" by (auto simp: sorted_append)
    moreover have "e_session y \<le> s_id l"
      using wf(3) last_opt_in [OF y] sessions_below_last [OF wf(1) l] by fastforce
    ultimately have "e_session y = s_id l" using eq by simp
    with rear y show False by simp
  qed
  have "butlast (sessions e) = filter (\<lambda>s. s_id s \<noteq> s_id l) (sessions e)"
  proof -
    have "filter (\<lambda>s. s_id s \<noteq> s_id l) (butlast (sessions e)) = butlast (sessions e)"
      using ids by (fastforce simp: filter_id_conv)
    then have "filter (\<lambda>s. s_id s \<noteq> s_id l) (butlast (sessions e) @ [l]) = butlast (sessions e)"
      by simp
    with parts show ?thesis by metis
  qed
  moreover have "buf_wf (count_sessions (e\<lparr>sessions := filter (\<lambda>s. s_id s \<noteq> s_id l) (sessions e)\<rparr>))"
    by (rule filter_sessions_wf [OF assms]) (use no_use in blast)
  ultimately show ?thesis using e' by simp
qed

lemma add_session_wf:
  assumes wf: "buf_wf (count_sessions e)" and i: "s_id n = next_session e" and fit: "headers_fit (config e) n"
  shows "buf_wf (count_sessions (e\<lparr>next_session := next_session e + 1, sessions := sessions e @ [n]\<rparr>))"
proof -
  have "ring_wf (count_sessions (e\<lparr>next_session := next_session e + 1, sessions := sessions e @ [n]\<rparr>))"
    using wf by (auto simp: buf_wf_def intro: ring_wf_frame)
  moreover have "sessions_wf (count_sessions (e\<lparr>next_session := next_session e + 1,
      sessions := sessions e @ [n]\<rparr>))"
    using wf i fit by (auto simp: buf_wf_def sessions_wf_def sorted_wrt_append less_Suc_eq)
  ultimately show ?thesis by (simp add: buf_wf_def)
qed

lemma buf_wf_frame:
  "buf_wf e \<Longrightarrow> buf_wf (e\<lparr>ingest_active := b, stats := t\<rparr>)" "buf_wf e \<Longrightarrow> buf_wf (e\<lparr>ingest_active := b\<rparr>)"
  by (simp_all add: buf_wf_def ring_wf_def sessions_wf_def)

lemma ingest_start_wf:
  assumes "buf_wf e" shows "buf_wf (snd (ingest_start e))"
proof -
  let ?e1 = "if \<not> o_started (out e) then drop_buffer e else e"
  have "buf_wf ?e1" using assms by (simp add: drop_buffer_wf)
  then have "buf_wf (count_sessions (drop_idle_session ?e1))" by (rule drop_idle_session_wf)
  from add_session_wf [OF this, of "new_session (next_session (drop_idle_session ?e1))"]
  show ?thesis
    by (simp add: ingest_start_def Let_def buf_wf_frame new_session_def headers_fit_def)
qed

lemma ingest_end_wf: "buf_wf e \<Longrightarrow> buf_wf (ingest_end e)"
  by (simp add: ingest_end_def buf_wf_frame)

lemma map_last_wf:
  assumes wf: "buf_wf e" and l: "last_opt (sessions e) = Some l"
    and "s_id s' = s_id l" and "headers_fit (config e) s'"
  shows "buf_wf (count_sessions (e\<lparr>sessions := map_last (\<lambda>_. s') (sessions e)\<rparr>))"
proof -
  have m: "map_last (\<lambda>_. s') (sessions e) = butlast (sessions e) @ [s']"
    using l by (auto simp: map_last_def)
  have parts: "sessions e = butlast (sessions e) @ [l]" using l by (rule last_opt_snoc)
  have ids: "map s_id (map_last (\<lambda>_. s') (sessions e)) = map s_id (sessions e)"
  proof -
    have "map s_id (butlast (sessions e) @ [s']) = map s_id (butlast (sessions e) @ [l])"
      using assms(3) by simp
    then show ?thesis unfolding m parts [symmetric] .
  qed
  have set_ids: "s_id ` set (map_last (\<lambda>_. s') (sessions e)) = s_id ` set (sessions e)"
    by (simp only: set_map [symmetric] ids)
  have "l \<in> set (sessions e)" using l by (rule last_opt_in)
  then have "s_id s' < next_session e"
    using wf assms(3) by (auto simp: buf_wf_def sessions_wf_def)
  moreover have "\<forall>s \<in> set (butlast (sessions e)). s_id s < next_session e \<and> headers_fit (config e) s"
    using wf by (auto simp: buf_wf_def sessions_wf_def dest: in_set_butlastD)
  ultimately have "\<forall>s \<in> set (map_last (\<lambda>_. s') (sessions e)). s_id s < next_session e \<and> headers_fit (config e) s"
    using assms(4) m by auto
  then show ?thesis
    using wf ids set_ids by (auto simp: buf_wf_def sessions_wf_def ring_wf_def)
qed

lemma ingest_metadata_wf:
  assumes "buf_wf e" shows "buf_wf (ingest_metadata payload e)"
proof (cases "MAX_METADATA_BYTES < length payload \<or> sessions e = []")
  case False
  then obtain l where l: "last_opt (sessions e) = Some l" by (cases "last_opt (sessions e)") auto
  have "l \<in> set (sessions e)" using l by (rule last_opt_in)
  then have "headers_fit (config e) (l\<lparr>s_metadata := Some payload\<rparr>)"
    using assms False by (auto simp: buf_wf_def sessions_wf_def headers_fit_def)
  from map_last_wf [OF assms l _ this]
  have "buf_wf (count_sessions (e\<lparr>sessions :=
      map_last (\<lambda>_. l\<lparr>s_metadata := Some payload\<rparr>) (sessions e)\<rparr>))" by simp
  moreover have "map_last (\<lambda>_. l\<lparr>s_metadata := Some payload\<rparr>) (sessions e) =
      map_last (\<lambda>s. s\<lparr>s_metadata := Some payload\<rparr>) (sessions e)"
    using l by (auto simp: map_last_def last_opt_def split: if_splits)
  ultimately show ?thesis using False by (simp add: ingest_metadata_def)
qed (simp add: ingest_metadata_def assms)

section \<open>One message keeps it\<close>

lemma trim_headers_fits:
  assumes "new \<le> budget" and "hs' = trim_headers budget new hs"
  shows "length hs' < MAX_HEADERS \<and> sum_list (map header_cost hs') + new \<le> budget"
  unfolding assms(2) using assms(1)
  by (induction budget new hs rule: trim_headers.induct) (auto simp: MAX_HEADERS_def)

lemma keep_header_fits:
  assumes "headers_fit c ses"
  shows "headers_fit c (keep_header (ram_cap_bytes c div HEADER_SHARE_OF_RAM_CAP) s k cl payload ses)"
  using assms trim_headers_fits [OF _ refl, of "cost (length payload)"
      "ram_cap_bytes c div HEADER_SHARE_OF_RAM_CAP" "s_headers ses"]
  by (auto simp: keep_header_def headers_fit_def header_cost_def)

lemma keep_header_id [simp]: "s_id (keep_header b s k c p ses) = s_id ses"
  by (simp add: keep_header_def)

lemma measure_frame_same [simp]:
  "s_id (measure_frame ts s) = s_id s" "s_headers (measure_frame ts s) = s_headers s"
  "s_metadata (measure_frame ts s) = s_metadata s"
  by (simp_all add: measure_frame_def split: option.split)

lemma look_at_session:
  assumes "look_at now k ts payload t s = (t1, s1, mi)"
  shows "s_id s1 = s_id s" "s_headers s1 = s_headers s" "s_metadata s1 = s_metadata s"
  using assms by (auto simp: look_at_def Let_def split: kind.splits option.splits)

lemma look_at_sync_config:
  "look_at now k ts payload t s = (t1, s1, mi) \<Longrightarrow> mi_sync mi \<Longrightarrow> mi_config mi = None"
  by (auto simp: look_at_def Let_def plain_media_def video_info_ok_def
      split: kind.splits option.splits if_splits dest: inspect_video_ok)

text \<open>A message that is taken is appended, with its arrival time, before the eviction.\<close>

lemma ingest_appends:
  assumes wf: "buf_wf e" and taken: "\<not> (\<not> ingest_active e \<or> payload = [] \<or> last_opt (sessions e) = None)"
  obtains e2 x where "ingest now k ts payload e = evict now e2" and "buf_wf e2"
    and "ring e2 = ring e @ [x]" and "e_arrival x = now" and "e_seq x = next_seq e"
    and "e_payload x = payload" and "e_kind x = k" and "next_seq e2 = next_seq e + 1"
    and "base_seq e2 = base_seq e" and "out e2 = out e" and "config e2 = config e"
proof -
  from taken obtain s where s: "last_opt (sessions e) = Some s" by (cases "last_opt (sessions e)") auto
  obtain t1 s1 mi where look: "look_at now k ts payload (stats e) s = (t1, s1, mi)"
    by (metis prod_cases3)
  define s2 where "s2 = (case mi_config mi of None \<Rightarrow> s1
    | Some c \<Rightarrow> keep_header (ram_cap_bytes (config e) div HEADER_SHARE_OF_RAM_CAP) (next_seq e) k c payload s1)"
  define x where "x = \<lparr>e_seq = next_seq e, e_arrival = now, e_session = s_id s2, e_kind = k,
      e_ts = ts, e_payload = payload, e_sync = mi_sync mi, e_config = mi_config mi,
      e_cts = mi_cts mi, e_hevc_nal = mi_hevc_nal mi, e_nal_offset = mi_nal_offset mi\<rparr>"
  define e1 where "e1 = e\<lparr>sessions := map_last (\<lambda>_. s2) (sessions e)\<rparr>"
  define e2 where "e2 = (count_sessions e1)\<lparr>next_seq := next_seq e + 1,
      syncs := (if mi_sync mi then syncs e @ [next_seq e] else syncs e),
      stats := tracker_bytes now (length payload) t1,
      bytes_held := bytes_held e + cost (length payload), ring := ring e @ [x]\<rparr>"
  note ls = look_at_session [OF look]
  have id: "s_id s2 = s_id s" using ls by (simp add: s2_def split: option.split)
  have "headers_fit (config e) s"
    using wf last_opt_in [OF s] by (auto simp: buf_wf_def sessions_wf_def)
  then have "headers_fit (config e) s1" using ls by (simp add: headers_fit_def)
  then have fit: "headers_fit (config e) s2"
    by (auto simp: s2_def keep_header_fits split: option.split)
  have wf1: "buf_wf (count_sessions e1)"
    unfolding e1_def by (rule map_last_wf [OF wf s id fit])
  have "s2 \<in> set (sessions e1)" using s by (auto simp: e1_def map_last_def)
  then have "s_id s2 \<in> s_id ` set (sessions e1)" by (rule imageI)
  then have in_sessions: "s_id s \<in> s_id ` set (sessions e1)" by (simp add: id)
  have "e_session y \<le> s_id s" if "y \<in> set (ring e)" for y
  proof -
    have "sorted_wrt (<) (map s_id (sessions e))" and "e_session y \<in> s_id ` set (sessions e)"
      using wf that by (auto simp: buf_wf_def sessions_wf_def)
    with sessions_below_last [OF _ s] show ?thesis by auto
  qed
  moreover have "entry_ok x"
    using taken look_at_sync_config [OF look] by (auto simp: x_def entry_ok_def)
  ultimately have "buf_wf e2"
    using wf1 in_sessions id
    by (auto simp: buf_wf_def ring_wf_def sessions_wf_def e2_def e1_def x_def sorted_append
        entry_cost_def)
  moreover have "ingest now k ts payload e = evict now e2"
  proof -
    have "session_cost s2 = session_cost s" if "mi_config mi = None"
      using that ls by (simp add: s2_def session_cost_def)
    moreover have "sessions e = butlast (sessions e) @ [s]" using s by (rule last_opt_snoc)
    moreover have "map_last (\<lambda>_. s2) (sessions e) = butlast (sessions e) @ [s2]"
      using s by (auto simp: map_last_def)
    moreover have "session_bytes e = sum_list (map session_cost (sessions e))"
      using wf by (simp add: buf_wf_def sessions_wf_def)
    ultimately have same: "sum_list (map session_cost (map_last (\<lambda>_. s2) (sessions e))) = session_bytes e"
      if "mi_config mi = None"
      using that by (metis (no_types, lifting) list.simps(8,9) map_append)
    let ?E = "e\<lparr>next_seq := next_seq e + 1, sessions := map_last (\<lambda>_. s2) (sessions e),
        syncs := (if mi_sync mi then syncs e @ [next_seq e] else syncs e),
        stats := tracker_bytes now (length payload) t1,
        bytes_held := bytes_held e + cost (length payload)\<rparr>"
    let ?F = "if mi_config mi \<noteq> None then count_sessions ?E else ?E"
    have "ingest now k ts payload e = evict now (?F\<lparr>ring := ring ?F @ [x]\<rparr>)"
      using taken s look by (simp add: ingest_def Let_def x_def s2_def)
    also have "?F\<lparr>ring := ring ?F @ [x]\<rparr> = e2"
      using same by (cases e; cases "mi_config mi") (simp_all add: e2_def e1_def count_sessions_def)
    finally show ?thesis .
  qed
  moreover have "ring e2 = ring e @ [x]" "e_arrival x = now" "e_seq x = next_seq e"
    "e_payload x = payload" "e_kind x = k" "next_seq e2 = next_seq e + 1" "base_seq e2 = base_seq e"
    "out e2 = out e" "config e2 = config e"
    by (simp_all add: e2_def e1_def x_def)
  ultimately show ?thesis using that by blast
qed

lemma ingest_ignored:
  "\<not> ingest_active e \<or> payload = [] \<or> last_opt (sessions e) = None \<Longrightarrow>
   ingest now k ts payload e = e"
  by (auto simp: ingest_def)

lemma ingest_wf: "buf_wf e \<Longrightarrow> buf_wf (ingest now k ts payload e)"
  by (metis ingest_appends ingest_ignored evict_wf)

end
