(* ===== verification/Engine_Reach.thy ===== *)
theory Engine_Reach
  imports Engine_Output Engine_Ingest
begin

text \<open>
  Every operation of the engine keeps its invariant, so every state the engine reaches has
  it; and no operation brings back what was dropped.
\<close>

section \<open>Dumps\<close>

lemma sum_list_take_drop: "sum_list (map f xs) - sum_list (map f (drop n xs)) = sum_list (map f (take n xs))"
  for f :: "'a \<Rightarrow> nat"
proof -
  have "sum_list (map f xs) = sum_list (map f (take n xs)) + sum_list (map f (drop n xs))"
    by (metis append_take_drop_id map_append sum_list_append)
  then show ?thesis by simp
qed

lemma cut_from_wf:
  assumes wf: "buf_wf e" and q: "base_seq e \<le> q" "q \<le> next_seq e"
  shows "buf_wf (cut_from q e)"
proof -
  let ?n = "q - base_seq e"
  have r: "map e_seq (ring e) = [base_seq e..<next_seq e]" "bytes_held e = sum_list (map entry_cost (ring e))"
    "syncs e = map e_seq (filter e_sync (ring e))" "\<forall>x \<in> set (ring e). entry_ok x"
    using wf by (auto simp: buf_wf_def ring_wf_def)
  have take: "map e_seq (take ?n (ring e)) = [base_seq e..<q]"
  proof -
    have "map e_seq (take ?n (ring e)) = take ?n [base_seq e..<next_seq e]"
      using r(1) by (metis take_map)
    also have "\<dots> = [base_seq e..<q]" using q by (simp add: take_upt)
    finally show ?thesis .
  qed
  have "filter (\<lambda>s. s < q) (map e_seq (filter e_sync (ring e))) = map e_seq (filter e_sync (take ?n (ring e)))"
  proof -
    have below: "e_seq x < q" if "x \<in> set (take ?n (ring e))" for x
      using arg_cong [OF take, of set] that by auto
    have "map e_seq (drop ?n (ring e)) = [q..<next_seq e]"
      using r(1) q by (simp add: drop_map [symmetric])
    from arg_cong [OF this, of set] have eq: "e_seq ` set (drop ?n (ring e)) = {q..<next_seq e}" by simp
    have above: "\<not> e_seq x < q" if "x \<in> set (drop ?n (ring e))" for x
      using imageI [OF that, of e_seq] unfolding eq by simp
    have "filter (\<lambda>x. e_seq x < q \<and> e_sync x) (take ?n (ring e)) = filter e_sync (take ?n (ring e))"
      by (rule filter_cong) (use below in auto)
    moreover have "filter (\<lambda>x. e_seq x < q \<and> e_sync x) (drop ?n (ring e)) = []"
      using above by (auto simp: filter_empty_conv)
    moreover have "filter p (ring e) = filter p (take ?n (ring e)) @ filter p (drop ?n (ring e))" for p
      by (metis append_take_drop_id filter_append)
    ultimately show ?thesis by (simp add: filter_map o_def conj_commute)
  qed
  moreover have "sorted (map e_session (take ?n (ring e)))"
    using wf by (auto simp: buf_wf_def sessions_wf_def take_map [symmetric] sorted_wrt_take)
  ultimately show ?thesis
    using wf r take q
    by (auto simp: cut_from_def Let_def buf_wf_def ring_wf_def sessions_wf_def sum_list_take_drop
        dest: in_set_takeD)
qed

lemma cut_from_fields:
  "next_seq (cut_from q e) = q" "base_seq (cut_from q e) = base_seq e" "out (cut_from q e) = out e"
  "config (cut_from q e) = config e" "sessions (cut_from q e) = sessions e"
  "ingest_active (cut_from q e) = ingest_active e" "stats (cut_from q e) = stats e"
  "next_session (cut_from q e) = next_session e"
  by (simp_all add: cut_from_def Let_def)

lemma split_session_wf:
  assumes wf: "buf_wf e" shows "buf_wf (split_session s e)"
proof (cases "last_opt (sessions e)")
  case None
  with wf show ?thesis by (simp add: split_session_def)
next
  case (Some c)
  let ?n = "c\<lparr>s_id := next_session e,
      s_headers := map (\<lambda>h. h\<lparr>h_seq := min (h_seq h) (s - 1)\<rparr>) (s_headers c)\<rparr>"
  have "headers_fit (config e) c"
    using wf last_opt_in [OF Some] by (auto simp: buf_wf_def sessions_wf_def)
  then have "headers_fit (config e) ?n"
    by (simp add: headers_fit_def o_def header_cost_def [abs_def])
  moreover have "buf_wf (count_sessions e)"
    using wf by (simp add: count_sessions_def buf_wf_def sessions_wf_def ring_wf_def)
  ultimately show ?thesis
    using add_session_wf [of e ?n] Some by (simp add: split_session_def Let_def)
qed

lemma split_session_fields:
  "ring (split_session s e) = ring e" "next_seq (split_session s e) = next_seq e"
  "base_seq (split_session s e) = base_seq e" "out (split_session s e) = out e"
  "config (split_session s e) = config e" "syncs (split_session s e) = syncs e"
  "ingest_active (split_session s e) = ingest_active e" "stats (split_session s e) = stats e"
  by (simp_all add: split_session_def Let_def split: option.split)

lemma entry_split_session [simp]: "entry (split_session s e) t = entry e t"
  by (simp add: entry_def split_session_fields)

lemma replay_instead_wf:
  assumes wf: "engine_wf e" and mark: "o_end_mark (out e) = None" and "replay_instead now d e = Some e'"
  shows "engine_wf e'" and "base_seq e' = base_seq e"
    and "next_seq e' = max (cursor e) (base_seq e)"
proof -
  let ?q = "max (cursor e) (base_seq e)"
  let ?e1 = "set_pending (Replay ?q d) (split_session ?q (cut_from ?q e))"
  from assms(3) obtain k where k: "e' = splice_to k (now - arrival_or now ?e1 k) ?e1"
    by (auto simp: replay_instead_def Let_def split: option.splits)
  have b: "buf_wf e" and o: "out_wf e" using wf by (auto simp: engine_wf_def)
  have q: "base_seq e \<le> ?q" "?q \<le> next_seq e" using b o by (auto simp: out_wf_def buf_wf_def ring_wf_def)
  have "buf_wf (split_session ?q (cut_from ?q e))"
    by (rule split_session_wf [OF cut_from_wf [OF b q]])
  then have b1: "buf_wf ?e1" using buffer_of_wf [of ?e1 "split_session ?q (cut_from ?q e)"] by simp
  have "out_wf ?e1"
    using mark by (simp add: out_wf_def split_session_fields cut_from_fields)
  with b1 have "out_wf e'" unfolding k by (intro out_wf_splice) (simp_all add: buf_wf_def)
  moreover have "buf_wf e'" using b1 buffer_of_wf [of e' ?e1] by (simp add: k)
  ultimately show "engine_wf e'" by (simp add: engine_wf_def)
  have b2: "buffer_of e' = buffer_of (split_session ?q (cut_from ?q e))" by (simp add: k)
  show "base_seq e' = base_seq e"
    by (simp only: buffer_of_eqD(3) [OF b2] split_session_fields cut_from_fields)
  show "next_seq e' = ?q"
    by (simp only: buffer_of_eqD(4) [OF b2] split_session_fields cut_from_fields)
qed

lemma drop_buffer_engine_wf: "engine_wf e \<Longrightarrow> engine_wf (drop_buffer e)"
  by (auto simp: engine_wf_def out_wf_def drop_buffer_wf)

text \<open>\<open>keeps e e'\<close>: the invariant, and what was dropped stays dropped.\<close>

definition keeps :: "engine \<Rightarrow> engine \<Rightarrow> bool" where
  "keeps e e' \<longleftrightarrow> (engine_wf e \<longrightarrow> engine_wf e' \<and> base_seq e \<le> base_seq e')"

lemma keeps_refl [simp]: "keeps e e"
  by (simp add: keeps_def)

lemma keeps_trans [trans]: "keeps a b \<Longrightarrow> keeps b c \<Longrightarrow> keeps a c"
  by (auto simp: keeps_def)

lemma keeps_frame:
  assumes "buffer_of e' = buffer_of e" and "cursor e' = cursor e"
    and "o_end_mark (out e') = o_end_mark (out e)"
  shows "keeps e e'"
  using assms buffer_of_eqD [OF assms(1)] buffer_of_wf [OF assms(1)]
  by (auto simp: keeps_def engine_wf_def out_wf_def)

lemma keeps_run_pending: "keeps e (run_pending now e)"
  using run_pending_wf [of e now] buffer_of_eqD [OF buffer_of_run_pending [of now e]]
  by (simp add: keeps_def)

lemma keeps_splice: "keeps e (splice_to k d e)"
  using out_wf_splice [of e k d] buffer_of_wf [of "splice_to k d e" e]
  by (auto simp: keeps_def engine_wf_def buf_wf_def)

lemma keeps_set_pending: "keeps e (set_pending p e)" "keeps e (put_pending p e)"
  by (rule keeps_frame; simp)+

lemma back_under_max_out [simp]:
  "cursor (back_under_max e) = cursor e" "o_end_mark (out (back_under_max e)) = o_end_mark (out e)"
  "cursor (back_to_target e) = cursor e" "o_end_mark (out (back_to_target e)) = o_end_mark (out e)"
  by (auto simp: back_under_max_def back_to_target_def Let_def split: pending.split)

lemma keeps_back: "keeps e (back_under_max e)" "keeps e (back_to_target e)"
  by (rule keeps_frame; simp)+

lemma keeps_out:
  "o_next_seq o' = cursor e \<Longrightarrow> o_end_mark o' = o_end_mark (out e) \<Longrightarrow> keeps e (e\<lparr>out := o'\<rparr>)"
  by (rule keeps_frame) simp_all

lemma keeps_drop_buffer: "keeps e (drop_buffer e)"
  using drop_buffer_engine_wf [of e] by (auto simp: keeps_def engine_wf_def buf_wf_def ring_wf_def)

section \<open>Commands\<close>

lemma keeps_engine_dump: "keeps e (snd (engine_dump now mode cover e))"
proof (cases "\<not> o_started (out e) \<or> o_end_mark (out e) \<noteq> None \<or> \<not> ingest_active e")
  case True
  then show ?thesis
    using keeps_trans [OF keeps_drop_buffer keeps_set_pending(1), of e PendNone] keeps_drop_buffer [of e]
    by (auto simp: engine_dump_def)
next
  case False
  define e1 where "e1 = e\<lparr>out := (out e)\<lparr>o_history_short := False, o_target := dump_delay e\<rparr>\<rparr>"
  have k1: "keeps e e1" unfolding e1_def by (rule keeps_out) simp_all
  show ?thesis
  proof (cases "if mode = Rewind then replay_instead now (dump_delay e) e1 else None")
    case (Some e2)
    then have r: "replay_instead now (dump_delay e) e1 = Some e2" by (simp split: if_splits)
    have "o_end_mark (out e1) = None" using False by (simp add: e1_def)
    then have "keeps e1 e2" using replay_instead_wf [OF _ _ r] by (simp add: keeps_def)
    with k1 have "keeps e e2" by (rule keeps_trans)
    then show ?thesis
      using False Some unfolding engine_dump_def Let_def e1_def [symmetric] by simp
  next
    case None
    define e2 where "e2 = drop_buffer e1"
    have k2: "keeps e e2" unfolding e2_def using k1 keeps_drop_buffer by (rule keeps_trans)
    have "snd (engine_dump now mode cover e) = snd (let (outcome, e3) =
        (if cover then (DumpCover, (let e3 = set_pending (Dump (dump_delay e) now (next_seq e2) None) e2
                in e3\<lparr>out := (out e3)\<lparr>o_slate_change := o_slate_change (out e3) + 1,
                                       o_mask_visible := True\<rparr>\<rparr>))
         else (DumpHold, set_pending (Hold (next_seq e2) (dump_delay e)) e2))
        in (outcome, e3\<lparr>out := (out e3)\<lparr>o_hold := aired_keyframe now e1\<rparr>\<rparr>))"
      using False None unfolding engine_dump_def Let_def e1_def [symmetric] e2_def by simp
    also have "keeps e2 \<dots>"
      by (rule keeps_frame) (simp_all add: Let_def)
    finally have "keeps e2 (snd (engine_dump now mode cover e))" .
    with k2 show ?thesis by (rule keeps_trans)
  qed
qed

lemma keeps_rewind: "keeps e (rewind now d e)"
proof -
  have start: "keeps e (e\<lparr>out := (out e)\<lparr>o_history_short := True, o_history_then := n\<rparr>\<rparr>)" for n
    by (rule keeps_out) simp_all
  have go: "keeps e (if delay \<le> o_delay (out e1) then e1
      else let e2 = splice_to k delay e1 in
           if c e2 then set_pending (Reduce d) e2 else e2)"
    if "keeps e e1" for e1 delay k c
    using keeps_trans [OF that keeps_splice] keeps_trans [OF keeps_trans [OF that keeps_splice] keeps_set_pending(1)] that
    by (simp add: Let_def)
  show ?thesis
    using start go [OF keeps_refl] go [OF start]
    by (auto simp: rewind_def Let_def split: option.split)
qed

lemma keeps_clear_notes: "keeps e (clear_notes e)"
  unfolding clear_notes_def by (rule keeps_out) simp_all

lemma keeps_finish: "keeps e (fst (finish now e))"
  by (simp add: finish_def Let_def keeps_run_pending)

lemma keeps_go_live: "keeps e (cmd_go_live when e)"
  by (rule keeps_frame) (simp_all add: cmd_go_live_def Let_def)

lemma keeps_slate_shown: "keeps e (cmd_slate_shown now c e)"
  by (rule keeps_frame) (simp_all add: cmd_slate_shown_def split: pending.split option.split)

lemma keeps_cancel: "keeps e (cmd_cancel e)"
  by (rule keeps_frame) (simp_all add: cmd_cancel_def Let_def)

lemma keeps_cmd_dump: "keeps e (fst (cmd_dump now mode cover e))"
  using keeps_trans [OF keeps_engine_dump keeps_run_pending]
  by (auto simp: cmd_dump_def Let_def split: prod.split) (metis snd_conv)

lemma keeps_branches:
  "keeps e (fst x) \<Longrightarrow> keeps e (fst y) \<Longrightarrow> keeps e (fst (if c then x else y))"
  "(\<And>p. keeps e (fst (f p))) \<Longrightarrow> keeps e (fst x) \<Longrightarrow>
   keeps e (fst (case r of None \<Rightarrow> x | Some p \<Rightarrow> f p))"
  "keeps e (fst x) \<Longrightarrow> keeps e (fst y) \<Longrightarrow>
   keeps e (fst (case m of Rewind \<Rightarrow> x | MaskMode \<Rightarrow> y))"
  for x y :: "engine \<times> 'r"
  by (simp_all split: option.split delay_mode.split)

lemma keeps_set_delay: "keeps e (fst (cmd_set_delay now ms mode e))"
proof -
  define e1 where "e1 = set_pending PendNone
      (e\<lparr>out := (out e)\<lparr>o_target := ms * MS, o_history_short := False\<rparr>\<rparr>)"
  have e1: "keeps e e1" unfolding e1_def by (rule keeps_frame) simp_all
  have fin: "keeps e (fst (finish now e2))" if "keeps e1 e2" for e2
    using e1 that keeps_finish by (blast intro: keeps_trans)
  have early: "keeps e (fst (finish now (e\<lparr>out := (out e)\<lparr>o_pending := p, o_target := ms * MS,
      o_history_short := False\<rparr>\<rparr>)))" for p
    by (rule keeps_trans [OF keeps_out keeps_finish]) simp_all
  have start: "keeps e1 (e1\<lparr>out := (out e1)\<lparr>o_delay := d\<rparr>\<rparr>)" for d by (rule keeps_out) simp_all
  have mask: "keeps e1 (let e2 = set_pending p e1 in e2\<lparr>out := (out e2)
       \<lparr>o_slate_change := o_slate_change (out e2) + 1, o_mask_visible := True\<rparr>\<rparr>)" for p
    unfolding Let_def by (rule keeps_trans [OF keeps_set_pending(1) keeps_out]) simp_all
  have live: "keeps e1 (cmd_go_live Now (clear_notes e1))"
    by (rule keeps_trans [OF keeps_clear_notes keeps_go_live])
  note cases = fin [OF start] fin [OF live] fin [OF keeps_rewind] fin [OF mask, unfolded Let_def]
    fin [OF keeps_set_pending(1)] fin [OF keeps_refl]
  have same: "keeps e (fst (e, r))" for r :: "engine_error + ack" by simp
  show ?thesis
    unfolding cmd_set_delay_def Let_def e1_def [symmetric]
    by (intro keeps_branches early cases same)
qed

lemma keeps_command: "keeps e (fst (run_command now cmd e))"
  using keeps_trans [OF keeps_clear_notes keeps_set_delay] keeps_trans [OF keeps_clear_notes keeps_cmd_dump]
    keeps_trans [OF keeps_trans [OF keeps_clear_notes keeps_go_live] keeps_finish]
    keeps_trans [OF keeps_cancel keeps_finish] keeps_trans [OF keeps_slate_shown keeps_finish]
  by (simp add: run_command_def split: command.split option.split)

section \<open>The output's life\<close>

lemma keeps_cases:
  "keeps e x \<Longrightarrow> keeps e y \<Longrightarrow> keeps e (if c then x else y)"
  "(\<And>k. keeps e (f k)) \<Longrightarrow> keeps e x \<Longrightarrow> keeps e (case r of None \<Rightarrow> x | Some k \<Rightarrow> f k)"
  by (simp_all split: option.split)

lemma keeps_move_back: "s \<le> cursor e \<Longrightarrow> keeps e (move_to s e)"
  using buffer_of_wf [of "move_to s e" e] buffer_of_eqD(3) [of "move_to s e" e]
  by (auto simp: keeps_def engine_wf_def out_wf_def)

lemma keeps_ask_sync: "keeps e (ask_sync e)"
  by (rule keeps_frame) simp_all

lemma keeps_resume_at: "keeps e (resume_at taken e)"
  by (auto simp: resume_at_def keeps_move_back split: option.split)

lemma keeps_output_connected: "keeps e (snd (output_connected now e))"
proof -
  define e1 where "e1 = e\<lparr>out := (out e)\<lparr>o_connected := True,
                 o_hold := (case o_hold (out e) of
                              None \<Rightarrow> None
                            | Some h \<Rightarrow> Some (h\<lparr>hf_needs_headers := True, hf_next := now\<rparr>)),
                 o_generation := o_generation (out e) + 1, o_fresh := True, o_last_out_ts := 0,
                 o_last_kind_ts := (\<lambda>_. None), o_last_pts := 0, o_sent_headers := [],
                 o_sent_metadata := None, o_first_emitted := None\<rparr>\<rparr>"
  have k1: "keeps e e1" unfolding e1_def by (rule keeps_out) simp_all
  have grew: "keeps e1 (e1\<lparr>out := (out e1)\<lparr>o_grew_on_reconnect := b\<rparr>\<rparr>)" for b
    by (rule keeps_out) simp_all
  note spliced = keeps_trans [OF keeps_trans [OF grew keeps_splice] keeps_back(1)]
  have "keeps e1 (snd (output_connected now e))"
    unfolding output_connected_def Let_def e1_def [symmetric] snd_conv
    by (intro keeps_cases keeps_ask_sync keeps_refl spliced keeps_trans [OF spliced keeps_back(2)])
  with k1 show ?thesis by (rule keeps_trans)
qed

lemma keeps_output_disconnected: "keeps e (output_disconnected l e)"
  unfolding output_disconnected_def by (rule keeps_trans [OF keeps_out keeps_resume_at]) simp_all

lemma keeps_forget_sent: "keeps e (forget_sent e)"
  unfolding forget_sent_def by (rule keeps_out) simp_all

lemma keeps_unsend: "keeps e (unsend taken e)"
  by (simp add: unsend_def keeps_trans [OF keeps_resume_at keeps_forget_sent])

lemma keeps_dump_after: "keeps e (fst (run_dump_after now taken mode cover e))"
  using keeps_trans [OF keeps_unsend keeps_command] keeps_trans [OF keeps_ask_sync keeps_forget_sent]
    keeps_forget_sent
  by (simp add: run_dump_after_def Let_def)

lemma output_reset_fields:
  "buffer_of (output_reset e) = buffer_of e" "cursor (output_reset e) = next_seq e"
  "o_end_mark (out (output_reset e)) = None" "o_pending (out (output_reset e)) = PendNone"
  "o_started (out (output_reset e)) = False" "o_hold (out (output_reset e)) = None"
  "o_delay (out (output_reset e)) = o_target (out e)"
  "o_target (out (output_reset e)) = o_target (out e)"
  by (simp_all add: output_reset_def Let_def)

lemma keeps_output_reset: "keeps e (output_reset e)"
  using buffer_of_wf [OF output_reset_fields(1)] buffer_of_eqD [OF output_reset_fields(1), of e]
  by (auto simp: keeps_def engine_wf_def out_wf_def output_reset_fields)

lemma keeps_discard: "keeps e (discard e)"
  unfolding discard_def by (rule keeps_trans [OF keeps_drop_buffer keeps_output_reset])

lemma keeps_cancel_end: "keeps e (cancel_end e)"
  using buffer_of_wf [of "cancel_end e" e]
  by (auto simp: keeps_def engine_wf_def out_wf_def cancel_end_def)

lemma keeps_end_after: "s < next_seq e \<Longrightarrow> keeps e (end_after s e)"
  using buffer_of_wf [of "end_after s e" e]
  by (auto simp: keeps_def engine_wf_def out_wf_def end_after_def)

lemma keeps_restart_after_end: "keeps e (restart_after_end e)"
proof (cases "engine_wf e")
  case True
  define q where "q = (case o_end_mark (out e) of None \<Rightarrow> next_seq e | Some m \<Rightarrow> m + 1)"
  let ?e1 = "output_reset (drop_before q e)"
  have wf: "buf_wf e" and q: "q \<le> next_seq e"
    using True by (auto simp: engine_wf_def out_wf_def q_def split: option.split)
  have eq: "restart_after_end e = move_to (max q (base_seq ?e1)) ?e1"
    by (simp add: restart_after_end_def Let_def q_def)
  have b: "buffer_of (restart_after_end e) = buffer_of (drop_before q e)"
    by (simp add: eq output_reset_fields)
  note f = buffer_of_eqD [OF b]
  have "buf_wf (restart_after_end e)"
    using buffer_of_wf [OF b] drop_before_wf [OF wf] by simp
  moreover have "base_seq e \<le> next_seq e" using wf by (auto simp: buf_wf_def ring_wf_def)
  moreover have "base_seq ?e1 = max (base_seq e) (min q (next_seq e))"
    using buffer_of_eqD(3) [OF output_reset_fields(1)] drop_before_base [OF wf] by simp
  moreover have "o_end_mark (out (restart_after_end e)) = None"
    by (simp add: eq output_reset_fields)
  ultimately show ?thesis
    using q f by (auto simp: keeps_def engine_wf_def out_wf_def eq drop_before_base [OF wf])
qed (simp add: keeps_def)

lemma keeps_set_config:
  "keeps e (set_keep_history b e)" "keeps e (set_restore_after_reconnect b e)"
  by (auto simp: keeps_def engine_wf_def out_wf_def buf_wf_def ring_wf_def sessions_wf_def
      headers_fit_def set_keep_history_def set_restore_after_reconnect_def)

section \<open>The publisher\<close>

lemma keeps_memory_short: "keeps e (memory_short now e)"
  by (rule keeps_frame)
    (simp_all add: memory_short_def Let_def split: option.split pending.split)

lemma keeps_evict: "keeps e (evict now e)"
proof (cases "engine_wf e")
  case True
  define e1 where "e1 = snd (evict_loop now (keep_from now e) (restart_point e) False e)"
  have "behind e e1" unfolding e1_def by (rule behind_evict_loop) (use True in \<open>simp add: engine_wf_def\<close>)
  then have "keeps e e1" by (auto simp: keeps_def behind_def engine_wf_def out_wf_def)
  with keeps_memory_short [of e1 now] show ?thesis
    by (auto simp: evict_eq e1_def [symmetric] intro: keeps_trans)
qed (simp add: keeps_def)

lemma drop_idle_fields:
  "ring (drop_idle_session e) = ring e" "base_seq (drop_idle_session e) = base_seq e"
  "next_seq (drop_idle_session e) = next_seq e" "out (drop_idle_session e) = out e"
  by (auto simp: drop_idle_session_def split: option.split)

lemma keeps_ingest_start: "keeps e (snd (ingest_start e))"
proof -
  have "base_seq e \<le> next_seq e" if "engine_wf e"
    using that by (auto simp: engine_wf_def buf_wf_def ring_wf_def)
  then show ?thesis
    using ingest_start_wf [of e]
    by (auto simp: keeps_def engine_wf_def out_wf_def ingest_start_def Let_def drop_idle_fields)
qed

lemma keeps_ingest_end: "keeps e (ingest_end e)"
  using ingest_end_wf [of e] by (auto simp: keeps_def engine_wf_def out_wf_def ingest_end_def)

lemma keeps_ingest_metadata: "keeps e (ingest_metadata p e)"
  using ingest_metadata_wf [of e p]
  by (auto simp: keeps_def engine_wf_def out_wf_def ingest_metadata_def)

lemma keeps_ingest: "keeps e (ingest now k ts payload e)"
proof (cases "\<not> ingest_active e \<or> payload = [] \<or> last_opt (sessions e) = None \<or> \<not> engine_wf e")
  case True
  then show ?thesis by (auto simp: ingest_ignored keeps_def)
next
  case False
  then have wf: "buf_wf e" by (simp add: engine_wf_def)
  obtain e2 x where e2: "ingest now k ts payload e = evict now e2" "buf_wf e2"
    "next_seq e2 = next_seq e + 1" "base_seq e2 = base_seq e" "out e2 = out e"
    by (rule ingest_appends [OF wf, of payload]) (use False in auto)
  then have "keeps e e2" using False by (auto simp: keeps_def engine_wf_def out_wf_def)
  with keeps_evict [of e2 now] e2(1) show ?thesis by (auto intro: keeps_trans)
qed

section \<open>The output loop\<close>

lemma out_wf_move: "out_wf e \<Longrightarrow> s \<le> next_seq e \<Longrightarrow> out_wf (move_to s e)"
  by (simp add: out_wf_def)

lemma out_wf_buffer_fields:
  "out_wf e \<Longrightarrow> buffer_of e' = buffer_of e \<Longrightarrow> cursor e' \<le> next_seq e \<Longrightarrow>
   o_end_mark (out e') = o_end_mark (out e) \<Longrightarrow> out_wf e'"
  using buffer_of_eqD(4) [of e' e] by (simp add: out_wf_def)

lemma poll_sync_out_wf:
  assumes wf: "buf_wf e" and o: "out_wf e"
  shows "poll_sync now e = Go e' \<Longrightarrow> out_wf e'" and "poll_sync now e = Again e' \<Longrightarrow> out_wf e'"
    and "poll_sync now e = Break w e' \<Longrightarrow> out_wf e'"
proof -
  have sp: "out_wf (splice_to k d e)" for k d
    using out_wf_splice [OF _ o] wf by (auto simp: buf_wf_def)
  have under: "out_wf (back_under_max (splice_to k d e))" for k d
    using sp [of k d] by (simp add: out_wf_def)
  show "out_wf e'" if "poll_sync now e = Go e'"
    using that o sp under by (auto simp: poll_sync_def Let_def split: if_splits option.splits)
  show "out_wf e'" if "poll_sync now e = Break w e'"
    using that o sp under
    by (auto simp: poll_sync_def Let_def out_wf_def split: if_splits option.splits)
  show "out_wf e'" if again: "poll_sync now e = Again e'"
  proof -
    from again obtain x where x: "entry e (cursor e) = Some x"
      and "e' = move_to (next_session_start e (e_session x)) e"
      by (auto simp: poll_sync_def cursor_session_def Let_def split: if_splits option.splits)
    with next_session_start_forward [OF wf x] o show ?thesis by (simp add: out_wf_move)
  qed
qed

lemma poll_send_wf:
  assumes "engine_wf e"
  shows "poll_send fp now mx (e, outs, n) = Inr (e', outs', n') \<Longrightarrow> engine_wf e'"
    and "poll_send fp now mx (e, outs, n) = Inl (w, e', outs') \<Longrightarrow> engine_wf e'"
proof -
  show "engine_wf e'" if "poll_send fp now mx (e, outs, n) = Inl (w, e', outs')"
    using that assms by (auto simp: poll_send_def Let_def split: option.splits if_splits prod.splits)
  show "engine_wf e'" if sent: "poll_send fp now mx (e, outs, n) = Inr (e', outs', n')"
  proof -
    from sent obtain x where x: "entry e (cursor e) = Some x"
      by (auto simp: poll_send_def split: option.splits)
    have wf: "buf_wf e" and o: "out_wf e" using assms by (auto simp: engine_wf_def)
    have lt: "cursor e < next_seq e" using entry_bounds [OF _ x] wf by (auto simp: buf_wf_def)
    from sent x consider
        "e' = run_pending now (next_message (count_dropped e))"
      | e1 outs1 where "send_entry fp (e, outs) = (e1, outs1)" "e' = run_pending now (next_message e1)"
      by (auto simp: poll_send_def Let_def split: if_splits prod.splits)
    then show ?thesis
    proof cases
      case 1
      have "engine_wf (next_message (count_dropped e))"
        by (rule engine_wf_buffer [OF _ wf])
          (use o lt in \<open>simp_all add: count_dropped_def out_wf_def\<close>)
      with 1 run_pending_wf show ?thesis by simp
    next
      case 2
      note f = send_entry_quiet [OF 2(1), unfolded fst_conv]
      have "out_wf (next_message e1)"
        by (rule out_wf_buffer_fields [OF o]) (use f lt in simp_all)
      then have "engine_wf (next_message e1)"
        by (intro engine_wf_buffer [OF _ wf]) (simp_all add: f)
      with 2 run_pending_wf show ?thesis by simp
    qed
  qed
qed

lemma poll_media_wf:
  assumes w: "engine_wf e"
  shows "poll_media fp now mx (e, outs, n) = Inr (e', outs', n') \<Longrightarrow> engine_wf e'"
    and "poll_media fp now mx (e, outs, n) = Inl (wake, e', outs') \<Longrightarrow> engine_wf e'"
proof -
  let ?s = "skip_evicted e" let ?e = "note_session ?s"
  have wf: "buf_wf e" and o: "out_wf e" using w by (auto simp: engine_wf_def)
  have base: "base_seq e \<le> next_seq e" using wf by (auto simp: buf_wf_def ring_wf_def)
  have os: "out_wf ?s" using o base by (auto simp: skip_evicted_def out_wf_def)
  have oe: "out_wf ?e"
    using note_session_same [of ?s] os by (auto simp: out_wf_def)
  have b: "buffer_of ?e = buffer_of e" "buffer_of ?s = buffer_of e" by simp_all
  have we: "buf_wf ?e" using buffer_of_wf [OF b(1)] wf by simp
  have ws: "engine_wf ?s" by (rule engine_wf_buffer [OF b(2) wf os])
  have sync: "engine_wf e1" if "poll_sync now ?e = Go e1 \<or> poll_sync now ?e = Again e1 \<or>
      poll_sync now ?e = Break v e1" for v e1
  proof -
    have "out_wf e1" using that poll_sync_out_wf [OF we oe] by blast
    moreover have "buffer_of e1 = buffer_of ?e"
      using that poll_sync_progress [OF we, of now e1]
      by (auto simp: poll_sync_def Let_def split: if_splits option.splits)
    ultimately show ?thesis using b wf by (auto intro: engine_wf_buffer)
  qed
  show "engine_wf e'" if it: "poll_media fp now mx (e, outs, n) = Inr (e', outs', n')"
  proof (cases "poll_sync now ?e")
    case (Again e1)
    with it sync [of e1] show ?thesis by (auto simp: poll_media_def Let_def split: if_splits)
  next
    case (Go e1)
    with it poll_send_wf(1) [of e1] sync [of e1] show ?thesis
      by (auto simp: poll_media_def Let_def split: if_splits)
  next
    case (Break v e1)
    with it show ?thesis by (auto simp: poll_media_def Let_def split: if_splits)
  qed
  show "engine_wf e'" if it: "poll_media fp now mx (e, outs, n) = Inl (wake, e', outs')"
  proof (cases "end_reached ?s")
    case True
    with it have "e' = ?s" by (simp add: poll_media_def Let_def)
    with ws show ?thesis by simp
  next
    case False
    show ?thesis
    proof (cases "poll_sync now ?e")
      case (Break v e1)
      with it False have "e' = e1" by (simp add: poll_media_def Let_def)
      with sync [of e1 v] Break show ?thesis by simp
    next
      case (Go e1)
      with it False have "poll_send fp now mx (e1, outs, n) = Inl (wake, e', outs')"
        by (simp add: poll_media_def Let_def)
      with poll_send_wf(2) [of e1] sync [of e1] Go show ?thesis by blast
    next
      case (Again e1)
      with it False show ?thesis by (simp add: poll_media_def Let_def)
    qed
  qed
qed

lemma poll_iter_wf:
  assumes "engine_wf e"
  shows "poll_iter fp now mx (e, outs, n) = Inr (e', outs', n') \<Longrightarrow> engine_wf e'"
    and "poll_iter fp now mx (e, outs, n) = Inl (wake, e', outs') \<Longrightarrow> engine_wf e'"
proof -
  show "engine_wf e'" if it: "poll_iter fp now mx (e, outs, n) = Inr (e', outs', n')"
  proof (cases "poll_media fp now mx (e, outs, n) = Inr (e', outs', n')")
    case True
    with assms show ?thesis by (rule poll_media_wf(1))
  next
    case False
    with it obtain s d f where e': "e' = (set_pending (Hold s d) e)\<lparr>out := (out (set_pending (Hold s d) e))
        \<lparr>o_hold := f, o_need_sync := True\<rparr>\<rparr>"
      by (auto simp: poll_iter_def Let_def split: pending.splits if_splits prod.splits)
    have "keeps e e'" unfolding e' by (rule keeps_trans [OF keeps_set_pending(1) keeps_out]) simp_all
    with assms show ?thesis by (simp add: keeps_def)
  qed
  show "engine_wf e'" if it: "poll_iter fp now mx (e, outs, n) = Inl (wake, e', outs')"
  proof -
    from it consider (media) "poll_media fp now mx (e, outs, n) = Inl (wake, e', outs')"
      | (hold) "emit_hold_frame fp now (e, outs) = ((e', outs'), wake)" | (wait) "e' = e"
      by (auto simp: poll_iter_def Let_def split: pending.splits if_splits prod.splits)
    then show ?thesis
    proof cases
      case media
      with assms show ?thesis by (rule poll_media_wf(2))
    next
      case hold
      note f = emit_hold_frame_fields [OF hold, unfolded fst_conv]
      have "keeps e e'" by (rule keeps_frame) (use f in simp_all)
      with assms show ?thesis by (simp add: keeps_def)
    qed (simp add: assms)
  qed
qed

lemma keeps_poll:
  assumes "poll_budget fp now mx (e, outs) = Some (wake, e', outs')"
  shows "keeps e e'"
proof (cases "engine_wf e")
  case True
  let ?e = "run_pending now (evict now e)"
  have ke: "keeps e ?e" by (rule keeps_trans [OF keeps_evict keeps_run_pending])
  then have w: "engine_wf ?e" using True by (simp add: keeps_def)
  then have wf: "buf_wf ?e" by (simp add: engine_wf_def)
  show ?thesis
  proof (cases "o_connected (out ?e)")
    case False
    with assms ke show ?thesis by (simp add: poll_budget_def Let_def)
  next
    case connected: True
    obtain r st where r: "loop (poll_iter fp now mx) (?e, outs, 0) = Some r" and P: "engine_wf (fst st)"
      and b: "buffer_of (fst st) = buffer_of ?e" and wf_st: "buf_wf (fst st)"
      and it: "poll_iter fp now mx st = Inl r"
    proof (rule poll_loop_breaks [OF wf, of "\<lambda>st. engine_wf (fst st)" outs 0 fp now mx])
      show "engine_wf (fst (?e, outs, 0))" using w by simp
      show "engine_wf (fst st')" if "engine_wf (fst st)" "poll_iter fp now mx st = Inr st'" for st st'
        using that poll_iter_wf(1) by (metis prod.collapse)
    qed blast
    obtain e1 o1 n1 where eq: "st = (e1, o1, n1)" by (metis prod_cases3)
    obtain v e2 o2 where r2: "r = (v, e2, o2)" by (metis prod_cases3)
    with r connected assms have "e2 = e'" "o2 = outs'" by (simp_all add: poll_budget_def Let_def)
    with r2 have r_eq: "r = (v, e', outs')" by simp
    have "engine_wf e'" using poll_iter_wf(2) [of e1] P it eq r_eq by simp
    moreover have "buffer_of e' = buffer_of e1"
      using poll_iter_keeps(2) [OF _ holds_back_zero, of e1 fp now mx o1 n1 v e' outs'] it eq r_eq wf_st
      by simp
    then have "base_seq e' = base_seq ?e"
      using b eq buffer_of_eqD(3) [of e' ?e] by simp
    ultimately show ?thesis using ke by (simp add: keeps_def)
  qed
qed (simp add: keeps_def)

section \<open>Reachable states\<close>

text \<open>
  One call on the engine. The end mark is only set at something received
  (\<^verbatim>\<open>end_after\<close> is called with \<^verbatim>\<open>last_seq\<close>); any call may follow any
  other.
\<close>

inductive engine_step :: "(bytes \<Rightarrow> u64) \<Rightarrow> engine \<Rightarrow> engine \<Rightarrow> bool" for fp where
  ingest_start: "engine_step fp e (snd (ingest_start e))"
| ingest_end: "engine_step fp e (ingest_end e)"
| ingest_metadata: "engine_step fp e (ingest_metadata payload e)"
| ingest: "engine_step fp e (ingest now k ts payload e)"
| connected: "engine_step fp e (snd (output_connected now e))"
| disconnected: "engine_step fp e (output_disconnected last_written e)"
| unsend: "engine_step fp e (unsend taken e)"
| dump_after: "engine_step fp e (fst (run_dump_after now taken mode cover e))"
| reset: "engine_step fp e (output_reset e)"
| discard: "engine_step fp e (discard e)"
| end_after: "s < next_seq e \<Longrightarrow> engine_step fp e (end_after s e)"
| cancel_end: "engine_step fp e (cancel_end e)"
| restart: "engine_step fp e (restart_after_end e)"
| command: "engine_step fp e (fst (run_command now cmd e))"
| keep_history: "engine_step fp e (set_keep_history b e)"
| restore: "engine_step fp e (set_restore_after_reconnect b e)"
| poll: "poll_budget fp now max_bytes (e, outs) = Some (wake, e', outs') \<Longrightarrow> engine_step fp e e'"

lemma keeps_step: "engine_step fp e e' \<Longrightarrow> keeps e e'"
  by (induction rule: engine_step.induct)
    (blast intro: keeps_ingest_start keeps_ingest_end keeps_ingest_metadata keeps_ingest
      keeps_output_connected keeps_output_disconnected keeps_unsend keeps_dump_after
      keeps_output_reset keeps_discard keeps_end_after keeps_cancel_end keeps_restart_after_end
      keeps_command keeps_set_config keeps_poll)+

lemma new_engine_engine_wf: "engine_wf (new_engine c)"
  using new_engine_wf [of c] by (simp add: engine_wf_def out_wf_def new_engine_def new_output_def)

definition fresh_engine :: "engine \<Rightarrow> bool" where
  "fresh_engine e \<longleftrightarrow> e = new_engine (config e)"

interpretation engine_machine:
  monotone_machine fresh_engine "engine_step fp" engine_wf base_seq for fp
proof unfold_locales
  show "engine_wf e" if "fresh_engine e" for e
    using that new_engine_engine_wf by (metis fresh_engine_def)
qed (use keeps_step in \<open>auto simp: keeps_def\<close>)

text \<open>
  C7. Every state the engine reaches, by any sequence of calls from a new engine, is well
  formed: the ring's sequence numbers are contiguous and its keyframe index exact, byte
  counts are right, sessions are in order and their decoder configuration within its budget,
  the cursor is within the buffer and the end mark at something received; and in each of
  them the output loop returns.
\<close>

theorem reachable_engine_wf:
  assumes "(engine_step fp)\<^sup>*\<^sup>* (new_engine c) e"
  shows "engine_wf e \<and> (\<exists>r. poll fp now (e, outs) = Some r)"
proof -
  have "fresh_engine (new_engine c)" by (simp add: fresh_engine_def new_engine_def)
  from engine_machine.reachable_inv [OF this assms] have wf: "engine_wf e" .
  then have "buf_wf e" by (simp add: engine_wf_def)
  from poll_budget_keeps [OF this holds_back_zero] wf show ?thesis
    unfolding poll_def by metis
qed

text \<open>
  After \<^verbatim>\<open>discard\<close> the buffer starts past everything received before, and what is sent
  with a sequence number is in the buffer.
\<close>

lemma discard_engine_wf: "engine_wf e \<Longrightarrow> engine_wf (discard e)"
  using keeps_discard [of e] by (simp add: keeps_def)

lemma discarded_base:
  assumes "engine_wf e" and "(engine_step fp)\<^sup>*\<^sup>* (discard e) e1"
  shows "next_seq e \<le> base_seq e1"
proof -
  have "base_seq (discard e) = next_seq e"
    using buffer_of_eqD(3) [OF output_reset_fields(1)] by (simp add: discard_def)
  with engine_machine.steps_level [OF assms(2) discard_engine_wf [OF assms(1)]] show ?thesis by simp
qed

lemma sent_in_buffer:
  assumes wf: "engine_wf e" and sent: "poll_budget fp now max_bytes (e, outs) = Some (wake, e2, outs @ ms)"
    and m: "m \<in> set ms" "m_seq m = Some s"
  shows "base_seq e \<le> s"
proof -
  from wf have wf1: "buf_wf e" by (simp add: engine_wf_def)
  obtain wake' e' ms' where "poll_budget fp now max_bytes (e, outs) = Some (wake', e', outs @ ms')"
    and aged: "aged 0 now (evict now e) ms'"
    using poll_budget_keeps [OF wf1 holds_back_zero] by blast
  with sent have "aged 0 now (evict now e) ms" by simp
  with m obtain x where "entry (evict now e) s = Some x" by (auto simp: aged_def)
  with entry_bounds [of "evict now e" s x] evict_wf [OF wf1, of now] evict_buffer(1) [OF wf1, of now]
  show ?thesis by (auto simp: buf_wf_def)
qed

end
