(* ===== verification/Engine_Held.thy ===== *)
theory Engine_Held
  imports Engine_Reach
begin

text \<open>
  Where what the engine sends comes from. A message with a sequence number is in the buffer.
  One without is the decoder configuration or metadata of an encoder session, or a repeat of the
  frame being held, which is a keyframe the output had already passed when it was put there. So
  nothing of what is discarded comes back, in no form.
\<close>

section \<open>The held frame\<close>

text \<open>A keyframe as it is sent again during a hold: marked as a new start.\<close>

definition still :: "entry_rec \<Rightarrow> bytes" where
  "still x =
     (case (e_hevc_nal x, e_nal_offset x) of
        (Some t, Some off) \<Rightarrow>
          if t = CRA then (case cra_to_bla (e_payload x) off of None \<Rightarrow> e_payload x | Some b \<Rightarrow> b)
          else e_payload x
      | _ \<Rightarrow> e_payload x)"

text \<open>\<open>keyframe_passed k x e\<close>: \<open>x\<close> is the newest video keyframe that the output has passed.\<close>

definition keyframe_passed :: "nat \<Rightarrow> entry_rec \<Rightarrow> engine \<Rightarrow> bool" where
  "keyframe_passed k x e \<longleftrightarrow>
     k < cursor e \<and> entry e k = Some x \<and> e_sync x \<and> e_kind x = Video \<and>
     (\<forall>j y. j < cursor e \<and> entry e j = Some y \<and> e_sync y \<longrightarrow> j \<le> k)"

definition held_from :: "engine \<Rightarrow> hold_frame \<Rightarrow> bool" where
  "held_from e h \<longleftrightarrow>
     (\<exists>k x. keyframe_passed k x e \<and> hf_payload h = still x \<and> hf_headers h = headers_at e (e_session x) k)"

lemma aired_keyframe_held:
  assumes "buf_wf e" and "aired_keyframe now e = Some h"
  shows "held_from e h"
proof -
  from assms(2) obtain k x where k: "find_last (\<lambda>s. s < cursor e) (syncs e) = Some k"
    and x: "entry e k = Some x" "e_kind x = Video"
    and h: "hf_payload h = still x" "hf_headers h = headers_at e (e_session x) (e_seq x)"
    by (auto simp: aired_keyframe_def still_def split: option.splits if_splits)
  note new = ring_index.newest_key [OF assms(1) k]
  have "e_seq x = k" using assms(1) x(1) by (auto simp: buf_wf_def entry_seq)
  with new x h show ?thesis unfolding held_from_def keyframe_passed_def by auto
qed

lemma held_from_frame:
  assumes "buffer_of e' = buffer_of e" and "cursor e' = cursor e"
  shows "held_from e' h = held_from e h"
  using assms(2) buffer_of_entry [OF assms(1)] buffer_of_eqD(7) [OF assms(1)]
  by (simp add: held_from_def keyframe_passed_def headers_at_def)

section \<open>No other frame is held\<close>

definition holds_on :: "engine \<Rightarrow> engine \<Rightarrow> bool" where
  "holds_on e e' \<longleftrightarrow>
     (\<forall>h'. o_hold (out e') = Some h' \<longrightarrow>
        (\<exists>h. o_hold (out e) = Some h \<and> hf_payload h' = hf_payload h \<and> hf_headers h' = hf_headers h))"

lemma holds_on_refl [simp]: "holds_on e e"
  by (simp add: holds_on_def)

lemma holds_on_trans [trans]: "holds_on a b \<Longrightarrow> holds_on b c \<Longrightarrow> holds_on a c"
  unfolding holds_on_def by metis

lemma holds_on_same: "o_hold (out e') = o_hold (out e) \<or> o_hold (out e') = None \<Longrightarrow> holds_on e e'"
  by (auto simp: holds_on_def)

lemma held_by_frame: "holds_on e e' \<Longrightarrow> (\<And>h. o_hold (out e) = Some h \<Longrightarrow> held_from a h) \<Longrightarrow>
    o_hold (out e') = Some h' \<Longrightarrow> held_from a h'"
  unfolding holds_on_def held_from_def by metis

lemma hold_set_pending:
  "o_hold (out (set_pending p e)) = (case p of Hold _ _ \<Rightarrow> o_hold (out e) | _ \<Rightarrow> None)"
  "o_hold (out (put_pending p e)) = o_hold (out e)" "o_hold (out (end_hold now e)) = None"
  "o_hold (out (move_to s e)) = o_hold (out e)" "o_hold (out (ask_sync e)) = o_hold (out e)"
  "o_hold (out (next_message e)) = o_hold (out e)" "o_hold (out (clear_notes e)) = o_hold (out e)"
  by (simp_all add: set_pending_def put_pending_def end_hold_def move_to_def ask_sync_def
      next_message_def clear_notes_def Let_def split: pending.split option.split)

lemma hold_back:
  "holds_on e (back_under_max e)" "holds_on e (back_to_target e)" "holds_on e (set_pending p e)"
  by (auto simp: holds_on_def back_under_max_def back_to_target_def hold_set_pending Let_def
      split: pending.splits if_splits)

lemma holds_on_mask_anchor:
  "mask_anchor now d started anchor mute shown dump e = (a, e1) \<Longrightarrow> o_hold (out e1) = o_hold (out e)"
  by (auto simp: mask_anchor_def mask_from_def hold_set_pending Let_def
      split: option.splits prod.splits if_splits)

lemma holds_on_pending_step:
  "pending_step now e = Inl e' \<Longrightarrow> holds_on e e'" "pending_step now e = Inr e' \<Longrightarrow> holds_on e e'"
proof -
  have mask: "holds_on e (run_mask now d started anchor mute shown dump e)"
    for d started anchor mute shown dump
    by (auto simp: run_mask_def hold_set_pending dest!: holds_on_mask_anchor intro!: holds_on_same
        split: option.split prod.split)
  show "holds_on e e'" if "pending_step now e = Inl e'"
  proof (cases "o_pending (out e)")
    case (Mask d started anchor mute shown dump)
    with that have "e' = run_mask now d started anchor mute shown dump e" by (simp add: pending_step_def)
    then show ?thesis by (simp only: mask)
  qed (use that in \<open>auto simp: pending_step_def run_go_live_def run_reduce_def run_hold_def
      run_replay_def run_dump_def hold_set_pending Let_def intro!: holds_on_same
      split: option.splits if_splits\<close>)
  show "pending_step now e = Inr e' \<Longrightarrow> holds_on e e'"
    by (auto simp: pending_step_def run_dump_def hold_set_pending Let_def intro!: holds_on_same
        split: pending.splits option.splits if_splits)
qed

lemma holds_on_run_pending: "holds_on e (run_pending now e)"
  by (rule run_pending_keeps [of "holds_on e"])
    (auto intro: holds_on_trans dest: holds_on_pending_step)

lemma holds_on_memory_short: "holds_on e (memory_short now e)"
  by (auto simp: memory_short_def hold_set_pending Let_def intro!: holds_on_same
      split: option.split pending.split)

lemma holds_on_evict: "buf_wf e \<Longrightarrow> holds_on e (evict now e)"
proof -
  assume wf: "buf_wf e"
  define e1 where "e1 = snd (evict_loop now (keep_from now e) (restart_point e) False e)"
  have "behind e e1" unfolding e1_def by (rule behind_evict_loop [OF wf])
  then have "holds_on e e1" by (auto simp: behind_def intro: holds_on_same)
  with holds_on_memory_short [of e1 now] show ?thesis
    by (auto simp: evict_eq e1_def [symmetric] intro: holds_on_trans)
qed

lemma holds_on_drop: "holds_on e (drop_buffer e)" "holds_on e (drop_before q e)"
  by (rule holds_on_same, simp add: drop_buffer_def drop_before_def pop_entries_def Let_def split: prod.split)+


section \<open>Every call\<close>

lemma holds_on_rewind: "holds_on e (rewind now d e)"
  by (auto simp: rewind_def hold_set_pending Let_def intro!: holds_on_same
      split: option.split prod.split)

lemma holds_on_finish: "holds_on e e1 \<Longrightarrow> holds_on e (fst (finish now e1))"
  by (auto simp: finish_def Let_def intro: holds_on_trans holds_on_run_pending)

lemma holds_on_go_live: "holds_on e (cmd_go_live when e)"
  by (rule holds_on_same) (simp add: cmd_go_live_def hold_set_pending Let_def split: go_live_when.split)

lemma holds_on_slate_shown: "holds_on e (cmd_slate_shown now c e)"
  by (rule holds_on_same) (simp add: cmd_slate_shown_def hold_set_pending split: pending.split option.split)

lemma holds_on_cancel: "holds_on e (cmd_cancel e)"
  by (auto simp: holds_on_def cmd_cancel_def back_under_max_def hold_set_pending Let_def split: if_splits)

lemma holds_on_clear_notes: "holds_on e (clear_notes e)"
  by (rule holds_on_same) (simp add: hold_set_pending)

lemma holds_on_cases:
  "holds_on e (fst x) \<Longrightarrow> holds_on e (fst y) \<Longrightarrow> holds_on e (fst (if c then x else y))"
  "(\<And>p. holds_on e (fst (f p))) \<Longrightarrow> holds_on e (fst x) \<Longrightarrow>
   holds_on e (fst (case r of None \<Rightarrow> x | Some p \<Rightarrow> f p))"
  "holds_on e (fst x) \<Longrightarrow> holds_on e (fst y) \<Longrightarrow>
   holds_on e (fst (case m of Rewind \<Rightarrow> x | MaskMode \<Rightarrow> y))"
  for x y :: "engine \<times> 'r"
  by (simp_all split: option.split delay_mode.split)

lemma holds_on_set_delay: "holds_on e (fst (cmd_set_delay now ms mode e))"
proof -
  define e1 where "e1 = set_pending PendNone
      (e\<lparr>out := (out e)\<lparr>o_target := ms * MS, o_history_short := False\<rparr>\<rparr>)"
  have none: "o_hold (out e1) = None" by (simp add: e1_def hold_set_pending)
  have fin: "holds_on e (fst (finish now e2))" if "holds_on e1 e2" for e2
    using that none by (intro holds_on_finish) (auto simp: holds_on_def)
  have early: "holds_on e (fst (finish now (e\<lparr>out := (out e)\<lparr>o_pending := p, o_target := ms * MS,
      o_history_short := False\<rparr>\<rparr>)))" for p
    by (rule holds_on_finish) (simp add: holds_on_same)
  have parts: "holds_on e1 (e1\<lparr>out := (out e1)\<lparr>o_delay := d\<rparr>\<rparr>)"
    "holds_on e1 (set_pending p e1)"
    "holds_on e1 ((set_pending p e1)\<lparr>out := (out (set_pending p e1))
       \<lparr>o_slate_change := o_slate_change (out (set_pending p e1)) + 1, o_mask_visible := True\<rparr>\<rparr>)"
    "holds_on e1 (cmd_go_live Now (clear_notes e1))" for p d
    using none holds_on_trans [OF holds_on_clear_notes holds_on_go_live]
    by (auto simp: hold_set_pending intro!: holds_on_same split: pending.splits)
  note cases = fin [OF parts(1)] fin [OF parts(2)] fin [OF parts(3)] fin [OF parts(4)]
    fin [OF holds_on_rewind] fin [OF holds_on_refl]
  have same: "holds_on e (fst (e, r))" for r :: "engine_error + ack" by simp
  show ?thesis
    unfolding cmd_set_delay_def Let_def e1_def [symmetric]
    by (intro holds_on_cases early cases same)
qed


lemma holds_on_out: "o_hold p = o_hold (out e) \<or> o_hold p = None \<Longrightarrow> holds_on e (e\<lparr>out := p\<rparr>)"
  by (rule holds_on_same) simp

lemma holds_on_moved: "holds_on e (move_to s e)" "holds_on e (ask_sync e)" "holds_on e (splice_to k d e)"
  by (rule holds_on_same, simp add: hold_set_pending)+

lemma holds_on_resume: "holds_on e (resume_at taken e)"
  by (auto simp: resume_at_def holds_on_moved split: option.split)

lemma holds_on_unsend: "holds_on e (unsend taken e)"
  using holds_on_resume [of e taken] by (auto simp: unsend_def forget_sent_def holds_on_def)

lemma holds_on_disconnected: "holds_on e (output_disconnected l e)"
  unfolding output_disconnected_def by (rule holds_on_trans [OF holds_on_out holds_on_resume]) simp

lemma holds_on_connected: "holds_on e (snd (output_connected now e))"
proof -
  define e1 where "e1 = e\<lparr>out := (out e)\<lparr>o_connected := True,
                 o_hold := (case o_hold (out e) of
                              None \<Rightarrow> None
                            | Some h \<Rightarrow> Some (h\<lparr>hf_needs_headers := True, hf_next := now\<rparr>)),
                 o_generation := o_generation (out e) + 1, o_fresh := True, o_last_out_ts := 0,
                 o_last_kind_ts := (\<lambda>_. None), o_last_pts := 0, o_sent_headers := [],
                 o_sent_metadata := None, o_first_emitted := None\<rparr>\<rparr>"
  have "holds_on e e1" by (auto simp: holds_on_def e1_def split: option.splits)
  have grew: "holds_on e1 (e1\<lparr>out := (out e1)\<lparr>o_grew_on_reconnect := b\<rparr>\<rparr>)" for b
    by (rule holds_on_out) simp
  note spliced = holds_on_trans [OF holds_on_trans [OF grew holds_on_moved(3)] hold_back(1)]
  have cases: "holds_on e1 x \<Longrightarrow> holds_on e1 y \<Longrightarrow> holds_on e1 (if c then x else y)"
    "(\<And>k. holds_on e1 (f k)) \<Longrightarrow> holds_on e1 x \<Longrightarrow> holds_on e1 (case r of None \<Rightarrow> x | Some k \<Rightarrow> f k)"
    for c x y and r :: "nat option" and f
    by (simp_all split: option.split)
  have "holds_on e1 (snd (output_connected now e))"
    unfolding output_connected_def Let_def e1_def [symmetric] snd_conv
    by (intro cases holds_on_moved holds_on_refl spliced holds_on_trans [OF spliced hold_back(2)])
  with \<open>holds_on e e1\<close> show ?thesis by (rule holds_on_trans)
qed

lemma no_hold_reset: "o_hold (out (output_reset e)) = None" "o_hold (out (discard e)) = None"
    "o_hold (out (restart_after_end e)) = None"
  by (simp_all add: output_reset_fields discard_def restart_after_end_def hold_set_pending Let_def)

lemma holds_on_ingest_start: "holds_on e (snd (ingest_start e))"
proof -
  have "o_hold (out (snd (ingest_start e))) = o_hold (out (if \<not> o_started (out e) then drop_buffer e else e))"
    by (simp add: ingest_start_def Let_def drop_idle_fields)
  with holds_on_drop(1) [of e] show ?thesis by (auto simp: holds_on_def split: if_splits)
qed

lemma holds_on_ingest: "engine_wf e \<Longrightarrow> holds_on e (ingest now k ts payload e)"
proof (cases "\<not> ingest_active e \<or> payload = [] \<or> last_opt (sessions e) = None")
  case True
  then show ?thesis by (simp add: ingest_ignored)
next
  case False
  assume "engine_wf e"
  then have wf: "buf_wf e" by (simp add: engine_wf_def)
  obtain e2 x where e2: "ingest now k ts payload e = evict now e2" "buf_wf e2" "out e2 = out e"
    by (rule ingest_appends [OF wf, of payload]) (use False in auto)
  have "holds_on e e2" by (rule holds_on_same) (simp add: e2)
  with holds_on_evict [OF e2(2), of now] show ?thesis unfolding e2(1) by (blast intro: holds_on_trans)
qed

lemma engine_dump_hold:
  assumes "buf_wf e" and "o_hold (out (snd (engine_dump now mode cover e))) = Some h"
  shows "held_from e h \<or> \<not> o_started (out e) \<and> o_hold (out e) = Some h"
proof (cases "\<not> o_started (out e) \<or> o_end_mark (out e) \<noteq> None \<or> \<not> ingest_active e")
  case True
  have "o_hold (out (drop_buffer e)) = o_hold (out e)"
    by (simp add: drop_buffer_def Let_def)
  with True assms(2) show ?thesis by (auto simp: engine_dump_def hold_set_pending split: if_splits)
next
  case False
  define e1 where "e1 = e\<lparr>out := (out e)\<lparr>o_history_short := False, o_target := dump_delay e\<rparr>\<rparr>"
  have e1: "buffer_of e1 = buffer_of e" "cursor e1 = cursor e" "buf_wf e1"
    using assms(1) by (simp_all add: e1_def)
  have "o_hold (out e2) = None" if "replay_instead now d e1 = Some e2" for d e2
    using that by (auto simp: replay_instead_def hold_set_pending Let_def split: option.splits)
  with False assms(2) have "aired_keyframe now e1 = Some h"
    unfolding engine_dump_def e1_def [symmetric] Let_def
    by (auto split: option.splits if_splits)
  from aired_keyframe_held [OF e1(3) this] held_from_frame [OF e1(1,2)] show ?thesis by simp
qed

text \<open>Only a dump puts a frame there, a keyframe the output had passed before it.\<close>

lemma command_hold:
  assumes wf: "engine_wf e" and h: "o_hold (out (fst (run_command now cmd e))) = Some h"
  shows "held_from e h \<or> (\<exists>h0. o_hold (out e) = Some h0 \<and> hf_payload h = hf_payload h0 \<and> hf_headers h = hf_headers h0)"
proof (cases cmd)
  case (DumpCmd mode cover)
  let ?n = "clear_notes e"
  have n: "buffer_of ?n = buffer_of e" "cursor ?n = cursor e" "o_hold (out ?n) = o_hold (out e)"
    by (simp_all add: clear_notes_def)
  show ?thesis
  proof (cases "can_dump ?n")
    case True
    obtain oc e1 where d: "engine_dump now mode cover ?n = (oc, e1)" by fastforce
    have "fst (run_command now cmd e) = run_pending now e1"
      using DumpCmd True d by (simp add: run_command_def cmd_dump_def Let_def)
    with h holds_on_run_pending [of e1 now] obtain h1 where h1: "o_hold (out e1) = Some h1"
      "hf_payload h = hf_payload h1" "hf_headers h = hf_headers h1" by (auto simp: holds_on_def)
    have "buf_wf ?n" using wf buffer_of_wf [OF n(1)] by (simp add: engine_wf_def)
    from engine_dump_hold [OF this, of now mode cover h1] d h1 n held_from_frame [OF n(1,2)]
    show ?thesis by (auto simp: held_from_def)
  next
    case False
    with DumpCmd h n show ?thesis by (auto simp: run_command_def cmd_dump_def)
  qed
next
  case (SetDelay ms mode)
  have "holds_on e (fst (run_command now cmd e))"
    using holds_on_trans [OF holds_on_clear_notes holds_on_set_delay]
    by (simp add: SetDelay run_command_def split: option.split)
  with h show ?thesis by (auto simp: holds_on_def)
next
  case (GoLive w)
  have "holds_on e (fst (run_command now cmd e))"
    using holds_on_finish [OF holds_on_trans [OF holds_on_clear_notes holds_on_go_live]]
    by (simp add: GoLive run_command_def)
  with h show ?thesis by (auto simp: holds_on_def)
next
  case Cancel
  from holds_on_finish [OF holds_on_cancel] h show ?thesis
    by (auto simp: Cancel run_command_def holds_on_def)
next
  case (SlateShown c)
  from holds_on_finish [OF holds_on_slate_shown] h show ?thesis
    by (fastforce simp: SlateShown run_command_def holds_on_def)
qed


section \<open>The output loop\<close>

text \<open>\<open>setup_of e m\<close>: decoder configuration or metadata of a session; \<open>of_frame h m\<close>: of a held frame.\<close>

definition setup_of :: "engine \<Rightarrow> out_msg \<Rightarrow> bool" where
  "setup_of e m \<longleftrightarrow>
     (\<exists>s \<in> set (sessions e). m_kind m = kind.Data \<and> s_metadata s = Some (m_payload m) \<or>
        (\<exists>h \<in> set (s_headers s). m_kind m = h_kind h \<and> m_payload m = h_payload h))"

definition in_headers :: "headers \<Rightarrow> out_msg \<Rightarrow> bool" where
  "in_headers hs m \<longleftrightarrow>
     m_kind m = kind.Data \<and> hd_metadata hs = Some (m_payload m) \<or>
     (\<exists>c. (m_kind m, c, m_payload m) \<in> set (hd_config hs))"

definition of_frame :: "hold_frame \<Rightarrow> out_msg \<Rightarrow> bool" where
  "of_frame h m \<longleftrightarrow>
     m_seq m = None \<and> (m_kind m = Video \<and> m_payload m = hf_payload h \<or> in_headers (hf_headers h) m)"

lemma headers_in_effect_from:
  "(k, c, p) \<in> set (headers_in_effect s hs acc) \<Longrightarrow>
     (k, c, p) \<in> set acc \<or> (\<exists>h \<in> set hs. k = h_kind h \<and> p = h_payload h)"
  by (induction s hs acc rule: headers_in_effect.induct) (auto split: if_splits)

lemma headers_at_setup: "in_headers (headers_at e sid s) m \<Longrightarrow> setup_of e m"
  using headers_in_effect_from [of "m_kind m" _ "m_payload m" s _ "[]"]
  by (fastforce simp: in_headers_def headers_at_def setup_of_def dest: find_Some_in split: option.splits)

lemma pushed_send_headers_of:
  assumes "\<And>k c p t. (k, c, p) \<in> set hs \<Longrightarrow> P (msg k t p None)"
  shows "pushed P eo (send_headers fp ts hs eo) \<and> pushed P eo (send_hold_headers fp t hs eo)"
  using assms
proof (induction hs arbitrary: eo)
  case (Cons h hs)
  obtain k c p where h: "h = (k, c, p)" by (metis prod_cases3)
  obtain new e where m: "mark_header_sent fp k c p (fst eo) = (new, e)" by fastforce
  let ?a = "if new then send_at k ts p None (e, snd eo) else (e, snd eo)"
  let ?b = "if new then (stamp k t (count_sent p e), snd eo @ [msg k t p None]) else (e, snd eo)"
  have P: "P (msg k u p None)" for u using Cons.prems h by auto
  have first: "pushed P eo ?a" "pushed P eo ?b"
    using pushed_send_at [of P k ts "(e, snd eo)" p None] P by (auto simp: pushed_def)
  have "pushed P a (send_headers fp ts hs a) \<and> pushed P a (send_hold_headers fp t hs a)" for a
    by (rule Cons.IH) (use Cons.prems in auto)
  then have "pushed P eo (send_headers fp ts hs ?a)" "pushed P eo (send_hold_headers fp t hs ?b)"
    using pushed_trans [OF first(1)] pushed_trans [OF first(2)] by blast+
  then show ?case using h m by simp
qed simp_all

lemma pushed_emit_hold:
  assumes h: "o_hold (out (fst eo)) = Some h"
  shows "pushed (of_frame h) eo (fst (emit_hold_frame fp now eo))"
proof -
  have hold: "pushed (of_frame h) eo (emit_hold_headers fp (hf_headers h) t eo)" for t eo
  proof -
    define eo1 where "eo1 = (case hd_metadata (hf_headers h) of
                None \<Rightarrow> eo
              | Some m \<Rightarrow>
                  (stamp kind.Data t ((fst eo)\<lparr>out := (out (fst eo))\<lparr>o_sent_metadata := Some m\<rparr>\<rparr>),
                   snd eo @ [msg kind.Data t m None]))"
    have "pushed (of_frame h) eo eo1"
      by (auto simp: eo1_def pushed_def of_frame_def in_headers_def split: option.split)
    moreover have "pushed (of_frame h) eo1 (send_hold_headers fp t (hd_config (hf_headers h)) eo1)"
      by (intro conjunct2 [OF pushed_send_headers_of]) (auto simp: of_frame_def in_headers_def)
    ultimately have "pushed (of_frame h) eo (send_hold_headers fp t (hd_config (hf_headers h)) eo1)"
      by (rule pushed_trans)
    then show ?thesis
      by (auto simp: emit_hold_headers_def Let_def eo1_def [symmetric] pushed_def split: prod.split)
  qed
  show ?thesis
  proof (cases "now < hf_next h")
    case False
    let ?t = "hold_stamp now (fst eo) h"
    let ?e1 = "(fst eo)\<lparr>out := (out (fst eo))\<lparr>o_hold :=
        Some (h\<lparr>hf_last := now, hf_next := now + SEC, hf_needs_headers := False\<rparr>),
        o_fresh := False\<rparr>\<rparr>"
    obtain e2 outs2 where eo2: "(if hf_needs_headers h
        then emit_hold_headers fp (hf_headers h) ?t (?e1, snd eo) else (?e1, snd eo)) = (e2, outs2)"
      by fastforce
    have "pushed (of_frame h) (?e1, snd eo) (e2, outs2)"
      using hold [of "(?e1, snd eo)" ?t] eo2 by (cases "hf_needs_headers h") auto
    moreover have "of_frame h (msg Video ?t (hf_payload h) None)" by (simp add: of_frame_def)
    ultimately show ?thesis
      using h False eo2 by (auto simp: emit_hold_frame_def Let_def pushed_def)
  qed (simp add: emit_hold_frame_def h)
qed

lemma emit_hold_keeps:
  assumes "emit_hold_frame fp now eo = ((e', outs'), wake)"
  shows "map_option hf_payload (o_hold (out e')) = map_option hf_payload (o_hold (out (fst eo))) \<and>
    map_option hf_headers (o_hold (out e')) = map_option hf_headers (o_hold (out (fst eo)))"
proof (cases "o_hold (out (fst eo))")
  case None
  with assms show ?thesis by (auto simp: emit_hold_frame_def)
next
  case (Some h)
  show ?thesis
  proof (cases "now < hf_next h")
    case True
    with Some assms show ?thesis by (auto simp: emit_hold_frame_def)
  next
    case False
    let ?h = "h\<lparr>hf_last := now, hf_next := now + SEC, hf_needs_headers := False\<rparr>"
    let ?e1 = "(fst eo)\<lparr>out := (out (fst eo))\<lparr>o_hold := Some ?h, o_fresh := False\<rparr>\<rparr>"
    let ?t = "hold_stamp now (fst eo) h"
    obtain e2 outs2 where eo2: "(if hf_needs_headers h
        then emit_hold_headers fp (hf_headers h) ?t (?e1, snd eo) else (?e1, snd eo)) = (e2, outs2)"
      by fastforce
    have "quiet e2 = quiet ?e1"
      using eo2 quiet_emit_hold_headers [of fp "hf_headers h" ?t "(?e1, snd eo)"]
      by (cases "hf_needs_headers h") auto
    from quiet_eqD(24) [OF this] have "o_hold (out e2) = Some ?h" by simp
    moreover have "o_hold (out (fst (fst (emit_hold_frame fp now eo)))) = o_hold (out e2)"
      using Some False eo2 by (simp add: emit_hold_frame_def Let_def stamp_def count_sent_def)
    ultimately show ?thesis using assms Some by simp
  qed
qed


text \<open>What else the loop sends.\<close>

definition stream_or_setup :: "engine \<Rightarrow> out_msg \<Rightarrow> bool" where
  "stream_or_setup e m \<longleftrightarrow> m_seq m \<noteq> None \<or> setup_of e m"

lemma setup_of_buffer:
  "buffer_of e' = buffer_of e \<Longrightarrow> setup_of e' = setup_of e"
  "buffer_of e' = buffer_of e \<Longrightarrow> stream_or_setup e' = stream_or_setup e"
  by (simp_all add: fun_eq_iff setup_of_def stream_or_setup_def buffer_of_eqD(7) [of e' e])

lemma pushed_emit_headers_setup: "pushed (setup_of (fst eo)) eo (emit_headers fp eo)"
proof -
  let ?e = "(fst eo)\<lparr>out := (out (fst eo))\<lparr>o_pending_headers := False\<rparr>\<rparr>"
  have same: "setup_of ?e = setup_of (fst eo)" by (rule setup_of_buffer) simp
  have known: "setup_of (fst eo) m" if "in_headers (headers_at ?e sid s) m" for sid s m
    using headers_at_setup [OF that] same by simp
  have sent: "pushed (setup_of (fst eo)) (e1, outs) (send_headers fp ts (hd_config (headers_at ?e sid s)) (e1, outs))"
    for e1 outs ts sid s
    by (rule conjunct1 [OF pushed_send_headers_of], rule known [of sid s]) (auto simp: in_headers_def)
  have meta: "pushed (setup_of (fst eo)) eo (e1, snd eo @ [msg kind.Data t m None])"
    if "hd_metadata (headers_at ?e sid s) = Some m" for e1 t m sid s
    using that known [of sid s] by (simp add: pushed_def in_headers_def)
  have none: "pushed (setup_of (fst eo)) eo (e1, snd eo)" for e1 by simp
  note step = pushed_trans [OF meta sent] pushed_trans [OF none sent]
  show ?thesis
    by (auto simp: emit_headers_def Let_def intro: step split: option.splits prod.splits)
qed

lemma pushed_send_entry_setup:
  assumes x: "entry (fst eo) (cursor (fst eo)) = Some x"
  shows "pushed (stream_or_setup (fst eo)) eo (send_entry fp eo)"
proof -
  obtain e1 outs1 where h: "(if o_pending_headers (out (fst eo)) then emit_headers fp eo else eo) = (e1, outs1)"
    by fastforce
  have "pushed (setup_of (fst eo)) eo (e1, outs1)" and q: "quiet e1 = quiet (fst eo)"
    using h pushed_emit_headers_setup [of eo fp] quiet_emit_headers [of fp eo]
    by (cases "o_pending_headers (out (fst eo))"; simp)+
  then have p1: "pushed (stream_or_setup (fst eo)) eo (note_first e1, outs1)"
    by (auto simp: pushed_def stream_or_setup_def)
  have "entry (note_first e1) (cursor (note_first e1)) = Some x"
    using x quiet_entry [OF q] quiet_eqD(14) [OF q] by (simp add: note_first_def)
  from pushed_emit_entry [of "(note_first e1, outs1)" x fp, unfolded fst_conv, OF this]
  have "pushed (stream_or_setup (fst eo)) (note_first e1, outs1) (emit_entry fp (note_first e1, outs1))"
    by (rule pushed_mono) (simp add: stream_or_setup_def)
  from pushed_trans [OF p1 this] show ?thesis by (simp add: send_entry_def h)
qed

lemma send_entry_hold: "send_entry fp eo = (e', outs') \<Longrightarrow> o_hold (out e') = o_hold (out (fst eo))"
proof -
  assume sent: "send_entry fp eo = (e', outs')"
  obtain e1 outs1 where h: "(if o_pending_headers (out (fst eo)) then emit_headers fp eo else eo) = (e1, outs1)"
    by fastforce
  have q: "quiet e1 = quiet (fst eo)"
    using h quiet_emit_headers [of fp eo] by (cases "o_pending_headers (out (fst eo))"; simp)
  have "quiet e' = quiet (note_first e1)"
    using sent h quiet_emit_entry [of fp "(note_first e1, outs1)"] by (simp add: send_entry_def)
  from quiet_eqD(24) [OF this] quiet_eqD(24) [OF q] show ?thesis by (simp add: note_first_def)
qed

lemma poll_sync_hold:
  "poll_sync now e = Go e' \<Longrightarrow> holds_on e e'" "poll_sync now e = Again e' \<Longrightarrow> holds_on e e'"
  "poll_sync now e = Break w e' \<Longrightarrow> holds_on e e'"
proof -
  have sp: "holds_on e (splice_to k d e)" for k d by (rule holds_on_moved)
  note under = holds_on_trans [OF sp hold_back(1)] holds_on_trans [OF sp hold_back(3)]
  show "poll_sync now e = Go e' \<Longrightarrow> holds_on e e'" "poll_sync now e = Again e' \<Longrightarrow> holds_on e e'"
    "poll_sync now e = Break w e' \<Longrightarrow> holds_on e e'"
    by (auto simp: poll_sync_def Let_def intro: under sp holds_on_moved split: if_splits option.splits)
qed

lemma poll_send_hold:
  assumes "poll_send fp now mx (e, outs, n) = r"
  shows "case r of
      Inl (w, e', outs') \<Rightarrow> e' = e \<and> outs' = outs
    | Inr (e', outs', n') \<Rightarrow> holds_on e e' \<and> pushed (stream_or_setup e) (e, outs) (e', outs')"
proof (cases r)
  case (Inl x)
  with assms show ?thesis by (auto simp: poll_send_def Let_def split: option.splits if_splits prod.splits)
next
  case (Inr st)
  obtain e' outs' n' where st: "st = (e', outs', n')" by (metis prod_cases3)
  with Inr assms obtain x where x: "entry e (cursor e) = Some x"
    by (auto simp: poll_send_def split: option.splits)
  from Inr st assms x consider
      "e' = run_pending now (next_message (count_dropped e))" "outs' = outs"
    | e1 where "send_entry fp (e, outs) = (e1, outs')" "e' = run_pending now (next_message e1)"
    by (auto simp: poll_send_def Let_def split: if_splits prod.splits)
  then have "holds_on e e' \<and> pushed (stream_or_setup e) (e, outs) (e', outs')"
  proof cases
    case 1
    have "holds_on e (next_message (count_dropped e))"
      by (rule holds_on_same) (simp add: hold_set_pending count_dropped_def)
    with 1 show ?thesis using holds_on_trans [OF _ holds_on_run_pending] by simp
  next
    case 2
    have "holds_on e (next_message e1)"
      by (rule holds_on_same) (use send_entry_hold [OF 2(1)] in \<open>simp add: hold_set_pending\<close>)
    with 2 pushed_send_entry_setup [of "(e, outs)" x fp] x show ?thesis
      using holds_on_trans [OF _ holds_on_run_pending] by (simp add: pushed_def)
  qed
  with Inr st show ?thesis by simp
qed


lemma poll_media_hold:
  assumes wf: "buf_wf e"
  shows "case poll_media fp now mx (e, outs, n) of
      Inl (w, e', outs') \<Rightarrow> holds_on e e' \<and> outs' = outs
    | Inr (e', outs', n') \<Rightarrow> holds_on e e' \<and> pushed (stream_or_setup e) (e, outs) (e', outs')"
proof -
  let ?e = "note_session (skip_evicted e)"
  have skip: "holds_on e (skip_evicted e)"
    by (rule holds_on_same) (simp add: skip_evicted_def hold_set_pending)
  have "holds_on (skip_evicted e) ?e"
    using note_session_same [of "skip_evicted e"] by (auto intro: holds_on_same simp: hold_set_pending)
  with skip have start: "holds_on e ?e" by (rule holds_on_trans)
  have b: "buffer_of ?e = buffer_of e" by simp
  have wf': "buf_wf ?e" using wf buffer_of_wf [OF b] by simp
  show ?thesis
  proof (cases "end_reached (skip_evicted e)")
    case True
    with skip show ?thesis by (simp add: poll_media_def)
  next
    case ne: False
    show ?thesis
    proof (cases "poll_sync now ?e")
      case (Break w e1)
      with ne holds_on_trans [OF start poll_sync_hold(3) [OF Break]] show ?thesis
        by (simp add: poll_media_def)
    next
      case (Again e1)
      with ne holds_on_trans [OF start poll_sync_hold(2) [OF Again]] show ?thesis
        by (simp add: poll_media_def)
    next
      case (Go e1)
      have "buffer_of e1 = buffer_of e" using poll_sync_progress(1) [OF wf' Go] b by simp
      note src = setup_of_buffer(2) [OF this]
      have h1: "holds_on e e1" by (rule holds_on_trans [OF start poll_sync_hold(1) [OF Go]])
      have eq: "poll_media fp now mx (e, outs, n) = poll_send fp now mx (e1, outs, n)"
        using ne Go by (simp add: poll_media_def Let_def)
      from poll_send_hold [OF refl, where fp = fp and now = now and mx = mx and e = e1 and outs = outs and n = n] holds_on_trans [OF h1] h1 show ?thesis
        unfolding eq src by (auto simp: pushed_def split: sum.splits prod.splits)
    qed
  qed
qed

text \<open>A frame put there by the loop itself, when a replay runs out, is a keyframe passed by then.\<close>

definition hold_known :: "engine \<Rightarrow> engine \<Rightarrow> bool" where
  "hold_known e e' \<longleftrightarrow>
     holds_on e e' \<or>
     (\<exists>s d. o_pending (out e') = Hold s d) \<and> (\<forall>h. o_hold (out e') = Some h \<longrightarrow> held_from e' h)"

lemma poll_iter_hold:
  assumes wf: "buf_wf e" and known: "hold_known e0 e"
  shows "poll_iter fp now mx (e, outs, n) = Inr (e', outs', n') \<Longrightarrow>
      hold_known e0 e' \<and> pushed (stream_or_setup e) (e, outs) (e', outs')"
    and "poll_iter fp now mx (e, outs, n) = Inl (w, e', outs') \<Longrightarrow> hold_known e0 e' \<and>
      pushed (\<lambda>m. \<exists>h. o_hold (out e') = Some h \<and> of_frame h m) (e, outs) (e', outs')"
proof -
  have on: "holds_on e0 e" if "\<forall>s d. o_pending (out e) \<noteq> Hold s d"
    using known that by (simp add: hold_known_def)
  note media = poll_media_hold [OF wf, where fp = fp and now = now and mx = mx and outs = outs and n = n]
  show "hold_known e0 e' \<and> pushed (stream_or_setup e) (e, outs) (e', outs')"
    if it: "poll_iter fp now mx (e, outs, n) = Inr (e', outs', n')"
  proof (cases "poll_media fp now mx (e, outs, n) = Inr (e', outs', n') \<and>
      (\<forall>s to. o_pending (out e) \<noteq> Hold s to)")
    case True
    with media on holds_on_trans [of e0 e e'] show ?thesis by (auto simp: hold_known_def)
  next
    case False
    with it obtain s to where e': "e' = (set_pending (Hold s to) e)\<lparr>out := (out (set_pending (Hold s to) e))
          \<lparr>o_hold := aired_keyframe now e, o_need_sync := True\<rparr>\<rparr>" "outs' = outs"
      by (auto simp: poll_iter_def Let_def split: pending.splits if_splits prod.splits)
    have "buffer_of e' = buffer_of e" "cursor e' = cursor e" "o_pending (out e') = Hold s to"
      by (simp_all add: e')
    with aired_keyframe_held [OF wf] held_from_frame [of e' e] e' show ?thesis
      by (auto simp: hold_known_def)
  qed
  show "hold_known e0 e' \<and>
      pushed (\<lambda>m. \<exists>h. o_hold (out e') = Some h \<and> of_frame h m) (e, outs) (e', outs')"
    if it: "poll_iter fp now mx (e, outs, n) = Inl (w, e', outs')"
  proof -
    from it consider (media) "poll_media fp now mx (e, outs, n) = Inl (w, e', outs')"
        "\<forall>s to. o_pending (out e) \<noteq> Hold s to"
      | (hold) "emit_hold_frame fp now (e, outs) = ((e', outs'), w)"
      | (wait) "e' = e" "outs' = outs"
      by (auto simp: poll_iter_def Let_def split: pending.splits if_splits prod.splits)
    then show ?thesis
    proof cases
      case media
      with poll_media_hold [OF wf, where fp = fp and now = now and mx = mx and outs = outs and n = n] on holds_on_trans [of e0 e e'] show ?thesis
        by (auto simp: hold_known_def)
    next
      case hold
      note k = emit_hold_keeps [OF hold, unfolded fst_conv]
      note f = emit_hold_frame_fields [OF hold, unfolded fst_conv]
      have same: "\<exists>h. o_hold (out e) = Some h \<and> hf_payload h' = hf_payload h \<and> hf_headers h' = hf_headers h"
        if "o_hold (out e') = Some h'" for h'
        using k that by (cases "o_hold (out e)") auto
      then have "holds_on e e'" by (auto simp: holds_on_def)
      then have "hold_known e0 e'"
        using known f(3) held_from_frame [OF f(1,2)] same holds_on_trans [of e0 e e']
        unfolding hold_known_def held_from_def by metis
      moreover have "pushed (\<lambda>m. \<exists>h. o_hold (out e') = Some h \<and> of_frame h m) (e, outs) (e', outs')"
      proof (cases "o_hold (out e)")
        case None
        with hold show ?thesis by (simp add: emit_hold_frame_def)
      next
        case (Some h)
        then obtain h' where h': "o_hold (out e') = Some h'" "hf_payload h' = hf_payload h" "hf_headers h' = hf_headers h"
          using k by (cases "o_hold (out e')") auto
        from pushed_emit_hold [of "(e, outs)" h fp now] Some hold have "pushed (of_frame h) (e, outs) (e', outs')"
          by simp
        then show ?thesis by (rule pushed_mono) (use h' in \<open>auto simp: of_frame_def\<close>)
      qed
      ultimately show ?thesis ..
    next
      case wait
      with known show ?thesis by simp
    qed
  qed
qed

text \<open>What a call of the loop sends, and what it leaves held.\<close>

lemma poll_sources:
  assumes wf: "buf_wf e" and sent: "poll_budget fp now mx (e, outs) = Some (wake, e', outs @ ms)"
  shows "hold_known e e'" and "\<And>m. m \<in> set ms \<Longrightarrow>
      stream_or_setup e' m \<or> (\<exists>h. o_hold (out e') = Some h \<and> of_frame h m)"
proof -
  let ?e = "run_pending now (evict now e)"
  have wf': "buf_wf ?e" using buffer_of_wf [of ?e "evict now e"] evict_wf [OF wf, of now] by simp
  have start: "holds_on e ?e" by (rule holds_on_trans [OF holds_on_evict [OF wf] holds_on_run_pending])
  have "hold_known e e' \<and> (\<forall>m \<in> set ms.
      stream_or_setup e' m \<or> (\<exists>h. o_hold (out e') = Some h \<and> of_frame h m))"
  proof (cases "o_connected (out ?e)")
    case False
    with sent start show ?thesis by (auto simp: poll_budget_def Let_def hold_known_def)
  next
    case True
    let ?P = "\<lambda>(e1, o1, n). hold_known e e1 \<and> buffer_of e1 = buffer_of ?e \<and>
        pushed (stream_or_setup ?e) (?e, outs) (e1, o1)"
    obtain r st where r: "loop (poll_iter fp now mx) (?e, outs, 0) = Some r" and P: "?P st"
      and wf_st: "buf_wf (fst st)" and it: "poll_iter fp now mx st = Inl r"
    proof (rule poll_loop_breaks [OF wf', of ?P outs 0 fp now mx])
      show "?P (?e, outs, 0)" using start by (simp add: hold_known_def)
      show "?P st'" if st: "?P st" and wf_st: "buf_wf (fst st)"
        and step: "poll_iter fp now mx st = Inr st'" for st st'
      proof -
        obtain e1 o1 n1 e2 o2 n2 where eq: "st = (e1, o1, n1)" "st' = (e2, o2, n2)"
          by (metis prod_cases3)
        from st eq have e1: "hold_known e e1" "buffer_of e1 = buffer_of ?e"
          "pushed (stream_or_setup ?e) (?e, outs) (e1, o1)" by auto
        from poll_iter_hold(1) [OF _ e1(1), of fp now mx o1 n1 e2 o2 n2] step eq wf_st
        have "hold_known e e2" "pushed (stream_or_setup e1) (e1, o1) (e2, o2)" by auto
        moreover have "buffer_of e2 = buffer_of e1"
          using poll_iter_below [of e1 fp now mx o1 n1 e2 o2 n2] step eq wf_st by simp
        moreover note pushed_trans [OF e1(3), of "(e2, o2)"]
        ultimately show ?thesis using eq e1(2) setup_of_buffer(2) [OF e1(2)] by simp
      qed
    qed blast
    obtain e1 o1 n1 where eq: "st = (e1, o1, n1)" by (metis prod_cases3)
    obtain wake' e2 outs' where r_eq: "r = (wake', e2, outs')" by (metis prod_cases3)
    with r True sent have same: "e2 = e'" "outs' = outs @ ms" by (auto simp: poll_budget_def Let_def)
    from P eq have e1: "hold_known e e1" "buffer_of e1 = buffer_of ?e"
      "pushed (stream_or_setup ?e) (?e, outs) (e1, o1)" by auto
    from poll_iter_hold(2) [OF _ e1(1), of fp now mx o1 n1 wake' e' "outs @ ms"] it eq r_eq same wf_st
    have last: "hold_known e e'"
      "pushed (\<lambda>m. \<exists>h. o_hold (out e') = Some h \<and> of_frame h m) (e1, o1) (e', outs @ ms)" by auto
    have "buffer_of e' = buffer_of e1"
      using poll_iter_keeps(2) [OF _ holds_back_zero, of e1 fp now mx o1 n1 wake' e' "outs @ ms"] it eq r_eq same wf_st
      by simp
    then have "stream_or_setup ?e = stream_or_setup e'"
      using setup_of_buffer(2) [of e' ?e] e1(2) by simp
    with e1(3) have "pushed (stream_or_setup e') (?e, outs) (e1, o1)" by simp
    with last show ?thesis by (auto simp: pushed_def)
  qed
  then show "hold_known e e'" and "\<And>m. m \<in> set ms \<Longrightarrow>
      stream_or_setup e' m \<or> (\<exists>h. o_hold (out e') = Some h \<and> of_frame h m)" by blast+
qed


section \<open>Since when\<close>

lemma step_hold:
  assumes step: "engine_step fp e e'" and wf: "engine_wf e" and h': "o_hold (out e') = Some h'"
  shows "(\<exists>h. o_hold (out e) = Some h \<and> hf_payload h' = hf_payload h \<and> hf_headers h' = hf_headers h) \<or>
    (\<exists>e0. (engine_step fp)\<^sup>*\<^sup>* e e0 \<and> (engine_step fp)\<^sup>*\<^sup>* e0 e' \<and> held_from e0 h')"
proof -
  have on: ?thesis if "holds_on e e'" using that h' by (auto simp: holds_on_def)
  from step show ?thesis
  proof cases
    case (poll now mx outs wake outs')
    have "buf_wf e" using wf by (simp add: engine_wf_def)
    obtain ms where "outs' = outs @ ms"
      using poll_budget_keeps [OF \<open>buf_wf e\<close> holds_back_zero, where fp = fp and now = now and mx = mx and outs = outs]
        poll by (metis option.inject prod.inject)
    with poll poll_sources(1) [OF \<open>buf_wf e\<close>] have "hold_known e e'" by blast
    with on h' r_into_rtranclp [of "engine_step fp", OF step] show ?thesis
      unfolding hold_known_def by blast
  next
    case (command now cmd)
    from command_hold [OF wf, of now cmd h'] h' command r_into_rtranclp [of "engine_step fp", OF step]
    show ?thesis by blast
  next
    case (dump_after now taken mode cover)
    let ?u = "unsend taken e"
    have u: "engine_step fp e ?u" by (rule engine_step.unsend)
    have wu: "engine_wf ?u" using keeps_unsend wf by (auto simp: keeps_def)
    show ?thesis
    proof (cases "can_dump e")
      case True
      then have e': "e' = fst (run_command now (DumpCmd mode cover) ?u)"
        using dump_after by (simp add: run_dump_after_def)
      have "engine_step fp ?u e'" unfolding e' by (rule engine_step.command)
      moreover have "held_from ?u h' \<or> (\<exists>h. o_hold (out ?u) = Some h \<and>
          hf_payload h' = hf_payload h \<and> hf_headers h' = hf_headers h)"
        using command_hold [OF wu, of now "DumpCmd mode cover" h'] h' e' by simp
      ultimately show ?thesis
        using u holds_on_unsend [of e taken] unfolding holds_on_def by (metis r_into_rtranclp)
    next
      case False
      then have "holds_on e e'"
        using dump_after by (auto simp: run_dump_after_def forget_sent_def hold_set_pending Let_def
            intro!: holds_on_same)
      then show ?thesis by (rule on)
    qed
  qed (use on h' wf holds_on_ingest_start holds_on_ingest holds_on_connected holds_on_disconnected
      holds_on_unsend no_hold_reset in \<open>auto simp: ingest_end_def ingest_metadata_def end_after_def
      cancel_end_def set_keep_history_def set_restore_after_reconnect_def holds_on_same\<close>)
qed

lemma held_since:
  assumes "(engine_step fp)\<^sup>*\<^sup>* start e" and wf: "engine_wf start" and none: "o_hold (out start) = None"
    and "o_hold (out e) = Some h"
  shows "\<exists>e0. (engine_step fp)\<^sup>*\<^sup>* start e0 \<and> (engine_step fp)\<^sup>*\<^sup>* e0 e \<and> held_from e0 h"
  using assms(1,4)
proof (induction arbitrary: h rule: rtranclp_induct)
  case (step e1 e2)
  have "engine_wf e1" using engine_machine.steps_inv [OF step.hyps(1) wf] .
  from step_hold [OF step.hyps(2) this step.prems] show ?case
  proof (elim disjE exE conjE)
    fix h1 assume "o_hold (out e1) = Some h1" "hf_payload h = hf_payload h1" "hf_headers h = hf_headers h1"
    with step.IH [of h1] step.hyps(2) show ?thesis
      unfolding held_from_def by (metis rtranclp.rtrancl_into_rtrancl)
  next
    fix e0 assume "(engine_step fp)\<^sup>*\<^sup>* e1 e0" "(engine_step fp)\<^sup>*\<^sup>* e0 e2" "held_from e0 h"
    with step.hyps(1) show ?thesis by (meson rtranclp_trans)
  qed
qed (use none in simp)

section \<open>What is discarded\<close>

text \<open>\<open>repeats_keyframe k e m\<close>: \<open>m\<close> is keyframe \<open>k\<close> of \<open>e\<close> again, which the output had passed.\<close>

definition repeats_keyframe :: "nat \<Rightarrow> engine \<Rightarrow> out_msg \<Rightarrow> bool" where
  "repeats_keyframe k e m \<longleftrightarrow>
     (\<exists>x. keyframe_passed k x e \<and> m_kind m = Video \<and> m_payload m = still x)"

text \<open>
  \<open>recorded_after fp e m\<close>: \<open>m\<close> carries something received after \<open>e\<close> was discarded, or repeats
  a keyframe that was, or is the setup of a session the engine had since.
\<close>

definition recorded_after :: "(bytes \<Rightarrow> u64) \<Rightarrow> engine \<Rightarrow> out_msg \<Rightarrow> bool" where
  "recorded_after fp e m \<longleftrightarrow>
     (case m_seq m of
        Some s \<Rightarrow> next_seq e \<le> s
      | None \<Rightarrow> \<exists>e0. (engine_step fp)\<^sup>*\<^sup>* (discard e) e0 \<and>
          (setup_of e0 m \<or> (\<exists>k \<ge> next_seq e. repeats_keyframe k e0 m)))"

lemma of_frame_recorded:
  assumes wf: "engine_wf e" and steps: "(engine_step fp)\<^sup>*\<^sup>* (discard e) e1"
    and h: "o_hold (out e1) = Some h" and m: "of_frame h m"
  shows "recorded_after fp e m"
proof -
  obtain e0 where e0: "(engine_step fp)\<^sup>*\<^sup>* (discard e) e0" and "held_from e0 h"
    using held_since [OF steps discard_engine_wf [OF wf] no_hold_reset(2) h] by blast
  then obtain k x where k: "keyframe_passed k x e0" "hf_payload h = still x"
    "hf_headers h = headers_at e0 (e_session x) k" by (auto simp: held_from_def)
  have "engine_wf e0" using engine_machine.steps_inv [OF e0 discard_engine_wf [OF wf]] .
  then have "base_seq e0 \<le> k"
    using k(1) entry_bounds by (auto simp: keyframe_passed_def engine_wf_def buf_wf_def)
  with discarded_base [OF wf e0] have new: "next_seq e \<le> k" by simp
  have "setup_of e0 m" if "in_headers (hf_headers h) m"
    using headers_at_setup that k(3) by simp
  with m k new have "setup_of e0 m \<or> (\<exists>k \<ge> next_seq e. repeats_keyframe k e0 m)"
    by (auto simp: of_frame_def repeats_keyframe_def)
  with m e0 show ?thesis by (auto simp: recorded_after_def of_frame_def)
qed

lemma sent_recorded:
  assumes wf: "engine_wf e" and steps: "(engine_step fp)\<^sup>*\<^sup>* (discard e) e1"
    and sent: "poll_budget fp now mx (e1, outs) = Some (wake, e2, outs @ ms)" and m: "m \<in> set ms"
  shows "recorded_after fp e m"
proof -
  have wf1: "engine_wf e1" using engine_machine.steps_inv [OF steps discard_engine_wf [OF wf]] .
  have steps2: "(engine_step fp)\<^sup>*\<^sup>* (discard e) e2"
    using steps engine_step.poll [OF sent] by (rule rtranclp.rtrancl_into_rtrancl)
  have "buf_wf e1" using wf1 by (simp add: engine_wf_def)
  from poll_sources(2) [OF this sent m] show ?thesis
  proof (elim disjE exE conjE)
    assume "stream_or_setup e2 m"
    with sent_in_buffer [OF wf1 sent m] discarded_base [OF wf steps] steps2 show ?thesis
      by (cases "m_seq m") (auto simp: stream_or_setup_def recorded_after_def)
  next
    fix h assume "o_hold (out e2) = Some h" "of_frame h m"
    with of_frame_recorded [OF wf steps2] show ?thesis by blast
  qed
qed


end
