(* ===== verification/Engine_Promises.thy ===== *)
theory Engine_Promises
  imports Engine_Held
begin

text \<open>
  What the operator is promised: which commands are refused and that a refused one changes
  nothing, what a new delay and a dump guarantee from the moment they are acknowledged, and what
  a second dump during a hold comes to.
\<close>

section \<open>Refused commands\<close>

lemma finish_Inr [simp]: "finish now e \<noteq> (e', Inl err)"
  by (simp add: finish_def Let_def)

lemma set_delay_accepted: "cmd_set_delay now ms mode e \<noteq> (e', Inl err)"
  by (simp add: cmd_set_delay_def Let_def split: option.split delay_mode.split)

lemma can_dump_clear_notes [simp]: "can_dump (clear_notes e) = can_dump e"
  by (simp add: can_dump_def dump_delay_def clear_notes_def)

text \<open>
  What refuses a command, said on its own: a delay over the maximum, or one that at the
  encoder's bit rate and a fifth more does not fit the memory limit; and a dump while live, when
  there is no delay to go back to.
\<close>

definition memory_needed :: "nat \<Rightarrow> engine \<Rightarrow> nat" where
  "memory_needed ms e = bitrate_bps (stats e) div 8 * ms div 1000 * 6 div 5"

definition refused :: "command \<Rightarrow> engine \<Rightarrow> bool" where
  "refused cmd e \<longleftrightarrow>
     (case cmd of
        SetDelay ms mode \<Rightarrow>
          max_delay_ms (config e) < ms \<or>
          ingest_active e \<and> ram_cap_bytes (config e) < memory_needed ms e
      | DumpCmd mode cover \<Rightarrow>
          o_started (out e) \<and> ingest_active e \<and> o_end_mark (out e) = None \<and> dump_delay e < 500 * MS
      | _ \<Rightarrow> False)"

lemma check_memory_cases:
  "check_memory ms e =
     (if ingest_active e \<and> ram_cap_bytes (config e) < memory_needed ms e
      then Some (NotEnoughMemory ((memory_needed ms e + (2 ^ 20 - 1)) div 2 ^ 20) (ram_cap_bytes (config e) div 2 ^ 20))
      else None)"
  by (auto simp: check_memory_def memory_needed_def Let_def)

lemma accepted_command:
  assumes "run_command now cmd e = (e', Inr a)"
  shows "\<not> refused cmd e"
proof (cases cmd)
  case (DumpCmd mode cover)
  with assms have "can_dump e" by (auto simp: run_command_def cmd_dump_def split: if_splits)
  with DumpCmd show ?thesis by (auto simp: refused_def can_dump_def)
qed (use assms in \<open>auto simp: run_command_def refused_def check_memory_cases split: if_splits\<close>)

lemma refused_command:
  assumes "run_command now cmd e = (e', Inl err)"
  shows "case cmd of
      SetDelay ms mode \<Rightarrow> e' = e \<and>
        (if max_delay_ms (config e) < ms then err = TooLarge ms (max_delay_ms (config e))
         else check_memory ms e = Some err)
    | DumpCmd mode cover \<Rightarrow> \<not> can_dump e \<and> err = NothingToDump \<and> e' = clear_notes e
    | _ \<Rightarrow> False"
  using assms set_delay_accepted [of now _ _ "clear_notes e" e' err]
  by (auto simp: run_command_def cmd_dump_def Let_def
      split: command.splits option.splits if_splits prod.splits)

text \<open>
  C34. Exactly which commands are refused, and with what: a delay if and only if it is over the
  maximum or needs more than the memory limit holds, and then nothing changes; a dump if and
  only if the stream is live, and then nothing but the notices of earlier changes is cleared.
  Every other command, and every other delay and dump, is accepted.
\<close>

theorem refused_commands_change_nothing:
  "case run_command now cmd e of
     (e', Inl err) \<Rightarrow> refused cmd e \<and>
       (case cmd of
          SetDelay ms mode \<Rightarrow> e' = e \<and>
            err = (if max_delay_ms (config e) < ms then TooLarge ms (max_delay_ms (config e))
                   else NotEnoughMemory ((memory_needed ms e + (2 ^ 20 - 1)) div 2 ^ 20)
                          (ram_cap_bytes (config e) div 2 ^ 20))
        | _ \<Rightarrow> e' = clear_notes e \<and> err = NothingToDump)
   | (_, Inr _) \<Rightarrow> \<not> refused cmd e"
proof (cases "run_command now cmd e")
  case (Pair e' r)
  show ?thesis
  proof (cases r)
    case (Inl err)
    with refused_command [of now cmd e e' err] Pair show ?thesis
      by (cases cmd) (auto simp: refused_def check_memory_cases can_dump_def not_le split: if_splits)
  next
    case (Inr a)
    with accepted_command [of now cmd e e' a] Pair show ?thesis by simp
  qed
qed

section \<open>Going back to a delay\<close>

lemma clear_notes_out [simp]:
  "o_pending (out (clear_notes e)) = o_pending (out e)" "o_delay (out (clear_notes e)) = o_delay (out e)"
  "o_started (out (clear_notes e)) = o_started (out e)" "o_target (out (clear_notes e)) = o_target (out e)"
  "cursor (clear_notes e) = cursor e" "o_end_mark (out (clear_notes e)) = o_end_mark (out e)"
  "buffer_of (clear_notes e) = buffer_of e" "config (clear_notes e) = config e"
  "ingest_active (clear_notes e) = ingest_active e" "next_seq (clear_notes e) = next_seq e"
  "base_seq (clear_notes e) = base_seq e" "ring (clear_notes e) = ring e"
  "entry (clear_notes e) s = entry e s"
  by (simp_all add: clear_notes_def)

lemma rewind_holds_back:
  assumes wf: "buf_wf e" and none: "o_pending (out e) = PendNone" and started: "o_started (out e)"
    and more: "o_delay (out e) < d" and mx: "d \<le> max_delay_ms (config e) * MS"
    and full: "newest_sync_arrived_by e (checked_sub now d) = Some k"
  shows "holds_back d (rewind now d e)"
proof -
  note old = newest_sync_old [OF full]
  define delay where "delay = now - arrival_or now e k"
  have d: "d \<le> delay" using old(1) by (simp add: delay_def)
  define e2 where "e2 = splice_to k delay e"
  have "rewind now d e = (if gap_after e2 k (delay - d) then set_pending (Reduce d) e2 else e2)"
  proof -
    have "\<not> now - arrival_or now e k \<le> o_delay (out e)" using more d by (simp add: delay_def)
    with full show ?thesis by (simp add: rewind_def Let_def e2_def delay_def)
  qed
  moreover have "holds_back d e2" "o_delay (out e2) = delay" "o_started (out e2)" "config e2 = config e"
    using old(2) none mx d by (auto simp: e2_def holds_back_def splice_to_cursor)
  moreover have "holds_back d (set_pending (Reduce d) e2)"
    using calculation d mx by (auto simp: holds_back_def)
  ultimately show ?thesis by simp
qed

lemma buffer_of_newest:
  assumes "buffer_of e' = buffer_of e"
  shows "newest_sync_arrived_by e' t = newest_sync_arrived_by e t"
proof -
  have "arrived_by e' = arrived_by e"
    by (simp add: fun_eq_iff arrived_by_def buffer_of_entry [OF assms])
  then show ?thesis
    by (cases t) (simp_all add: newest_sync_arrived_by_def buffer_of_eqD(2) [OF assms])
qed

lemma no_dump_delay: "\<not> after_dump p \<Longrightarrow> with_dump_delay d p = None"
  by (induction d p rule: with_dump_delay.induct) auto

lemma history_fields [simp]:
  "o_history_short (out (set_pending p e)) = o_history_short (out e)"
  "o_history_short (out (put_pending p e)) = o_history_short (out e)"
  "o_history_short (out (splice_to k d e)) = o_history_short (out e)"
  "o_history_short (out (end_hold now e)) = o_history_short (out e)"
  by (simp_all add: set_pending_def put_pending_def splice_to_def end_hold_def Let_def
      split: pending.split option.split)

lemma mask_anchor_target:
  "mask_anchor now d started anchor mute shown dump e = (a, e1) \<Longrightarrow>
   o_target (out e1) = o_target (out e) \<and> o_history_short (out e1) = o_history_short (out e)"
  by (auto simp: mask_anchor_def mask_from_def Let_def split: option.splits prod.splits if_splits)

lemma pending_step_target:
  "pending_step now e = Inl e' \<Longrightarrow>
     o_target (out e') = o_target (out e) \<and> o_history_short (out e') = o_history_short (out e)"
  "pending_step now e = Inr e' \<Longrightarrow>
     o_target (out e') = o_target (out e) \<and> o_history_short (out e') = o_history_short (out e)"
proof -
  show "o_target (out e') = o_target (out e) \<and> o_history_short (out e') = o_history_short (out e)"
    if "pending_step now e = Inr e'"
    using that by (auto simp: pending_step_def run_dump_def Let_def
        split: pending.splits option.splits if_splits)
  have mask: "o_target (out (run_mask now d started anchor mute shown dump e)) = o_target (out e) \<and>
      o_history_short (out (run_mask now d started anchor mute shown dump e)) = o_history_short (out e)"
    for d started anchor mute shown dump
    using mask_anchor_target [of now d started anchor mute shown dump e]
    by (auto simp: run_mask_def split: option.split prod.split)
  show "o_target (out e') = o_target (out e) \<and> o_history_short (out e') = o_history_short (out e)"
    if "pending_step now e = Inl e'"
    using that mask
    by (auto simp: pending_step_def run_dump_def run_go_live_def run_reduce_def run_hold_def
        run_replay_def Let_def split: pending.splits option.splits if_splits)
qed

text \<open>
  Rewinding takes effect at once: when the encoder's history reaches back \<open>ms\<close>, a
  higher delay asked for in rewind mode (with no dump under way) holds from the
  acknowledgement on: the output goes back to a keyframe at least that old, and nothing
  sent from then on is younger, whatever comes later in the change.
\<close>

theorem rewind_holds_at_once:
  assumes wf: "buf_wf e" and started: "o_started (out e)" and keep: "keep_history (config e)"
    and pend: "\<not> after_dump (o_pending (out e))" and more: "o_delay (out e) < ms * MS"
    and full: "newest_sync_arrived_by e (checked_sub now (ms * MS)) = Some k"
    and ok: "run_command now (SetDelay ms Rewind) e = (e', Inr a)"
  shows "holds_back (ms * MS) e' \<and> target_ms a = ms \<and> \<not> ack_history_short a"
proof -
  let ?d = "ms * MS"
  define e1 where "e1 = set_pending PendNone
      ((clear_notes e)\<lparr>out := (out (clear_notes e))\<lparr>o_target := ?d, o_history_short := False\<rparr>\<rparr>)"
  have ms: "0 < ms" using more by (cases ms) auto
  have mx: "ms \<le> max_delay_ms (config e)"
    using ok by (auto simp: run_command_def split: if_splits)
  have np: "with_dump_delay ?d (o_pending (out e)) = None"
    using pend by (rule no_dump_delay)
  have b: "buffer_of e1 = buffer_of e" by (simp add: e1_def)
  have wf1: "buf_wf e1" using wf buffer_of_wf [OF b] by simp
  have full1: "newest_sync_arrived_by e1 (checked_sub now ?d) = Some k"
    using full buffer_of_newest [OF b] by simp
  have o1: "o_pending (out e1) = PendNone" "o_started (out e1)" "o_delay (out e1) < ?d"
    "o_target (out e1) = ?d" "\<not> o_history_short (out e1)"
    using started more by (simp_all add: e1_def set_pending_def Let_def)
  have c1: "config e1 = config e" using buffer_of_eqD(6) [OF b] .
  have mx1: "?d \<le> max_delay_ms (config e1) * MS" using mx by (simp add: c1)
  have r: "holds_back ?d (rewind now ?d e1)" by (rule rewind_holds_back [OF wf1 o1(1-3) mx1 full1])
  have "run_command now (SetDelay ms Rewind) e = cmd_set_delay now ms Rewind (clear_notes e)"
    using ok mx by (auto simp: run_command_def split: option.splits if_splits)
  also have "\<dots> = finish now (rewind now ?d e1)"
    using np ms o1(2,3) keep unfolding cmd_set_delay_def Let_def e1_def [symmetric] by simp
  finally have fin: "e' = run_pending now (rewind now ?d e1)" "a = ack_of e'"
    using ok by (auto simp: finish_def Let_def)
  have wf2: "buf_wf (rewind now ?d e1)" using wf1 buffer_of_wf [of "rewind now ?d e1" e1] by simp
  have kept: "o_target (out (run_pending now e2)) = o_target (out e2) \<and>
      o_history_short (out (run_pending now e2)) = o_history_short (out e2)" for e2
    by (rule run_pending_keeps [of "\<lambda>x. o_target (out x) = o_target (out e2) \<and>
          o_history_short (out x) = o_history_short (out e2)"])
      (auto dest: pending_step_target)
  have "o_target (out (rewind now ?d e1)) = ?d \<and> \<not> o_history_short (out (rewind now ?d e1))"
    using o1 full1 by (simp add: rewind_def Let_def)
  with kept [of "rewind now ?d e1"] holds_back_run_pending [OF r wf2] fin show ?thesis
    by (simp add: ack_of_def MS_def)
qed

section \<open>A dump\<close>

text \<open>The clock never went back: arrivals are in order and none is in the future.\<close>

definition clock_ok :: "nat \<Rightarrow> engine \<Rightarrow> bool" where
  "clock_ok now e \<longleftrightarrow>
     sorted (map e_arrival (ring e)) \<and> (\<forall>x \<in> set (ring e). e_arrival x \<le> now)"

lemma entry_arrival_mono:
  assumes "clock_ok now e" and "entry e s = Some x" and "entry e t = Some y" and "s \<le> t"
  shows "e_arrival x \<le> e_arrival y"
proof -
  from assms(2,3) have i: "base_seq e \<le> s" "s - base_seq e < length (ring e)" "x = ring e ! (s - base_seq e)"
    "base_seq e \<le> t" "t - base_seq e < length (ring e)" "y = ring e ! (t - base_seq e)"
    by (auto simp: entry_def get_opt_Some split: if_splits)
  then have "s - base_seq e \<le> t - base_seq e" using assms(4) by simp
  with assms(1) i show ?thesis by (auto simp: clock_ok_def sorted_iff_nth_mono)
qed

text \<open>A replay starts before what had not aired.\<close>

lemma replay_from_before:
  assumes wf: "ring_wf e" and clock: "clock_ok now e" and d: "0 < d" and k: "replay_from now d e = Some k"
  obtains x where "k \<in> set (syncs e)" and "entry e k = Some x" and "k < max (cursor e) (base_seq e)"
    and "e_arrival x + d \<le> arrival_or now e (max (cursor e) (base_seq e))"
proof -
  let ?q = "max (cursor e) (base_seq e)"
  have edge: "newest_sync_arrived_by e (checked_sub (arrival_or now e ?q) d) = Some k"
    using k by (auto simp: replay_from_def Let_def split: if_splits)
  then obtain x where x: "k \<in> set (syncs e)" "entry e k = Some x" and old: "e_arrival x + d \<le> arrival_or now e ?q"
    by (auto simp: newest_sync_arrived_by_def checked_sub_def arrived_by_def
        dest!: find_last_Some split: if_splits option.splits)
  have "k < ?q"
  proof (rule ccontr)
    assume "\<not> k < ?q"
    moreover have "k < next_seq e" using entry_bounds [OF wf x(2)] by simp
    ultimately obtain y where y: "entry e ?q = Some y"
      using entry_range [OF wf, of ?q] by fastforce
    have "?q \<le> k" using \<open>\<not> k < ?q\<close> by (simp only: not_less)
    from entry_arrival_mono [OF clock y x(2) this] have "e_arrival y \<le> e_arrival x" .
    with old y d show False by (simp add: arrival_or_def)
  qed
  with x old that show thesis by blast
qed

lemma replay_holds_back:
  assumes wf: "engine_wf e" and clock: "clock_ok now e" and started: "o_started (out e)"
    and d: "0 < d" "d \<le> max_delay_ms (config e) * MS"
    and r: "replay_instead now d e = Some e'"
  shows "holds_back d e'"
proof -
  let ?q = "max (cursor e) (base_seq e)"
  let ?e1 = "set_pending (Replay ?q d) (split_session ?q (cut_from ?q e))"
  from r obtain k where k: "replay_from now d e = Some k"
    and e': "e' = splice_to k (now - arrival_or now ?e1 k) ?e1"
    by (auto simp: replay_instead_def Let_def split: option.splits)
  have wf': "ring_wf e" using wf by (auto simp: engine_wf_def buf_wf_def)
  obtain x where x: "entry e k = Some x" and lt: "k < ?q" and old: "e_arrival x + d \<le> arrival_or now e ?q"
    using replay_from_before [OF wf' clock d(1) k] by metis
  have now: "arrival_or now e ?q \<le> now"
    using clock by (auto simp: arrival_or_def clock_ok_def dest: entry_in_ring split: option.split)
  have "entry (cut_from ?q e) k = Some x"
    using x lt by (auto simp: entry_def cut_from_def Let_def get_opt_Some split: if_splits)
  then have x1: "entry ?e1 k = Some x" using buffer_of_entry [of ?e1 "split_session ?q (cut_from ?q e)"]
    by simp
  have "d \<le> now - arrival_or now ?e1 k" using old now x1 by (simp add: arrival_or_def)
  then show ?thesis
    using x1 d(2) buffer_of_eqD(6) [of ?e1 "split_session ?q (cut_from ?q e)"]
    by (auto simp: e' holds_back_def splice_to_cursor split_session_fields cut_from_fields)
qed

text \<open>A dump while broadcasting.\<close>

definition live :: "engine \<Rightarrow> bool" where
  "live e \<longleftrightarrow> o_started (out e) \<and> ingest_active e \<and> o_end_mark (out e) = None"

definition dump_started :: "engine \<Rightarrow> engine" where
  "dump_started e = (clear_notes e)\<lparr>out := (out (clear_notes e))\<lparr>o_history_short := False,
      o_target := dump_delay e\<rparr>\<rparr>"

lemma dump_started_fields:
  "buffer_of (dump_started e) = buffer_of e" "cursor (dump_started e) = cursor e"
  "o_started (out (dump_started e)) = o_started (out e)"
  "o_end_mark (out (dump_started e)) = o_end_mark (out e)"
  by (simp_all add: dump_started_def)

lemma dump_started_wf:
  "engine_wf e \<Longrightarrow> engine_wf (dump_started e)" "clock_ok now e \<Longrightarrow> clock_ok now (dump_started e)"
proof -
  have "keeps e (dump_started e)"
    by (rule keeps_frame [OF dump_started_fields(1)]) (simp_all add: dump_started_fields)
  then show "engine_wf e \<Longrightarrow> engine_wf (dump_started e)" by (simp add: keeps_def)
  show "clock_ok now e \<Longrightarrow> clock_ok now (dump_started e)"
    by (simp add: clock_ok_def buffer_of_eqD [OF dump_started_fields(1)])
qed

text \<open>The state of a dump that holds a frame, or covers it with the slate.\<close>

definition dumped :: "nat \<Rightarrow> bool \<Rightarrow> engine \<Rightarrow> engine" where
  "dumped now cover e =
     (let e2 = drop_buffer (dump_started e);
          e3 = (if cover
                then (let e3 = set_pending (Dump (dump_delay e) now (next_seq e2) None) e2
                      in e3\<lparr>out := (out e3)\<lparr>o_slate_change := o_slate_change (out e3) + 1,
                                             o_mask_visible := True\<rparr>\<rparr>)
                else set_pending (Hold (next_seq e2) (dump_delay e)) e2)
      in e3\<lparr>out := (out e3)\<lparr>o_hold := aired_keyframe now (dump_started e)\<rparr>\<rparr>)"

lemma live_dump:
  assumes "live e"
  shows "engine_dump now mode cover (clear_notes e) =
      (case (if mode = Rewind then replay_instead now (dump_delay e) (dump_started e) else None) of
         Some e2 \<Rightarrow> (DumpReplay, e2)
       | None \<Rightarrow> (if cover then DumpCover else DumpHold, dumped now cover e))"
proof -
  have "dump_delay (clear_notes e) = dump_delay e" by (simp add: dump_delay_def)
  with assms show ?thesis
    by (simp add: live_def engine_dump_def Let_def dump_started_def dumped_def split: option.split)
qed

lemma dumped_fields:
  "o_pending (out (dumped now cover e)) =
     (if cover then Dump (dump_delay e) now (next_seq e) None else Hold (next_seq e) (dump_delay e))"
  "o_hold (out (dumped now cover e)) = aired_keyframe now (dump_started e)"
  "buffer_of (dumped now cover e) = buffer_of (drop_buffer (dump_started e))"
  "o_started (out (dumped now cover e)) = o_started (out e)"
  "o_end_mark (out (dumped now cover e)) = o_end_mark (out e)"
  "config (dumped now cover e) = config e" "o_need_sync (out (dumped now cover e))"
  "cursor (dumped now cover e) = next_seq e" "ring (dumped now cover e) = []"
  "syncs (dumped now cover e) = []" "next_seq (dumped now cover e) = next_seq e"
  "base_seq (dumped now cover e) = next_seq e"
  using buffer_of_eqD [OF dump_started_fields(1), of e] dump_started_fields [of e]
  by (simp_all add: dumped_def Let_def)
    (simp_all add: drop_buffer_def Let_def set_pending_def)

lemma live_dump_keeps:
  assumes wf: "engine_wf e" and clock: "clock_ok now e" and live: "live e" and can: "can_dump e"
    and dump: "engine_dump now mode cover (clear_notes e) = (oc, e1)"
  shows "buf_wf e1 \<and> (\<forall>s \<ge> max (cursor e) (base_seq e). entry e1 s = None) \<and>
    (\<forall>h. o_hold (out e1) = Some h \<longrightarrow> held_from e h) \<and>
    (if oc = DumpCover
     then cover \<and> o_pending (out e1) = Dump (dump_delay e) now (next_seq e) None
     else holds_back (dump_delay e) e1)"
proof -
  let ?d = "dump_delay e"
  have mx: "?d \<le> max_delay_ms (config e) * MS" by (simp add: dump_delay_def)
  have delay: "0 < ?d" using can live by (auto simp: can_dump_def live_def MS_def)
  have started: "o_started (out (dump_started e))" "o_end_mark (out (dump_started e)) = None"
    using live by (simp_all add: live_def dump_started_fields)
  note wf0 = dump_started_wf(1) [OF wf] and clock0 = dump_started_wf(2) [OF clock]
  note f0 = dump_started_fields [of e] buffer_of_eqD [OF dump_started_fields(1), of e]
  show ?thesis
  proof (cases "if mode = Rewind then replay_instead now ?d (dump_started e) else None")
    case (Some e2)
    then have r: "replay_instead now ?d (dump_started e) = Some e1" and oc: "oc = DumpReplay"
      using dump live_dump [OF live, of now mode cover] by (auto split: if_splits)
    note w = replay_instead_wf [OF wf0 started(2) r]
    have "entry e1 s = None" if "max (cursor e) (base_seq e) \<le> s" for s
      using w that entry_range [of e1 s] f0 by (auto simp: engine_wf_def buf_wf_def)
    moreover have "o_hold (out e1) = None"
      using r by (auto simp: replay_instead_def hold_set_pending Let_def split: option.splits)
    moreover have "holds_back ?d e1"
      using replay_holds_back [OF wf0 clock0 started(1) delay _ r] mx f0 by simp
    ultimately show ?thesis using w oc by (simp add: engine_wf_def)
  next
    case None
    then have e1: "e1 = dumped now cover e" and oc: "oc = (if cover then DumpCover else DumpHold)"
      using dump live_dump [OF live, of now mode cover] by simp_all
    have "buf_wf (dump_started e)" using wf0 by (simp add: engine_wf_def)
    then have "held_from e h" if "o_hold (out e1) = Some h" for h
      using that aired_keyframe_held [of "dump_started e" now h] held_from_frame [OF f0(1,2), of h]
      by (simp add: e1 dumped_fields)
    moreover have "buf_wf e1"
      using buffer_of_wf [OF dumped_fields(3), of now cover e] drop_buffer_wf \<open>buf_wf (dump_started e)\<close>
      by (simp add: e1)
    moreover have "entry e1 s = None" for s
      by (simp add: e1 entry_def dumped_fields get_opt_def)
    ultimately show ?thesis using oc e1 mx live by (auto simp: dumped_fields holds_back_def live_def)
  qed
qed

text \<open>
  C2. A dump keeps the delay, whatever its mode and with a slate or without: every dump that is
  accepted throws away everything that had not aired. While broadcasting (the encoder there,
  not ending), the frame held from then on, if any, is the newest keyframe the output had
  passed, and nothing airs before it is as old as the delay the dump goes back to, whether the
  last stretch is replayed or the frame is held; with a slate, the change that waits for the
  slate to show starts now, with that delay and from what is received next. While ending or
  without the encoder, once anything was started, no change is pending and no frame is held.
\<close>

theorem dump_keeps_delay:
  assumes wf: "engine_wf e" and clock: "clock_ok now e"
    and ok: "run_command now (DumpCmd mode cover) e = (e', Inr a)"
  shows "(\<forall>s \<ge> max (cursor e) (base_seq e). entry e' s = None) \<and>
    (if live e
     then (\<forall>h. o_hold (out e') = Some h \<longrightarrow> held_from e h) \<and>
       (if ack_dump a = Some DumpCover
        then cover \<and> o_pending (out e') = Dump (dump_delay e) now (next_seq e) None
        else holds_back (dump_delay e) e')
     else if o_started (out e) then o_pending (out e') = PendNone \<and> o_hold (out e') = None
     else True)"
proof -
  obtain oc e1 where dump: "engine_dump now mode cover (clear_notes e) = (oc, e1)" by fastforce
  have can: "can_dump e" and e': "e' = run_pending now e1" and a: "ack_dump a = Some oc"
    using ok dump by (auto simp: run_command_def cmd_dump_def Let_def split: if_splits)
  have "buffer_of e' = buffer_of e1" by (simp add: e')
  then have same: "entry e' s = entry e1 s" for s by (rule buffer_of_entry)
  show ?thesis
  proof (cases "live e")
    case True
    note d = live_dump_keeps [OF wf clock True can dump]
    have "\<forall>h. o_hold (out e') = Some h \<longrightarrow> held_from e h"
      using held_by_frame [OF holds_on_run_pending] d unfolding e' by blast
    moreover have "e' = e1" if "oc = DumpCover"
      using d that
      by (simp add: e' run_pending.simps [of now e1] pending_step_def run_dump_def Let_def
          SLATE_CONFIRM_WAIT_def SEC_def)
    ultimately show ?thesis
      using True d a same holds_back_run_pending [of "dump_delay e" e1 now] by (auto simp: e')
  next
    case False
    then have e1: "e1 = (if o_started (out e) then set_pending PendNone (drop_buffer (clear_notes e))
        else drop_buffer (clear_notes e))"
      using dump by (auto simp: engine_dump_def live_def split: if_splits)
    have "buffer_of e1 = buffer_of (drop_buffer (clear_notes e))" by (simp add: e1)
    from buffer_of_eqD(1) [OF this] have "entry e1 s = None" for s by (simp add: entry_def get_opt_def)
    moreover have "e' = e1" if "o_started (out e)"
    proof -
      have "o_pending (out e1) = PendNone" using that e1 by simp
      then show ?thesis unfolding e' by (subst run_pending.simps) (simp add: pending_step_def)
    qed
    ultimately show ?thesis using False same e1 by (auto simp: hold_set_pending)
  qed
qed

section \<open>A dump during a hold\<close>

text \<open>
  \<open>wait_step fp from till\<close>: what can happen while a dump waits for the delay, from \<open>from\<close> on and
  before \<open>till\<close>: the encoder sends, stops and comes back, the connection is lost and made again, and
  the output loop is called. (No command, and the stream is not ended.)
\<close>

inductive wait_step :: "(bytes \<Rightarrow> u64) \<Rightarrow> nat \<Rightarrow> nat \<Rightarrow> engine \<Rightarrow> engine \<Rightarrow> bool"
  for fp "from" till where
  start: "wait_step fp from till e (snd (ingest_start e))"
| stop: "wait_step fp from till e (ingest_end e)"
| metadata: "wait_step fp from till e (ingest_metadata payload e)"
| ingest: "from \<le> t \<Longrightarrow> wait_step fp from till e (ingest t k ts payload e)"
| connected: "wait_step fp from till e (snd (output_connected t e))"
| disconnected: "wait_step fp from till e (output_disconnected taken e)"
| poll: "t < till \<Longrightarrow> poll_budget fp t mx (e, outs) = Some (wake, e', outs') \<Longrightarrow> wait_step fp from till e e'"

text \<open>A hold with no frame, whose buffer starts at \<open>now\<close>.\<close>

definition holding_nothing :: "nat \<Rightarrow> nat \<Rightarrow> nat \<Rightarrow> engine \<Rightarrow> bool" where
  "holding_nothing n d now e \<longleftrightarrow>
     buf_wf e \<and> o_pending (out e) = Hold n d \<and> o_hold (out e) = None \<and> o_end_mark (out e) = None \<and>
     o_started (out e) \<and> (\<forall>x \<in> set (ring e). now \<le> e_arrival x)"

lemma holding_nothing_frame:
  assumes "holding_nothing n d now e" and "buf_wf e'" and "set (ring e') \<subseteq> set (ring e)"
    and "o_pending (out e') = o_pending (out e)" and "o_hold (out e') = o_hold (out e)"
    and "o_end_mark (out e') = o_end_mark (out e)" and "o_started (out e') = o_started (out e)"
  shows "holding_nothing n d now e'"
  using assms by (auto simp: holding_nothing_def)

lemma holding_nothing_out:
  assumes "holding_nothing n d now e" and "buffer_of e' = buffer_of e"
    and "o_pending (out e') = o_pending (out e)" and "o_hold (out e') = o_hold (out e)"
    and "o_end_mark (out e') = o_end_mark (out e)" and "o_started (out e') = o_started (out e)"
  shows "holding_nothing n d now e'"
  using assms(1) buffer_of_wf [OF assms(2)] buffer_of_eqD(1) [OF assms(2)] assms(3-6)
  by (simp add: holding_nothing_def)

lemma holding_nothing_evict:
  assumes "holding_nothing n d now e"
  shows "holding_nothing n d now (evict t e)"
proof -
  have wf: "buf_wf e" using assms by (simp add: holding_nothing_def)
  define e1 where "e1 = snd (evict_loop t (keep_from t e) (restart_point e) False e)"
  have b: "behind e e1" unfolding e1_def by (rule behind_evict_loop [OF wf])
  have "now \<le> e_arrival x" if x: "x \<in> set (ring e1)" for x
  proof -
    have w1: "ring_wf e1" and "ring_wf e" using b wf by (auto simp: behind_def buf_wf_def)
    have x1: "entry e1 (e_seq x) = Some x" using ring_entry [OF w1 x] .
    have "base_seq e \<le> e_seq x" "e_seq x < next_seq e" "base_seq e1 \<le> e_seq x"
      using entry_bounds [OF w1 x1] b by (auto simp: behind_def)
    then obtain y where y: "entry e (e_seq x) = Some y" using entry_range [OF \<open>ring_wf e\<close>] by blast
    with b \<open>base_seq e1 \<le> e_seq x\<close> x1 have "y = x" by (auto simp: behind_def)
    with y assms show ?thesis by (auto simp: holding_nothing_def dest: entry_in_ring)
  qed
  with assms b have h1: "holding_nothing n d now e1" by (auto simp: holding_nothing_def behind_def)
  have "holding_nothing n d now (memory_short t e1)"
    by (rule holding_nothing_out [OF h1])
      (use h1 in \<open>auto simp: memory_short_def holding_nothing_def Let_def split: option.split\<close>)
  with h1 show ?thesis by (simp add: evict_eq e1_def [symmetric])
qed

text \<open>Until the delay is back the output loop sends nothing, and the hold stays as it is.\<close>

lemma holding_nothing_poll:
  assumes h: "holding_nothing n d now e" and t: "t < now + d"
    and p: "poll_budget fp t mx (e, outs) = Some (wake, e', outs')"
  shows "outs' = outs \<and> holding_nothing n d now e'"
proof -
  let ?e = "evict t e"
  have he: "holding_nothing n d now ?e" by (rule holding_nothing_evict [OF h])
  have "\<not> arrival_or t ?e k + d \<le> t" if "find P (syncs ?e) = Some k" for P k
  proof -
    have "entry ?e k \<noteq> None"
      using sync_has_entry [OF _ that] he by (simp add: holding_nothing_def)
    then show ?thesis
      using he t by (fastforce simp: holding_nothing_def arrival_or_def dest: entry_in_ring)
  qed
  then have "run_pending t ?e = ?e"
    using he by (auto simp: run_pending.simps [of t ?e] pending_step_def holding_nothing_def
        run_hold_def Let_def split: option.split)
  moreover have "poll_iter fp t mx (?e, outs, 0) = Inl (None, ?e, outs)"
    using he by (simp add: poll_iter_def holding_nothing_def emit_hold_frame_def)
  ultimately have "outs' = outs \<and> e' = ?e"
    using p by (cases "o_connected (out ?e)") (auto simp: poll_budget_def Let_def loop.simps)
  with he show ?thesis by simp
qed

lemma holding_nothing_step:
  assumes "wait_step fp now (now + d) e e'" and h: "holding_nothing n d now e"
  shows "holding_nothing n d now e'"
  using assms(1)
proof cases
  case start
  have "ring e' = ring e" "out e' = out e"
    using h start by (simp_all add: holding_nothing_def ingest_start_def Let_def drop_idle_fields)
  with ingest_start_wf [of e] h start show ?thesis by (simp add: holding_nothing_def)
next
  case stop
  with ingest_end_wf [of e] h show ?thesis by (simp add: holding_nothing_def ingest_end_def)
next
  case (metadata payload)
  have "ring e' = ring e" "out e' = out e" by (simp_all add: metadata ingest_metadata_def)
  with metadata ingest_metadata_wf [of e payload] h show ?thesis by (simp add: holding_nothing_def)
next
  case (ingest t k ts payload)
  have wf: "buf_wf e" using h by (simp add: holding_nothing_def)
  show ?thesis
  proof (cases "\<not> ingest_active e \<or> payload = [] \<or> last_opt (sessions e) = None")
    case False
    from ingest_appends [OF wf this] obtain e2 x where e2: "e' = evict t e2" "buf_wf e2"
      "ring e2 = ring e @ [x]" "e_arrival x = t" "out e2 = out e"
      using ingest by metis
    with h ingest have "holding_nothing n d now e2" by (auto simp: holding_nothing_def)
    then show ?thesis unfolding e2(1) by (rule holding_nothing_evict)
  qed (use ingest h in \<open>simp add: ingest_ignored\<close>)
next
  case (connected t)
  then show ?thesis
    using h by (intro holding_nothing_out [OF h])
      (simp_all add: output_connected_def holding_nothing_def ask_sync_def Let_def)
next
  case (disconnected taken)
  then show ?thesis
    by (intro holding_nothing_out [OF h])
      (simp_all add: output_disconnected_def resume_at_def hold_set_pending split: option.split)
next
  case (poll t mx outs wake outs')
  with holding_nothing_poll [OF h] show ?thesis by blast
qed

lemma holding_nothing_steps:
  assumes "(wait_step fp now (now + d))\<^sup>*\<^sup>* e e'" and "holding_nothing n d now e"
  shows "holding_nothing n d now e'"
  using assms by (induction rule: rtranclp_induct) (auto intro: holding_nothing_step)

text \<open>The second dump replays nothing and finds no frame.\<close>

lemma second_dump:
  assumes wf: "engine_wf e" and clock: "clock_ok now e" and live: "live e" and can: "can_dump e"
    and after: "\<forall>k \<in> set (syncs e). cursor e \<le> k"
  shows "engine_dump now mode False (clear_notes e) = (DumpHold, dumped now False e)"
    and "o_hold (out (dumped now False e)) = None"
proof -
  note f = dump_started_fields [of e] buffer_of_eqD [OF dump_started_fields(1), of e]
  have "replay_instead now (dump_delay e) (dump_started e) = None"
  proof (rule ccontr)
    assume "replay_instead now (dump_delay e) (dump_started e) \<noteq> None"
    then obtain k where k: "replay_from now (dump_delay e) (dump_started e) = Some k"
      by (auto simp: replay_instead_def split: option.splits)
    have wf0: "ring_wf (dump_started e)"
      using dump_started_wf(1) [OF wf] by (simp add: engine_wf_def buf_wf_def)
    have "0 < dump_delay e" using can live by (auto simp: can_dump_def live_def MS_def)
    from replay_from_before [OF wf0 dump_started_wf(2) [OF clock] this k] obtain x where
      "k \<in> set (syncs e)" "entry (dump_started e) k = Some x" "k < max (cursor e) (base_seq e)"
      by (simp add: f) metis
    with after entry_bounds [OF wf0] f show False by fastforce
  qed
  with live_dump [OF live] show "engine_dump now mode False (clear_notes e) = (DumpHold, dumped now False e)"
    by simp
  have "find_last (\<lambda>s. s < cursor e) (syncs e) = None"
    using after by (auto simp: find_last_None)
  then show "o_hold (out (dumped now False e)) = None"
    by (simp add: dumped_fields aired_keyframe_def f)
qed


end
