(* ===== verification/Engine_Timestamps.thy ===== *)
theory Engine_Timestamps
  imports Engine_Reach
begin

text \<open>
  The timestamps of everything the output loop sends never go back, kind by kind, through
  splices, resent configuration, held frames and whatever pending change is carried out.
\<close>

section \<open>What sends nothing\<close>

definition calm :: "engine \<Rightarrow> engine \<Rightarrow> bool" where
  "calm e e' \<longleftrightarrow> lkt e' = lkt e \<and> o_last_out_ts (out e) \<le> o_last_out_ts (out e')"

lemma calm_refl [simp]: "calm e e"
  by (simp add: calm_def)

lemma calm_trans [trans]: "calm a b \<Longrightarrow> calm b c \<Longrightarrow> calm a c"
  by (auto simp: calm_def)

lemma stamps_calm: "calm (fst eo) e' \<Longrightarrow> stamps eo (e', snd eo)"
  by (rule stamps_silent) (auto simp: calm_def)

lemma calm_steps:
  "calm e (splice_to k d e)" "calm e (end_hold now e)" "calm e (set_pending p e)"
  "calm e (put_pending p e)" "calm e (move_to s e)" "calm e (ask_sync e)"
  "calm e (next_message e)" "calm e (note_first e)" "calm e (count_dropped e)"
  "calm e (back_under_max e)"
  by (simp_all add: calm_def end_hold_def set_pending_def put_pending_def move_to_def ask_sync_def
      next_message_def note_first_def back_under_max_def Let_def
      split: option.split pending.split)

lemma calm_mask_anchor:
  "mask_anchor now d started anchor mute shown dump e = (a, e1) \<Longrightarrow> calm e e1"
  by (auto simp: mask_anchor_def mask_from_def put_pending_def calm_def Let_def
      split: option.splits prod.splits if_splits)

lemma calm_put: "calm e e1 \<Longrightarrow> calm e (put_pending p e1)" "calm e e1 \<Longrightarrow> calm e (set_pending p e1)"
  by (blast intro: calm_trans calm_steps)+

lemma calm_out_fields:
  "calm e e1 \<Longrightarrow> o_last_kind_ts p = lkt e1 \<Longrightarrow> o_last_out_ts p = o_last_out_ts (out e1) \<Longrightarrow>
   calm e (e2\<lparr>out := p\<rparr>)"
  by (simp add: calm_def)

lemma calm_pending_step:
  "pending_step now e = Inl e' \<Longrightarrow> calm e e'" "pending_step now e = Inr e' \<Longrightarrow> calm e e'"
proof -
  have spliced: "calm e (splice_to k d (end_hold now e))" for k d
    by (rule calm_trans [OF calm_steps(2) calm_steps(1)])
  have mask: "calm e (run_mask now d started anchor mute shown dump e)"
    for d started anchor mute shown dump
  proof (cases "mask_anchor now d started anchor mute shown dump e")
    case (Pair a e1)
    note c = calm_mask_anchor [OF Pair]
    from calm_put(2) [OF c] calm_put(2) [OF calm_trans [OF c calm_steps(1)]] c show ?thesis
      by (auto simp: run_mask_def Pair split: option.split)
  qed
  have hold: "calm e (run_hold now s d e)" for s d
    using calm_out_fields [OF spliced refl refl] calm_out_fields [OF calm_refl [of e] refl refl]
    by (auto simp: run_hold_def Let_def calm_def split: option.split)
  have live: "calm e (run_go_live now s e)" for s
    using calm_put(1) [OF calm_steps(1)] calm_put(1) [OF calm_out_fields [OF calm_refl [of e]]]
    by (auto simp: run_go_live_def split: option.split)
  have reduce: "calm e (run_reduce now d e)" for d
    using calm_put(1) [OF calm_steps(1)] calm_put(1) [OF calm_refl]
    by (auto simp: run_reduce_def Let_def split: option.split)
  have replay: "calm e (run_replay now s d e)" for s d
    using calm_put(1) [OF calm_steps(1)] by (auto simp: run_replay_def Let_def split: option.split)
  show "calm e e'" if "pending_step now e = Inl e'"
    using that mask hold live reduce replay
    by (auto simp: pending_step_def run_dump_def Let_def split: pending.splits if_splits option.splits)
  show "calm e e'" if "pending_step now e = Inr e'"
    using that calm_put(1) [OF spliced] calm_put(1) [OF calm_refl]
      calm_put(2) [OF calm_out_fields [OF calm_refl [of e]]]
    by (auto simp: pending_step_def run_dump_def Let_def split: pending.splits if_splits option.splits)
qed

lemma calm_run_pending: "calm e (run_pending now e)"
  by (rule run_pending_keeps [of "calm e"]) (auto intro: calm_trans calm_pending_step)

lemma calm_evict: "buf_wf e \<Longrightarrow> calm e (evict now e)"
proof -
  assume "buf_wf e"
  have short: "calm e1 (memory_short now e1)" for e1
    by (auto simp: memory_short_def calm_def set_pending_def Let_def split: option.split pending.split)
  from evict_out [OF \<open>buf_wf e\<close>, of now] show ?thesis
  proof
    assume "out (evict now e) = out e"
    then show ?thesis by (simp add: calm_def)
  next
    assume "\<exists>e1. behind e e1 \<and> evict now e = memory_short now e1"
    then obtain e1 where "behind e e1" "evict now e = memory_short now e1" by blast
    with short [of e1] show ?thesis by (simp add: calm_def behind_def)
  qed
qed

section \<open>The loop\<close>

lemma calm_skip: "calm e (skip_evicted e)"
  using calm_trans [OF calm_steps(5) calm_steps(6)] by (simp add: skip_evicted_def)

lemma calm_skip_note: "calm e (note_session (skip_evicted e))"
proof -
  have "calm (skip_evicted e) (note_session (skip_evicted e))"
    using note_session_same [of "skip_evicted e"] calm_steps(6) [of "skip_evicted e"] by auto
  with calm_skip show ?thesis by (rule calm_trans)
qed

lemma calm_poll_sync:
  "poll_sync now e = Go e' \<Longrightarrow> calm e e'" "poll_sync now e = Again e' \<Longrightarrow> calm e e'"
  "poll_sync now e = Break w e' \<Longrightarrow> calm e e'"
proof -
  note spliced = calm_trans [OF calm_steps(1) calm_steps(10)] calm_put(2) [OF calm_steps(1)]
  show "poll_sync now e = Go e' \<Longrightarrow> calm e e'" "poll_sync now e = Break w e' \<Longrightarrow> calm e e'"
    "poll_sync now e = Again e' \<Longrightarrow> calm e e'"
    using spliced calm_steps(5)
    by (auto simp: poll_sync_def Let_def split: if_splits option.splits)
qed

lemma stamps_send_entry: "stamps eo (send_entry fp eo)"
proof -
  obtain e1 outs1 where h: "(if o_pending_headers (out (fst eo)) then emit_headers fp eo else eo) = (e1, outs1)"
    by fastforce
  then have "stamps eo (e1, outs1)"
    using stamps_emit_headers [of eo fp] stamps_refl [of eo]
    by (cases "o_pending_headers (out (fst eo))") auto
  also have "stamps (e1, outs1) (note_first e1, outs1)"
    using stamps_calm [of "(e1, outs1)" "note_first e1"] calm_steps(8) by simp
  also note stamps_emit_entry
  finally show ?thesis by (simp add: send_entry_def h)
qed

lemma stamps_poll_send:
  "poll_send fp now mx (e, outs, n) = Inr (e', outs', n') \<Longrightarrow> stamps (e, outs) (e', outs')"
  "poll_send fp now mx (e, outs, n) = Inl (w, e', outs') \<Longrightarrow> stamps (e, outs) (e', outs')"
proof -
  show "stamps (e, outs) (e', outs')" if "poll_send fp now mx (e, outs, n) = Inl (w, e', outs')"
    using that by (auto simp: poll_send_def Let_def stamps_refl split: option.splits if_splits prod.splits)
  show "stamps (e, outs) (e', outs')" if "poll_send fp now mx (e, outs, n) = Inr (e', outs', n')"
  proof -
    from that consider
        "e' = run_pending now (next_message (count_dropped e))" "outs' = outs"
      | e1 where "send_entry fp (e, outs) = (e1, outs')" "e' = run_pending now (next_message e1)"
      by (auto simp: poll_send_def Let_def split: if_splits prod.splits option.splits)
    then show ?thesis
    proof cases
      case 1
      then show ?thesis
        using stamps_calm [of "(e, outs)" e'] calm_trans [OF calm_trans [OF calm_steps(9) calm_steps(7)] calm_run_pending]
        by simp
    next
      case 2
      have "stamps (e, outs) (e1, outs')" using stamps_send_entry [of "(e, outs)" fp] 2(1) by simp
      also have "stamps (e1, outs') (e', outs')"
        using stamps_calm [of "(e1, outs')" e'] calm_trans [OF calm_steps(7) calm_run_pending] 2(2) by simp
      finally show ?thesis .
    qed
  qed
qed

lemma stamps_poll_media:
  "poll_media fp now mx (e, outs, n) = Inr (e', outs', n') \<Longrightarrow> stamps (e, outs) (e', outs')"
  "poll_media fp now mx (e, outs, n) = Inl (w, e', outs') \<Longrightarrow> stamps (e, outs) (e', outs')"
proof -
  let ?e = "note_session (skip_evicted e)"
  have quiet: "stamps (e, outs) (e1, outs)" if "calm ?e e1" for e1
    using stamps_calm [of "(e, outs)" e1] calm_trans [OF calm_skip_note that] by simp
  have skip: "stamps (e, outs) (skip_evicted e, outs)"
    using stamps_calm [of "(e, outs)" "skip_evicted e"] calm_skip by simp
  show "stamps (e, outs) (e', outs')" if it: "poll_media fp now mx (e, outs, n) = Inr (e', outs', n')"
  proof (cases "poll_sync now ?e")
    case (Again e1)
    with it quiet [OF calm_poll_sync(2) [OF Again]] show ?thesis
      by (auto simp: poll_media_def Let_def split: if_splits)
  next
    case (Go e1)
    with it have "poll_send fp now mx (e1, outs, n) = Inr (e', outs', n')"
      by (auto simp: poll_media_def Let_def split: if_splits)
    from stamps_trans [OF quiet [OF calm_poll_sync(1) [OF Go]] stamps_poll_send(1) [OF this]]
    show ?thesis .
  next
    case (Break v e1)
    with it show ?thesis by (auto simp: poll_media_def Let_def split: if_splits)
  qed
  show "stamps (e, outs) (e', outs')" if it: "poll_media fp now mx (e, outs, n) = Inl (w, e', outs')"
  proof (cases "end_reached (skip_evicted e)")
    case True
    with it have "e' = skip_evicted e" "outs' = outs" by (simp_all add: poll_media_def Let_def)
    with skip show ?thesis by simp
  next
    case False
    show ?thesis
    proof (cases "poll_sync now ?e")
      case (Break v e1)
      with it False have "e' = e1" "outs' = outs" by (simp_all add: poll_media_def Let_def)
      with quiet [OF calm_poll_sync(3) [OF Break]] show ?thesis by simp
    next
      case (Go e1)
      with it False have "poll_send fp now mx (e1, outs, n) = Inl (w, e', outs')"
        by (simp add: poll_media_def Let_def)
      from stamps_trans [OF quiet [OF calm_poll_sync(1) [OF Go]] stamps_poll_send(2) [OF this]]
      show ?thesis .
    next
      case (Again e1)
      with it False show ?thesis by (simp add: poll_media_def Let_def)
    qed
  qed
qed

lemma stamps_poll_iter:
  "poll_iter fp now mx (e, outs, n) = Inr (e', outs', n') \<Longrightarrow> stamps (e, outs) (e', outs')"
  "poll_iter fp now mx (e, outs, n) = Inl (w, e', outs') \<Longrightarrow> stamps (e, outs) (e', outs')"
proof -
  show "stamps (e, outs) (e', outs')" if it: "poll_iter fp now mx (e, outs, n) = Inr (e', outs', n')"
  proof (cases "poll_media fp now mx (e, outs, n) = Inr (e', outs', n')")
    case True
    then show ?thesis by (rule stamps_poll_media(1))
  next
    case False
    with it obtain s d f where e': "e' = (set_pending (Hold s d) e)\<lparr>out := (out (set_pending (Hold s d) e))
        \<lparr>o_hold := f, o_need_sync := True\<rparr>\<rparr>" "outs' = outs"
      by (auto simp: poll_iter_def Let_def split: pending.splits if_splits prod.splits)
    have "calm e e'" unfolding e' by (rule calm_out_fields [OF calm_steps(3)]) simp_all
    with stamps_calm [of "(e, outs)" e'] e'(2) show ?thesis by simp
  qed
  show "stamps (e, outs) (e', outs')" if it: "poll_iter fp now mx (e, outs, n) = Inl (w, e', outs')"
  proof -
    from it consider (media) "poll_media fp now mx (e, outs, n) = Inl (w, e', outs')"
      | (hold) "emit_hold_frame fp now (e, outs) = ((e', outs'), w)" | (wait) "e' = e" "outs' = outs"
      by (auto simp: poll_iter_def Let_def split: pending.splits if_splits prod.splits)
    then show ?thesis
    proof cases
      case media
      then show ?thesis by (rule stamps_poll_media(2))
    next
      case hold
      then show ?thesis using stamps_emit_hold_frame [of "(e, outs)" fp now] by simp
    qed (simp add: stamps_refl)
  qed
qed

text \<open>
  C9. Timestamps never go back: in everything one run of the output loop appends, each kind's
  timestamps (audio, video, data) are nondecreasing and continue from the last one sent of
  that kind, through splices, repeated decoder configuration, held frames and dumps; and the
  last timestamp of every kind stays at or below the output's, which the next run continues.
\<close>

theorem poll_timestamps_in_order:
  assumes wf: "buf_wf e" and ok: "ts_ok e"
    and sent: "poll_budget fp now max_bytes (e, outs) = Some (wake, e', outs @ ms)"
  shows "stamped (lkt e) ms (lkt e') \<and> ts_ok e'"
proof -
  let ?e = "run_pending now (evict now e)"
  have c: "calm e ?e" by (rule calm_trans [OF calm_evict [OF wf] calm_run_pending])
  have wf': "buf_wf ?e" using evict_wf [OF wf] buffer_of_wf [of ?e "evict now e"] by simp
  have "stamps (e, outs) (e', outs @ ms)"
  proof (cases "o_connected (out ?e)")
    case False
    with sent stamps_calm [of "(e, outs)" ?e] c show ?thesis by (simp add: poll_budget_def Let_def)
  next
    case connected: True
    obtain r st where r: "loop (poll_iter fp now max_bytes) (?e, outs, 0) = Some r"
      and P: "stamps (?e, outs) (fst st, fst (snd st))"
      and it: "poll_iter fp now max_bytes st = Inl r"
    proof (rule poll_loop_breaks [OF wf', of "\<lambda>st. stamps (?e, outs) (fst st, fst (snd st))" outs 0 fp now max_bytes])
      show "stamps (?e, outs) (fst (?e, outs, 0), fst (snd (?e, outs, 0 :: nat)))"
        by (simp add: stamps_refl)
      show "stamps (?e, outs) (fst st', fst (snd st'))"
        if "stamps (?e, outs) (fst st, fst (snd st))" "poll_iter fp now max_bytes st = Inr st'" for st st'
      proof -
        obtain e1 o1 n1 e2 o2 n2 where eq: "st = (e1, o1, n1)" "st' = (e2, o2, n2)"
          by (metis prod_cases3)
        from that eq stamps_trans [OF _ stamps_poll_iter(1), of "(?e, outs)" e1 o1 fp now max_bytes n1 e2 o2 n2]
        show ?thesis by simp
      qed
    qed blast
    obtain e1 o1 n1 where eq: "st = (e1, o1, n1)" by (metis prod_cases3)
    obtain v e2 o2 where r2: "r = (v, e2, o2)" by (metis prod_cases3)
    with r connected sent have "e2 = e'" "o2 = outs @ ms" by (simp_all add: poll_budget_def Let_def)
    with it eq r2 have "stamps (e1, o1) (e', outs @ ms)" using stamps_poll_iter(2) by blast
    with P eq have "stamps (?e, outs) (e', outs @ ms)" by (auto intro: stamps_trans)
    with stamps_calm [of "(e, outs)" ?e] c show ?thesis by (auto intro: stamps_trans)
  qed
  with ok show ?thesis by (simp add: stamps_def)
qed

end
