(* ===== verification/Engine_Examples.thy ===== *)
theory Engine_Examples
  imports Engine_Promises Engine_Timestamps
begin

text \<open>
  A concrete engine, on which the theorems of the engine are applied: one encoder session, an
  AVC keyframe and the frame after it, a destination connected and a delay of five seconds.
\<close>

definition demo_key :: entry_rec where
  "demo_key =
     \<lparr>e_seq = 0, e_arrival = 0, e_session = 1, e_kind = Video, e_ts = 0,
      e_payload = [0x17, 1, 0, 0, 0, 9], e_sync = True, e_config = None, e_cts = 0,
      e_hevc_nal = None, e_nal_offset = None\<rparr>"

definition demo_frame :: entry_rec where
  "demo_frame =
     \<lparr>e_seq = 1, e_arrival = 40000, e_session = 1, e_kind = Video, e_ts = 40,
      e_payload = [0x27, 1, 0, 0, 0, 8], e_sync = False, e_config = None, e_cts = 0,
      e_hevc_nal = None, e_nal_offset = None\<rparr>"

definition demo :: engine where
  "demo =
     \<lparr>config = default_config, ring = [demo_key, demo_frame], syncs = [0], base_seq = 0,
      next_seq = 2, bytes_held = 2 * (6 + ENTRY_OVERHEAD),
      sessions = [\<lparr>s_id = 1, s_headers = [], s_metadata = None, s_has_video = True,
                   s_last_video_ts = Some 40, s_frame_ms = 40\<rparr>],
      session_bytes = ENTRY_OVERHEAD, ingest_active = True, next_session = 2,
      out = new_output\<lparr>o_connected := True, o_delay := 5 * SEC, o_target := 5 * SEC\<rparr>,
      stats = new_tracker\<rparr>"

lemma demo_wf: "buf_wf demo"
  by (simp add: demo_def buf_wf_def ring_wf_def sessions_wf_def demo_key_def demo_frame_def
      entry_ok_def entry_cost_def session_cost_def cost_def headers_fit_def MAX_HEADERS_def upt_rec)

lemma demo_evict: "evict 5020000 demo = demo"
proof -
  have "evict_choice 5020000 k r demo = None" if "k = None" "r = None" for k r
    using that
    by (simp add: evict_choice_def demo_def demo_key_def demo_frame_def default_config_def cost_def
        ENTRY_OVERHEAD_def entry_def MS_def)
  then show ?thesis
    by (simp add: evict_def evict_loop.simps [of 5020000] keep_from_def restart_point_def)
      (simp add: demo_def default_config_def new_output_def)
qed

lemma demo_holds_back: "holds_back (5 * SEC) demo"
  by (simp add: holds_back_def demo_def new_output_def default_config_def SEC_def MS_def)

theorem poll_airs_nothing_early_witness:
  "\<exists>wake e' ms. poll_budget (\<lambda>_. 0) 5020000 1000 (demo, []) = Some (wake, e', ms) \<and>
    aged (5 * SEC) 5020000 demo ms \<and> holds_back (5 * SEC) e' \<and> buf_wf e'"
  using poll_airs_nothing_early [of demo "5 * SEC" 5020000 "\<lambda>_. 0" 1000 "[]"]
    demo_wf demo_holds_back by (simp add: demo_evict)

text \<open>On the demo the output is spliced to the keyframe a second time.\<close>

theorem splice_after_everything_sent_witness:
  "let e = splice_to 0 (5 * SEC) demo; t = fst (out_ts Video 0 (splice_to 0 (5 * SEC) e)) in
   entry e 0 = Some demo_key \<and> \<not> o_fresh (out e) \<and> o_last_out_ts (out e) + 40 \<le> t"
proof -
  let ?e = "splice_to 0 (5 * SEC) demo"
  have e: "entry ?e 0 = Some demo_key" by (simp add: entry_def demo_def get_opt_def)
  moreover have "\<not> o_fresh (out ?e)"
    by (simp add: splice_to_def entry_def demo_def get_opt_def Let_def)
  moreover have "frame_ms ?e (e_session demo_key) = 40"
    by (simp add: frame_ms_def demo_def demo_key_def)
  ultimately show ?thesis
    using splice_after_everything_sent [of ?e 0 demo_key "5 * SEC"]
    by (simp add: Let_def demo_key_def)
qed

theorem evict_keeps_unaired_witness:
  "let e = splice_to 0 (5 * SEC) demo in
   entry (evict (2000 * SEC) e) 1 = Some demo_frame \<and> out (evict (2000 * SEC) e) = out e"
proof -
  let ?e = "splice_to 0 (5 * SEC) demo"
  have "buf_wf ?e" using demo_wf buffer_of_wf [of ?e demo] by simp
  moreover have "restart_point ?e = Some 0"
    by (simp add: restart_point_def sync_at_or_before_def find_last_def demo_def splice_to_def
        entry_def get_opt_def Let_def)
  moreover have "bytes_held ?e + session_bytes ?e \<le> ram_cap_bytes (config ?e)"
    by (simp add: demo_def default_config_def ENTRY_OVERHEAD_def)
  moreover have "entry ?e 1 = Some demo_frame" by (simp add: entry_def demo_def get_opt_def)
  ultimately show ?thesis using evict_keeps_unaired [of ?e 0 1 demo_frame "2000 * SEC"]
    by (simp add: Let_def)
qed

theorem poll_returns_witness:
  "\<exists>wake e' ms. poll (\<lambda>_. 0) 5020000 (demo, []) = Some (wake, e', ms)"
  using poll_returns [OF demo_wf, of "\<lambda>_. 0" 5020000 "[]"] by simp

text \<open>The poll of the demo really sends: its keyframe, which is then 5.02 s old.\<close>

lemmas demo_eval =
  poll_iter_def poll_media_def skip_evicted_def end_reached_def note_session_def
  poll_sync_def start_keyframe_def cursor_session_def entry_def get_opt_def arrival_or_def
  demo_def new_output_def demo_key_def demo_frame_def SEC_def MS_def last_opt_def
  splice_to_def Let_def back_under_max_def default_config_def poll_send_def muted_def
  send_entry_def emit_headers_def headers_at_def note_first_def emit_entry_def
  past_leading_def gated_def spliced_payload_def out_ts_def msg_def count_sent_def
  next_message_def move_to_def payload_bytes_def keyframe_interval_def

lemma demo_poll_sends:
  "\<exists>wake e'. poll_budget (\<lambda>_. 0) 5020000 1000 (demo, []) =
     Some (wake, e', [\<lparr>m_kind = Video, m_timestamp = 0, m_payload = [0x17, 1, 0, 0, 0, 9],
                       m_seq = Some 0\<rparr>])"
proof -
  let ?ms = "[\<lparr>m_kind = Video, m_timestamp = 0, m_payload = [0x17, 1, 0, 0, 0, 9],
               m_seq = Some 0\<rparr>]"
  have pending: "run_pending 5020000 e = e" if "o_pending (out e) = PendNone" for e
    using that by (simp add: run_pending.simps [of _ e] pending_step_def)
  have "\<exists>e1. poll_iter (\<lambda>_. 0) 5020000 1000 (demo, [], 0) = Inr (e1, ?ms, 6) \<and>
      poll_iter (\<lambda>_. 0) 5020000 1000 (e1, ?ms, 6) = Inl (Some 5060000, e1, ?ms)"
    by (simp add: demo_eval pending)
  moreover have "o_pending (out demo) = PendNone" "o_connected (out demo)"
    by (simp_all add: demo_def new_output_def)
  ultimately show ?thesis
    by (auto simp: poll_budget_def Let_def demo_evict pending loop.simps)
qed

section \<open>Reaching and discarding\<close>

theorem reachable_engine_wf_witness:
  "engine_wf (ingest 0 Video 0 [0x17, 1, 0, 0, 0, 9]
      (snd (ingest_start (new_engine default_config))))"
proof -
  have "(engine_step (\<lambda>_. 0))\<^sup>*\<^sup>* (new_engine default_config)
      (ingest 0 Video 0 [0x17, 1, 0, 0, 0, 9] (snd (ingest_start (new_engine default_config))))"
    by (blast intro: engine_step.ingest_start engine_step.ingest rtranclp.intros)
  from reachable_engine_wf [OF this] show ?thesis by simp
qed

text \<open>After the demo's stream is discarded, a new encoder sends one audio message.\<close>

definition demo_after :: engine where
  "demo_after = snd (output_connected 0 (ingest 0 Audio 0 [0xaf, 1] (snd (ingest_start (discard demo)))))"

lemmas demo_after_eval =
  demo_after_def discard_def drop_buffer_def output_reset_def ingest_start_def drop_idle_session_def
  new_session_def count_sessions_def forget_headers_def session_cost_def ingest_def look_at_def
  inspect_audio_def r_u8_def plain_media_def tracker_bytes_def tracker_audio_def new_tracker_def
  map_last_def evict_def evict_loop.simps evict_choice_def keep_from_def restart_point_def
  cost_def ENTRY_OVERHEAD_def output_connected_def

lemma demo_after_sends:
  "\<exists>wake e'. poll_budget (\<lambda>_. 0) 5000000 1000 (demo_after, []) =
     Some (wake, e', [\<lparr>m_kind = Audio, m_timestamp = 0, m_payload = [0xaf, 1], m_seq = Some 2\<rparr>])"
  by (simp add: poll_budget_def loop.simps run_pending.simps pending_step_def
      demo_after_eval demo_eval)


section \<open>Commands on the demo\<close>

theorem refused_commands_change_nothing_witness:
  "\<exists>e'. run_command 0 (SetDelay 200000 Rewind) demo = (e', Inl (TooLarge 200000 120000)) \<and> e' = demo"
proof -
  obtain e' where r: "run_command 0 (SetDelay 200000 Rewind) demo = (e', Inl (TooLarge 200000 120000))"
    by (simp add: run_command_def demo_def default_config_def)
  from refused_commands_change_nothing [where now = 0 and cmd = "SetDelay 200000 Rewind" and e = demo] r show ?thesis by auto
qed

text \<open>The demo once it is broadcasting, a second behind.\<close>

definition demo_live :: engine where
  "demo_live = splice_to 0 SEC demo"

lemma demo_live_wf: "engine_wf demo_live"
proof -
  have "buf_wf demo_live" using demo_wf buffer_of_wf [of demo_live demo] by (simp add: demo_live_def)
  then show ?thesis
    by (simp add: engine_wf_def out_wf_def demo_live_def splice_to_def entry_def get_opt_def demo_def
        new_output_def Let_def)
qed

lemma demo_live_out:
  "o_started (out demo_live)" "o_pending (out demo_live) = PendNone" "o_delay (out demo_live) = SEC"
  "o_target (out demo_live) = 5 * SEC" "o_end_mark (out demo_live) = None"
  "config demo_live = default_config" "ingest_active demo_live" "stats demo_live = new_tracker"
  "ring demo_live = [demo_key, demo_frame]" "syncs demo_live = [0]" "base_seq demo_live = 0"
  by (simp_all add: demo_live_def splice_to_def entry_def get_opt_def demo_def new_output_def Let_def)

theorem rewind_holds_at_once_witness:
  "\<exists>e' a. run_command 6000000 (SetDelay 5000 Rewind) demo_live = (e', Inr a) \<and>
     holds_back 5000000 e' \<and> target_ms a = 5000 \<and> \<not> ack_history_short a"
proof -
  have taken: "run_command 6000000 (SetDelay 5000 Rewind) demo_live =
      cmd_set_delay 6000000 5000 Rewind (clear_notes demo_live)"
    by (simp add: run_command_def demo_live_out default_config_def check_memory_def bitrate_bps_def
        new_tracker_def)
  obtain e' r where r: "run_command 6000000 (SetDelay 5000 Rewind) demo_live = (e', r)" by fastforce
  then obtain a where a: "r = Inr a"
    using set_delay_accepted [of 6000000 5000 Rewind "clear_notes demo_live" e'] taken by (cases r) auto
  have k: "newest_sync_arrived_by demo_live (checked_sub 6000000 (5000 * MS)) = Some 0"
    by (simp add: newest_sync_arrived_by_def checked_sub_def arrived_by_def entry_def get_opt_def
        demo_live_out find_last_def MS_def demo_key_def)
  from rewind_holds_at_once [OF _ _ _ _ _ k, of e' a] r a demo_live_wf show ?thesis
    by (auto simp: demo_live_out engine_wf_def default_config_def MS_def SEC_def)
qed

theorem dump_keeps_delay_witness:
  "\<exists>e' a. run_command 6000000 (DumpCmd Rewind False) demo_live = (e', Inr a) \<and>
     holds_back 5000000 e' \<and> entry e' 1 = None"
proof -
  have d: "dump_delay demo_live = 5000000"
    by (simp add: dump_delay_def demo_live_out SEC_def default_config_def MS_def)
  have "can_dump demo_live" using d by (simp add: can_dump_def MS_def)
  then obtain e' a where r: "run_command 6000000 (DumpCmd Rewind False) demo_live = (e', Inr a)"
    by (cases "engine_dump 6000000 Rewind False (clear_notes demo_live)")
      (auto simp: run_command_def cmd_dump_def Let_def)
  have "clock_ok 6000000 demo_live"
    by (simp add: clock_ok_def demo_live_out demo_key_def demo_frame_def)
  moreover have "cursor demo_live = 0"
    by (simp add: demo_live_def splice_to_def entry_def get_opt_def demo_def Let_def)
  ultimately show ?thesis
    using dump_keeps_delay [OF demo_live_wf _ r] d r
    by (auto simp: demo_live_out live_def split: if_splits)
qed

theorem poll_timestamps_in_order_witness:
  "\<exists>wake e' ms. poll_budget (\<lambda>_. 0) 5020000 1000 (demo, []) = Some (wake, e', ms) \<and>
     ms \<noteq> [] \<and> stamped (lkt demo) ms (lkt e') \<and> ts_ok e'"
proof -
  obtain wake e' m where r: "poll_budget (\<lambda>_. 0) 5020000 1000 (demo, []) = Some (wake, e', [m])"
    using demo_poll_sends by blast
  have "ts_ok demo" by (simp add: ts_ok_def demo_def new_output_def)
  from poll_timestamps_in_order [OF demo_wf this, of "\<lambda>_. 0" 5020000 1000 "[]" wake e' "[m]"] r
  show ?thesis by auto
qed

text \<open>
  The demo with its keyframe aired, after one dump: the keyframe is held. A second dump, a
  second later, ends that.
\<close>

definition demo_held :: engine where
  "demo_held = fst (run_command 6000000 (DumpCmd MaskMode False) (move_to 1 demo_live))"

lemma demo_held_out:
  "o_pending (out demo_held) = Hold 2 (5 * SEC)" "o_hold (out demo_held) \<noteq> None"
  "o_started (out demo_held)" "ingest_active demo_held" "o_end_mark (out demo_held) = None"
  "syncs demo_held = []" "dump_delay demo_held = 5 * SEC" "next_seq demo_held = 2" "ring demo_held = []"
  by (simp_all add: demo_held_def demo_live_def run_command_def cmd_dump_def clear_notes_def
      can_dump_def dump_delay_def engine_dump_def set_pending_def drop_buffer_def count_sessions_def
      forget_headers_def session_cost_def aired_keyframe_def find_last_def run_pending.simps
      pending_step_def run_hold_def frame_ms_def demo_eval)

lemma demo_passed_wf: "engine_wf (move_to 1 demo_live)"
  using demo_live_wf buffer_of_wf [of "move_to 1 demo_live" demo_live]
  by (auto simp: engine_wf_def out_wf_def demo_live_out(5) move_to_def demo_live_def demo_def)

lemma demo_held_wf: "engine_wf demo_held"
  using keeps_command [of "move_to 1 demo_live"] demo_passed_wf by (simp add: keeps_def demo_held_def)


end
