(* ===== verification/Engine_Generation.thy ===== *)
theory Engine_Generation
  imports Engine_Reach
begin

text \<open>
  The number of the destination connection (\<^verbatim>\<open>generation\<close>): only
  \<^verbatim>\<open>output_connected\<close> changes it, by one, so no two connections have the same. What is
  queued for the destination is marked with it.
\<close>

abbreviation gen :: "engine \<Rightarrow> nat" where
  "gen e \<equiv> o_generation (out e)"

section \<open>Pending changes\<close>

lemma gen_pending [simp]:
  "gen (set_pending p e) = gen e" "gen (put_pending p e) = gen e" "gen (splice_to k d e) = gen e"
  "gen (end_hold now e) = gen e" "gen (back_to_target e) = gen e" "gen (back_under_max e) = gen e"
  "gen (memory_short now e) = gen e" "gen (rewind now d e) = gen e"
proof -
  show set [simp]: "gen (set_pending p e) = gen e" for p e
    by (simp add: set_pending_def Let_def split: pending.split)
  show [simp]: "gen (put_pending p e) = gen e" by (simp add: put_pending_def)
  show splice [simp]: "gen (splice_to k d e) = gen e" for k d e
    by (simp add: splice_to_def Let_def split: option.split)
  show "gen (end_hold now e) = gen e" by (simp add: end_hold_def split: option.split)
  show "gen (back_to_target e) = gen e" "gen (back_under_max e) = gen e"
    by (simp_all add: back_to_target_def back_under_max_def Let_def split: pending.split)
  show "gen (memory_short now e) = gen e"
    by (simp add: memory_short_def Let_def split: option.split)
  show "gen (rewind now d e) = gen e"
    by (auto simp: rewind_def Let_def split: option.split prod.split)
qed

lemma gen_mask_anchor:
  "mask_anchor now d started anchor mute shown dump e = (a, e1) \<Longrightarrow> gen e1 = gen e"
  by (auto simp: mask_anchor_def mask_from_def Let_def split: option.splits if_splits prod.splits)

lemma gen_pending_step:
  "pending_step now e = Inl e' \<Longrightarrow> gen e' = gen e" "pending_step now e = Inr e' \<Longrightarrow> gen e' = gen e"
proof -
  have mask: "gen (run_mask now d started anchor mute shown dump e) = gen e"
    for d started anchor mute shown dump
  proof (cases "mask_anchor now d started anchor mute shown dump e")
    case (Pair a e1)
    with gen_mask_anchor [OF Pair] show ?thesis by (simp add: run_mask_def split: option.split)
  qed
  have "gen (run_go_live now s e) = gen e" "gen (run_reduce now d e) = gen e"
    "gen (run_hold now s d e) = gen e" "gen (run_replay now s d e) = gen e" for s d
    by (simp_all add: run_go_live_def run_reduce_def run_hold_def run_replay_def Let_def
        split: option.split)
  with mask show "pending_step now e = Inl e' \<Longrightarrow> gen e' = gen e"
    "pending_step now e = Inr e' \<Longrightarrow> gen e' = gen e"
    by (auto simp: pending_step_def run_dump_def Let_def split: pending.splits if_splits option.splits)
qed

lemma gen_run_pending [simp]: "gen (run_pending now e) = gen e"
proof (induction now e rule: run_pending.induct)
  case (1 now e)
  then show ?case
    by (cases "pending_step now e") (auto simp: run_pending.simps [of now e] dest: gen_pending_step)
qed

lemma gen_evict: "buf_wf e \<Longrightarrow> gen (evict now e) = gen e"
  using evict_out [of e now] by (auto simp: behind_def)

section \<open>The output loop\<close>

lemma gen_quiet: "quiet e' = quiet e \<Longrightarrow> gen e' = gen e"
  by (drule arg_cong [of _ _ gen]) (simp add: quiet_fields)

lemma gen_moves [simp]:
  "gen (move_to s e) = gen e" "gen (ask_sync e) = gen e" "gen (skip_evicted e) = gen e"
  "gen (note_session e) = gen e" "gen (next_message e) = gen e" "gen (count_dropped e) = gen e"
  by (simp_all add: move_to_def ask_sync_def skip_evicted_def note_session_def next_message_def
      count_dropped_def split: option.split)

lemma gen_poll_sync:
  "poll_sync now e = Break w e' \<Longrightarrow> gen e' = gen e" "poll_sync now e = Again e' \<Longrightarrow> gen e' = gen e"
  "poll_sync now e = Go e' \<Longrightarrow> gen e' = gen e"
  by (auto simp: poll_sync_def Let_def split: if_splits option.splits)

lemma gen_send_entry: "gen (fst (send_entry fp eo)) = gen (fst eo)"
proof -
  have "gen (note_first e) = gen e" for e by (simp add: note_first_def)
  then show ?thesis
    using gen_quiet [OF quiet_emit_headers [of fp eo]] gen_quiet [OF quiet_emit_entry]
    by (auto simp: send_entry_def Let_def split: prod.split)
qed

lemma gen_poll_send:
  "poll_send fp now mx (e, outs, n) = Inl (w, e', outs') \<Longrightarrow> gen e' = gen e"
  "poll_send fp now mx (e, outs, n) = Inr (e', outs', n') \<Longrightarrow> gen e' = gen e"
  using gen_send_entry [of fp "(e, outs)"]
  by (auto simp: poll_send_def Let_def split: option.splits if_splits prod.splits)

lemma gen_poll_iter:
  "poll_iter fp now mx (e, outs, n) = Inl (w, e', outs') \<Longrightarrow> gen e' = gen e"
  "poll_iter fp now mx (e, outs, n) = Inr (e', outs', n') \<Longrightarrow> gen e' = gen e"
proof -
  let ?q = "note_session (skip_evicted e)"
  have sync: "gen e1 = gen e" if "poll_sync now ?q = Break w1 e1 \<or> poll_sync now ?q = Again e1 \<or>
      poll_sync now ?q = Go e1" for w1 e1
    using that gen_poll_sync [of now ?q] by auto
  have media: "(poll_media fp now mx (e, outs, n) = Inl (w, e', outs') \<longrightarrow> gen e' = gen e) \<and>
    (poll_media fp now mx (e, outs, n) = Inr (e', outs', n') \<longrightarrow> gen e' = gen e)" for w e' outs' n'
  proof (cases "end_reached (skip_evicted e)")
    case True
    then show ?thesis by (auto simp: poll_media_def)
  next
    case False
    show ?thesis
    proof (cases "poll_sync now ?q")
      case (Break w1 e1)
      with sync [of w1 e1] False show ?thesis by (auto simp: poll_media_def)
    next
      case (Again e1)
      with sync [of None e1] False show ?thesis by (auto simp: poll_media_def)
    next
      case (Go e1)
      with False have "poll_media fp now mx (e, outs, n) = poll_send fp now mx (e1, outs, n)"
        by (simp add: poll_media_def)
      with sync [of None e1] Go gen_poll_send [of fp now mx e1 outs n] show ?thesis by auto
    qed
  qed
  have hold: "gen (fst (fst (emit_hold_frame fp now (e, outs)))) = gen e"
    using emit_hold_frame_quiet [of fp now "(e, outs)"] by (auto dest: gen_quiet)
  show "poll_iter fp now mx (e, outs, n) = Inl (w, e', outs') \<Longrightarrow> gen e' = gen e"
    "poll_iter fp now mx (e, outs, n) = Inr (e', outs', n') \<Longrightarrow> gen e' = gen e"
    using media [of w e' outs'] media [of _ e' outs' n'] hold
    by (auto simp: poll_iter_def Let_def split: pending.splits if_splits prod.splits)
qed

lemma gen_poll:
  assumes "buf_wf e" and "poll_budget fp now mx (e, outs) = Some (w, e', outs')"
  shows "gen e' = gen e"
proof -
  let ?e = "run_pending now (evict now e)"
  have wf: "buf_wf ?e"
    using buffer_of_wf [of ?e "evict now e"] evict_wf [OF assms(1), of now] by simp
  have g: "gen ?e = gen e" using gen_evict [OF assms(1)] by simp
  show ?thesis
  proof (cases "o_connected (out ?e)")
    case False
    with assms(2) g show ?thesis by (auto simp: poll_budget_def Let_def)
  next
    case True
    let ?P = "\<lambda>(e', outs', n). gen e' = gen ?e"
    obtain r st where r: "loop (poll_iter fp now mx) (?e, outs, 0) = Some r" and P: "?P st"
      and it: "poll_iter fp now mx st = Inl r"
    proof (rule poll_loop_breaks [OF wf, of ?P outs 0 fp now mx])
      show "?P st'" if "?P st" "poll_iter fp now mx st = Inr st'" for st st'
        using that gen_poll_iter(2) by (cases st; cases st') auto
    qed auto
    obtain w1 e1 o1 where res: "r = (w1, e1, o1)" by (metis prod_cases3)
    with P it gen_poll_iter(1) have "gen e1 = gen ?e" by (cases st) auto
    with assms(2) True r res g show ?thesis by (auto simp: poll_budget_def Let_def)
  qed
qed

section \<open>The other operations\<close>

lemma gen_drop [simp]: "gen (drop_before s e) = gen e" "gen (drop_buffer e) = gen e"
  by (simp_all add: drop_before_frame drop_buffer_frame)

lemma gen_dump: "gen (snd (engine_dump now mode cover e)) = gen e"
proof -
  have "gen e' = gen e" if "replay_instead now d e = Some e'" for d e e'
    using that by (auto simp: replay_instead_def Let_def split_session_def cut_from_def
        count_sessions_frame split: option.splits)
  then show ?thesis
    by (auto simp: engine_dump_def Let_def split: option.split prod.split)
qed

lemma gen_command [simp]: "gen (fst (run_command now cmd e)) = gen e"
proof -
  have clear: "gen (clear_notes e) = gen e" for e by (simp add: clear_notes_def)
  have fin: "gen (fst (finish now e)) = gen e" for e by (simp add: finish_def Let_def)
  have live: "gen (cmd_go_live w e) = gen e" for w e
    by (simp add: cmd_go_live_def Let_def split: go_live_when.split)
  have cancel: "gen (cmd_cancel e) = gen e" for e by (simp add: cmd_cancel_def Let_def)
  have slate: "gen (cmd_slate_shown now c e) = gen e" for c e
    by (simp add: cmd_slate_shown_def split: pending.split option.split)
  have dump: "gen (fst (cmd_dump now m c e)) = gen e" for m c e
    using gen_dump [of now m c e] by (auto simp: cmd_dump_def Let_def split: prod.split)
  have set: "gen (fst (cmd_set_delay now ms m e)) = gen e" for ms m e
    by (auto simp: cmd_set_delay_def Let_def fin live clear split: option.split delay_mode.split)
  show ?thesis
    by (cases cmd) (auto simp: run_command_def fin live cancel slate dump set clear split: option.split)
qed

lemma gen_output [simp]:
  "gen (resume_at taken e) = gen e" "gen (output_disconnected taken e) = gen e"
  "gen (forget_sent e) = gen e" "gen (unsend taken e) = gen e" "gen (output_reset e) = gen e"
  "gen (discard e) = gen e" "gen (end_after s e) = gen e" "gen (cancel_end e) = gen e"
  "gen (restart_after_end e) = gen e" "gen (set_keep_history b e) = gen e"
  "gen (set_restore_after_reconnect b e) = gen e"
proof -
  have resume: "gen (resume_at t e) = gen e" for t e
    by (simp add: resume_at_def Let_def split: option.split)
  have forget: "gen (forget_sent e) = gen e" for e by (simp add: forget_sent_def)
  have reset: "gen (output_reset e) = gen e" for e by (simp add: output_reset_def Let_def)
  show "gen (resume_at taken e) = gen e" "gen (output_disconnected taken e) = gen e"
    "gen (forget_sent e) = gen e" "gen (unsend taken e) = gen e" "gen (output_reset e) = gen e"
    "gen (discard e) = gen e" "gen (end_after s e) = gen e" "gen (cancel_end e) = gen e"
    "gen (restart_after_end e) = gen e" "gen (set_keep_history b e) = gen e"
    "gen (set_restore_after_reconnect b e) = gen e"
    by (simp_all add: resume forget reset output_disconnected_def unsend_def discard_def end_after_def cancel_end_def
    restart_after_end_def Let_def set_keep_history_def set_restore_after_reconnect_def)
qed

lemma gen_dump_after [simp]: "gen (fst (run_dump_after now taken mode cover e)) = gen e"
  by (simp add: run_dump_after_def Let_def)

lemma gen_connected: "gen (snd (output_connected now e)) = Suc (gen e)"
  "fst (output_connected now e) = Suc (gen e)"
proof -
  have "gen (snd (output_connected now e)) = Suc (gen e) \<and> fst (output_connected now e) = Suc (gen e)"
    by (auto simp: output_connected_def Let_def split: option.split)
  then show "gen (snd (output_connected now e)) = Suc (gen e)"
    "fst (output_connected now e) = Suc (gen e)" by auto
qed

lemma gen_ingest [simp]:
  "gen (snd (ingest_start e)) = gen e" "gen (ingest_end e) = gen e" "gen (ingest_metadata p e) = gen e"
  by (simp_all add: ingest_start_def ingest_end_def ingest_metadata_def drop_idle_session_def Let_def
      split: option.split)

lemma gen_ingest_media: "engine_wf e \<Longrightarrow> gen (ingest now k ts payload e) = gen e"
proof (cases "\<not> ingest_active e \<or> payload = [] \<or> last_opt (sessions e) = None")
  case False
  assume "engine_wf e"
  then have wf: "buf_wf e" by (simp add: engine_wf_def)
  obtain e2 x where e2: "ingest now k ts payload e = evict now e2" "buf_wf e2" "out e2 = out e"
    by (rule ingest_appends [OF wf, of payload]) (use False in auto)
  with gen_evict [of e2 now] show ?thesis by simp
qed (auto simp: ingest_ignored)

section \<open>Every call\<close>

text \<open>
  Whatever the call, the number stays or goes up by one, and it goes up only when a
  connection starts.
\<close>

lemma gen_step: "engine_step fp e e' \<Longrightarrow> engine_wf e \<Longrightarrow> gen e \<le> gen e'"
proof (induction rule: engine_step.induct)
  case (poll now max_bytes e outs wake e' outs')
  then have "buf_wf e" by (simp add: engine_wf_def)
  from gen_poll [OF this poll(1)] show ?case by simp
qed (simp_all add: gen_ingest_media gen_connected)

end
