(* ===== verification/Lifecycle.thy ===== *)
theory Lifecycle
  imports Prelude
begin

text \<open>
  When a broadcast starts and ends (\<^verbatim>\<open>crates/relay/src/lifecycle.rs\<close>): the
  encoder's comings and goings, End stream and Resume, and the destination connection, as one
  state machine. An event appends to the list of effects the core carries out
  (\<^verbatim>\<open>fx\<close>), so it maps a pair of state and effects to another. Instants are
  \<open>nat\<close>; \<^verbatim>\<open>duration_since\<close> saturates at zero, as subtraction does here.
  Log messages are left out.
\<close>

section \<open>The state\<close>

text \<open>\<^verbatim>\<open>Duration::from_secs(30)\<close>, in microseconds.\<close>

definition DRAIN_SLACK :: nat where "DRAIN_SLACK = 30000000"

text \<open>The arguments of \<open>Left\<close> are since when, and whether it stopped on purpose.\<close>

datatype encoder = Publishing | Left nat bool | Idle bool

datatype plan = LivePlan | EndAtMark nat | RestartAtMark nat | Ended

datatype egress = Off | On nat

datatype effect =
    StopEgress
  | AbortEgress
  | Discard
  | MarkEnd
  | CancelEnd
  | RestartAfterEnd
  | Explain string

record facts =
  f_destination :: bool
  f_has_mark :: bool
  f_end_reached :: bool
  f_backlog_empty :: bool
  f_drained :: bool
  f_has_buffered :: bool
  f_output_wanted :: bool
  f_connected :: bool
  f_delay :: nat

datatype tick = TickNothing | TickStart

record lifecycle =
  lc_encoder :: encoder
  lc_plan :: plan
  lc_egress :: egress
  lc_grace :: nat

type_synonym life = "lifecycle \<times> effect list"

definition new_lifecycle :: "nat \<Rightarrow> lifecycle" where
  "new_lifecycle grace =
     \<lparr>lc_encoder = Idle True, lc_plan = LivePlan, lc_egress = Off, lc_grace = grace\<rparr>"

definition ended :: "lifecycle \<Rightarrow> bool" where
  "ended l \<longleftrightarrow> lc_plan l = Ended"

definition ending :: "lifecycle \<Rightarrow> bool" where
  "ending l \<longleftrightarrow> (case lc_plan l of EndAtMark _ \<Rightarrow> True | _ \<Rightarrow> False)"

definition egress_on :: "lifecycle \<Rightarrow> bool" where
  "egress_on l \<longleftrightarrow> (case lc_egress l of On _ \<Rightarrow> True | Off \<Rightarrow> False)"

definition push :: "effect \<Rightarrow> life \<Rightarrow> life" where
  "push x s = (fst s, snd s @ [x])"

definition set_plan :: "plan \<Rightarrow> life \<Rightarrow> life" where
  "set_plan p s = ((fst s)\<lparr>lc_plan := p\<rparr>, snd s)"

definition stop_egress :: "effect \<Rightarrow> life \<Rightarrow> life" where
  "stop_egress how s =
     (if egress_on (fst s) then push how ((fst s)\<lparr>lc_egress := Off\<rparr>, snd s) else s)"

definition lc_finish :: "life \<Rightarrow> life" where
  "lc_finish s0 =
     (let (l, fx) = push Discard (stop_egress StopEgress s0);
          l1 = (case lc_encoder l of
                  Left _ stopped \<Rightarrow> l\<lparr>lc_encoder := Idle stopped\<rparr> | _ \<Rightarrow> l);
          l2 = (case lc_plan l1 of
                  EndAtMark _ \<Rightarrow> l1\<lparr>lc_plan := LivePlan\<rparr>
                | RestartAtMark _ \<Rightarrow> l1\<lparr>lc_plan := LivePlan\<rparr>
                | _ \<Rightarrow> l1)
      in (l2, fx))"

definition drain_deadline :: "nat \<Rightarrow> facts \<Rightarrow> nat" where
  "drain_deadline now f = now + f_delay f + DRAIN_SLACK"

section \<open>Events\<close>

definition destination_changed :: "life \<Rightarrow> life" where
  "destination_changed s = stop_egress StopEgress s"

definition end_now :: "life \<Rightarrow> life" where
  "end_now s = set_plan Ended (stop_egress AbortEgress (push Discard s))"

definition end_after_air :: "nat \<Rightarrow> facts \<Rightarrow> life \<Rightarrow> life" where
  "end_after_air now f s =
     (case lc_plan (fst s) of
        Ended \<Rightarrow> s
      | EndAtMark _ \<Rightarrow> s
      | RestartAtMark deadline \<Rightarrow> set_plan (EndAtMark deadline) s
      | LivePlan \<Rightarrow>
          (let nothing_to_air =
                 (\<not> f_destination f \<or> (f_drained f \<and> \<not> egress_on (fst s)))
           in if f_has_mark f \<and> \<not> nothing_to_air
              then set_plan (EndAtMark (drain_deadline now f)) (push MarkEnd s)
              else set_plan Ended (lc_finish s)))"

definition resume :: "life \<Rightarrow> life" where
  "resume s =
     (case lc_plan (fst s) of
        Ended \<Rightarrow> set_plan LivePlan (push Discard s)
      | EndAtMark _ \<Rightarrow> set_plan LivePlan (push CancelEnd s)
      | _ \<Rightarrow> s)"

definition publishing :: "nat \<Rightarrow> bool \<Rightarrow> facts \<Rightarrow> life \<Rightarrow> life" where
  "publishing now takeover f s =
     (let stopped_before = (case lc_encoder (fst s) of
                              Publishing \<Rightarrow> False
                            | Left _ stopped \<Rightarrow> stopped \<and> \<not> takeover
                            | Idle stopped \<Rightarrow> stopped \<and> \<not> takeover);
          new_stream = (case lc_encoder (fst s) of Left _ stopped \<Rightarrow> stopped | _ \<Rightarrow> False);
          s1 = (if new_stream \<and> egress_on (fst s)
                then (case lc_plan (fst s) of
                        LivePlan \<Rightarrow>
                          if f_has_mark f
                          then set_plan (RestartAtMark (drain_deadline now f)) (push MarkEnd s)
                          else s
                      | EndAtMark deadline \<Rightarrow> set_plan (RestartAtMark deadline) s
                      | _ \<Rightarrow> s)
                else s);
          s2 = ((fst s1)\<lparr>lc_encoder := Publishing\<rparr>, snd s1)
      in if lc_plan (fst s2) = Ended \<and> stopped_before then set_plan LivePlan s2 else s2)"

definition encoder_left :: "nat \<Rightarrow> bool \<Rightarrow> life \<Rightarrow> life" where
  "encoder_left now stopped s =
     (if lc_encoder (fst s) = Publishing
      then ((fst s)\<lparr>lc_encoder := Left now stopped\<rparr>, snd s) else s)"

definition started :: "nat \<Rightarrow> life \<Rightarrow> life" where
  "started now s = ((fst s)\<lparr>lc_egress := On now\<rparr>, snd s)"

definition encoder_gone :: "nat \<Rightarrow> lifecycle \<Rightarrow> bool" where
  "encoder_gone now l \<longleftrightarrow>
     (case lc_encoder l of Left since _ \<Rightarrow> lc_grace l \<le> now - since | _ \<Rightarrow> False)"

definition start_failed :: "nat \<Rightarrow> life \<Rightarrow> life" where
  "start_failed now s = (if encoder_gone now (fst s) then lc_finish s else s)"

section \<open>The tick\<close>

definition UNREACHED :: string where
  "UNREACHED = ''The stream ended while the destination could not be reached; what had not aired yet was discarded.''"

definition STALLED :: string where
  "STALLED = ''The destination stopped taking data, so the broadcast was ended without the rest of the stream.''"

definition end_at_mark :: "nat \<Rightarrow> facts \<Rightarrow> life \<Rightarrow> bool \<times> life" where
  "end_at_mark now f s =
     (case (case lc_plan (fst s) of
              EndAtMark d \<Rightarrow> Some d | RestartAtMark d \<Rightarrow> Some d | _ \<Rightarrow> None) of
        None \<Rightarrow> (False, s)
      | Some deadline \<Rightarrow>
          (let aired = (f_end_reached f \<and> f_backlog_empty f) in
           if \<not> aired \<and> now < deadline then (False, s)
           else if (case lc_plan (fst s) of RestartAtMark _ \<Rightarrow> True | _ \<Rightarrow> False)
           then (True, set_plan LivePlan (push RestartAfterEnd (stop_egress StopEgress s)))
           else (True, set_plan Ended (lc_finish s))))"

text \<open>The tick with no connection.\<close>

definition tick_off :: "bool \<Rightarrow> facts \<Rightarrow> life \<Rightarrow> tick \<times> life" where
  "tick_off gone f s =
     (if gone \<and> (ended (fst s) \<or> \<not> f_has_buffered f) then (TickNothing, lc_finish s)
      else if \<not> ended (fst s) \<and> f_output_wanted f then (TickStart, s)
      else (TickNothing, s))"

text \<open>The tick of a connection begun at \<open>began\<close>, the encoder having left for good.\<close>

definition tick_left :: "nat \<Rightarrow> bool \<Rightarrow> nat \<Rightarrow> nat \<Rightarrow> bool \<Rightarrow> facts \<Rightarrow> life \<Rightarrow> life" where
  "tick_left now gone began left_at stopped f s =
     (if f_connected f \<and> f_drained f \<and> f_backlog_empty f then lc_finish s
      else if \<not> f_connected f
      then (if gone \<and> lc_grace (fst s) \<le> now - began
            then lc_finish (push (Explain UNREACHED) s) else s)
      else (let due = (if stopped then f_delay f else max (lc_grace (fst s)) (f_delay f))
            in if due + DRAIN_SLACK \<le> now - left_at
               then lc_finish (push (Explain STALLED) s) else s))"

definition run_tick :: "nat \<Rightarrow> facts \<Rightarrow> life \<Rightarrow> tick \<times> life" where
  "run_tick now f s =
     (if \<not> f_destination f then (TickNothing, stop_egress StopEgress s)
      else
        (case end_at_mark now f s of
           (True, s1) \<Rightarrow> (TickNothing, s1)
         | (False, s1) \<Rightarrow>
             (let gone = encoder_gone now (fst s1) in
              case lc_egress (fst s1) of
                Off \<Rightarrow> tick_off gone f s1
              | On began \<Rightarrow>
                  (TickNothing,
                   case lc_encoder (fst s1) of
                     Left left_at stopped \<Rightarrow>
                       if gone \<or> stopped then tick_left now gone began left_at stopped f s1 else s1
                   | _ \<Rightarrow> s1))))"

section \<open>Steps\<close>

text \<open>
  One event, from no effects: the effects it asks for and the next state. When the tick says
  to start, the core starts the connection at once (\<open>started\<close>) or cannot
  (\<open>start_failed\<close>).
\<close>

inductive life_step :: "lifecycle \<Rightarrow> effect list \<Rightarrow> lifecycle \<Rightarrow> bool" where
  destination: "destination_changed (l, []) = (l', fx) \<Longrightarrow> life_step l fx l'"
| end_now: "end_now (l, []) = (l', fx) \<Longrightarrow> life_step l fx l'"
| end_after_air: "end_after_air now f (l, []) = (l', fx) \<Longrightarrow> life_step l fx l'"
| resume: "resume (l, []) = (l', fx) \<Longrightarrow> life_step l fx l'"
| publishing: "publishing now takeover f (l, []) = (l', fx) \<Longrightarrow> life_step l fx l'"
| encoder_left: "encoder_left now stopped (l, []) = (l', fx) \<Longrightarrow> life_step l fx l'"
| tick: "run_tick now f (l, []) = (TickNothing, l', fx) \<Longrightarrow> life_step l fx l'"
| start: "run_tick now f (l, []) = (TickStart, s) \<Longrightarrow> started now s = (l', fx) \<Longrightarrow>
    life_step l fx l'"
| failed: "run_tick now f (l, []) = (TickStart, s) \<Longrightarrow> start_failed now s = (l', fx) \<Longrightarrow>
    life_step l fx l'"

inductive_cases life_stepE: "life_step l fx l'"

text \<open>How an operation changes what the rules speak of: the plan and the connection.\<close>

lemma stop_egress_fields [simp]:
  "lc_plan (fst (stop_egress h s)) = lc_plan (fst s)"
  "lc_encoder (fst (stop_egress h s)) = lc_encoder (fst s)"
  "lc_grace (fst (stop_egress h s)) = lc_grace (fst s)"
  "egress_on (fst (stop_egress h s)) = False"
  "snd (stop_egress h s) = snd s @ (if egress_on (fst s) then [h] else [])"
  by (auto simp: stop_egress_def push_def egress_on_def)

lemma push_fields [simp]: "fst (push x s) = fst s" "snd (push x s) = snd s @ [x]"
  by (simp_all add: push_def)

lemma set_plan_fields [simp]:
  "lc_plan (fst (set_plan p s)) = p" "egress_on (fst (set_plan p s)) = egress_on (fst s)"
  "lc_encoder (fst (set_plan p s)) = lc_encoder (fst s)" "snd (set_plan p s) = snd s"
  by (simp_all add: set_plan_def egress_on_def)

lemma lc_finish_fields [simp]:
  "egress_on (fst (lc_finish s)) = False"
  "lc_plan (fst (lc_finish s)) =
     (case lc_plan (fst s) of EndAtMark _ \<Rightarrow> LivePlan | RestartAtMark _ \<Rightarrow> LivePlan | p \<Rightarrow> p)"
  "lc_encoder (fst (lc_finish s)) =
     (case lc_encoder (fst s) of Left _ b \<Rightarrow> Idle b | e \<Rightarrow> e)"
  "snd (lc_finish s) = snd s @ (if egress_on (fst s) then [StopEgress] else []) @ [Discard]"
proof -
  obtain l fx where r: "push Discard (stop_egress StopEgress s) = (l, fx)" by fastforce
  have l: "egress_on l = False" "lc_plan l = lc_plan (fst s)" "lc_encoder l = lc_encoder (fst s)"
    "fx = snd s @ (if egress_on (fst s) then [StopEgress] else []) @ [Discard]"
    using arg_cong [OF r, of fst] arg_cong [OF r, of snd]
      stop_egress_fields(1,2,4) [of StopEgress s] by (auto simp del: stop_egress_fields(1,2,4))
  show "egress_on (fst (lc_finish s)) = False"
    "lc_plan (fst (lc_finish s)) =
       (case lc_plan (fst s) of EndAtMark _ \<Rightarrow> LivePlan | RestartAtMark _ \<Rightarrow> LivePlan | p \<Rightarrow> p)"
    "lc_encoder (fst (lc_finish s)) = (case lc_encoder (fst s) of Left _ b \<Rightarrow> Idle b | e \<Rightarrow> e)"
    "snd (lc_finish s) = snd s @ (if egress_on (fst s) then [StopEgress] else []) @ [Discard]"
    using l unfolding lc_finish_def r
    by (auto simp: egress_on_def Let_def split: plan.split encoder.split)
qed

text \<open>
  What holds of every event: \<open>stops\<close> counts the effects that stop the connection.
\<close>

definition stops :: "effect list \<Rightarrow> nat" where
  "stops fx = length (filter (\<lambda>x. x = StopEgress \<or> x = AbortEgress) fx)"

lemma stops_simps [simp]:
  "stops [] = 0" "stops (x # fx) = (if x = StopEgress \<or> x = AbortEgress then 1 else 0) + stops fx"
  "stops (a @ b) = stops a + stops b"
  by (simp_all add: stops_def)

definition tidy :: "lifecycle \<Rightarrow> life \<Rightarrow> bool" where
  "tidy l s \<longleftrightarrow>
     stops (snd s) = (if egress_on l \<and> \<not> egress_on (fst s) then 1 else 0) \<and>
     (egress_on (fst s) \<longrightarrow> egress_on l) \<and>
     (\<not> ended l \<and> ended (fst s) \<longrightarrow> Discard \<in> set (snd s)) \<and>
     ((ended l \<longrightarrow> \<not> egress_on l) \<longrightarrow> ended (fst s) \<longrightarrow> \<not> egress_on (fst s))"

lemma tidy_refl: "tidy l (l, [])"
  by (simp add: tidy_def)

lemma tidy_events:
  "tidy l (destination_changed (l, []))" "tidy l (end_now (l, []))"
  "tidy l (resume (l, []))" "tidy l (encoder_left now stopped (l, []))"
  by (auto simp: tidy_def destination_changed_def end_now_def resume_def encoder_left_def ended_def
      egress_on_def set_plan_def push_def stop_egress_def split: plan.split)

lemma tidy_finish: "tidy l (lc_finish (l, []))" "tidy l (set_plan Ended (lc_finish (l, [])))"
  "tidy l (lc_finish (push (Explain w) (l, [])))"
  by (auto simp: tidy_def ended_def split: plan.splits)

lemma tidy_end_after_air: "tidy l (end_after_air now f (l, []))"
  using tidy_finish(2) [of l]
  by (auto simp: end_after_air_def Let_def tidy_refl split: plan.split)
    (auto simp: tidy_def ended_def)

lemma tidy_publishing: "tidy l (publishing now takeover f (l, []))"
  by (auto simp: tidy_def publishing_def Let_def ended_def egress_on_def set_plan_def push_def
      split: plan.splits encoder.splits egress.splits if_splits)

lemma tidy_end_at_mark: "end_at_mark now f (l, []) = (b, s) \<Longrightarrow> tidy l s \<and> (\<not> b \<longrightarrow> s = (l, []))"
  using tidy_finish(2) [of l] tidy_refl [of l]
  by (auto simp: end_at_mark_def Let_def split: plan.splits option.splits if_splits)
    (auto simp: tidy_def ended_def)

lemma tidy_tick: "run_tick now f (l, []) = (t, s) \<Longrightarrow> tidy l s \<and> (t = TickStart \<longrightarrow> s = (l, []))"
proof -
  assume r: "run_tick now f (l, []) = (t, s)"
  show ?thesis
  proof (cases "f_destination f")
    case False
    with r show ?thesis by (auto simp: run_tick_def tidy_def ended_def)
  next
    case True
    obtain b s1 where e: "end_at_mark now f (l, []) = (b, s1)" by (rule prod.exhaust)
    note m = tidy_end_at_mark [OF e]
    show ?thesis
    proof (cases b)
      case True
      with r \<open>f_destination f\<close> e m show ?thesis by (auto simp: run_tick_def)
    next
      case False
      with m have s1: "s1 = (l, [])" by simp
      have off: "tidy l (snd (tick_off g f (l, [])))" for g
        using tidy_finish(1) [of l] tidy_refl [of l] by (simp add: tick_off_def)
      have start: "fst (tick_off g f (l, [])) = TickStart \<longrightarrow> snd (tick_off g f (l, [])) = (l, [])" for g
        by (simp add: tick_off_def)
      have left: "tidy l (tick_left now g began left_at stopped f (l, []))" for g began left_at stopped
        using tidy_finish(1,3) [of l] tidy_refl [of l] by (simp add: tick_left_def Let_def)
      show ?thesis
        using r \<open>f_destination f\<close> e False s1 off start left tidy_refl [of l]
        by (auto simp: run_tick_def Let_def split: egress.splits encoder.splits if_splits)
          (metis fst_conv snd_conv)+
    qed
  qed
qed

section \<open>Concrete states\<close>

text \<open>A broadcast on air, its encoder publishing or gone since instant 100, and facts.\<close>

definition on_air :: "encoder \<Rightarrow> plan \<Rightarrow> lifecycle" where
  "on_air e p = \<lparr>lc_encoder = e, lc_plan = p, lc_egress = On 50, lc_grace = 30\<rparr>"

definition plain_facts :: facts where
  "plain_facts = \<lparr>f_destination = True, f_has_mark = True, f_end_reached = True,
     f_backlog_empty = True, f_drained = False, f_has_buffered = True, f_output_wanted = True,
     f_connected = True, f_delay = 20\<rparr>"

section \<open>What the rules promise\<close>

lemma tidy_step:
  assumes "life_step l fx l'"
  shows "tidy l (l', fx) \<or>
    (\<exists>now f. run_tick now f (l, []) = (TickStart, (l, [])) \<and> started now (l, []) = (l', fx))"
  using assms
proof cases
  case (start now f s)
  from tidy_tick [OF start(1)] have "s = (l, [])" by simp
  with start show ?thesis by blast
next
  case (failed now f s)
  from tidy_tick [OF failed(1)] have "s = (l, [])" by simp
  with failed(2) tidy_finish(1) [of l] tidy_refl [of l] show ?thesis
    by (auto simp: start_failed_def split: if_splits)
qed (metis tidy_events tidy_end_after_air tidy_publishing tidy_tick snd_conv)+

definition may_start :: "nat \<Rightarrow> facts \<Rightarrow> lifecycle \<Rightarrow> bool" where
  "may_start now f l \<longleftrightarrow>
     f_destination f \<and> \<not> egress_on l \<and> \<not> ended l \<and> f_output_wanted f \<and>
     \<not> (encoder_gone now l \<and> \<not> f_has_buffered f) \<and>
     (case (case lc_plan l of EndAtMark d \<Rightarrow> Some d | RestartAtMark d \<Rightarrow> Some d | _ \<Rightarrow> None) of
        None \<Rightarrow> True
      | Some d \<Rightarrow> now < d \<and> \<not> (f_end_reached f \<and> f_backlog_empty f))"

lemma tick_start_iff:
  "fst (run_tick now f (l, [])) = TickStart \<longleftrightarrow> may_start now f l"
proof -
  obtain b s where e: "end_at_mark now f (l, []) = (b, s)" by (rule prod.exhaust)
  have b: "b \<longleftrightarrow> (case (case lc_plan l of EndAtMark d \<Rightarrow> Some d | RestartAtMark d \<Rightarrow> Some d | _ \<Rightarrow> None) of
      None \<Rightarrow> False | Some d \<Rightarrow> \<not> (now < d \<and> \<not> (f_end_reached f \<and> f_backlog_empty f)))"
    using e by (auto simp: end_at_mark_def Let_def split: plan.splits if_splits)
  have s: "\<not> b \<Longrightarrow> s = (l, [])" using tidy_end_at_mark [OF e] by simp
  show ?thesis
  proof (cases b)
    case True
    with b e show ?thesis
      by (auto simp: run_tick_def may_start_def split: plan.splits)
  next
    case False
    with b e s show ?thesis
      by (auto simp: run_tick_def may_start_def tick_off_def egress_on_def Let_def
          split: plan.splits egress.splits if_splits)
  qed
qed

text \<open>
  When a connection is started: exactly when a destination is set up, none is on, the
  streamer has not ended the stream, something is due, an end mark is neither reached nor
  past its deadline, and the stream of an encoder gone for good still has something to air.
\<close>

theorem tick_starts_exactly:
  "fst (run_tick now f (l, [])) = TickStart \<longleftrightarrow> may_start now f l"
  by (rule tick_start_iff)

lemma ended_off_step:
  assumes "life_step l fx l'" and "ended l \<longrightarrow> \<not> egress_on l"
  shows "ended l' \<longrightarrow> \<not> egress_on l'"
  using tidy_step [OF assms(1)]
proof
  assume "tidy l (l', fx)"
  with assms(2) show ?thesis by (simp add: tidy_def)
next
  assume "\<exists>now f. run_tick now f (l, []) = (TickStart, (l, [])) \<and> started now (l, []) = (l', fx)"
  then obtain now f where r: "run_tick now f (l, []) = (TickStart, (l, []))"
    and s: "started now (l, []) = (l', fx)" by blast
  have "may_start now f l" using tick_start_iff [of now f l] r by simp
  with s show ?thesis by (auto simp: started_def ended_def may_start_def)
qed

definition life_next :: "lifecycle \<Rightarrow> lifecycle \<Rightarrow> bool" where
  "life_next l l' \<longleftrightarrow> (\<exists>fx. life_step l fx l')"

interpretation life_machine:
  state_machine "\<lambda>l. l = new_lifecycle (lc_grace l)" life_next "\<lambda>l. ended l \<longrightarrow> \<not> egress_on l"
proof unfold_locales
  show "ended l \<longrightarrow> \<not> egress_on l" if "l = new_lifecycle (lc_grace l)" for l
    using that by (metis ended_def lifecycle.select_convs(2) new_lifecycle_def plan.distinct(5))
  show "ended t \<longrightarrow> \<not> egress_on t" if "ended s \<longrightarrow> \<not> egress_on s" "life_next s t" for s t
    using that(2) ended_off_step [OF _ that(1)] by (auto simp: life_next_def)
qed

text \<open>
  C36. Ended means off: in every state the lifecycle reaches, once the streamer has ended the
  stream no connection to the destination is on, and the next tick starts none, whatever the
  buffer holds.
\<close>

theorem ended_is_off:
  assumes "life_next\<^sup>*\<^sup>* (new_lifecycle grace) l" and "ended l"
  shows "\<not> egress_on l \<and> fst (run_tick now f (l, [])) = TickNothing"
proof -
  have "ended l \<longrightarrow> \<not> egress_on l"
    by (rule life_machine.reachable_inv [OF _ assms(1)]) (simp add: new_lifecycle_def)
  moreover have "fst (run_tick now f (l, [])) \<noteq> TickStart"
    using assms(2) by (auto simp: run_tick_def tick_off_def end_at_mark_def ended_def Let_def
        split: if_splits egress.splits plan.splits)
  ultimately show ?thesis using assms(2) by (cases "fst (run_tick now f (l, []))") auto
qed

theorem ended_is_off_witness:
  "\<not> egress_on (fst (end_now (new_lifecycle 30, []))) \<and>
   fst (run_tick 7 plain_facts (fst (end_now (new_lifecycle 30, [])), [])) = TickNothing"
proof (rule ended_is_off [where grace = 30])
  have "life_step (new_lifecycle 30) (snd (end_now (new_lifecycle 30, [])))
      (fst (end_now (new_lifecycle 30, [])))"
    by (rule life_step.end_now) simp
  then show "life_next\<^sup>*\<^sup>* (new_lifecycle 30) (fst (end_now (new_lifecycle 30, [])))"
    unfolding life_next_def by (intro r_into_rtranclp exI)
qed (simp add: ended_def end_now_def)

text \<open>
  Effects match the state: an event asks for the connection to be stopped exactly when it
  turns it off, and then once; no event but a start turns it on; and whenever the stream
  becomes ended, the buffer is discarded by the same event.
\<close>

theorem effects_match_state:
  assumes "life_step l fx l'"
  shows "stops fx = (if egress_on l \<and> \<not> egress_on l' then 1 else 0) \<and>
    (\<not> ended l \<and> ended l' \<longrightarrow> Discard \<in> set fx) \<and>
    (\<not> egress_on l \<and> egress_on l' \<longrightarrow>
       (\<exists>now f. may_start now f l \<and> l' = l\<lparr>lc_egress := On now\<rparr> \<and> fx = []))"
  using tidy_step [OF assms]
proof
  assume "tidy l (l', fx)"
  then show ?thesis unfolding tidy_def fst_conv snd_conv by blast
next
  assume "\<exists>now f. run_tick now f (l, []) = (TickStart, (l, [])) \<and> started now (l, []) = (l', fx)"
  then obtain now f where r: "run_tick now f (l, []) = (TickStart, (l, []))"
    and s: "started now (l, []) = (l', fx)" by blast
  have "may_start now f l" using tick_start_iff [of now f l] r by simp
  moreover have "l' = l\<lparr>lc_egress := On now\<rparr>" "fx = []" using s by (simp_all add: started_def)
  ultimately show ?thesis by (auto simp: ended_def egress_on_def)
qed

theorem effects_match_state_witness:
  "stops [Discard, AbortEgress] = 1 \<and> Discard \<in> set [Discard, AbortEgress]"
proof -
  have "end_now (on_air Publishing LivePlan, []) =
      ((on_air Publishing LivePlan)\<lparr>lc_egress := Off, lc_plan := Ended\<rparr>, [Discard, AbortEgress])"
    by (simp add: end_now_def set_plan_def stop_egress_def push_def on_air_def egress_on_def)
  from effects_match_state [OF life_step.end_now [OF this]] show ?thesis
    by (simp add: on_air_def egress_on_def ended_def)
qed

text \<open>
  C37. A broadcast whose encoder is gone ends in bounded time: with the destination set up, a
  tick at least the drain slack past the grace period or the delay (the longer) after the
  encoder left, and at least the grace period after the connection was started, turns the
  connection off, whether it drained, was never reached, or stopped taking data.
\<close>

theorem broadcast_ends_after_encoder:
  assumes left: "lc_encoder l = Left since stopped" and on: "lc_egress l = On began"
    and dest: "f_destination f"
    and late: "since + max (lc_grace l) (f_delay f) + DRAIN_SLACK \<le> now"
    and tried: "began + lc_grace l \<le> now"
  shows "\<not> egress_on (fst (snd (run_tick now f (l, []))))"
proof -
  obtain b s where e: "end_at_mark now f (l, []) = (b, s)" by (rule prod.exhaust)
  have gone: "encoder_gone now l" using left late by (simp add: encoder_gone_def)
  show ?thesis
  proof (cases b)
    case True
    have "\<not> egress_on (fst s)"
      using e True by (auto simp: end_at_mark_def Let_def split: plan.splits if_splits)
    with True e dest show ?thesis by (simp add: run_tick_def)
  next
    case False
    then have "s = (l, [])" using tidy_end_at_mark [OF e] by simp
    with False e dest gone left on late tried show ?thesis
      by (auto simp: run_tick_def tick_left_def Let_def)
  qed
qed

theorem broadcast_ends_after_encoder_witness:
  "\<not> egress_on (fst (snd (run_tick 30000200 plain_facts (on_air (Left 100 False) LivePlan, []))))"
  by (rule broadcast_ends_after_encoder [where since = 100 and stopped = False and began = 50])
    (simp_all add: on_air_def plain_facts_def DRAIN_SLACK_def)

text \<open>
  End stream (after air) ends: from its deadline on, or as soon as everything up to the
  mark has been handed over and written, the next tick ends the stream, turns the connection
  off and discards what is left.
\<close>

theorem end_after_air_ends:
  assumes "lc_plan l = EndAtMark deadline" and "f_destination f"
    and "deadline \<le> now \<or> (f_end_reached f \<and> f_backlog_empty f)"
  shows "ended (fst (snd (run_tick now f (l, [])))) \<and>
    \<not> egress_on (fst (snd (run_tick now f (l, [])))) \<and>
    Discard \<in> set (snd (snd (run_tick now f (l, []))))"
proof -
  have "end_at_mark now f (l, []) = (True, set_plan Ended (lc_finish (l, [])))"
    using assms(1,3) by (auto simp: end_at_mark_def Let_def)
  then show ?thesis using assms(2) by (simp add: run_tick_def ended_def)
qed

theorem end_after_air_ends_witness:
  "ended (fst (snd (run_tick 60 plain_facts (on_air Publishing (EndAtMark 90), []))))"
  using end_after_air_ends [of "on_air Publishing (EndAtMark 90)" 90 plain_facts 60]
  by (simp add: on_air_def plain_facts_def)

text \<open>
  What brings an ended stream back: only the streamer resuming it, which first discards
  what was received meanwhile, or a new encoder stream after the previous one was stopped on
  purpose (or the first one), never an encoder that reconnects by itself or takes over a
  silent connection.
\<close>

theorem ended_comes_back_only_on_purpose:
  assumes "life_step l fx l'" and "ended l" and "\<not> ended l'"
  shows "Discard \<in> set fx \<or>
    (lc_encoder l' = Publishing \<and>
     (case lc_encoder l of Publishing \<Rightarrow> False | Left _ stopped \<Rightarrow> stopped | Idle stopped \<Rightarrow> stopped))"
  using assms(1)
proof cases
  case resume
  with assms(2,3) show ?thesis by (auto simp: resume_def ended_def set_plan_def push_def)
next
  case (publishing now takeover f)
  with assms(2,3) show ?thesis
    by (auto simp: publishing_def ended_def Let_def set_plan_def push_def
        split: encoder.splits if_splits)
next
  case (tick now f)
  with assms(2,3) show ?thesis
    by (auto simp: run_tick_def tick_off_def tick_left_def end_at_mark_def ended_def Let_def lc_finish_fields(2)
        dest!: arg_cong [of _ _ fst]
        split: if_splits egress.splits encoder.splits)
next
  case (start now f s)
  have "s = (l, [])" using tidy_tick [OF start(1)] by simp
  with start assms(2,3) show ?thesis by (auto simp: started_def ended_def)
next
  case (failed now f s)
  have "s = (l, [])" using tidy_tick [OF failed(1)] by simp
  then have "lc_finish (l, []) = (l', fx)" using failed(2) assms(2,3)
    by (auto simp: start_failed_def split: if_splits)
  then show ?thesis using lc_finish_fields(4) [of "(l, [])"] by auto
next
  case destination
  then have "lc_plan l' = lc_plan l"
    by (metis destination_changed_def stop_egress_fields(1) fst_conv)
  with assms(2,3) show ?thesis by (simp add: ended_def)
next
  case end_now
  with assms(3) show ?thesis by (auto simp: end_now_def ended_def set_plan_def)
next
  case (end_after_air now f)
  with assms(2,3) show ?thesis by (auto simp: end_after_air_def ended_def)
next
  case (encoder_left now stopped)
  with assms(2,3) show ?thesis by (auto simp: encoder_left_def ended_def split: if_splits)
qed

theorem ended_comes_back_only_on_purpose_witness:
  "Discard \<in> set [Discard] \<or> lc_encoder (new_lifecycle 30) = Publishing"
proof -
  have "resume ((new_lifecycle 30)\<lparr>lc_plan := Ended\<rparr>, []) = (new_lifecycle 30, [Discard])"
    by (simp add: resume_def set_plan_def push_def new_lifecycle_def)
  from ended_comes_back_only_on_purpose [OF life_step.resume [OF this]] show ?thesis
    by (auto simp: ended_def new_lifecycle_def)
qed

end
