(* ===== verification/Chunk.thy ===== *)
theory Chunk
  imports Prelude "HOL-Library.AList"
begin

text \<open>
  The RTMP chunk stream (\<^verbatim>\<open>crates/rtmp/src/chunk.rs\<close>): the decoder that puts messages
  together from the chunks a peer interleaves, and the encoder. The stream states are an
  association list with one entry per chunk stream id; lengths and ids are \<open>nat\<close>
  (24 and 17 bits at most), timestamps are words because they wrap. Where a complete
  message's bytes are copied to (the blocks of \<^verbatim>\<open>ArenaPool\<close>) does not show in what is decoded
  and is not part of the state here.
\<close>

section \<open>State\<close>

definition DEFAULT_CHUNK_SIZE :: nat where "DEFAULT_CHUNK_SIZE = 128"
definition MAX_CHUNK_SIZE :: nat where "MAX_CHUNK_SIZE = 2 ^ 24"
definition MAX_CHUNK_STREAMS :: nat where "MAX_CHUNK_STREAMS = 64"
definition MAX_PENDING_BYTES :: nat where "MAX_PENDING_BYTES = 64 * 1024 * 1024"
definition EXTENDED :: nat where "EXTENDED = 0x00FFFFFF"

definition AUDIO :: u8 where "AUDIO = 8"
definition VIDEO :: u8 where "VIDEO = 9"

record message =
  m_csid :: nat
  m_timestamp :: u32
  m_type_id :: u8
  m_stream_id :: u32
  m_payload :: bytes

datatype chunk_error =
    MissingHeader nat
  | InvalidChunkSize nat
  | TooManyStreams
  | TooMuchPending
  | MessageTooLarge u8 nat nat

record stream_state =
  ss_timestamp :: u32
  ss_delta :: u32
  ss_length :: nat
  ss_type_id :: u8
  ss_stream_id :: u32
  ss_extended :: bool
  ss_ext_value :: u32
  ss_partial :: bytes
  ss_in_progress :: bool
  ss_has_header :: bool

definition default_stream :: stream_state where
  "default_stream = \<lparr>ss_timestamp = 0, ss_delta = 0, ss_length = 0, ss_type_id = 0,
     ss_stream_id = 0, ss_extended = False, ss_ext_value = 0, ss_partial = [],
     ss_in_progress = False, ss_has_header = False\<rparr>"

text \<open>A limit on message lengths that is \<open>None\<close> is \<^verbatim>\<open>usize::MAX\<close>.\<close>

record chunk_decoder =
  cd_chunk_size :: nat
  cd_streams :: "(nat \<times> stream_state) list"
  cd_buf :: bytes
  cd_pending :: nat
  cd_max_media :: "nat option"
  cd_max_other :: "nat option"
  cd_repeats :: "bool option"

definition new_decoder :: chunk_decoder where
  "new_decoder = \<lparr>cd_chunk_size = DEFAULT_CHUNK_SIZE, cd_streams = [], cd_buf = [],
     cd_pending = 0, cd_max_media = None, cd_max_other = None, cd_repeats = None\<rparr>"

definition set_max_message_len :: "nat option \<Rightarrow> nat option \<Rightarrow> chunk_decoder \<Rightarrow> chunk_decoder" where
  "set_max_message_len media other d = d\<lparr>cd_max_media := media, cd_max_other := other\<rparr>"

definition push_bytes :: "bytes \<Rightarrow> chunk_decoder \<Rightarrow> chunk_decoder" where
  "push_bytes data d = d\<lparr>cd_buf := cd_buf d @ data\<rparr>"

definition set_chunk_size :: "nat \<Rightarrow> chunk_decoder \<Rightarrow> (chunk_error + unit) \<times> chunk_decoder" where
  "set_chunk_size s d =
     (if s = 0 \<or> s > MAX_CHUNK_SIZE then (Inl (InvalidChunkSize s), d)
      else (Inr (), d\<lparr>cd_chunk_size := s\<rparr>))"

definition abort_message :: "nat \<Rightarrow> chunk_decoder \<Rightarrow> chunk_decoder" where
  "abort_message csid d =
     (case map_of (cd_streams d) csid of
        None \<Rightarrow> d
      | Some s \<Rightarrow> d\<lparr>cd_pending := cd_pending d - length (ss_partial s),
                    cd_streams := AList.update csid
                      (s\<lparr>ss_partial := [], ss_in_progress := False\<rparr>) (cd_streams d)\<rparr>)"

section \<open>Reading a chunk\<close>

text \<open>
  An attempt at reading the received bytes: more are needed, the peer is refused, or
  something was read. \<open>then_try\<close> is the early return.
\<close>

datatype 'a attempt = More | Refuse chunk_error | Got 'a

fun then_try :: "'a attempt \<Rightarrow> ('a \<Rightarrow> 'b attempt) \<Rightarrow> 'b attempt" where
  "then_try More f = More"
| "then_try (Refuse e) f = Refuse e"
| "then_try (Got a) f = f a"

text \<open>The \<open>n\<close> bytes at \<open>pos\<close>, once they are there.\<close>

definition need :: "bytes \<Rightarrow> nat \<Rightarrow> nat \<Rightarrow> bytes attempt" where
  "need b pos n = (if length b < pos + n then More else Got (take n (drop pos b)))"

definition u24 :: "bytes \<Rightarrow> nat" where
  "u24 b = be_nat (take 3 b)"

definition be32 :: "bytes \<Rightarrow> u32" where
  "be32 b = of_nat (be_nat (take 4 b))"

definition le32 :: "bytes \<Rightarrow> u32" where
  "le32 b = of_nat (be_nat (rev (take 4 b)))"

text \<open>Format, chunk stream id and where the message header starts.\<close>

definition read_basic :: "bytes \<Rightarrow> (nat \<times> nat \<times> nat) attempt" where
  "read_basic b =
     (if b = [] then More
      else let fmt = unat (drop_bit 6 (hd b)); n = unat (hd b AND 0x3f) in
        if n = 0 then (if length b < 2 then More else Got (fmt, 64 + unat (b ! 1), 2))
        else if n = 1
        then (if length b < 3 then More
              else Got (fmt, 64 + unat (b ! 1) + unat (b ! 2) * 2 ^ 8, 3))
        else Got (fmt, n, 1))"

definition header_len :: "nat \<Rightarrow> nat" where
  "header_len fmt = (if fmt = 0 then 11 else if fmt = 1 then 7 else if fmt = 2 then 3 else 0)"

definition stream_of :: "chunk_decoder \<Rightarrow> nat \<Rightarrow> stream_state" where
  "stream_of d csid = (case map_of (cd_streams d) csid of None \<Rightarrow> default_stream | Some s \<Rightarrow> s)"

definition known_stream :: "chunk_decoder \<Rightarrow> nat \<Rightarrow> nat \<Rightarrow> unit attempt" where
  "known_stream d fmt csid =
     (if fmt \<noteq> 0 \<and> \<not> ss_has_header (stream_of d csid) then Refuse (MissingHeader csid)
      else if map_of (cd_streams d) csid = None \<and> length (cd_streams d) \<ge> MAX_CHUNK_STREAMS
      then Refuse TooManyStreams else Got ())"

definition within_limit :: "chunk_decoder \<Rightarrow> u8 \<Rightarrow> nat \<Rightarrow> unit attempt" where
  "within_limit d type_id len =
     (case (if type_id = AUDIO \<or> type_id = VIDEO then cd_max_media d else cd_max_other d) of
        None \<Rightarrow> Got ()
      | Some mx \<Rightarrow> if len > mx then Refuse (MessageTooLarge type_id len mx) else Got ())"

text \<open>
  The extended timestamp: whether there is one, its value, where the payload starts, and
  what a continuation chunk has just shown of the peer's habit of repeating it.
\<close>

definition read_extended ::
    "bytes \<Rightarrow> nat \<Rightarrow> bool option \<Rightarrow> stream_state \<Rightarrow> nat \<Rightarrow> nat \<Rightarrow>
     (bool \<times> u32 \<times> nat \<times> bool option) attempt" where
  "read_extended b pos repeats st fmt ts_field =
     (if fmt \<le> 2 then
        (if ts_field = EXTENDED
         then then_try (need b pos 4) (\<lambda>v. Got (True, be32 v, pos + 4, None))
         else Got (False, ss_ext_value st, pos, None))
      else if ss_extended st then
        (if ss_in_progress st then
           (case repeats of
              Some True \<Rightarrow> then_try (need b pos 4) (\<lambda>v. Got (True, ss_ext_value st, pos + 4, None))
            | Some False \<Rightarrow> Got (True, ss_ext_value st, pos, None)
            | None \<Rightarrow> then_try (need b pos 4) (\<lambda>v.
                if be32 v = ss_ext_value st
                then Got (True, ss_ext_value st, pos + 4, Some True)
                else Got (True, ss_ext_value st, pos, Some False)))
         else then_try (need b pos 4) (\<lambda>v. Got (True, be32 v, pos + 4, None)))
      else Got (False, ss_ext_value st, pos, None))"

record chunk_header =
  h_fmt :: nat
  h_csid :: nat
  h_continuation :: bool
  h_ts_field :: nat
  h_length :: nat
  h_type_id :: u8
  h_stream_id :: u32
  h_extended :: bool
  h_ext_value :: u32
  h_learned :: "bool option"
  h_payload :: bytes
  h_end :: nat

text \<open>
  The payload of a chunk that starts at \<open>pos\<close>: what is left of the message, at most the
  chunk size, within the limit on unfinished messages.
\<close>

definition read_payload :: "chunk_decoder \<Rightarrow> bytes \<Rightarrow> stream_state \<Rightarrow> bool \<Rightarrow> nat \<Rightarrow> nat \<Rightarrow> bytes attempt"
  where
  "read_payload d b st continuation len pos =
     (let already = (if continuation then length (ss_partial st) else 0);
          n = min (len - already) (cd_chunk_size d);
          dropped = (if continuation then 0 else length (ss_partial st))
      in then_try (need b pos n) (\<lambda>payload.
           if cd_pending d - dropped + n > MAX_PENDING_BYTES then Refuse TooMuchPending
           else Got payload))"

text \<open>What follows the message header \<open>h\<close> of format \<open>fmt\<close>, from \<open>pos\<close> on.\<close>

definition read_body :: "chunk_decoder \<Rightarrow> bytes \<Rightarrow> nat \<Rightarrow> nat \<Rightarrow> bytes \<Rightarrow> nat \<Rightarrow> chunk_header attempt" where
  "read_body d b fmt csid h pos =
     (let st = stream_of d csid;
          ts_field = (if fmt \<le> 2 then u24 h else 0);
          len = (if fmt \<le> 1 then u24 (drop 3 h) else ss_length st);
          type_id = (if fmt \<le> 1 then h ! 6 else ss_type_id st);
          stream_id = (if fmt = 0 then le32 (drop 7 h) else ss_stream_id st);
          continuation = (fmt = 3 \<and> ss_in_progress st)
      in
      then_try (if continuation then Got () else within_limit d type_id len) (\<lambda>_.
      then_try (read_extended b pos (cd_repeats d) st fmt ts_field)
        (\<lambda>(extended, ext_value, pos', learned).
      then_try (read_payload d b st continuation len pos') (\<lambda>payload.
      Got \<lparr>h_fmt = fmt, h_csid = csid, h_continuation = continuation,
        h_ts_field = ts_field, h_length = len, h_type_id = type_id, h_stream_id = stream_id,
        h_extended = extended, h_ext_value = ext_value, h_learned = learned,
        h_payload = payload, h_end = pos' + length payload\<rparr>))))"

text \<open>The whole chunk, once it has arrived.\<close>

definition read_chunk :: "chunk_decoder \<Rightarrow> bytes \<Rightarrow> chunk_header attempt" where
  "read_chunk d b =
     then_try (read_basic b) (\<lambda>(fmt, csid, pos).
     then_try (need b pos (header_len fmt)) (\<lambda>h.
     then_try (known_stream d fmt csid) (\<lambda>_.
     read_body d b fmt csid h (pos + header_len fmt))))"

section \<open>Committing it\<close>

definition new_timestamp :: "chunk_header \<Rightarrow> stream_state \<Rightarrow> stream_state" where
  "new_timestamp h st =
     (let raw_ts = (if h_extended h then h_ext_value h else of_nat (h_ts_field h)) in
      if h_fmt h = 0 then st\<lparr>ss_timestamp := raw_ts, ss_delta := raw_ts\<rparr>
      else if h_fmt h = 1 \<or> h_fmt h = 2
      then st\<lparr>ss_delta := raw_ts, ss_timestamp := ss_timestamp st + raw_ts\<rparr>
      else (let st1 = (if h_extended h then st\<lparr>ss_delta := raw_ts\<rparr> else st)
            in st1\<lparr>ss_timestamp := ss_timestamp st1 + ss_delta st1\<rparr>))"

definition start_message :: "chunk_header \<Rightarrow> stream_state \<Rightarrow> stream_state" where
  "start_message h st =
     (new_timestamp h st)\<lparr>ss_length := h_length h, ss_type_id := h_type_id h,
       ss_stream_id := h_stream_id h, ss_extended := h_extended h,
       ss_ext_value := h_ext_value h, ss_has_header := True, ss_partial := [],
       ss_in_progress := True\<rparr>"

datatype chunk_result = NeedMore | Partial | Complete message

definition commit :: "chunk_decoder \<Rightarrow> chunk_header \<Rightarrow> chunk_result \<times> chunk_decoder" where
  "commit d h =
     (let st0 = stream_of d (h_csid h);
          dropped = (if h_continuation h then 0 else length (ss_partial st0));
          st1 = (if h_continuation h then st0 else start_message h st0);
          st2 = st1\<lparr>ss_partial := ss_partial st1 @ h_payload h\<rparr>;
          d1 = d\<lparr>cd_repeats := (if h_learned h = None then cd_repeats d else h_learned h),
                 cd_pending := cd_pending d - dropped + length (h_payload h),
                 cd_buf := drop (h_end h) (cd_buf d)\<rparr>
      in if ss_length st2 \<le> length (ss_partial st2)
         then (Complete \<lparr>m_csid = h_csid h, m_timestamp = ss_timestamp st2,
                 m_type_id = ss_type_id st2, m_stream_id = ss_stream_id st2,
                 m_payload = ss_partial st2\<rparr>,
               d1\<lparr>cd_pending := cd_pending d1 - length (ss_partial st2),
                  cd_streams := AList.update (h_csid h)
                    (st2\<lparr>ss_in_progress := False, ss_partial := []\<rparr>) (cd_streams d)\<rparr>)
         else (Partial, d1\<lparr>cd_streams := AList.update (h_csid h) st2 (cd_streams d)\<rparr>))"

definition next_chunk :: "chunk_decoder \<Rightarrow> (chunk_error + chunk_result) \<times> chunk_decoder" where
  "next_chunk d =
     (case read_chunk d (cd_buf d) of
        More \<Rightarrow> (Inr NeedMore, d)
      | Refuse e \<Rightarrow> (Inl e, d)
      | Got h \<Rightarrow> (let (r, d') = commit d h in (Inr r, d')))"

lemma read_basic_pos: "read_basic b = Got (fmt, csid, pos) \<Longrightarrow> 0 < pos \<and> pos \<le> length b"
  by (auto simp: read_basic_def Let_def Suc_le_eq split: if_splits)

lemma then_try_Got: "then_try a f = Got x \<longleftrightarrow> (\<exists>y. a = Got y \<and> f y = Got x)"
  by (cases a) auto

lemma then_try_GotE:
  assumes "then_try a f = Got r"
  obtains y where "a = Got y" and "f y = Got r"
  using assms by (cases a) auto

lemma then_try_GotE3:
  assumes "then_try a (\<lambda>(x, y, z). f x y z) = Got r"
  obtains x y z where "a = Got (x, y, z)" and "f x y z = Got r"
  using assms by (cases a) auto

lemma then_try_GotE4:
  assumes "then_try a (\<lambda>(x, y, z, w). f x y z w) = Got r"
  obtains x y z w where "a = Got (x, y, z, w)" and "f x y z w = Got r"
  using assms by (cases a) auto

lemma then_try_More: "then_try a f = More \<longleftrightarrow> a = More \<or> (\<exists>y. a = Got y \<and> f y = More)"
  by (cases a) auto

lemma need_Got: "need b pos n = Got x \<longleftrightarrow> pos + n \<le> length b \<and> x = take n (drop pos b)"
  by (auto simp: need_def)

lemma read_extended_pos: "read_extended b pos r st fmt ts = Got (e, v, pos', l) \<Longrightarrow> pos \<le> pos'"
  by (auto simp: read_extended_def then_try_Got need_Got split: if_splits option.splits bool.splits)

lemma read_payload_Got:
  "read_payload d b st c len pos = Got p \<Longrightarrow>
     pos + length p \<le> length b \<and> p = take (length p) (drop pos b) \<and>
     length p = min (len - (if c then length (ss_partial st) else 0)) (cd_chunk_size d) \<and>
     cd_pending d - (if c then 0 else length (ss_partial st)) + length p \<le> MAX_PENDING_BYTES"
  by (auto simp: read_payload_def Let_def then_try_Got need_def min_def split: if_splits)

lemma read_body_GotE:
  assumes "read_body d b fmt csid h pos = Got r"
  obtains ts len st c ext_value pos' learned extended payload where
    "st = stream_of d csid" and "c = (fmt = 3 \<and> ss_in_progress st)"
    and "ts = (if fmt \<le> 2 then u24 h else 0)"
    and "len = (if fmt \<le> 1 then u24 (drop 3 h) else ss_length st)"
    and "read_extended b pos (cd_repeats d) st fmt ts = Got (extended, ext_value, pos', learned)"
    and "read_payload d b st c len pos' = Got payload"
    and "h_csid r = csid" and "h_continuation r = c" and "h_length r = len"
    and "h_fmt r = fmt" and "h_payload r = payload" and "h_end r = pos' + length payload"
    and "h_extended r = extended" and "h_ext_value r = ext_value" and "h_learned r = learned"
proof -
  let ?st = "stream_of d csid"
  let ?c = "fmt = 3 \<and> ss_in_progress ?st"
  from assms show thesis
    unfolding read_body_def Let_def
    by (elim then_try_GotE then_try_GotE4) (rule that [of ?st ?c], auto)
qed

lemma read_body_end:
  assumes "read_body d b fmt csid h pos = Got r"
  shows "pos \<le> h_end r \<and> h_end r \<le> length b"
  using assms by (elim read_body_GotE) (use read_extended_pos read_payload_Got in fastforce)

lemma read_chunk_GotE:
  assumes "read_chunk d b = Got h"
  obtains fmt csid pos m where "read_basic b = Got (fmt, csid, pos)"
    and "need b pos (header_len fmt) = Got m" and "known_stream d fmt csid = Got ()"
    and "read_body d b fmt csid m (pos + header_len fmt) = Got h"
  using assms unfolding read_chunk_def
  by (elim then_try_GotE3 then_try_GotE) (auto intro: that)

lemma read_chunk_end: "read_chunk d b = Got h \<Longrightarrow> 0 < h_end h \<and> h_end h \<le> length b"
  by (elim read_chunk_GotE) (use read_basic_pos read_body_end in fastforce)

lemma commit_buf: "commit d h = (r, d') \<Longrightarrow> cd_buf d' = drop (h_end h) (cd_buf d)"
  by (auto simp: commit_def Let_def split: if_splits)

lemma next_chunk_shrinks:
  assumes "next_chunk d = (Inr r, d')" and "r \<noteq> NeedMore"
  shows "length (cd_buf d') < length (cd_buf d)"
  using assms
  by (auto simp: next_chunk_def split: attempt.splits prod.splits dest!: read_chunk_end commit_buf)

text \<open>The next complete message, or \<open>None\<close> if more bytes are needed.\<close>

function next_message :: "chunk_decoder \<Rightarrow> (chunk_error + message option) \<times> chunk_decoder" where
  "next_message d =
     (case next_chunk d of
        (Inl e, d') \<Rightarrow> (Inl e, d')
      | (Inr NeedMore, d') \<Rightarrow> (Inr None, d')
      | (Inr Partial, d') \<Rightarrow> next_message d'
      | (Inr (Complete m), d') \<Rightarrow> (Inr (Some m), d'))"
  by pat_completeness auto
termination
  by (relation "measure (length \<circ> cd_buf)") (auto dest: next_chunk_shrinks [OF sym])

declare next_message.simps [simp del]

section \<open>The encoder\<close>

definition put_u24 :: "nat \<Rightarrow> bytes" where
  "put_u24 v = put_be 3 v"

definition put_basic_header :: "nat \<Rightarrow> nat \<Rightarrow> bytes" where
  "put_basic_header fmt csid =
     (if 2 \<le> csid \<and> csid < 64 then [push_bit 6 (of_nat fmt) OR of_nat csid]
      else if 64 \<le> csid \<and> csid < 320 then [push_bit 6 (of_nat fmt), of_nat (csid - 64)]
      else let v = min (max csid 64) 65599 - 64
           in [push_bit 6 (of_nat fmt) OR 1, of_nat v, of_nat (v div 2 ^ 8)])"

text \<open>\<^verbatim>\<open>payload.chunks(n)\<close>, for \<open>n > 0\<close>.\<close>

function chunks_of :: "nat \<Rightarrow> bytes \<Rightarrow> bytes list" where
  "chunks_of n xs = (if xs = [] \<or> n = 0 then [] else take n xs # chunks_of n (drop n xs))"
  by pat_completeness auto
termination by (relation "measure (length \<circ> snd)") auto

declare chunks_of.simps [simp del]

text \<open>What \<^verbatim>\<open>write\<close> appends, with the encoder's chunk size \<open>cs\<close>.\<close>

definition write_chunks :: "nat \<Rightarrow> message \<Rightarrow> bytes" where
  "write_chunks cs m =
     (let ext = (if EXTENDED \<le> unat (m_timestamp m) then put_be 4 (unat (m_timestamp m)) else []);
          ts_field = (if EXTENDED \<le> unat (m_timestamp m) then EXTENDED else unat (m_timestamp m));
          header = put_basic_header 0 (m_csid m) @ put_u24 ts_field @
            put_u24 (length (m_payload m)) @ [m_type_id m] @
            rev (put_be 4 (unat (m_stream_id m))) @ ext
      in header @
         (case chunks_of cs (m_payload m) of
            [] \<Rightarrow> []
          | c # rest \<Rightarrow> c @ concat (map (\<lambda>c. put_basic_header 3 (m_csid m) @ ext @ c) rest)))"

definition encoder_chunk_size :: "nat \<Rightarrow> nat" where
  "encoder_chunk_size n = min (max n 1) MAX_CHUNK_SIZE"

end
