(* ===== verification/Chunk_Invariant.thy ===== *)
theory Chunk_Invariant
  imports Chunk
begin

text \<open>
  What holds of a chunk decoder whatever its peer sends: its memory is bounded.
\<close>

section \<open>Bounded memory\<close>

definition held_bytes :: "(nat \<times> stream_state) list \<Rightarrow> nat" where
  "held_bytes ss = (\<Sum>(_, s) \<leftarrow> ss. length (ss_partial s))"

definition stream_ok :: "stream_state \<Rightarrow> bool" where
  "stream_ok s \<longleftrightarrow>
     (if ss_in_progress s then length (ss_partial s) < ss_length s else ss_partial s = [])"

definition chunk_ok :: "chunk_decoder \<Rightarrow> bool" where
  "chunk_ok d \<longleftrightarrow>
     distinct (map fst (cd_streams d)) \<and> length (cd_streams d) \<le> MAX_CHUNK_STREAMS \<and>
     cd_pending d = held_bytes (cd_streams d) \<and> cd_pending d \<le> MAX_PENDING_BYTES \<and>
     0 < cd_chunk_size d \<and> cd_chunk_size d \<le> MAX_CHUNK_SIZE \<and>
     (\<forall>(k, s) \<in> set (cd_streams d). stream_ok s)"

lemma chunk_ok_frame [simp]:
  "chunk_ok (d\<lparr>cd_buf := b\<rparr>) = chunk_ok d" "chunk_ok (d\<lparr>cd_repeats := r\<rparr>) = chunk_ok d"
  "chunk_ok (d\<lparr>cd_max_media := x, cd_max_other := y\<rparr>) = chunk_ok d"
  by (simp_all add: chunk_ok_def)

lemma new_decoder_ok: "chunk_ok new_decoder"
  by (simp add: chunk_ok_def new_decoder_def held_bytes_def MAX_CHUNK_STREAMS_def
      MAX_PENDING_BYTES_def DEFAULT_CHUNK_SIZE_def MAX_CHUNK_SIZE_def)

lemma held_bytes_update:
  assumes "distinct (map fst ss)"
  shows "held_bytes (AList.update k s ss) +
      (case map_of ss k of None \<Rightarrow> 0 | Some s0 \<Rightarrow> length (ss_partial s0)) =
    held_bytes ss + length (ss_partial s)"
  using assms by (induction ss) (auto simp: held_bytes_def split: option.splits)

lemma held_bytes_ge: "map_of ss k = Some s \<Longrightarrow> length (ss_partial s) \<le> held_bytes ss"
  by (induction ss) (auto simp: held_bytes_def split: if_splits)

lemma length_update:
  "length (AList.update k s ss) = (if map_of ss k = None then Suc (length ss) else length ss)"
  by (induction ss) auto

lemma set_update_ok:
  assumes "\<forall>(k, s) \<in> set ss. stream_ok s" and "stream_ok s"
  shows "\<forall>(k, s) \<in> set (AList.update k' s ss). stream_ok s"
  using assms by (induction ss) (auto split: if_splits)

lemma stream_of_partial:
  "length (ss_partial (stream_of d k)) =
     (case map_of (cd_streams d) k of None \<Rightarrow> 0 | Some s \<Rightarrow> length (ss_partial s))"
  by (simp add: stream_of_def default_stream_def split: option.split)

lemma stream_of_ok: "chunk_ok d \<Longrightarrow> stream_ok (stream_of d k)"
  by (auto simp: stream_of_def chunk_ok_def stream_ok_def default_stream_def
      dest!: map_of_SomeD split: option.splits)

text \<open>Replacing one stream's state, the count of pending bytes with it.\<close>

lemma chunk_ok_update:
  assumes d: "chunk_ok d" and s: "stream_ok s"
    and room: "map_of (cd_streams d) k = None \<longrightarrow> length (cd_streams d) < MAX_CHUNK_STREAMS"
    and p: "p + length (ss_partial (stream_of d k)) = cd_pending d + length (ss_partial s)"
    and le: "p \<le> MAX_PENDING_BYTES"
  shows "chunk_ok (d\<lparr>cd_pending := p, cd_streams := AList.update k s (cd_streams d)\<rparr>)"
  using assms held_bytes_update [of "cd_streams d" k s]
  by (auto simp: chunk_ok_def distinct_update length_update stream_of_partial Suc_le_eq
      dest: set_update_ok [OF _ s])

lemma abort_ok: "chunk_ok d \<Longrightarrow> chunk_ok (abort_message csid d)"
proof (cases "map_of (cd_streams d) csid")
  case (Some s)
  assume d: "chunk_ok d"
  have le: "length (ss_partial s) \<le> cd_pending d" "cd_pending d \<le> MAX_PENDING_BYTES"
    using d held_bytes_ge [OF Some] by (simp_all add: chunk_ok_def)
  have "chunk_ok (d\<lparr>cd_pending := cd_pending d - length (ss_partial s),
      cd_streams := AList.update csid (s\<lparr>ss_partial := [], ss_in_progress := False\<rparr>) (cd_streams d)\<rparr>)"
    by (rule chunk_ok_update [OF d])
      (use le Some in \<open>auto simp: stream_ok_def stream_of_def\<close>)
  then show ?thesis by (simp add: abort_message_def Some)
qed (simp add: abort_message_def)

lemma set_chunk_size_ok: "chunk_ok d \<Longrightarrow> chunk_ok (snd (set_chunk_size n d))"
  by (auto simp: set_chunk_size_def chunk_ok_def)

text \<open>A chunk that was read leaves room for itself.\<close>

lemma read_chunk_room:
  assumes "read_chunk d b = Got h"
  shows "map_of (cd_streams d) (h_csid h) = None \<longrightarrow> length (cd_streams d) < MAX_CHUNK_STREAMS"
    and "cd_pending d - (if h_continuation h then 0 else length (ss_partial (stream_of d (h_csid h))))
      + length (h_payload h) \<le> MAX_PENDING_BYTES"
    and "h_continuation h \<Longrightarrow> ss_in_progress (stream_of d (h_csid h))"
    and "\<not> h_continuation h \<Longrightarrow> length (h_payload h) \<le> h_length h"
    and "h_continuation h \<Longrightarrow> length (ss_partial (stream_of d (h_csid h))) + length (h_payload h)
      \<le> max (ss_length (stream_of d (h_csid h))) (length (ss_partial (stream_of d (h_csid h))))"
proof -
  from assms obtain fmt csid pos m where k: "known_stream d fmt csid = Got ()"
    and r: "read_body d b fmt csid m (pos + header_len fmt) = Got h" by (elim read_chunk_GotE)
  from r have c: "h_csid h = csid" by (elim read_body_GotE) simp
  from k c show "map_of (cd_streams d) (h_csid h) = None \<longrightarrow>
      length (cd_streams d) < MAX_CHUNK_STREAMS"
    by (auto simp: known_stream_def split: if_splits)
  from r show "cd_pending d - (if h_continuation h then 0 else length (ss_partial (stream_of d (h_csid h))))
      + length (h_payload h) \<le> MAX_PENDING_BYTES"
    by (elim read_body_GotE) (auto dest!: read_payload_Got)
  from r show "h_continuation h \<Longrightarrow> ss_in_progress (stream_of d (h_csid h))"
    by (elim read_body_GotE) simp
  from r show "\<not> h_continuation h \<Longrightarrow> length (h_payload h) \<le> h_length h"
    by (elim read_body_GotE) (auto dest!: read_payload_Got)
  from r show "h_continuation h \<Longrightarrow> length (ss_partial (stream_of d (h_csid h))) + length (h_payload h)
      \<le> max (ss_length (stream_of d (h_csid h))) (length (ss_partial (stream_of d (h_csid h))))"
    by (elim read_body_GotE) (auto dest!: read_payload_Got)
qed

lemma start_message_fields [simp]:
  "ss_partial (start_message h s) = []" "ss_in_progress (start_message h s) = True"
  "ss_length (start_message h s) = h_length h" "ss_type_id (start_message h s) = h_type_id h"
  "ss_stream_id (start_message h s) = h_stream_id h"
  "ss_extended (start_message h s) = h_extended h"
  "ss_ext_value (start_message h s) = h_ext_value h"
  "ss_has_header (start_message h s) = True"
  by (simp_all add: start_message_def)

lemma commit_ok:
  assumes d: "chunk_ok d" and r: "read_chunk d b = Got h" and c: "commit d h = (res, d')"
  shows "chunk_ok d'"
proof -
  let ?st = "stream_of d (h_csid h)"
  let ?old = "length (ss_partial ?st)"
  define st1 where "st1 = (if h_continuation h then ?st else start_message h ?st)"
  define st2 where "st2 = st1\<lparr>ss_partial := ss_partial st1 @ h_payload h\<rparr>"
  define p where "p = cd_pending d - (if h_continuation h then 0 else ?old) + length (h_payload h)"
  let ?d1 = "d\<lparr>cd_repeats := (if h_learned h = None then cd_repeats d else h_learned h),
    cd_buf := drop (h_end h) (cd_buf d)\<rparr>"
  have d1: "chunk_ok ?d1" and st: "stream_of ?d1 (h_csid h) = ?st"
    using d by (simp_all add: chunk_ok_def stream_of_def)
  have old: "?old \<le> cd_pending d"
    using d held_bytes_ge [of "cd_streams d" "h_csid h"]
    by (auto simp: stream_of_partial chunk_ok_def split: option.split)
  have partial: "length (ss_partial st2) + (if h_continuation h then 0 else ?old) =
      ?old + length (h_payload h)"
    by (simp add: st2_def st1_def)
  have p_le: "p \<le> MAX_PENDING_BYTES" unfolding p_def by (rule read_chunk_room(2) [OF r])
  have p_eq: "p + ?old = cd_pending d + length (ss_partial st2)"
    using partial old by (auto simp: p_def split: if_splits)
  note up = chunk_ok_update [OF d1, of _ "h_csid h"]
  show ?thesis
  proof (cases "ss_length st2 \<le> length (ss_partial st2)")
    case True
    have "d' = ?d1\<lparr>cd_pending := p - length (ss_partial st2), cd_streams :=
        AList.update (h_csid h) (st2\<lparr>ss_in_progress := False, ss_partial := []\<rparr>) (cd_streams d)\<rparr>"
      using c True unfolding commit_def Let_def
      by (auto simp: st1_def st2_def p_def split: if_splits)
    moreover have "length (ss_partial st2) \<le> p" using p_eq old partial by (auto split: if_splits)
    ultimately show ?thesis
      using up [of "st2\<lparr>ss_in_progress := False, ss_partial := []\<rparr>" "p - length (ss_partial st2)"]
        read_chunk_room(1) [OF r] p_eq p_le st by (simp add: stream_ok_def)
  next
    case False
    have "d' = ?d1\<lparr>cd_pending := p, cd_streams := AList.update (h_csid h) st2 (cd_streams d)\<rparr>"
      using c False unfolding commit_def Let_def
      by (auto simp: st1_def st2_def p_def split: if_splits)
    moreover have "stream_ok st2"
      using False read_chunk_room(3) [OF r]
      by (auto simp: stream_ok_def st2_def st1_def split: if_splits)
    ultimately show ?thesis
      using up [of st2 p] read_chunk_room(1) [OF r] p_eq p_le st by simp
  qed
qed

lemma next_chunk_ok:
  assumes "chunk_ok d" and "next_chunk d = (r, d')"
  shows "chunk_ok d'"
  using assms commit_ok [OF assms(1)]
  by (auto simp: next_chunk_def Let_def split: attempt.splits prod.splits)

lemma next_message_ok: "chunk_ok d \<Longrightarrow> next_message d = (r, d') \<Longrightarrow> chunk_ok d'"
proof (induction d arbitrary: r d' rule: next_message.induct)
  case (1 d)
  obtain x d1 where n: "next_chunk d = (x, d1)" by (rule prod.exhaust)
  note ok = next_chunk_ok [OF "1.prems"(1) n]
  from "1.prems"(2) n ok "1.IH" [OF n [symmetric]] show ?case
    by (auto simp: next_message.simps [of d] split: sum.splits chunk_result.splits)
qed

text \<open>What can happen to a decoder.\<close>

inductive decoder_step :: "chunk_decoder \<Rightarrow> chunk_decoder \<Rightarrow> bool" where
  push: "decoder_step d (push_bytes data d)"
| abort: "decoder_step d (abort_message csid d)"
| size: "decoder_step d (snd (set_chunk_size n d))"
| limits: "decoder_step d (set_max_message_len media other d)"
| take: "decoder_step d (snd (next_message d))"

inductive_cases decoder_stepE: "decoder_step d d'"

interpretation decoder: state_machine "\<lambda>d. d = new_decoder" decoder_step chunk_ok
proof unfold_locales
  show "chunk_ok d'" if "chunk_ok d" "decoder_step d d'" for d d'
    using that(2,1)
  proof cases
    case take
    with that(1) show ?thesis using next_message_ok [of d "fst (next_message d)"] by simp
  qed (simp_all add: push_bytes_def set_max_message_len_def abort_ok set_chunk_size_ok)
qed (simp add: new_decoder_ok)

text \<open>
  C29. Whatever a peer sends, and however the session aborts messages, changes the chunk size
  or the limits, the decoder keeps state for at most 64 chunk streams, its count of
  unfinished bytes is exact and at most 64 MiB, and no unfinished message has grown to its
  declared length.
\<close>

theorem decoder_memory_bounded:
  assumes "decoder_step\<^sup>*\<^sup>* new_decoder d"
  shows "length (cd_streams d) \<le> 64 \<and>
    (\<Sum>(_, s) \<leftarrow> cd_streams d. length (ss_partial s)) = cd_pending d \<and>
    cd_pending d \<le> 64 * 1024 * 1024 \<and>
    (\<forall>(k, s) \<in> set (cd_streams d). ss_partial s = [] \<or> length (ss_partial s) < ss_length s)"
proof -
  have ok: "chunk_ok d" by (rule decoder.reachable_inv [OF refl assms])
  then have "\<forall>(k, s) \<in> set (cd_streams d). stream_ok s" by (simp add: chunk_ok_def)
  then have "\<forall>(k, s) \<in> set (cd_streams d). ss_partial s = [] \<or> length (ss_partial s) < ss_length s"
    unfolding stream_ok_def by (auto split: if_splits)
  with ok show ?thesis
    by (simp add: chunk_ok_def held_bytes_def MAX_CHUNK_STREAMS_def MAX_PENDING_BYTES_def)
qed

theorem decoder_memory_bounded_witness:
  "length (cd_streams (snd (next_message (push_bytes [3, 0, 0, 1] new_decoder)))) \<le> 64"
proof -
  have "decoder_step\<^sup>*\<^sup>* new_decoder (snd (next_message (push_bytes [3, 0, 0, 1] new_decoder)))"
    by (meson decoder_step.push decoder_step.take r_into_rtranclp rtranclp.rtrancl_into_rtrancl)
  from decoder_memory_bounded [OF this] show ?thesis by blast
qed

end
