(* ===== verification/Chunk_Pieces.thy ===== *)
theory Chunk_Pieces
  imports Chunk_Invariant
begin

text \<open>
  How the bytes a peer sends are cut into pieces on their way does not change what is
  decoded: reading a chunk looks at no byte past it, so bytes that arrive later change
  nothing that was read, and nothing that was refused.
\<close>

lemma need_append: "need b pos n \<noteq> More \<Longrightarrow> need (b @ c) pos n = need b pos n"
  by (auto simp: need_def split: if_splits)

lemma read_basic_append: "read_basic b \<noteq> More \<Longrightarrow> read_basic (b @ c) = read_basic b"
  by (auto simp: read_basic_def Let_def nth_append split: if_splits)

lemma then_try_append:
  assumes "then_try (a b) (f b) \<noteq> More" and "a b \<noteq> More \<Longrightarrow> a (b @ c) = a b"
    and "\<And>x. a b = Got x \<Longrightarrow> f b x \<noteq> More \<Longrightarrow> f (b @ c) x = f b x"
  shows "then_try (a (b @ c)) (f (b @ c)) = then_try (a b) (f b)"
  using assms by (cases "a b") auto

lemma read_extended_append:
  "read_extended b pos r st fmt ts \<noteq> More \<Longrightarrow>
     read_extended (b @ c) pos r st fmt ts = read_extended b pos r st fmt ts"
  using need_append [of b pos 4 c] unfolding read_extended_def
  by (cases "need b pos 4") (auto split: option.splits bool.splits if_splits)

lemma read_payload_append:
  "read_payload d b st k len pos \<noteq> More \<Longrightarrow>
     read_payload d (b @ c) st k len pos = read_payload d b st k len pos"
  unfolding read_payload_def Let_def
  by (rule then_try_append [where f = "\<lambda>b p. _ p"]) (auto dest: need_append)

lemma read_body_append:
  assumes "read_body d b fmt csid h pos \<noteq> More"
  shows "read_body d (b @ c) fmt csid h pos = read_body d b fmt csid h pos"
  using assms unfolding read_body_def Let_def
proof (rule then_try_append [where a = "\<lambda>b. _"], goal_cases)
  case (2 x)
  from this(2) show ?case
    by (rule then_try_append [where a = "\<lambda>b. read_extended b _ _ _ _ _"])
      (auto simp: read_extended_append intro!: then_try_append dest: read_payload_append)
qed simp

lemma read_chunk_append:
  assumes "read_chunk d b \<noteq> More"
  shows "read_chunk d (b @ c) = read_chunk d b"
  using assms unfolding read_chunk_def
  by (rule then_try_append)
    (auto simp: read_basic_append need_append then_try_More read_body_append
      intro!: then_try_append)

section \<open>The decoder\<close>

lemma push_bytes_fields [simp]:
  "cd_streams (push_bytes x d) = cd_streams d" "cd_pending (push_bytes x d) = cd_pending d"
  "cd_chunk_size (push_bytes x d) = cd_chunk_size d" "cd_repeats (push_bytes x d) = cd_repeats d"
  "cd_buf (push_bytes x d) = cd_buf d @ x"
  "cd_max_media (push_bytes x d) = cd_max_media d" "cd_max_other (push_bytes x d) = cd_max_other d"
  by (simp_all add: push_bytes_def)

lemma push_bytes_reads [simp]:
  "stream_of (push_bytes x d) = stream_of d" "known_stream (push_bytes x d) = known_stream d"
  "within_limit (push_bytes x d) = within_limit d" "read_payload (push_bytes x d) = read_payload d"
  by (simp_all add: fun_eq_iff stream_of_def known_stream_def within_limit_def read_payload_def)

lemma read_chunk_push [simp]: "read_chunk (push_bytes x d) b = read_chunk d b"
  unfolding read_chunk_def read_body_def push_bytes_reads push_bytes_fields ..

lemma commit_push:
  assumes "h_end h \<le> length (cd_buf d)" and "commit d h = (r, d')"
  shows "commit (push_bytes x d) h = (r, push_bytes x d')"
  using assms
  by (auto simp: commit_def push_bytes_def stream_of_def Let_def split: if_splits)

lemma next_chunk_push:
  assumes "next_chunk d = (r, d')" and "r \<noteq> Inr NeedMore"
  shows "next_chunk (push_bytes x d) = (r, push_bytes x d')"
proof -
  show ?thesis
  proof (cases "read_chunk d (cd_buf d)")
    case More
    with assms show ?thesis by (simp add: next_chunk_def)
  next
    case (Refuse e)
    with assms(1) show ?thesis by (auto simp: next_chunk_def read_chunk_append)
  next
    case (Got h)
    obtain r0 d0 where c: "commit d h = (r0, d0)" by (rule prod.exhaust)
    with Got assms(1) commit_push [OF _ c, of x] read_chunk_end [OF Got] show ?thesis
      by (auto simp: next_chunk_def read_chunk_append)
  qed
qed

lemma next_chunk_waits: "next_chunk d = (Inr NeedMore, d') \<Longrightarrow> d' = d"
  by (auto simp: next_chunk_def commit_def Let_def split: attempt.splits prod.splits if_splits)

lemma next_message_push:
  assumes "next_message d = (r, d')"
  shows "next_message (push_bytes x d) =
    (if r = Inr None then next_message (push_bytes x d') else (r, push_bytes x d'))"
  using assms
proof (induction d arbitrary: r d' rule: next_message.induct)
  case (1 d)
  obtain q d1 where n: "next_chunk d = (q, d1)" by (rule prod.exhaust)
  show ?case
  proof (cases "q = Inr NeedMore")
    case True
    with n "1.prems" next_chunk_waits [of d d1] show ?thesis by (simp add: next_message.simps [of d])
  next
    case False
    note p = next_chunk_push [OF n False, of x]
    from "1.IH" [OF n [symmetric]] "1.prems" n p False show ?thesis
      by (auto simp: next_message.simps [of d] next_message.simps [of "push_bytes x d"]
          split: sum.splits chunk_result.splits)
  qed
qed

lemma next_message_shrinks:
  assumes "next_message d = (Inr (Some m), d')"
  shows "length (cd_buf d') < length (cd_buf d)"
  using assms
proof (induction d rule: next_message.induct)
  case (1 d)
  obtain q d1 where n: "next_chunk d = (q, d1)" by (rule prod.exhaust)
  from "1.prems" n show ?case
  proof (cases q)
    case (Inr r)
    then show ?thesis
    proof (cases r)
      case Partial
      with Inr n "1.prems" "1.IH" [OF n [symmetric]] next_chunk_shrinks [of d r d1] show ?thesis
        by (simp add: next_message.simps [of d])
    next
      case (Complete m0)
      with Inr n "1.prems" next_chunk_shrinks [of d r d1] show ?thesis
        by (simp add: next_message.simps [of d])
    qed (use Inr n "1.prems" in \<open>simp add: next_message.simps [of d]\<close>)
  qed (simp add: next_message.simps [of d])
qed

text \<open>
  What a session does with what it receives: takes every complete message, until bytes are
  missing or the peer is refused.
\<close>

function drain :: "chunk_decoder \<Rightarrow> message list \<times> chunk_error option \<times> chunk_decoder" where
  "drain d =
     (case next_message d of
        (Inl e, d') \<Rightarrow> ([], Some e, d')
      | (Inr None, d') \<Rightarrow> ([], None, d')
      | (Inr (Some m), d') \<Rightarrow> (let (ms, e, d2) = drain d' in (m # ms, e, d2)))"
  by pat_completeness auto
termination
  by (relation "measure (length \<circ> cd_buf)") (auto dest: next_message_shrinks [OF sym])

declare drain.simps [simp del]

text \<open>
  C28. Fragmentation does not matter: receiving \<open>x\<close> and then \<open>y\<close>, taking the complete
  messages after each, gives the messages, the error and the state that receiving them at
  once gives; and a peer that was refused stays refused, whatever it sends after.
\<close>

theorem decoding_ignores_fragmentation:
  "drain (push_bytes (x @ y) d) =
     (let (ms, e, d1) = drain (push_bytes x d) in
      case e of
        Some err \<Rightarrow> (ms, Some err, push_bytes y d1)
      | None \<Rightarrow> (let (ms', e', d2) = drain (push_bytes y d1) in (ms @ ms', e', d2)))"
proof -
  have "drain (push_bytes y d) =
     (let (ms, e, d1) = drain d in
      case e of
        Some err \<Rightarrow> (ms, Some err, push_bytes y d1)
      | None \<Rightarrow> (let (ms', e', d2) = drain (push_bytes y d1) in (ms @ ms', e', d2)))" for d
  proof (induction d rule: drain.induct)
    case (1 d)
    obtain r d1 where n: "next_message d = (r, d1)" by (rule prod.exhaust)
    note p = next_message_push [OF n, of y]
    show ?case
    proof (cases r)
      case (Inl e)
      with n p show ?thesis by (simp add: drain.simps [of d] drain.simps [of "push_bytes y d"])
    next
      case (Inr got)
      show ?thesis
      proof (cases got)
        case None
        with Inr n p show ?thesis
          by (simp add: drain.simps [of d] drain.simps [of "push_bytes y d"]
              drain.simps [of "push_bytes y d1"])
      next
        case (Some m)
        with Inr n p "1.IH" [OF n [symmetric]] show ?thesis
          by (simp add: drain.simps [of d] drain.simps [of "push_bytes y d"] split_beta Let_def
              split: option.splits)
      qed
    qed
  qed
  from this [of "push_bytes x d"] show ?thesis by (simp add: push_bytes_def)
qed

end
