(* ===== verification/Chunk_Roundtrip.thy ===== *)
theory Chunk_Roundtrip
  imports Chunk_Pieces
begin

text \<open>
  The decoder reads what the encoder writes: every sequence of messages, whatever streams
  they are on and however they were chunked, as long as both sides use one chunk size.
\<close>

section \<open>Headers\<close>

lemma basic_byte:
  "\<forall>fmt \<in> set [0..<4]. \<forall>c \<in> set [0..<64].
     unat (drop_bit 6 (push_bit 6 (of_nat fmt) OR of_nat c :: u8)) = fmt \<and>
     unat ((push_bit 6 (of_nat fmt) OR of_nat c :: u8) AND 0x3f) = c"
  by code_simp

lemma basic_byte':
  assumes "fmt < 4" and "c < 64"
  shows "unat (drop_bit 6 (push_bit 6 (of_nat fmt) OR of_nat c :: u8)) = fmt"
    and "unat ((push_bit 6 (of_nat fmt) OR of_nat c :: u8) AND 0x3f) = c"
  using basic_byte assms by auto

lemma read_put_basic:
  assumes "fmt < 4" and "2 \<le> csid" and "csid \<le> 65599"
  shows "read_basic (put_basic_header fmt csid @ t) =
    Got (fmt, csid, length (put_basic_header fmt csid))"
proof -
  consider "csid < 64" | "64 \<le> csid" "csid < 320" | "320 \<le> csid" by linarith
  then show ?thesis
  proof cases
    case 1
    then show ?thesis
      using assms basic_byte' [OF assms(1), of csid]
      by (simp add: read_basic_def put_basic_header_def Let_def)
  next
    case 2
    then show ?thesis
      using assms basic_byte' [OF assms(1), of 0]
      by (simp add: read_basic_def put_basic_header_def Let_def unat_of_nat del: of_nat_diff)
  next
    case 3
    let ?v = "csid - 64"
    have "?v < 256 * 256" using assms(3) by simp
    then have "?v div 256 < 256" by (simp add: less_mult_imp_div_less)
    then have "unat (of_nat ?v :: u8) + unat (of_nat (?v div 256) :: u8) * 256 = ?v"
      by (simp add: unat_of_nat)
    with 3 show ?thesis
      using assms basic_byte' [OF assms(1), of 1]
      by (simp add: read_basic_def put_basic_header_def Let_def)
  qed
qed

lemma put_basic_nonempty: "put_basic_header fmt csid \<noteq> []"
  by (simp add: put_basic_header_def Let_def)

lemma take_put_be [simp]: "take n (put_be n v @ t) = put_be n v"
  by simp

lemma u24_put: "v < 2 ^ 24 \<Longrightarrow> u24 (put_u24 v @ t) = v"
  by (simp add: u24_def put_u24_def be_nat_put_be)

lemma be32_put: "be32 (put_be 4 (unat v) @ t) = v"
proof -
  have "unat v < 256 ^ 4" using unsigned_less [of v] by simp
  then show ?thesis by (simp add: be32_def be_nat_put_be)
qed

lemma le32_put: "le32 (rev (put_be 4 (unat v)) @ t) = v"
proof -
  have "unat v < 256 ^ 4" using unsigned_less [of v] by simp
  then show ?thesis by (simp add: le32_def be_nat_put_be)
qed

section \<open>What the encoder writes\<close>

definition ext_bytes :: "message \<Rightarrow> bytes" where
  "ext_bytes m = (if EXTENDED \<le> unat (m_timestamp m) then put_be 4 (unat (m_timestamp m)) else [])"

definition message_header :: "message \<Rightarrow> bytes" where
  "message_header m =
     put_u24 (if EXTENDED \<le> unat (m_timestamp m) then EXTENDED else unat (m_timestamp m)) @
     put_u24 (length (m_payload m)) @ [m_type_id m] @ rev (put_be 4 (unat (m_stream_id m)))"

text \<open>The continuation chunks of the payload from \<open>k\<close> on.\<close>

definition later_chunks :: "nat \<Rightarrow> message \<Rightarrow> nat \<Rightarrow> bytes" where
  "later_chunks cs m k = concat (map (\<lambda>c. put_basic_header 3 (m_csid m) @ ext_bytes m @ c)
     (chunks_of cs (drop k (m_payload m))))"

lemma write_chunks_split:
  assumes "0 < cs"
  shows "write_chunks cs m = put_basic_header 0 (m_csid m) @ message_header m @ ext_bytes m @
    take cs (m_payload m) @ later_chunks cs m cs"
  using assms
  by (cases "m_payload m = []")
    (simp_all add: write_chunks_def Let_def message_header_def ext_bytes_def later_chunks_def
      chunks_of.simps [of cs "m_payload m"] chunks_of.simps [of cs "[]"])

lemma later_chunks_step:
  assumes "0 < cs"
  shows "later_chunks cs m k =
    (if k < length (m_payload m)
     then put_basic_header 3 (m_csid m) @ ext_bytes m @ take cs (drop k (m_payload m)) @
       later_chunks cs m (k + cs)
     else [])"
  using assms
  by (simp add: later_chunks_def chunks_of.simps [of cs "drop k (m_payload m)"] add.commute)

definition encodable :: "message \<Rightarrow> bool" where
  "encodable m \<longleftrightarrow> 2 \<le> m_csid m \<and> m_csid m \<le> 65599 \<and> length (m_payload m) < 2 ^ 24"

lemma length_message_header [simp]: "length (message_header m) = 11"
  by (simp add: message_header_def put_u24_def)

lemma message_header_fields:
  assumes "encodable m"
  shows "u24 (message_header m) =
      (if EXTENDED \<le> unat (m_timestamp m) then EXTENDED else unat (m_timestamp m))"
    and "u24 (drop 3 (message_header m)) = length (m_payload m)"
    and "message_header m ! 6 = m_type_id m"
    and "le32 (drop 7 (message_header m)) = m_stream_id m"
proof -
  let ?a = "put_u24 (if EXTENDED \<le> unat (m_timestamp m) then EXTENDED else unat (m_timestamp m))"
  let ?b = "put_u24 (length (m_payload m))"
  let ?c = "rev (put_be 4 (unat (m_stream_id m)))"
  have len: "length ?a = 3" "length ?b = 3" by (simp_all add: put_u24_def)
  show "u24 (message_header m) =
      (if EXTENDED \<le> unat (m_timestamp m) then EXTENDED else unat (m_timestamp m))"
    by (simp add: message_header_def u24_put EXTENDED_def)
  have "drop 3 (message_header m) = ?b @ [m_type_id m] @ ?c"
    unfolding message_header_def by (simp add: len)
  then show "u24 (drop 3 (message_header m)) = length (m_payload m)"
    using assms by (simp only: u24_put encodable_def)
  show "message_header m ! 6 = m_type_id m"
    unfolding message_header_def by (simp add: nth_append len)
  have "drop 7 (message_header m) = ?c @ []"
    unfolding message_header_def by (simp add: len)
  then show "le32 (drop 7 (message_header m)) = m_stream_id m" by (simp only: le32_put)
qed

section \<open>Between messages, and within one\<close>

definition idle_but :: "nat option \<Rightarrow> chunk_decoder \<Rightarrow> bool" where
  "idle_but csid d \<longleftrightarrow> chunk_ok d \<and> cd_repeats d \<noteq> Some False \<and>
     (\<forall>k s. map_of (cd_streams d) k = Some s \<longrightarrow> Some k \<noteq> csid \<longrightarrow> \<not> ss_in_progress s)"

text \<open>The stream state after the first \<open>k\<close> bytes of \<open>m\<close>'s payload, more being to come.\<close>

definition receiving :: "message \<Rightarrow> nat \<Rightarrow> stream_state \<Rightarrow> bool" where
  "receiving m k s \<longleftrightarrow> ss_in_progress s \<and> ss_partial s = take k (m_payload m) \<and>
     k < length (m_payload m) \<and> ss_length s = length (m_payload m) \<and>
     ss_type_id s = m_type_id m \<and> ss_stream_id s = m_stream_id m \<and>
     ss_timestamp s = m_timestamp m \<and> ss_has_header s \<and>
     ss_extended s = (EXTENDED \<le> unat (m_timestamp m)) \<and>
     (ss_extended s \<longrightarrow> ss_ext_value s = m_timestamp m)"

definition accepts :: "chunk_decoder \<Rightarrow> message \<Rightarrow> bool" where
  "accepts d m \<longleftrightarrow> within_limit d (m_type_id m) (length (m_payload m)) = Got ()"

lemma held_bytes_single:
  assumes "\<forall>k s. map_of ss k = Some s \<longrightarrow> k \<noteq> csid \<longrightarrow> ss_partial s = []"
    and "distinct (map fst ss)"
  shows "held_bytes ss = (case map_of ss csid of None \<Rightarrow> 0 | Some s \<Rightarrow> length (ss_partial s))"
  using assms
proof (induction ss)
  case (Cons a ss)
  obtain k s where a: "a = (k, s)" by (rule prod.exhaust)
  have new: "map_of ss k = None" using Cons.prems(2) a by (simp add: map_of_eq_None_iff)
  have "\<forall>k' s. map_of ss k' = Some s \<longrightarrow> k' \<noteq> csid \<longrightarrow> ss_partial s = []"
    using Cons.prems(1) a new by (metis fun_upd_apply map_of.simps(2) fst_conv snd_conv option.distinct(1))
  with Cons a have IH: "held_bytes ss = (case map_of ss csid of None \<Rightarrow> 0 | Some s \<Rightarrow> length (ss_partial s))"
    by simp
  show ?case
  proof (cases "k = csid")
    case True
    with IH a new show ?thesis by (simp add: held_bytes_def)
  next
    case False
    then have "ss_partial s = []" using Cons.prems(1) a by (metis map_of_Cons_code(2))
    with IH a False show ?thesis by (simp add: held_bytes_def)
  qed
qed (simp add: held_bytes_def)

lemma idle_pending:
  assumes "idle_but (Some csid) d"
  shows "cd_pending d = length (ss_partial (stream_of d csid))"
proof -
  have ok: "chunk_ok d" using assms by (simp add: idle_but_def)
  have "ss_partial s = []" if "map_of (cd_streams d) k = Some s" "k \<noteq> csid" for k s
    using ok that assms map_of_SomeD [OF that(1)]
    by (auto simp: chunk_ok_def stream_ok_def idle_but_def)
  then have "held_bytes (cd_streams d) = length (ss_partial (stream_of d csid))"
    using held_bytes_single [of "cd_streams d" csid] ok
    by (simp add: chunk_ok_def stream_of_partial)
  with ok show ?thesis by (simp add: chunk_ok_def)
qed

lemma idle_stream:
  assumes "idle_but None d"
  shows "ss_partial (stream_of d k) = [] \<and> \<not> ss_in_progress (stream_of d k)"
proof -
  have ok: "chunk_ok d" using assms by (simp add: idle_but_def)
  have "\<not> ss_in_progress (stream_of d k)"
    using assms by (auto simp: idle_but_def stream_of_def default_stream_def split: option.split)
  with stream_of_ok [OF ok, of k] show ?thesis by (simp add: stream_ok_def)
qed

lemma idle_none_but: "idle_but None d \<Longrightarrow> idle_but (Some k) d"
  by (auto simp: idle_but_def)

lemma take_min_length [simp]: "take (min (length xs) n) xs = take n xs"
  by (simp add: min_def)

lemma drop_prefix [simp]: "drop (length a) (a @ b) = b"
  by simp

text \<open>A first chunk, and a continuation chunk, as the decoder reads them.\<close>

lemma read_first:
  assumes e: "encodable m" and d: "idle_but None d" and cs: "cd_chunk_size d = cs"
    and room: "map_of (cd_streams d) (m_csid m) \<noteq> None \<or> length (cd_streams d) < MAX_CHUNK_STREAMS"
    and a: "accepts d m"
  shows "\<exists>v. read_chunk d (put_basic_header 0 (m_csid m) @ message_header m @ ext_bytes m @
      take cs (m_payload m) @ t) =
    Got \<lparr>h_fmt = 0, h_csid = m_csid m, h_continuation = False,
      h_ts_field = (if EXTENDED \<le> unat (m_timestamp m) then EXTENDED else unat (m_timestamp m)),
      h_length = length (m_payload m), h_type_id = m_type_id m, h_stream_id = m_stream_id m,
      h_extended = (EXTENDED \<le> unat (m_timestamp m)), h_ext_value = v,
      h_learned = None, h_payload = take cs (m_payload m),
      h_end = length (put_basic_header 0 (m_csid m) @ message_header m @ ext_bytes m @
        take cs (m_payload m))\<rparr> \<and> (EXTENDED \<le> unat (m_timestamp m) \<longrightarrow> v = m_timestamp m)"
proof -
  let ?p = "put_basic_header 0 (m_csid m)"
  let ?rest = "take cs (m_payload m) @ t"
  let ?b = "?p @ message_header m @ ext_bytes m @ ?rest"
  let ?pos = "length ?p + 11"
  have basic: "read_basic ?b = Got (0, m_csid m, length ?p)"
    by (rule read_put_basic) (use e in \<open>simp_all add: encodable_def\<close>)
  have hdr: "need ?b (length ?p) (header_len 0) = Got (message_header m)"
    by (simp add: need_def header_len_def)
  have known: "known_stream d 0 (m_csid m) = Got ()"
    using room by (auto simp: known_stream_def)
  have ext: "\<exists>v. read_extended ?b ?pos (cd_repeats d) (stream_of d (m_csid m)) 0
      (u24 (message_header m)) =
      Got (EXTENDED \<le> unat (m_timestamp m), v, ?pos + length (ext_bytes m), None) \<and>
      (EXTENDED \<le> unat (m_timestamp m) \<longrightarrow> v = m_timestamp m)"
    using be32_put [of "m_timestamp m" "[]"] message_header_fields(1) [OF e]
    by (auto simp: read_extended_def ext_bytes_def need_def)
  then obtain v where ext: "read_extended ?b ?pos (cd_repeats d) (stream_of d (m_csid m)) 0
      (u24 (message_header m)) =
      Got (EXTENDED \<le> unat (m_timestamp m), v, ?pos + length (ext_bytes m), None)"
    and v: "EXTENDED \<le> unat (m_timestamp m) \<longrightarrow> v = m_timestamp m" by blast
  have p0: "cd_pending d = 0"
    using idle_pending [OF idle_none_but [OF d], of "m_csid m"] idle_stream [OF d] by simp
  have "length (m_payload m) < MAX_PENDING_BYTES"
    using e by (simp add: encodable_def MAX_PENDING_BYTES_def)
  then have pay: "read_payload d ?b (stream_of d (m_csid m)) False (length (m_payload m))
      (?pos + length (ext_bytes m)) = Got (take cs (m_payload m))"
    using p0 idle_stream [OF d] cs by (auto simp: read_payload_def need_def)
  have "read_body d ?b 0 (m_csid m) (message_header m) ?pos =
    Got \<lparr>h_fmt = 0, h_csid = m_csid m, h_continuation = False,
      h_ts_field = u24 (message_header m),
      h_length = length (m_payload m), h_type_id = m_type_id m, h_stream_id = m_stream_id m,
      h_extended = (EXTENDED \<le> unat (m_timestamp m)), h_ext_value = v,
      h_learned = None, h_payload = take cs (m_payload m),
      h_end = ?pos + length (ext_bytes m) + length (take cs (m_payload m))\<rparr>"
    using a pay ext unfolding read_body_def Let_def accepts_def
    by (simp add: message_header_fields(2-4) [OF e])
  with basic hdr known v show ?thesis
    unfolding read_chunk_def
    by (auto simp: header_len_def message_header_fields(1) [OF e])
qed

lemma read_later:
  assumes e: "encodable m" and d: "idle_but (Some (m_csid m)) d" and cs: "cd_chunk_size d = cs"
    and s: "map_of (cd_streams d) (m_csid m) = Some s" and r: "receiving m k s"
  shows "\<exists>l. read_chunk d (put_basic_header 3 (m_csid m) @ ext_bytes m @
      take cs (drop k (m_payload m)) @ t) =
    Got \<lparr>h_fmt = 3, h_csid = m_csid m, h_continuation = True, h_ts_field = 0,
      h_length = ss_length s, h_type_id = ss_type_id s, h_stream_id = ss_stream_id s,
      h_extended = ss_extended s, h_ext_value = ss_ext_value s, h_learned = l,
      h_payload = take cs (drop k (m_payload m)),
      h_end = length (put_basic_header 3 (m_csid m) @ ext_bytes m @
        take cs (drop k (m_payload m)))\<rparr> \<and> l \<noteq> Some False"
proof -
  let ?p = "put_basic_header 3 (m_csid m)"
  let ?b = "?p @ ext_bytes m @ take cs (drop k (m_payload m)) @ t"
  have st: "stream_of d (m_csid m) = s" using s by (simp add: stream_of_def)
  have basic: "read_basic ?b = Got (3, m_csid m, length ?p)"
    by (rule read_put_basic) (use e in \<open>simp_all add: encodable_def\<close>)
  have known: "known_stream d 3 (m_csid m) = Got ()"
    using s r by (simp add: known_stream_def st receiving_def)
  have "\<exists>l. read_extended ?b (length ?p) (cd_repeats d) s 3 0 =
      Got (ss_extended s, ss_ext_value s, length ?p + length (ext_bytes m), l) \<and> l \<noteq> Some False"
    using be32_put [of "m_timestamp m" "[]"] r d
    by (cases "cd_repeats d")
      (auto simp: read_extended_def ext_bytes_def need_def receiving_def idle_but_def)
  then obtain l where ext: "read_extended ?b (length ?p) (cd_repeats d) s 3 0 =
      Got (ss_extended s, ss_ext_value s, length ?p + length (ext_bytes m), l)"
    and l: "l \<noteq> Some False" by blast
  have "cd_pending d = length (ss_partial s)" using idle_pending [OF d] st by simp
  moreover have "length (m_payload m) < MAX_PENDING_BYTES"
    using e by (simp add: encodable_def MAX_PENDING_BYTES_def)
  ultimately have pay: "read_payload d ?b s True (ss_length s)
      (length ?p + length (ext_bytes m)) = Got (take cs (drop k (m_payload m)))"
    using r cs by (auto simp: read_payload_def need_def receiving_def min_def Let_def)
  have "read_body d ?b 3 (m_csid m) [] (length ?p) =
    Got \<lparr>h_fmt = 3, h_csid = m_csid m, h_continuation = True, h_ts_field = 0,
      h_length = ss_length s, h_type_id = ss_type_id s, h_stream_id = ss_stream_id s,
      h_extended = ss_extended s, h_ext_value = ss_ext_value s, h_learned = l,
      h_payload = take cs (drop k (m_payload m)),
      h_end = length ?p + length (ext_bytes m) + length (take cs (drop k (m_payload m)))\<rparr>"
    using pay ext r unfolding read_body_def Let_def st
    by (simp add: receiving_def)
  with basic known l show ?thesis
    unfolding read_chunk_def by (auto simp: header_len_def need_def)
qed

section \<open>Decoding a message\<close>

lemma next_chunk_Got:
  assumes "read_chunk d (cd_buf d) = Got h"
  shows "next_chunk d = (Inr (fst (commit d h)), snd (commit d h))"
  using assms by (simp add: next_chunk_def split_beta)

text \<open>
  What the decoder keeps from chunk to chunk while it receives messages, and after a
  complete one: nothing unfinished but the message at hand, and the streams already known.
\<close>

lemma idle_but_update:
  assumes "idle_but c d" and "chunk_ok d'" and "cd_repeats d' \<noteq> Some False"
    and "cd_streams d' = AList.update k s (cd_streams d)"
    and "c = None \<or> c = Some k" and "c' = Some k \<or> \<not> ss_in_progress s"
  shows "idle_but c' d'"
  using assms by (auto simp: idle_but_def update_conv' split: if_splits)

definition progress :: "message \<Rightarrow> nat \<Rightarrow> bytes \<Rightarrow> chunk_decoder \<Rightarrow> chunk_result \<Rightarrow> chunk_decoder \<Rightarrow> bool" where
  "progress m k t d r d' \<longleftrightarrow>
     cd_buf d' = t \<and> cd_chunk_size d' = cd_chunk_size d \<and>
     cd_max_media d' = cd_max_media d \<and> cd_max_other d' = cd_max_other d \<and>
     fst ` set (cd_streams d') = insert (m_csid m) (fst ` set (cd_streams d)) \<and>
     (if k < length (m_payload m)
      then r = Partial \<and> idle_but (Some (m_csid m)) d' \<and>
        (\<exists>s. map_of (cd_streams d') (m_csid m) = Some s \<and> receiving m k s)
      else r = Complete m \<and> idle_but None d')"

lemma map_of_update_same [simp]: "map_of (AList.update k v al) k = Some v"
  by (simp add: update_conv')

lemma keys_update [simp]: "fst ` set (AList.update k v al) = insert k (fst ` set al)"
  by (simp add: dom_update)

lemma first_chunk:
  assumes e: "encodable m" and d: "idle_but None d" and cs: "cd_chunk_size d = cs"
    and room: "map_of (cd_streams d) (m_csid m) \<noteq> None \<or> length (cd_streams d) < MAX_CHUNK_STREAMS"
    and a: "accepts d m"
    and b: "cd_buf d = put_basic_header 0 (m_csid m) @ message_header m @ ext_bytes m @
      take cs (m_payload m) @ t"
  shows "\<exists>r d'. next_chunk d = (Inr r, d') \<and> progress m cs t d r d'"
proof -
  from read_first [OF e d cs room a, of t] obtain v h where h: "read_chunk d (cd_buf d) = Got h"
    and hv: "h = \<lparr>h_fmt = 0, h_csid = m_csid m, h_continuation = False,
      h_ts_field = (if EXTENDED \<le> unat (m_timestamp m) then EXTENDED else unat (m_timestamp m)),
      h_length = length (m_payload m), h_type_id = m_type_id m, h_stream_id = m_stream_id m,
      h_extended = (EXTENDED \<le> unat (m_timestamp m)), h_ext_value = v,
      h_learned = None, h_payload = take cs (m_payload m),
      h_end = length (put_basic_header 0 (m_csid m) @ message_header m @ ext_bytes m @
        take cs (m_payload m))\<rparr>"
    and v: "EXTENDED \<le> unat (m_timestamp m) \<longrightarrow> v = m_timestamp m"
    unfolding b by blast
  obtain r d' where c: "commit d h = (r, d')" by (rule prod.exhaust)
  have ok: "chunk_ok d" "cd_repeats d \<noteq> Some False" using d by (simp_all add: idle_but_def)
  have ok': "chunk_ok d'" by (rule commit_ok [OF ok(1) h c])
  have buf: "cd_buf d' = t"
    using commit_buf [OF c] unfolding b hv by simp
  let ?s = "(start_message h (stream_of d (m_csid m)))\<lparr>ss_partial := take cs (m_payload m)\<rparr>"
  have ts: "ss_timestamp ?s = m_timestamp m"
    using v by (auto simp: start_message_def new_timestamp_def hv Let_def)
  have up: "cd_streams d' = AList.update (m_csid m)
      (if length (m_payload m) \<le> cs then ?s\<lparr>ss_in_progress := False, ss_partial := []\<rparr> else ?s)
      (cd_streams d)"
    and r: "r = (if length (m_payload m) \<le> cs then Complete m else Partial)"
    and same: "cd_repeats d' = cd_repeats d" "cd_chunk_size d' = cd_chunk_size d"
      "cd_max_media d' = cd_max_media d" "cd_max_other d' = cd_max_other d"
    using c ts by (auto simp: commit_def hv Let_def start_message_def split: if_splits)
  have idle: "idle_but (if length (m_payload m) \<le> cs then None else Some (m_csid m)) d'"
    by (rule idle_but_update [OF d ok' _ up]) (use same ok in auto)
  have "receiving m cs ?s" if "cs < length (m_payload m)"
    using that ts v by (simp add: receiving_def hv start_message_def)
  then have "progress m cs t d r d'"
    unfolding progress_def using buf same r idle up by auto
  with next_chunk_Got [OF h] c show ?thesis by auto
qed

lemma later_chunk:
  assumes e: "encodable m" and d: "idle_but (Some (m_csid m)) d" and cs: "cd_chunk_size d = cs"
    and s: "map_of (cd_streams d) (m_csid m) = Some s" and rec: "receiving m k s"
    and b: "cd_buf d = put_basic_header 3 (m_csid m) @ ext_bytes m @
      take cs (drop k (m_payload m)) @ t"
  shows "\<exists>r d'. next_chunk d = (Inr r, d') \<and> progress m (k + cs) t d r d'"
proof -
  from read_later [OF e d cs s rec, of t] obtain l h where h: "read_chunk d (cd_buf d) = Got h"
    and hv: "h = \<lparr>h_fmt = 3, h_csid = m_csid m, h_continuation = True, h_ts_field = 0,
      h_length = ss_length s, h_type_id = ss_type_id s, h_stream_id = ss_stream_id s,
      h_extended = ss_extended s, h_ext_value = ss_ext_value s, h_learned = l,
      h_payload = take cs (drop k (m_payload m)),
      h_end = length (put_basic_header 3 (m_csid m) @ ext_bytes m @
        take cs (drop k (m_payload m)))\<rparr>" and l: "l \<noteq> Some False"
    unfolding b by blast
  obtain r d' where c: "commit d h = (r, d')" by (rule prod.exhaust)
  have ok: "chunk_ok d" "cd_repeats d \<noteq> Some False" using d by (simp_all add: idle_but_def)
  have ok': "chunk_ok d'" by (rule commit_ok [OF ok(1) h c])
  have buf: "cd_buf d' = t" using commit_buf [OF c] unfolding b hv by simp
  have st: "stream_of d (m_csid m) = s" using s by (simp add: stream_of_def)
  let ?s = "s\<lparr>ss_partial := take (k + cs) (m_payload m)\<rparr>"
  have up: "cd_streams d' = AList.update (m_csid m)
      (if length (m_payload m) \<le> k + cs then ?s\<lparr>ss_in_progress := False, ss_partial := []\<rparr> else ?s)
      (cd_streams d)"
    and r: "r = (if length (m_payload m) \<le> k + cs then Complete m else Partial)"
    and same: "cd_repeats d' \<noteq> Some False" "cd_chunk_size d' = cd_chunk_size d"
      "cd_max_media d' = cd_max_media d" "cd_max_other d' = cd_max_other d"
    using c rec l ok(2) by (auto simp: commit_def hv st Let_def receiving_def take_add min_def
        split: if_splits)
  have idle: "idle_but (if length (m_payload m) \<le> k + cs then None else Some (m_csid m)) d'"
    by (rule idle_but_update [OF d ok' _ up]) (use same in auto)
  have "receiving m (k + cs) ?s" if "k + cs < length (m_payload m)"
    using that rec by (simp add: receiving_def)
  then have "progress m (k + cs) t d r d'"
    unfolding progress_def using buf same r idle up by auto
  with next_chunk_Got [OF h] c show ?thesis by auto
qed

text \<open>A decoder that has taken a whole message.\<close>

definition took :: "message \<Rightarrow> bytes \<Rightarrow> chunk_decoder \<Rightarrow> chunk_decoder \<Rightarrow> bool" where
  "took m t d d' \<longleftrightarrow>
     idle_but None d' \<and> cd_buf d' = t \<and> cd_chunk_size d' = cd_chunk_size d \<and>
     cd_max_media d' = cd_max_media d \<and> cd_max_other d' = cd_max_other d \<and>
     fst ` set (cd_streams d') = insert (m_csid m) (fst ` set (cd_streams d))"

lemma progress_took:
  assumes p: "progress m k (later_chunks cs m k @ t) d r d'" and n: "next_chunk d = (Inr r, d')"
    and e: "encodable m" and cs: "cd_chunk_size d = cs" "0 < cs"
  shows "\<exists>d''. next_message d = (Inr (Some m), d'') \<and> took m t d d''"
  using p n cs(1)
proof (induction "length (m_payload m) - k" arbitrary: k r d d' rule: less_induct)
  case less
  note p = less.prems(1) and n = less.prems(2) and cs1 = less.prems(3)
  show ?case
  proof (cases "k < length (m_payload m)")
    case False
    have "next_message d = (Inr (Some m), d')"
      using n p False by (simp add: next_message.simps [of d] progress_def)
    moreover have "took m t d d'"
      using p False later_chunks_step [OF cs(2), of m k] by (simp add: progress_def took_def)
    ultimately show ?thesis by blast
  next
    case True
    then obtain s where s: "map_of (cd_streams d') (m_csid m) = Some s" "receiving m k s"
      and i: "idle_but (Some (m_csid m)) d'" and r: "r = Partial"
      using p by (auto simp: progress_def)
    have c1: "cd_chunk_size d' = cs" using p cs1 by (simp add: progress_def)
    have b: "cd_buf d' = put_basic_header 3 (m_csid m) @ ext_bytes m @
        take cs (drop k (m_payload m)) @ later_chunks cs m (k + cs) @ t"
      using p True later_chunks_step [OF cs(2), of m k] by (simp add: progress_def)
    from later_chunk [OF e i c1 s b] obtain r2 d2 where n2: "next_chunk d' = (Inr r2, d2)"
      and p2: "progress m (k + cs) (later_chunks cs m (k + cs) @ t) d' r2 d2" by blast
    have "length (m_payload m) - (k + cs) < length (m_payload m) - k"
      using True cs(2) by (simp add: diff_less_mono2)
    from less.hyps [OF this p2 n2 c1] obtain d3
      where d3: "next_message d' = (Inr (Some m), d3)" "took m t d' d3" by blast
    have "next_message d = next_message d'" using n r by (simp add: next_message.simps [of d])
    moreover have "took m t d d3"
      using d3(2) p by (simp add: took_def progress_def)
    ultimately show ?thesis using d3(1) by auto
  qed
qed

lemma decode_one_message:
  assumes e: "encodable m" and d: "idle_but None d" and cs: "cd_chunk_size d = cs"
    and room: "map_of (cd_streams d) (m_csid m) \<noteq> None \<or> length (cd_streams d) < MAX_CHUNK_STREAMS"
    and a: "accepts d m" and b: "cd_buf d = write_chunks cs m @ t"
  shows "\<exists>d'. next_message d = (Inr (Some m), d') \<and> took m t d d'"
proof -
  have pos: "0 < cs" using d cs by (simp add: idle_but_def chunk_ok_def)
  have "cd_buf d = put_basic_header 0 (m_csid m) @ message_header m @ ext_bytes m @
      take cs (m_payload m) @ later_chunks cs m cs @ t"
    using b write_chunks_split [OF pos, of m] by simp
  from first_chunk [OF e d cs room a this] progress_took [OF _ _ e cs pos] show ?thesis by blast
qed

lemma drain_messages:
  assumes "\<forall>m \<in> set ms. encodable m \<and> accepts d m" and "idle_but None d"
    and "cd_chunk_size d = cs" and "cd_buf d = concat (map (write_chunks cs) ms) @ t"
    and "finite C" and "card C \<le> MAX_CHUNK_STREAMS"
    and "fst ` set (cd_streams d) \<union> m_csid ` set ms \<subseteq> C"
  shows "\<exists>d'. drain d = (let (ms', e, d2) = drain d' in (ms @ ms', e, d2)) \<and>
    idle_but None d' \<and> cd_buf d' = t \<and> cd_chunk_size d' = cs"
  using assms
proof (induction ms arbitrary: d)
  case Nil
  then show ?case by (auto simp: split_beta Let_def intro: exI [of _ d])
next
  case (Cons m ms)
  have keys: "distinct (map fst (cd_streams d))"
    using Cons.prems(2) by (simp add: idle_but_def chunk_ok_def)
  have "length (cd_streams d) < MAX_CHUNK_STREAMS" if "map_of (cd_streams d) (m_csid m) = None"
  proof -
    have "m_csid m \<notin> fst ` set (cd_streams d)" using that by (simp add: map_of_eq_None_iff)
    then have "fst ` set (cd_streams d) \<subset> C" using Cons.prems(7) by auto
    from psubset_card_mono [OF Cons.prems(5) this] Cons.prems(6) show ?thesis
      using distinct_card [OF keys] by simp
  qed
  then obtain d1 where n: "next_message d = (Inr (Some m), d1)"
    and took: "took m (concat (map (write_chunks cs) ms) @ t) d d1"
    using decode_one_message [of m d cs "concat (map (write_chunks cs) ms) @ t"] Cons.prems(1-4)
    by auto
  have "\<forall>m \<in> set ms. encodable m \<and> accepts d1 m"
    using Cons.prems(1) took by (auto simp: accepts_def within_limit_def took_def)
  from Cons.IH [OF this _ _ _ Cons.prems(5,6)] took Cons.prems(3,7) obtain d'
    where "drain d1 = (let (ms', e, d2) = drain d' in (ms @ ms', e, d2))"
      and "idle_but None d' \<and> cd_buf d' = t \<and> cd_chunk_size d' = cs"
    by (auto simp: took_def)
  with n show ?case by (auto simp: drain.simps [of d] split_beta Let_def)
qed

lemma drain_empty: "cd_buf d = [] \<Longrightarrow> drain d = ([], None, d)"
  by (simp add: drain.simps [of d] next_message.simps [of d] next_chunk_def read_chunk_def read_basic_def)

text \<open>
  C27. The chunk codec round trip: a new decoder whose chunk size is the encoder's, given what
  the encoder wrote for any sequence of messages (on any chunk streams the format can name,
  64 different ones at most, each payload below 16 MiB, any timestamps), decodes exactly
  those messages in order, without an error and with no byte left over.
\<close>

theorem chunk_round_trip:
  assumes "0 < cs" and "cs \<le> MAX_CHUNK_SIZE"
    and "\<forall>m \<in> set ms. 2 \<le> m_csid m \<and> m_csid m \<le> 65599 \<and> length (m_payload m) < 2 ^ 24"
    and "card (m_csid ` set ms) \<le> 64"
  shows "\<exists>d. drain (push_bytes (concat (map (write_chunks cs) ms))
      (new_decoder\<lparr>cd_chunk_size := cs\<rparr>)) = (ms, None, d) \<and> cd_buf d = []"
proof -
  let ?d = "push_bytes (concat (map (write_chunks cs) ms)) (new_decoder\<lparr>cd_chunk_size := cs\<rparr>)"
  have "chunk_ok (new_decoder\<lparr>cd_chunk_size := cs\<rparr>)"
    using new_decoder_ok assms(1,2) by (simp add: chunk_ok_def)
  then have "chunk_ok ?d" by (simp add: push_bytes_def)
  then have idle: "idle_but None ?d"
    by (simp add: idle_but_def new_decoder_def push_bytes_def)
  have "\<exists>d'. drain ?d = (let (ms', e, d2) = drain d' in (ms @ ms', e, d2)) \<and>
      idle_but None d' \<and> cd_buf d' = [] \<and> cd_chunk_size d' = cs"
    by (rule drain_messages [OF _ idle, where C = "m_csid ` set ms"])
      (use assms in \<open>auto simp: encodable_def accepts_def within_limit_def new_decoder_def
        MAX_CHUNK_STREAMS_def push_bytes_def\<close>)
  then show ?thesis by (auto simp: drain_empty)
qed

theorem chunk_round_trip_witness:
  "\<exists>d. drain (push_bytes (write_chunks 2
      \<lparr>m_csid = 400, m_timestamp = 0xFFFFFFFF, m_type_id = 9, m_stream_id = 1, m_payload = [1, 2, 3, 4, 5]\<rparr>)
      (new_decoder\<lparr>cd_chunk_size := 2\<rparr>)) =
    ([\<lparr>m_csid = 400, m_timestamp = 0xFFFFFFFF, m_type_id = 9, m_stream_id = 1, m_payload = [1, 2, 3, 4, 5]\<rparr>],
     None, d) \<and> cd_buf d = []"
  using chunk_round_trip [of 2 "[\<lparr>m_csid = 400, m_timestamp = 0xFFFFFFFF, m_type_id = 9,
    m_stream_id = 1, m_payload = [1, 2, 3, 4, 5]\<rparr>]"] by (simp add: MAX_CHUNK_SIZE_def)

end
