(* ===== verification/Amf0.thy ===== *)
theory Amf0
  imports Prelude
begin

text \<open>
  AMF0, the serialization of RTMP commands and metadata
  (\<^verbatim>\<open>crates/rtmp/src/amf0.rs\<close>). A string is its UTF-8 bytes, a 64-bit float its bit
  pattern and a 16-bit time zone its two's complement: decoding and encoding only move
  them. The reader's state is the bytes not read yet.
\<close>

section \<open>Values\<close>

definition MAX_DEPTH :: nat where "MAX_DEPTH = 64"

datatype amf0 =
    Number u64
  | Boolean bool
  | String bytes
  | Object "(bytes \<times> amf0) list"
  | Null
  | Undefined
  | EcmaArray "(bytes \<times> amf0) list"
  | StrictArray "amf0 list"
  | Date u64 u16
  | LongString bytes
  | TypedObject bytes "(bytes \<times> amf0) list"

datatype amf0_error = Eof | UnsupportedMarker u8 | TooDeep

definition as_str :: "amf0 \<Rightarrow> bytes option" where
  "as_str v = (case v of String s \<Rightarrow> Some s | LongString s \<Rightarrow> Some s | _ \<Rightarrow> None)"

definition as_number :: "amf0 \<Rightarrow> u64 option" where
  "as_number v = (case v of Number n \<Rightarrow> Some n | _ \<Rightarrow> None)"

definition props_of :: "amf0 \<Rightarrow> (bytes \<times> amf0) list option" where
  "props_of v = (case v of Object p \<Rightarrow> Some p | EcmaArray p \<Rightarrow> Some p | TypedObject _ p \<Rightarrow> Some p
     | _ \<Rightarrow> None)"

definition get_prop :: "bytes \<Rightarrow> amf0 \<Rightarrow> amf0 option" where
  "get_prop key v =
     (case props_of v of None \<Rightarrow> None | Some ps \<Rightarrow> map_option snd (find (\<lambda>(k, _). k = key) ps))"

section \<open>UTF-8\<close>

text \<open>
  \<^verbatim>\<open>String::from_utf8_lossy\<close> of the standard library: a valid character is kept, and
  what cannot start or go on a valid character is replaced by U+FFFD. \<open>utf8_step\<close> says
  whether the bytes start with a valid character, and how many bytes that or what is
  replaced takes.
\<close>

definition cont_byte :: "bytes \<Rightarrow> nat \<Rightarrow> bool" where
  "cont_byte bs i \<longleftrightarrow> i < length bs \<and> 0x80 \<le> bs ! i \<and> bs ! i \<le> 0xBF"

definition second_in :: "bytes \<Rightarrow> u8 \<Rightarrow> u8 \<Rightarrow> bool" where
  "second_in bs lo hi \<longleftrightarrow> 1 < length bs \<and> lo \<le> bs ! 1 \<and> bs ! 1 \<le> hi"

text \<open>The range of the second byte and the length of a character of several bytes.\<close>

definition lead_byte :: "u8 \<Rightarrow> (u8 \<times> u8 \<times> nat) option" where
  "lead_byte b =
     (if 0xC2 \<le> b \<and> b \<le> 0xDF then Some (0x80, 0xBF, 2)
      else if 0xE0 \<le> b \<and> b \<le> 0xEF
      then Some (if b = 0xE0 then 0xA0 else 0x80, if b = 0xED then 0x9F else 0xBF, 3)
      else if 0xF0 \<le> b \<and> b \<le> 0xF4
      then Some (if b = 0xF0 then 0x90 else 0x80, if b = 0xF4 then 0x8F else 0xBF, 4)
      else None)"

definition utf8_step :: "bytes \<Rightarrow> bool \<times> nat" where
  "utf8_step bs =
     (if bs ! 0 < 0x80 then (True, 1)
      else case lead_byte (bs ! 0) of
        None \<Rightarrow> (False, 1)
      | Some (lo, hi, n) \<Rightarrow>
          if \<not> second_in bs lo hi then (False, 1)
          else if n = 2 then (True, 2)
          else if \<not> cont_byte bs 2 then (False, 2)
          else if n = 3 then (True, 3)
          else if \<not> cont_byte bs 3 then (False, 3) else (True, 4))"

lemma utf8_step_pos: "0 < snd (utf8_step bs)"
  by (simp add: utf8_step_def split: option.split)

function lossy :: "bytes \<Rightarrow> bytes" where
  "lossy bs =
     (if bs = [] then []
      else (if fst (utf8_step bs) then take (snd (utf8_step bs)) bs else [0xEF, 0xBF, 0xBD]) @
        lossy (drop (snd (utf8_step bs)) bs))"
  by pat_completeness auto
termination by (relation "measure length") (auto simp: utf8_step_pos intro!: diff_less)

declare lossy.simps [simp del]

function valid_utf8 :: "bytes \<Rightarrow> bool" where
  "valid_utf8 bs \<longleftrightarrow>
     (if bs = [] then True
      else fst (utf8_step bs) \<and> valid_utf8 (drop (snd (utf8_step bs)) bs))"
  by pat_completeness auto
termination by (relation "measure length") (auto simp: utf8_step_pos intro!: diff_less)

declare valid_utf8.simps [simp del]

lemma lossy_Nil [simp]: "lossy [] = []"
  by (simp add: lossy.simps)

lemma lossy_valid_id: "valid_utf8 bs \<Longrightarrow> lossy bs = bs"
proof (induction bs rule: lossy.induct)
  case (1 bs)
  then show ?case by (cases "bs = []") (auto simp: lossy.simps [of bs] valid_utf8.simps [of bs])
qed

lemma lossy_eq_Nil [simp]: "lossy bs = [] \<longleftrightarrow> bs = []"
  using utf8_step_pos [of bs] by (auto simp: lossy.simps [of bs])

text \<open>A valid character stays one whatever follows it.\<close>

lemma utf8_step_length:
  assumes "fst (utf8_step bs)" and "bs \<noteq> []"
  shows "snd (utf8_step bs) \<le> length bs"
proof -
  have c: "cont_byte bs i \<Longrightarrow> Suc i \<le> length bs" "second_in bs lo hi \<Longrightarrow> 2 \<le> length bs" for i lo hi
    by (simp_all add: cont_byte_def second_in_def)
  have "1 \<le> length bs" using assms(2) by (simp add: Suc_le_eq)
  with assms(1) show ?thesis
    by (auto simp: utf8_step_def split: if_splits option.splits dest!: c)
qed

lemma utf8_step_bytes:
  assumes "fst (utf8_step bs)" and "snd (utf8_step bs) \<le> length bs'"
    and "snd (utf8_step bs) \<le> length bs" and "\<And>i. i < snd (utf8_step bs) \<Longrightarrow> bs' ! i = bs ! i"
  shows "utf8_step bs' = utf8_step bs"
proof -
  have b0: "bs' ! 0 = bs ! 0" using assms(4) utf8_step_pos by blast
  have c: "cont_byte bs' i = cont_byte bs i" if "i < snd (utf8_step bs)" for i
    using assms(2-4) that by (simp add: cont_byte_def)
  have s: "second_in bs' = second_in bs" if "1 < snd (utf8_step bs)"
    using assms(2-4) that by (simp add: second_in_def fun_eq_iff)
  show ?thesis
    using assms(1) b0 c [of 2] c [of 3] s
    by (auto simp: utf8_step_def split: if_splits option.splits)
qed

lemma utf8_step_append:
  assumes "fst (utf8_step bs)" and "bs \<noteq> []"
  shows "utf8_step (take (snd (utf8_step bs)) bs @ c) = utf8_step bs"
  by (rule utf8_step_bytes) (use assms utf8_step_length in \<open>auto simp: nth_append\<close>)

lemma lossy_valid: "valid_utf8 (lossy bs)"
proof (induction bs rule: lossy.induct)
  case (1 bs)
  show ?case
  proof (cases "bs = []")
    case False
    let ?n = "snd (utf8_step bs)" and ?rest = "lossy (drop (snd (utf8_step bs)) bs)"
    have IH: "valid_utf8 ?rest" by (rule "1.IH" [OF False])
    show ?thesis
    proof (cases "fst (utf8_step bs)")
      case True
      note s = utf8_step_length [OF True False] utf8_step_append [OF True False]
      have "lossy bs = take ?n bs @ ?rest" using True False by (simp add: lossy.simps [of bs])
      moreover have "utf8_step (take ?n bs @ ?rest) = utf8_step bs" by (rule s(2))
      moreover have "drop ?n (take ?n bs @ ?rest) = ?rest" using s(1) by simp
      ultimately show ?thesis
        using True IH by (simp add: valid_utf8.simps [of "take ?n bs @ ?rest"])
    next
      case Bad: False
      have "utf8_step ([0xEF, 0xBF, 0xBD] @ ?rest) = (True, 3)"
        by (simp add: utf8_step_def second_in_def cont_byte_def lead_byte_def)
      then show ?thesis
        using Bad False IH
        by (simp add: lossy.simps [of bs] valid_utf8.simps [of "0xEF # 0xBF # 0xBD # ?rest"]
            numeral_3_eq_3)
    qed
  qed (simp add: valid_utf8.simps)
qed

section \<open>Reading\<close>

type_synonym 'a read = "amf0_error + ('a \<times> bytes)"

fun and_then :: "'a read \<Rightarrow> ('a \<Rightarrow> bytes \<Rightarrow> 'b read) \<Rightarrow> 'b read" where
  "and_then (Inl e) f = Inl e"
| "and_then (Inr (a, r)) f = f a r"

definition take_bytes :: "nat \<Rightarrow> bytes \<Rightarrow> bytes read" where
  "take_bytes n bs = (if n \<le> length bs then Inr (take n bs, drop n bs) else Inl Eof)"

definition read_be :: "nat \<Rightarrow> bytes \<Rightarrow> nat read" where
  "read_be n bs = and_then (take_bytes n bs) (\<lambda>b r. Inr (be_nat b, r))"

definition short_string :: "bytes \<Rightarrow> bytes read" where
  "short_string bs = and_then (read_be 2 bs) (\<lambda>n r.
     and_then (take_bytes n r) (\<lambda>s r'. Inr (lossy s, r')))"

definition long_string :: "bytes \<Rightarrow> bytes read" where
  "long_string bs = and_then (read_be 4 bs) (\<lambda>n r.
     and_then (take_bytes n r) (\<lambda>s r'. Inr (lossy s, r')))"

text \<open>
  The properties of an object, their values read by \<open>rd\<close>. A round takes at least two bytes,
  so as many rounds as there are bytes are enough: with none left, the round that would
  follow fails with \<open>Eof\<close>, as here (\<open>props_loop_enough\<close>).
\<close>

fun props_loop :: "(bytes \<Rightarrow> amf0 read) \<Rightarrow> nat \<Rightarrow> bytes \<Rightarrow> (bytes \<times> amf0) list read" where
  "props_loop rd 0 bs = Inl Eof"
| "props_loop rd (Suc n) bs = and_then (short_string bs) (\<lambda>key r.
     if key = [] \<and> r = [] then Inr ([], r)
     else if key = [] \<and> hd r = 0x09 then Inr ([], tl r)
     else and_then (rd r) (\<lambda>v r2.
       and_then (props_loop rd n r2) (\<lambda>ps r3. Inr ((key, v) # ps, r3))))"

definition read_props :: "(bytes \<Rightarrow> amf0 read) \<Rightarrow> bytes \<Rightarrow> (bytes \<times> amf0) list read" where
  "read_props rd bs = props_loop rd (length bs) bs"

fun read_items :: "(bytes \<Rightarrow> amf0 read) \<Rightarrow> nat \<Rightarrow> bytes \<Rightarrow> amf0 list read" where
  "read_items rd 0 bs = Inr ([], bs)"
| "read_items rd (Suc n) bs = and_then (rd bs) (\<lambda>v r.
     and_then (read_items rd n r) (\<lambda>vs r'. Inr (v # vs, r')))"

text \<open>
  One value, with \<open>levels\<close> levels of nesting left: at the source's \<^verbatim>\<open>depth\<close> there are
  \<open>MAX_DEPTH + 1 - depth\<close>.
\<close>

fun read_value :: "nat \<Rightarrow> bytes \<Rightarrow> amf0 read" where
  "read_value 0 bs = Inl TooDeep"
| "read_value (Suc levels) bs = and_then (read_be 1 bs) (\<lambda>marker r.
     if marker = 0x00 then and_then (read_be 8 r) (\<lambda>n r. Inr (Number (of_nat n), r))
     else if marker = 0x01 then and_then (read_be 1 r) (\<lambda>b r. Inr (Boolean (b \<noteq> 0), r))
     else if marker = 0x02 then and_then (short_string r) (\<lambda>s r. Inr (String s, r))
     else if marker = 0x03
     then and_then (read_props (read_value levels) r) (\<lambda>ps r. Inr (Object ps, r))
     else if marker = 0x05 then Inr (Null, r)
     else if marker = 0x06 then Inr (Undefined, r)
     else if marker = 0x08 then and_then (read_be 4 r) (\<lambda>_ r.
       and_then (read_props (read_value levels) r) (\<lambda>ps r. Inr (EcmaArray ps, r)))
     else if marker = 0x0a then and_then (read_be 4 r) (\<lambda>n r.
       if n > length r then Inl Eof
       else and_then (read_items (read_value levels) n r) (\<lambda>vs r. Inr (StrictArray vs, r)))
     else if marker = 0x0b then and_then (read_be 8 r) (\<lambda>millis r.
       and_then (read_be 2 r) (\<lambda>tz r. Inr (Date (of_nat millis) (of_nat tz), r)))
     else if marker = 0x0c \<or> marker = 0x0f
     then and_then (long_string r) (\<lambda>s r. Inr (LongString s, r))
     else if marker = 0x10 then and_then (short_string r) (\<lambda>class r.
       and_then (read_props (read_value levels) r) (\<lambda>ps r. Inr (TypedObject class ps, r)))
     else Inl (UnsupportedMarker (of_nat marker)))"

declare read_value.simps [simp del]

definition decode_one :: "bytes \<Rightarrow> amf0_error + (amf0 \<times> nat)" where
  "decode_one bs =
     (case read_value (MAX_DEPTH + 1) bs of
        Inl e \<Rightarrow> Inl e | Inr (v, r) \<Rightarrow> Inr (v, length bs - length r))"

text \<open>Reading takes bytes off the front.\<close>

lemma and_then_Inr:
  "and_then a f = Inr x \<longleftrightarrow> (\<exists>v r. a = Inr (v, r) \<and> f v r = Inr x)"
  by (cases a) auto

lemma read_be_Inr: "read_be n bs = Inr (v, r) \<longleftrightarrow>
    n \<le> length bs \<and> v = be_nat (take n bs) \<and> r = drop n bs"
  by (auto simp: read_be_def take_bytes_def and_then_Inr)

lemma short_string_shrinks: "short_string bs = Inr (s, r) \<Longrightarrow> length r + 2 \<le> length bs"
  by (auto simp: short_string_def and_then_Inr read_be_Inr take_bytes_def split: if_splits)

lemma long_string_shrinks: "long_string bs = Inr (s, r) \<Longrightarrow> length r + 4 \<le> length bs"
  by (auto simp: long_string_def and_then_Inr read_be_Inr take_bytes_def split: if_splits)

lemma props_loop_shrinks:
  assumes rd: "\<And>b v r. rd b = Inr (v, r) \<Longrightarrow> length r \<le> length b"
    and "props_loop rd n bs = Inr (ps, r)"
  shows "length r + 2 \<le> length bs"
  using assms(2)
  by (induction n arbitrary: bs ps r)
    (auto simp: and_then_Inr split: if_splits dest!: short_string_shrinks rd, force+)

lemma read_items_shrinks:
  assumes rd: "\<And>b v r. rd b = Inr (v, r) \<Longrightarrow> length r \<le> length b"
    and "read_items rd n bs = Inr (vs, r)"
  shows "length r \<le> length bs"
  using assms(2) by (induction n arbitrary: bs vs r) (force simp: and_then_Inr dest!: rd)+

lemma read_value_shrinks: "read_value levels bs = Inr (v, r) \<Longrightarrow> length r < length bs"
proof (induction levels arbitrary: bs v r)
  case (Suc levels)
  have rd: "\<And>b v r. read_value levels b = Inr (v, r) \<Longrightarrow> length r \<le> length b"
    using Suc.IH by (simp add: less_imp_le)
  have p: "read_props (read_value levels) b = Inr (ps, r') \<Longrightarrow> length r' \<le> length b" for b ps r'
    using props_loop_shrinks [OF rd] unfolding read_props_def by force
  have i: "read_items (read_value levels) n b = Inr (vs, r') \<Longrightarrow> length r' \<le> length b" for n b vs r'
    by (rule read_items_shrinks [OF rd])
  from Suc.prems show ?case
    by (auto simp: read_value.simps and_then_Inr read_be_Inr split: if_splits
        dest!: p i short_string_shrinks long_string_shrinks)
qed (simp add: read_value.simps)

text \<open>More rounds than bytes change nothing.\<close>

lemma props_loop_enough:
  assumes rd: "\<And>b v r. rd b = Inr (v, r) \<Longrightarrow> length r \<le> length b"
    and "length bs \<le> n"
  shows "props_loop rd n bs = props_loop rd (length bs) bs"
  using assms(2)
proof (induction "length bs" arbitrary: bs n rule: less_induct)
  case less
  show ?case
  proof (cases "bs = []")
    case True
    then show ?thesis by (cases n) (auto simp: short_string_def read_be_def take_bytes_def)
  next
    case False
    then obtain k where k: "length bs = Suc k" by (cases bs) auto
    with less.prems obtain m where m: "n = Suc m" "k \<le> m" by (cases n) auto
    show ?thesis
    proof (cases "short_string bs")
      case (Inr kr)
      obtain key r where kr: "kr = (key, r)" by (rule prod.exhaust)
      show ?thesis
      proof (cases "rd r")
        case (Inr vr)
        obtain v r2 where vr: "vr = (v, r2)" by (rule prod.exhaust)
        have "props_loop rd m r2 = props_loop rd k r2"
        proof -
          have "length r2 < length bs" "length r2 \<le> k"
            using short_string_shrinks [of bs key r] rd [of r v r2] k Inr vr kr
              \<open>short_string bs = Inr kr\<close> by auto
          with m(2) less.hyps [of r2 m] less.hyps [of r2 k] show ?thesis by simp
        qed
        with \<open>short_string bs = Inr kr\<close> kr vr Inr m k show ?thesis by simp
      qed (use \<open>short_string bs = Inr kr\<close> kr m k in simp)
    qed (use m k in simp)
  qed
qed

function decode_all :: "bytes \<Rightarrow> amf0_error + amf0 list" where
  "decode_all bs =
     (if bs = [] then Inr []
      else case read_value (MAX_DEPTH + 1) bs of
        Inl e \<Rightarrow> Inl e
      | Inr (v, r) \<Rightarrow> (case decode_all r of Inl e \<Rightarrow> Inl e | Inr vs \<Rightarrow> Inr (v # vs)))"
  by pat_completeness auto
termination by (relation "measure length") (auto dest: read_value_shrinks)

declare decode_all.simps [simp del]

section \<open>Writing\<close>

definition put_short_string :: "bytes \<Rightarrow> bytes" where
  "put_short_string s = (let n = min (length s) (2 ^ 16 - 1) in put_be 2 n @ take n s)"

fun encode :: "amf0 \<Rightarrow> bytes"
  and put_props :: "(bytes \<times> amf0) list \<Rightarrow> bytes"
  and put_items :: "amf0 list \<Rightarrow> bytes" where
  "encode (Number n) = 0x00 # put_be 8 (unat n)"
| "encode (Boolean b) = [0x01, if b then 1 else 0]"
| "encode (String s) =
     (if length s \<le> 2 ^ 16 - 1 then 0x02 # put_short_string s
      else 0x0c # put_be 4 (length s) @ s)"
| "encode (LongString s) = 0x0c # put_be 4 (length s) @ s"
| "encode (Object ps) = 0x03 # put_props ps"
| "encode Null = [0x05]"
| "encode Undefined = [0x06]"
| "encode (EcmaArray ps) = 0x08 # put_be 4 (length ps) @ put_props ps"
| "encode (StrictArray vs) = 0x0a # put_be 4 (length vs) @ put_items vs"
| "encode (Date millis tz) = 0x0b # put_be 8 (unat millis) @ put_be 2 (unat tz)"
| "encode (TypedObject class ps) = 0x10 # put_short_string class @ put_props ps"
| "put_props [] = [0x00, 0x00, 0x09]"
| "put_props ((k, v) # ps) = put_short_string k @ encode v @ put_props ps"
| "put_items [] = []"
| "put_items (v # vs) = encode v @ put_items vs"

definition encode_all :: "amf0 list \<Rightarrow> bytes" where
  "encode_all vs = concat (map encode vs)"

end
