(* ===== verification/Amf0_Codec.thy ===== *)
theory Amf0_Codec
  imports Amf0 "HOL-Library.Sublist"
begin

text \<open>
  What the AMF0 reader promises: it reads back what was written, through the contract of a
  byte codec, and what it makes of bytes it is sent is bounded by their number.
\<close>

section \<open>Reading back\<close>

definition str_ok :: "nat \<Rightarrow> bytes \<Rightarrow> bool" where
  "str_ok bits s \<longleftrightarrow> valid_utf8 s \<and> length s < 2 ^ bits"

text \<open>Values that can be written and read back with \<open>levels\<close> levels of nesting.\<close>

fun fits :: "nat \<Rightarrow> amf0 \<Rightarrow> bool" where
  "fits 0 v = False"
| "fits (Suc levels) v = (case v of
      String s \<Rightarrow> str_ok 16 s
    | LongString s \<Rightarrow> str_ok 32 s
    | Object ps \<Rightarrow> (\<forall>(k, x) \<in> set ps. str_ok 16 k \<and> fits levels x)
    | EcmaArray ps \<Rightarrow> (\<forall>(k, x) \<in> set ps. str_ok 16 k \<and> fits levels x)
    | StrictArray vs \<Rightarrow> length vs < 2 ^ 32 \<and> (\<forall>x \<in> set vs. fits levels x)
    | TypedObject class ps \<Rightarrow>
        str_ok 16 class \<and> (\<forall>(k, x) \<in> set ps. str_ok 16 k \<and> fits levels x)
    | _ \<Rightarrow> True)"

lemma read_be_put: "v < 256 ^ n \<Longrightarrow> read_be n (put_be n v @ t) = Inr (v, t)"
  by (simp add: read_be_def take_bytes_def be_nat_put_be)

lemma read_be_byte [simp]: "read_be 1 (b # t) = Inr (unat b, t)"
  by (simp add: read_be_def take_bytes_def be_nat_def)

lemma read_be_Suc_0 [simp]: "read_be (Suc 0) (b # t) = Inr (unat b, t)"
  using read_be_byte by simp

lemma read_put_short_string: "str_ok 16 s \<Longrightarrow> short_string (put_short_string s @ t) = Inr (s, t)"
  by (simp add: short_string_def put_short_string_def str_ok_def Let_def read_be_put min_def
      take_bytes_def lossy_valid_id)

lemma read_long_string: "str_ok 32 s \<Longrightarrow> long_string (put_be 4 (length s) @ s @ t) = Inr (s, t)"
  by (simp add: long_string_def str_ok_def read_be_put take_bytes_def lossy_valid_id)

lemma short_string_empty: "short_string (0 # 0 # t) = Inr ([], t)"
  by (simp add: short_string_def read_be_def take_bytes_def be_nat_def)

lemma encode_head: "\<exists>b bs. encode v = b # bs \<and> b \<noteq> 0x09"
  by (cases v) auto

lemma encode_nonempty: "encode v \<noteq> []"
  using encode_head [of v] by auto

lemma length_put_items: "length vs \<le> length (put_items vs)"
proof (induction vs)
  case (Cons v vs)
  then show ?case using encode_nonempty [of v] by (cases "encode v") auto
qed simp

lemma length_put_props: "length ps < length (put_props ps)"
  by (induction ps) (auto simp: put_short_string_def Let_def)

lemma props_loop_put:
  assumes "\<forall>(k, x) \<in> set ps. str_ok 16 k \<and> (\<forall>t. rd (encode x @ t) = Inr (x, t))"
    and "length ps < n"
  shows "props_loop rd n (put_props ps @ t) = Inr (ps, t)"
  using assms
proof (induction ps arbitrary: n)
  case Nil
  then show ?case by (cases n) (auto simp: short_string_empty)
next
  case (Cons kx ps)
  obtain k x where kx: "kx = (k, x)" by (rule prod.exhaust)
  from Cons.prems(2) obtain m where m: "n = Suc m" "length ps < m" by (cases n) auto
  obtain b bs where h: "encode x = b # bs" "b \<noteq> 0x09" using encode_head by blast
  have "props_loop rd m (put_props ps @ t) = Inr (ps, t)"
    by (rule Cons.IH) (use Cons.prems(1) m in auto)
  moreover have "rd (encode x @ put_props ps @ t) = Inr (x, put_props ps @ t)"
    using Cons.prems(1) kx by auto
  ultimately show ?case
    using Cons.prems(1) kx m h by (auto simp: read_put_short_string)
qed

lemma read_props_put:
  assumes "\<forall>(k, x) \<in> set ps. str_ok 16 k \<and> (\<forall>t. rd (encode x @ t) = Inr (x, t))"
  shows "read_props rd (put_props ps @ t) = Inr (ps, t)"
  unfolding read_props_def
  by (rule props_loop_put [OF assms]) (use length_put_props [of ps] in simp)

lemma read_items_put:
  assumes "\<forall>x \<in> set vs. \<forall>t. rd (encode x @ t) = Inr (x, t)"
  shows "read_items rd (length vs) (put_items vs @ t) = Inr (vs, t)"
  using assms by (induction vs) auto

lemma unat_8 [simp]: "unat v < 256 ^ 8" for v :: u64
  using unsigned_less [of v] by simp

lemma unat_2 [simp]: "unat v < 256 ^ 2" for v :: u16
  using unsigned_less [of v] by simp

lemma read_encode: "fits levels v \<Longrightarrow> read_value levels (encode v @ t) = Inr (v, t)"
proof (induction levels arbitrary: v t)
  case (Suc levels)
  have props: "read_props (read_value levels) (put_props ps @ t) = Inr (ps, t)"
    if "\<forall>(k, x) \<in> set ps. str_ok 16 k \<and> fits levels x" for ps t
    by (rule read_props_put) (use that Suc.IH in auto)
  show ?case
  proof (cases v)
    case (Number n)
    then show ?thesis by (simp add: read_value.simps read_be_put del: power_numeral)
  next
    case (String s)
    with Suc.prems have "length s \<le> 65535" by (simp add: str_ok_def)
    with String Suc.prems show ?thesis
      by (simp add: read_value.simps read_put_short_string)
  next
    case (StrictArray vs)
    with Suc.prems have "length vs < 256 ^ 4" by simp
    moreover have "read_items (read_value levels) (length vs) (put_items vs @ t) = Inr (vs, t)"
      by (rule read_items_put) (use Suc StrictArray in auto)
    ultimately show ?thesis
      using StrictArray length_put_items [of vs] by (simp add: read_value.simps read_be_put)
  next
    case (EcmaArray ps)
    have "\<exists>c. read_be 4 (put_be 4 (length ps) @ put_props ps @ t) = Inr (c, put_props ps @ t)"
      by (simp add: read_be_def take_bytes_def)
    with EcmaArray Suc.prems show ?thesis by (auto simp: read_value.simps props)
  next
    case (LongString s)
    with Suc.prems show ?thesis by (simp add: read_value.simps read_long_string)
  next
    case (Date m z)
    then show ?thesis by (simp add: read_value.simps read_be_put del: power_numeral)
  next
    case (TypedObject c ps)
    with Suc.prems show ?thesis by (simp add: read_value.simps read_put_short_string props)
  qed (use Suc.prems in \<open>auto simp: read_value.simps props\<close>)
qed simp

text \<open>The AMF0 encoder and reader are a byte codec.\<close>

definition amf0_dec :: "bytes \<Rightarrow> (amf0 \<times> nat) option" where
  "amf0_dec bs = (case decode_one bs of Inl _ \<Rightarrow> None | Inr vn \<Rightarrow> Some vn)"

interpretation amf0: codec encode amf0_dec "fits (MAX_DEPTH + 1)"
proof unfold_locales
  show "amf0_dec (encode v @ rest) = Some (v, length (encode v))"
    if "fits (MAX_DEPTH + 1) v" for v rest
    using read_encode [OF that, of rest] by (simp add: amf0_dec_def decode_one_def)
qed (rule encode_nonempty)

section \<open>What bytes can become\<close>

fun nodes :: "amf0 \<Rightarrow> nat"
  and prop_nodes :: "(bytes \<times> amf0) list \<Rightarrow> nat"
  and item_nodes :: "amf0 list \<Rightarrow> nat" where
  "nodes (Object ps) = Suc (prop_nodes ps)"
| "nodes (EcmaArray ps) = Suc (prop_nodes ps)"
| "nodes (TypedObject _ ps) = Suc (prop_nodes ps)"
| "nodes (StrictArray vs) = Suc (item_nodes vs)"
| "nodes _ = 1"
| "prop_nodes [] = 0"
| "prop_nodes ((k, v) # ps) = 1 + nodes v + prop_nodes ps"
| "item_nodes [] = 0"
| "item_nodes (v # vs) = nodes v + item_nodes vs"

text \<open>Every string is valid UTF-8, and the nesting is at most \<open>levels\<close> deep.\<close>

fun sane :: "nat \<Rightarrow> amf0 \<Rightarrow> bool" where
  "sane 0 v = False"
| "sane (Suc levels) v = (case v of
      String s \<Rightarrow> valid_utf8 s
    | LongString s \<Rightarrow> valid_utf8 s
    | Object ps \<Rightarrow> (\<forall>(k, x) \<in> set ps. valid_utf8 k \<and> sane levels x)
    | EcmaArray ps \<Rightarrow> (\<forall>(k, x) \<in> set ps. valid_utf8 k \<and> sane levels x)
    | StrictArray vs \<Rightarrow> (\<forall>x \<in> set vs. sane levels x)
    | TypedObject class ps \<Rightarrow> valid_utf8 class \<and> (\<forall>(k, x) \<in> set ps. valid_utf8 k \<and> sane levels x)
    | _ \<Rightarrow> True)"

text \<open>What a read leaves is the end of what it got; \<open>k\<close> nodes took as many bytes at least.\<close>

definition leaves :: "nat \<Rightarrow> bytes \<Rightarrow> bytes \<Rightarrow> bool" where
  "leaves k r bs \<longleftrightarrow> suffix r bs \<and> k + length r \<le> length bs"

lemma leaves_trans: "leaves k r s \<Longrightarrow> leaves j s t \<Longrightarrow> leaves (j + k) r t"
  by (auto simp: leaves_def intro: suffix_order.trans)

lemma leaves_refl [simp]: "leaves 0 r r"
  by (simp add: leaves_def)

lemma leaves_less: "leaves k r s \<Longrightarrow> j \<le> k \<Longrightarrow> leaves j r s"
  by (simp add: leaves_def)

lemma read_be_leaves: "read_be n bs = Inr (v, r) \<Longrightarrow> leaves n r bs"
  by (auto simp: read_be_Inr leaves_def suffix_drop)

lemma short_string_leaves: "short_string bs = Inr (s, r) \<Longrightarrow> leaves 2 r bs \<and> valid_utf8 s"
  by (auto simp: short_string_def and_then_Inr take_bytes_def lossy_valid leaves_def read_be_Inr
      suffix_drop split: if_splits)

lemma long_string_leaves: "long_string bs = Inr (s, r) \<Longrightarrow> leaves 4 r bs \<and> valid_utf8 s"
  by (auto simp: long_string_def and_then_Inr take_bytes_def lossy_valid leaves_def read_be_Inr
      suffix_drop split: if_splits)

lemma tl_leaves: "leaves k r bs \<Longrightarrow> leaves k (tl r) bs"
  by (auto simp: leaves_def intro: suffix_order.trans suffix_tl)

lemma props_loop_leaves:
  assumes rd: "\<And>b v r. rd b = Inr (v, r) \<Longrightarrow> leaves (nodes v) r b \<and> P v"
    and "props_loop rd n bs = Inr (ps, r)"
  shows "leaves (prop_nodes ps) r bs \<and> (\<forall>(k, x) \<in> set ps. valid_utf8 k \<and> P x)"
  using assms(2)
proof (induction n arbitrary: bs ps r)
  case (Suc n)
  from Suc.prems obtain key r1 where s: "short_string bs = Inr (key, r1)"
    by (auto simp: and_then_Inr)
  note sl = short_string_leaves [OF s]
  show ?case
  proof (cases "key = [] \<and> (r1 = [] \<or> hd r1 = 0x09)")
    case True
    with Suc.prems s sl tl_leaves [of 2 r1 bs] show ?thesis
      by (auto split: if_splits intro: leaves_less)
  next
    case False
    with Suc.prems s obtain v r2 ps' where v: "rd r1 = Inr (v, r2)"
      and l: "props_loop rd n r2 = Inr (ps', r)" and ps: "ps = (key, v) # ps'"
      by (auto simp: and_then_Inr split: if_splits)
    from leaves_trans [OF conjunct1 [OF Suc.IH [OF l]] conjunct1 [OF rd [OF v]]]
    have "leaves (nodes v + prop_nodes ps') r r1" .
    from leaves_trans [OF this conjunct1 [OF sl]]
    have "leaves (prop_nodes ps) r bs" using ps by (auto intro: leaves_less)
    with Suc.IH [OF l] rd [OF v] sl ps show ?thesis by auto
  qed
qed simp

lemma read_items_leaves:
  assumes rd: "\<And>b v r. rd b = Inr (v, r) \<Longrightarrow> leaves (nodes v) r b \<and> P v"
    and "read_items rd n bs = Inr (vs, r)"
  shows "leaves (item_nodes vs) r bs \<and> (\<forall>x \<in> set vs. P x)"
  using assms(2)
proof (induction n arbitrary: bs vs r)
  case 0
  then show ?case by (simp add: leaves_def)
next
  case (Suc n)
  then obtain v r1 vs' where v: "rd bs = Inr (v, r1)" and l: "read_items rd n r1 = Inr (vs', r)"
    and vs: "vs = v # vs'" by (auto simp: and_then_Inr)
  from leaves_trans [OF conjunct1 [OF Suc.IH [OF l]] conjunct1 [OF rd [OF v]]] vs
    Suc.IH [OF l] rd [OF v] show ?case by simp
qed

lemma read_value_leaves:
  "read_value levels bs = Inr (v, r) \<Longrightarrow> leaves (nodes v) r bs \<and> sane levels v"
proof (induction levels arbitrary: bs v r)
  case (Suc levels)
  have p: "read_props (read_value levels) b = Inr (ps, r') \<Longrightarrow>
      leaves (prop_nodes ps) r' b \<and> (\<forall>(k, x) \<in> set ps. valid_utf8 k \<and> sane levels x)" for b ps r'
    unfolding read_props_def by (rule props_loop_leaves [OF Suc.IH])
  have i: "read_items (read_value levels) n b = Inr (vs, r') \<Longrightarrow>
      leaves (item_nodes vs) r' b \<and> (\<forall>x \<in> set vs. sane levels x)" for n b vs r'
    by (rule read_items_leaves [OF Suc.IH])
  have join: "leaves 1 b bs \<Longrightarrow> leaves k r b \<Longrightarrow> leaves (Suc k) r bs" for b k
    using leaves_trans [of k r b 1 bs] by simp
  have skip: "leaves 4 c b \<Longrightarrow> leaves k r c \<Longrightarrow> leaves k r b"
    "leaves 2 c b \<Longrightarrow> leaves k r c \<Longrightarrow> leaves k r b"
    "leaves 8 c b \<Longrightarrow> leaves k r c \<Longrightarrow> leaves k r b" for b c k
    using leaves_trans leaves_less by (metis le_add2)+
  have two: "leaves 8 c b \<Longrightarrow> leaves 2 r c \<Longrightarrow> leaves 0 r b" for b c
    using leaves_trans leaves_less by (metis le0)
  have any: "leaves k r b \<Longrightarrow> leaves 0 r b" for k b
    by (auto intro: leaves_less)
  from Suc.prems obtain marker r1 where m: "read_be 1 bs = Inr (marker, r1)"
    by (auto simp: read_value.simps and_then_Inr)
  note one = join [OF read_be_leaves [OF m]]
  from Suc.prems m show ?case
    by (auto simp: read_value.simps and_then_Inr split: if_splits
        dest!: p i short_string_leaves long_string_leaves read_be_leaves intro!: one
        intro: skip two any leaves_refl)
qed (simp add: read_value.simps)

lemma suffix_leaves: "leaves k r bs \<Longrightarrow> drop (length bs - length r) bs = r"
  by (auto simp: leaves_def suffix_def)

text \<open>Reading a whole payload is the contract's reading of a sequence.\<close>

lemma dec_n_decode_all:
  "length bs \<le> n \<Longrightarrow> amf0.dec_n n bs = Some vs \<longleftrightarrow> decode_all bs = Inr vs"
proof (induction bs arbitrary: n vs rule: decode_all.induct)
  case (1 bs)
  show ?case
  proof (cases "bs = []")
    case True
    then show ?thesis by (cases n) (auto simp: decode_all.simps)
  next
    case False
    with "1.prems" obtain m where n: "n = Suc m" by (cases n) auto
    show ?thesis
    proof (cases "read_value (MAX_DEPTH + 1) bs")
      case (Inl e)
      then have "amf0_dec bs = None" by (simp add: amf0_dec_def decode_one_def)
      with Inl False n show ?thesis by (simp add: decode_all.simps [of bs])
    next
      case (Inr vr)
      obtain v r where vr: "vr = (v, r)" by (rule prod.exhaust)
      have d: "drop (length bs - length r) bs = r"
        using read_value_leaves Inr vr suffix_leaves by blast
      have "length r \<le> m"
        using read_value_shrinks [of "MAX_DEPTH + 1" bs v r] Inr vr "1.prems" n by simp
      note IH = "1.IH" [OF False Inr vr [symmetric] this]
      have "amf0_dec bs = Some (v, length bs - length r)"
        using Inr vr by (simp add: amf0_dec_def decode_one_def)
      with False n Inr vr d IH show ?thesis
        by (cases "decode_all r") (auto simp: decode_all.simps [of bs])
    qed
  qed
qed

lemma decode_encode_all:
  assumes "\<forall>v \<in> set vs. fits (MAX_DEPTH + 1) v"
  shows "decode_all (encode_all vs) = Inr vs"
proof -
  have "length vs \<le> length (encode_all vs)"
  proof (induction vs)
    case (Cons v vs)
    then show ?case
      using encode_nonempty [of v] by (cases "encode v") (auto simp: encode_all_def)
  qed (simp add: encode_all_def)
  then have "amf0.dec_n (length (encode_all vs)) (encode_all vs) = Some vs"
    using assms unfolding encode_all_def by (intro amf0.dec_n_enc)
  then show ?thesis using dec_n_decode_all [OF order_refl] by simp
qed

text \<open>
  C38. The AMF0 round trip: a payload written from any values (nested at most 64 levels deep,
  their strings UTF-8 and within the length their form has room for, names of properties
  empty or not) is read back as exactly those values.
\<close>

theorem amf0_round_trip:
  assumes "\<forall>v \<in> set vs. fits (MAX_DEPTH + 1) v"
  shows "decode_all (encode_all vs) = Inr vs"
  by (rule decode_encode_all [OF assms])

theorem amf0_round_trip_witness:
  "decode_all (encode_all [String [0x61], Object [([], Number 5), ([0x62], StrictArray [Null])]]) =
    Inr [String [0x61], Object [([], Number 5), ([0x62], StrictArray [Null])]]"
proof (rule amf0_round_trip)
  have deep: "MAX_DEPTH + 1 = Suc (Suc (Suc 62))" by (simp add: MAX_DEPTH_def)
  have "valid_utf8 [0x61]" "valid_utf8 [0x62]" "valid_utf8 []"
    by (simp_all add: valid_utf8.simps utf8_step_def)
  then show "\<forall>v \<in> set [String [0x61], Object [([], Number 5), ([0x62], StrictArray [Null])]].
      fits (MAX_DEPTH + 1) v"
    unfolding deep fits.simps by (auto simp: str_ok_def fits.simps(2) [of 62, folded deep])
qed

text \<open>
  What a payload can become is bounded: reading a value takes at least one byte of it for
  every value and property in the result, never more than there are, and every string of the
  result is valid UTF-8, nested at most 64 levels deep, whatever the bytes.
\<close>

theorem amf0_decode_bounded:
  assumes "decode_one bs = Inr (v, n)"
  shows "0 < n \<and> n \<le> length bs \<and> nodes v \<le> n \<and> sane (MAX_DEPTH + 1) v"
proof -
  from assms obtain r where r: "read_value (MAX_DEPTH + 1) bs = Inr (v, r)"
    and n: "n = length bs - length r" by (auto simp: decode_one_def split: sum.splits prod.splits)
  from read_value_leaves [OF r] read_value_shrinks [OF r] n show ?thesis
    by (auto simp: leaves_def)
qed

theorem amf0_decode_bounded_witness: "nodes (String [0xEF, 0xBF, 0xBD]) \<le> 4"
proof -
  have "decode_one [2, 0, 1, 0x80] = Inr (String [0xEF, 0xBF, 0xBD], 4)"
    by (simp add: decode_one_def read_value.simps short_string_def read_be_def take_bytes_def
        be_nat_def lossy.simps utf8_step_def lead_byte_def)
  from amf0_decode_bounded [OF this] show ?thesis by blast
qed

end
