(* ===== verification/Handshake.thy ===== *)
theory Handshake
  imports Prelude
begin

text \<open>
  The RTMP handshake (\<^verbatim>\<open>crates/rtmp/src/handshake.rs\<close>), both sides. The random bytes of
  a packet (\<^verbatim>\<open>rand\<close> is not part of the repository) are the parameter \<open>rnd\<close>; that there are
  as many as the packet has room for is a hypothesis where it matters. What a side appends
  to its output is returned.
\<close>

definition RTMP_VERSION :: u8 where "RTMP_VERSION = 3"
definition HANDSHAKE_SIZE :: nat where "HANDSHAKE_SIZE = 1536"

datatype handshake_error = UnsupportedVersion u8

datatype handshake_progress = NeedMore | Finished bytes

definition random_packet :: "bytes \<Rightarrow> bytes" where
  "random_packet rnd = replicate 8 0 @ rnd"

datatype server_state = WaitC0C1 | WaitC2 | Done

record server_handshake =
  sh_state :: server_state
  sh_buf :: bytes

definition new_server :: server_handshake where
  "new_server = \<lparr>sh_state = WaitC0C1, sh_buf = []\<rparr>"

text \<open>The loop of \<^verbatim>\<open>feed\<close>, from its state on; \<open>out\<close> is what was appended so far.\<close>

definition server_done :: "bytes \<Rightarrow> server_handshake \<Rightarrow>
    (handshake_error + handshake_progress) \<times> server_handshake \<times> bytes" where
  "server_done out s = (Inr (Finished (sh_buf s)), s\<lparr>sh_buf := []\<rparr>, out)"

definition server_c2 :: "bytes \<Rightarrow> server_handshake \<Rightarrow>
    (handshake_error + handshake_progress) \<times> server_handshake \<times> bytes" where
  "server_c2 out s =
     (if length (sh_buf s) < HANDSHAKE_SIZE then (Inr NeedMore, s, out)
      else server_done out \<lparr>sh_state = Done, sh_buf = drop HANDSHAKE_SIZE (sh_buf s)\<rparr>)"

definition server_c0c1 :: "bytes \<Rightarrow> server_handshake \<Rightarrow>
    (handshake_error + handshake_progress) \<times> server_handshake \<times> bytes" where
  "server_c0c1 rnd s =
     (if length (sh_buf s) < 1 + HANDSHAKE_SIZE then (Inr NeedMore, s, [])
      else let c0c1 = take (1 + HANDSHAKE_SIZE) (sh_buf s);
               s' = s\<lparr>sh_buf := drop (1 + HANDSHAKE_SIZE) (sh_buf s)\<rparr>
           in if hd c0c1 \<noteq> RTMP_VERSION then (Inl (UnsupportedVersion (hd c0c1)), s', [])
              else server_c2 (RTMP_VERSION # random_packet rnd @ tl c0c1) (s'\<lparr>sh_state := WaitC2\<rparr>))"

definition server_feed :: "bytes \<Rightarrow> bytes \<Rightarrow> server_handshake \<Rightarrow>
    (handshake_error + handshake_progress) \<times> server_handshake \<times> bytes" where
  "server_feed rnd input s =
     (let s1 = s\<lparr>sh_buf := sh_buf s @ input\<rparr> in
      case sh_state s1 of
        WaitC0C1 \<Rightarrow> server_c0c1 rnd s1
      | WaitC2 \<Rightarrow> server_c2 [] s1
      | Done \<Rightarrow> server_done [] s1)"

record client_handshake =
  ch_done :: bool
  ch_buf :: bytes

definition new_client :: client_handshake where
  "new_client = \<lparr>ch_done = False, ch_buf = []\<rparr>"

definition client_start :: "bytes \<Rightarrow> bytes" where
  "client_start rnd = RTMP_VERSION # random_packet rnd"

definition client_feed :: "bytes \<Rightarrow> client_handshake \<Rightarrow>
    (handshake_error + handshake_progress) \<times> client_handshake \<times> bytes" where
  "client_feed input c =
     (let b = ch_buf c @ input in
      if \<not> ch_done c then
        (if length b < 1 + 2 * HANDSHAKE_SIZE then (Inr NeedMore, c\<lparr>ch_buf := b\<rparr>, [])
         else let s = take (1 + 2 * HANDSHAKE_SIZE) b; rest = drop (1 + 2 * HANDSHAKE_SIZE) b in
           if hd s \<noteq> RTMP_VERSION
           then (Inl (UnsupportedVersion (hd s)), c\<lparr>ch_buf := rest\<rparr>, [])
           else (Inr (Finished rest), c\<lparr>ch_done := True, ch_buf := []\<rparr>, take HANDSHAKE_SIZE (tl s)))
      else (Inr (Finished b), c\<lparr>ch_buf := []\<rparr>, []))"

section \<open>Pieces\<close>

text \<open>
  Feeding a side the pieces a connection delivers: what it answered and what it passed on
  to the chunk stream, all together, or the error it stopped at.
\<close>

fun passed_on :: "handshake_progress \<Rightarrow> bytes" where
  "passed_on NeedMore = []"
| "passed_on (Finished b) = b"

fun server_feeds :: "bytes \<Rightarrow> bytes list \<Rightarrow> server_handshake \<Rightarrow>
    handshake_error + (server_handshake \<times> bytes \<times> bytes)" where
  "server_feeds rnd [] s = Inr (s, [], [])"
| "server_feeds rnd (p # ps) s =
     (case server_feed rnd p s of
        (Inl e, _, _) \<Rightarrow> Inl e
      | (Inr r, s1, out) \<Rightarrow>
          (case server_feeds rnd ps s1 of
             Inl e \<Rightarrow> Inl e
           | Inr (s2, out2, on2) \<Rightarrow> Inr (s2, out @ out2, passed_on r @ on2)))"

fun client_feeds :: "bytes list \<Rightarrow> client_handshake \<Rightarrow>
    handshake_error + (client_handshake \<times> bytes \<times> bytes)" where
  "client_feeds [] c = Inr (c, [], [])"
| "client_feeds (p # ps) c =
     (case client_feed p c of
        (Inl e, _, _) \<Rightarrow> Inl e
      | (Inr r, c1, out) \<Rightarrow>
          (case client_feeds ps c1 of
             Inl e \<Rightarrow> Inl e
           | Inr (c2, out2, on2) \<Rightarrow> Inr (c2, out @ out2, passed_on r @ on2)))"

text \<open>A finished handshake passes everything on.\<close>

lemma server_feeds_done:
  "sh_state s = Done \<Longrightarrow> sh_buf s = [] \<Longrightarrow>
     \<exists>s'. server_feeds rnd ps s = Inr (s', [], concat ps) \<and> sh_state s' = Done"
proof (induction ps arbitrary: s)
  case (Cons p ps)
  have "server_feed rnd p s = (Inr (Finished p), s\<lparr>sh_buf := []\<rparr>, [])"
    using Cons.prems by (simp add: server_feed_def server_done_def Let_def)
  with Cons.IH [of "s\<lparr>sh_buf := []\<rparr>"] Cons.prems show ?case by auto
qed simp

lemma client_feeds_done:
  "ch_done c \<Longrightarrow> ch_buf c = [] \<Longrightarrow>
     \<exists>c'. client_feeds ps c = Inr (c', [], concat ps) \<and> ch_done c'"
proof (induction ps arbitrary: c)
  case (Cons p ps)
  have "client_feed p c = (Inr (Finished p), c\<lparr>ch_buf := []\<rparr>, [])"
    using Cons.prems by (simp add: client_feed_def Let_def)
  with Cons.IH [of "c\<lparr>ch_buf := []\<rparr>"] Cons.prems show ?case by auto
qed simp

lemma server_feeds_c2:
  assumes "sh_state s = WaitC2" and "length (sh_buf s) < HANDSHAKE_SIZE"
    and "sh_buf s @ concat ps = c2 @ rest" and "length c2 = HANDSHAKE_SIZE"
  shows "\<exists>s'. server_feeds rnd ps s = Inr (s', [], rest) \<and> sh_state s' = Done"
  using assms
proof (induction ps arbitrary: s)
  case (Cons p ps)
  let ?s1 = "s\<lparr>sh_buf := sh_buf s @ p\<rparr>"
  show ?case
  proof (cases "length (sh_buf s @ p) < HANDSHAKE_SIZE")
    case True
    then have "server_feed rnd p s = (Inr NeedMore, ?s1, [])"
      using Cons.prems(1) by (simp add: server_feed_def server_c2_def Let_def)
    with Cons.IH [of ?s1] Cons.prems True show ?thesis by auto
  next
    case False
    then have "server_feed rnd p s = (Inr (Finished (drop HANDSHAKE_SIZE (sh_buf s @ p))),
        \<lparr>sh_state = Done, sh_buf = []\<rparr>, [])"
      using Cons.prems(1) by (simp add: server_feed_def server_c2_def server_done_def Let_def)
    moreover have "drop HANDSHAKE_SIZE (sh_buf s @ p) @ concat ps = rest"
      using arg_cong [OF Cons.prems(3), of "drop HANDSHAKE_SIZE"] False Cons.prems(4) by simp
    ultimately show ?thesis
      using server_feeds_done [of "\<lparr>sh_state = Done, sh_buf = []\<rparr>" rnd ps] by auto
  qed
qed auto

lemma server_feeds_start:
  assumes "sh_state s = WaitC0C1" and "length (sh_buf s) < 1 + HANDSHAKE_SIZE"
    and "sh_buf s @ concat ps = RTMP_VERSION # c1 @ c2 @ rest"
    and "length c1 = HANDSHAKE_SIZE" and "length c2 = HANDSHAKE_SIZE"
  shows "\<exists>s'. server_feeds rnd ps s = Inr (s', RTMP_VERSION # random_packet rnd @ c1, rest) \<and>
    sh_state s' = Done"
  using assms
proof (induction ps arbitrary: s)
  case Nil
  then show ?case by auto
next
  case (Cons p ps)
  let ?b = "sh_buf s @ p"
  show ?case
  proof (cases "length ?b < 1 + HANDSHAKE_SIZE")
    case True
    then have "server_feed rnd p s = (Inr NeedMore, s\<lparr>sh_buf := ?b\<rparr>, [])"
      using Cons.prems(1) by (simp add: server_feed_def server_c0c1_def Let_def)
    with Cons.IH [of "s\<lparr>sh_buf := ?b\<rparr>"] Cons.prems True show ?thesis by auto
  next
    case False
    have all: "?b @ concat ps = (RTMP_VERSION # c1) @ c2 @ rest" using Cons.prems(3) by simp
    have head: "take (1 + HANDSHAKE_SIZE) ?b = RTMP_VERSION # c1"
      using arg_cong [OF all, of "take (1 + HANDSHAKE_SIZE)"] False Cons.prems(4) by simp
    have tail: "drop (1 + HANDSHAKE_SIZE) ?b @ concat ps = c2 @ rest"
      using arg_cong [OF all, of "drop (1 + HANDSHAKE_SIZE)"] False Cons.prems(4) by simp
    let ?s1 = "\<lparr>sh_state = WaitC2, sh_buf = drop (1 + HANDSHAKE_SIZE) ?b\<rparr>"
    have feed: "server_feed rnd p s = server_c2 (RTMP_VERSION # random_packet rnd @ c1) ?s1"
      using Cons.prems(1) False head
      by (cases s) (simp add: server_feed_def server_c0c1_def Let_def)
    show ?thesis
    proof (cases "length (sh_buf ?s1) < HANDSHAKE_SIZE")
      case True
      then have "server_feed rnd p s = (Inr NeedMore, ?s1, RTMP_VERSION # random_packet rnd @ c1)"
        using feed by (simp add: server_c2_def)
      moreover have "\<exists>s'. server_feeds rnd ps ?s1 = Inr (s', [], rest) \<and> sh_state s' = Done"
        by (rule server_feeds_c2 [OF _ True _ Cons.prems(5)]) (use tail in simp_all)
      ultimately show ?thesis by auto
    next
      case c2: False
      let ?r = "drop HANDSHAKE_SIZE (drop (1 + HANDSHAKE_SIZE) ?b)"
      have "server_feed rnd p s = (Inr (Finished ?r), \<lparr>sh_state = Done, sh_buf = []\<rparr>,
          RTMP_VERSION # random_packet rnd @ c1)"
        using feed c2 by (simp add: server_c2_def server_done_def)
      moreover have "?r @ concat ps = rest"
        using arg_cong [OF tail, of "drop HANDSHAKE_SIZE"] c2 Cons.prems(5) by simp
      ultimately show ?thesis
        using server_feeds_done [of "\<lparr>sh_state = Done, sh_buf = []\<rparr>" rnd ps] by auto
    qed
  qed
qed

lemma client_feeds_start:
  assumes "\<not> ch_done c" and "length (ch_buf c) < 1 + 2 * HANDSHAKE_SIZE"
    and "ch_buf c @ concat ps = RTMP_VERSION # s1 @ s2 @ rest"
    and "length s1 = HANDSHAKE_SIZE" and "length s2 = HANDSHAKE_SIZE"
  shows "\<exists>c'. client_feeds ps c = Inr (c', s1, rest) \<and> ch_done c'"
  using assms
proof (induction ps arbitrary: c)
  case (Cons p ps)
  let ?b = "ch_buf c @ p"
  show ?case
  proof (cases "length ?b < 1 + 2 * HANDSHAKE_SIZE")
    case True
    then have "client_feed p c = (Inr NeedMore, c\<lparr>ch_buf := ?b\<rparr>, [])"
      using Cons.prems(1) by (simp add: client_feed_def Let_def)
    with Cons.IH [of "c\<lparr>ch_buf := ?b\<rparr>"] Cons.prems True show ?thesis by auto
  next
    case False
    have all: "?b @ concat ps = (RTMP_VERSION # s1 @ s2) @ rest" using Cons.prems(3) by simp
    have head: "take (1 + 2 * HANDSHAKE_SIZE) ?b = RTMP_VERSION # s1 @ s2"
      using arg_cong [OF all, of "take (1 + 2 * HANDSHAKE_SIZE)"] False Cons.prems(4,5) by simp
    have tail: "drop (1 + 2 * HANDSHAKE_SIZE) ?b @ concat ps = rest"
      using arg_cong [OF all, of "drop (1 + 2 * HANDSHAKE_SIZE)"] False Cons.prems(4,5) by simp
    have "client_feed p c = (Inr (Finished (drop (1 + 2 * HANDSHAKE_SIZE) ?b)),
        c\<lparr>ch_done := True, ch_buf := []\<rparr>, s1)"
      using Cons.prems(1,4) False head by (simp add: client_feed_def Let_def)
    with client_feeds_done [of "c\<lparr>ch_done := True, ch_buf := []\<rparr>" ps] tail show ?thesis by auto
  qed
qed auto

text \<open>
  C39. The handshake completes on both sides, however the network cuts what they send: a client
  and a server that start with any random bytes each answer the other's packets, both end
  finished, and each passes on to its chunk stream exactly what the other sent after its
  handshake.
\<close>

theorem handshake_completes:
  assumes "length crnd = HANDSHAKE_SIZE - 8" and "length srnd = HANDSHAKE_SIZE - 8"
    and "concat to_client = RTMP_VERSION # random_packet srnd @ random_packet crnd @ server_data"
    and "concat to_server = client_start crnd @ random_packet srnd @ client_data"
  shows "(\<exists>s. server_feeds srnd to_server new_server =
      Inr (s, RTMP_VERSION # random_packet srnd @ random_packet crnd, client_data) \<and> sh_state s = Done) \<and>
    (\<exists>c. client_feeds to_client new_client = Inr (c, random_packet srnd, server_data) \<and> ch_done c)"
proof -
  have len: "length (random_packet crnd) = HANDSHAKE_SIZE" "length (random_packet srnd) = HANDSHAKE_SIZE"
    using assms(1,2) by (simp_all add: random_packet_def HANDSHAKE_SIZE_def)
  from server_feeds_start [of new_server to_server "random_packet crnd" "random_packet srnd" client_data srnd]
    client_feeds_start [of new_client to_client "random_packet srnd" "random_packet crnd" server_data]
  show ?thesis
    using assms(3,4) len by (simp add: new_server_def new_client_def client_start_def)
qed

theorem handshake_completes_witness:
  "\<exists>c. client_feeds [RTMP_VERSION # random_packet (replicate 1528 1),
      random_packet (replicate 1528 2) @ [7]] new_client =
    Inr (c, random_packet (replicate 1528 1), [7]) \<and> ch_done c"
  using handshake_completes [of "replicate 1528 2" "replicate 1528 1"
      "[RTMP_VERSION # random_packet (replicate 1528 1), random_packet (replicate 1528 2) @ [7]]" "[7]"
      "[client_start (replicate 1528 2) @ random_packet (replicate 1528 1)]" "[]"]
  by (simp add: HANDSHAKE_SIZE_def)

end
