(* ===== verification/Rtmp_Message.thy ===== *)
theory Rtmp_Message
  imports Chunk Amf0
begin

text \<open>
  RTMP message types and the protocol control messages
  (\<^verbatim>\<open>crates/rtmp/src/message.rs\<close>). A function that writes to an output buffer is what
  it appends, with the encoder's chunk size first. Text is its ASCII bytes.
\<close>

definition SET_CHUNK_SIZE :: u8 where "SET_CHUNK_SIZE = 1"
definition ABORT :: u8 where "ABORT = 2"
definition ACKNOWLEDGEMENT :: u8 where "ACKNOWLEDGEMENT = 3"
definition USER_CONTROL :: u8 where "USER_CONTROL = 4"
definition WINDOW_ACK_SIZE :: u8 where "WINDOW_ACK_SIZE = 5"
definition SET_PEER_BANDWIDTH :: u8 where "SET_PEER_BANDWIDTH = 6"
definition DATA_AMF0 :: u8 where "DATA_AMF0 = 18"
definition COMMAND_AMF3 :: u8 where "COMMAND_AMF3 = 17"
definition COMMAND_AMF0 :: u8 where "COMMAND_AMF0 = 20"

lemmas message_types = SET_CHUNK_SIZE_def ABORT_def ACKNOWLEDGEMENT_def USER_CONTROL_def
  WINDOW_ACK_SIZE_def SET_PEER_BANDWIDTH_def DATA_AMF0_def COMMAND_AMF3_def COMMAND_AMF0_def
  AUDIO_def VIDEO_def

definition UC_STREAM_BEGIN :: u16 where "UC_STREAM_BEGIN = 0"
definition UC_PING_REQUEST :: u16 where "UC_PING_REQUEST = 6"
definition UC_PING_RESPONSE :: u16 where "UC_PING_RESPONSE = 7"

definition CSID_CONTROL :: nat where "CSID_CONTROL = 2"
definition CSID_COMMAND :: nat where "CSID_COMMAND = 3"
definition CSID_AUDIO :: nat where "CSID_AUDIO = 4"
definition CSID_DATA :: nat where "CSID_DATA = 5"
definition CSID_VIDEO :: nat where "CSID_VIDEO = 6"
definition CSID_STREAM_COMMAND :: nat where "CSID_STREAM_COMMAND = 8"

definition write_msg :: "nat \<Rightarrow> nat \<Rightarrow> u32 \<Rightarrow> u8 \<Rightarrow> u32 \<Rightarrow> bytes \<Rightarrow> bytes" where
  "write_msg cs csid ts type_id stream_id payload =
     write_chunks cs \<lparr>m_csid = csid, m_timestamp = ts, m_type_id = type_id,
       m_stream_id = stream_id, m_payload = payload\<rparr>"

definition write_u32_control :: "nat \<Rightarrow> u8 \<Rightarrow> u32 \<Rightarrow> bytes" where
  "write_u32_control cs type_id v = write_msg cs CSID_CONTROL 0 type_id 0 (put_be 4 (unat v))"

definition write_set_peer_bandwidth :: "nat \<Rightarrow> u32 \<Rightarrow> u8 \<Rightarrow> bytes" where
  "write_set_peer_bandwidth cs n limit =
     write_msg cs CSID_CONTROL 0 SET_PEER_BANDWIDTH 0 (put_be 4 (unat n) @ [limit])"

definition write_user_control :: "nat \<Rightarrow> u16 \<Rightarrow> u32 \<Rightarrow> bytes" where
  "write_user_control cs event data =
     write_msg cs CSID_CONTROL 0 USER_CONTROL 0 (put_be 2 (unat event) @ put_be 4 (unat data))"

definition write_command :: "nat \<Rightarrow> nat \<Rightarrow> u32 \<Rightarrow> amf0 list \<Rightarrow> bytes" where
  "write_command cs csid stream_id vs =
     write_msg cs csid 0 COMMAND_AMF0 stream_id (encode_all vs)"

definition read_u32 :: "bytes \<Rightarrow> u32 option" where
  "read_u32 payload = map_option (\<lambda>b. of_nat (be_nat b)) (slice_opt payload 0 4)"

definition read_user_control :: "bytes \<Rightarrow> (u16 \<times> u32) option" where
  "read_user_control payload =
     map_option (\<lambda>ev. (of_nat (be_nat ev),
       case read_u32 (drop 2 payload) of None \<Rightarrow> 0 | Some v \<Rightarrow> v)) (slice_opt payload 0 2)"

definition status_object :: "bytes \<Rightarrow> bytes \<Rightarrow> bytes \<Rightarrow> amf0" where
  "status_object level code description =
     Object [(ascii ''level'', String level), (ascii ''code'', String code),
             (ascii ''description'', String description)]"

definition SET_DATA_FRAME :: bytes where "SET_DATA_FRAME = ascii ''@setDataFrame''"

definition with_set_data_frame :: "bytes \<Rightarrow> bytes option" where
  "with_set_data_frame payload =
     (case decode_one payload of
        Inl _ \<Rightarrow> None
      | Inr (first, _) \<Rightarrow>
          if as_str first = Some SET_DATA_FRAME then Some payload
          else Some (encode (String SET_DATA_FRAME) @ payload))"

lemma read_u32_put: "read_u32 (put_be 4 (unat v) @ t) = Some v"
proof -
  have "unat v < 256 ^ 4" using unsigned_less [of v] by simp
  then show ?thesis by (simp add: read_u32_def slice_opt_def be_nat_put_be)
qed

text \<open>A User Control message is read as it was written.\<close>

lemma read_user_control_put:
  "read_user_control (put_be 2 (unat ev) @ put_be 4 (unat v)) = Some (ev, v)"
proof -
  have "unat ev < 256 ^ 2" using unsigned_less [of ev] by simp
  moreover have "read_u32 (put_be 4 (unat v) @ []) = Some v" by (rule read_u32_put)
  ultimately show ?thesis by (simp add: read_user_control_def slice_opt_def be_nat_put_be)
qed

end
