(* ===== verification/Link.thy ===== *)
theory Link
  imports Rtmp_Message Chunk_Pieces
begin

text \<open>
  What both ends of an RTMP session share (\<^verbatim>\<open>crates/rtmp/src/session/mod.rs\<close>): the chunk
  codec, acknowledgements, and the protocol control messages. The output buffer holds what
  is to be sent; the encoder is its chunk size. Byte counts are \<open>nat\<close>: 64 bits are
  not exhausted.
\<close>

definition MAX_PRE_PUBLISH_MESSAGE :: nat where "MAX_PRE_PUBLISH_MESSAGE = 64 * 1024"
definition MAX_NON_MEDIA_MESSAGE :: nat where "MAX_NON_MEDIA_MESSAGE = 1024 * 1024"

datatype media_kind = AudioKind | VideoKind

datatype session_error =
    ChunkFault chunk_error
  | Amf0Fault amf0_error
  | Protocol string

record link =
  lk_decoder :: chunk_decoder
  lk_encoder :: nat
  lk_out :: bytes
  lk_bytes_in :: nat
  lk_last_ack :: nat
  lk_ack_window :: u32

definition new_link :: "u32 \<Rightarrow> link" where
  "new_link default_ack_window =
     \<lparr>lk_decoder = new_decoder, lk_encoder = DEFAULT_CHUNK_SIZE, lk_out = [],
      lk_bytes_in = 0, lk_last_ack = 0, lk_ack_window = default_ack_window\<rparr>"

definition emit :: "(nat \<Rightarrow> bytes) \<Rightarrow> link \<Rightarrow> link" where
  "emit w l = l\<lparr>lk_out := lk_out l @ w (lk_encoder l)\<rparr>"

definition received :: "nat \<Rightarrow> link \<Rightarrow> link" where
  "received n l0 =
     (let l = l0\<lparr>lk_bytes_in := lk_bytes_in l0 + n\<rparr> in
      if 0 < lk_ack_window l \<and> unat (lk_ack_window l) \<le> lk_bytes_in l - lk_last_ack l
      then emit (\<lambda>cs. write_u32_control cs ACKNOWLEDGEMENT (of_nat (lk_bytes_in l)))
        (l\<lparr>lk_last_ack := lk_bytes_in l\<rparr>)
      else l)"

definition set_out_chunk_size :: "u32 \<Rightarrow> link \<Rightarrow> link" where
  "set_out_chunk_size n l =
     (emit (\<lambda>cs. write_u32_control cs SET_CHUNK_SIZE n) l)\<lparr>lk_encoder := encoder_chunk_size (unat n)\<rparr>"

definition control_chunk_size :: "bytes \<Rightarrow> link \<Rightarrow> (session_error + bool) \<times> link" where
  "control_chunk_size payload l =
     (case read_u32 payload of
        None \<Rightarrow> (Inl (Protocol ''short Set Chunk Size''), l)
      | Some v \<Rightarrow>
          (case set_chunk_size (unat (v AND 0x7FFFFFFF)) (lk_decoder l) of
             (Inl e, d) \<Rightarrow> (Inl (ChunkFault e), l\<lparr>lk_decoder := d\<rparr>)
           | (Inr _, d) \<Rightarrow> (Inr True, l\<lparr>lk_decoder := d\<rparr>)))"

text \<open>Whether the message was consumed, or the error that ends the session.\<close>

definition handle_control :: "message \<Rightarrow> link \<Rightarrow> (session_error + bool) \<times> link" where
  "handle_control m l =
     (let t = m_type_id m; p = m_payload m in
      if t = SET_CHUNK_SIZE then control_chunk_size p l
      else if t = ABORT then
        (Inr True, case read_u32 p of
           None \<Rightarrow> l
         | Some csid \<Rightarrow> l\<lparr>lk_decoder := abort_message (unat csid) (lk_decoder l)\<rparr>)
      else if t = ACKNOWLEDGEMENT then (Inr True, l)
      else if t = WINDOW_ACK_SIZE then
        (Inr True, case read_u32 p of None \<Rightarrow> l | Some v \<Rightarrow> l\<lparr>lk_ack_window := v\<rparr>)
      else if t = SET_PEER_BANDWIDTH then
        (Inr True, case read_u32 p of
           None \<Rightarrow> l
         | Some v \<Rightarrow> emit (\<lambda>cs. write_u32_control cs WINDOW_ACK_SIZE v) l)
      else if t = USER_CONTROL then
        (Inr True, case read_user_control p of
           Some (ev, ts) \<Rightarrow>
             if ev = UC_PING_REQUEST
             then emit (\<lambda>cs. write_user_control cs UC_PING_RESPONSE ts) l else l
         | None \<Rightarrow> l)
      else (Inr False, l))"

definition take_output :: "link \<Rightarrow> bytes \<times> link" where
  "take_output l = (lk_out l, l\<lparr>lk_out := []\<rparr>)"

lemma emit_fields [simp]:
  "lk_decoder (emit w l) = lk_decoder l" "lk_encoder (emit w l) = lk_encoder l"
  "lk_out (emit w l) = lk_out l @ w (lk_encoder l)" "lk_ack_window (emit w l) = lk_ack_window l"
  by (simp_all add: emit_def)

lemma received_decoder [simp]: "lk_decoder (received n l) = lk_decoder l"
  "lk_encoder (received n l) = lk_encoder l"
  by (simp_all add: received_def Let_def)

lemma set_out_chunk_size_decoder [simp]: "lk_decoder (set_out_chunk_size n l) = lk_decoder l"
  by (simp add: set_out_chunk_size_def)

text \<open>What control messages do to the decoder.\<close>

lemma control_chunk_size_decoder:
  assumes "control_chunk_size p l = (r, l')"
  shows "lk_decoder l' = lk_decoder l \<or> (\<exists>n. lk_decoder l' = snd (set_chunk_size n (lk_decoder l)))"
proof (cases "read_u32 p")
  case (Some v)
  let ?n = "unat (v AND 0x7FFFFFFF)"
  have "lk_decoder l' = snd (set_chunk_size ?n (lk_decoder l))"
    using assms Some by (auto simp: control_chunk_size_def split: prod.splits sum.splits)
  then show ?thesis by blast
qed (use assms in \<open>simp add: control_chunk_size_def\<close>)

lemma handle_control_decoder:
  assumes "handle_control m l = (r, l')"
  shows "lk_decoder l' = lk_decoder l \<or>
    (\<exists>n. lk_decoder l' = snd (set_chunk_size n (lk_decoder l))) \<or>
    (\<exists>csid. lk_decoder l' = abort_message csid (lk_decoder l))"
proof (cases "m_type_id m = SET_CHUNK_SIZE")
  case True
  with assms show ?thesis
    using control_chunk_size_decoder [of "m_payload m" l r l'] by (auto simp: handle_control_def)
next
  case False
  with assms show ?thesis
    unfolding handle_control_def Let_def by (auto split: if_splits option.splits)
qed

lemma abort_message_buf [simp]:
  "cd_buf (abort_message csid d) = cd_buf d" "cd_max_media (abort_message csid d) = cd_max_media d"
  "cd_max_other (abort_message csid d) = cd_max_other d"
  by (simp_all add: abort_message_def split: option.split)

lemma set_chunk_size_buf [simp]:
  "cd_buf (snd (set_chunk_size n d)) = cd_buf d"
  "cd_max_media (snd (set_chunk_size n d)) = cd_max_media d"
  "cd_max_other (snd (set_chunk_size n d)) = cd_max_other d"
  by (simp_all add: set_chunk_size_def)

lemma handle_control_buf:
  assumes "handle_control m l = (r, l')"
  shows "cd_buf (lk_decoder l') = cd_buf (lk_decoder l)"
    and "cd_max_media (lk_decoder l') = cd_max_media (lk_decoder l)"
    and "cd_max_other (lk_decoder l') = cd_max_other (lk_decoder l)"
  using handle_control_decoder [OF assms] by auto

end
