(* ===== verification/Server_Session.thy ===== *)
theory Server_Session
  imports Link
begin

text \<open>
  The server side of a publish session, what the encoder talks to
  (\<^verbatim>\<open>crates/rtmp/src/session/server.rs\<close>). An operation returns the events it pushed, or
  the error that ends the session, with the session after it. A 64-bit float is its bit
  pattern (\<open>Amf0\<close>).
\<close>

record server_config =
  sc_chunk_size :: u32
  sc_window_ack_size :: u32
  sc_peer_bandwidth :: u32

definition default_server_config :: server_config where
  "default_server_config = \<lparr>sc_chunk_size = 4096, sc_window_ack_size = 2500000,
     sc_peer_bandwidth = 2500000\<rparr>"

datatype server_event =
    Connect bytes "bytes option" "(bytes \<times> amf0) list"
  | PublishRequest bytes bytes
  | Media media_kind u32 bytes
  | Metadata u32 bytes
  | Data u32 bytes
  | Unpublish

datatype session_state = AwaitConnect | Connected | PublishPending | Publishing | Closed

record server_session =
  sv_link :: link
  sv_config :: server_config
  sv_state :: session_state
  sv_app :: bytes
  sv_key :: bytes

type_synonym served = "(session_error + server_event list) \<times> server_session"

definition STREAM_ID :: u32 where "STREAM_ID = 1"

text \<open>The floats 0.0, 1.0 and 31.0.\<close>

definition F0 :: u64 where "F0 = 0"
definition F1 :: u64 where "F1 = 0x3FF0000000000000"
definition F31 :: u64 where "F31 = 0x403F000000000000"

definition new_server_session :: "server_config \<Rightarrow> server_session" where
  "new_server_session config =
     (let l = new_link (sc_window_ack_size config) in
      \<lparr>sv_link = l\<lparr>lk_decoder := set_max_message_len (Some MAX_PRE_PUBLISH_MESSAGE)
          (Some MAX_PRE_PUBLISH_MESSAGE) (lk_decoder l)\<rparr>,
       sv_config = config, sv_state = AwaitConnect, sv_app = [], sv_key = []\<rparr>)"

definition on_link :: "(link \<Rightarrow> link) \<Rightarrow> server_session \<Rightarrow> server_session" where
  "on_link f s = s\<lparr>sv_link := f (sv_link s)\<rparr>"

definition send_command :: "nat \<Rightarrow> u32 \<Rightarrow> amf0 list \<Rightarrow> server_session \<Rightarrow> server_session" where
  "send_command csid stream_id vs = on_link (emit (\<lambda>cs. write_command cs csid stream_id vs))"

definition reply_result :: "u64 \<Rightarrow> amf0 list \<Rightarrow> server_session \<Rightarrow> server_session" where
  "reply_result txid vs = send_command CSID_COMMAND 0 ([String (ascii ''_result''), Number txid] @ vs)"

definition accept_publish :: "server_session \<Rightarrow> server_session" where
  "accept_publish s0 =
     (if sv_state s0 \<noteq> PublishPending then s0
      else let s = on_link (\<lambda>l. l\<lparr>lk_decoder := set_max_message_len None
             (Some MAX_NON_MEDIA_MESSAGE) (lk_decoder l)\<rparr>) (s0\<lparr>sv_state := Publishing\<rparr>);
             s1 = on_link (emit (\<lambda>cs. write_user_control cs UC_STREAM_BEGIN STREAM_ID)) s
           in send_command CSID_STREAM_COMMAND STREAM_ID
                [String (ascii ''onStatus''), Number F0, Null,
                 status_object (ascii ''status'') (ascii ''NetStream.Publish.Start'')
                   (sv_app s1 @ ascii '' is now published.'')] s1)"

definition reject_publish :: "bytes \<Rightarrow> bytes \<Rightarrow> server_session \<Rightarrow> server_session" where
  "reject_publish code description s =
     send_command CSID_STREAM_COMMAND STREAM_ID
       [String (ascii ''onStatus''), Number F0, Null,
        status_object (ascii ''error'') code description] (s\<lparr>sv_state := Closed\<rparr>)"

section \<open>Commands\<close>

text \<open>\<^verbatim>\<open>values.get(i).and_then(as_str).unwrap_or("")\<close>, and the like for a property.\<close>

definition str_at :: "amf0 list \<Rightarrow> nat \<Rightarrow> bytes" where
  "str_at vs i = (case Option.bind (get_opt vs i) as_str of None \<Rightarrow> [] | Some s \<Rightarrow> s)"

definition str_prop :: "string \<Rightarrow> amf0 \<Rightarrow> bytes option" where
  "str_prop key v = Option.bind (get_prop (ascii key) v) as_str"

definition txid_of :: "amf0 list \<Rightarrow> u64" where
  "txid_of vs = (case Option.bind (get_opt vs 1) as_number of None \<Rightarrow> F0 | Some n \<Rightarrow> n)"

definition connect_reply :: "amf0 \<Rightarrow> amf0 list" where
  "connect_reply obj =
     [Object [(ascii ''fmsVer'', String (ascii ''FMS/3,0,1,123'')),
              (ascii ''capabilities'', Number F31)],
      Object [(ascii ''level'', String (ascii ''status'')),
              (ascii ''code'', String (ascii ''NetConnection.Connect.Success'')),
              (ascii ''description'', String (ascii ''Connection succeeded.'')),
              (ascii ''objectEncoding'', Number
                (case Option.bind (get_prop (ascii ''objectEncoding'') obj) as_number of
                   None \<Rightarrow> F0 | Some n \<Rightarrow> n))]]"

definition cmd_connect :: "u64 \<Rightarrow> amf0 list \<Rightarrow> server_session \<Rightarrow> served" where
  "cmd_connect txid vs s0 =
     (if sv_state s0 \<noteq> AwaitConnect then (Inl (Protocol ''connect sent twice''), s0)
      else
        let obj = (case get_opt vs 2 of None \<Rightarrow> Null | Some v \<Rightarrow> v);
            s = s0\<lparr>sv_app := (case str_prop ''app'' obj of None \<Rightarrow> [] | Some a \<Rightarrow> a)\<rparr>;
            s1 = on_link (emit (\<lambda>cs. write_u32_control cs WINDOW_ACK_SIZE
                   (sc_window_ack_size (sv_config s)))) s;
            s2 = on_link (emit (\<lambda>cs. write_set_peer_bandwidth cs
                   (sc_peer_bandwidth (sv_config s)) 2)) s1;
            s3 = on_link (set_out_chunk_size (sc_chunk_size (sv_config s))) s2;
            s4 = reply_result txid (connect_reply obj) s3
        in (Inr [Connect (sv_app s) (str_prop ''tcUrl'' obj)
                   (case props_of obj of None \<Rightarrow> [] | Some ps \<Rightarrow> ps)],
            s4\<lparr>sv_state := Connected\<rparr>))"

definition cmd_release :: "bytes \<Rightarrow> u64 \<Rightarrow> amf0 list \<Rightarrow> server_session \<Rightarrow> served" where
  "cmd_release name txid vs s =
     (let s1 = (if name = ascii ''FCPublish''
                then send_command CSID_COMMAND 0
                  [String (ascii ''onFCPublish''), Number F0, Null,
                   Object [(ascii ''code'', String (ascii ''NetStream.Publish.Start'')),
                           (ascii ''description'', String (str_at vs 3))]] s
                else s)
      in (Inr [], reply_result txid [Null, Undefined] s1))"

definition cmd_publish :: "amf0 list \<Rightarrow> server_session \<Rightarrow> served" where
  "cmd_publish vs s =
     (case sv_state s of
        PublishPending \<Rightarrow> (Inl (Protocol ''publish sent twice''), s)
      | Publishing \<Rightarrow> (Inl (Protocol ''publish sent twice''), s)
      | AwaitConnect \<Rightarrow> (Inl (Protocol ''publish before connect''), s)
      | Closed \<Rightarrow> (Inl (Protocol ''publish after the stream ended''), s)
      | Connected \<Rightarrow>
          (Inr [PublishRequest (sv_app s) (str_at vs 3)],
           s\<lparr>sv_key := str_at vs 3, sv_state := PublishPending\<rparr>))"

definition cmd_unpublish :: "server_session \<Rightarrow> served" where
  "cmd_unpublish s =
     (if sv_state s = Publishing \<or> sv_state s = PublishPending
      then (Inr [Unpublish], s\<lparr>sv_state := Closed\<rparr>) else (Inr [], s))"

definition server_command :: "bytes \<Rightarrow> server_session \<Rightarrow> served" where
  "server_command payload s =
     (case decode_all payload of
        Inl e \<Rightarrow> (Inl (Amf0Fault e), s)
      | Inr vs \<Rightarrow>
          (let name = str_at vs 0; txid = txid_of vs in
           if name = ascii ''connect'' then cmd_connect txid vs s
           else if name = ascii ''releaseStream'' \<or> name = ascii ''FCPublish''
           then cmd_release name txid vs s
           else if name = ascii ''createStream''
           then (Inr [], reply_result txid [Null, Number F1] s)
           else if name = ascii ''publish'' then cmd_publish vs s
           else if name = ascii ''FCUnpublish'' \<or> name = ascii ''deleteStream'' \<or>
             name = ascii ''closeStream'' then cmd_unpublish s
           else (Inr [], s)))"

section \<open>Messages\<close>

definition ON_META_DATA :: bytes where "ON_META_DATA = ascii ''onMetaData''"

definition is_metadata :: "amf0 \<Rightarrow> nat \<Rightarrow> bytes \<Rightarrow> bool" where
  "is_metadata first used payload =
     (if as_str first = Some SET_DATA_FRAME
      then (case decode_one (drop used payload) of
              Inr (v, _) \<Rightarrow> as_str v = Some ON_META_DATA | Inl _ \<Rightarrow> False)
      else as_str first = Some ON_META_DATA)"

definition server_data :: "message \<Rightarrow> server_session \<Rightarrow> served" where
  "server_data m s =
     (case decode_one (m_payload m) of
        Inl _ \<Rightarrow> (Inr [], s)
      | Inr (first, used) \<Rightarrow>
          if is_metadata first used (m_payload m)
          then (case with_set_data_frame (m_payload m) of
                  Some p \<Rightarrow> (Inr [Metadata (m_timestamp m) p], s)
                | None \<Rightarrow> (Inr [], s))
          else (Inr [Data (m_timestamp m) (m_payload m)], s))"

definition server_media :: "message \<Rightarrow> server_event list" where
  "server_media m =
     (if m_payload m = [] then []
      else [Media (if m_type_id m = AUDIO then AudioKind else VideoKind) (m_timestamp m) (m_payload m)])"

definition server_handle :: "message \<Rightarrow> server_session \<Rightarrow> served" where
  "server_handle m s0 =
     (case handle_control m (sv_link s0) of
        (Inl e, l) \<Rightarrow> (Inl e, s0\<lparr>sv_link := l\<rparr>)
      | (Inr True, l) \<Rightarrow> (Inr [], s0\<lparr>sv_link := l\<rparr>)
      | (Inr False, l) \<Rightarrow>
          (let s = s0\<lparr>sv_link := l\<rparr>; t = m_type_id m in
           if t = COMMAND_AMF0 then server_command (m_payload m) s
           else if t = COMMAND_AMF3 then server_command (drop 1 (m_payload m)) s
           else if (t = AUDIO \<or> t = VIDEO) \<and> sv_state s = Publishing then (Inr (server_media m), s)
           else if t = DATA_AMF0 \<and> sv_state s = Publishing then server_data m s
           else (Inr [], s)))"

text \<open>Handling a message leaves the bytes not decoded yet alone.\<close>

definition pending_of :: "server_session \<Rightarrow> bytes" where
  "pending_of s = cd_buf (lk_decoder (sv_link s))"

lemma on_link_fields [simp]:
  "sv_link (on_link f s) = f (sv_link s)" "sv_state (on_link f s) = sv_state s"
  "sv_config (on_link f s) = sv_config s" "sv_app (on_link f s) = sv_app s"
  by (simp_all add: on_link_def)

lemma send_command_fields [simp]:
  "lk_decoder (sv_link (send_command c i vs s)) = lk_decoder (sv_link s)"
  "sv_state (send_command c i vs s) = sv_state s"
  "lk_decoder (sv_link (reply_result t vs s)) = lk_decoder (sv_link s)"
  "sv_state (reply_result t vs s) = sv_state s"
  by (simp_all add: send_command_def reply_result_def)

lemma server_command_decoder:
  "server_command p s = (r, s') \<Longrightarrow> lk_decoder (sv_link s') = lk_decoder (sv_link s)"
  by (auto simp: server_command_def cmd_connect_def cmd_release_def cmd_publish_def
      cmd_unpublish_def Let_def split: sum.splits if_splits session_state.splits)

lemma server_data_session: "server_data m s = (r, s') \<Longrightarrow> s' = s"
  by (auto simp: server_data_def split: sum.splits if_splits option.splits prod.splits)

lemma server_handle_decoder:
  assumes "server_handle m s = (r, s')"
  shows "lk_decoder (sv_link s') = lk_decoder (snd (handle_control m (sv_link s)))"
proof -
  obtain q l where q: "handle_control m (sv_link s) = (q, l)" by (rule prod.exhaust)
  show ?thesis
    using assms q
    by (auto simp: server_handle_def Let_def split: sum.splits bool.splits if_splits
        dest!: server_command_decoder server_data_session)
qed

lemma server_handle_buf: "server_handle m s = (r, s') \<Longrightarrow> pending_of s' = pending_of s"
  using handle_control_buf(1) [of m "sv_link s" "fst (handle_control m (sv_link s))"
      "snd (handle_control m (sv_link s))"] server_handle_decoder [of m s r s']
  by (simp add: pending_of_def)

definition with_decoder :: "chunk_decoder \<Rightarrow> server_session \<Rightarrow> server_session" where
  "with_decoder d = on_link (\<lambda>l. l\<lparr>lk_decoder := d\<rparr>)"

lemma with_decoder_fields [simp]:
  "lk_decoder (sv_link (with_decoder d s)) = d" "sv_state (with_decoder d s) = sv_state s"
  "pending_of (with_decoder d s) = cd_buf d"
  by (simp_all add: with_decoder_def pending_of_def)

text \<open>The loop of \<^verbatim>\<open>feed\<close>: every complete message is handled.\<close>

function server_loop :: "server_session \<Rightarrow> served" where
  "server_loop s =
     (case next_message (lk_decoder (sv_link s)) of
        (Inl e, d) \<Rightarrow> (Inl (ChunkFault e), with_decoder d s)
      | (Inr None, d) \<Rightarrow> (Inr [], with_decoder d s)
      | (Inr (Some m), d) \<Rightarrow>
          (case server_handle m (with_decoder d s) of
             (Inl e, s1) \<Rightarrow> (Inl e, s1)
           | (Inr evs, s1) \<Rightarrow>
               (case server_loop s1 of
                  (Inl e, s2) \<Rightarrow> (Inl e, s2)
                | (Inr evs', s2) \<Rightarrow> (Inr (evs @ evs'), s2))))"
  by pat_completeness auto
termination
  by (relation "measure (length \<circ> pending_of)")
    (auto dest!: next_message_shrinks [OF sym] server_handle_buf [OF sym] simp: pending_of_def)

declare server_loop.simps [simp del]

definition server_feed :: "bytes \<Rightarrow> server_session \<Rightarrow> served" where
  "server_feed data s =
     server_loop (on_link (\<lambda>l. (received (length data) l)
       \<lparr>lk_decoder := push_bytes data (lk_decoder l)\<rparr>) s)"

definition server_take_output :: "server_session \<Rightarrow> bytes \<times> server_session" where
  "server_take_output s =
     (let (out, l) = take_output (sv_link s) in (out, s\<lparr>sv_link := l\<rparr>))"

end
