(* ===== verification/Server_Protocol.thy ===== *)
theory Server_Protocol
  imports Server_Session Chunk_Invariant
begin

text \<open>
  What the server side of a session promises: the events it reports and the answers it is
  given follow one small automaton, whatever the encoder sends and however it arrives; and
  until its publishing is accepted, a peer can make it hold only small messages.
\<close>

section \<open>The specification\<close>

datatype phase = Fresh | Joined | Asked | OnAir | Over

datatype item = Ev server_event | Accept | Reject

fun protocol :: "phase \<Rightarrow> item \<Rightarrow> phase option" where
  "protocol Fresh (Ev (Connect _ _ _)) = Some Joined"
| "protocol Joined (Ev (PublishRequest _ _)) = Some Asked"
| "protocol OnAir (Ev (Media _ _ _)) = Some OnAir"
| "protocol OnAir (Ev (Metadata _ _)) = Some OnAir"
| "protocol OnAir (Ev (Data _ _)) = Some OnAir"
| "protocol Asked (Ev Unpublish) = Some Over"
| "protocol OnAir (Ev Unpublish) = Some Over"
| "protocol Asked Accept = Some OnAir"
| "protocol p Accept = Some p"
| "protocol p Reject = Some Over"
| "protocol _ _ = None"

fun phase_of :: "session_state \<Rightarrow> phase" where
  "phase_of AwaitConnect = Fresh"
| "phase_of Connected = Joined"
| "phase_of PublishPending = Asked"
| "phase_of Publishing = OnAir"
| "phase_of Closed = Over"

text \<open>The calls of an application. One that fails ends the session.\<close>

inductive server_call :: "server_session \<Rightarrow> item list \<Rightarrow> server_session \<Rightarrow> bool" where
  feed: "server_feed data s = (Inr evs, s') \<Longrightarrow> server_call s (map Ev evs) s'"
| accept: "server_call s [Accept] (accept_publish s)"
| reject: "server_call s [Reject] (reject_publish code description s)"
| sent: "server_call s [] (snd (server_take_output s))"

inductive_cases server_callE: "server_call s is s'"

section \<open>The session follows it\<close>

abbreviation follows :: "server_session \<Rightarrow> server_event list \<Rightarrow> server_session \<Rightarrow> bool" where
  "follows s evs s' \<equiv>
     spec_run protocol (phase_of (sv_state s)) (map Ev evs) = Some (phase_of (sv_state s'))"

lemma server_command_follows: "server_command p s = (Inr evs, s') \<Longrightarrow> follows s evs s'"
  by (auto simp: server_command_def cmd_connect_def cmd_release_def cmd_publish_def
      cmd_unpublish_def Let_def split: sum.splits if_splits session_state.splits)

lemma server_data_follows:
  "server_data m s = (Inr evs, s') \<Longrightarrow> sv_state s = Publishing \<Longrightarrow> follows s evs s'"
  by (auto simp: server_data_def split: sum.splits if_splits option.splits prod.splits)

lemma server_handle_follows:
  assumes "server_handle m s = (Inr evs, s')"
  shows "follows s evs s'"
proof -
  obtain q l where q: "handle_control m (sv_link s) = (q, l)" by (rule prod.exhaust)
  show ?thesis
    using assms q
    by (auto simp: server_handle_def server_media_def Let_def split: sum.splits bool.splits if_splits
        dest: server_command_follows server_data_follows)
qed

lemma server_loop_follows: "server_loop s = (Inr evs, s') \<Longrightarrow> follows s evs s'"
proof (induction s arbitrary: evs s' rule: server_loop.induct)
  case (1 s)
  obtain q d where n: "next_message (lk_decoder (sv_link s)) = (q, d)" by (rule prod.exhaust)
  show ?case
  proof (cases q)
    case (Inr got)
    show ?thesis
    proof (cases got)
      case (Some m)
      obtain r s1 where h: "server_handle m (with_decoder d s) = (r, s1)" by (rule prod.exhaust)
      obtain r2 s2 where l: "server_loop s1 = (r2, s2)" by (rule prod.exhaust)
      from "1.prems" n Inr Some h l obtain evs1 evs2
        where r: "r = Inr evs1" "r2 = Inr evs2" "evs = evs1 @ evs2" "s' = s2"
        by (auto simp: server_loop.simps [of s] split: sum.splits)
      from server_handle_follows [of m "with_decoder d s" evs1 s1] h r
      have "follows s evs1 s1" by simp
      moreover have "follows s1 evs2 s2"
        using "1.IH" [of q d got m r s1 evs1 evs2 s2] n Inr Some h l r by simp
      ultimately show ?thesis using r by (simp add: spec_run_append)
    qed (use "1.prems" n Inr in \<open>auto simp: server_loop.simps [of s]\<close>)
  qed (use "1.prems" n in \<open>simp add: server_loop.simps [of s]\<close>)
qed

interpretation server_session: automaton_refinement protocol "phase_of \<circ> sv_state" server_call
proof unfold_locales
  show "spec_run protocol ((phase_of \<circ> sv_state) s) is = Some ((phase_of \<circ> sv_state) t)"
    if "server_call s is t" for s "is" t
    using that
  proof cases
    case (feed data evs)
    from server_loop_follows [OF feed(2) [unfolded server_feed_def]] feed(1) show ?thesis by simp
  next
    case accept
    then show ?thesis
      by (cases "sv_state s") (simp_all add: accept_publish_def Let_def)
  next
    case (reject code description)
    then show ?thesis by (cases "sv_state s") (simp_all add: reject_publish_def)
  next
    case sent
    then show ?thesis by (simp add: server_take_output_def take_output_def)
  qed
qed

lemma new_session_state [simp]: "sv_state (new_server_session config) = AwaitConnect"
  by (simp add: new_server_session_def Let_def)

text \<open>
  C30. The server session refines its protocol: whatever bytes the encoder sends, in whatever
  pieces, and whenever the application accepts or rejects, the events come in an order the
  automaton allows (connect once, then one publish request, then media only from its
  acceptance to its end), and the session's state is the automaton's.
\<close>

theorem server_session_refines:
  assumes "trace_steps server_call (new_server_session config) items s"
  shows "spec_run protocol Fresh items = Some (phase_of (sv_state s))"
  using server_session.trace_refines [OF assms] by simp

theorem server_session_refines_witness:
  "spec_run protocol Fresh [Accept, Reject] = Some Over"
proof -
  let ?s = "new_server_session default_server_config"
  have "trace_steps server_call ?s ([] @ [Accept]) (accept_publish ?s)"
    by (rule trace_steps.snoc) (rule trace_steps.none server_call.accept)+
  then have "trace_steps server_call ?s (([] @ [Accept]) @ [Reject]) (reject_publish [] [] (accept_publish ?s))"
    by (rule trace_steps.snoc) (rule server_call.reject)
  from server_session_refines [OF this] show ?thesis by (simp add: reject_publish_def)
qed

section \<open>Only what was accepted is reported\<close>

definition is_content :: "item \<Rightarrow> bool" where
  "is_content i \<longleftrightarrow> (case i of Ev (Media _ _ _) \<Rightarrow> True | Ev (Metadata _ _) \<Rightarrow> True
     | Ev (Data _ _) \<Rightarrow> True | _ \<Rightarrow> False)"

lemma protocol_content: "protocol p i = Some q \<Longrightarrow> is_content i \<Longrightarrow> p = OnAir"
  by (cases "(p, i)" rule: protocol.cases) (auto simp: is_content_def)

lemma protocol_on_air: "protocol p i = Some OnAir \<Longrightarrow> p = OnAir \<or> (p = Asked \<and> i = Accept)"
  by (cases "(p, i)" rule: protocol.cases) auto

lemma protocol_asked:
  "protocol p i = Some Asked \<Longrightarrow> p = Asked \<or> (p = Joined \<and> (\<exists>app key. i = Ev (PublishRequest app key)))"
  by (cases "(p, i)" rule: protocol.cases) auto

lemma run_asked:
  "spec_run protocol Fresh is = Some Asked \<Longrightarrow> \<exists>app key. Ev (PublishRequest app key) \<in> set is"
proof (induction "is" rule: rev_induct)
  case (snoc i "is")
  then obtain p where "spec_run protocol Fresh is = Some p" "protocol p i = Some Asked"
    by (auto simp: spec_run_append split: option.splits)
  with snoc.IH protocol_asked [of p i] show ?case by auto
qed simp

lemma run_on_air:
  "spec_run protocol Fresh is = Some OnAir \<Longrightarrow>
     \<exists>before after app key. is = before @ Accept # after \<and> Ev (PublishRequest app key) \<in> set before"
proof (induction "is" rule: rev_induct)
  case (snoc i "is")
  then obtain p where p: "spec_run protocol Fresh is = Some p" "protocol p i = Some OnAir"
    by (auto simp: spec_run_append split: option.splits)
  from protocol_on_air [OF p(2)] show ?case
  proof
    assume "p = OnAir"
    with p(1) snoc.IH show ?thesis by (metis append.assoc append_Cons)
  next
    assume "p = Asked \<and> i = Accept"
    with p(1) run_asked [of "is"] show ?thesis by auto
  qed
qed simp

text \<open>
  Nothing airs unasked: media, metadata or other data of an encoder is reported only
  after the application accepted a publish request the session had reported.
\<close>

theorem content_only_after_accept:
  assumes "trace_steps server_call (new_server_session config) (before @ i # after) s"
    and "is_content i"
  shows "\<exists>b1 b2 app key. before = b1 @ Accept # b2 \<and> Ev (PublishRequest app key) \<in> set b1"
proof -
  have "spec_run protocol Fresh (before @ i # after) \<noteq> None"
    using server_session.trace_refines [OF assms(1)] by simp
  then obtain p q where "spec_run protocol Fresh before = Some p" "protocol p i = Some q"
    by (auto simp: spec_run_append split: option.splits)
  with protocol_content [OF this(2) assms(2)] run_on_air [of before] show ?thesis by auto
qed

end
