(* ===== verification/Server_Memory.thy ===== *)
theory Server_Memory
  imports Server_Protocol
begin

text \<open>
  What a peer that has not been accepted can make the server hold: messages of at most
  \<^verbatim>\<open>MAX_PRE_PUBLISH_MESSAGE\<close> bytes on at most 64 chunk streams.
\<close>

section \<open>A limit on both kinds of messages limits what is unfinished\<close>

definition limited :: "nat \<Rightarrow> chunk_decoder \<Rightarrow> bool" where
  "limited n d \<longleftrightarrow> chunk_ok d \<and> cd_max_media d = Some n \<and> cd_max_other d = Some n \<and>
     (\<forall>(k, s) \<in> set (cd_streams d). ss_in_progress s \<longrightarrow> ss_length s \<le> n)"

lemma set_update_all:
  "\<forall>(k, s) \<in> set ss. P s \<Longrightarrow> P s' \<Longrightarrow> \<forall>(k, s) \<in> set (AList.update k' s' ss). P s"
  by (induction ss) (auto split: if_splits)

lemma limited_stream: "limited n d \<Longrightarrow> ss_in_progress (stream_of d k) \<Longrightarrow> ss_length (stream_of d k) \<le> n"
  by (auto simp: limited_def stream_of_def default_stream_def dest!: map_of_SomeD split: option.splits)

lemma read_chunk_limited:
  assumes "read_chunk d b = Got h" and "limited n d" and "\<not> h_continuation h"
  shows "h_length h \<le> n"
proof -
  from assms(1) obtain fmt csid pos m where r: "read_body d b fmt csid m pos = Got h"
    by (elim read_chunk_GotE)
  let ?st = "stream_of d csid"
  from r have "h_continuation h = (fmt = 3 \<and> ss_in_progress ?st)"
    and len: "h_length h = (if fmt \<le> 1 then u24 (drop 3 m) else ss_length ?st)"
    by (elim read_body_GotE, simp)+
  with r assms(3) have "within_limit d (if fmt \<le> 1 then m ! 6 else ss_type_id ?st) (h_length h) = Got ()"
    unfolding read_body_def Let_def by (auto elim!: then_try_GotE)
  with assms(2) show ?thesis
    by (auto simp: within_limit_def limited_def not_less split: if_splits)
qed

lemma commit_limited:
  assumes d: "limited n d" and r: "read_chunk d b = Got h" and c: "commit d h = (res, d')"
  shows "limited n d'"
proof -
  let ?st = "stream_of d (h_csid h)"
  have ok: "chunk_ok d'" using d c r by (auto simp: limited_def intro: commit_ok)
  have all: "\<forall>(k, s) \<in> set (cd_streams d). ss_in_progress s \<longrightarrow> ss_length s \<le> n"
    using d by (simp add: limited_def)
  have "ss_length (if h_continuation h then ?st else start_message h ?st) \<le> n"
    using read_chunk_limited [OF r d] limited_stream [OF d] read_chunk_room(3) [OF r] by auto
  then have "\<forall>(k, s) \<in> set (cd_streams d'). ss_in_progress s \<longrightarrow> ss_length s \<le> n"
    using c unfolding commit_def Let_def
    by (auto split: if_splits intro!: set_update_all [OF all, rule_format, THEN case_prodD]
        dest!: bspec [OF set_update_all [OF all], rotated])
  with ok d c show ?thesis
    by (auto simp: limited_def commit_def Let_def split: if_splits)
qed

lemma next_chunk_limited: "limited n d \<Longrightarrow> next_chunk d = (r, d') \<Longrightarrow> limited n d'"
  using commit_limited by (auto simp: next_chunk_def Let_def split: attempt.splits prod.splits)

lemma next_message_limited: "limited n d \<Longrightarrow> next_message d = (r, d') \<Longrightarrow> limited n d'"
proof (induction d arbitrary: r d' rule: next_message.induct)
  case (1 d)
  obtain x d1 where c: "next_chunk d = (x, d1)" by (rule prod.exhaust)
  note ok = next_chunk_limited [OF "1.prems"(1) c]
  from "1.prems"(2) c ok "1.IH" [OF c [symmetric]] show ?case
    by (auto simp: next_message.simps [of d] split: sum.splits chunk_result.splits)
qed

lemma push_limited: "limited n d \<Longrightarrow> limited n (push_bytes x d)"
  by (simp add: limited_def push_bytes_def)

lemma abort_limited:
  assumes "limited n d"
  shows "limited n (abort_message csid d)"
proof (cases "map_of (cd_streams d) csid")
  case (Some s)
  have "\<forall>(k, s) \<in> set (AList.update csid (s\<lparr>ss_partial := [], ss_in_progress := False\<rparr>) (cd_streams d)).
      ss_in_progress s \<longrightarrow> ss_length s \<le> n"
    by (rule set_update_all) (use assms in \<open>simp_all add: limited_def\<close>)
  with Some assms abort_ok [of d csid] show ?thesis by (simp add: limited_def abort_message_def)
qed (use assms in \<open>simp add: abort_message_def\<close>)

lemma set_chunk_size_limited: "limited n d \<Longrightarrow> limited n (snd (set_chunk_size k d))"
  using set_chunk_size_ok [of d k] by (auto simp: limited_def set_chunk_size_def)

lemma handle_control_limited:
  "handle_control m l = (r, l') \<Longrightarrow> limited n (lk_decoder l) \<Longrightarrow> limited n (lk_decoder l')"
  using handle_control_decoder [of m l r l'] by (auto simp: abort_limited set_chunk_size_limited)

section \<open>The session before its publish is accepted\<close>

abbreviation session_limited :: "nat \<Rightarrow> server_session \<Rightarrow> bool" where
  "session_limited n s \<equiv> limited n (lk_decoder (sv_link s))"

lemma server_handle_limited:
  assumes "server_handle m s = (r, s')" and "session_limited n s"
  shows "session_limited n s'"
proof -
  obtain q l where "handle_control m (sv_link s) = (q, l)" by (rule prod.exhaust)
  with handle_control_limited [OF this assms(2)] server_handle_decoder [OF assms(1)] show ?thesis
    by simp
qed

lemma server_loop_limited: "server_loop s = (r, s') \<Longrightarrow> session_limited n s \<Longrightarrow> session_limited n s'"
proof (induction s arbitrary: r s' rule: server_loop.induct)
  case (1 s)
  obtain q d where q: "next_message (lk_decoder (sv_link s)) = (q, d)" by (rule prod.exhaust)
  note d = next_message_limited [OF "1.prems"(2) q]
  show ?case
  proof (cases "\<exists>m. q = Inr (Some m)")
    case True
    then obtain m where m: "q = Inr (Some m)" by blast
    obtain r1 s1 where h: "server_handle m (with_decoder d s) = (r1, s1)" by (rule prod.exhaust)
    have s1: "session_limited n s1" by (rule server_handle_limited [OF h]) (simp add: d)
    obtain r2 s2 where l: "server_loop s1 = (r2, s2)" by (rule prod.exhaust)
    show ?thesis
    proof (cases r1)
      case (Inr evs)
      then have "session_limited n s2" using "1.IH" [of q d "Some m" m r1 s1 evs r2 s2] q m h l s1 by simp
      with "1.prems"(1) q m h l Inr show ?thesis
        by (auto simp: server_loop.simps [of s] split: sum.splits)
    qed (use "1.prems"(1) q m h s1 in \<open>auto simp: server_loop.simps [of s]\<close>)
  next
    case False
    with "1.prems"(1) q d show ?thesis
      by (auto simp: server_loop.simps [of s] split: sum.splits option.splits)
  qed
qed

lemma server_call_limited:
  assumes "server_call s items s'" and "Accept \<notin> set items" and "session_limited n s"
  shows "session_limited n s'"
  using assms(1)
proof cases
  case (feed data evs)
  from feed(2) [unfolded server_feed_def] show ?thesis
    by (rule server_loop_limited) (use assms(3) in \<open>simp add: push_limited\<close>)
qed (use assms(2,3) in \<open>auto simp: reject_publish_def server_take_output_def take_output_def\<close>)

lemma new_session_limited: "session_limited MAX_PRE_PUBLISH_MESSAGE (new_server_session config)"
proof -
  have "chunk_ok (set_max_message_len (Some n) (Some n) new_decoder)" for n
    using new_decoder_ok by (simp add: set_max_message_len_def)
  then show ?thesis
    by (simp add: new_server_session_def new_link_def limited_def set_max_message_len_def
        new_decoder_def Let_def)
qed

text \<open>
  Before anyone is let in, little is held: until the application accepts the publish, the
  decoder of a session keeps at most 64 unfinished messages, each shorter than 64 KiB,
  whatever the peer sends (and declares the length of).
\<close>

theorem little_held_before_accept:
  assumes "trace_steps server_call (new_server_session config) items s" and "Accept \<notin> set items"
  shows "length (cd_streams (lk_decoder (sv_link s))) \<le> 64 \<and>
    (\<forall>(k, st) \<in> set (cd_streams (lk_decoder (sv_link s))). length (ss_partial st) < 64 * 1024)"
proof -
  have "session_limited MAX_PRE_PUBLISH_MESSAGE s"
    using assms
  proof (induction "new_server_session config" items s rule: trace_steps.induct)
    case none
    show ?case by (rule new_session_limited)
  next
    case (snoc items' t js u)
    then show ?case using server_call_limited [of t js u] by auto
  qed
  then have ok: "chunk_ok (lk_decoder (sv_link s))"
    and len: "\<forall>(k, st) \<in> set (cd_streams (lk_decoder (sv_link s))).
      ss_in_progress st \<longrightarrow> ss_length st \<le> MAX_PRE_PUBLISH_MESSAGE"
    by (simp_all add: limited_def)
  from ok have "\<forall>(k, st) \<in> set (cd_streams (lk_decoder (sv_link s))). stream_ok st"
    by (simp add: chunk_ok_def)
  with len have "\<forall>(k, st) \<in> set (cd_streams (lk_decoder (sv_link s))). length (ss_partial st) < 64 * 1024"
    by (force simp: stream_ok_def MAX_PRE_PUBLISH_MESSAGE_def split: if_splits)
  with ok show ?thesis by (simp add: chunk_ok_def MAX_CHUNK_STREAMS_def)
qed

theorem little_held_before_accept_witness:
  "length (cd_streams (lk_decoder (sv_link (reject_publish [] [] (new_server_session default_server_config))))) \<le> 64"
proof -
  let ?s = "new_server_session default_server_config"
  have "trace_steps server_call ?s ([] @ [Reject]) (reject_publish [] [] ?s)"
    by (rule trace_steps.snoc) (rule trace_steps.none server_call.reject)+
  from little_held_before_accept [OF this] show ?thesis by simp
qed

end
