(* ===== verification/Client_Session.thy ===== *)
theory Client_Session
  imports Link
begin

text \<open>
  The client side of a publish session, what talks to the destination
  (\<^verbatim>\<open>crates/rtmp/src/session/client.rs\<close>). A 64-bit float is its bit pattern (\<open>Amf0\<close>).
\<close>

record client_config =
  cc_app :: bytes
  cc_tc_url :: bytes
  cc_stream_key :: bytes
  cc_extra_props :: "(bytes \<times> amf0) list"
  cc_chunk_size :: u32
  cc_flash_ver :: bytes

definition new_client_config :: "bytes \<Rightarrow> bytes \<Rightarrow> bytes \<Rightarrow> client_config" where
  "new_client_config app tc_url key =
     \<lparr>cc_app = app, cc_tc_url = tc_url, cc_stream_key = key, cc_extra_props = [],
      cc_chunk_size = 4096, cc_flash_ver = ascii ''FMLE/3.0 (compatible; FMSc/1.0)''\<rparr>"

datatype client_event = Published | Error bytes bytes

datatype client_state = Connecting | CreatingStream | PublishPending | Publishing | Failed | Closed

record client_session =
  cl_link :: link
  cl_config :: client_config
  cl_state :: client_state
  cl_stream_id :: u32

type_synonym handled = "(session_error + client_event list) \<times> client_session"

definition MAX_SERVER_MESSAGE :: nat where "MAX_SERVER_MESSAGE = 128 * 1024"

text \<open>The transaction ids, the floats 1.0 to 5.0, and the other floats the commands use.\<close>

definition TX_CONNECT :: u64 where "TX_CONNECT = 0x3FF0000000000000"
definition TX_RELEASE :: u64 where "TX_RELEASE = 0x4000000000000000"
definition TX_FCPUBLISH :: u64 where "TX_FCPUBLISH = 0x4008000000000000"
definition TX_CREATE :: u64 where "TX_CREATE = 0x4010000000000000"
definition TX_PUBLISH :: u64 where "TX_PUBLISH = 0x4014000000000000"
definition F0 :: u64 where "F0 = 0"
definition F1 :: u64 where "F1 = 0x3FF0000000000000"
definition F6 :: u64 where "F6 = 0x4018000000000000"
definition F7 :: u64 where "F7 = 0x401C000000000000"

text \<open>
  A float that is a stream id: finite, without a fraction, and from 1 to \<^verbatim>\<open>u32::MAX\<close>. Its
  sign is bit 63, its biased exponent the next 11, its mantissa the rest below an implicit 1.
\<close>

definition f64_sign :: "u64 \<Rightarrow> nat" where "f64_sign b = unat b div 2 ^ 63"
definition f64_exp :: "u64 \<Rightarrow> nat" where "f64_exp b = unat b div 2 ^ 52 mod 2 ^ 11"
definition f64_mantissa :: "u64 \<Rightarrow> nat" where "f64_mantissa b = 2 ^ 52 + unat b mod 2 ^ 52"

definition f64_stream_id :: "u64 \<Rightarrow> u32 option" where
  "f64_stream_id b =
     (let e = f64_exp b; unit = 2 ^ (52 - (e - 1023)) in
      if f64_sign b = 0 \<and> 1023 \<le> e \<and> e \<le> 1023 + 31 \<and> f64_mantissa b mod unit = 0
      then Some (of_nat (f64_mantissa b div unit)) else None)"

text \<open>\<^verbatim>\<open>id as f64\<close> of an unsigned 32-bit integer, which is exact.\<close>

fun log2 :: "nat \<Rightarrow> nat" where
  "log2 n = (if n < 2 then 0 else Suc (log2 (n div 2)))"

declare log2.simps [simp del]

definition f64_of_u32 :: "u32 \<Rightarrow> u64" where
  "f64_of_u32 v =
     (let n = unat v; k = log2 n in
      if n = 0 then 0 else of_nat ((1023 + k) * 2 ^ 52 + (n - 2 ^ k) * 2 ^ (52 - k)))"

definition client_on_link :: "(link \<Rightarrow> link) \<Rightarrow> client_session \<Rightarrow> client_session" where
  "client_on_link f c = c\<lparr>cl_link := f (cl_link c)\<rparr>"

definition client_command :: "nat \<Rightarrow> u32 \<Rightarrow> amf0 list \<Rightarrow> client_session \<Rightarrow> client_session" where
  "client_command csid stream_id vs = client_on_link (emit (\<lambda>cs. write_command cs csid stream_id vs))"

text \<open>The properties of \<^verbatim>\<open>connect\<close>: ours, then the extra ones we do not set ourselves.\<close>

fun add_extra :: "(bytes \<times> amf0) list \<Rightarrow> (bytes \<times> amf0) list \<Rightarrow> (bytes \<times> amf0) list" where
  "add_extra props [] = props"
| "add_extra props ((k, v) # extra) =
     add_extra (if \<exists>pk \<in> set (map fst props). pk = k then props else props @ [(k, v)]) extra"

definition connect_props :: "client_config \<Rightarrow> (bytes \<times> amf0) list" where
  "connect_props c = add_extra
     [(ascii ''app'', String (cc_app c)), (ascii ''type'', String (ascii ''nonprivate'')),
      (ascii ''flashVer'', String (cc_flash_ver c)), (ascii ''swfUrl'', String (cc_tc_url c)),
      (ascii ''tcUrl'', String (cc_tc_url c))] (cc_extra_props c)"

definition new_client_session :: "client_config \<Rightarrow> client_session" where
  "new_client_session config =
     (let l = new_link 2500000;
          l1 = l\<lparr>lk_decoder := set_max_message_len (Some MAX_SERVER_MESSAGE)
                 (Some MAX_SERVER_MESSAGE) (lk_decoder l)\<rparr>;
          c = \<lparr>cl_link = set_out_chunk_size (cc_chunk_size config) l1, cl_config = config,
               cl_state = Connecting, cl_stream_id = 0\<rparr>
      in client_command CSID_COMMAND 0
           [String (ascii ''connect''), Number TX_CONNECT, Object (connect_props config)] c)"

definition send_media :: "media_kind \<Rightarrow> u32 \<Rightarrow> bytes \<Rightarrow> client_session \<Rightarrow> client_session" where
  "send_media kind ts payload c =
     (if cl_state c \<noteq> Publishing then c
      else let (csid, ty) = (case kind of AudioKind \<Rightarrow> (CSID_AUDIO, AUDIO) | VideoKind \<Rightarrow> (CSID_VIDEO, VIDEO))
           in client_on_link (emit (\<lambda>cs. write_msg cs csid ts ty (cl_stream_id c) payload)) c)"

definition send_data :: "u32 \<Rightarrow> bytes \<Rightarrow> client_session \<Rightarrow> client_session" where
  "send_data ts payload c =
     (if cl_state c \<noteq> Publishing then c
      else client_on_link (emit (\<lambda>cs. write_msg cs CSID_DATA ts DATA_AMF0 (cl_stream_id c) payload)) c)"

definition client_close :: "client_session \<Rightarrow> client_session" where
  "client_close c =
     (if cl_state c = Closed \<or> cl_state c = Failed then c
      else let c1 = (if cl_stream_id c \<noteq> 0
                     then client_command CSID_COMMAND 0
                       [String (ascii ''deleteStream''), Number F7, Null,
                        Number (f64_of_u32 (cl_stream_id c))]
                       (client_command CSID_COMMAND 0
                         [String (ascii ''FCUnpublish''), Number F6, Null,
                          String (cc_stream_key (cl_config c))] c)
                     else c)
           in c1\<lparr>cl_state := Closed\<rparr>)"

definition client_fail :: "bytes \<Rightarrow> bytes \<Rightarrow> client_session \<Rightarrow> handled" where
  "client_fail code description c = (Inr [Error code description], c\<lparr>cl_state := Failed\<rparr>)"

section \<open>Commands\<close>

definition text_at :: "amf0 list \<Rightarrow> nat \<Rightarrow> bytes" where
  "text_at vs i = (case Option.bind (get_opt vs i) as_str of None \<Rightarrow> [] | Some s \<Rightarrow> s)"

definition number_at :: "amf0 list \<Rightarrow> nat \<Rightarrow> u64 \<Rightarrow> u64" where
  "number_at vs i dflt = (case Option.bind (get_opt vs i) as_number of None \<Rightarrow> dflt | Some n \<Rightarrow> n)"

definition info_text :: "amf0 list \<Rightarrow> string \<Rightarrow> bytes option" where
  "info_text vs key = Option.bind (Option.bind (get_opt vs 3) (get_prop (ascii key))) as_str"

definition or_empty :: "bytes option \<Rightarrow> bytes" where
  "or_empty s = (case s of None \<Rightarrow> [] | Some b \<Rightarrow> b)"

definition connect_result :: "bytes \<Rightarrow> bytes \<Rightarrow> client_session \<Rightarrow> handled" where
  "connect_result code desc c =
     (if code \<noteq> [] \<and> code \<noteq> ascii ''NetConnection.Connect.Success'' then client_fail code desc c
      else let key = String (cc_stream_key (cl_config c));
               c1 = client_command CSID_COMMAND 0
                 [String (ascii ''releaseStream''), Number TX_RELEASE, Null, key] c;
               c2 = client_command CSID_COMMAND 0
                 [String (ascii ''FCPublish''), Number TX_FCPUBLISH, Null, key] c1;
               c3 = client_command CSID_COMMAND 0
                 [String (ascii ''createStream''), Number TX_CREATE, Null] c2
           in (Inr [], c3\<lparr>cl_state := CreatingStream\<rparr>))"

text \<open>The source's message also shows the float it was given.\<close>

definition create_result :: "amf0 list \<Rightarrow> client_session \<Rightarrow> handled" where
  "create_result vs c =
     (case f64_stream_id (number_at vs 3 F1) of
        None \<Rightarrow> (Inl (Protocol ''the server gave an invalid stream id''), c)
      | Some sid \<Rightarrow>
          (let c1 = c\<lparr>cl_stream_id := sid\<rparr>;
               c2 = client_command CSID_STREAM_COMMAND sid
                 [String (ascii ''publish''), Number TX_PUBLISH, Null,
                  String (cc_stream_key (cl_config c)), String (ascii ''live'')] c1
           in (Inr [], c2\<lparr>cl_state := PublishPending\<rparr>)))"

definition on_status :: "amf0 list \<Rightarrow> bytes \<Rightarrow> bytes \<Rightarrow> client_session \<Rightarrow> handled" where
  "on_status vs code desc c =
     (if code = ascii ''NetStream.Publish.Start'' \<and> cl_state c = PublishPending
      then (Inr [Published], c\<lparr>cl_state := Publishing\<rparr>)
      else if info_text vs ''level'' = Some (ascii ''error'') then client_fail code desc c
      else (Inr [], c))"

definition client_values :: "amf0 list \<Rightarrow> client_session \<Rightarrow> handled" where
  "client_values vs c =
     (let name = text_at vs 0; txid = number_at vs 1 F0;
          code = or_empty (info_text vs ''code''); desc = or_empty (info_text vs ''description'') in
      if name = ascii ''_result'' \<and> txid = TX_CONNECT \<and> cl_state c = Connecting
      then connect_result code desc c
      else if name = ascii ''_result'' \<and> txid = TX_CREATE \<and> cl_state c = CreatingStream
      then create_result vs c
      else if name = ascii ''_error'' \<and> (txid = TX_CONNECT \<or> txid = TX_CREATE \<or> txid = TX_PUBLISH)
      then client_fail (if code = [] then ascii ''NetConnection.Error'' else code) desc c
      else if name = ascii ''onStatus'' then on_status vs code desc c
      else if name = ascii ''close''
      then client_fail (ascii ''NetConnection.Close'') (ascii ''server closed the connection'') c
      else (Inr [], c))"

definition client_handle :: "message \<Rightarrow> client_session \<Rightarrow> handled" where
  "client_handle m c0 =
     (case handle_control m (cl_link c0) of
        (Inl e, l) \<Rightarrow> (Inl e, c0\<lparr>cl_link := l\<rparr>)
      | (Inr True, l) \<Rightarrow> (Inr [], c0\<lparr>cl_link := l\<rparr>)
      | (Inr False, l) \<Rightarrow>
          (let c = c0\<lparr>cl_link := l\<rparr> in
           case (if m_type_id m = COMMAND_AMF0 then Some (m_payload m)
                 else if m_type_id m = COMMAND_AMF3 then Some (drop 1 (m_payload m)) else None) of
             None \<Rightarrow> (Inr [], c)
           | Some body \<Rightarrow>
               (case decode_all body of
                  Inl e \<Rightarrow> (Inl (Amf0Fault e), c)
                | Inr vs \<Rightarrow> client_values vs c)))"

definition client_pending :: "client_session \<Rightarrow> bytes" where
  "client_pending c = cd_buf (lk_decoder (cl_link c))"

lemma client_on_link_fields [simp]:
  "cl_link (client_on_link f c) = f (cl_link c)" "cl_state (client_on_link f c) = cl_state c"
  "cl_config (client_on_link f c) = cl_config c" "cl_stream_id (client_on_link f c) = cl_stream_id c"
  by (simp_all add: client_on_link_def)

lemma client_command_fields [simp]:
  "lk_decoder (cl_link (client_command i n vs c)) = lk_decoder (cl_link c)"
  "cl_state (client_command i n vs c) = cl_state c"
  "cl_config (client_command i n vs c) = cl_config c"
  "cl_stream_id (client_command i n vs c) = cl_stream_id c"
  by (simp_all add: client_command_def)

lemma client_values_decoder:
  "client_values vs c = (r, c') \<Longrightarrow> lk_decoder (cl_link c') = lk_decoder (cl_link c)"
  by (auto simp: client_values_def connect_result_def create_result_def on_status_def
      client_fail_def Let_def split: if_splits option.splits)

lemma client_handle_buf:
  assumes "client_handle m c = (r, c')"
  shows "client_pending c' = client_pending c"
proof -
  obtain q l where q: "handle_control m (cl_link c) = (q, l)" by (rule prod.exhaust)
  show ?thesis
    using assms q handle_control_buf(1) [OF q]
    by (auto simp: client_handle_def client_pending_def Let_def
        split: sum.splits bool.splits if_splits option.splits dest!: client_values_decoder)
qed

definition client_with_decoder :: "chunk_decoder \<Rightarrow> client_session \<Rightarrow> client_session" where
  "client_with_decoder d = client_on_link (\<lambda>l. l\<lparr>lk_decoder := d\<rparr>)"

lemma client_with_decoder_fields [simp]:
  "lk_decoder (cl_link (client_with_decoder d c)) = d"
  "cl_state (client_with_decoder d c) = cl_state c" "client_pending (client_with_decoder d c) = cd_buf d"
  by (simp_all add: client_with_decoder_def client_pending_def)

function client_loop :: "client_session \<Rightarrow> handled" where
  "client_loop c =
     (case next_message (lk_decoder (cl_link c)) of
        (Inl e, d) \<Rightarrow> (Inl (ChunkFault e), client_with_decoder d c)
      | (Inr None, d) \<Rightarrow> (Inr [], client_with_decoder d c)
      | (Inr (Some m), d) \<Rightarrow>
          (case client_handle m (client_with_decoder d c) of
             (Inl e, c1) \<Rightarrow> (Inl e, c1)
           | (Inr evs, c1) \<Rightarrow>
               (case client_loop c1 of
                  (Inl e, c2) \<Rightarrow> (Inl e, c2)
                | (Inr evs', c2) \<Rightarrow> (Inr (evs @ evs'), c2))))"
  by pat_completeness auto
termination
  by (relation "measure (length \<circ> client_pending)")
    (auto dest!: next_message_shrinks [OF sym] client_handle_buf [OF sym] simp: client_pending_def)

declare client_loop.simps [simp del]

definition client_feed :: "bytes \<Rightarrow> client_session \<Rightarrow> handled" where
  "client_feed data c =
     client_loop (client_on_link (\<lambda>l. (received (length data) l)
       \<lparr>lk_decoder := push_bytes data (lk_decoder l)\<rparr>) c)"

definition client_take_output :: "client_session \<Rightarrow> bytes \<times> client_session" where
  "client_take_output c =
     (let (out, l) = take_output (cl_link c) in (out, c\<lparr>cl_link := l\<rparr>))"

end
