(* ===== verification/Session_Media.thy ===== *)
theory Session_Media
  imports Server_Protocol Client_Session Chunk_Roundtrip Amf0_Codec
begin

text \<open>
  The two ends together: what a publishing client session sends arrives as events at a
  publishing server session. Between messages the server's decoder holds nothing
  unfinished (\<open>quiet\<close>).
\<close>

section \<open>A server that is sent whole messages\<close>

definition quiet :: "server_session \<Rightarrow> bool" where
  "quiet s \<longleftrightarrow> idle_but None (lk_decoder (sv_link s))"

definition server_room :: "server_session \<Rightarrow> message \<Rightarrow> bool" where
  "server_room s m \<longleftrightarrow> encodable m \<and> accepts (lk_decoder (sv_link s)) m \<and>
     (map_of (cd_streams (lk_decoder (sv_link s))) (m_csid m) \<noteq> None \<or>
      length (cd_streams (lk_decoder (sv_link s))) < MAX_CHUNK_STREAMS)"

lemma server_loop_message:
  assumes "quiet s" and "server_room s m" and "cd_chunk_size (lk_decoder (sv_link s)) = cs"
    and "pending_of s = write_chunks cs m @ t"
  shows "\<exists>d. took m t (lk_decoder (sv_link s)) d \<and>
    server_loop s = (case server_handle m (with_decoder d s) of
        (Inl e, s1) \<Rightarrow> (Inl e, s1)
      | (Inr evs, s1) \<Rightarrow>
          (case server_loop s1 of
             (Inl e, s2) \<Rightarrow> (Inl e, s2)
           | (Inr evs', s2) \<Rightarrow> (Inr (evs @ evs'), s2)))"
proof -
  from assms obtain d where n: "next_message (lk_decoder (sv_link s)) = (Inr (Some m), d)"
    and "took m t (lk_decoder (sv_link s)) d"
    using decode_one_message [of m "lk_decoder (sv_link s)" cs t]
    by (auto simp: quiet_def server_room_def pending_of_def)
  moreover have "server_loop s = (case server_handle m (with_decoder d s) of
        (Inl e, s1) \<Rightarrow> (Inl e, s1)
      | (Inr evs, s1) \<Rightarrow>
          (case server_loop s1 of
             (Inl e, s2) \<Rightarrow> (Inl e, s2)
           | (Inr evs', s2) \<Rightarrow> (Inr (evs @ evs'), s2)))"
    by (simp add: server_loop.simps [of s] n)
  ultimately show ?thesis by blast
qed

lemma server_loop_empty: "pending_of s = [] \<Longrightarrow> server_loop s = (Inr [], with_decoder (lk_decoder (sv_link s)) s)"
  by (simp add: server_loop.simps [of s] next_message.simps next_chunk_def read_chunk_def
      read_basic_def pending_of_def)

text \<open>Media messages of a publishing session.\<close>

definition is_media :: "message \<Rightarrow> bool" where
  "is_media m \<longleftrightarrow> m_type_id m = AUDIO \<or> m_type_id m = VIDEO"

lemma server_handle_media:
  assumes "is_media m" and "sv_state s = session_state.Publishing"
  shows "server_handle m s = (Inr (server_media m), s)"
  using assms by (auto simp: is_media_def server_handle_def handle_control_def message_types Let_def)

lemma took_accepts: "took m t d d' \<Longrightarrow> accepts d' m' = accepts d m'"
  by (simp add: took_def accepts_def within_limit_def)

lemma took_keys: "took m t d d' \<Longrightarrow>
    fst ` set (cd_streams d') = insert (m_csid m) (fst ` set (cd_streams d))"
  by (simp add: took_def)

lemma room_of_keys:
  assumes "idle_but None d" and "finite C" and "card C \<le> MAX_CHUNK_STREAMS"
    and "insert c (fst ` set (cd_streams d)) \<subseteq> C"
  shows "map_of (cd_streams d) c \<noteq> None \<or> length (cd_streams d) < MAX_CHUNK_STREAMS"
proof (rule disjCI)
  assume "\<not> length (cd_streams d) < MAX_CHUNK_STREAMS"
  moreover have "distinct (map fst (cd_streams d))"
    using assms(1) by (simp add: idle_but_def chunk_ok_def)
  then have "card (fst ` set (cd_streams d)) = length (cd_streams d)"
    using distinct_card by fastforce
  ultimately have "fst ` set (cd_streams d) = C"
    using assms(2-4) card_seteq [of C "fst ` set (cd_streams d)"] by auto
  with assms(4) show "map_of (cd_streams d) c \<noteq> None" by (auto simp: map_of_eq_None_iff)
qed

lemma server_loop_media:
  assumes "\<forall>m \<in> set ms. is_media m \<and> encodable m \<and> accepts (lk_decoder (sv_link s)) m"
    and "sv_state s = session_state.Publishing" and "quiet s" and "cd_chunk_size (lk_decoder (sv_link s)) = cs"
    and "pending_of s = concat (map (write_chunks cs) ms)"
    and "finite C" and "card C \<le> MAX_CHUNK_STREAMS"
    and "fst ` set (cd_streams (lk_decoder (sv_link s))) \<union> m_csid ` set ms \<subseteq> C"
  shows "\<exists>s'. server_loop s = (Inr (concat (map server_media ms)), s') \<and> quiet s' \<and>
    sv_state s' = session_state.Publishing \<and> pending_of s' = []"
  using assms
proof (induction ms arbitrary: s)
  case Nil
  then have "server_loop s = (Inr [], with_decoder (lk_decoder (sv_link s)) s)"
    by (simp add: server_loop_empty)
  with Nil show ?case by (auto simp: quiet_def pending_of_def)
next
  case (Cons m ms)
  let ?d = "lk_decoder (sv_link s)" and ?t = "concat (map (write_chunks cs) ms)"
  have "map_of (cd_streams ?d) (m_csid m) \<noteq> None \<or> length (cd_streams ?d) < MAX_CHUNK_STREAMS"
    by (rule room_of_keys [OF _ Cons.prems(6,7)]) (use Cons.prems in \<open>auto simp: quiet_def\<close>)
  then have "server_room s m" using Cons.prems(1) by (simp add: server_room_def)
  from server_loop_message [OF Cons.prems(3) this Cons.prems(4), of ?t] Cons.prems(5)
  obtain d where d: "took m ?t ?d d"
    and l: "server_loop s = (case server_handle m (with_decoder d s) of
        (Inl e, s1) \<Rightarrow> (Inl e, s1)
      | (Inr evs, s1) \<Rightarrow>
          (case server_loop s1 of
             (Inl e, s2) \<Rightarrow> (Inl e, s2)
           | (Inr evs', s2) \<Rightarrow> (Inr (evs @ evs'), s2)))" by auto
  have h: "server_handle m (with_decoder d s) = (Inr (server_media m), with_decoder d s)"
    by (rule server_handle_media) (use Cons.prems in auto)
  have pre: "\<forall>m \<in> set ms. is_media m \<and> encodable m \<and> accepts (lk_decoder (sv_link (with_decoder d s))) m"
    using Cons.prems(1) took_accepts [OF d] by simp
  have sub: "fst ` set (cd_streams (lk_decoder (sv_link (with_decoder d s)))) \<union> m_csid ` set ms \<subseteq> C"
    using Cons.prems(8) took_keys [OF d] by auto
  have "\<exists>s'. server_loop (with_decoder d s) = (Inr (concat (map server_media ms)), s') \<and> quiet s' \<and>
      sv_state s' = session_state.Publishing \<and> pending_of s' = []"
    by (rule Cons.IH [OF pre _ _ _ _ Cons.prems(6,7) sub])
      (use Cons.prems(2,4) d in \<open>simp_all add: quiet_def took_def\<close>)
  with l h show ?case by auto
qed

section \<open>A client that sends media\<close>

text \<open>A frame to send: what it is, its timestamp and its bytes.\<close>

type_synonym frame = "media_kind \<times> u32 \<times> bytes"

definition frame_message :: "u32 \<Rightarrow> frame \<Rightarrow> message" where
  "frame_message stream_id f = (case f of (kind, ts, payload) \<Rightarrow>
     \<lparr>m_csid = (case kind of AudioKind \<Rightarrow> CSID_AUDIO | VideoKind \<Rightarrow> CSID_VIDEO), m_timestamp = ts,
      m_type_id = (case kind of AudioKind \<Rightarrow> AUDIO | VideoKind \<Rightarrow> VIDEO),
      m_stream_id = stream_id, m_payload = payload\<rparr>)"

definition send_frames :: "frame list \<Rightarrow> client_session \<Rightarrow> client_session" where
  "send_frames = fold (\<lambda>(kind, ts, payload). send_media kind ts payload)"

lemma send_frames_out:
  assumes "cl_state c = client_state.Publishing"
  shows "lk_out (cl_link (send_frames fs c)) = lk_out (cl_link c) @
    concat (map (write_chunks (lk_encoder (cl_link c)) \<circ> frame_message (cl_stream_id c)) fs)"
  using assms
proof (induction fs arbitrary: c)
  case (Cons f fs)
  obtain kind ts payload where f: "f = (kind, ts, payload)" by (metis surj_pair)
  let ?c = "send_media kind ts payload c"
  have c: "cl_state ?c = client_state.Publishing" "cl_stream_id ?c = cl_stream_id c"
    "lk_encoder (cl_link ?c) = lk_encoder (cl_link c)"
    "lk_out (cl_link ?c) = lk_out (cl_link c) @ write_chunks (lk_encoder (cl_link c))
       (frame_message (cl_stream_id c) f)"
    using Cons.prems
    by (simp_all add: send_media_def f frame_message_def write_msg_def split: media_kind.split)
  from Cons.IH [OF c(1)] c show ?case by (simp add: send_frames_def f)
qed (simp add: send_frames_def)

lemma server_media_frame:
  "payload \<noteq> [] \<Longrightarrow> server_media (frame_message i (kind, ts, payload)) = [Media kind ts payload]"
  by (cases kind) (simp_all add: server_media_def frame_message_def AUDIO_def VIDEO_def)

lemma frames_arrive:
  assumes client: "cl_state c = client_state.Publishing" "lk_out (cl_link c) = []"
    and server: "sv_state s = session_state.Publishing" "quiet s" "pending_of s = []"
    and size: "lk_encoder (cl_link c) = cd_chunk_size (lk_decoder (sv_link s))"
    and limit: "cd_max_media (lk_decoder (sv_link s)) = None"
    and streams: "length (cd_streams (lk_decoder (sv_link s))) + 2 \<le> 64"
    and frames: "\<forall>(kind, ts, payload) \<in> set fs. payload \<noteq> [] \<and> length payload < 2 ^ 24"
  shows "\<exists>s'. server_feed (fst (client_take_output (send_frames fs c))) s =
    (Inr (map (\<lambda>(kind, ts, payload). Media kind ts payload) fs), s') \<and> sv_state s' = session_state.Publishing"
proof -
  let ?d = "lk_decoder (sv_link s)" and ?ms = "map (frame_message (cl_stream_id c)) fs"
  let ?out = "fst (client_take_output (send_frames fs c))"
  let ?C = "fst ` set (cd_streams ?d) \<union> {CSID_AUDIO, CSID_VIDEO}"
  have out: "?out = concat (map (write_chunks (cd_chunk_size ?d)) ?ms)"
    using send_frames_out [OF client(1), of fs] client(2) size
    by (simp add: client_take_output_def take_output_def)
  define s1 where "s1 = on_link (\<lambda>l. (received (length ?out) l)\<lparr>lk_decoder := push_bytes ?out (lk_decoder l)\<rparr>) s"
  have d1: "lk_decoder (sv_link s1) = push_bytes ?out ?d" by (simp add: s1_def)
  have card: "card ?C \<le> MAX_CHUNK_STREAMS"
  proof -
    have "card ?C \<le> card (fst ` set (cd_streams ?d)) + card {CSID_AUDIO, CSID_VIDEO}" by (rule card_Un_le)
    moreover have "card (fst ` set (cd_streams ?d)) \<le> length (cd_streams ?d)"
      by (metis card_length length_map set_map)
    moreover have "card {CSID_AUDIO, CSID_VIDEO} \<le> 2" by (simp add: card_insert_if)
    ultimately show ?thesis using streams by (simp add: MAX_CHUNK_STREAMS_def)
  qed
  have "\<exists>s'. server_loop s1 = (Inr (concat (map server_media ?ms)), s') \<and> quiet s' \<and>
      sv_state s' = session_state.Publishing \<and> pending_of s' = []"
  proof (rule server_loop_media [OF _ _ _ _ _ _ card])
    show "\<forall>m \<in> set ?ms. is_media m \<and> encodable m \<and> accepts (lk_decoder (sv_link s1)) m"
      using frames limit
      by (auto simp: frame_message_def is_media_def encodable_def accepts_def within_limit_def d1
          CSID_AUDIO_def CSID_VIDEO_def split: media_kind.split)
    show "quiet s1" using server(2) by (simp add: quiet_def d1 idle_but_def push_bytes_def)
    show "pending_of s1 = concat (map (write_chunks (cd_chunk_size ?d)) ?ms)"
      using server(3) out by (simp add: pending_of_def d1)
    show "fst ` set (cd_streams (lk_decoder (sv_link s1))) \<union> m_csid ` set ?ms \<subseteq> ?C"
      by (auto simp: d1 frame_message_def split: media_kind.splits)
  qed (use server d1 in \<open>simp_all add: s1_def\<close>)
  moreover have "concat (map server_media ?ms) = map (\<lambda>(kind, ts, payload). Media kind ts payload) fs"
    using frames by (induction fs) (auto simp: server_media_frame)
  ultimately show ?thesis by (auto simp: server_feed_def s1_def)
qed

text \<open>
  C31. Media arrives: the frames a publishing client sends (none empty, each below 16 MiB)
  reach a publishing server with room for them, as one media event per frame, in order, with
  its kind, its timestamp and its bytes, when the client sends with the chunk size the server
  expects.
\<close>

theorem media_arrives:
  assumes client: "cl_state c = client_state.Publishing" "lk_out (cl_link c) = []"
    and server: "sv_state s = session_state.Publishing" "quiet s" "pending_of s = []"
    and size: "lk_encoder (cl_link c) = cd_chunk_size (lk_decoder (sv_link s))"
    and limit: "cd_max_media (lk_decoder (sv_link s)) = None"
    and streams: "length (cd_streams (lk_decoder (sv_link s))) + 2 \<le> 64"
    and frames: "\<forall>(kind, ts, payload) \<in> set fs. payload \<noteq> [] \<and> length payload < 2 ^ 24"
  shows "\<exists>s'. server_feed (fst (client_take_output (send_frames fs c))) s =
    (Inr (map (\<lambda>(kind, ts, payload). Media kind ts payload) fs), s') \<and> sv_state s' = session_state.Publishing"
  by (rule frames_arrive [OF assms])

section \<open>A session that goes on air\<close>

lemma feed_command:
  assumes q: "quiet s" "pending_of s = []" and r: "server_room s m" and t: "m_type_id m = COMMAND_AMF0"
    and cs: "cd_chunk_size (lk_decoder (sv_link s)) = cs"
    and cmd: "\<And>s'. sv_state s' = sv_state s \<Longrightarrow>
      \<exists>evs s1. server_command (m_payload m) s' = (Inr evs, s1) \<and> P evs (sv_state s1)"
  shows "\<exists>evs s1. server_feed (write_chunks cs m) s = (Inr evs, s1) \<and> P evs (sv_state s1) \<and>
    quiet s1 \<and> took m [] (lk_decoder (sv_link s)) (lk_decoder (sv_link s1))"
proof -
  let ?out = "write_chunks cs m"
  define s0 where "s0 = on_link (\<lambda>l. (received (length ?out) l)\<lparr>lk_decoder := push_bytes ?out (lk_decoder l)\<rparr>) s"
  have d0: "lk_decoder (sv_link s0) = push_bytes ?out (lk_decoder (sv_link s))" "sv_state s0 = sv_state s"
    by (simp_all add: s0_def)
  have "quiet s0" using q(1) by (simp add: quiet_def d0 idle_but_def push_bytes_def)
  moreover have "server_room s0 m"
    using r by (simp add: server_room_def d0 accepts_def)
  moreover have "cd_chunk_size (lk_decoder (sv_link s0)) = cs" "pending_of s0 = ?out @ []"
    using cs q(2) by (simp_all add: d0 pending_of_def)
  ultimately obtain d where d: "took m [] (lk_decoder (sv_link s0)) d"
    and l: "server_loop s0 = (case server_handle m (with_decoder d s0) of
        (Inl e, s1) \<Rightarrow> (Inl e, s1)
      | (Inr evs, s1) \<Rightarrow>
          (case server_loop s1 of
             (Inl e, s2) \<Rightarrow> (Inl e, s2)
           | (Inr evs', s2) \<Rightarrow> (Inr (evs @ evs'), s2)))"
    using server_loop_message [of s0 m cs "[]"] by blast
  obtain evs s1 where c: "server_command (m_payload m) (with_decoder d s0) = (Inr evs, s1)"
    and P: "P evs (sv_state s1)" using cmd [of "with_decoder d s0"] d0 by auto
  have "handle_control m (sv_link (with_decoder d s0)) = (Inr False, sv_link (with_decoder d s0))"
    using t by (simp add: handle_control_def message_types Let_def)
  then have h: "server_handle m (with_decoder d s0) = (Inr evs, s1)"
    using c t by (simp add: server_handle_def)
  have s1: "lk_decoder (sv_link s1) = d" using server_command_decoder [OF c] by simp
  then have "server_loop s1 = (Inr [], with_decoder d s1)"
    using server_loop_empty [of s1] d by (simp add: pending_of_def took_def)
  with l h have "server_feed ?out s = (Inr evs, with_decoder d s1)"
    by (simp add: server_feed_def s0_def)
  moreover have "took m [] (lk_decoder (sv_link s)) d"
    using d d0(1) by (simp add: took_def)
  ultimately show ?thesis using P d by (auto simp: quiet_def took_def)
qed

text \<open>A command without arguments, on the command stream.\<close>

definition bare_command :: "string \<Rightarrow> message" where
  "bare_command name = \<lparr>m_csid = CSID_COMMAND, m_timestamp = 0, m_type_id = COMMAND_AMF0,
     m_stream_id = 0, m_payload = encode_all [String (ascii name)]\<rparr>"

lemma valid_names: "valid_utf8 (ascii ''connect'')" "valid_utf8 (ascii ''publish'')"
  by (simp_all add: ascii_def valid_utf8.simps utf8_step_def)

lemma bare_decodes:
  assumes "valid_utf8 (ascii name)" and "length name < 100"
  shows "decode_all (m_payload (bare_command name)) = Inr [String (ascii name)]"
proof -
  have "fits (MAX_DEPTH + 1) (String (ascii name))"
    using assms by (simp add: str_ok_def ascii_def)
  then show ?thesis using decode_encode_all [of "[String (ascii name)]"] by (simp add: bare_command_def)
qed

lemma bare_connects:
  "sv_state s = AwaitConnect \<Longrightarrow>
     \<exists>evs s1. server_command (m_payload (bare_command ''connect'')) s = (Inr evs, s1) \<and>
       sv_state s1 = Connected"
  using bare_decodes [OF valid_names(1)]
  by (simp add: server_command_def str_at_def get_opt_def as_str_def cmd_connect_def Let_def)

lemma bare_publishes:
  "sv_state s = Connected \<Longrightarrow>
     \<exists>evs s1. server_command (m_payload (bare_command ''publish'')) s = (Inr evs, s1) \<and>
       sv_state s1 = session_state.PublishPending"
  using bare_decodes [OF valid_names(2)]
  by (simp add: server_command_def str_at_def get_opt_def as_str_def cmd_publish_def ascii_def)

lemma bare_room:
  assumes "cd_max_other (lk_decoder (sv_link s)) = Some MAX_PRE_PUBLISH_MESSAGE" and "length name < 100"
    and "map_of (cd_streams (lk_decoder (sv_link s))) CSID_COMMAND \<noteq> None \<or>
      length (cd_streams (lk_decoder (sv_link s))) < MAX_CHUNK_STREAMS"
  shows "server_room s (bare_command name)"
proof -
  have "length (m_payload (bare_command name)) = 3 + length name"
    using assms(2) by (simp add: bare_command_def encode_all_def put_short_string_def ascii_def Let_def)
  with assms show ?thesis
    by (simp add: server_room_def encodable_def accepts_def within_limit_def bare_command_def
        CSID_COMMAND_def message_types MAX_PRE_PUBLISH_MESSAGE_def)
qed

lemma new_session_decoder:
  "quiet (new_server_session config)" "pending_of (new_server_session config) = []"
  "cd_streams (lk_decoder (sv_link (new_server_session config))) = []"
  "cd_chunk_size (lk_decoder (sv_link (new_server_session config))) = 128"
  "cd_max_other (lk_decoder (sv_link (new_server_session config))) = Some MAX_PRE_PUBLISH_MESSAGE"
proof -
  have d: "lk_decoder (sv_link (new_server_session config)) =
      set_max_message_len (Some MAX_PRE_PUBLISH_MESSAGE) (Some MAX_PRE_PUBLISH_MESSAGE) new_decoder"
    by (simp add: new_server_session_def new_link_def Let_def)
  have "chunk_ok (set_max_message_len (Some n) (Some n) new_decoder)" for n
    using new_decoder_ok by (simp add: set_max_message_len_def)
  then show "quiet (new_server_session config)" "pending_of (new_server_session config) = []"
    "cd_streams (lk_decoder (sv_link (new_server_session config))) = []"
    "cd_chunk_size (lk_decoder (sv_link (new_server_session config))) = 128"
    "cd_max_other (lk_decoder (sv_link (new_server_session config))) = Some MAX_PRE_PUBLISH_MESSAGE"
    by (simp_all add: quiet_def d idle_but_def pending_of_def)
      (simp_all add: set_max_message_len_def new_decoder_def DEFAULT_CHUNK_SIZE_def)
qed

lemma accept_publish_decoder:
  "sv_state s = session_state.PublishPending \<Longrightarrow>
     lk_decoder (sv_link (accept_publish s)) =
       set_max_message_len None (Some MAX_NON_MEDIA_MESSAGE) (lk_decoder (sv_link s)) \<and>
     sv_state (accept_publish s) = session_state.Publishing"
  by (simp add: accept_publish_def Let_def)

text \<open>Connect, publish and acceptance put a new session on air.\<close>

lemma session_goes_on_air:
  "\<exists>items s. trace_steps server_call (new_server_session config) items s \<and>
     sv_state s = session_state.Publishing \<and> quiet s \<and> pending_of s = [] \<and>
     cd_max_media (lk_decoder (sv_link s)) = None \<and> cd_chunk_size (lk_decoder (sv_link s)) = 128 \<and>
     length (cd_streams (lk_decoder (sv_link s))) = 1"
proof -
  let ?new = "new_server_session config"
  have new: "trace_steps server_call ?new [] ?new" by (rule trace_steps.none)
  have "server_room ?new (bare_command ''connect'')"
    by (rule bare_room) (simp_all add: new_session_decoder MAX_CHUNK_STREAMS_def)
  from feed_command [OF new_session_decoder(1,2) this _ new_session_decoder(4),
      where P = "\<lambda>_ st. st = Connected"] bare_connects
  obtain e1 s1 where f1: "server_feed (write_chunks 128 (bare_command ''connect'')) ?new = (Inr e1, s1)"
    and s1: "sv_state s1 = Connected" "quiet s1"
    and t1: "took (bare_command ''connect'') [] (lk_decoder (sv_link ?new)) (lk_decoder (sv_link s1))"
    by (auto simp: bare_command_def)
  have d1: "pending_of s1 = []" "cd_chunk_size (lk_decoder (sv_link s1)) = 128"
    "cd_max_other (lk_decoder (sv_link s1)) = Some MAX_PRE_PUBLISH_MESSAGE"
    using t1 new_session_decoder [of config] by (simp_all add: took_def pending_of_def)
  have keys1: "fst ` set (cd_streams (lk_decoder (sv_link s1))) = {CSID_COMMAND}"
    using t1 new_session_decoder [of config] by (simp add: took_def bare_command_def)
  then have "map_of (cd_streams (lk_decoder (sv_link s1))) CSID_COMMAND \<noteq> None"
    by (simp add: map_of_eq_None_iff)
  then have "server_room s1 (bare_command ''publish'')" by (intro bare_room) (simp_all add: d1)
  from feed_command [OF s1(2) d1(1) this _ d1(2), where P = "\<lambda>_ st. st = session_state.PublishPending"]
    bare_publishes s1(1)
  obtain e2 s2 where f2: "server_feed (write_chunks 128 (bare_command ''publish'')) s1 = (Inr e2, s2)"
    and s2: "sv_state s2 = session_state.PublishPending" "quiet s2"
    and t2: "took (bare_command ''publish'') [] (lk_decoder (sv_link s1)) (lk_decoder (sv_link s2))"
    by (auto simp: bare_command_def)
  have keys2: "fst ` set (cd_streams (lk_decoder (sv_link s2))) = {CSID_COMMAND}"
    using t2 keys1 by (simp add: took_def bare_command_def)
  have "distinct (map fst (cd_streams (lk_decoder (sv_link s2))))"
    using s2(2) by (simp add: quiet_def idle_but_def chunk_ok_def)
  from distinct_card [OF this] keys2 have len: "length (cd_streams (lk_decoder (sv_link s2))) = 1" by simp
  let ?s = "accept_publish s2"
  note a = accept_publish_decoder [OF s2(1)]
  have "trace_steps server_call ?new ([] @ map Ev e1) s1"
    by (rule trace_steps.snoc [OF new]) (rule server_call.feed [OF f1])
  then have "trace_steps server_call ?new (([] @ map Ev e1) @ map Ev e2) s2"
    by (rule trace_steps.snoc) (rule server_call.feed [OF f2])
  then have "trace_steps server_call ?new ((([] @ map Ev e1) @ map Ev e2) @ [Accept]) ?s"
    by (rule trace_steps.snoc) (rule server_call.accept)
  moreover have "quiet ?s"
    using a s2(2) by (simp add: quiet_def idle_but_def set_max_message_len_def)
  moreover have "pending_of ?s = []" "cd_chunk_size (lk_decoder (sv_link ?s)) = 128"
    using a t2 d1 by (simp_all add: pending_of_def took_def set_max_message_len_def)
  ultimately show ?thesis using a len
    by (intro exI [of _ "(([] @ map Ev e1) @ map Ev e2) @ [Accept]"] exI [of _ ?s] conjI)
      (simp_all add: set_max_message_len_def)
qed

text \<open>A client on air that sends with chunks of 128 bytes.\<close>

definition plain_client :: client_session where
  "plain_client = \<lparr>cl_link = new_link 2500000, cl_config = new_client_config [] [] [],
     cl_state = client_state.Publishing, cl_stream_id = 1\<rparr>"

theorem media_arrives_witness:
  "\<exists>s s'. server_feed (fst (client_take_output
      (send_frames [(VideoKind, 40, [0x17, 1]), (AudioKind, 41, [0xAF])] plain_client))) s =
    (Inr [Media VideoKind 40 [0x17, 1], Media AudioKind 41 [0xAF]], s')"
proof -
  obtain items s where s: "sv_state s = session_state.Publishing" "quiet s" "pending_of s = []"
    "cd_max_media (lk_decoder (sv_link s)) = None" "cd_chunk_size (lk_decoder (sv_link s)) = 128"
    "length (cd_streams (lk_decoder (sv_link s))) = 1"
    using session_goes_on_air [of default_server_config] by blast
  from media_arrives [of plain_client s "[(VideoKind, 40, [0x17, 1]), (AudioKind, 41, [0xAF])]"] s
  show ?thesis by (auto simp: plain_client_def new_link_def DEFAULT_CHUNK_SIZE_def)
qed

theorem content_only_after_accept_witness:
  "\<exists>b1 b2 app key s. trace_steps server_call (new_server_session default_server_config)
     (b1 @ Accept # b2 @ [Ev (Media VideoKind 40 [0x17, 1])]) s \<and> Ev (PublishRequest app key) \<in> set b1"
proof -
  obtain items s where run: "trace_steps server_call (new_server_session default_server_config) items s"
    and s: "sv_state s = session_state.Publishing" "quiet s" "pending_of s = []"
    "cd_max_media (lk_decoder (sv_link s)) = None" "cd_chunk_size (lk_decoder (sv_link s)) = 128"
    "length (cd_streams (lk_decoder (sv_link s))) = 1"
    using session_goes_on_air [of default_server_config] by blast
  from frames_arrive [of plain_client s "[(VideoKind, 40, [0x17, 1])]"] s
  obtain data s' where "server_feed data s = (Inr [Media VideoKind 40 [0x17, 1]], s')"
    by (auto simp: plain_client_def new_link_def DEFAULT_CHUNK_SIZE_def)
  from server_call.feed [OF this] have "server_call s [Ev (Media VideoKind 40 [0x17, 1])] s'" by simp
  with run have run': "trace_steps server_call (new_server_session default_server_config)
      (items @ Ev (Media VideoKind 40 [0x17, 1]) # []) s'" by (rule trace_steps.snoc)
  from content_only_after_accept [OF this] obtain b1 b2 app key
    where "items = b1 @ Accept # b2" "Ev (PublishRequest app key) \<in> set b1"
    by (auto simp: is_content_def)
  with run' show ?thesis by (intro exI [of _ b1] exI [of _ b2] exI [of _ app] exI [of _ key] exI [of _ s'])
      simp
qed

end
