(* ===== verification/Text.thy ===== *)
theory Text
  imports Amf0
begin

text \<open>
  Strings as the program handles them. A \<^verbatim>\<open>String\<close> is its UTF-8 bytes, as in Rust; the
  operations of the standard library that go by characters are written over the bytes of
  each character (\<open>chars\<close>). What the core shows of text it was sent
  (\<^verbatim>\<open>untrusted\<close> and \<^verbatim>\<open>clip\<close> of \<^verbatim>\<open>crates/relay/src/core.rs\<close>) is here too.
\<close>

section \<open>Characters\<close>

text \<open>\<open>chars s\<close> is the list of the characters of \<open>s\<close>, each as its bytes.\<close>

function chars :: "bytes \<Rightarrow> bytes list" where
  "chars s =
     (if s = [] then []
      else take (snd (utf8_step s)) s # chars (drop (snd (utf8_step s)) s))"
  by pat_completeness auto
termination by (relation "measure length") (auto simp: utf8_step_pos intro!: diff_less)

declare chars.simps [simp del]

lemma chars_Nil [simp]: "chars [] = []"
  by (simp add: chars.simps)

lemma concat_chars [simp]: "concat (chars s) = s"
proof (induction s rule: chars.induct)
  case (1 s)
  then show ?case by (cases "s = []") (simp_all add: chars.simps [of s])
qed

text \<open>\<^verbatim>\<open>char::is_control\<close>: U+0000 to U+001F, U+007F, and U+0080 to U+009F.\<close>

definition is_control :: "bytes \<Rightarrow> bool" where
  "is_control c \<longleftrightarrow>
     (case c of
        [b] \<Rightarrow> b < 0x20 \<or> b = 0x7F
      | [a, b] \<Rightarrow> a = 0xC2 \<and> 0x80 \<le> b \<and> b \<le> 0x9F
      | _ \<Rightarrow> False)"

text \<open>\<^verbatim>\<open>is_char_boundary\<close>, within the string: not a continuation byte.\<close>

definition char_boundary :: "bytes \<Rightarrow> nat \<Rightarrow> bool" where
  "char_boundary s i \<longleftrightarrow>
     i = 0 \<or> i = length s \<or> (i < length s \<and> (s ! i < 0x80 \<or> 0xC0 \<le> s ! i))"

section \<open>Splitting and comparing\<close>

text \<open>\<^verbatim>\<open>split_once\<close> at an ASCII character.\<close>

definition split_once :: "u8 \<Rightarrow> bytes \<Rightarrow> (bytes \<times> bytes) option" where
  "split_once b s =
     (if b \<in> set s then Some (takeWhile (\<lambda>x. x \<noteq> b) s, tl (dropWhile (\<lambda>x. x \<noteq> b) s)) else None)"

lemma split_once_append [simp]: "b \<notin> set s \<Longrightarrow> split_once b (s @ b # t) = Some (s, t)"
  by (induction s) (auto simp: split_once_def)

lemma split_once_None [simp]:
  "split_once b s = None \<longleftrightarrow> b \<notin> set s" "b \<notin> set s \<Longrightarrow> split_once b s = None"
  by (simp_all add: split_once_def)

lemma split_once_Some: "split_once b s = Some (h, t) \<longleftrightarrow> s = h @ b # t \<and> b \<notin> set h"
proof
  assume l: "split_once b s = Some (h, t)"
  then have "b \<in> set s" by (simp add: split_once_def split: if_splits)
  then obtain x y where "s = x @ b # y" "b \<notin> set x" by (meson split_list_first)
  with l show "s = h @ b # t \<and> b \<notin> set h" by simp
qed auto

text \<open>\<^verbatim>\<open>trim_matches\<close> at an ASCII character.\<close>

definition trim_byte :: "u8 \<Rightarrow> bytes \<Rightarrow> bytes" where
  "trim_byte b s = rev (dropWhile (\<lambda>x. x = b) (rev (dropWhile (\<lambda>x. x = b) s)))"

definition ascii_lower :: "u8 \<Rightarrow> u8" where
  "ascii_lower b = (if 0x41 \<le> b \<and> b \<le> 0x5A then b + 0x20 else b)"

definition eq_ignore_ascii_case :: "bytes \<Rightarrow> bytes \<Rightarrow> bool" where
  "eq_ignore_ascii_case a b \<longleftrightarrow> map ascii_lower a = map ascii_lower b"

section \<open>White space\<close>

text \<open>The characters with the property \<^verbatim>\<open>White_Space\<close>, which \<^verbatim>\<open>trim\<close> takes off.\<close>

definition white_space :: "bytes list" where
  "white_space =
     map (\<lambda>b. [b]) [0x09, 0x0A, 0x0B, 0x0C, 0x0D, 0x20] @
     map (\<lambda>b. [0xC2, b]) [0x85, 0xA0] @
     [[0xE1, 0x9A, 0x80]] @
     map (\<lambda>b. [0xE2, 0x80, b])
       [0x80, 0x81, 0x82, 0x83, 0x84, 0x85, 0x86, 0x87, 0x88, 0x89, 0x8A, 0xA8, 0xA9, 0xAF] @
     [[0xE2, 0x81, 0x9F], [0xE3, 0x80, 0x80]]"

text \<open>Takes off, from the front, whatever of \<open>ws\<close> is there.\<close>

definition front_of :: "bytes list \<Rightarrow> bytes \<Rightarrow> bytes option" where
  "front_of ws s = find (\<lambda>w. w \<noteq> [] \<and> take (length w) s = w) ws"

lemma front_of_shrinks: "front_of ws s = Some w \<Longrightarrow> 0 < length w \<and> length w \<le> length s"
  by (auto simp: front_of_def dest!: find_Some_in) (metis length_take min.cobounded1)

function strip_front :: "bytes list \<Rightarrow> bytes \<Rightarrow> bytes" where
  "strip_front ws s =
     (case front_of ws s of None \<Rightarrow> s | Some w \<Rightarrow> strip_front ws (drop (length w) s))"
  by pat_completeness auto
termination
  by (relation "measure (length \<circ> snd)") (auto dest!: front_of_shrinks intro: diff_less)

declare strip_front.simps [simp del]

definition trim_start :: "bytes \<Rightarrow> bytes" where
  "trim_start s = strip_front white_space s"

definition trim_end :: "bytes \<Rightarrow> bytes" where
  "trim_end s = rev (strip_front (map rev white_space) (rev s))"

definition trim :: "bytes \<Rightarrow> bytes" where
  "trim s = trim_end (trim_start s)"

lemma length_strip_front: "length (strip_front ws s) \<le> length s"
proof (induction ws s rule: strip_front.induct)
  case (1 ws s)
  then show ?case
    by (cases "front_of ws s") (auto simp: strip_front.simps [of ws s] dest: front_of_shrinks)
qed

lemma strip_front_same: "strip_front ws s = s \<longleftrightarrow> front_of ws s = None"
proof
  assume s: "strip_front ws s = s"
  show "front_of ws s = None"
  proof (cases "front_of ws s")
    case (Some w)
    then have "strip_front ws s = strip_front ws (drop (length w) s)"
      by (simp add: strip_front.simps [of ws s])
    with s length_strip_front [of ws "drop (length w) s"] have "length s \<le> length s - length w"
      by simp
    with front_of_shrinks [OF Some] have False by linarith
    then show ?thesis ..
  qed
qed (simp add: strip_front.simps [of ws s])

section \<open>Text that is shown\<close>

text \<open>The ellipsis \<^verbatim>\<open>U+2026\<close> that stands for what is left out.\<close>

definition ELLIPSIS :: bytes where "ELLIPSIS = [0xE2, 0x80, 0xA6]"

definition MAX_ERROR_LEN :: nat where "MAX_ERROR_LEN = 300"

text \<open>Text of an unknown client: on one line, and at most 64 characters of it.\<close>

definition untrusted :: "bytes \<Rightarrow> bytes" where
  "untrusted s =
     concat (map (\<lambda>c. if is_control c then [0x20] else c) (take 64 (chars s))) @
     (if 64 < length (chars s) then ELLIPSIS else [])"

text \<open>The loop of \<^verbatim>\<open>clip\<close>: down to where a character starts.\<close>

fun boundary_below :: "bytes \<Rightarrow> nat \<Rightarrow> nat" where
  "boundary_below s 0 = 0"
| "boundary_below s (Suc n) = (if char_boundary s (Suc n) then Suc n else boundary_below s n)"

definition clip :: "bytes \<Rightarrow> bytes" where
  "clip s =
     (if MAX_ERROR_LEN < length s
      then take (boundary_below s MAX_ERROR_LEN) s @ ELLIPSIS else s)"

end
