(* ===== verification/Url.thy ===== *)
theory Url
  imports Text
begin

text \<open>
  Destination URLs (\<^verbatim>\<open>crates/rtmp/src/url.rs\<close>): what is accepted, what is sent to the
  destination as \<^verbatim>\<open>tcUrl\<close>, and what may be shown of it. A port is a \<open>nat\<close> below
  \<^verbatim>\<open>2^16\<close>. That the text sent and shown is the same URL again, and says nothing of the stream
  key or of a query, is proved at the end.
\<close>

section \<open>Data\<close>

datatype scheme = Rtmp | Rtmps

record rtmp_url =
  u_scheme :: scheme
  u_host :: bytes
  u_port :: nat
  u_app :: bytes
  u_tc_url :: bytes
  u_stream_key :: "bytes option"

datatype url_error = BadScheme | BadHost | BadPort | NoApp | Credentials

section \<open>Numbers\<close>

text \<open>\<^verbatim>\<open>str::parse::<u16>\<close>: an optional plus sign, then digits only.\<close>

definition digit :: "u8 \<Rightarrow> bool" where
  "digit b \<longleftrightarrow> 0x30 \<le> b \<and> b \<le> 0x39"

definition digits_value :: "bytes \<Rightarrow> nat" where
  "digits_value ds = foldl (\<lambda>n b. n * 10 + (unat b - 0x30)) 0 ds"

definition parse_u16 :: "bytes \<Rightarrow> nat option" where
  "parse_u16 s =
     (let ds = (if s \<noteq> [] \<and> hd s = 0x2B then tl s else s)
      in if ds \<noteq> [] \<and> list_all digit ds \<and> digits_value ds < 2 ^ 16
         then Some (digits_value ds) else None)"

text \<open>An integer as \<^verbatim>\<open>format!\<close> writes it.\<close>

fun decimal :: "nat \<Rightarrow> bytes" where
  "decimal n = (if n < 10 then [0x30 + of_nat n] else decimal (n div 10) @ [0x30 + of_nat (n mod 10)])"

declare decimal.simps [simp del]

section \<open>Parsing\<close>

definition strip_prefix_ci :: "bytes \<Rightarrow> bytes \<Rightarrow> bytes option" where
  "strip_prefix_ci s prefix =
     (if length prefix \<le> length s \<and> eq_ignore_ascii_case (take (length prefix) s) prefix
      then Some (drop (length prefix) s) else None)"

definition RTMP_PREFIX :: bytes where "RTMP_PREFIX = ascii ''rtmp://''"
definition RTMPS_PREFIX :: bytes where "RTMPS_PREFIX = ascii ''rtmps://''"

definition default_port :: "scheme \<Rightarrow> nat" where
  "default_port s = (case s of Rtmp \<Rightarrow> 1935 | Rtmps \<Rightarrow> 443)"

definition scheme_prefix :: "scheme \<Rightarrow> bytes" where
  "scheme_prefix s = (case s of Rtmp \<Rightarrow> RTMP_PREFIX | Rtmps \<Rightarrow> RTMPS_PREFIX)"

definition host_for_url :: "bytes \<Rightarrow> bytes" where
  "host_for_url host = (if 0x3A \<in> set host then 0x5B # host @ [0x5D] else host)"

text \<open>The host and the text of the port, if one follows.\<close>

definition split_authority :: "bytes \<Rightarrow> url_error + (bytes \<times> bytes option)" where
  "split_authority authority =
     (if authority \<noteq> [] \<and> hd authority = 0x5B
      then (case split_once 0x5D (tl authority) of
              None \<Rightarrow> Inl BadHost
            | Some (host, after) \<Rightarrow>
                if after = [] then Inr (host, None)
                else if hd after = 0x3A then Inr (host, Some (tl after)) else Inl BadHost)
      else (case split_once 0x3A authority of
              None \<Rightarrow> Inr (authority, None)
            | Some (h, p) \<Rightarrow> if 0x3A \<in> set p then Inl BadHost else Inr (h, Some p)))"

definition split_host_port :: "bytes \<Rightarrow> nat \<Rightarrow> url_error + (bytes \<times> nat)" where
  "split_host_port authority dflt =
     (case split_authority authority of
        Inl e \<Rightarrow> Inl e
      | Inr (host, None) \<Rightarrow> Inr (host, dflt)
      | Inr (host, Some p) \<Rightarrow>
          (case parse_u16 p of
             None \<Rightarrow> Inl BadPort
           | Some n \<Rightarrow> if n = 0 then Inl BadPort else Inr (host, n)))"

definition authority_str :: "scheme \<Rightarrow> bytes \<Rightarrow> nat \<Rightarrow> bytes" where
  "authority_str s host port =
     (if port = default_port s then host_for_url host
      else host_for_url host @ 0x3A # decimal port)"

definition url_scheme :: "bytes \<Rightarrow> (scheme \<times> bytes) option" where
  "url_scheme s =
     (case strip_prefix_ci s RTMP_PREFIX of
        Some r \<Rightarrow> Some (Rtmp, r)
      | None \<Rightarrow> map_option (Pair Rtmps) (strip_prefix_ci s RTMPS_PREFIX))"

text \<open>The application and the stream key of a path.\<close>

definition split_path :: "bytes \<Rightarrow> bytes \<times> bytes option" where
  "split_path path =
     (let p = trim_byte 0x2F path
      in case split_once 0x2F p of
           None \<Rightarrow> (p, None)
         | Some (a, k) \<Rightarrow> (a, if k = [] then None else Some k))"

definition parse_url :: "bytes \<Rightarrow> url_error + rtmp_url" where
  "parse_url input =
     (case url_scheme (trim input) of
        None \<Rightarrow> Inl BadScheme
      | Some (s, rest) \<Rightarrow>
          (let (authority, path) = (case split_once 0x2F rest of None \<Rightarrow> (rest, []) | Some x \<Rightarrow> x)
           in if 0x40 \<in> set authority then Inl Credentials
              else if 0x3F \<in> set authority \<or> 0x23 \<in> set authority then Inl BadHost
              else
                (case split_host_port authority (default_port s) of
                   Inl e \<Rightarrow> Inl e
                 | Inr (host, port) \<Rightarrow>
                     (if host = [] then Inl BadHost
                      else let (app, key) = split_path path
                           in if app = [] then Inl NoApp
                              else Inr \<lparr>u_scheme = s, u_host = host, u_port = port, u_app = app,
                                u_tc_url = scheme_prefix s @ authority_str s host port @ 0x2F # app,
                                u_stream_key = key\<rparr>))))"

section \<open>What may be shown\<close>

definition redacted_url :: "rtmp_url \<Rightarrow> bytes" where
  "redacted_url u =
     (case split_once 0x3F (u_tc_url u) of
        None \<Rightarrow> u_tc_url u
      | Some (base, _) \<Rightarrow> base @ 0x3F # ELLIPSIS)"

definition encrypted :: "rtmp_url \<Rightarrow> bool" where
  "encrypted u \<longleftrightarrow> u_scheme u = Rtmps"

definition url_query :: "rtmp_url \<Rightarrow> bytes option" where
  "url_query u =
     (case split_once 0x3F (u_app u) of
        Some (_, q) \<Rightarrow> if q = [] then None else Some q
      | None \<Rightarrow> None)"

text \<open>\<^verbatim>\<open>split\<close> at an ASCII character.\<close>

function split_at :: "u8 \<Rightarrow> bytes \<Rightarrow> bytes list" where
  "split_at b s =
     (case split_once b s of None \<Rightarrow> [s] | Some (h, t) \<Rightarrow> h # split_at b t)"
  by pat_completeness auto
termination by (relation "measure (length \<circ> snd)") (auto simp: split_once_Some)

declare split_at.simps [simp del]

definition query_secrets :: "rtmp_url \<Rightarrow> bytes list" where
  "query_secrets u =
     (case url_query u of
        None \<Rightarrow> []
      | Some q \<Rightarrow>
          q # filter (\<lambda>v. v \<noteq> [])
                (map (\<lambda>pair. case split_once 0x3D pair of None \<Rightarrow> pair | Some (_, v) \<Rightarrow> v)
                  (split_at 0x26 q)))"

text \<open>
  \<^verbatim>\<open>in_domain\<close>: whether a host is a domain or a name under it, ignoring case.
\<close>

definition in_domain :: "bytes \<Rightarrow> bytes \<Rightarrow> bool" where
  "in_domain host domain \<longleftrightarrow>
     length domain \<le> length host \<and>
     (let n = length host - length domain
      in eq_ignore_ascii_case (drop n host) domain \<and>
         (take n host = [] \<or> last (take n host) = 0x2E))"


section \<open>The numbers read back\<close>

lemma digit_byte: "k < 10 \<Longrightarrow> digit (0x30 + of_nat k)" "k < 10 \<Longrightarrow> unat (0x30 + of_nat k :: u8) = 0x30 + k"
  by (simp_all add: digit_def word_le_nat_alt unat_word_ariths unat_of_nat)

lemma decimal_value [simp]: "digits_value (decimal n) = n"
proof (induction n rule: decimal.induct)
  case (1 n)
  then show ?case
    by (cases "n < 10") (simp_all add: decimal.simps [of n] digits_value_def digit_byte)
qed

lemma decimal_digits: "list_all digit (decimal n)"
proof (induction n rule: decimal.induct)
  case (1 n)
  then show ?case by (cases "n < 10") (simp_all add: decimal.simps [of n] digit_byte)
qed

lemma decimal_nonempty [simp]: "decimal n \<noteq> []"
  by (simp add: decimal.simps [of n])

lemma decimal_only [simp]: "b \<in> set (decimal n) \<Longrightarrow> digit b"
  using decimal_digits [of n] by (simp add: list_all_iff)

lemma not_digit [simp]: "\<not> digit 0x2B" "\<not> digit 0x3A" "\<not> digit 0x2F" "\<not> digit 0x40" "\<not> digit 0x3F" "\<not> digit 0x23"
  by (simp_all add: digit_def)

lemma parse_decimal [simp]: "parse_u16 (decimal n) = (if n < 2 ^ 16 then Some n else None)"
proof -
  have "hd (decimal n) \<noteq> 0x2B"
    using decimal_only [OF hd_in_set [OF decimal_nonempty [of n]]] by auto
  then show ?thesis using decimal_digits [of n] by (simp add: parse_u16_def)
qed

section \<open>Trimming what needs none\<close>

lemma front_of_None: "front_of ws s = None \<longleftrightarrow> (\<forall>w \<in> set ws. w \<noteq> [] \<longrightarrow> take (length w) s \<noteq> w)"
  by (auto simp: front_of_def find_None_iff)

lemma front_of_ends:
  assumes app: "front_of ws (rev app) = None" and b: "\<forall>w \<in> set ws. b \<notin> set w"
  shows "front_of ws (rev app @ b # t) = None"
  unfolding front_of_None
proof (intro ballI impI notI)
  fix w assume w: "w \<in> set ws" "w \<noteq> []" "take (length w) (rev app @ b # t) = w"
  have "length w \<le> length app"
  proof (rule ccontr)
    assume "\<not> ?thesis"
    then have "b \<in> set (take (length w) (rev app @ b # t))"
      by (auto simp: take_Cons')
    with w b show False by auto
  qed
  with w app show False by (auto simp: front_of_None)
qed

lemma no_slash: "\<forall>w \<in> set white_space. 0x2F \<notin> set w" "\<forall>w \<in> set (map rev white_space). 0x2F \<notin> set w"
  by (simp_all add: white_space_def)

lemma trim_end_slash: "trim_end app = app \<Longrightarrow> trim_end (t @ 0x2F # app) = t @ 0x2F # app"
proof -
  assume "trim_end app = app"
  then have "strip_front (map rev white_space) (rev app) = rev app"
    unfolding trim_end_def by (metis rev_rev_ident)
  then have "front_of (map rev white_space) (rev app) = None" by (simp only: strip_front_same)
  from front_of_ends [OF this no_slash(2), of "rev t"]
  have "strip_front (map rev white_space) (rev (t @ 0x2F # app)) = rev (t @ 0x2F # app)"
    by (simp add: strip_front_same)
  then show ?thesis by (simp add: trim_end_def)
qed

lemma trim_start_prefix: "trim_start (scheme_prefix s @ t) = scheme_prefix s @ t"
  by (cases s) (simp_all add: trim_start_def strip_front_same front_of_None scheme_prefix_def
      RTMP_PREFIX_def RTMPS_PREFIX_def ascii_def white_space_def)

lemma url_scheme_prefix [simp]: "url_scheme (scheme_prefix s @ t) = Some (s, t)"
  by (cases s) (simp_all add: url_scheme_def scheme_prefix_def strip_prefix_ci_def RTMP_PREFIX_def
      RTMPS_PREFIX_def ascii_def eq_ignore_ascii_case_def ascii_lower_def)

section \<open>What is sent to the destination is the same URL again\<close>

lemma parse_u16_bound: "parse_u16 p = Some n \<Longrightarrow> n < 2 ^ 16"
  by (auto simp: parse_u16_def Let_def split: if_splits)

lemma split_authority_host:
  "split_authority a = Inr (h, p) \<Longrightarrow> set h \<subseteq> set a \<and> (0x3A \<in> set h \<longrightarrow> 0x5D \<notin> set h)"
proof (cases "a \<noteq> [] \<and> hd a = 0x5B")
  case True
  assume "split_authority a = Inr (h, p)"
  with True obtain after where "tl a = h @ 0x5D # after" "0x5D \<notin> set h"
    by (auto simp: split_authority_def split_once_Some split: option.splits if_splits)
  with True show ?thesis by (cases a) auto
next
  case False
  assume "split_authority a = Inr (h, p)"
  with False show ?thesis
    by (auto simp: split_authority_def split_once_Some split: option.splits if_splits)
qed

lemma split_host_port_host:
  assumes "split_host_port a d = Inr (h, n)"
  shows "set h \<subseteq> set a" "0x3A \<in> set h \<longrightarrow> 0x5D \<notin> set h" "n = d \<or> 0 < n \<and> n < 2 ^ 16"
  using assms split_authority_host
  by (auto simp: split_host_port_def split: sum.splits option.splits if_splits prod.splits
      dest!: parse_u16_bound)

lemma split_path_app: "split_path path = (app, key) \<Longrightarrow> 0x2F \<notin> set app"
  by (auto simp: split_path_def Let_def split_once_Some split: option.splits if_splits)

lemma split_path_same: "0x2F \<notin> set app \<Longrightarrow> split_path app = (app, None)"
proof -
  assume a: "0x2F \<notin> set app"
  then have d: "dropWhile (\<lambda>x. x = 0x2F) app = app" "dropWhile (\<lambda>x. x = 0x2F) (rev app) = rev app"
    using hd_in_set [of app] last_in_set [of app]
    by (auto simp: dropWhile_eq_self_iff hd_rev simp del: hd_in_set last_in_set)
  from a show ?thesis by (simp add: split_path_def trim_byte_def d)
qed

lemma split_authority_again:
  assumes "h \<noteq> []" "0x3A \<in> set h \<longrightarrow> 0x5D \<notin> set h" "0x3A \<in> set h \<or> hd h \<noteq> 0x5B"
  shows "split_authority (host_for_url h) = Inr (h, None)"
    "0x3A \<notin> set p \<Longrightarrow> split_authority (host_for_url h @ 0x3A # p) = Inr (h, Some p)"
proof -
  have b: "split_once 0x5D (h @ [0x5D]) = Some (h, [])"
    "split_once 0x5D (h @ 0x5D # 0x3A # p) = Some (h, 0x3A # p)" if "0x3A \<in> set h"
    using assms(2) that by simp_all
  show "split_authority (host_for_url h) = Inr (h, None)"
    using assms b by (cases "0x3A \<in> set h") (auto simp: split_authority_def host_for_url_def)
  show "0x3A \<notin> set p \<Longrightarrow> split_authority (host_for_url h @ 0x3A # p) = Inr (h, Some p)"
    using assms b by (auto simp: split_authority_def host_for_url_def)
qed

lemma split_host_port_again:
  assumes "h \<noteq> []" "0x3A \<in> set h \<longrightarrow> 0x5D \<notin> set h" "0x3A \<in> set h \<or> hd h \<noteq> 0x5B"
    and "n = default_port s \<or> 0 < n \<and> n < 2 ^ 16"
  shows "split_host_port (authority_str s h n) (default_port s) = Inr (h, n)"
proof -
  have "0x3A \<notin> set (decimal n)" using decimal_only by fastforce
  with assms show ?thesis
    by (auto simp: split_host_port_def authority_str_def split_authority_again)
qed

lemma set_authority_str:
  "b \<in> set (authority_str s h n) \<Longrightarrow> b \<in> set h \<or> digit b \<or> b \<in> {0x3A, 0x5B, 0x5D}"
  by (auto simp: authority_str_def host_for_url_def split: if_splits)

lemma parse_urlE:
  assumes "parse_url s = Inr u"
  obtains authority where
    "u_host u \<noteq> []" "u_app u \<noteq> []" "0x2F \<notin> set (u_app u)"
    "set (u_host u) \<subseteq> set authority" "0x2F \<notin> set authority" "0x40 \<notin> set authority"
    "0x3F \<notin> set authority" "0x23 \<notin> set authority"
    "0x3A \<in> set (u_host u) \<longrightarrow> 0x5D \<notin> set (u_host u)"
    "u_port u = default_port (u_scheme u) \<or> 0 < u_port u \<and> u_port u < 2 ^ 16"
    "u_tc_url u = scheme_prefix (u_scheme u) @
       authority_str (u_scheme u) (u_host u) (u_port u) @ 0x2F # u_app u"
proof -
  obtain sc rest where sc: "url_scheme (trim s) = Some (sc, rest)"
    using assms by (auto simp: parse_url_def split: option.splits)
  obtain authority path where ap:
    "(case split_once 0x2F rest of None \<Rightarrow> (rest, []) | Some x \<Rightarrow> x) = (authority, path)"
    by (rule prod.exhaust)
  have slash: "0x2F \<notin> set authority" using ap by (auto split: option.splits simp: split_once_Some)
  obtain host port where hp: "split_host_port authority (default_port sc) = Inr (host, port)"
    using assms sc ap by (auto simp: parse_url_def split: if_splits sum.splits)
  obtain app key where ak: "split_path path = (app, key)" by (rule prod.exhaust)
  show thesis
    using assms sc ap hp ak slash split_host_port_host [OF hp] split_path_app [OF ak]
    by (auto simp: parse_url_def split: if_splits intro!: that [of authority])
qed

text \<open>
  The text sent to the destination as \<^verbatim>\<open>tcUrl\<close> is the same destination again, without
  the stream key: parsing it gives the same scheme, host, port and application, and the same
  text. Left out are an application that ends in white space, which parsing would take off,
  and a host that itself starts with a bracket.
\<close>

theorem tc_url_is_the_destination:
  assumes parsed: "parse_url s = Inr u"
    and app: "trim_end (u_app u) = u_app u" and host: "hd (u_host u) \<noteq> 0x5B"
  shows "parse_url (u_tc_url u) = Inr (u\<lparr>u_stream_key := None\<rparr>)"
proof -
  let ?a = "authority_str (u_scheme u) (u_host u) (u_port u)"
  from parsed obtain authority where u:
    "u_host u \<noteq> []" "u_app u \<noteq> []" "0x2F \<notin> set (u_app u)"
    "set (u_host u) \<subseteq> set authority" "0x2F \<notin> set authority" "0x40 \<notin> set authority"
    "0x3F \<notin> set authority" "0x23 \<notin> set authority"
    "0x3A \<in> set (u_host u) \<longrightarrow> 0x5D \<notin> set (u_host u)"
    "u_port u = default_port (u_scheme u) \<or> 0 < u_port u \<and> u_port u < 2 ^ 16"
    and tc: "u_tc_url u = scheme_prefix (u_scheme u) @ ?a @ 0x2F # u_app u"
    by (rule parse_urlE)
  have trim: "trim (u_tc_url u) = u_tc_url u"
    unfolding trim_def tc trim_start_prefix
    using trim_end_slash [OF app, of "scheme_prefix (u_scheme u) @ ?a"] by simp
  have set_a: "0x2F \<notin> set ?a" "0x40 \<notin> set ?a" "0x3F \<notin> set ?a" "0x23 \<notin> set ?a"
    using u(4-8) by (auto dest!: set_authority_str)
  have hp: "split_host_port ?a (default_port (u_scheme u)) = Inr (u_host u, u_port u)"
    using u host by (intro split_host_port_again) auto
  have "parse_url (u_tc_url u) = Inr \<lparr>u_scheme = u_scheme u, u_host = u_host u,
      u_port = u_port u, u_app = u_app u, u_tc_url = u_tc_url u, u_stream_key = None\<rparr>"
    unfolding parse_url_def trim
    using u(1,2) set_a hp split_path_same [OF u(3)] by (simp add: tc)
  then show ?thesis by simp
qed

text \<open>What evaluates the parser on a literal.\<close>

lemmas url_eval = ascii_def url_scheme_def strip_prefix_ci_def RTMP_PREFIX_def
  RTMPS_PREFIX_def eq_ignore_ascii_case_def ascii_lower_def split_once_def
  split_host_port_def split_authority_def parse_u16_def digit_def digits_value_def
  split_path_def trim_byte_def scheme_prefix_def authority_str_def default_port_def
  host_for_url_def decimal.simps

definition demo_url :: bytes where
  "demo_url = ascii ''RTMPS://[::1]:1940/live2?a=b/abcd-efgh''"

lemma demo_url_parsed:
  "parse_url demo_url = Inr \<lparr>u_scheme = Rtmps, u_host = ascii ''::1'', u_port = 1940,
     u_app = ascii ''live2?a=b'', u_tc_url = ascii ''rtmps://[::1]:1940/live2?a=b'',
     u_stream_key = Some (ascii ''abcd-efgh'')\<rparr>"
proof -
  have t: "trim demo_url = demo_url"
    unfolding trim_def trim_start_def trim_end_def
    by (simp add: demo_url_def ascii_def strip_front_same [THEN iffD2] front_of_None white_space_def)
  show ?thesis
    unfolding parse_url_def t
    by (simp add: demo_url_def url_eval)
qed

lemma tc_url_is_the_destination_witness:
  "\<exists>u. parse_url demo_url = Inr u \<and> u_stream_key u \<noteq> None \<and>
     parse_url (u_tc_url u) = Inr (u\<lparr>u_stream_key := None\<rparr>)"
proof -
  obtain u where u: "u = \<lparr>u_scheme = Rtmps, u_host = ascii ''::1'', u_port = 1940,
     u_app = ascii ''live2?a=b'', u_tc_url = ascii ''rtmps://[::1]:1940/live2?a=b'',
     u_stream_key = Some (ascii ''abcd-efgh'')\<rparr>" by blast
  have "trim_end (ascii ''live2?a=b'') = ascii ''live2?a=b''" "hd (ascii ''::1'') \<noteq> 0x5B"
    by (simp_all add: ascii_def trim_end_def strip_front_same front_of_None white_space_def)
  with tc_url_is_the_destination [of demo_url u] demo_url_parsed show ?thesis
    by (simp add: u)
qed

section \<open>What is shown says nothing of the key or the query\<close>

lemma redacted_parsed:
  assumes "parse_url s = Inr u"
  shows "redacted_url u =
    scheme_prefix (u_scheme u) @ authority_str (u_scheme u) (u_host u) (u_port u) @ 0x2F #
    (case split_once 0x3F (u_app u) of None \<Rightarrow> u_app u | Some (name, _) \<Rightarrow> name @ 0x3F # ELLIPSIS)"
proof -
  let ?p = "scheme_prefix (u_scheme u) @ authority_str (u_scheme u) (u_host u) (u_port u)"
  from assms obtain authority where a: "set (u_host u) \<subseteq> set authority" "0x3F \<notin> set authority"
    and tc: "u_tc_url u = ?p @ 0x2F # u_app u"
    by (rule parse_urlE) simp
  have p: "0x3F \<notin> set ?p"
    using a by (cases "u_scheme u") (auto dest!: set_authority_str
        simp: scheme_prefix_def RTMP_PREFIX_def RTMPS_PREFIX_def ascii_def)
  show ?thesis
  proof (cases "split_once 0x3F (u_app u)")
    case None
    with p tc have "split_once 0x3F (u_tc_url u) = None" by simp
    with None tc show ?thesis unfolding redacted_url_def by simp
  next
    case (Some x)
    obtain name q where x: "x = (name, q)" by (rule prod.exhaust)
    with Some have n: "u_app u = name @ 0x3F # q" "0x3F \<notin> set name" by (auto simp: split_once_Some)
    have "split_once 0x3F (u_tc_url u) = Some (?p @ 0x2F # name, q)"
      unfolding split_once_Some using tc n p by simp
    with Some x show ?thesis by (simp add: redacted_url_def)
  qed
qed

lemma query_hidden:
  "takeWhile (\<lambda>b. b \<noteq> 0x3F) a = takeWhile (\<lambda>b. b \<noteq> 0x3F) a' \<Longrightarrow> (0x3F \<in> set a \<longleftrightarrow> 0x3F \<in> set a') \<Longrightarrow>
   (case split_once 0x3F a of None \<Rightarrow> a | Some (name, _) \<Rightarrow> name @ 0x3F # ELLIPSIS) =
   (case split_once 0x3F a' of None \<Rightarrow> a' | Some (name, _) \<Rightarrow> name @ 0x3F # ELLIPSIS)"
proof -
  assume t: "takeWhile (\<lambda>b. b \<noteq> 0x3F) a = takeWhile (\<lambda>b. b \<noteq> 0x3F) a'"
    and q: "0x3F \<in> set a \<longleftrightarrow> 0x3F \<in> set a'"
  have "0x3F \<notin> set a \<Longrightarrow> a = a'" using t q takeWhile_eq_all_conv [of _ a] takeWhile_eq_all_conv [of _ a']
    by (metis (mono_tags, lifting))
  with t q show ?thesis by (auto simp: split_once_def)
qed

text \<open>
  What may be shown of a destination depends on nothing secret in its URL: two URLs with
  the same scheme, host and port, whose applications agree up to a query, are shown alike,
  whatever their stream keys and the values of their queries are.
\<close>

theorem shown_url_hides_secrets:
  assumes "parse_url s = Inr u" and "parse_url s' = Inr u'"
    and "u_scheme u = u_scheme u'" "u_host u = u_host u'" "u_port u = u_port u'"
    and "takeWhile (\<lambda>b. b \<noteq> 0x3F) (u_app u) = takeWhile (\<lambda>b. b \<noteq> 0x3F) (u_app u')"
    and "0x3F \<in> set (u_app u) \<longleftrightarrow> 0x3F \<in> set (u_app u')"
  shows "redacted_url u = redacted_url u'"
  unfolding redacted_parsed [OF assms(1)] redacted_parsed [OF assms(2)]
  using assms(3-5) query_hidden [OF assms(6,7)] by simp

definition other_url :: bytes where
  "other_url = ascii ''rtmps://[::1]:1940/live2?a=secret''"

lemma other_url_parsed:
  "parse_url other_url = Inr \<lparr>u_scheme = Rtmps, u_host = ascii ''::1'', u_port = 1940,
     u_app = ascii ''live2?a=secret'', u_tc_url = ascii ''rtmps://[::1]:1940/live2?a=secret'',
     u_stream_key = None\<rparr>"
proof -
  have t: "trim other_url = other_url"
    unfolding trim_def trim_start_def trim_end_def
    by (simp add: other_url_def ascii_def strip_front_same [THEN iffD2] front_of_None white_space_def)
  show ?thesis
    unfolding parse_url_def t
    by (simp add: other_url_def url_eval)
qed

lemma shown_url_hides_secrets_witness:
  "\<exists>u u'. parse_url demo_url = Inr u \<and> parse_url other_url = Inr u' \<and>
     u_app u \<noteq> u_app u' \<and> redacted_url u = redacted_url u'"
  using shown_url_hides_secrets [OF demo_url_parsed other_url_parsed]
  by (auto simp: demo_url_parsed other_url_parsed ascii_def)

end
