(* ===== verification/Core.thy ===== *)
theory Core
  imports Engine_Reach Lifecycle Url
begin

text \<open>
  The core task (\<^verbatim>\<open>crates/relay/src/core.rs\<close>): it owns the delay engine and the
  broadcast's lifecycle, and wires the encoder, the operator and the destination together.
  One turn of its loop takes a request of the operator, an event of the other tasks or a
  timer, and then runs the engine (\<open>core_turn\<close>). Times are microseconds since the core
  started, one instant per turn. Channels are lists: what a turn puts into the channel to the
  egress (\<open>c_ctl\<close>), into the media queue (\<open>c_media\<close>) and what it replies
  (\<open>c_replies\<close>, by the reply's number). The counters shared with the egress are in
  the state too. Left out are log messages, the bitrate shown (floating point) and, of the
  state shown, the engine's snapshot.
\<close>

section \<open>Data\<close>

definition MAX_EGRESS_BACKLOG :: nat where "MAX_EGRESS_BACKLOG = 8 * 1024 * 1024"
definition CUT_ANSWER_WAIT :: nat where "CUT_ANSWER_WAIT = 2 * SEC"
definition TAKEOVER_SILENCE :: nat where "TAKEOVER_SILENCE = 2 * SEC"
definition BAD_KEYS_SHOWN_FOR :: nat where "BAD_KEYS_SHOWN_FOR = 600 * SEC"
definition BAD_KEYS_KEPT :: nat where "BAD_KEYS_KEPT = 10000"

record rejection =
  rj_reason :: bytes
  rj_bad_key :: bool

datatype destination_key = Fixed bytes | Passthrough

record destination =
  d_url :: bytes
  d_key :: destination_key

text \<open>What the core uses of \<^verbatim>\<open>RelayConfig\<close>.\<close>

record relay_config =
  rc_ingest_app :: "bytes option"
  rc_ingest_key :: "bytes option"
  rc_destination :: "destination option"
  rc_engine :: engine_config
  rc_encoder_grace :: nat

type_synonym connect_props = "(bytes \<times> amf0) list"

record target =
  tg_url :: rtmp_url
  tg_key :: bytes
  tg_props :: connect_props

datatype egress_ctl = CtlStart target | CtlStop | CtlAbort | CtlCut nat

record queued =
  q_generation :: nat
  q_cut :: nat
  q_msg :: out_msg

record counters =
  ct_backlog :: nat
  ct_written :: nat
  ct_cut :: nat

datatype egress_status = Disabled | Waiting | Connecting | Live | Retrying

record egress_state =
  es_status :: egress_status
  es_destination :: "bytes option"
  es_last_error :: "bytes option"
  es_backlog :: nat
  es_reconnects :: nat

record ingest_state =
  is_connected :: bool
  is_peer :: "bytes option"
  is_app :: "bytes option"
  is_last_error :: "bytes option"
  is_bad_keys :: nat
  is_bad_key_from :: "bytes option"

record relay_state =
  rs_ingest :: ingest_state
  rs_egress :: egress_state
  rs_ended :: bool
  rs_ending :: bool

record publisher =
  p_conn :: nat
  p_last_seen :: nat

record pending_dump =
  pd_mode :: delay_mode
  pd_cover :: bool
  pd_replies :: "nat list"
  pd_since :: nat

text \<open>Replies, and the notice that closes an encoder connection (\<^verbatim>\<open>close\<close>).\<close>

datatype reply =
    CommandReply nat "engine_error + ack"
  | DoneReply nat
  | PublishReply nat "rejection option"
  | ConnectedReply nat nat
  | CloseConn nat

record core =
  c_config :: relay_config
  c_engine :: engine
  c_publisher :: "publisher option"
  c_bad_keys :: "nat list"
  c_last_publisher :: "(bytes \<times> connect_props) option"
  c_life :: lifecycle
  c_counters :: counters
  c_generation :: nat
  c_cut :: nat
  c_dump :: "pending_dump option"
  c_state :: relay_state
  c_shown :: relay_state
  c_ctl :: "egress_ctl list"
  c_media :: "queued list"
  c_replies :: "reply list"

datatype control =
    Command command nat
  | SetDestination "destination option"
  | EndStream nat
  | EndAfterAir nat
  | Resume nat
  | SetKeepHistory bool
  | SetRestoreAfterReconnect bool

text \<open>
  \<open>IngestPublish\<close> carries the connection, the peer's address and its IP alone as text, the
  application, the stream key, the connect properties and the reply's number. Payloads carry
  no permit: giving room in the ingest queue back is not modelled.
\<close>

datatype event =
    IngestPublish nat bytes bytes bytes bytes connect_props nat
  | IngestMedia nat kind nat bytes
  | IngestMetadata nat bytes
  | IngestClosed nat "bytes option" bool
  | EgressConnected nat
  | CutDone nat bool "nat option"
  | EgressDisconnected "nat option" "bytes option"
  | EgressStatus egress_status "bytes option"

section \<open>The destination\<close>

text \<open>
  \<^verbatim>\<open>same_key\<close>: the key repeated to the guess's length, compared with it, and the lengths
  compared; constant time is not modelled.
\<close>

definition same_key :: "bytes \<Rightarrow> bytes \<Rightarrow> bool" where
  "same_key want got \<longleftrightarrow>
     (if want = [] then got = []
      else map (\<lambda>i. want ! (i mod length want)) [0..<length got] = got \<and>
           length want = length got)"

definition stream_key :: "destination \<Rightarrow> rtmp_url \<Rightarrow> bytes \<Rightarrow> bytes option" where
  "stream_key d url publisher_key =
     (case d_key d of
        Fixed k \<Rightarrow> if k \<noteq> [] then Some k else u_stream_key url
      | Passthrough \<Rightarrow> Some publisher_key)"

definition resting_status :: "destination option \<Rightarrow> egress_status" where
  "resting_status dest =
     (case dest of
        None \<Rightarrow> Disabled
      | Some d \<Rightarrow>
          (case parse_url (d_url d) of
             Inl _ \<Rightarrow> Disabled
           | Inr url \<Rightarrow> if stream_key d url [] \<noteq> None then Waiting else Disabled))"

definition redacted :: "destination \<Rightarrow> bytes" where
  "redacted d = (case parse_url (d_url d) of Inl _ \<Rightarrow> ascii ''invalid URL'' | Inr u \<Rightarrow> redacted_url u)"

definition url_error_text :: "url_error \<Rightarrow> bytes" where
  "url_error_text e =
     (case e of
        BadScheme \<Rightarrow> ascii ''URL must start with rtmp:// or rtmps://''
      | BadHost \<Rightarrow> ascii ''URL has no host''
      | BadPort \<Rightarrow> ascii ''invalid port''
      | NoApp \<Rightarrow> ascii ''URL has no application path (for example rtmp://host/app)''
      | Credentials \<Rightarrow> ascii ''a user name or password in the URL is not supported'')"

section \<open>The start\<close>

definition initial_state :: "relay_config \<Rightarrow> relay_state" where
  "initial_state cfg =
     \<lparr>rs_ingest = \<lparr>is_connected = False, is_peer = None, is_app = None, is_last_error = None,
                   is_bad_keys = 0, is_bad_key_from = None\<rparr>,
      rs_egress = \<lparr>es_status = resting_status (rc_destination cfg),
                   es_destination = map_option redacted (rc_destination cfg),
                   es_last_error = None, es_backlog = 0, es_reconnects = 0\<rparr>,
      rs_ended = False, rs_ending = False\<rparr>"

definition new_core :: "relay_config \<Rightarrow> core" where
  "new_core cfg =
     \<lparr>c_config = cfg, c_engine = new_engine (rc_engine cfg), c_publisher = None, c_bad_keys = [],
      c_last_publisher = None, c_life = new_lifecycle (rc_encoder_grace cfg),
      c_counters = \<lparr>ct_backlog = 0, ct_written = 0, ct_cut = 0\<rparr>, c_generation = 0, c_cut = 0,
      c_dump = None, c_state = initial_state cfg, c_shown = initial_state cfg,
      c_ctl = [], c_media = [], c_replies = []\<rparr>"

section \<open>Helpers\<close>

definition on_engine :: "(engine \<Rightarrow> engine) \<Rightarrow> core \<Rightarrow> core" where
  "on_engine f c = c\<lparr>c_engine := f (c_engine c)\<rparr>"

definition on_egress :: "(egress_state \<Rightarrow> egress_state) \<Rightarrow> core \<Rightarrow> core" where
  "on_egress f c = c\<lparr>c_state := (c_state c)\<lparr>rs_egress := f (rs_egress (c_state c))\<rparr>\<rparr>"

definition on_ingest :: "(ingest_state \<Rightarrow> ingest_state) \<Rightarrow> core \<Rightarrow> core" where
  "on_ingest f c = c\<lparr>c_state := (c_state c)\<lparr>rs_ingest := f (rs_ingest (c_state c))\<rparr>\<rparr>"

definition egress_error :: "bytes \<Rightarrow> core \<Rightarrow> core" where
  "egress_error e = on_egress (\<lambda>s. s\<lparr>es_last_error := Some e\<rparr>)"

definition send_ctl :: "egress_ctl \<Rightarrow> core \<Rightarrow> core" where
  "send_ctl m c = c\<lparr>c_ctl := c_ctl c @ [m]\<rparr>"

definition send_reply :: "reply \<Rightarrow> core \<Rightarrow> core" where
  "send_reply r c = c\<lparr>c_replies := c_replies c @ [r]\<rparr>"

definition publish_state :: "nat \<Rightarrow> core \<Rightarrow> core" where
  "publish_state now c =
     (let bad = dropWhile (\<lambda>t. BAD_KEYS_SHOWN_FOR \<le> now - t) (c_bad_keys c);
          s = c_state c;
          s1 = s\<lparr>rs_ended := ended (c_life c), rs_ending := ending (c_life c),
                 rs_egress := (rs_egress s)\<lparr>es_backlog := ct_backlog (c_counters c)\<rparr>,
                 rs_ingest := (rs_ingest s)\<lparr>is_bad_keys := length bad,
                   is_bad_key_from := (if bad = [] then None else is_bad_key_from (rs_ingest s))\<rparr>\<rparr>
      in c\<lparr>c_bad_keys := bad, c_state := s1, c_shown := s1\<rparr>)"

section \<open>The lifecycle's facts and effects\<close>

definition facts_of :: "nat \<Rightarrow> core \<Rightarrow> facts" where
  "facts_of now c =
     (let e = c_engine c in
      \<lparr>f_destination = (rc_destination (c_config c) \<noteq> None),
       f_has_mark = (last_seq e \<noteq> None),
       f_end_reached = end_reached e,
       f_backlog_empty = (ct_backlog (c_counters c) = 0),
       f_drained = drained e,
       f_has_buffered = has_buffered e,
       f_output_wanted = output_wanted now e,
       f_connected = o_connected (out e),
       f_delay = effective_delay e\<rparr>)"

definition apply_effect :: "effect \<Rightarrow> core \<Rightarrow> core" where
  "apply_effect x c =
     (case x of
        StopEgress \<Rightarrow> send_ctl CtlStop c
      | AbortEgress \<Rightarrow> send_ctl CtlAbort c
      | Discard \<Rightarrow> on_engine discard c
      | MarkEnd \<Rightarrow>
          (case last_seq (c_engine c) of None \<Rightarrow> c | Some mark \<Rightarrow> on_engine (end_after mark) c)
      | CancelEnd \<Rightarrow> on_engine cancel_end c
      | RestartAfterEnd \<Rightarrow> on_engine restart_after_end c
      | Explain why \<Rightarrow> egress_error (ascii why) c)"

definition apply_effects :: "effect list \<Rightarrow> core \<Rightarrow> core" where
  "apply_effects fx c = fold apply_effect fx c"

text \<open>An event of the lifecycle, and what it asked for carried out.\<close>

definition run_life :: "(life \<Rightarrow> life) \<Rightarrow> core \<Rightarrow> core" where
  "run_life ev c = (let (l, fx) = ev (c_life c, []) in apply_effects fx (c\<lparr>c_life := l\<rparr>))"

section \<open>Dumps\<close>

definition start_dump :: "nat \<Rightarrow> delay_mode \<Rightarrow> bool \<Rightarrow> nat \<Rightarrow> core \<Rightarrow> core" where
  "start_dump now mode cover r c =
     (case c_dump c of
        Some p \<Rightarrow> c\<lparr>c_dump := Some (p\<lparr>pd_replies := pd_replies p @ [r]\<rparr>)\<rparr>
      | None \<Rightarrow>
          (let n = c_cut c + 1;
               c1 = send_ctl (CtlCut n)
                      (c\<lparr>c_cut := n, c_counters := (c_counters c)\<lparr>ct_cut := n\<rparr>\<rparr>)
           in c1\<lparr>c_dump := Some \<lparr>pd_mode = mode, pd_cover = cover, pd_replies = [r],
                                  pd_since = now\<rparr>\<rparr>))"

definition send_replies :: "nat list \<Rightarrow> (engine_error + ack) \<Rightarrow> core \<Rightarrow> core" where
  "send_replies rs res c = fold (\<lambda>r. send_reply (CommandReply r res)) rs c"

text \<open>\<^verbatim>\<open>finish_dump\<close>, with the answer and whether it came in time (in \<open>pd_mode\<close>).\<close>

definition finish_dump :: "nat \<Rightarrow> nat option \<Rightarrow> core \<Rightarrow> core" where
  "finish_dump now delivered c =
     (case c_dump c of
        None \<Rightarrow> c
      | Some p \<Rightarrow>
          (let mode = (if o_connected (out (c_engine c)) then pd_mode p else MaskMode);
               (e, res) = run_dump_after now delivered mode (pd_cover p) (c_engine c)
           in send_replies (pd_replies p) res
                (publish_state now (c\<lparr>c_dump := None, c_engine := e\<rparr>))))"

definition check_dump :: "nat \<Rightarrow> core \<Rightarrow> core" where
  "check_dump now c =
     (case c_dump c of
        None \<Rightarrow> c
      | Some p \<Rightarrow>
          if CUT_ANSWER_WAIT \<le> now - pd_since p
          then finish_dump now None (c\<lparr>c_dump := Some (p\<lparr>pd_mode := MaskMode\<rparr>)\<rparr>)
          else c)"

section \<open>Requests of the operator\<close>

text \<open>Without the connection a dump does not replay.\<close>

definition engine_command :: "nat \<Rightarrow> command \<Rightarrow> nat \<Rightarrow> core \<Rightarrow> core" where
  "engine_command now cmd r c =
     (let cmd1 = (case cmd of
                    DumpCmd _ cover \<Rightarrow>
                      if \<not> o_connected (out (c_engine c)) then DumpCmd MaskMode cover else cmd
                  | _ \<Rightarrow> cmd);
          (e, res) = run_command now cmd1 (c_engine c)
      in send_reply (CommandReply r res) (publish_state now (c\<lparr>c_engine := e\<rparr>)))"

definition set_destination :: "nat \<Rightarrow> destination option \<Rightarrow> core \<Rightarrow> core" where
  "set_destination now dest c =
     (let c1 = on_egress (\<lambda>s. s\<lparr>es_destination := map_option redacted dest, es_last_error := None\<rparr>) c;
          c2 = run_life destination_changed
                 (c1\<lparr>c_config := (c_config c1)\<lparr>rc_destination := dest\<rparr>\<rparr>)
      in publish_state now
           (on_egress (\<lambda>s. s\<lparr>es_status := resting_status (rc_destination (c_config c2))\<rparr>) c2))"

definition core_control :: "nat \<Rightarrow> control \<Rightarrow> core \<Rightarrow> core" where
  "core_control now req c =
     (case req of
        Command cmd r \<Rightarrow>
          (case cmd of
             DumpCmd mode cover \<Rightarrow>
               if can_dump (c_engine c) \<and> egress_on (c_life c)
               then start_dump now mode cover r c else engine_command now cmd r c
           | _ \<Rightarrow> engine_command now cmd r c)
      | SetDestination dest \<Rightarrow> set_destination now dest c
      | EndStream r \<Rightarrow> send_reply (DoneReply r) (publish_state now (run_life end_now c))
      | EndAfterAir r \<Rightarrow>
          send_reply (DoneReply r)
            (publish_state now (run_life (end_after_air now (facts_of now c)) c))
      | SetKeepHistory keep \<Rightarrow> publish_state now (on_engine (set_keep_history keep) c)
      | SetRestoreAfterReconnect restore \<Rightarrow> on_engine (set_restore_after_reconnect restore) c
      | Resume r \<Rightarrow> send_reply (DoneReply r) (publish_state now (run_life resume c)))"

section \<open>The encoder\<close>

definition is_publisher :: "nat \<Rightarrow> core \<Rightarrow> bool" where
  "is_publisher conn c \<longleftrightarrow> (case c_publisher c of None \<Rightarrow> False | Some p \<Rightarrow> p_conn p = conn)"

definition plain_rejection :: "bytes \<Rightarrow> rejection" where
  "plain_rejection reason = \<lparr>rj_reason = reason, rj_bad_key = False\<rparr>"

definition unknown_app :: "bytes \<Rightarrow> bytes \<Rightarrow> rejection" where
  "unknown_app app want =
     plain_rejection (ascii ''unknown application '' @ [0x27] @ untrusted app @ [0x27] @
       ascii '' (expected '' @ [0x27] @ want @ [0x27] @ ascii '')'')"

definition wrong_key :: rejection where
  "wrong_key = \<lparr>rj_reason = ascii ''wrong stream key for stream-delay'', rj_bad_key = True\<rparr>"

definition passthrough_needs_key :: rejection where
  "passthrough_needs_key =
     plain_rejection (ascii ''passthrough mode needs the destination stream key in the encoder'')"

definition already_streaming :: rejection where
  "already_streaming =
     plain_rejection (ascii ''another encoder is already streaming to stream-delay'')"

text \<open>\<^verbatim>\<open>accept_publisher\<close>: why a publish is refused, if it is.\<close>

definition refuse_publisher :: "nat \<Rightarrow> bytes \<Rightarrow> bytes \<Rightarrow> core \<Rightarrow> rejection option" where
  "refuse_publisher now app key c =
     (let cfg = c_config c in
      case (case rc_ingest_app cfg of None \<Rightarrow> None
            | Some want \<Rightarrow> if want \<noteq> app then Some (unknown_app app want) else None) of
        Some r \<Rightarrow> Some r
      | None \<Rightarrow>
          if (case rc_ingest_key cfg of None \<Rightarrow> False | Some want \<Rightarrow> \<not> same_key want key)
          then Some wrong_key
          else if (case rc_destination cfg of None \<Rightarrow> False | Some d \<Rightarrow> d_key d = Passthrough) \<and> key = []
          then Some passthrough_needs_key
          else if (case c_publisher c of None \<Rightarrow> False
                   | Some p \<Rightarrow> now - p_last_seen p < TAKEOVER_SILENCE)
          then Some already_streaming else None)"

definition accept_publisher ::
  "nat \<Rightarrow> nat \<Rightarrow> bytes \<Rightarrow> bytes \<Rightarrow> bytes \<Rightarrow> connect_props \<Rightarrow> core \<Rightarrow> core" where
  "accept_publisher now conn peer app key props c =
     (let old = c_publisher c;
          c1 = c\<lparr>c_publisher := None\<rparr>;
          c2 = run_life (publishing now (old \<noteq> None) (facts_of now c1)) c1;
          c3 = (case old of
                  None \<Rightarrow> c2
                | Some p \<Rightarrow> on_engine ingest_end (send_reply (CloseConn (p_conn p)) c2));
          c4 = on_engine (\<lambda>e. snd (ingest_start e)) c3
      in on_ingest (\<lambda>s. s\<lparr>is_connected := True, is_peer := Some peer, is_app := Some app,
                          is_last_error := None\<rparr>)
           (c4\<lparr>c_last_publisher := Some (key, props),
               c_publisher := Some \<lparr>p_conn = conn, p_last_seen = now\<rparr>\<rparr>))"

definition note_refusal :: "nat \<Rightarrow> bytes \<Rightarrow> rejection \<Rightarrow> core \<Rightarrow> core" where
  "note_refusal now ip r c =
     (let c1 = on_ingest (\<lambda>s. s\<lparr>is_last_error := Some (rj_reason r)\<rparr>) c
      in if rj_bad_key r
         then (let kept = (if BAD_KEYS_KEPT \<le> length (c_bad_keys c1)
                           then tl (c_bad_keys c1) else c_bad_keys c1)
               in on_ingest (\<lambda>s. s\<lparr>is_bad_key_from := Some ip\<rparr>)
                    (c1\<lparr>c_bad_keys := kept @ [now]\<rparr>))
         else c1)"

definition ingest_publish ::
  "nat \<Rightarrow> nat \<Rightarrow> bytes \<Rightarrow> bytes \<Rightarrow> bytes \<Rightarrow> bytes \<Rightarrow> connect_props \<Rightarrow> nat \<Rightarrow> core \<Rightarrow> core" where
  "ingest_publish now conn peer ip app key props r c =
     (let refused = refuse_publisher now app key c;
          c1 = (case refused of
                  None \<Rightarrow> accept_publisher now conn peer app key props c
                | Some why \<Rightarrow> note_refusal now ip why c)
      in publish_state now (send_reply (PublishReply r refused) c1))"

text \<open>Media or metadata of a connection: only the publisher's counts.\<close>

definition from_publisher :: "nat \<Rightarrow> nat \<Rightarrow> (engine \<Rightarrow> engine) \<Rightarrow> core \<Rightarrow> core" where
  "from_publisher now conn f c =
     (case c_publisher c of
        None \<Rightarrow> c
      | Some p \<Rightarrow>
          if p_conn p = conn
          then on_engine f (c\<lparr>c_publisher := Some (p\<lparr>p_last_seen := now\<rparr>)\<rparr>) else c)"

definition ingest_closed :: "nat \<Rightarrow> nat \<Rightarrow> bytes option \<Rightarrow> bool \<Rightarrow> core \<Rightarrow> core" where
  "ingest_closed now conn error unpublished c =
     (let c1 = (case error of
                  None \<Rightarrow> c
                | Some e \<Rightarrow>
                    publish_state now
                      (on_ingest (\<lambda>s. s\<lparr>is_last_error :=
                         Some (clip (ascii ''encoder connection failed: '' @ e))\<rparr>) c))
      in if is_publisher conn c1
         then (let (l, fx) = encoder_left now unpublished (c_life c1, []);
                   c2 = on_engine ingest_end (c1\<lparr>c_publisher := None, c_life := l\<rparr>)
               in publish_state now
                    (on_ingest (\<lambda>s. s\<lparr>is_connected := False, is_peer := None\<rparr>) c2))
         else c1)"

section \<open>The egress\<close>

definition egress_connected :: "nat \<Rightarrow> nat \<Rightarrow> core \<Rightarrow> core" where
  "egress_connected now r c =
     (let (generation, e) = output_connected now (c_engine c)
      in publish_state now
           (send_reply (ConnectedReply r generation)
             (c\<lparr>c_engine := e, c_generation := generation\<rparr>)))"

definition egress_disconnected :: "nat \<Rightarrow> nat option \<Rightarrow> bytes option \<Rightarrow> core \<Rightarrow> core" where
  "egress_disconnected now last_written error c =
     (let c1 = on_engine (output_disconnected last_written) c;
          c2 = (case error of
                  None \<Rightarrow> c1
                | Some e \<Rightarrow>
                    if egress_on (c_life c1)
                    then on_egress (\<lambda>s. s\<lparr>es_reconnects := es_reconnects s + 1,
                                          es_last_error := Some (clip e)\<rparr>) c1
                    else c1)
      in publish_state now c2)"

definition note_egress_status ::
  "nat \<Rightarrow> egress_status \<Rightarrow> bytes option \<Rightarrow> core \<Rightarrow> core" where
  "note_egress_status now status error c =
     (if \<not> egress_on (c_life c) \<and> status \<noteq> Waiting then c
      else
        (let shown = (if status = Waiting then resting_status (rc_destination (c_config c))
                      else status);
             c1 = on_egress (\<lambda>s. s\<lparr>es_status := shown\<rparr>) c;
             c2 = (if status = Live then on_egress (\<lambda>s. s\<lparr>es_last_error := None\<rparr>) c1 else c1);
             c3 = (case error of None \<Rightarrow> c2 | Some e \<Rightarrow> egress_error (clip e) c2)
         in publish_state now c3))"

definition core_event :: "nat \<Rightarrow> event \<Rightarrow> core \<Rightarrow> core" where
  "core_event now ev c =
     (case ev of
        IngestPublish conn peer ip app key props r \<Rightarrow>
          ingest_publish now conn peer ip app key props r c
      | IngestMedia conn k ts payload \<Rightarrow> from_publisher now conn (ingest now k ts payload) c
      | IngestMetadata conn payload \<Rightarrow> from_publisher now conn (ingest_metadata payload) c
      | IngestClosed conn error unpublished \<Rightarrow> ingest_closed now conn error unpublished c
      | EgressConnected r \<Rightarrow> egress_connected now r c
      | CutDone n _ delivered \<Rightarrow>
          if n = c_cut c then finish_dump now delivered c else c
      | EgressDisconnected last_written error \<Rightarrow> egress_disconnected now last_written error c
      | EgressStatus status error \<Rightarrow> note_egress_status now status error c)"

section \<open>Running the engine\<close>

definition target_of :: "destination \<Rightarrow> core \<Rightarrow> target option \<times> core" where
  "target_of d c =
     (case parse_url (d_url d) of
        Inl e \<Rightarrow>
          (None, egress_error (ascii ''invalid destination URL: '' @ url_error_text e) c)
      | Inr url \<Rightarrow>
          (let (publisher_key, props) =
                 (case c_last_publisher c of None \<Rightarrow> ([], []) | Some kp \<Rightarrow> kp)
           in case stream_key d url publisher_key of
                None \<Rightarrow> (None, egress_error (ascii ''no stream key configured'') c)
              | Some key \<Rightarrow> (Some \<lparr>tg_url = url, tg_key = key, tg_props = props\<rparr>, c)))"

definition start_egress :: "nat \<Rightarrow> core \<Rightarrow> core" where
  "start_egress now c =
     (case rc_destination (c_config c) of
        None \<Rightarrow> c
      | Some d \<Rightarrow>
          (case target_of d c of
             (Some target, c1) \<Rightarrow>
               send_ctl (CtlStart target) (c1\<lparr>c_life := fst (started now (c_life c1, []))\<rparr>)
           | (None, c1) \<Rightarrow> run_life (start_failed now) c1))"

definition manage_egress :: "nat \<Rightarrow> core \<Rightarrow> core" where
  "manage_egress now c =
     (let (tick, l, fx) = run_tick now (facts_of now c) (c_life c, []);
          c1 = apply_effects fx (c\<lparr>c_life := l\<rparr>);
          c2 = (if tick = TickStart then start_egress now c1 else c1)
      in if fx \<noteq> [] then publish_state now c2 else c2)"

definition queue_message :: "out_msg \<Rightarrow> core \<Rightarrow> core" where
  "queue_message m c =
     c\<lparr>c_counters := (c_counters c)
         \<lparr>ct_backlog := ct_backlog (c_counters c) + length (m_payload m)\<rparr>,
       c_media := c_media c @ [\<lparr>q_generation = c_generation c, q_cut = c_cut c, q_msg = m\<rparr>]\<rparr>"

definition egress_room :: "core \<Rightarrow> nat" where
  "egress_room c =
     (if c_dump c \<noteq> None then 0 else MAX_EGRESS_BACKLOG - ct_backlog (c_counters c))"

text \<open>\<^verbatim>\<open>pump\<close>: the engine's loop, what is due queued, the connection managed.\<close>

definition pump :: "(bytes \<Rightarrow> u64) \<Rightarrow> nat \<Rightarrow> core \<Rightarrow> (nat option \<times> core) option" where
  "pump fp now c =
     (case poll_budget fp now (egress_room c) (c_engine c, []) of
        None \<Rightarrow> None
      | Some (wake, e, outs) \<Rightarrow>
          Some (wake, manage_egress now (fold queue_message outs (c\<lparr>c_engine := e\<rparr>))))"

section \<open>The loop\<close>

text \<open>
  What a turn of the loop waits for: a request, an event, the wake-up the engine asked for,
  or the tick every 250 ms.
\<close>

datatype wakeup = OnControl control | OnEvent event | OnWake | OnTick

definition core_wakeup :: "nat \<Rightarrow> wakeup \<Rightarrow> core \<Rightarrow> core" where
  "core_wakeup now w c =
     (case w of
        OnControl req \<Rightarrow> core_control now req c
      | OnEvent ev \<Rightarrow> core_event now ev c
      | OnWake \<Rightarrow> c
      | OnTick \<Rightarrow> publish_state now (check_dump now c))"

definition core_turn :: "(bytes \<Rightarrow> u64) \<Rightarrow> nat \<Rightarrow> wakeup \<Rightarrow> core \<Rightarrow> (nat option \<times> core) option" where
  "core_turn fp now w c = pump fp now (core_wakeup now w c)"

text \<open>
  Shutting down: the connection is told to stop, and then events are read until the egress
  reports that it is idle (or the time is up, when the list ends): only a connection just
  made is answered, so that it proceeds to the stop.
\<close>

fun drain_events :: "event list \<Rightarrow> core \<Rightarrow> core" where
  "drain_events [] c = c"
| "drain_events (ev # evs) c =
     (case ev of
        EgressConnected r \<Rightarrow> drain_events evs (send_reply (ConnectedReply r (c_generation c)) c)
      | EgressStatus status _ \<Rightarrow> if status = Waiting then c else drain_events evs c
      | _ \<Rightarrow> drain_events evs c)"

definition shut_down :: "nat \<Rightarrow> event list \<Rightarrow> core \<Rightarrow> core" where
  "shut_down r evs c =
     send_reply (DoneReply r)
       (if egress_on (c_life c) then drain_events evs (send_ctl CtlStop c) else c)"

end
