(* ===== verification/Core_Engine.thy ===== *)
theory Core_Engine
  imports Core
begin

text \<open>
  The core and the engine: every turn of the core is a sequence of the engine's steps, so what
  holds of every state the engine reaches holds in the core; what a turn queues for the
  destination; and what of it a dump and the end of the stream take back.
\<close>

section \<open>What the core's helpers leave alone\<close>

lemma helper_fields [simp]:
  "c_engine (on_egress f c) = c_engine c" "c_engine (on_ingest g c) = c_engine c"
  "c_engine (send_ctl m c) = c_engine c" "c_engine (send_reply r c) = c_engine c"
  "c_engine (publish_state now c) = c_engine c" "c_engine (egress_error x c) = c_engine c"
  "c_life (on_egress f c) = c_life c" "c_life (on_ingest g c) = c_life c"
  "c_life (send_ctl m c) = c_life c" "c_life (send_reply r c) = c_life c"
  "c_life (publish_state now c) = c_life c" "c_life (egress_error x c) = c_life c"
  "c_life (on_engine h c) = c_life c"
  "c_ctl (on_egress f c) = c_ctl c" "c_ctl (on_ingest g c) = c_ctl c"
  "c_ctl (send_ctl m c) = c_ctl c @ [m]" "c_ctl (send_reply r c) = c_ctl c"
  "c_ctl (publish_state now c) = c_ctl c" "c_ctl (egress_error x c) = c_ctl c"
  "c_ctl (on_engine h c) = c_ctl c"
  "c_cut (on_egress f c) = c_cut c" "c_cut (on_ingest g c) = c_cut c"
  "c_cut (send_ctl m c) = c_cut c" "c_cut (send_reply r c) = c_cut c"
  "c_cut (publish_state now c) = c_cut c" "c_cut (egress_error x c) = c_cut c"
  "c_cut (on_engine h c) = c_cut c"
  "c_dump (on_egress f c) = c_dump c" "c_dump (on_ingest g c) = c_dump c"
  "c_dump (send_ctl m c) = c_dump c" "c_dump (send_reply r c) = c_dump c"
  "c_dump (publish_state now c) = c_dump c" "c_dump (egress_error x c) = c_dump c"
  "c_dump (on_engine h c) = c_dump c"
  "c_media (on_egress f c) = c_media c" "c_media (on_ingest g c) = c_media c"
  "c_media (send_ctl m c) = c_media c" "c_media (send_reply r c) = c_media c"
  "c_media (publish_state now c) = c_media c" "c_media (egress_error x c) = c_media c"
  "c_media (on_engine h c) = c_media c"
  "c_generation (on_egress f c) = c_generation c" "c_generation (on_ingest g c) = c_generation c"
  "c_generation (send_ctl m c) = c_generation c" "c_generation (send_reply r c) = c_generation c"
  "c_generation (publish_state now c) = c_generation c"
  "c_generation (egress_error x c) = c_generation c" "c_generation (on_engine h c) = c_generation c"
  "c_counters (on_egress f c) = c_counters c" "c_counters (on_ingest g c) = c_counters c"
  "c_counters (send_ctl m c) = c_counters c" "c_counters (send_reply r c) = c_counters c"
  "c_counters (publish_state now c) = c_counters c" "c_counters (egress_error x c) = c_counters c"
  "c_counters (on_engine h c) = c_counters c"
  "c_engine (on_engine h c) = h (c_engine c)"
  by (simp_all add: on_egress_def on_ingest_def send_ctl_def send_reply_def publish_state_def
      egress_error_def on_engine_def Let_def)

lemma send_replies_fields [simp]:
  "c_engine (send_replies rs res c) = c_engine c" "c_life (send_replies rs res c) = c_life c"
  "c_ctl (send_replies rs res c) = c_ctl c" "c_cut (send_replies rs res c) = c_cut c"
  "c_dump (send_replies rs res c) = c_dump c" "c_media (send_replies rs res c) = c_media c"
  "c_generation (send_replies rs res c) = c_generation c"
  "c_counters (send_replies rs res c) = c_counters c"
  "c_replies (send_replies rs res c) = c_replies c @ map (\<lambda>r. CommandReply r res) rs"
  by (induction rs arbitrary: c) (simp_all add: send_replies_def send_reply_def)

section \<open>A turn is a sequence of the engine's steps\<close>

text \<open>
  \<open>steps fp c c'\<close>: the engine of \<open>c'\<close> is reached from that of \<open>c\<close>. What the operations
  do to the engine, in the order the code has them, each one of its steps.
\<close>

definition steps :: "(bytes \<Rightarrow> u64) \<Rightarrow> core \<Rightarrow> core \<Rightarrow> bool" where
  "steps fp c c' \<longleftrightarrow> (engine_step fp)\<^sup>*\<^sup>* (c_engine c) (c_engine c')"

named_theorems steps_intros

lemma steps_refl [intro, simp]: "c_engine c' = c_engine c \<Longrightarrow> steps fp c c'"
  by (simp add: steps_def)

lemma steps_trans [trans]: "steps fp a b \<Longrightarrow> steps fp b c \<Longrightarrow> steps fp a c"
  unfolding steps_def by (rule rtranclp_trans)

lemma steps_one: "engine_step fp (c_engine c) (c_engine c') \<Longrightarrow> steps fp c c'"
  by (simp add: steps_def)

lemma steps_engine: "c_engine c1 = c_engine c \<Longrightarrow> c_engine c2 = c_engine c' \<Longrightarrow>
    steps fp c c' = steps fp c1 c2"
  by (simp add: steps_def)

lemma steps_apply_effect: "steps fp c (apply_effect x c)"
  by (cases x)
    (auto simp: apply_effect_def last_seq_def checked_sub_def split: option.split
      intro!: steps_one engine_step.discard engine_step.end_after engine_step.cancel_end
        engine_step.restart)

lemma steps_apply_effects: "steps fp c (apply_effects fx c)"
proof (induction fx arbitrary: c)
  case (Cons x fx)
  from steps_trans [OF steps_apply_effect Cons.IH] show ?case by (simp add: apply_effects_def)
qed (simp add: apply_effects_def)

lemma steps_run_life: "steps fp c (run_life ev c)"
  using steps_apply_effects [of fp "c\<lparr>c_life := fst (ev (c_life c, []))\<rparr>"]
  by (auto simp: run_life_def steps_def split: prod.split)

lemma steps_start_dump: "steps fp c (start_dump now mode cover r c)"
  by (auto simp: start_dump_def Let_def split: option.split)

lemma steps_finish_dump: "steps fp c (finish_dump now delivered c)"
proof (cases "c_dump c")
  case (Some p)
  let ?mode = "if o_connected (out (c_engine c)) then pd_mode p else MaskMode"
  obtain e res where r: "run_dump_after now delivered ?mode (pd_cover p) (c_engine c) = (e, res)"
    by (rule prod.exhaust)
  have "engine_step fp (c_engine c) e"
    using engine_step.dump_after [of fp "c_engine c" now delivered ?mode "pd_cover p"]
    unfolding r by simp
  moreover have "c_engine (finish_dump now delivered c) = e"
    using Some r by (simp add: finish_dump_def Let_def)
  ultimately show ?thesis by (intro steps_one) simp
qed (simp add: finish_dump_def)

lemma steps_check_dump: "steps fp c (check_dump now c)"
  using steps_finish_dump [of fp "c\<lparr>c_dump := d\<rparr>" now None for d]
  by (auto simp: check_dump_def steps_def split: option.split)

lemma steps_engine_command: "steps fp c (engine_command now cmd r c)"
  by (auto simp: engine_command_def Let_def split: prod.split intro!: steps_one)
    (metis engine_step.command fst_conv)

lemma steps_control: "steps fp c (core_control now req c)"
proof (cases req)
  case (Command cmd r)
  then show ?thesis
    by (auto simp: core_control_def steps_start_dump steps_engine_command split: command.split)
next
  case (SetDestination dest)
  then show ?thesis
    using steps_run_life [of fp "(on_egress f c)\<lparr>c_config := g\<rparr>" ev for f g ev]
    by (simp add: core_control_def set_destination_def Let_def steps_def)
qed (use steps_run_life in \<open>auto simp: core_control_def steps_def
      intro: r_into_rtranclp engine_step.keep_history engine_step.restore\<close>)

lemma steps_accept: "steps fp c (accept_publisher now conn peer app key props c)"
proof -
  let ?c1 = "c\<lparr>c_publisher := None\<rparr>"
  let ?c2 = "run_life (publishing now (c_publisher c \<noteq> None) (facts_of now ?c1)) ?c1"
  have 1: "(engine_step fp)\<^sup>*\<^sup>* (c_engine c) (c_engine ?c2)"
    using steps_run_life [of fp ?c1] by (simp add: steps_def)
  have 2: "engine_step fp e (ingest_end e)" "engine_step fp e (snd (ingest_start e))" for e
    by (rule engine_step.intros)+
  have more: "(engine_step fp)\<^sup>*\<^sup>* a (snd (ingest_start b))" if "(engine_step fp)\<^sup>*\<^sup>* a b" for a b
    using that 2(2) by (rule rtranclp.rtrancl_into_rtrancl)
  have gone: "(engine_step fp)\<^sup>*\<^sup>* a (ingest_end b)" if "(engine_step fp)\<^sup>*\<^sup>* a b" for a b
    using that 2(1) by (rule rtranclp.rtrancl_into_rtrancl)
  show ?thesis
  proof (cases "c_publisher c")
    case None
    with more [OF 1] show ?thesis by (simp add: steps_def accept_publisher_def Let_def)
  next
    case (Some p)
    with more [OF gone [OF 1]] show ?thesis by (simp add: steps_def accept_publisher_def Let_def)
  qed
qed

lemma steps_event: "steps fp c (core_event now ev c)"
proof (cases ev)
  case (IngestPublish conn peer ip app key props r)
  then show ?thesis
    using steps_accept [of fp c now conn peer app key props]
    by (auto simp: core_event_def ingest_publish_def Let_def note_refusal_def steps_def
        split: option.split)
next
  case (EgressConnected r)
  have "engine_step fp (c_engine c) (snd (output_connected now (c_engine c)))"
    by (rule engine_step.connected)
  with EgressConnected show ?thesis
    by (auto simp: core_event_def egress_connected_def steps_def split: prod.split)
next
  case (IngestClosed conn error unpublished)
  then show ?thesis
    by (auto simp: core_event_def ingest_closed_def Let_def steps_def split: prod.split option.split
        intro: r_into_rtranclp engine_step.ingest_end)
next
  case (EgressDisconnected last_written error)
  then show ?thesis
    by (auto simp: core_event_def egress_disconnected_def Let_def steps_def split: option.split
        intro: r_into_rtranclp engine_step.disconnected)
next
  case (EgressStatus status error)
  then show ?thesis
    by (auto simp: core_event_def note_egress_status_def Let_def split: option.split)
qed (auto simp: core_event_def from_publisher_def steps_def steps_finish_dump [unfolded steps_def]
      split: option.split
      intro: r_into_rtranclp engine_step.ingest engine_step.ingest_metadata)

lemma steps_wakeup: "steps fp c (core_wakeup now w c)"
  using steps_control steps_event steps_check_dump
  by (cases w) (auto simp: core_wakeup_def steps_def)

lemma target_of_fields [simp]:
  "c_engine (snd (target_of d c)) = c_engine c" "c_life (snd (target_of d c)) = c_life c"
  "c_ctl (snd (target_of d c)) = c_ctl c" "c_cut (snd (target_of d c)) = c_cut c"
  "c_dump (snd (target_of d c)) = c_dump c" "c_media (snd (target_of d c)) = c_media c"
  "c_generation (snd (target_of d c)) = c_generation c"
  "c_counters (snd (target_of d c)) = c_counters c"
  by (auto simp: target_of_def Let_def split: sum.split option.split prod.split)

lemma steps_start_egress: "steps fp c (start_egress now c)"
proof (cases "rc_destination (c_config c)")
  case (Some d)
  obtain t c1 where t: "target_of d c = (t, c1)" by (rule prod.exhaust)
  then have "c_engine c1 = c_engine c" using target_of_fields(1) [of d c] by simp
  with Some t steps_run_life [of fp c1 "start_failed now"] show ?thesis
    by (cases t) (simp_all add: start_egress_def steps_def)
qed (simp add: start_egress_def)

lemma steps_manage_egress: "steps fp c (manage_egress now c)"
proof -
  obtain tick l fx where r: "run_tick now (facts_of now c) (c_life c, []) = (tick, l, fx)"
    by (metis prod_cases3)
  let ?c1 = "apply_effects fx (c\<lparr>c_life := l\<rparr>)"
  let ?c2 = "if tick = TickStart then start_egress now ?c1 else ?c1"
  have "steps fp c ?c1" using steps_apply_effects [of fp "c\<lparr>c_life := l\<rparr>"] by (simp add: steps_def)
  moreover have "steps fp ?c1 ?c2" by (simp add: steps_start_egress)
  ultimately have "steps fp c ?c2" by (rule steps_trans)
  moreover have "c_engine (manage_egress now c) = c_engine ?c2"
    using r by (simp add: manage_egress_def Let_def)
  ultimately show ?thesis by (simp add: steps_def)
qed

lemma queue_fields [simp]:
  "c_engine (fold queue_message ms c) = c_engine c" "c_life (fold queue_message ms c) = c_life c"
  "c_ctl (fold queue_message ms c) = c_ctl c" "c_cut (fold queue_message ms c) = c_cut c"
  "c_dump (fold queue_message ms c) = c_dump c"
  "c_generation (fold queue_message ms c) = c_generation c"
  "c_media (fold queue_message ms c) = c_media c @
     map (\<lambda>m. \<lparr>q_generation = c_generation c, q_cut = c_cut c, q_msg = m\<rparr>) ms"
  by (induction ms arbitrary: c) (simp_all add: queue_message_def)

lemma steps_pump: "pump fp now c = Some (wake, c') \<Longrightarrow> steps fp c c'"
proof -
  assume p: "pump fp now c = Some (wake, c')"
  then obtain e outs where b: "poll_budget fp now (egress_room c) (c_engine c, []) = Some (wake, e, outs)"
    and c': "c' = manage_egress now (fold queue_message outs (c\<lparr>c_engine := e\<rparr>))"
    by (auto simp: pump_def split: option.splits)
  have "steps fp c (fold queue_message outs (c\<lparr>c_engine := e\<rparr>))"
    using engine_step.poll [OF b] by (intro steps_one) simp
  from steps_trans [OF this steps_manage_egress] show ?thesis using c' by simp
qed

lemma steps_turn: "core_turn fp now w c = Some (wake, c') \<Longrightarrow> steps fp c c'"
  unfolding core_turn_def using steps_trans [OF steps_wakeup] steps_pump by blast

section \<open>What a turn queues\<close>

lemma apply_effects_fields [simp]:
  "c_life (apply_effects fx c) = c_life c" "c_cut (apply_effects fx c) = c_cut c"
  "c_dump (apply_effects fx c) = c_dump c" "c_media (apply_effects fx c) = c_media c"
  "c_generation (apply_effects fx c) = c_generation c"
  "c_counters (apply_effects fx c) = c_counters c"
proof -
  have one: "c_life (apply_effect x c) = c_life c \<and> c_cut (apply_effect x c) = c_cut c \<and>
      c_dump (apply_effect x c) = c_dump c \<and> c_media (apply_effect x c) = c_media c \<and>
      c_generation (apply_effect x c) = c_generation c \<and>
      c_counters (apply_effect x c) = c_counters c" for x c
    by (cases x) (auto simp: apply_effect_def split: option.split)
  have "c_life (apply_effects fx c) = c_life c \<and> c_cut (apply_effects fx c) = c_cut c \<and>
      c_dump (apply_effects fx c) = c_dump c \<and> c_media (apply_effects fx c) = c_media c \<and>
      c_generation (apply_effects fx c) = c_generation c \<and>
      c_counters (apply_effects fx c) = c_counters c"
    unfolding apply_effects_def by (induction fx arbitrary: c) (simp_all add: one)
  then show "c_life (apply_effects fx c) = c_life c" "c_cut (apply_effects fx c) = c_cut c"
    "c_dump (apply_effects fx c) = c_dump c" "c_media (apply_effects fx c) = c_media c"
    "c_generation (apply_effects fx c) = c_generation c"
    "c_counters (apply_effects fx c) = c_counters c" by auto
qed

lemma run_life_fields [simp]:
  "c_life (run_life ev c) = fst (ev (c_life c, []))" "c_cut (run_life ev c) = c_cut c"
  "c_dump (run_life ev c) = c_dump c" "c_media (run_life ev c) = c_media c"
  "c_generation (run_life ev c) = c_generation c" "c_counters (run_life ev c) = c_counters c"
  by (simp_all add: run_life_def split: prod.split)

lemma start_egress_fields [simp]:
  "c_cut (start_egress now c) = c_cut c" "c_dump (start_egress now c) = c_dump c"
  "c_media (start_egress now c) = c_media c" "c_generation (start_egress now c) = c_generation c"
  "c_counters (start_egress now c) = c_counters c"
proof -
  have "c_cut (start_egress now c) = c_cut c \<and> c_dump (start_egress now c) = c_dump c \<and>
    c_media (start_egress now c) = c_media c \<and> c_generation (start_egress now c) = c_generation c \<and>
    c_counters (start_egress now c) = c_counters c"
  proof (cases "rc_destination (c_config c)")
    case (Some d)
    obtain t c1 where t: "target_of d c = (t, c1)" by (rule prod.exhaust)
    with Some target_of_fields [of d c] show ?thesis
      by (cases t) (simp_all add: start_egress_def)
  qed (simp add: start_egress_def)
  then show "c_cut (start_egress now c) = c_cut c" "c_dump (start_egress now c) = c_dump c"
    "c_media (start_egress now c) = c_media c" "c_generation (start_egress now c) = c_generation c"
    "c_counters (start_egress now c) = c_counters c" by auto
qed

lemma manage_egress_fields [simp]:
  "c_cut (manage_egress now c) = c_cut c" "c_dump (manage_egress now c) = c_dump c"
  "c_media (manage_egress now c) = c_media c" "c_generation (manage_egress now c) = c_generation c"
  "c_counters (manage_egress now c) = c_counters c"
  by (simp_all add: manage_egress_def Let_def split: prod.split)

lemma wakeup_media [simp]: "c_media (core_wakeup now w c) = c_media c"
proof -
  have dump: "c_media (start_dump t mode cover r c) = c_media c"
    "c_media (finish_dump t delivered c) = c_media c" for t mode cover r delivered c
    by (auto simp: start_dump_def finish_dump_def Let_def split: option.split prod.split)
  have check: "c_media (check_dump t c) = c_media c" for t
    by (simp add: check_dump_def dump split: option.split)
  have cmd: "c_media (engine_command t cmd r c) = c_media c" for t cmd r
    by (simp add: engine_command_def Let_def split: prod.split)
  have ctl: "c_media (core_control now req c) = c_media c" for req
    by (cases req)
      (auto simp: core_control_def dump cmd set_destination_def Let_def split: command.split)
  have pub: "c_media (accept_publisher now conn peer app key props c) = c_media c"
    for conn peer app key props
    by (auto simp: accept_publisher_def Let_def split: option.split)
  have "c_media (core_event now ev c) = c_media c" for ev
    by (cases ev)
      (auto simp: core_event_def dump pub ingest_publish_def note_refusal_def from_publisher_def
        ingest_closed_def egress_connected_def egress_disconnected_def note_egress_status_def
        Let_def split: option.split prod.split)
  with ctl check show ?thesis by (cases w) (simp_all add: core_wakeup_def)
qed

text \<open>
  What a turn queues is what the engine's loop sends with the room there is, marked with the
  connection and the dump it was made for.
\<close>

lemma turn_queues:
  assumes "core_turn fp now w c = Some (wake, c')"
  obtains wk e ms c1 where "c1 = core_wakeup now w c"
    and "poll_budget fp now (egress_room c1) (c_engine c1, []) = Some (wk, e, ms)"
    and "c_media c' = c_media c @
      map (\<lambda>m. \<lparr>q_generation = c_generation c', q_cut = c_cut c', q_msg = m\<rparr>) ms"
    and "c_generation c' = c_generation c1" and "c_cut c' = c_cut c1" and "c_dump c' = c_dump c1"
  using assms by (auto simp: core_turn_def pump_def split: option.splits)

section \<open>The states the core reaches\<close>

text \<open>
  Between two turns the egress may have written what it was sent, and what the last turn put
  into the channels has been taken out of them.
\<close>

definition between :: "nat \<Rightarrow> nat \<Rightarrow> core \<Rightarrow> core" where
  "between backlog written c =
     c\<lparr>c_counters := (c_counters c)\<lparr>ct_backlog := backlog, ct_written := written\<rparr>,
       c_ctl := [], c_media := [], c_replies := []\<rparr>"

lemma between_fields [simp]:
  "c_engine (between b x c) = c_engine c" "c_life (between b x c) = c_life c"
  "c_cut (between b x c) = c_cut c" "c_dump (between b x c) = c_dump c"
  "c_generation (between b x c) = c_generation c" "c_ctl (between b x c) = []"
  "c_media (between b x c) = []" "c_replies (between b x c) = []"
  "ct_cut (c_counters (between b x c)) = ct_cut (c_counters c)"
  by (simp_all add: between_def)

inductive core_step :: "(bytes \<Rightarrow> u64) \<Rightarrow> core \<Rightarrow> core \<Rightarrow> bool" for fp where
  turn: "core_turn fp now w (between backlog written c) = Some (wake, c') \<Longrightarrow> core_step fp c c'"

inductive_cases core_stepE: "core_step fp c c'"

lemma core_steps_engine: "(core_step fp)\<^sup>*\<^sup>* c c' \<Longrightarrow> steps fp c c'"
proof (induction rule: rtranclp_induct)
  case (step c1 c2)
  from step.hyps(2) have "steps fp c1 c2"
    by (auto elim!: core_stepE dest!: steps_turn simp: steps_def)
  with step.IH show ?case by (rule steps_trans)
qed simp

text \<open>
  In every well-formed state a turn completes and the engine's state stays well formed.
\<close>

lemma steps_wf: "steps fp c c' \<Longrightarrow> engine_wf (c_engine c) \<Longrightarrow> engine_wf (c_engine c')"
  unfolding steps_def by (rule engine_machine.steps_inv)

lemma turn_completes:
  assumes "engine_wf (c_engine c)"
  shows "\<exists>wake c'. core_turn fp now w c = Some (wake, c')"
proof -
  let ?c1 = "core_wakeup now w c"
  have "buf_wf (c_engine ?c1)"
    using steps_wf [OF steps_wakeup assms] by (simp add: engine_wf_def)
  then obtain wk e ms where
    "poll_budget fp now (egress_room ?c1) (c_engine ?c1, []) = Some (wk, e, [] @ ms)"
    using poll_budget_keeps [OF _ holds_back_zero] by blast
  then show ?thesis by (simp add: core_turn_def pump_def)
qed

end
