(* ===== verification/Core_Protocol.thy ===== *)
theory Core_Protocol
  imports Core_Engine
begin

text \<open>
  What the core tells the egress, as an automaton (\<open>ctl_spec\<close>): connections are started and
  stopped in turn, and dumps are numbered one after another and announced only while a
  connection is on. Every operation of the core follows it (\<open>says\<close>), from the lifecycle's
  count of the effects that stop a connection.
\<close>

section \<open>The automaton\<close>

text \<open>Its state is whether a connection is on, and the number of the latest dump.\<close>

fun ctl_spec :: "bool \<times> nat \<Rightarrow> egress_ctl \<Rightarrow> (bool \<times> nat) option" where
  "ctl_spec (on, n) (CtlStart t) = (if on then None else Some (True, n))"
| "ctl_spec (on, n) CtlStop = (if on then Some (False, n) else None)"
| "ctl_spec (on, n) CtlAbort = (if on then Some (False, n) else None)"
| "ctl_spec (on, n) (CtlCut m) = (if on \<and> m = n + 1 then Some (True, m) else None)"

definition ctl_state :: "core \<Rightarrow> bool \<times> nat" where
  "ctl_state c = (egress_on (c_life c), c_cut c)"

definition says :: "core \<Rightarrow> core \<Rightarrow> bool" where
  "says c c' \<longleftrightarrow>
     (\<exists>ms. c_ctl c' = c_ctl c @ ms \<and> spec_run ctl_spec (ctl_state c) ms = Some (ctl_state c'))"

lemma says_refl: "c_ctl c' = c_ctl c \<Longrightarrow> ctl_state c' = ctl_state c \<Longrightarrow> says c c'"
  by (auto simp: says_def intro: exI [of _ "[]"])

lemma says_trans [trans]: "says a b \<Longrightarrow> says b c \<Longrightarrow> says a c"
  by (fastforce simp: says_def spec_run_append)

lemma says_same:
  "says a b \<Longrightarrow> c_ctl a' = c_ctl a \<Longrightarrow> ctl_state a' = ctl_state a \<Longrightarrow> c_ctl b' = c_ctl b \<Longrightarrow>
   ctl_state b' = ctl_state b \<Longrightarrow> says a' b'"
  by (simp add: says_def)

lemma ctl_state_same [simp]:
  "ctl_state (on_egress f c) = ctl_state c" "ctl_state (on_ingest g c) = ctl_state c"
  "ctl_state (send_ctl m c) = ctl_state c" "ctl_state (send_reply r c) = ctl_state c"
  "ctl_state (publish_state now c) = ctl_state c" "ctl_state (egress_error x c) = ctl_state c"
  "ctl_state (on_engine h c) = ctl_state c" "ctl_state (send_replies rs res c) = ctl_state c"
  "ctl_state (apply_effects fx c) = ctl_state c" "ctl_state (fold queue_message ms c) = ctl_state c"
  "ctl_state (snd (target_of d c)) = ctl_state c"
  by (simp_all add: ctl_state_def target_of_def Let_def split: sum.split option.split prod.split)

lemma ctl_state_frame:
  "c_life c' = c_life c \<Longrightarrow> c_cut c' = c_cut c \<Longrightarrow> ctl_state c' = ctl_state c"
  by (simp add: ctl_state_def)

section \<open>The lifecycle's effects\<close>

definition ctl_of :: "effect list \<Rightarrow> egress_ctl list" where
  "ctl_of fx = concat (map (\<lambda>x. case x of StopEgress \<Rightarrow> [CtlStop] | AbortEgress \<Rightarrow> [CtlAbort] | _ \<Rightarrow> []) fx)"

lemma apply_effects_ctl: "c_ctl (apply_effects fx c) = c_ctl c @ ctl_of fx"
proof -
  have one: "c_ctl (apply_effect x c) = c_ctl c @ ctl_of [x]" for x c
    by (cases x) (auto simp: apply_effect_def ctl_of_def split: option.split)
  show ?thesis
    unfolding apply_effects_def
    by (induction fx arbitrary: c) (simp_all add: one ctl_of_def)
qed

lemma ctl_of_stops: "length (ctl_of fx) = stops fx" "set (ctl_of fx) \<subseteq> {CtlStop, CtlAbort}"
  by (induction fx) (auto simp: ctl_of_def split: effect.split)

lemma tidy_says:
  assumes "tidy l s"
  shows "spec_run ctl_spec (egress_on l, n) (ctl_of (snd s)) = Some (egress_on (fst s), n)"
proof -
  from assms have st: "stops (snd s) = (if egress_on l \<and> \<not> egress_on (fst s) then 1 else 0)"
    and on: "egress_on (fst s) \<Longrightarrow> egress_on l" by (auto simp: tidy_def)
  show ?thesis
  proof (cases "egress_on l \<and> \<not> egress_on (fst s)")
    case True
    with st ctl_of_stops [of "snd s"] obtain m where "ctl_of (snd s) = [m]" "m \<in> {CtlStop, CtlAbort}"
      by (auto simp: length_Suc_conv)
    with True show ?thesis by auto
  next
    case False
    with st ctl_of_stops(1) [of "snd s"] have "ctl_of (snd s) = []" by simp
    with False on show ?thesis by auto
  qed
qed

lemma says_life:
  assumes "tidy (c_life c) (l, fx)"
  shows "says c (apply_effects fx (c\<lparr>c_life := l\<rparr>))"
  using tidy_says [OF assms, of "c_cut c"]
  by (simp add: says_def apply_effects_ctl ctl_state_def)

lemma says_run_life: "tidy (c_life c) (ev (c_life c, [])) \<Longrightarrow> says c (run_life ev c)"
  using says_life [of c "fst (ev (c_life c, []))" "snd (ev (c_life c, []))"]
  by (simp add: run_life_def split: prod.split) (metis fst_conv snd_conv)

section \<open>The operations\<close>

lemma says_finish_dump: "says c (finish_dump now delivered c)"
  by (rule says_refl)
    (auto simp: finish_dump_def Let_def ctl_state_def split: option.split prod.split)

lemma says_check_dump: "says c (check_dump now c)"
  using says_finish_dump [of "c\<lparr>c_dump := d\<rparr>" now None for d]
  by (auto simp: check_dump_def says_def ctl_state_def split: option.split)

lemma says_start_dump: "egress_on (c_life c) \<Longrightarrow> says c (start_dump now mode cover r c)"
  by (auto simp: start_dump_def Let_def says_def ctl_state_def split: option.split)

lemma says_engine_command: "says c (engine_command now cmd r c)"
  by (rule says_refl) (auto simp: engine_command_def Let_def ctl_state_def split: prod.split)

lemma says_set_destination: "says c (set_destination now dest c)"
proof -
  let ?c1 = "(on_egress (\<lambda>s. s\<lparr>es_destination := map_option redacted dest, es_last_error := None\<rparr>) c)"
  let ?c2 = "?c1\<lparr>c_config := (c_config ?c1)\<lparr>rc_destination := dest\<rparr>\<rparr>"
  have "says ?c2 (run_life destination_changed ?c2)"
    by (rule says_run_life) (rule tidy_events)
  then show ?thesis
    by (rule says_same) (simp_all add: set_destination_def Let_def ctl_state_def)
qed

lemma says_control: "says c (core_control now req c)"
proof (cases req)
  case (Command cmd r)
  then show ?thesis
    by (auto simp: core_control_def says_start_dump says_engine_command split: command.split)
next
  case (SetDestination dest)
  then show ?thesis by (simp add: core_control_def says_set_destination)
next
  case (EndStream r)
  have "says c (run_life end_now c)" by (rule says_run_life) (rule tidy_events)
  then show ?thesis by (rule says_same) (simp_all add: core_control_def EndStream)
next
  case (EndAfterAir r)
  have "says c (run_life (end_after_air now (facts_of now c)) c)"
    by (rule says_run_life) (rule tidy_end_after_air)
  then show ?thesis by (rule says_same) (simp_all add: core_control_def EndAfterAir)
next
  case (Resume r)
  have "says c (run_life resume c)" by (rule says_run_life) (rule tidy_events)
  then show ?thesis by (rule says_same) (simp_all add: core_control_def Resume)
qed (simp_all add: core_control_def says_refl)

lemma says_accept: "says c (accept_publisher now conn peer app key props c)"
proof -
  let ?c1 = "c\<lparr>c_publisher := None\<rparr>"
  have "says ?c1 (run_life (publishing now (c_publisher c \<noteq> None) (facts_of now ?c1)) ?c1)"
    by (rule says_run_life) (rule tidy_publishing)
  then show ?thesis
    by (rule says_same)
      (auto simp: accept_publisher_def Let_def ctl_state_def split: option.split)
qed

lemma says_event: "says c (core_event now ev c)"
proof (cases ev)
  case (IngestPublish conn peer ip app key props r)
  show ?thesis
  proof (cases "refuse_publisher now app key c")
    case None
    have "says c (publish_state now (send_reply (PublishReply r None)
        (accept_publisher now conn peer app key props c)))"
      using says_accept by (rule says_same) simp_all
    with None IngestPublish show ?thesis by (simp add: core_event_def ingest_publish_def Let_def)
  next
    case (Some why)
    with IngestPublish show ?thesis
      by (intro says_refl)
        (simp_all add: core_event_def ingest_publish_def Let_def note_refusal_def ctl_state_def)
  qed
next
  case (IngestClosed conn error unpublished)
  then show ?thesis
    by (intro says_refl)
      (auto simp: core_event_def ingest_closed_def Let_def ctl_state_def encoder_left_def
        egress_on_def split: prod.split option.split if_splits)
next
  case (EgressConnected r)
  then show ?thesis
    by (intro says_refl)
      (auto simp: core_event_def egress_connected_def ctl_state_def split: prod.split)
next
  case (EgressDisconnected last_written error)
  then show ?thesis
    by (intro says_refl)
      (auto simp: core_event_def egress_disconnected_def Let_def split: option.split)
next
  case (EgressStatus status error)
  then show ?thesis
    by (intro says_refl)
      (auto simp: core_event_def note_egress_status_def Let_def split: option.split)
qed (auto simp: core_event_def from_publisher_def ctl_state_def says_finish_dump
      intro: says_refl split: option.split)

lemma says_wakeup: "says c (core_wakeup now w c)"
  using says_control says_event says_same [OF says_check_dump]
  by (cases w) (simp_all add: core_wakeup_def says_refl)

lemma says_start_egress: "\<not> egress_on (c_life c) \<Longrightarrow> says c (start_egress now c)"
proof (cases "rc_destination (c_config c)")
  case (Some d)
  assume off: "\<not> egress_on (c_life c)"
  obtain t c1 where t: "target_of d c = (t, c1)" by (rule prod.exhaust)
  have c1: "c_ctl c1 = c_ctl c" "c_life c1 = c_life c" "c_cut c1 = c_cut c"
    using target_of_fields(2-4) [of d c] t by auto
  show ?thesis
  proof (cases t)
    case None
    have "tidy (c_life c1) (start_failed now (c_life c1, []))"
      using tidy_finish(1) tidy_refl by (simp add: start_failed_def)
    then have "says c1 (run_life (start_failed now) c1)" by (rule says_run_life)
    then have "says c (run_life (start_failed now) c1)"
      by (rule says_same) (simp_all add: c1 ctl_state_def)
    with Some t None show ?thesis by (simp add: start_egress_def)
  next
    case (Some target)
    with off t c1 \<open>rc_destination (c_config c) = Some d\<close> show ?thesis
      by (auto simp: start_egress_def says_def ctl_state_def started_def egress_on_def)
  qed
qed (simp add: start_egress_def says_refl)

lemma says_manage_egress: "says c (manage_egress now c)"
proof -
  obtain tick l fx where r: "run_tick now (facts_of now c) (c_life c, []) = (tick, l, fx)"
    by (metis prod_cases3)
  let ?c1 = "apply_effects fx (c\<lparr>c_life := l\<rparr>)"
  let ?c2 = "if tick = TickStart then start_egress now ?c1 else ?c1"
  have t: "tidy (c_life c) (l, fx)" "tick = TickStart \<Longrightarrow> l = c_life c"
    using tidy_tick [OF r] by auto
  have off: "tick = TickStart \<Longrightarrow> \<not> egress_on (c_life c)"
    using tick_start_iff [of now "facts_of now c" "c_life c"] r by (simp add: may_start_def)
  have "says c ?c1" using t(1) by (rule says_life)
  moreover have "says ?c1 ?c2" using t(2) off by (simp add: says_start_egress says_refl)
  ultimately have "says c ?c2" by (rule says_trans)
  then show ?thesis by (rule says_same) (simp_all add: r manage_egress_def Let_def)
qed

lemma says_turn:
  assumes "core_turn fp now w c = Some (wake, c')"
  shows "says (core_wakeup now w c) c'" "says c c'"
proof -
  let ?c1 = "core_wakeup now w c"
  from assms obtain e ms where c': "c' = manage_egress now (fold queue_message ms (?c1\<lparr>c_engine := e\<rparr>))"
    by (auto simp: core_turn_def pump_def split: option.splits)
  show 1: "says ?c1 c'"
    using says_manage_egress [of "fold queue_message ms (?c1\<lparr>c_engine := e\<rparr>)" now] unfolding c'
    by (rule says_same) (simp_all add: ctl_state_def)
  with says_wakeup show "says c c'" by (rule says_trans)
qed

section \<open>The refinement\<close>

text \<open>A step of the core with what it puts into the channel.\<close>

inductive core_says :: "(bytes \<Rightarrow> u64) \<Rightarrow> core \<Rightarrow> egress_ctl list \<Rightarrow> core \<Rightarrow> bool" for fp where
  turn: "core_turn fp now w (between backlog written c) = Some (wake, c') \<Longrightarrow>
    core_says fp c (c_ctl c') c'"

interpretation core_egress: automaton_refinement ctl_spec ctl_state "core_says fp" for fp
proof unfold_locales
  show "spec_run ctl_spec (ctl_state c) ms = Some (ctl_state c')" if "core_says fp c ms c'" for c ms c'
    using that by cases (auto dest!: says_turn(2) simp: says_def ctl_state_def)
qed

text \<open>
  C14. The core drives the egress by a fixed protocol: over any sequence of turns, what it
  sends is a word of the automaton, so a connection is started only when none is on, stopped
  or aborted exactly once, and a dump is announced only while one is on, under the next
  number; and the core's own idea of whether one is on, and of the latest dump, is the
  automaton's state.
\<close>

theorem core_follows_the_egress_protocol:
  assumes "trace_steps (core_says fp) (new_core cfg) ms c"
  shows "spec_run ctl_spec (False, 0) ms = Some (egress_on (c_life c), c_cut c)"
  using core_egress.trace_refines [OF assms]
  by (simp add: ctl_state_def new_core_def new_lifecycle_def egress_on_def)

end
