(* ===== verification/Core_Promises.thy ===== *)
theory Core_Promises
  imports Core_Protocol Engine_Examples
begin

text \<open>
  What the core promises: it never gets stuck; nothing received before the streamer ends the
  stream goes to the destination afterwards; while a dump waits for the connection's answer
  nothing of the stream is queued, and every dump asked for is answered; who may publish; and,
  as an automaton, what it tells the egress.
\<close>

section \<open>Every turn completes\<close>

text \<open>
  C8. Every turn of the core completes, in every state it reaches: whatever the operator asks
  and the other tasks report, in any order and at any times, and whatever the egress has
  written meanwhile, the engine's state stays well formed and its output loop returns.
\<close>

theorem core_never_gets_stuck:
  assumes "(core_step fp)\<^sup>*\<^sup>* (new_core cfg) c"
  shows "engine_wf (c_engine c) \<and>
    (\<exists>wake c'. core_turn fp now w (between backlog written c) = Some (wake, c'))"
proof -
  have "engine_wf (c_engine (new_core cfg))" by (simp add: new_core_def new_engine_engine_wf)
  with core_steps_engine [OF assms] have "engine_wf (c_engine c)" by (rule steps_wf)
  with turn_completes [of "between backlog written c" fp now w] show ?thesis by simp
qed

section \<open>Ending the stream\<close>

lemma queued_after_discard:
  assumes wf: "engine_wf e" and engine: "(engine_step fp)\<^sup>*\<^sup>* (discard e) (c_engine (core_wakeup now w c))"
    and turn: "core_turn fp now w c = Some (wake, c')" and none: "c_media c = []"
    and q: "q \<in> set (c_media c')"
  shows "recorded_after fp e (q_msg q)"
proof -
  obtain wk e1 ms c1 where c1: "c1 = core_wakeup now w c"
    and poll: "poll_budget fp now (egress_room c1) (c_engine c1, []) = Some (wk, e1, [] @ ms)"
    and media: "set (c_media c') =
      (\<lambda>m. \<lparr>q_generation = c_generation c', q_cut = c_cut c', q_msg = m\<rparr>) ` set ms"
    using turn_queues [OF turn] none by (metis append_Nil image_set)
  from q media have "q_msg q \<in> set ms" by auto
  with sent_recorded [OF wf _ poll] engine c1 show ?thesis by simp
qed

lemma run_end_now:
  "c_engine (run_life end_now c) = discard (c_engine c)"
  "c_ctl (run_life end_now c) = c_ctl c @ (if egress_on (c_life c) then [CtlAbort] else [])"
  by (auto simp: run_life_def end_now_def set_plan_def push_def stop_egress_def apply_effects_def
      apply_effect_def split: prod.split)

lemma turn_ctl:
  assumes "core_turn fp now w c = Some (wake, c')"
  shows "\<exists>more. c_ctl c' = c_ctl (core_wakeup now w c) @ more"
  using says_turn(1) [OF assms] by (auto simp: says_def)

text \<open>
  Ending the stream is at once and for good: the egress is told to abort the connection,
  if one is on, and nothing received before is queued for a destination again, in that turn or
  in any later one, whatever happens (the stream resumed, the encoder back, the connection
  replaced): every message queued carries something received afterwards, or is the setup of a
  session the engine still had.
\<close>

theorem ended_stream_never_airs:
  assumes wf: "engine_wf (c_engine c)"
    and ended: "core_turn fp now (OnControl (EndStream r)) (between backlog written c) = Some (wake, c1)"
    and later: "(core_step fp)\<^sup>*\<^sup>* c1 c2"
  shows "(\<exists>before after. c_ctl c1 = before @
      (if egress_on (c_life c) then [CtlAbort] else []) @ after) \<and>
    (\<forall>q \<in> set (c_media c1) \<union> set (c_media c2). recorded_after fp (c_engine c) (q_msg q))"
proof
  let ?c = "between backlog written c"
  have wake: "c_engine (core_wakeup now (OnControl (EndStream r)) ?c) = discard (c_engine c)"
    "c_ctl (core_wakeup now (OnControl (EndStream r)) ?c) =
       (if egress_on (c_life c) then [CtlAbort] else [])"
    by (simp_all add: core_wakeup_def core_control_def run_end_now)
  show "\<exists>before after. c_ctl c1 = before @ (if egress_on (c_life c) then [CtlAbort] else []) @ after"
    using turn_ctl [OF ended] wake(2) by (metis append_Nil)
  have engine1: "(engine_step fp)\<^sup>*\<^sup>* (discard (c_engine c)) (c_engine c1)"
    using steps_pump ended wake(1) unfolding core_turn_def steps_def by metis
  have now1: "recorded_after fp (c_engine c) (q_msg q)" if "q \<in> set (c_media c1)" for q
    using queued_after_discard [OF wf _ ended _ that] by (simp add: wake(1))
  have later2: "recorded_after fp (c_engine c) (q_msg q)" if q: "q \<in> set (c_media c2)" for q
    using later
  proof (cases rule: rtranclp.cases)
    case rtrancl_refl
    with now1 q show ?thesis by simp
  next
    case (rtrancl_into_rtrancl c3)
    then obtain t w b x wk where turn: "core_turn fp t w (between b x c3) = Some (wk, c2)"
      by (auto elim: core_stepE)
    have "(engine_step fp)\<^sup>*\<^sup>* (c_engine c1) (c_engine c3)"
      using core_steps_engine rtrancl_into_rtrancl by (auto simp: steps_def)
    moreover have "(engine_step fp)\<^sup>*\<^sup>* (c_engine c3) (c_engine (core_wakeup t w (between b x c3)))"
      using steps_wakeup [of fp "between b x c3"] by (simp add: steps_def)
    ultimately have "(engine_step fp)\<^sup>*\<^sup>* (discard (c_engine c))
        (c_engine (core_wakeup t w (between b x c3)))"
      using engine1 by (meson rtranclp_trans)
    from queued_after_discard [OF wf this turn _ q] show ?thesis by simp
  qed
  from now1 later2 show "\<forall>q \<in> set (c_media c1) \<union> set (c_media c2).
      recorded_after fp (c_engine c) (q_msg q)" by blast
qed

section \<open>While a dump waits\<close>

text \<open>With no room the engine's loop sends nothing of the stream, only repeats of a held frame.\<close>

lemma poll_iter_no_room:
  assumes wf: "buf_wf e"
  shows "poll_iter fp now 0 (e, outs, n) = Inr (e', outs', n') \<Longrightarrow> outs' = outs"
    and "poll_iter fp now 0 (e, outs, n) = Inl (wake, e', outs') \<Longrightarrow>
      pushed (\<lambda>m. \<exists>h. o_hold (out e') = Some h \<and> of_frame h m) (e, outs) (e', outs')"
proof -
  let ?r = "poll_iter fp now 0 (e, outs, n)"
  have send: "\<exists>w b. poll_send fp now 0 (a, outs, n) = Inl (w, b, outs)" for a
    by (auto simp: poll_send_def Let_def split: option.split)
  have media: "(\<exists>w b. poll_media fp now 0 (a, outs, n) = Inl (w, b, outs)) \<or>
      (\<exists>b. poll_media fp now 0 (a, outs, n) = Inr (b, outs, n))" for a
  proof (cases "end_reached (skip_evicted a)")
    case False
    then show ?thesis
      using send by (cases "poll_sync now (note_session (skip_evicted a))")
        (auto simp: poll_media_def Let_def)
  qed (simp add: poll_media_def)
  from this [of e] have "(\<exists>b. ?r = Inr (b, outs, n)) \<or> (\<exists>w b outs'. ?r = Inl (w, b, outs'))"
    by (cases "o_pending (out e)") (auto simp: poll_iter_def Let_def split: prod.splits)
  then show "?r = Inr (e', outs', n') \<Longrightarrow> outs' = outs" by auto
  show "?r = Inl (wake, e', outs') \<Longrightarrow>
      pushed (\<lambda>m. \<exists>h. o_hold (out e') = Some h \<and> of_frame h m) (e, outs) (e', outs')"
    using poll_iter_hold(2) [OF wf, where ?e0.0 = e] by (auto simp: hold_known_def)
qed

lemma no_room_sends_no_stream:
  assumes "buf_wf e" and r: "poll_budget fp now 0 (e, outs) = Some (wake, e', outs')"
  shows "pushed (\<lambda>m. \<exists>h. o_hold (out e') = Some h \<and> of_frame h m) (e, outs) (e', outs')"
proof -
  let ?e = "run_pending now (evict now e)"
  have wf: "buf_wf ?e"
    using buffer_of_wf [of ?e "evict now e"] evict_wf [OF assms(1), of now] by simp
  show ?thesis
  proof (cases "o_connected (out ?e)")
    case False
    with r show ?thesis by (auto simp: poll_budget_def Let_def pushed_def)
  next
    case True
    let ?P = "\<lambda>(e', outs', n). outs' = outs"
    obtain res st where loop: "loop (poll_iter fp now 0) (?e, outs, 0) = Some res" and P: "?P st"
      and wf_st: "buf_wf (fst st)" and it: "poll_iter fp now 0 st = Inl res"
    proof (rule poll_loop_breaks [OF wf, of ?P outs 0 fp now 0])
      show "?P (?e, outs, 0)" by simp
      show "?P st'" if "?P st" "buf_wf (fst st)" "poll_iter fp now 0 st = Inr st'" for st st'
        using that poll_iter_no_room(1) by (cases st; cases st') auto
    qed blast
    obtain w1 e1 o1 where res: "res = (w1, e1, o1)" by (metis prod_cases3)
    obtain e2 n2 where "st = (e2, outs, n2)" using P by (cases st) auto
    with it res wf_st poll_iter_no_room(2)
    have "pushed (\<lambda>m. \<exists>h. o_hold (out e1) = Some h \<and> of_frame h m) (e2, outs) (e1, o1)" by auto
    with r True loop res show ?thesis by (auto simp: poll_budget_def Let_def pushed_def)
  qed
qed

lemma turn_engine:
  assumes turn: "core_turn fp now w c = Some (wake, c')"
    and poll: "poll_budget fp now (egress_room (core_wakeup now w c)) (c_engine (core_wakeup now w c), []) = Some (wk, e, ms)"
  shows "(engine_step fp)\<^sup>*\<^sup>* e (c_engine c')"
proof -
  let ?q = "fold queue_message ms ((core_wakeup now w c)\<lparr>c_engine := e\<rparr>)"
  have "c' = manage_egress now ?q"
    using turn poll by (auto simp: core_turn_def pump_def split: option.splits)
  with steps_manage_egress [of fp ?q now] show ?thesis by (simp add: steps_def)
qed

text \<open>
  C12. While a dump waits for the egress to answer, nothing of the stream is queued for the
  destination: what a turn that leaves the dump waiting queues is of the frame being held, its
  picture again or the decoder configuration and metadata it was put there with, and that frame
  is the newest keyframe the output had passed at some point since no frame was held; and what
  any turn queues is marked with the latest dump, so that it is not mistaken for what was queued
  before it.
\<close>

theorem dump_holds_the_queue:
  assumes start: "engine_wf e" "o_hold (out e) = None"
    and reach: "(engine_step fp)\<^sup>*\<^sup>* e (c_engine c)"
    and turn: "core_turn fp now w (between backlog written c) = Some (wake, c')"
    and q: "q \<in> set (c_media c')"
  shows "q_cut q = c_cut c' \<and> q_generation q = c_generation c' \<and>
    (c_dump c' \<noteq> None \<longrightarrow> (\<exists>h e0 e1. of_frame h (q_msg q) \<and>
       (engine_step fp)\<^sup>*\<^sup>* e e0 \<and> held_from e0 h \<and> (engine_step fp)\<^sup>*\<^sup>* e0 e1 \<and>
       o_hold (out e1) = Some h \<and> (engine_step fp)\<^sup>*\<^sup>* e1 (c_engine c')))"
proof -
  obtain wk e' ms c1 where c1: "c1 = core_wakeup now w (between backlog written c)"
    and poll: "poll_budget fp now (egress_room c1) (c_engine c1, []) = Some (wk, e', ms)"
    and media: "c_media c' =
      map (\<lambda>m. \<lparr>q_generation = c_generation c', q_cut = c_cut c', q_msg = m\<rparr>) ms"
    and dump: "c_dump c' = c_dump c1"
    using turn_queues [OF turn] by (metis append_Nil between_fields(7))
  have engine: "(engine_step fp)\<^sup>*\<^sup>* e' (c_engine c')" using turn_engine [OF turn] poll c1 by blast
  from q media obtain m where m: "m \<in> set ms" "q_msg q = m" "q_cut q = c_cut c'"
    "q_generation q = c_generation c'" by auto
  have "(engine_step fp)\<^sup>*\<^sup>* (c_engine c) (c_engine c1)"
    using steps_wakeup [of fp "between backlog written c" now w] by (simp add: steps_def c1)
  with reach have woken: "(engine_step fp)\<^sup>*\<^sup>* e (c_engine c1)" by (rule rtranclp_trans)
  then have all: "(engine_step fp)\<^sup>*\<^sup>* e e'" using engine_step.poll [OF poll] by (rule rtranclp.rtrancl_into_rtrancl)
  have "\<exists>h e0 e1. of_frame h m \<and> (engine_step fp)\<^sup>*\<^sup>* e e0 \<and> held_from e0 h \<and>
      (engine_step fp)\<^sup>*\<^sup>* e0 e1 \<and> o_hold (out e1) = Some h \<and> (engine_step fp)\<^sup>*\<^sup>* e1 (c_engine c')"
    if "c_dump c' \<noteq> None"
  proof -
    have room: "egress_room c1 = 0" using that dump by (simp add: egress_room_def)
    have "buf_wf (c_engine c1)"
      using engine_machine.steps_inv [OF woken start(1)] by (simp add: engine_wf_def)
    from no_room_sends_no_stream [OF this poll [unfolded room]] m(1) obtain h
      where "o_hold (out e') = Some h" "of_frame h m" by (auto simp: pushed_def)
    with held_since [OF all start] engine show ?thesis by blast
  qed
  with m show ?thesis by simp
qed

section \<open>Every dump is answered\<close>

lemma reply_fields [simp]:
  "c_replies (on_egress f c) = c_replies c" "c_replies (on_ingest g c) = c_replies c"
  "c_replies (send_ctl m c) = c_replies c" "c_replies (send_reply r c) = c_replies c @ [r]"
  "c_replies (publish_state now c) = c_replies c" "c_replies (egress_error x c) = c_replies c"
  "c_replies (on_engine h c) = c_replies c" "c_replies (fold queue_message ms c) = c_replies c"
  "c_replies (snd (target_of d c)) = c_replies c"
proof -
  show "c_replies (fold queue_message ms c) = c_replies c"
    by (induction ms arbitrary: c) (simp_all add: queue_message_def)
qed (simp_all add: on_egress_def on_ingest_def send_ctl_def send_reply_def publish_state_def
    egress_error_def on_engine_def Let_def target_of_def split: sum.split option.split prod.split)

lemma apply_effects_replies [simp]: "c_replies (apply_effects fx c) = c_replies c"
proof -
  have "c_replies (apply_effect x c) = c_replies c" for x c
    by (cases x) (auto simp: apply_effect_def split: option.split)
  then show ?thesis
    unfolding apply_effects_def by (induction fx arbitrary: c) simp_all
qed

lemma run_life_replies [simp]: "c_replies (run_life ev c) = c_replies c"
  by (simp add: run_life_def split: prod.split)

lemma manage_egress_replies [simp]: "c_replies (manage_egress now c) = c_replies c"
proof -
  have "c_replies (start_egress now c) = c_replies c" for c
  proof (cases "rc_destination (c_config c)")
    case (Some d)
    obtain t c1 where t: "target_of d c = (t, c1)" by (rule prod.exhaust)
    with Some reply_fields(9) [of d c] show ?thesis
      by (cases t) (simp_all add: start_egress_def)
  qed (simp add: start_egress_def)
  then show ?thesis by (simp add: manage_egress_def Let_def split: prod.split)
qed

lemma turn_replies:
  "core_turn fp now w c = Some (wake, c') \<Longrightarrow> c_replies c' = c_replies (core_wakeup now w c)"
  by (auto simp: core_turn_def pump_def split: option.splits)

text \<open>\<open>r\<close> waits for the dump to be done, or was told how it went.\<close>

definition waits :: "nat \<Rightarrow> nat \<Rightarrow> core \<Rightarrow> bool" where
  "waits r since c \<longleftrightarrow>
     (case c_dump c of None \<Rightarrow> False | Some p \<Rightarrow> r \<in> set (pd_replies p) \<and> pd_since p = since)"

definition told :: "nat \<Rightarrow> core \<Rightarrow> bool" where
  "told r c \<longleftrightarrow> (\<exists>res. CommandReply r res \<in> set (c_replies c))"

lemma waits_frame: "c_dump c' = c_dump c \<Longrightarrow> waits r since c \<Longrightarrow> waits r since c'"
  by (simp add: waits_def)

lemma finish_dump_tells:
  "waits r since c \<Longrightarrow> told r (finish_dump now delivered c) \<and> c_dump (finish_dump now delivered c) = None"
  by (auto simp: waits_def finish_dump_def told_def Let_def split: option.splits prod.split)

lemma check_dump_tells:
  assumes "waits r since c"
  shows "if CUT_ANSWER_WAIT \<le> now - since
         then told r (check_dump now c) \<and> c_dump (check_dump now c) = None
         else waits r since (check_dump now c)"
  using assms finish_dump_tells [of r since "c\<lparr>c_dump := d\<rparr>" now None for d]
  by (auto simp: check_dump_def waits_def split: option.splits)

lemma control_waits: "waits r since c \<Longrightarrow> waits r since (core_control now req c)"
proof -
  assume wt: "waits r since c"
  have start: "waits r since (start_dump now mode cover r' c)" for mode cover r'
    using wt by (auto simp: waits_def start_dump_def split: option.splits)
  have cmd: "c_dump (engine_command now cmd r' c) = c_dump c" for cmd r'
    by (simp add: engine_command_def Let_def split: prod.split)
  show ?thesis
    by (cases req)
      (auto simp: core_control_def start set_destination_def Let_def split: command.split
        intro: waits_frame [OF _ wt] cmd)
qed

lemma event_dump:
  assumes "\<And>n reset delivered. ev \<noteq> CutDone n reset delivered"
  shows "c_dump (core_event now ev c) = c_dump c"
proof -
  have "c_dump (accept_publisher now conn peer app key props c) = c_dump c" for conn peer app key props
    by (auto simp: accept_publisher_def Let_def split: option.split)
  with assms show ?thesis
    by (cases ev) (auto simp: core_event_def ingest_publish_def note_refusal_def from_publisher_def
        ingest_closed_def egress_connected_def egress_disconnected_def note_egress_status_def
        Let_def split: option.split prod.split)
qed

lemma event_waits:
  assumes "waits r since c"
  shows "waits r since (core_event now ev c) \<or>
    told r (core_event now ev c) \<and> c_dump (core_event now ev c) = None"
proof (cases "\<exists>n reset delivered. ev = CutDone n reset delivered")
  case True
  with assms finish_dump_tells [OF assms] show ?thesis by (auto simp: core_event_def)
next
  case False
  with waits_frame [OF event_dump assms] show ?thesis by blast
qed

text \<open>
  C13. Every dump asked for is answered, and soon: in each turn, whoever waits for a dump is
  either told how it went, and the dump is over, or goes on waiting for it, since the same
  time; and the first tick two seconds after the dump began tells them, whether or not the
  egress has answered.
\<close>

theorem dump_is_answered:
  assumes wt: "waits r since c"
    and turn: "core_turn fp now w (between backlog written c) = Some (wake, c')"
  shows "if w = OnTick \<and> CUT_ANSWER_WAIT \<le> now - since
         then told r c' \<and> c_dump c' = None
         else waits r since c' \<or> told r c' \<and> c_dump c' = None"
proof -
  let ?c = "between backlog written c" and ?c1 = "core_wakeup now w (between backlog written c)"
  have wt1: "waits r since ?c" using wt by (rule waits_frame [rotated]) simp
  have same: "c_dump c' = c_dump ?c1" "told r c' = told r ?c1"
    using turn_queues [OF turn] turn_replies [OF turn] by (auto simp: told_def)
  then have w': "waits r since c' = waits r since ?c1" by (simp add: waits_def)
  have tell: "told r (publish_state now a) = told r a" "waits r since (publish_state now a) = waits r since a" for a
    by (simp_all add: told_def waits_def)
  show ?thesis
    unfolding w' same
    using check_dump_tells [OF wt1, of now] control_waits [OF wt1] event_waits [OF wt1] wt1
    by (cases w) (auto simp: core_wakeup_def tell split: if_splits)
qed

section \<open>Who may publish\<close>

lemma same_key_eq: "same_key want got \<longleftrightarrow> want = got"
proof (cases "want = []")
  case False
  have "map (\<lambda>i. want ! (i mod length want)) [0..<length want] = want"
    by (rule nth_equalityI) simp_all
  with False show ?thesis by (auto simp: same_key_def)
qed (auto simp: same_key_def)

definition may_publish :: "nat \<Rightarrow> bytes \<Rightarrow> bytes \<Rightarrow> core \<Rightarrow> bool" where
  "may_publish now app key c \<longleftrightarrow>
     rc_ingest_app (c_config c) \<in> {None, Some app} \<and>
     rc_ingest_key (c_config c) \<in> {None, Some key} \<and>
     (key = [] \<longrightarrow> (\<forall>url. rc_destination (c_config c) \<noteq> Some \<lparr>d_url = url, d_key = Passthrough\<rparr>)) \<and>
     (\<forall>p. c_publisher c = Some p \<longrightarrow> TAKEOVER_SILENCE \<le> now - p_last_seen p)"

text \<open>
  C32. Who may publish, exactly: an encoder that names the application set, if one is, gives
  the ingest key set, if one is (the constant-time comparison is equality), brings a stream
  key if the destination takes the encoder's, and finds no other connection publishing that
  has sent something in the last two seconds. Anyone else is refused, and changes neither the
  engine, nor the lifecycle, nor who publishes.
\<close>

theorem who_may_publish:
  "let c' = core_event now (IngestPublish conn peer ip app key props r) c in
    if may_publish now app key c
    then c_publisher c' = Some \<lparr>p_conn = conn, p_last_seen = now\<rparr> \<and>
      last (c_replies c') = PublishReply r None \<and> c_last_publisher c' = Some (key, props)
    else c_publisher c' = c_publisher c \<and> c_engine c' = c_engine c \<and> c_life c' = c_life c \<and>
      c_last_publisher c' = c_last_publisher c \<and> c_ctl c' = c_ctl c \<and>
      (\<exists>why. last (c_replies c') = PublishReply r (Some why))"
proof -
  have dest: "(case rc_destination (c_config c) of None \<Rightarrow> False | Some d \<Rightarrow> d_key d = Passthrough) \<longleftrightarrow>
      (\<exists>url. rc_destination (c_config c) = Some \<lparr>d_url = url, d_key = Passthrough\<rparr>)"
    by (auto split: option.splits) (metis destination.surjective old.unit.exhaust)
  have iff: "refuse_publisher now app key c = None \<longleftrightarrow> may_publish now app key c"
    unfolding refuse_publisher_def may_publish_def Let_def same_key_eq dest
    by (auto split: option.splits if_splits simp: not_less)
  have fields: "c_publisher (publish_state t a) = c_publisher a" "c_publisher (send_reply x a) = c_publisher a"
    "c_publisher (on_ingest f a) = c_publisher a" "c_last_publisher (publish_state t a) = c_last_publisher a"
    "c_last_publisher (send_reply x a) = c_last_publisher a"
    "c_last_publisher (on_ingest f a) = c_last_publisher a" for t a x f
    by (simp_all add: publish_state_def send_reply_def on_ingest_def Let_def)
  show ?thesis
  proof (cases "refuse_publisher now app key c")
    case None
    with iff show ?thesis
      by (simp add: core_event_def ingest_publish_def fields accept_publisher_def Let_def)
  next
    case (Some why)
    with iff show ?thesis
      by (auto simp: core_event_def ingest_publish_def fields note_refusal_def Let_def)
  qed
qed

end
