(* ===== verification/Core_Examples.thy ===== *)
theory Core_Examples
  imports Core_Promises
begin

text \<open>
  Concrete cores, on which the theorems of the core are applied: a broadcast on air with the
  engine's demo, and one whose engine holds a frame while a dump waits.
\<close>

definition demo_relay :: relay_config where
  "demo_relay = \<lparr>rc_ingest_app = Some (ascii ''live''), rc_ingest_key = Some (ascii ''key''),
     rc_destination = None, rc_engine = default_config, rc_encoder_grace = 30\<rparr>"

definition core_on :: "engine \<Rightarrow> pending_dump option \<Rightarrow> core" where
  "core_on e d = (new_core demo_relay)
     \<lparr>c_engine := e, c_life := on_air Publishing LivePlan, c_cut := 3, c_generation := 2, c_dump := d\<rparr>"

lemma core_on_fields [simp]:
  "c_engine (core_on e d) = e" "egress_on (c_life (core_on e d))" "c_dump (core_on e d) = d"
  "c_cut (core_on e d) = 3" "c_generation (core_on e d) = 2"
  by (simp_all add: core_on_def on_air_def egress_on_def)

definition waiting_dump :: pending_dump where
  "waiting_dump = \<lparr>pd_mode = Rewind, pd_cover = False, pd_replies = [7], pd_since = 6500000\<rparr>"

lemma core_never_gets_stuck_witness:
  "\<exists>wake c'. core_turn (\<lambda>_. 0) 50 (OnControl (EndStream 7)) (between 10 20 (new_core demo_relay)) =
     Some (wake, c')"
  using core_never_gets_stuck [of "\<lambda>_. 0" demo_relay "new_core demo_relay" 50 "OnControl (EndStream 7)" 10 20]
  by simp

lemma ended_stream_never_airs_witness:
  "\<exists>wake c1. core_turn (\<lambda>_. 0) 50 (OnControl (EndStream 7)) (between 0 0 (core_on demo_live None)) =
     Some (wake, c1) \<and> CtlAbort \<in> set (c_ctl c1)"
proof -
  have wf: "engine_wf (c_engine (core_on demo_live None))" using demo_live_wf by simp
  then obtain wake c1 where turn: "core_turn (\<lambda>_. 0) 50 (OnControl (EndStream 7))
      (between 0 0 (core_on demo_live None)) = Some (wake, c1)"
    using turn_completes [of "between 0 0 (core_on demo_live None)" "\<lambda>_. 0" 50 "OnControl (EndStream 7)"]
    by auto
  from ended_stream_never_airs [OF wf turn, of c1] turn show ?thesis by auto
qed

lemma demo_held_frame:
  "\<exists>h. o_hold (out demo_held) = Some h \<and> hf_next h \<le> 7000000 \<and> \<not> hf_needs_headers h \<and>
     o_connected (out demo_held)"
  by (simp add: demo_held_def demo_live_def run_command_def cmd_dump_def clear_notes_def
      can_dump_def dump_delay_def engine_dump_def set_pending_def drop_buffer_def count_sessions_def
      forget_headers_def session_cost_def aired_keyframe_def find_last_def run_pending.simps
      pending_step_def run_hold_def frame_ms_def demo_eval)

lemma demo_held_sends:
  "\<exists>wake e m. poll_budget (\<lambda>_. 0) 7000000 0 (demo_held, []) = Some (wake, e, [m])"
proof -
  let ?e = "run_pending 7000000 (evict 7000000 demo_held)"
  have ev: "evict 7000000 demo_held = demo_held"
    by (simp add: evict_def evict_loop.simps [of 7000000] evict_choice_def keep_from_def
        restart_point_def demo_held_def demo_live_def run_command_def cmd_dump_def clear_notes_def
        can_dump_def dump_delay_def engine_dump_def set_pending_def drop_buffer_def
        count_sessions_def forget_headers_def session_cost_def aired_keyframe_def find_last_def
        run_pending.simps pending_step_def run_hold_def frame_ms_def demo_eval)
  have "run_pending 7000000 demo_held = demo_held"
    by (simp add: run_pending.simps [of _ demo_held] pending_step_def demo_held_out run_hold_def)
  moreover have "\<exists>wake e m. poll_iter (\<lambda>_. 0) 7000000 0 (demo_held, [], 0) = Inl (wake, e, [m])"
    using demo_held_frame by (auto simp: poll_iter_def demo_held_out emit_hold_frame_def Let_def)
  ultimately show ?thesis
    using demo_held_frame by (auto simp: poll_budget_def ev Let_def loop.simps)
qed

text \<open>The dump waits, and the turn queues a repeat of the frame held since the first one.\<close>

lemma dump_holds_the_queue_witness:
  "\<exists>wake c' q. core_turn (\<lambda>_. 0) 7000000 OnWake (between 0 0 (core_on demo_held (Some waiting_dump))) =
     Some (wake, c') \<and> c_media c' = [q] \<and> q_cut q = 3 \<and> m_seq (q_msg q) = None"
proof -
  let ?c = "core_on demo_held (Some waiting_dump)"
  obtain wk e m where poll: "poll_budget (\<lambda>_. 0) 7000000 0 (demo_held, []) = Some (wk, e, [m])"
    using demo_held_sends by blast
  have room: "egress_room (between 0 0 ?c) = 0" by (simp add: egress_room_def)
  then obtain wake c' where turn: "core_turn (\<lambda>_. 0) 7000000 OnWake (between 0 0 ?c) = Some (wake, c')"
    using poll by (simp add: core_turn_def pump_def core_wakeup_def)
  have media: "c_media c' = [\<lparr>q_generation = 2, q_cut = 3, q_msg = m\<rparr>]" "c_dump c' \<noteq> None" "c_cut c' = 3"
    using turn poll room by (auto simp: core_turn_def pump_def core_wakeup_def queue_message_def)
  have start: "engine_wf (move_to 1 demo_live)" "o_hold (out (move_to 1 demo_live)) = None"
    using demo_passed_wf by (simp, simp add: hold_set_pending demo_live_def demo_def new_output_def)
  have "(engine_step (\<lambda>_. 0))\<^sup>*\<^sup>* (move_to 1 demo_live) (c_engine ?c)"
    unfolding core_on_fields demo_held_def by (rule r_into_rtranclp, rule engine_step.command)
  from dump_holds_the_queue [OF start this turn, of "\<lparr>q_generation = 2, q_cut = 3, q_msg = m\<rparr>"] media
  obtain h where "of_frame h m" by auto
  then have "m_seq m = None" by (simp add: of_frame_def)
  with turn media(1) show ?thesis by (intro exI conjI) auto
qed

lemma dump_is_answered_witness:
  "\<exists>wake c'. core_turn (\<lambda>_. 0) 8600000 OnTick (between 0 0 (core_on demo_held (Some waiting_dump))) =
     Some (wake, c') \<and> told 7 c' \<and> c_dump c' = None"
proof -
  let ?c = "core_on demo_held (Some waiting_dump)"
  have "engine_wf (c_engine (between 0 0 ?c))" using demo_held_wf by simp
  from turn_completes [OF this, of "\<lambda>_. 0" 8600000 OnTick]
  obtain wake c' where turn: "core_turn (\<lambda>_. 0) 8600000 OnTick (between 0 0 ?c) = Some (wake, c')"
    by blast
  have "waits 7 6500000 ?c" by (simp add: waits_def waiting_dump_def)
  from dump_is_answered [OF this turn] turn show ?thesis
    by (auto simp: CUT_ANSWER_WAIT_def SEC_def)
qed

lemma core_follows_the_egress_protocol_witness:
  "\<exists>c. trace_steps (core_says (\<lambda>_. 0)) (new_core demo_relay) (c_ctl c) c \<and>
     spec_run ctl_spec (False, 0) (c_ctl c) = Some (egress_on (c_life c), c_cut c)"
proof -
  have "engine_wf (c_engine (between 0 0 (new_core demo_relay)))"
    by (simp add: new_core_def new_engine_engine_wf)
  from turn_completes [OF this, of "\<lambda>_. 0" 50 OnTick]
  obtain wake c where turn: "core_turn (\<lambda>_. 0) 50 OnTick (between 0 0 (new_core demo_relay)) = Some (wake, c)"
    by blast
  have "trace_steps (core_says (\<lambda>_. 0)) (new_core demo_relay) ([] @ c_ctl c) c"
    using trace_steps.none core_says.turn [OF turn] by (rule trace_steps.snoc)
  then have t: "trace_steps (core_says (\<lambda>_. 0)) (new_core demo_relay) (c_ctl c) c" by simp
  from t core_follows_the_egress_protocol [OF t] show ?thesis by blast
qed

end
