(* ===== verification/Egress_Parts.thy ===== *)
theory Egress_Parts
  imports Core Client_Session
begin

text \<open>
  The parts of the egress (\<^verbatim>\<open>crates/relay/src/egress.rs\<close>) that are functions of their
  own: how long to wait before connecting again (\<open>failures_wait\<close>), what of the stream the
  destination surely has (\<open>write_log\<close>), the text of a failure without the stream key
  (\<open>scrub\<close>), and the order in which addresses are tried (\<open>address_order\<close>). Times are
  microseconds.
\<close>

section \<open>Failures and their texts\<close>

record failure =
  fl_message :: bytes
  fl_refused :: bool

definition new_failure :: "bytes \<Rightarrow> failure" where
  "new_failure message = \<lparr>fl_message = message, fl_refused = False\<rparr>"

definition refusal :: "bytes \<Rightarrow> failure" where
  "refusal message = \<lparr>fl_message = message, fl_refused = True\<rparr>"

text \<open>A hexadecimal digit, and a byte as two of them.\<close>

definition hex_digit :: "bool \<Rightarrow> nat \<Rightarrow> u8" where
  "hex_digit lower n = (if n < 10 then 0x30 + of_nat n else (if lower then 0x57 else 0x37) + of_nat n)"

definition hex_byte :: "bool \<Rightarrow> u8 \<Rightarrow> bytes" where
  "hex_byte lower b = [hex_digit lower (unat b div 16), hex_digit lower (unat b mod 16)]"

text \<open>The messages of the error types of the RTMP crate, as \<^verbatim>\<open>to_string\<close> gives them.\<close>

definition chunk_error_text :: "chunk_error \<Rightarrow> bytes" where
  "chunk_error_text e =
     (case e of
        MissingHeader n \<Rightarrow>
          ascii ''chunk for stream '' @ decimal n @
          ascii '' uses a compressed header before any full header''
      | InvalidChunkSize n \<Rightarrow> ascii ''invalid chunk size '' @ decimal n
      | TooManyStreams \<Rightarrow>
          ascii ''peer used more than '' @ decimal MAX_CHUNK_STREAMS @ ascii '' chunk streams''
      | TooMuchPending \<Rightarrow>
          ascii ''peer has more than '' @ decimal MAX_PENDING_BYTES @
          ascii '' bytes of unfinished messages''
      | MessageTooLarge ty len mx \<Rightarrow>
          ascii ''message of type '' @ decimal (unat ty) @ ascii '' is '' @ decimal len @
          ascii '' bytes, over the limit of '' @ decimal mx)"

definition amf0_error_text :: "amf0_error \<Rightarrow> bytes" where
  "amf0_error_text e =
     (case e of
        Eof \<Rightarrow> ascii ''unexpected end of AMF0 data''
      | UnsupportedMarker m \<Rightarrow> ascii ''unsupported AMF0 marker 0x'' @ hex_byte True m
      | TooDeep \<Rightarrow> ascii ''AMF0 nesting too deep'')"

definition session_error_text :: "session_error \<Rightarrow> bytes" where
  "session_error_text e =
     (case e of
        ChunkFault c \<Rightarrow> chunk_error_text c
      | Amf0Fault a \<Rightarrow> ascii ''malformed command: '' @ amf0_error_text a
      | Protocol why \<Rightarrow> ascii ''protocol error: '' @ ascii why)"

section \<open>The stream key is taken out\<close>

definition starts_with :: "bytes \<Rightarrow> bytes \<Rightarrow> bool" where
  "starts_with p s \<longleftrightarrow> take (length p) s = p"

text \<open>\<^verbatim>\<open>find\<close>: where \<open>w\<close> first is in \<open>s\<close>.\<close>

fun find_text :: "bytes \<Rightarrow> bytes \<Rightarrow> nat option" where
  "find_text w s =
     (if starts_with w s then Some 0
      else case s of [] \<Rightarrow> None | _ # t \<Rightarrow> map_option Suc (find_text w t))"

declare find_text.simps [simp del]

lemma find_text_bound: "find_text w s = Some i \<Longrightarrow> i + length w \<le> length s"
proof (induction s arbitrary: i)
  case Nil
  then show ?case by (auto simp: find_text.simps [of w] starts_with_def split: if_splits)
next
  case (Cons x s)
  show ?case
  proof (cases "starts_with w (x # s)")
    case True
    with Cons.prems have "take (length w) (x # s) = w" "i = 0"
      by (auto simp: find_text.simps [of w] starts_with_def)
    then show ?thesis by (metis length_take min.cobounded1 add_0)
  next
    case False
    with Cons show ?thesis by (auto simp: find_text.simps [of w "x # s"])
  qed
qed

text \<open>\<^verbatim>\<open>str::replace\<close>, for a pattern that is not empty.\<close>

function replace_text :: "bytes \<Rightarrow> bytes \<Rightarrow> bytes \<Rightarrow> bytes" where
  "replace_text w new s =
     (if w = [] then s
      else case find_text w s of
             None \<Rightarrow> s
           | Some i \<Rightarrow> take i s @ new @ replace_text w new (drop (i + length w) s))"
  by pat_completeness auto
termination
proof (relation "measure (\<lambda>(w, new, s). length s)", goal_cases)
  case (2 w new s i)
  with find_text_bound [of w s i] have "0 < length w" "i + length w \<le> length s" by auto
  then have "length s - (i + length w) < length s" by linarith
  then show ?case by simp
qed simp

declare replace_text.simps [simp del]

text \<open>
  \<^verbatim>\<open>replace_word\<close>: only where no letter or digit touches it. The Unicode table behind
  \<^verbatim>\<open>char::is_alphanumeric\<close> is the parameter \<open>alnum\<close>, over the bytes of a character; \<open>acc\<close> is
  what has been written so far.
\<close>

function replace_word :: "(bytes \<Rightarrow> bool) \<Rightarrow> bytes \<Rightarrow> bytes \<Rightarrow> bytes \<Rightarrow> bytes \<Rightarrow> bytes" where
  "replace_word alnum w new acc rest =
     (if w = [] then acc @ rest
      else case find_text w rest of
             None \<Rightarrow> acc @ rest
           | Some i \<Rightarrow>
               (let before = (case last_opt (chars (take i rest)) of
                                None \<Rightarrow> last_opt (chars acc) | Some c \<Rightarrow> Some c);
                    after = front_opt (chars (drop (i + length w) rest));
                    touched = (\<lambda>c. case c of None \<Rightarrow> False | Some x \<Rightarrow> alnum x);
                    alone = (\<not> touched before \<and> \<not> touched after)
                in replace_word alnum w new (acc @ take i rest @ (if alone then new else w))
                     (drop (i + length w) rest)))"
  by pat_completeness auto
termination
proof (relation "measure (\<lambda>(alnum, w, new, acc, rest). length rest)", goal_cases)
  case (2 alnum w new acc rest i)
  with find_text_bound [of w rest i] have "0 < length w" "i + length w \<le> length rest" by auto
  then have "length rest - (i + length w) < length rest" by linarith
  then show ?case by simp
qed simp

declare replace_word.simps [simp del]

definition ascii_alnum :: "u8 \<Rightarrow> bool" where
  "ascii_alnum b \<longleftrightarrow> digit b \<or> 0x41 \<le> b \<and> b \<le> 0x5A \<or> 0x61 \<le> b \<and> b \<le> 0x7A"

text \<open>Percent-encoding, with upper- or lower-case hex digits.\<close>

definition percent_encoded :: "bool \<Rightarrow> bytes \<Rightarrow> bytes" where
  "percent_encoded lower key =
     concat (map (\<lambda>b. if ascii_alnum b \<or> b \<in> set (ascii ''-._~'') then [b]
                      else 0x25 # hex_byte lower b) key)"

definition STREAM_KEY :: bytes where "STREAM_KEY = ascii ''<stream key>''"

definition scrub :: "(bytes \<Rightarrow> bool) \<Rightarrow> bytes \<Rightarrow> bytes \<Rightarrow> bytes" where
  "scrub alnum text key =
     (let line = concat (map (\<lambda>c. if is_control c then [0x20] else c) (chars text))
      in if key = [] then line
         else if length (chars key) < 4 then replace_word alnum key STREAM_KEY [] line
         else fold (\<lambda>form. replace_text form STREAM_KEY)
                [key, percent_encoded False key, percent_encoded True key] line)"

definition scrubbed :: "(bytes \<Rightarrow> bool) \<Rightarrow> target \<Rightarrow> failure \<Rightarrow> failure" where
  "scrubbed alnum t f =
     f\<lparr>fl_message :=
         fold (\<lambda>secret m. if 4 \<le> length (chars secret)
                          then replace_text secret (ascii ''<redacted>'') m else m)
           (query_secrets (tg_url t)) (scrub alnum (fl_message f) (tg_key t))\<rparr>"

section \<open>Waiting before the next attempt\<close>

definition RETRY_WAITS :: "nat list" where
  "RETRY_WAITS = [0, 500 * MS, 1 * SEC, 2 * SEC, 4 * SEC]"
definition MAX_RETRY_WAIT :: nat where "MAX_RETRY_WAIT = 5 * SEC"
definition REFUSED_RETRY_WAITS :: "nat list" where
  "REFUSED_RETRY_WAITS = [10 * SEC, 30 * SEC, 60 * SEC, 120 * SEC]"
definition MAX_REFUSED_RETRY_WAIT :: nat where "MAX_REFUSED_RETRY_WAIT = 300 * SEC"

record failures =
  fs_all :: nat
  fs_refused :: nat

definition no_failures :: failures where "no_failures = \<lparr>fs_all = 0, fs_refused = 0\<rparr>"

definition wait_at :: "nat list \<Rightarrow> nat \<Rightarrow> nat \<Rightarrow> nat" where
  "wait_at waits mx n = (case get_opt waits n of None \<Rightarrow> mx | Some w \<Rightarrow> w)"

definition retry_when :: "nat \<Rightarrow> bytes" where
  "retry_when wait =
     (let secs = wait div SEC
      in if secs < 60 then decimal secs @ ascii '' s'' else decimal (secs div 60) @ ascii '' min'')"

text \<open>\<^verbatim>\<open>Failures::wait\<close>: the wait, the failure with when it ends, and the counts.\<close>

definition failures_wait :: "failure \<Rightarrow> failures \<Rightarrow> nat \<times> failure \<times> failures" where
  "failures_wait f fs =
     (let fs1 = fs\<lparr>fs_all := fs_all fs + 1\<rparr>
      in if \<not> fl_refused f then (wait_at RETRY_WAITS MAX_RETRY_WAIT (fs_all fs), f, fs1)
         else let wait = wait_at REFUSED_RETRY_WAITS MAX_REFUSED_RETRY_WAIT (fs_refused fs)
              in (wait,
                  f\<lparr>fl_message := fl_message f @ ascii ''; trying again in '' @ retry_when wait\<rparr>,
                  fs1\<lparr>fs_refused := fs_refused fs + 1\<rparr>))"

section \<open>What was written\<close>

definition WRITTEN_KEPT :: nat where "WRITTEN_KEPT = 32 * 1024 * 1024"

record write_log =
  wl_total :: nat
  wl_batches :: "(nat \<times> nat) list"

definition new_log :: write_log where "new_log = \<lparr>wl_total = 0, wl_batches = []\<rparr>"

definition log_written :: "nat \<Rightarrow> nat option \<Rightarrow> write_log \<Rightarrow> write_log" where
  "log_written n seq l =
     (let total = wl_total l + n;
          batches = wl_batches l @ (case seq of None \<Rightarrow> [] | Some s \<Rightarrow> [(s, total)])
      in \<lparr>wl_total = total,
          wl_batches = dropWhile (\<lambda>(_, fin). WRITTEN_KEPT < total - fin) batches\<rparr>)"

definition surely_sent :: "nat \<Rightarrow> write_log \<Rightarrow> nat option" where
  "surely_sent unsent l =
     (case checked_sub (wl_total l) unsent of
        None \<Rightarrow> None
      | Some sent \<Rightarrow> map_option fst (find_last (\<lambda>(_, fin). fin \<le> sent) (wl_batches l)))"

text \<open>
  What the OS says of the connection's send queue, if it can, and the size of its send buffer.
\<close>

record send_queue =
  sq_unsent :: nat
  sq_unacked :: nat

record os_view =
  os_queue :: "send_queue option"
  os_buffer :: "nat option"

definition OS_BUFFER_AT_LEAST :: nat where "OS_BUFFER_AT_LEAST = 4 * 1024 * 1024"

definition held_at_most :: "os_view \<Rightarrow> nat" where
  "held_at_most os =
     max (case os_buffer os of None \<Rightarrow> 0 | Some n \<Rightarrow> n) OS_BUFFER_AT_LEAST * 2"

section \<open>The order of addresses\<close>

text \<open>
  \<^verbatim>\<open>connect_first\<close> tries the addresses alternating between the family of the first one
  and the other; an address carries whether it is IPv6.
\<close>

fun alternate :: "'a list \<Rightarrow> 'a list \<Rightarrow> 'a list" where
  "alternate [] bs = bs"
| "alternate (a # as) bs = (case bs of [] \<Rightarrow> a # as | b # bs' \<Rightarrow> a # b # alternate as bs')"

definition address_order :: "(bool \<times> 'a) list \<Rightarrow> (bool \<times> 'a) list" where
  "address_order addrs =
     (let first_v6 = (case addrs of [] \<Rightarrow> False | a # _ \<Rightarrow> fst a)
      in alternate (filter (\<lambda>x. fst x = first_v6) addrs) (filter (\<lambda>x. fst x \<noteq> first_v6) addrs))"

end
