(* ===== verification/Egress.thy ===== *)
theory Egress
  imports Egress_Parts
begin

text \<open>
  The egress task (\<^verbatim>\<open>crates/relay/src/egress.rs\<close>): it connects to the destination, publishes
  what the core queues, answers dumps, and connects again when the connection drops. The task
  is asynchronous: a phase (\<open>phase\<close>) is a point where it waits, and a step
  (\<open>egress_step\<close>) is what it does with the input that ends the wait, up to the next one. What
  an input can be is one constructor of \<open>egress_input\<close> each: a control message, media, bytes of
  the destination, a write done or failed, time over. Which one comes first is up to the
  environment, so a step exists for each that the phase waits for (the source polls the control
  channel before the others; that order is one of those covered).

  Parameters: \<open>alnum\<close>, the Unicode table (see \<open>Egress_Parts\<close>); and \<open>guard\<close>, the picture
  numbering of \<^verbatim>\<open>PocGuard::video\<close> (\<^verbatim>\<open>crates/flv/src/hevc/poc.rs\<close>), a function of its
  state and a payload, which says what is sent instead, if anything; it is \<open>guard_video\<close> of the
  theory \<open>Poc\<close>, and what holds here holds whatever it does. What sockets and TLS do is
  the environment's: \<open>Opened\<close> stands for the connection, its TLS and its RTMP handshake made,
  and \<open>eg_wire\<close> collects what is handed to the socket.
\<close>

section \<open>State\<close>

definition STABLE_CONNECTION :: nat where "STABLE_CONNECTION = 10 * SEC"
definition MAX_BATCH :: nat where "MAX_BATCH = 64"

record connection =
  cn_target :: target
  cn_session :: client_session
  cn_generation :: nat
  cn_log :: write_log
  cn_last_written :: "nat option"
  cn_started :: nat

text \<open>
  What is being written: an answer to the destination, or media (its bytes as written, the
  payload bytes it was, and its last sequence number).
\<close>

datatype writing = Answer | Batch nat nat "nat option"

datatype phase =
    EgIdle
  | EgConnecting target "client_session option"
  | EgAccepted target client_session
  | EgAsking target client_session
  | EgLive connection
  | EgWriting connection writing
  | EgBackoff target
  | EgGone

text \<open>
  \<open>eg_media\<close> is the channel of queued media, \<open>eg_events\<close> what was reported to the core,
  \<open>eg_sent\<close> the queued messages given to the session so far, \<open>eg_wait\<close> how long the wait of a
  backoff is.
\<close>

record 'p egress_task =
  eg_phase :: phase
  eg_failures :: failures
  eg_pocs :: 'p
  eg_counters :: counters
  eg_media :: "queued list"
  eg_events :: "event list"
  eg_sent :: "queued list"
  eg_wire :: bytes
  eg_wait :: nat

datatype egress_input =
    GotCtl egress_ctl os_view
  | CtlClosed
  | NoCtl
  | GotMedia nat
  | MediaClosed
  | Opened bytes
  | ConnectFailed bytes
  | ConnectTimedOut
  | Generation nat
  | GotData bytes
  | Closed
  | ReadFailed bytes
  | Written
  | WriteFailed bytes
  | WaitOver

datatype run_end = Stopped | Retarget target | CutReset nat "nat option" | RunFailed failure

section \<open>Reporting\<close>

definition report :: "event \<Rightarrow> 'p egress_task \<Rightarrow> 'p egress_task" where
  "report ev s = s\<lparr>eg_events := eg_events s @ [ev]\<rparr>"

definition report_status :: "egress_status \<Rightarrow> bytes option \<Rightarrow> 'p egress_task \<Rightarrow> 'p egress_task" where
  "report_status status error = report (EgressStatus status error)"

definition cut_done :: "nat \<Rightarrow> bool \<Rightarrow> nat option \<Rightarrow> 'p egress_task \<Rightarrow> 'p egress_task" where
  "cut_done n reset delivered = report (CutDone n reset delivered)"

definition write_out :: "bytes \<Rightarrow> 'p egress_task \<Rightarrow> 'p egress_task" where
  "write_out bs s = s\<lparr>eg_wire := eg_wire s @ bs\<rparr>"

definition go_to :: "phase \<Rightarrow> 'p egress_task \<Rightarrow> 'p egress_task" where
  "go_to p s = s\<lparr>eg_phase := p\<rparr>"

definition queued_bytes :: "queued list \<Rightarrow> nat" where
  "queued_bytes qs = sum_list (map (\<lambda>q. length (out_msg.m_payload (q_msg q))) qs)"

text \<open>\<^verbatim>\<open>fetch_sub\<close> of the backlog. That it never goes below zero is proved of the relay.\<close>

definition sub_backlog :: "nat \<Rightarrow> 'p egress_task \<Rightarrow> 'p egress_task" where
  "sub_backlog n s =
     s\<lparr>eg_counters := (eg_counters s)\<lparr>ct_backlog := ct_backlog (eg_counters s) - n\<rparr>\<rparr>"

text \<open>The first \<open>n\<close> messages of the media channel are dropped unsent.\<close>

definition drop_media :: "nat \<Rightarrow> 'p egress_task \<Rightarrow> 'p egress_task" where
  "drop_media n s =
     sub_backlog (queued_bytes (take n (eg_media s))) (s\<lparr>eg_media := drop n (eg_media s)\<rparr>)"

definition stopped :: "'p egress_task \<Rightarrow> 'p egress_task" where
  "stopped s = report_status Waiting None (drop_media (length (eg_media s)) s)"

definition stop_idle :: "'p egress_task \<Rightarrow> 'p egress_task" where
  "stop_idle s = go_to EgIdle (stopped s)"

text \<open>The top of the loop with a target.\<close>

definition connect_to :: "target \<Rightarrow> 'p egress_task \<Rightarrow> 'p egress_task" where
  "connect_to t s = report_status egress_status.Connecting None (go_to (EgConnecting t None) s)"

text \<open>
  \<^verbatim>\<open>failures.wait\<close> and the start of \<^verbatim>\<open>wait_backoff\<close>.
\<close>

definition back_off :: "target \<Rightarrow> failure \<Rightarrow> 'p egress_task \<Rightarrow> 'p egress_task" where
  "back_off t f s =
     (let (wait, f1, fs) = failures_wait f (eg_failures s)
      in report_status Retrying (Some (fl_message f1))
           (go_to (EgBackoff t) (s\<lparr>eg_failures := fs, eg_wait := wait\<rparr>)))"

section \<open>Connecting\<close>

definition client_config_for :: "target \<Rightarrow> client_config" where
  "client_config_for t =
     (new_client_config (u_app (tg_url t)) (u_tc_url (tg_url t)) (tg_key t))
       \<lparr>cc_extra_props := tg_props t\<rparr>"

definition refused_by_closing :: failure where
  "refused_by_closing =
     refusal (ascii ''the destination closed the connection (check the stream key)'')"

definition connect_failed ::
  "(bytes \<Rightarrow> bool) \<Rightarrow> target \<Rightarrow> failure \<Rightarrow> 'p egress_task \<Rightarrow> 'p egress_task" where
  "connect_failed alnum t f = back_off t (scrubbed alnum t f)"

text \<open>Data of the destination while connecting; what the session answers is written first.\<close>

definition connect_data ::
  "(bytes \<Rightarrow> bool) \<Rightarrow> target \<Rightarrow> bytes \<Rightarrow> client_session \<Rightarrow> 'p egress_task \<Rightarrow> 'p egress_task" where
  "connect_data alnum t data c s =
     (case client_feed data c of
        (Inl e, _) \<Rightarrow> connect_failed alnum t (new_failure (session_error_text e)) s
      | (Inr [], c1) \<Rightarrow>
          (let (bs, c2) = client_take_output c1
           in go_to (EgConnecting t (Some c2)) (write_out bs s))
      | (Inr (Published # _), c1) \<Rightarrow>
          (let (bs, c2) = client_take_output c1
           in go_to (EgAccepted t c2)
                ((write_out bs s)\<lparr>eg_failures := (eg_failures s)\<lparr>fs_refused := 0\<rparr>\<rparr>))
      | (Inr (Error code description # _), _) \<Rightarrow>
          connect_failed alnum t
            (refusal (ascii ''destination refused the stream: '' @ code @ [0x20] @ description)) s)"

definition opened :: "(bytes \<Rightarrow> bool) \<Rightarrow> target \<Rightarrow> bytes \<Rightarrow> 'p egress_task \<Rightarrow> 'p egress_task" where
  "opened alnum t rest s =
     (let (bs, c) = client_take_output (new_client_session (client_config_for t));
          s1 = write_out bs s
      in if rest = [] then go_to (EgConnecting t (Some c)) s1
         else connect_data alnum t rest c s1)"

section \<open>The end of a connection\<close>

text \<open>\<^verbatim>\<open>ended_by\<close>; resetting the socket for an abort is the environment's.\<close>

definition ended_by :: "egress_ctl option \<Rightarrow> run_end" where
  "ended_by m =
     (case m of
        Some (CtlStart t) \<Rightarrow> Retarget t
      | Some CtlAbort \<Rightarrow> Stopped
      | Some (CtlCut n) \<Rightarrow> CutReset n None
      | Some CtlStop \<Rightarrow> Stopped
      | None \<Rightarrow> Stopped)"

definition reset_for_cut :: "nat \<Rightarrow> os_view \<Rightarrow> write_log \<Rightarrow> run_end" where
  "reset_for_cut n os l =
     (let held = (case os_queue os of
                    Some q \<Rightarrow> sq_unsent q + sq_unacked q | None \<Rightarrow> held_at_most os)
      in CutReset n (surely_sent held l))"

text \<open>What \<^verbatim>\<open>run\<close> does once \<^verbatim>\<open>publish\<close> has returned.\<close>

definition end_run ::
  "(bytes \<Rightarrow> bool) \<Rightarrow> nat \<Rightarrow> connection \<Rightarrow> run_end \<Rightarrow> 'p egress_task \<Rightarrow> 'p egress_task" where
  "end_run alnum now cn r s =
     (let t = cn_target cn;
          s1 = (case r of CutReset n delivered \<Rightarrow> cut_done n True delivered s | _ \<Rightarrow> s);
          r1 = (case r of RunFailed f \<Rightarrow> RunFailed (scrubbed alnum t f) | _ \<Rightarrow> r);
          error = (case r1 of RunFailed f \<Rightarrow> Some (fl_message f) | _ \<Rightarrow> None);
          s2 = report (EgressDisconnected (cn_last_written cn) error) s1
      in case r1 of
           Stopped \<Rightarrow> stop_idle s2
         | Retarget t1 \<Rightarrow> connect_to t1 s2
         | CutReset _ _ \<Rightarrow> connect_to t s2
         | RunFailed f \<Rightarrow>
             back_off t f
               (if STABLE_CONNECTION \<le> now - cn_started cn
                then s2\<lparr>eg_failures := (eg_failures s2)\<lparr>fs_all := 0\<rparr>\<rparr> else s2))"

definition run_failed ::
  "(bytes \<Rightarrow> bool) \<Rightarrow> nat \<Rightarrow> connection \<Rightarrow> bytes \<Rightarrow> 'p egress_task \<Rightarrow> 'p egress_task" where
  "run_failed alnum now cn message = end_run alnum now cn (RunFailed (new_failure message))"

section \<open>Publishing\<close>

text \<open>\<^verbatim>\<open>EgressConnected\<close> was answered: \<^verbatim>\<open>publish\<close> starts.\<close>

definition start_publish :: "nat \<Rightarrow> target \<Rightarrow> client_session \<Rightarrow> nat \<Rightarrow> 'p egress_task \<Rightarrow> 'p egress_task" where
  "start_publish now t c generation s =
     report_status Live None
       (go_to (EgLive \<lparr>cn_target = t, cn_session = c, cn_generation = generation,
                       cn_log = new_log, cn_last_written = None, cn_started = now\<rparr>) s)"

text \<open>Whether a queued message is for this connection and was not taken back by a dump.\<close>

definition current :: "nat \<Rightarrow> nat \<Rightarrow> queued \<Rightarrow> bool" where
  "current generation n q \<longleftrightarrow> q_generation q = generation \<and> q_cut q = n"

definition send_message ::
  "('p \<Rightarrow> bytes \<Rightarrow> bytes option \<times> 'p) \<Rightarrow> out_msg \<Rightarrow> client_session \<times> 'p \<Rightarrow> client_session \<times> 'p" where
  "send_message guard m cp =
     (let (c, p) = cp; ts = out_msg.m_timestamp m; payload = out_msg.m_payload m in
      case out_msg.m_kind m of
        Audio \<Rightarrow> (send_media AudioKind ts payload c, p)
      | Video \<Rightarrow>
          (let (renumbered, p1) = guard p payload
           in (send_media VideoKind ts (case renumbered of None \<Rightarrow> payload | Some b \<Rightarrow> b) c, p1))
      | Data \<Rightarrow> (send_data ts payload c, p))"

text \<open>The last sequence number of a batch, if any message has one.\<close>

definition batch_last :: "queued list \<Rightarrow> nat option" where
  "batch_last qs = last_opt (List.map_filter (\<lambda>q. m_seq (q_msg q)) qs)"

text \<open>A batch of media: what is current goes into the session, and its output is written.\<close>

definition take_batch ::
  "('p \<Rightarrow> bytes \<Rightarrow> bytes option \<times> 'p) \<Rightarrow> connection \<Rightarrow> nat \<Rightarrow> 'p egress_task \<Rightarrow> 'p egress_task" where
  "take_batch guard cn n s =
     (let batch = take n (eg_media s);
          mine = filter (current (cn_generation cn) (ct_cut (eg_counters s))) batch;
          (c, p) = fold (send_message guard) (map q_msg mine) (cn_session cn, eg_pocs s);
          (bs, c1) = client_take_output c
      in go_to (EgWriting (cn\<lparr>cn_session := c1\<rparr>)
                 (Batch (length bs) (queued_bytes batch) (batch_last mine)))
           ((write_out bs s)\<lparr>eg_media := drop n (eg_media s), eg_pocs := p,
                             eg_sent := eg_sent s @ mine\<rparr>))"

text \<open>A control message while nothing is being written.\<close>

definition live_ctl ::
  "(bytes \<Rightarrow> bool) \<Rightarrow> nat \<Rightarrow> connection \<Rightarrow> egress_ctl option \<Rightarrow> os_view \<Rightarrow> 'p egress_task \<Rightarrow> 'p egress_task" where
  "live_ctl alnum now cn m os s =
     (case m of
        Some (CtlCut n) \<Rightarrow>
          if (case os_queue os of None \<Rightarrow> True | Some q \<Rightarrow> sq_unsent q \<noteq> 0)
          then end_run alnum now cn (reset_for_cut n os (cn_log cn)) s
          else cut_done n False (cn_last_written cn) s
      | _ \<Rightarrow>
          (let s1 = (if m = Some CtlAbort then s
                     else write_out (fst (client_take_output (client_close (cn_session cn)))) s)
           in end_run alnum now cn (ended_by m) s1))"

text \<open>Data of the destination while publishing.\<close>

definition live_data ::
  "(bytes \<Rightarrow> bool) \<Rightarrow> nat \<Rightarrow> connection \<Rightarrow> bytes \<Rightarrow> 'p egress_task \<Rightarrow> 'p egress_task" where
  "live_data alnum now cn data s =
     (case client_feed data (cn_session cn) of
        (Inl e, _) \<Rightarrow> run_failed alnum now cn (session_error_text e) s
      | (Inr evs, c1) \<Rightarrow>
          (case find (\<lambda>ev. ev \<noteq> Published) evs of
             Some (Error code description) \<Rightarrow>
               end_run alnum now cn (RunFailed (refusal (code @ [0x20] @ description))) s
           | _ \<Rightarrow>
               (let (bs, c2) = client_take_output c1; cn1 = cn\<lparr>cn_session := c2\<rparr>
                in if bs = [] then go_to (EgLive cn1) s
                   else go_to (EgWriting cn1 Answer) (write_out bs s))))"

text \<open>The write under way is done: what was written is counted and noted.\<close>

definition written :: "connection \<Rightarrow> writing \<Rightarrow> 'p egress_task \<Rightarrow> 'p egress_task" where
  "written cn w s =
     (case w of
        Answer \<Rightarrow> go_to (EgLive cn) s
      | Batch n payload seq \<Rightarrow>
          (let s1 = sub_backlog payload s;
               cs = eg_counters s1;
               cn1 = cn\<lparr>cn_log := log_written n seq (cn_log cn),
                        cn_last_written := (if seq \<noteq> None then seq else cn_last_written cn)\<rparr>
           in go_to (EgLive cn1) (s1\<lparr>eg_counters := cs\<lparr>ct_written := ct_written cs + n\<rparr>\<rparr>)))"

text \<open>The write is over without being done: a batch counts as written off all the same.\<close>

definition write_over :: "writing \<Rightarrow> 'p egress_task \<Rightarrow> 'p egress_task" where
  "write_over w s = (case w of Answer \<Rightarrow> s | Batch _ payload _ \<Rightarrow> sub_backlog payload s)"

definition writing_ctl ::
  "(bytes \<Rightarrow> bool) \<Rightarrow> nat \<Rightarrow> connection \<Rightarrow> writing \<Rightarrow> egress_ctl option \<Rightarrow> os_view \<Rightarrow> 'p egress_task \<Rightarrow> 'p egress_task" where
  "writing_ctl alnum now cn w m os s =
     end_run alnum now cn
       (case m of Some (CtlCut n) \<Rightarrow> reset_for_cut n os (cn_log cn) | _ \<Rightarrow> ended_by m)
       (write_over w s)"

section \<open>The steps\<close>

text \<open>
  A control message in the phases before publishing: a dump is answered at once, since nothing
  is sent yet.
\<close>

definition early_ctl ::
  "egress_ctl \<Rightarrow> 'p egress_task \<Rightarrow> 'p egress_task" where
  "early_ctl m s =
     (case m of
        CtlCut n \<Rightarrow> cut_done n False None s
      | CtlStart t \<Rightarrow> connect_to t s
      | CtlStop \<Rightarrow> stop_idle s
      | CtlAbort \<Rightarrow> stop_idle s)"

fun idle_step :: "egress_input \<Rightarrow> 'p egress_task \<Rightarrow> 'p egress_task option" where
  "idle_step (GotCtl m _) s =
     Some (case m of
             CtlStart t \<Rightarrow> connect_to t (s\<lparr>eg_failures := no_failures\<rparr>)
           | CtlCut n \<Rightarrow> cut_done n False None s
           | CtlStop \<Rightarrow> s
           | CtlAbort \<Rightarrow> s)"
| "idle_step CtlClosed s = Some (go_to EgGone s)"
| "idle_step (GotMedia n) s = (if n = 1 \<and> eg_media s \<noteq> [] then Some (drop_media 1 s) else None)"
| "idle_step MediaClosed s = Some (go_to EgGone s)"
| "idle_step _ s = None"

fun connecting_step ::
  "(bytes \<Rightarrow> bool) \<Rightarrow> target \<Rightarrow> client_session option \<Rightarrow> egress_input \<Rightarrow> 'p egress_task \<Rightarrow> 'p egress_task option" where
  "connecting_step alnum t c (GotCtl m _) s = Some (early_ctl m s)"
| "connecting_step alnum t c CtlClosed s = Some (stop_idle s)"
| "connecting_step alnum t None (Opened rest) s = Some (opened alnum t rest s)"
| "connecting_step alnum t (Some c) (GotData data) s = Some (connect_data alnum t data c s)"
| "connecting_step alnum t (Some c) Closed s = Some (connect_failed alnum t refused_by_closing s)"
| "connecting_step alnum t c (ConnectFailed message) s =
     Some (connect_failed alnum t (new_failure message) s)"
| "connecting_step alnum t c ConnectTimedOut s =
     Some (back_off t (new_failure (ascii ''timed out connecting to the destination'')) s)"
| "connecting_step alnum t c _ s = None"

fun accepted_step :: "target \<Rightarrow> client_session \<Rightarrow> egress_input \<Rightarrow> 'p egress_task \<Rightarrow> 'p egress_task option" where
  "accepted_step t c (GotCtl m _) s = Some (early_ctl m s)"
| "accepted_step t c NoCtl s = Some (report (EgressConnected 0) (go_to (EgAsking t c) s))"
| "accepted_step t c _ s = None"

fun asking_step :: "nat \<Rightarrow> target \<Rightarrow> client_session \<Rightarrow> egress_input \<Rightarrow> 'p egress_task \<Rightarrow> 'p egress_task option" where
  "asking_step now t c (Generation g) s = Some (start_publish now t c g s)"
| "asking_step now t c CtlClosed s = Some (go_to EgGone s)"
| "asking_step now t c _ s = None"

fun live_step ::
  "(bytes \<Rightarrow> bool) \<Rightarrow> ('p \<Rightarrow> bytes \<Rightarrow> bytes option \<times> 'p) \<Rightarrow> nat \<Rightarrow> connection \<Rightarrow> egress_input \<Rightarrow>
   'p egress_task \<Rightarrow> 'p egress_task option" where
  "live_step alnum guard now cn (GotCtl m os) s = Some (live_ctl alnum now cn (Some m) os s)"
| "live_step alnum guard now cn CtlClosed s =
     Some (live_ctl alnum now cn None \<lparr>os_queue = None, os_buffer = None\<rparr> s)"
| "live_step alnum guard now cn (GotData data) s = Some (live_data alnum now cn data s)"
| "live_step alnum guard now cn Closed s =
     Some (run_failed alnum now cn (ascii ''the destination closed the connection'') s)"
| "live_step alnum guard now cn (ReadFailed e) s =
     Some (run_failed alnum now cn (ascii ''read failed: '' @ e) s)"
| "live_step alnum guard now cn (GotMedia n) s =
     (if 0 < n \<and> n \<le> MAX_BATCH \<and> n \<le> length (eg_media s) then Some (take_batch guard cn n s) else None)"
| "live_step alnum guard now cn MediaClosed s = Some (end_run alnum now cn Stopped s)"
| "live_step alnum guard now cn _ s = None"

fun writing_step ::
  "(bytes \<Rightarrow> bool) \<Rightarrow> nat \<Rightarrow> connection \<Rightarrow> writing \<Rightarrow> egress_input \<Rightarrow> 'p egress_task \<Rightarrow> 'p egress_task option" where
  "writing_step alnum now cn w (GotCtl m os) s = Some (writing_ctl alnum now cn w (Some m) os s)"
| "writing_step alnum now cn w CtlClosed s =
     Some (writing_ctl alnum now cn w None \<lparr>os_queue = None, os_buffer = None\<rparr> s)"
| "writing_step alnum now cn w Written s = Some (written cn w s)"
| "writing_step alnum now cn w (WriteFailed e) s =
     Some (run_failed alnum now cn (ascii ''write failed: '' @ e) (write_over w s))"
| "writing_step alnum now cn w _ s = None"

fun backoff_step :: "target \<Rightarrow> egress_input \<Rightarrow> 'p egress_task \<Rightarrow> 'p egress_task option" where
  "backoff_step t (GotCtl m _) s = Some (early_ctl m s)"
| "backoff_step t CtlClosed s = Some (stop_idle s)"
| "backoff_step t WaitOver s = Some (connect_to t s)"
| "backoff_step t (GotMedia n) s = (if n = 1 \<and> eg_media s \<noteq> [] then Some (drop_media 1 s) else None)"
| "backoff_step t MediaClosed s = Some (go_to EgIdle s)"
| "backoff_step t _ s = None"

definition egress_step ::
  "(bytes \<Rightarrow> bool) \<Rightarrow> ('p \<Rightarrow> bytes \<Rightarrow> bytes option \<times> 'p) \<Rightarrow> nat \<Rightarrow> egress_input \<Rightarrow> 'p egress_task \<Rightarrow> 'p egress_task option" where
  "egress_step alnum guard now i s =
     (case eg_phase s of
        EgIdle \<Rightarrow> idle_step i s
      | EgConnecting t c \<Rightarrow> connecting_step alnum t c i s
      | EgAccepted t c \<Rightarrow> accepted_step t c i s
      | EgAsking t c \<Rightarrow> asking_step now t c i s
      | EgLive cn \<Rightarrow> live_step alnum guard now cn i s
      | EgWriting cn w \<Rightarrow> writing_step alnum now cn w i s
      | EgBackoff t \<Rightarrow> backoff_step t i s
      | EgGone \<Rightarrow> None)"

end
