(* ===== verification/Egress_Promises.thy ===== *)
theory Egress_Promises
  imports Egress
begin

text \<open>
  What the egress promises the core: what it says the destination surely has (\<open>surely_sent\<close>),
  against a reference definition over everything written; that each dump is answered once and
  what the answer means; what of the media queued is sent; and that the backlog counted is
  what waits (\<open>counted\<close>).
\<close>

section \<open>What was surely sent\<close>

text \<open>
  The writes of a connection, each with its bytes and last sequence number; \<open>ends\<close> lists, for
  those with one, how many bytes had been written once they were.
\<close>

type_synonym wrote = "nat \<times> nat option"

definition log_of :: "wrote list \<Rightarrow> write_log" where
  "log_of ws = fold (\<lambda>(n, seq). log_written n seq) ws new_log"

definition total_of :: "wrote list \<Rightarrow> nat" where
  "total_of ws = sum_list (map fst ws)"

fun ends :: "nat \<Rightarrow> wrote list \<Rightarrow> (nat \<times> nat) list" where
  "ends t [] = []"
| "ends t ((n, seq) # ws) =
     (case seq of None \<Rightarrow> ends (t + n) ws | Some s \<Rightarrow> (s, t + n) # ends (t + n) ws)"

lemma ends_append: "ends t (ws @ vs) = ends t ws @ ends (t + total_of ws) vs"
  by (induction t ws rule: ends.induct) (simp_all add: total_of_def add.assoc split: option.split)

lemma ends_bounds: "(s, u) \<in> set (ends t ws) \<Longrightarrow> t \<le> u \<and> u \<le> t + total_of ws"
  by (induction t ws rule: ends.induct) (fastforce simp: total_of_def split: option.splits)+

lemma ends_sorted: "sorted (map snd (ends t ws))"
proof (induction t ws rule: ends.induct)
  case (2 t n seq ws)
  then show ?case
    using ends_bounds [of _ _ "t + n" ws] by (auto split: option.split)
qed simp

lemma dropWhile_sorted:
  "sorted (map snd xs) \<Longrightarrow>
   dropWhile (\<lambda>(_, u). k < t - u) xs = filter (\<lambda>(_, u). t - u \<le> k) xs" for k t :: nat
proof (induction xs)
  case (Cons x xs)
  obtain s u where x: "x = (s, u)" by (rule prod.exhaust)
  show ?case
  proof (cases "k < t - u")
    case False
    with Cons.prems x have "filter (\<lambda>(_, u). t - u \<le> k) xs = xs" by (fastforce simp: filter_id_conv)
    with False x show ?thesis by simp
  qed (use Cons x in simp)
qed simp

lemma log_of_eq:
  "log_of ws = \<lparr>wl_total = total_of ws,
     wl_batches = filter (\<lambda>(_, u). total_of ws - u \<le> WRITTEN_KEPT) (ends 0 ws)\<rparr>"
proof (induction ws rule: rev_induct)
  case Nil
  then show ?case by (simp add: log_of_def new_log_def total_of_def)
next
  case (snoc w ws)
  obtain n seq where w: "w = (n, seq)" by (rule prod.exhaust)
  let ?t = "total_of ws" and ?new = "case seq of None \<Rightarrow> [] | Some s \<Rightarrow> [(s, total_of ws + n)]"
  have all: "ends 0 (ws @ [w]) = ends 0 ws @ ?new"
    by (simp add: ends_append w split: option.split)
  have total: "total_of (ws @ [w]) = ?t + n" by (simp add: total_of_def w)
  have sub: "filter (\<lambda>(_, u). ?t + n - u \<le> WRITTEN_KEPT) (filter (\<lambda>(_, u). ?t - u \<le> WRITTEN_KEPT) (ends 0 ws)) =
      filter (\<lambda>(_, u). ?t + n - u \<le> WRITTEN_KEPT) (ends 0 ws)"
    by (auto intro: filter_cong)
  have sorted: "sorted (map snd (filter (\<lambda>(_, u). ?t - u \<le> WRITTEN_KEPT) (ends 0 ws) @ ?new))"
    using ends_sorted [of 0 ws] ends_bounds [of _ _ 0 ws]
    by (auto simp: sorted_append sorted_map sorted_wrt_filter intro: trans_le_add1 split: option.split)
  have "log_of (ws @ [w]) = log_written n seq (log_of ws)" by (simp add: log_of_def w)
  also have "\<dots> = \<lparr>wl_total = ?t + n, wl_batches =
      filter (\<lambda>(_, u). ?t + n - u \<le> WRITTEN_KEPT)
        (filter (\<lambda>(_, u). ?t - u \<le> WRITTEN_KEPT) (ends 0 ws) @ ?new)\<rparr>"
    unfolding snoc log_written_def Let_def write_log.select_convs
    using dropWhile_sorted [OF sorted, of WRITTEN_KEPT "?t + n"] by simp
  finally show ?case by (simp only: all total filter_append sub)
qed

lemma find_last_Cons:
  "find_last P (x # xs) = (case find_last P xs of Some y \<Rightarrow> Some y | None \<Rightarrow> if P x then Some x else None)"
  by (simp add: find_last_def find_append split: option.split)

lemma find_last_filter:
  "sorted (map snd xs) \<Longrightarrow>
   find_last P (filter (\<lambda>(_, u). t - u \<le> k) xs) =
     (case find_last P xs of Some (s, u) \<Rightarrow> if t - u \<le> k then Some (s, u) else None | None \<Rightarrow> None)"
  for t k :: nat
proof (induction xs)
  case (Cons x xs)
  obtain s u where x: "x = (s, u)" by (rule prod.exhaust)
  show ?case
  proof (cases "find_last P xs")
    case None
    with Cons x show ?thesis by (simp add: find_last_Cons)
  next
    case (Some y)
    obtain s' u' where y: "y = (s', u')" by (rule prod.exhaust)
    from find_last_Some [OF Some] have "u \<le> u'" using Cons.prems x y by force
    with Cons Some x y show ?thesis by (auto simp: find_last_Cons)
  qed
qed (simp add: find_last_def)

text \<open>
  What the egress reports as surely sent is what a full record of the connection's writes
  gives: the last message whose write ended at least \<open>unsent\<close> bytes ago, unless that is
  further back than what is kept, in which case nothing is claimed. Forgetting older writes
  never makes it name a later message, one the OS may still hold.
\<close>

theorem surely_sent_is_exact:
  "surely_sent unsent (log_of ws) =
     (case find_last (\<lambda>(_, fin). fin + unsent \<le> total_of ws) (ends 0 ws) of
        None \<Rightarrow> None
      | Some (s, fin) \<Rightarrow> if total_of ws - fin \<le> WRITTEN_KEPT then Some s else None)"
proof (cases "unsent \<le> total_of ws")
  case True
  then have eq: "(\<lambda>(_, fin). fin \<le> total_of ws - unsent) = (\<lambda>(_ :: nat, fin). fin + unsent \<le> total_of ws)"
    by auto
  show ?thesis
    using True find_last_filter [OF ends_sorted [of 0 ws],
        of "\<lambda>(_, fin). fin + unsent \<le> total_of ws" "total_of ws" WRITTEN_KEPT]
    by (auto simp: surely_sent_def log_of_eq checked_sub_def eq split: option.split prod.split)
next
  case False
  then have "find_last (\<lambda>(_, fin). fin + unsent \<le> total_of ws) (ends 0 ws) = None"
    by (auto simp: find_last_None)
  with False show ?thesis by (simp add: surely_sent_def log_of_eq checked_sub_def)
qed

section \<open>Every dump is answered\<close>

lemma report_fields [simp]:
  "eg_phase (report ev s) = eg_phase s" "eg_events (report ev s) = eg_events s @ [ev]"
  "eg_media (report ev s) = eg_media s" "eg_sent (report ev s) = eg_sent s"
  "eg_wire (report ev s) = eg_wire s" "eg_counters (report ev s) = eg_counters s"
  "eg_failures (report ev s) = eg_failures s"
  by (simp_all add: report_def)

lemma task_fields [simp]:
  "eg_phase (go_to p s) = p" "eg_events (go_to p s) = eg_events s" "eg_media (go_to p s) = eg_media s"
  "eg_sent (go_to p s) = eg_sent s" "eg_wire (go_to p s) = eg_wire s"
  "eg_counters (go_to p s) = eg_counters s"
  "eg_phase (write_out bs s) = eg_phase s" "eg_events (write_out bs s) = eg_events s"
  "eg_media (write_out bs s) = eg_media s" "eg_sent (write_out bs s) = eg_sent s"
  "eg_wire (write_out bs s) = eg_wire s @ bs" "eg_counters (write_out bs s) = eg_counters s"
  "eg_phase (sub_backlog n s) = eg_phase s" "eg_events (sub_backlog n s) = eg_events s"
  "eg_media (sub_backlog n s) = eg_media s" "eg_sent (sub_backlog n s) = eg_sent s"
  "eg_wire (sub_backlog n s) = eg_wire s"
  "eg_phase (drop_media n s) = eg_phase s" "eg_events (drop_media n s) = eg_events s"
  "eg_media (drop_media n s) = drop n (eg_media s)" "eg_sent (drop_media n s) = eg_sent s"
  "eg_wire (drop_media n s) = eg_wire s"
  by (simp_all add: go_to_def write_out_def sub_backlog_def drop_media_def)

lemma connect_to_fields [simp]:
  "eg_phase (connect_to t s) = EgConnecting t None"
  "eg_events (connect_to t s) = eg_events s @ [EgressStatus egress_status.Connecting None]"
  "eg_media (connect_to t s) = eg_media s" "eg_sent (connect_to t s) = eg_sent s"
  "eg_wire (connect_to t s) = eg_wire s" "eg_counters (connect_to t s) = eg_counters s"
  by (simp_all add: connect_to_def report_status_def)

lemma cut_done_fields [simp]:
  "eg_phase (cut_done n reset d s) = eg_phase s"
  "eg_events (cut_done n reset d s) = eg_events s @ [CutDone n reset d]"
  "eg_media (cut_done n reset d s) = eg_media s" "eg_sent (cut_done n reset d s) = eg_sent s"
  "eg_wire (cut_done n reset d s) = eg_wire s" "eg_counters (cut_done n reset d s) = eg_counters s"
  by (simp_all add: cut_done_def)

definition is_answer :: "event \<Rightarrow> bool" where
  "is_answer ev \<longleftrightarrow> (case ev of CutDone _ _ _ \<Rightarrow> True | _ \<Rightarrow> False)"

text \<open>The connection being published on, while it is.\<close>

definition live_on :: "phase \<Rightarrow> connection option" where
  "live_on p = (case p of EgLive cn \<Rightarrow> Some cn | EgWriting cn _ \<Rightarrow> Some cn | _ \<Rightarrow> None)"

definition held :: "os_view \<Rightarrow> nat" where
  "held os = (case os_queue os of Some q \<Rightarrow> sq_unsent q + sq_unacked q | None \<Rightarrow> held_at_most os)"

text \<open>
  What an answer to dump \<open>n\<close> may say, given the phase and what the OS holds: without a
  connection, that nothing was sent; on one with nothing being written and nothing unsent,
  that all that was written is on its way, and the connection stays; otherwise that it was
  reset, naming only what was surely sent, and the same destination is connected to again.
\<close>

definition honest_answer :: "phase \<Rightarrow> os_view \<Rightarrow> bool \<Rightarrow> nat option \<Rightarrow> phase \<Rightarrow> bool" where
  "honest_answer p os reset delivered p' \<longleftrightarrow>
     (case live_on p of
        None \<Rightarrow> \<not> reset \<and> delivered = None \<and> p' = p
      | Some cn \<Rightarrow>
          if reset
          then delivered = surely_sent (held os) (cn_log cn) \<and> p' = EgConnecting (cn_target cn) None
          else p = EgLive cn \<and> p' = p \<and> delivered = cn_last_written cn \<and>
               (\<exists>q. os_queue os = Some q \<and> sq_unsent q = 0))"

lemma end_run_reset:
  "filter is_answer (eg_events (end_run alnum now cn (CutReset n d) s)) =
     filter is_answer (eg_events s) @ [CutDone n True d]"
  "eg_phase (end_run alnum now cn (CutReset n d) s) = EgConnecting (cn_target cn) None"
  "eg_sent (end_run alnum now cn (CutReset n d) s) = eg_sent s"
  "eg_wire (end_run alnum now cn (CutReset n d) s) = eg_wire s"
  by (simp_all add: end_run_def Let_def is_answer_def)

lemma write_over_fields [simp]:
  "eg_events (write_over w s) = eg_events s" "eg_sent (write_over w s) = eg_sent s"
  "eg_wire (write_over w s) = eg_wire s" "eg_media (write_over w s) = eg_media s"
  by (simp_all add: write_over_def split: writing.split)

lemma cut_is_answered:
  assumes "egress_step alnum guard now (GotCtl (CtlCut n) os) s = Some s'"
  shows "\<exists>reset delivered.
    filter is_answer (eg_events s') = filter is_answer (eg_events s) @ [CutDone n reset delivered] \<and>
    eg_sent s' = eg_sent s \<and> eg_wire s' = eg_wire s \<and>
    honest_answer (eg_phase s) os reset delivered (eg_phase s')"
proof -
  have reset: "reset_for_cut n os l = CutReset n (surely_sent (held os) l)" for l
    by (simp add: reset_for_cut_def held_def Let_def)
  have early: "\<exists>reset delivered.
      filter is_answer (eg_events (cut_done n False None s)) =
        filter is_answer (eg_events s) @ [CutDone n reset delivered] \<and>
      honest_answer (eg_phase s) os reset delivered (eg_phase s)" if "live_on (eg_phase s) = None"
    using that by (intro exI [of _ False] exI [of _ None]) (simp add: is_answer_def honest_answer_def)
  show ?thesis
  proof (cases "eg_phase s")
    case (EgLive cn)
    show ?thesis
    proof (cases "case os_queue os of None \<Rightarrow> True | Some q \<Rightarrow> sq_unsent q \<noteq> 0")
      case True
      with assms EgLive have "s' = end_run alnum now cn (CutReset n (surely_sent (held os) (cn_log cn))) s"
        by (simp add: egress_step_def live_ctl_def reset)
      with EgLive show ?thesis
        by (intro exI [of _ True] exI [of _ "surely_sent (held os) (cn_log cn)"])
          (simp add: end_run_reset honest_answer_def live_on_def)
    next
      case False
      with assms EgLive have "s' = cut_done n False (cn_last_written cn) s"
        by (simp add: egress_step_def live_ctl_def)
      with EgLive False show ?thesis
        by (intro exI [of _ False] exI [of _ "cn_last_written cn"])
          (auto simp: is_answer_def honest_answer_def live_on_def split: option.splits)
    qed
  next
    case (EgWriting cn w)
    with assms have "s' = end_run alnum now cn (CutReset n (surely_sent (held os) (cn_log cn))) (write_over w s)"
      by (simp add: egress_step_def writing_ctl_def reset)
    with EgWriting show ?thesis
      by (intro exI [of _ True] exI [of _ "surely_sent (held os) (cn_log cn)"])
        (simp add: end_run_reset honest_answer_def live_on_def)
  qed (use assms early in \<open>auto simp: egress_step_def early_ctl_def live_on_def\<close>)
qed

text \<open>
  C15. Whatever phase the egress is in when a dump reaches it, it answers that dump exactly
  once and sends nothing more first, and the answer is honest: it says that the connection
  was not reset only when nothing written is still waiting in this computer, and otherwise
  closes the connection and names as delivered only what was surely sent.
\<close>

theorem dump_answered_once_and_honestly:
  assumes "egress_step alnum guard now (GotCtl (CtlCut n) os) s = Some s'"
  shows "\<exists>reset delivered.
    filter is_answer (eg_events s') = filter is_answer (eg_events s) @ [CutDone n reset delivered] \<and>
    eg_sent s' = eg_sent s \<and> eg_wire s' = eg_wire s \<and>
    honest_answer (eg_phase s) os reset delivered (eg_phase s')"
  using assms by (rule cut_is_answered)

section \<open>The backlog counts what waits\<close>

text \<open>
  Payload bytes taken out of the channel and being written; \<open>counted_at k\<close>: the backlog is
  what is in the channel and \<open>k\<close> bytes more.
\<close>

definition in_flight :: "phase \<Rightarrow> nat" where
  "in_flight p = (case p of EgWriting _ (Batch _ payload _) \<Rightarrow> payload | _ \<Rightarrow> 0)"

definition counted_at :: "nat \<Rightarrow> 'p egress_task \<Rightarrow> bool" where
  "counted_at k s \<longleftrightarrow> ct_backlog (eg_counters s) = queued_bytes (eg_media s) + k"

definition counted :: "'p egress_task \<Rightarrow> bool" where
  "counted s \<longleftrightarrow> counted_at (in_flight (eg_phase s)) s"

lemma counted_at_same [simp]:
  "counted_at k (report ev s) = counted_at k s" "counted_at k (go_to p s) = counted_at k s"
  "counted_at k (write_out bs s) = counted_at k s" "counted_at k (connect_to t s) = counted_at k s"
  "counted_at k (cut_done n reset d s) = counted_at k s"
  "counted_at k (report_status st e s) = counted_at k s"
  "counted_at k (s\<lparr>eg_failures := fs\<rparr>) = counted_at k s"
  "counted_at k (s\<lparr>eg_failures := fs, eg_wait := w\<rparr>) = counted_at k s"
  by (simp_all add: counted_at_def report_status_def)

lemma queued_bytes_append [simp]: "queued_bytes (xs @ ys) = queued_bytes xs + queued_bytes ys"
  by (simp add: queued_bytes_def)

lemma counted_drop: "counted_at k s \<Longrightarrow> counted_at k (drop_media n s)"
proof -
  assume k: "counted_at k s"
  have "queued_bytes (eg_media s) = queued_bytes (take n (eg_media s)) + queued_bytes (drop n (eg_media s))"
    by (metis append_take_drop_id queued_bytes_append)
  with k show ?thesis by (simp add: counted_at_def drop_media_def sub_backlog_def)
qed

lemma counted_sub: "counted_at (n + k) s \<Longrightarrow> counted_at k (sub_backlog n s)"
  by (simp add: counted_at_def sub_backlog_def)

lemma counted_stop: "counted_at 0 s \<Longrightarrow> counted (stop_idle s)"
  by (simp add: counted_def in_flight_def stop_idle_def stopped_def counted_drop)

lemma counted_connect: "counted_at 0 s \<Longrightarrow> counted (connect_to t s)"
  by (simp add: counted_def in_flight_def)

lemma counted_back_off: "counted_at 0 s \<Longrightarrow> counted (back_off t f s)"
  by (simp add: counted_def in_flight_def back_off_def report_status_def split: prod.split)

lemma counted_connect_data: "counted_at 0 s \<Longrightarrow> counted (connect_data alnum t data c s)"
  by (auto simp: connect_data_def connect_failed_def counted_back_off
      split: prod.split sum.split list.split client_event.split)
    (simp_all add: counted_def in_flight_def)

lemma counted_end_run: "counted_at 0 s \<Longrightarrow> counted (end_run alnum now cn r s)"
  by (cases r) (auto simp: end_run_def Let_def intro: counted_stop counted_connect counted_back_off)

lemma counted_write_over:
  "counted_at (in_flight (EgWriting cn w)) s \<Longrightarrow> counted_at 0 (write_over w s)"
  by (cases w) (simp_all add: in_flight_def write_over_def counted_sub)

lemma counted_take_batch:
  assumes "counted_at 0 s"
  shows "counted (take_batch guard cn n s)"
proof -
  have "queued_bytes (eg_media s) = queued_bytes (take n (eg_media s)) + queued_bytes (drop n (eg_media s))"
    by (metis append_take_drop_id queued_bytes_append)
  with assms show ?thesis
    by (simp add: take_batch_def Let_def counted_def counted_at_def in_flight_def write_out_def go_to_def
        split: prod.split)
qed

lemma counted_cut_done: "counted (cut_done n reset d s) = counted s"
  by (simp add: counted_def)

lemma counted_early: "counted_at 0 s \<Longrightarrow> counted s \<Longrightarrow> counted (early_ctl m s)"
  by (cases m) (auto simp: early_ctl_def counted_stop counted_connect counted_cut_done)

lemma counted_live_data: "counted_at 0 s \<Longrightarrow> counted (live_data alnum now cn data s)"
  by (auto simp: live_data_def run_failed_def counted_end_run Let_def
      split: prod.split sum.split option.split client_event.split)
    (simp_all add: counted_def in_flight_def)

lemma counted_live_ctl: "counted_at 0 s \<Longrightarrow> eg_phase s = EgLive cn \<Longrightarrow> counted (live_ctl alnum now cn m os s)"
  by (auto simp: live_ctl_def counted_end_run Let_def split: option.split egress_ctl.split)
    (simp_all add: counted_def in_flight_def)

lemma counted_written:
  "counted_at (in_flight (EgWriting cn w)) s \<Longrightarrow> counted (written cn w s)"
  using counted_sub [of "case w of Batch _ p _ \<Rightarrow> p | _ \<Rightarrow> 0" 0 s]
  by (cases w) (auto simp: written_def Let_def counted_def in_flight_def counted_at_def go_to_def)

lemma egress_step_counted:
  assumes "counted s" and "egress_step alnum guard now i s = Some s'"
  shows "counted s'"
proof -
  have zero: "counted_at 0 s" if "in_flight (eg_phase s) = 0"
    using assms(1) that by (simp add: counted_def)
  show ?thesis
  proof (cases "eg_phase s")
    case EgIdle
    with assms zero show ?thesis
      by (cases i) (auto simp: egress_step_def in_flight_def counted_connect counted_drop counted_def
          split: egress_ctl.splits if_splits)
  next
    case (EgConnecting t c)
    then have z: "counted_at 0 s" using zero by (simp add: in_flight_def)
    have o: "counted (opened alnum t rest s)" for rest
      using z by (auto simp: opened_def Let_def counted_connect_data split: prod.split)
        (simp add: counted_def in_flight_def)
    from EgConnecting assms z o show ?thesis
      by (cases i; cases c) (auto simp: egress_step_def counted_early counted_stop connect_failed_def
          counted_back_off counted_connect_data)
  next
    case (EgAccepted t c)
    then have z: "counted_at 0 s" using zero by (simp add: in_flight_def)
    have "counted (report ev (go_to (EgAsking t c) s))" for ev
      using z by (simp add: counted_def in_flight_def)
    with EgAccepted assms z show ?thesis
      by (cases i) (auto simp: egress_step_def counted_early)
  next
    case (EgAsking t c)
    with assms zero show ?thesis
      by (cases i) (auto simp: egress_step_def in_flight_def start_publish_def counted_def report_status_def)
  next
    case (EgLive cn)
    then have z: "counted_at 0 s" using zero by (simp add: in_flight_def)
    from EgLive assms show ?thesis
      by (cases i) (auto simp: egress_step_def run_failed_def intro: counted_live_ctl [OF z]
          counted_live_data [OF z] counted_end_run [OF z] counted_take_batch [OF z] split: if_splits)
  next
    case (EgWriting cn w)
    then have z: "counted_at (in_flight (EgWriting cn w)) s" using assms(1) by (simp add: counted_def)
    from EgWriting assms show ?thesis
      by (cases i) (auto simp: egress_step_def run_failed_def writing_ctl_def counted_written [OF z]
          intro: counted_end_run [OF counted_write_over [OF z]])
  next
    case (EgBackoff t)
    then have z: "counted_at 0 s" using zero by (simp add: in_flight_def)
    have "counted (drop_media (Suc 0) s)" "counted (go_to EgIdle s)"
      using EgBackoff z counted_drop [OF z] by (simp_all add: counted_def in_flight_def)
    with EgBackoff assms z show ?thesis
      by (cases i) (auto simp: egress_step_def counted_early counted_stop counted_connect
          split: if_splits)
  next
    case EgGone
    with assms show ?thesis by (simp add: egress_step_def)
  qed
qed

section \<open>What is sent\<close>

text \<open>
  A step takes messages off the front of the media channel; what it gives to the session is
  either nothing, or, on a live connection, exactly those of them that were made for this
  connection and after the latest dump, in order.
\<close>

definition sends :: "'p egress_task \<Rightarrow> queued list \<Rightarrow> bool" where
  "sends s qs \<longleftrightarrow>
     qs = [] \<or>
     (\<exists>cn n. eg_phase s = EgLive cn \<and>
        qs = filter (current (cn_generation cn) (ct_cut (eg_counters s))) (take n (eg_media s)))"

definition step_of :: "'p egress_task \<Rightarrow> 'p egress_task \<Rightarrow> queued list \<Rightarrow> bool" where
  "step_of s s' qs \<longleftrightarrow>
     (\<exists>k. eg_media s' = drop k (eg_media s)) \<and> eg_sent s' = eg_sent s @ qs \<and>
     ct_cut (eg_counters s') = ct_cut (eg_counters s)"

lemma counters_cut [simp]:
  "ct_cut (eg_counters (sub_backlog n s)) = ct_cut (eg_counters s)"
  "ct_cut (eg_counters (drop_media n s)) = ct_cut (eg_counters s)"
  "ct_cut (eg_counters (write_over w s)) = ct_cut (eg_counters s)"
  by (simp_all add: sub_backlog_def drop_media_def write_over_def split: writing.split)

lemma step_of_same: "eg_media s' = eg_media s \<Longrightarrow> eg_sent s' = eg_sent s \<Longrightarrow>
    ct_cut (eg_counters s') = ct_cut (eg_counters s) \<Longrightarrow> step_of s s' []"
  by (auto simp: step_of_def intro: exI [of _ 0])

lemma step_of_refl [simp]: "step_of s s []"
  by (rule step_of_same) simp_all

lemma step_of_trans: "step_of a b [] \<Longrightarrow> step_of b c [] \<Longrightarrow> step_of a c []"
  by (auto simp: step_of_def add.commute)

lemma step_stop: "step_of s (stop_idle s) []"
  by (simp add: step_of_def stop_idle_def stopped_def report_status_def) (metis drop_all order_refl)

lemma step_drop: "step_of s (drop_media n s) []"
  by (auto simp: step_of_def)

lemma step_back_off: "step_of s (back_off t f s) []"
  by (rule step_of_same) (simp_all add: back_off_def report_status_def split: prod.split)

lemma step_connect_data: "step_of s (connect_data alnum t data c s) []"
proof -
  have 1: "step_of s (go_to p (write_out bs s)) []" for p bs by (rule step_of_same) simp_all
  have 2: "step_of s (go_to p ((write_out bs s)\<lparr>eg_failures := fs\<rparr>)) []" for p bs fs
    by (rule step_of_same) (simp_all add: go_to_def)
  show ?thesis
    by (auto simp: connect_data_def connect_failed_def step_back_off 1 2
        split: prod.split sum.split list.split client_event.split)
qed

lemma step_end_run: "step_of s0 s [] \<Longrightarrow> step_of s0 (end_run alnum now cn r s) []"
proof -
  assume s: "step_of s0 s []"
  have same: "step_of s (report e s) []" "step_of s (report e (cut_done n b d s)) []"
    "step_of s (connect_to t (report e s)) []" "step_of s (connect_to t (report e (cut_done n b d s))) []"
    "step_of s ((report e s)\<lparr>eg_failures := fs\<rparr>) []" for e n b d t fs
    by (rule step_of_same; simp)+
  have "step_of s (end_run alnum now cn r s) []"
    by (cases r) (auto simp: end_run_def Let_def same intro: step_of_trans [OF same(1) step_stop]
        step_of_trans [OF same(1) step_back_off] step_of_trans [OF same(5) step_back_off])
  with s show ?thesis by (rule step_of_trans)
qed

lemma step_early: "step_of s (early_ctl m s) []"
  by (cases m) (auto simp: early_ctl_def step_stop intro: step_of_same)

lemma step_live_ctl: "step_of s (live_ctl alnum now cn m os s) []"
proof -
  have "step_of s (write_out bs s) []" "step_of s s []" "step_of s (cut_done n b d s) []" for bs n b d
    by (rule step_of_same; simp)+
  then show ?thesis
    by (auto simp: live_ctl_def Let_def intro: step_end_run split: option.split egress_ctl.split)
qed

lemma step_live_data: "step_of s (live_data alnum now cn data s) []"
proof -
  have "step_of s s []" "step_of s (go_to p s) []" "step_of s (go_to p (write_out bs s)) []" for p bs
    by (rule step_of_same; simp)+
  then show ?thesis
    by (auto simp: live_data_def run_failed_def Let_def intro: step_end_run
        split: prod.split sum.split option.split client_event.split)
qed

lemma egress_step_sends:
  assumes "egress_step alnum guard now i s = Some s'"
  obtains qs where "step_of s s' qs" and "sends s qs"
proof -
  note found = that
  have none: thesis if "step_of s s' []" using that by (rule found) (simp add: sends_def)
  have go: "step_of s (go_to p s) []" "step_of s (report e (go_to p s)) []" "step_of s (connect_to t s) []"
    "step_of s (cut_done n b d s) []" "step_of s s []" "step_of s (report_status st er (go_to p s)) []"
    "step_of s (go_to p (write_out bs s)) []"
    for p e t n b d st er bs
    by (rule step_of_same; simp add: report_status_def)+
  have over: "step_of s (write_over w s) []" for w by (rule step_of_same) simp_all
  have connect_fresh: "step_of s (connect_to t (s\<lparr>eg_failures := fs\<rparr>)) []" for t fs
    by (rule step_of_same) simp_all
  show thesis
  proof (cases "eg_phase s")
    case EgIdle
    with assms have "step_of s s' []"
      by (cases i) (auto simp: egress_step_def go step_drop connect_fresh
          split: egress_ctl.splits if_splits)
    then show thesis by (rule none)
  next
    case (EgConnecting t c)
    have "step_of s (opened alnum t rest s) []" for rest
    proof (cases "rest = []")
      case False
      have w: "step_of s (write_out bs s) []" for bs by (rule step_of_same) simp_all
      from False show ?thesis
        by (auto simp: opened_def Let_def split: prod.split
            intro: step_of_trans [OF w step_connect_data])
    qed (simp add: opened_def go split: prod.split)
    with EgConnecting assms show thesis
      by (cases i; cases c) (auto simp: egress_step_def connect_failed_def step_early step_stop
          step_back_off step_connect_data intro: none)
  next
    case (EgAccepted t c)
    with assms show thesis
      by (cases i) (auto simp: egress_step_def step_early go intro: none)
  next
    case (EgAsking t c)
    with assms show thesis
      by (cases i) (auto simp: egress_step_def start_publish_def go intro: none)
  next
    case (EgLive cn)
    have batch: thesis if s': "s' = take_batch guard cn n s" for n
    proof -
      let ?qs = "filter (current (cn_generation cn) (ct_cut (eg_counters s))) (take n (eg_media s))"
      have "step_of s s' ?qs"
        unfolding s' by (auto simp: step_of_def take_batch_def Let_def go_to_def write_out_def
            split: prod.split)
      moreover have "sends s ?qs" using EgLive by (auto simp: sends_def)
      ultimately show thesis by (rule found)
    qed
    from EgLive assms show thesis
      by (cases i) (auto simp: egress_step_def run_failed_def step_live_ctl step_live_data
          intro: none batch step_end_run [OF go(5)] split: if_splits)
  next
    case (EgWriting cn w)
    have "step_of s (written cn w s) []"
      by (cases w) (auto simp: written_def Let_def go sub_backlog_def go_to_def intro: step_of_same)
    with EgWriting assms show thesis
      by (cases i) (auto simp: egress_step_def run_failed_def writing_ctl_def
          intro: none step_end_run [OF over])
  next
    case (EgBackoff t)
    with assms show thesis
      by (cases i) (auto simp: egress_step_def step_early step_stop step_drop go intro: none
          split: if_splits)
  next
    case EgGone
    with assms show thesis by (simp add: egress_step_def)
  qed
qed

end
