(* ===== verification/Relay.thy ===== *)
theory Relay
  imports Core_Promises Egress_Promises Engine_Generation
begin

text \<open>
  The relay: the core and the egress together, as \<^verbatim>\<open>core::run\<close> sets them up
  (\<^verbatim>\<open>crates/relay/src/core.rs\<close>), with the channels between them: control messages and media
  to the egress, events to the core, the answers to \<^verbatim>\<open>EgressConnected\<close>, and the counters
  both keep. A step is a turn of the core or a step of the egress, in any order; a turn is
  atomic, which is what the order of its sends and the counters' atomic updates amount to.
  What the encoder, the operator, the destination and the clock do is arbitrary. The channels
  stay open while the core runs, so their closing is left out here.
\<close>

section \<open>State\<close>

definition new_egress :: "'p \<Rightarrow> 'p egress_task" where
  "new_egress pocs =
     \<lparr>eg_phase = EgIdle, eg_failures = no_failures, eg_pocs = pocs,
      eg_counters = \<lparr>ct_backlog = 0, ct_written = 0, ct_cut = 0\<rparr>, eg_media = [],
      eg_events = [], eg_sent = [], eg_wire = [], eg_wait = 0\<rparr>"

text \<open>
  \<open>rl_numbers\<close> lists the numbers the egress was given for its connections, the latest last;
  no operation reads it.
\<close>

record 'p relay =
  rl_core :: core
  rl_egress :: "'p egress_task"
  rl_ctl :: "egress_ctl list"
  rl_answers :: "nat list"
  rl_inbox :: "event list"
  rl_numbers :: "nat list"

definition new_relay :: "relay_config \<Rightarrow> 'p \<Rightarrow> 'p relay" where
  "new_relay cfg pocs =
     \<lparr>rl_core = new_core cfg, rl_egress = new_egress pocs, rl_ctl = [], rl_answers = [],
      rl_inbox = [], rl_numbers = []\<rparr>"

section \<open>Steps\<close>

text \<open>An event of the egress comes from its channel, in order; the rest from the ingest.\<close>

definition from_egress :: "event \<Rightarrow> bool" where
  "from_egress ev \<longleftrightarrow>
     (case ev of
        EgressConnected _ \<Rightarrow> True | CutDone _ _ _ \<Rightarrow> True
      | EgressDisconnected _ _ \<Rightarrow> True | EgressStatus _ _ \<Rightarrow> True | _ \<Rightarrow> False)"

definition take_wakeup :: "wakeup \<Rightarrow> event list \<Rightarrow> event list option" where
  "take_wakeup w inbox =
     (case w of
        OnEvent ev \<Rightarrow>
          if from_egress ev
          then (case inbox of [] \<Rightarrow> None | e # rest \<Rightarrow> if e = ev then Some rest else None)
          else Some inbox
      | _ \<Rightarrow> Some inbox)"

definition connected_answers :: "reply list \<Rightarrow> nat list" where
  "connected_answers rs = List.map_filter (\<lambda>r. case r of ConnectedReply _ n \<Rightarrow> Some n | _ \<Rightarrow> None) rs"

definition relay_core :: "(bytes \<Rightarrow> u64) \<Rightarrow> nat \<Rightarrow> wakeup \<Rightarrow> 'p relay \<Rightarrow> (nat option \<times> 'p relay) option" where
  "relay_core fp now w r =
     (case take_wakeup w (rl_inbox r) of
        None \<Rightarrow> None
      | Some inbox \<Rightarrow>
          (let g = rl_egress r; cs = eg_counters g in
           case core_turn fp now w (between (ct_backlog cs) (ct_written cs) (rl_core r)) of
             None \<Rightarrow> None
           | Some (wake, c) \<Rightarrow>
               Some (wake, r\<lparr>rl_core := c,
                 rl_egress := g\<lparr>eg_media := eg_media g @ c_media c, eg_counters := c_counters c\<rparr>,
                 rl_ctl := rl_ctl r @ c_ctl c,
                 rl_answers := rl_answers r @ connected_answers (c_replies c),
                 rl_inbox := inbox\<rparr>)))"

text \<open>What an input of the egress takes out of the channels, if it can come now.\<close>

definition take_input :: "egress_input \<Rightarrow> 'p relay \<Rightarrow> 'p relay option" where
  "take_input i r =
     (case i of
        GotCtl m _ \<Rightarrow>
          (case rl_ctl r of
             [] \<Rightarrow> None | x # rest \<Rightarrow> if x = m then Some (r\<lparr>rl_ctl := rest\<rparr>) else None)
      | NoCtl \<Rightarrow> if rl_ctl r = [] then Some r else None
      | Generation n \<Rightarrow>
          (case rl_answers r of
             [] \<Rightarrow> None
           | x # rest \<Rightarrow>
               if x = n then Some (r\<lparr>rl_answers := rest, rl_numbers := rl_numbers r @ [n]\<rparr>) else None)
      | CtlClosed \<Rightarrow> None
      | MediaClosed \<Rightarrow> None
      | _ \<Rightarrow> Some r)"

definition relay_egress ::
  "(bytes \<Rightarrow> bool) \<Rightarrow> ('p \<Rightarrow> bytes \<Rightarrow> bytes option \<times> 'p) \<Rightarrow> nat \<Rightarrow> egress_input \<Rightarrow> 'p relay \<Rightarrow> 'p relay option" where
  "relay_egress alnum guard now i r =
     (case take_input i r of
        None \<Rightarrow> None
      | Some r1 \<Rightarrow>
          (case egress_step alnum guard now i (rl_egress r1) of
             None \<Rightarrow> None
           | Some g \<Rightarrow>
               Some (r1\<lparr>rl_egress := g,
                 rl_inbox := rl_inbox r1 @ drop (length (eg_events (rl_egress r1))) (eg_events g)\<rparr>)))"

inductive relay_step ::
  "(bytes \<Rightarrow> u64) \<Rightarrow> (bytes \<Rightarrow> bool) \<Rightarrow> ('p \<Rightarrow> bytes \<Rightarrow> bytes option \<times> 'p) \<Rightarrow> 'p relay \<Rightarrow> 'p relay \<Rightarrow> bool"
  for fp alnum guard where
  core: "relay_core fp now w r = Some (wake, r') \<Longrightarrow> relay_step fp alnum guard r r'"
| egress: "relay_egress alnum guard now i r = Some r' \<Longrightarrow> relay_step fp alnum guard r r'"

inductive_cases relay_stepE: "relay_step fp alnum guard r r'"

section \<open>What a turn of the core does to the rest\<close>

lemma steps_gen: "steps fp c c' \<Longrightarrow> engine_wf (c_engine c) \<Longrightarrow> gen (c_engine c) \<le> gen (c_engine c')"
proof -
  have "(engine_step fp)\<^sup>*\<^sup>* a b \<Longrightarrow> engine_wf a \<Longrightarrow> gen a \<le> gen b" for a b
  proof (induction rule: rtranclp_induct)
    case (step x y)
    then have "engine_wf x" using engine_machine.steps_inv [of fp a x] by simp
    with step gen_step [of fp x y] show ?case by simp
  qed simp
  then show "steps fp c c' \<Longrightarrow> engine_wf (c_engine c) \<Longrightarrow> gen (c_engine c) \<le> gen (c_engine c')"
    by (simp add: steps_def)
qed

text \<open>The dump a core is waiting for has been announced in what it sends.\<close>

definition dump_kept :: "core \<Rightarrow> core \<Rightarrow> bool" where
  "dump_kept c c' \<longleftrightarrow>
     c_cut c \<le> c_cut c' \<and>
     (ct_cut (c_counters c) = c_cut c \<longrightarrow> ct_cut (c_counters c') = c_cut c') \<and>
     ct_backlog (c_counters c') = ct_backlog (c_counters c) \<and>
     (c_dump c' = None \<or> CtlCut (c_cut c') \<in> set (c_ctl c') \<or>
      c_dump c \<noteq> None \<and> c_cut c' = c_cut c)"

lemma dump_kept_same:
  "c_cut c' = c_cut c \<Longrightarrow> c_counters c' = c_counters c \<Longrightarrow> c_dump c' = c_dump c \<Longrightarrow> dump_kept c c'"
  by (cases "c_dump c") (simp_all add: dump_kept_def)

lemma finish_dump_over:
  "c_dump (finish_dump now d c) = None" "c_cut (finish_dump now d c) = c_cut c"
  "c_counters (finish_dump now d c) = c_counters c"
  by (auto simp: finish_dump_def Let_def split: option.split prod.split)

lemma dump_kept_finish: "dump_kept c (finish_dump now d c)"
  by (simp add: dump_kept_def finish_dump_over)

lemma dump_kept_check: "dump_kept c (publish_state now (check_dump now c))"
  using finish_dump_over [of now None "c\<lparr>c_dump := d\<rparr>" for d]
  by (auto simp: dump_kept_def check_dump_def split: option.split)

lemma dump_kept_control: "dump_kept c (core_control now req c)"
proof -
  have start: "dump_kept c (start_dump now mode cover r c)" for mode cover r
    by (auto simp: dump_kept_def start_dump_def Let_def split: option.split)
  have cmd: "dump_kept c (engine_command now cmd r c)" for cmd r
    by (rule dump_kept_same) (simp_all add: engine_command_def Let_def split: prod.split)
  show ?thesis
    by (cases req)
      (auto simp: core_control_def start cmd set_destination_def Let_def split: command.split
        intro: dump_kept_same)
qed

lemma accept_publisher_fields [simp]:
  "c_cut (accept_publisher now conn peer app key props c) = c_cut c"
  "c_counters (accept_publisher now conn peer app key props c) = c_counters c"
  "c_dump (accept_publisher now conn peer app key props c) = c_dump c"
  "c_generation (accept_publisher now conn peer app key props c) = c_generation c"
  by (auto simp: accept_publisher_def Let_def split: option.split)

lemma dump_kept_event: "dump_kept c (core_event now ev c)"
proof (cases "\<exists>n reset delivered. ev = CutDone n reset delivered")
  case True
  then show ?thesis by (auto simp: core_event_def dump_kept_finish dump_kept_same)
next
  case False
  show ?thesis
  proof (rule dump_kept_same)
    show "c_dump (core_event now ev c) = c_dump c" using False by (intro event_dump) simp
    show "c_cut (core_event now ev c) = c_cut c" "c_counters (core_event now ev c) = c_counters c"
      using False
      by (cases ev; auto simp: core_event_def ingest_publish_def note_refusal_def from_publisher_def
          ingest_closed_def egress_connected_def egress_disconnected_def note_egress_status_def
          Let_def split: option.split prod.split)+
  qed
qed

lemma dump_kept_wakeup: "dump_kept c (core_wakeup now w c)"
  using dump_kept_control dump_kept_event dump_kept_check
  by (cases w) (simp_all add: core_wakeup_def dump_kept_same)

lemma connected_answers_append [simp]:
  "connected_answers [] = []" "connected_answers (xs @ ys) = connected_answers xs @ connected_answers ys"
  "connected_answers (map (\<lambda>r. CommandReply r res) rs) = []"
  by (simp_all add: connected_answers_def map_filter_def filter_empty_conv)

lemma send_reply_answers [simp]:
  "connected_answers [CommandReply k res] = []" "connected_answers [DoneReply k] = []"
  "connected_answers [PublishReply k why] = []" "connected_answers [CloseConn k] = []"
  "connected_answers [ConnectedReply k n] = [n]"
  by (simp_all add: connected_answers_def map_filter_def)

lemma send_replies_all [simp]:
  "c_replies (send_replies rs res c) = c_replies c @ map (\<lambda>r. CommandReply r res) rs"
  by (induction rs arbitrary: c) (simp_all add: send_replies_def send_reply_def)

text \<open>Only \<^verbatim>\<open>EgressConnected\<close> makes a new number, and it is answered with it.\<close>

definition same_number :: "core \<Rightarrow> core \<Rightarrow> bool" where
  "same_number c c' \<longleftrightarrow> c_generation c' = c_generation c \<and>
     connected_answers (c_replies c') = connected_answers (c_replies c)"

lemma same_number_dump:
  "same_number c (start_dump now mode cover k c)" "same_number c (finish_dump now d c)"
  "same_number c (publish_state now (check_dump now c))"
proof -
  show "same_number c (start_dump now mode cover k c)"
    by (auto simp: same_number_def start_dump_def Let_def split: option.split)
  show fin: "same_number c (finish_dump now d c)" for d c
    by (auto simp: same_number_def finish_dump_def Let_def split: option.split prod.split)
  show "same_number c (publish_state now (check_dump now c))"
    using fin [of "c\<lparr>c_dump := d\<rparr>" None for d]
    by (auto simp: same_number_def check_dump_def split: option.split)
qed

lemma same_number_control: "same_number c (core_control now req c)"
proof -
  have cmd: "same_number c (engine_command now cmd k c)" for cmd k
    by (simp add: same_number_def engine_command_def Let_def split: prod.split)
  show ?thesis
    by (cases req)
      (auto simp: core_control_def same_number_dump cmd set_destination_def Let_def
        split: command.split, auto simp: same_number_def)
qed

lemma same_number_event:
  assumes "\<And>k. ev \<noteq> EgressConnected k"
  shows "same_number c (core_event now ev c)"
proof -
  have pub: "connected_answers (c_replies (accept_publisher now conn peer app key props c)) =
      connected_answers (c_replies c)" for conn peer app key props
    by (auto simp: accept_publisher_def Let_def split: option.split)
  have refl: "same_number c c" by (simp add: same_number_def)
  show ?thesis
    using assms
    by (cases ev) (auto simp: core_event_def same_number_dump refl,
        auto simp: same_number_def pub ingest_publish_def note_refusal_def from_publisher_def
        ingest_closed_def egress_disconnected_def note_egress_status_def
        Let_def split: option.split prod.split)
qed

lemma same_number_wakeup:
  "(\<And>k. w \<noteq> OnEvent (EgressConnected k)) \<Longrightarrow> same_number c (core_wakeup now w c)"
  using same_number_control same_number_event same_number_dump(3)
  by (cases w) (auto simp: core_wakeup_def same_number_def)

lemma new_number_wakeup:
  "c_generation (core_wakeup now (OnEvent (EgressConnected k)) c) = Suc (gen (c_engine c))"
  "gen (c_engine (core_wakeup now (OnEvent (EgressConnected k)) c)) = Suc (gen (c_engine c))"
  "connected_answers (c_replies (core_wakeup now (OnEvent (EgressConnected k)) c)) =
     connected_answers (c_replies c) @ [Suc (gen (c_engine c))]"
  using gen_connected [of now "c_engine c"]
  by (auto simp: core_wakeup_def core_event_def egress_connected_def split: prod.split)

section \<open>A turn as a whole\<close>

lemma queue_backlog:
  "c_counters (fold queue_message ms c) = (c_counters c)\<lparr>ct_backlog :=
     ct_backlog (c_counters c) + sum_list (map (\<lambda>m. length (out_msg.m_payload m)) ms)\<rparr>"
  by (induction ms arbitrary: c) (simp_all add: queue_message_def add.assoc)

lemma turn_sends:
  assumes turn: "core_turn fp now w c = Some (wake, c')" and none: "c_media c = []"
  shows "ct_backlog (c_counters c') = ct_backlog (c_counters c) + queued_bytes (c_media c')"
    and "\<And>q. q \<in> set (c_media c') \<Longrightarrow> q_cut q = c_cut c' \<and> q_generation q = c_generation c'"
    and "dump_kept c (c'\<lparr>c_counters := (c_counters c')\<lparr>ct_backlog := ct_backlog (c_counters c)\<rparr>\<rparr>)"
proof -
  let ?c1 = "core_wakeup now w c"
  from turn obtain e ms wk where c': "c' = manage_egress now (fold queue_message ms (?c1\<lparr>c_engine := e\<rparr>))"
    by (auto simp: core_turn_def pump_def split: option.splits)
  have media: "c_media c' = map (\<lambda>m. \<lparr>q_generation = c_generation ?c1, q_cut = c_cut ?c1, q_msg = m\<rparr>) ms"
    using none by (simp add: c')
  have same: "c_cut c' = c_cut ?c1" "c_generation c' = c_generation ?c1" "c_dump c' = c_dump ?c1"
    by (simp_all add: c')
  have counters: "c_counters c' = (c_counters ?c1)\<lparr>ct_backlog :=
     ct_backlog (c_counters ?c1) + queued_bytes (c_media c')\<rparr>"
    by (simp add: c' media queued_bytes_def queue_backlog comp_def none)
  have kept: "dump_kept c ?c1" by (rule dump_kept_wakeup)
  with counters show "ct_backlog (c_counters c') = ct_backlog (c_counters c) + queued_bytes (c_media c')"
    by (simp add: dump_kept_def)
  from media same show "\<And>q. q \<in> set (c_media c') \<Longrightarrow> q_cut q = c_cut c' \<and> q_generation q = c_generation c'"
    by auto
  obtain more where "c_ctl c' = c_ctl ?c1 @ more" using turn_ctl [OF turn] by blast
  with kept same counters
  show "dump_kept c (c'\<lparr>c_counters := (c_counters c')\<lparr>ct_backlog := ct_backlog (c_counters c)\<rparr>\<rparr>)"
    by (auto simp: dump_kept_def)
qed

text \<open>The number in use: kept, or a new one, higher than any before, and answered.\<close>

lemma turn_number:
  assumes turn: "core_turn fp now w c = Some (wake, c')" and none: "c_replies c = []"
    and wf: "engine_wf (c_engine c)"
  shows "gen (c_engine c) \<le> gen (c_engine c')"
    and "(\<And>k. w \<noteq> OnEvent (EgressConnected k)) \<Longrightarrow>
       c_generation c' = c_generation c \<and> connected_answers (c_replies c') = []"
    and "w = OnEvent (EgressConnected k) \<Longrightarrow> c_generation c' = Suc (gen (c_engine c)) \<and>
       c_generation c' \<le> gen (c_engine c') \<and> connected_answers (c_replies c') = [c_generation c']"
proof -
  let ?c1 = "core_wakeup now w c"
  have same: "c_generation c' = c_generation ?c1" "c_replies c' = c_replies ?c1"
    using turn_queues [OF turn] turn_replies [OF turn] by auto
  show "gen (c_engine c) \<le> gen (c_engine c')" using steps_gen [OF steps_turn [OF turn] wf] .
  show "(\<And>k. w \<noteq> OnEvent (EgressConnected k)) \<Longrightarrow>
       c_generation c' = c_generation c \<and> connected_answers (c_replies c') = []"
    using same_number_wakeup [of w c now] same none by (simp add: same_number_def)
  have "engine_wf (c_engine ?c1)" using steps_wf [OF steps_wakeup wf] .
  moreover have "steps fp ?c1 c'"
    using turn unfolding core_turn_def by (rule steps_pump)
  ultimately have "gen (c_engine ?c1) \<le> gen (c_engine c')" by (intro steps_gen)
  with new_number_wakeup [of now k c] same none
  show "w = OnEvent (EgressConnected k) \<Longrightarrow> c_generation c' = Suc (gen (c_engine c)) \<and>
       c_generation c' \<le> gen (c_engine c') \<and> connected_answers (c_replies c') = [c_generation c']"
    by simp
qed

end
