(* ===== verification/Relay_Promises.thy ===== *)
theory Relay_Promises
  imports Relay
begin

text \<open>
  What holds of the relay as a whole: the counters the two tasks share say what they should;
  a connection's number is its own, and what is sent was queued for the connection it is sent
  on and after the latest dump; the answers the two wait for are on their way; and nothing
  received before the end of the stream is sent once its connection is gone.
\<close>

section \<open>How the egress moves between its phases\<close>

definition is_asking :: "phase \<Rightarrow> bool" where
  "is_asking p \<longleftrightarrow> (case p of EgAsking _ _ \<Rightarrow> True | _ \<Rightarrow> False)"

definition asked :: "event list \<Rightarrow> nat" where
  "asked evs = length (filter (\<lambda>ev. \<exists>k. ev = EgressConnected k) evs)"

lemma asked_simps [simp]:
  "asked [] = 0" "asked (xs @ ys) = asked xs + asked ys"
  "asked (ev # evs) = (if \<exists>k. ev = EgressConnected k then 1 else 0) + asked evs"
  by (simp_all add: asked_def)

lemma is_asking_simps [simp]:
  "is_asking (EgAsking t c)" "\<not> is_asking EgIdle" "\<not> is_asking (EgConnecting t k)"
  "\<not> is_asking (EgAccepted t c)" "\<not> is_asking (EgLive cn)" "\<not> is_asking (EgWriting cn w)"
  "\<not> is_asking (EgBackoff t)" "\<not> is_asking EgGone"
  by (simp_all add: is_asking_def)

lemma live_on_simps [simp]:
  "live_on EgIdle = None" "live_on (EgConnecting t k) = None" "live_on (EgAccepted t c) = None"
  "live_on (EgAsking t c) = None" "live_on (EgLive cn) = Some cn" "live_on (EgWriting cn w) = Some cn"
  "live_on (EgBackoff t) = None" "live_on EgGone = None"
  by (simp_all add: live_on_def)

text \<open>
  \<open>moves G s s'\<close>: nothing is asked on the way to \<open>s'\<close>, no answer is awaited there, and a
  connection live there has the number \<open>G\<close>.
\<close>

definition moves :: "nat option \<Rightarrow> 'p egress_task \<Rightarrow> 'p egress_task \<Rightarrow> bool" where
  "moves G s s' \<longleftrightarrow>
     (\<exists>evs. eg_events s' = eg_events s @ evs \<and> asked evs = 0) \<and>
     \<not> is_asking (eg_phase s') \<and>
     (\<forall>cn. live_on (eg_phase s') = Some cn \<longrightarrow> G = Some (cn_generation cn))"

lemma moves_weaken: "moves None s s' \<Longrightarrow> moves G s s'"
  by (auto simp: moves_def)

lemma moves_from: "moves G s1 s' \<Longrightarrow> eg_events s1 = eg_events s @ evs \<Longrightarrow> asked evs = 0 \<Longrightarrow> moves G s s'"
  by (auto simp: moves_def)

lemma moves_wire [simp]:
  "moves G (write_out bs s) s' = moves G s s'" "moves G (write_over w s) s' = moves G s s'"
  by (simp_all add: moves_def)

lemma moves_stop: "moves None s (stop_idle s)"
  by (simp add: moves_def stop_idle_def stopped_def report_status_def)

lemma moves_connect: "moves None s (connect_to t s)"
  by (simp add: moves_def)

lemma moves_back_off: "moves None s (back_off t f s)"
  by (simp add: moves_def back_off_def report_status_def split: prod.split)

lemma moves_connect_data: "moves None s (connect_data alnum t data c s)"
  by (auto simp: connect_data_def connect_failed_def moves_back_off
      split: prod.split sum.split list.split client_event.split)
    (simp_all add: moves_def)

lemma moves_end_run: "moves None s (end_run alnum now cn r s)"
proof -
  have ev: "eg_events (report ev s) = eg_events s @ [ev]"
    "eg_events ((report ev s)\<lparr>eg_failures := fs\<rparr>) = eg_events s @ [ev]"
    "eg_events (report ev (cut_done n b d s)) = eg_events s @ [CutDone n b d, ev]" for ev n b d fs
    by simp_all
  show ?thesis
    by (cases r) (auto simp: end_run_def Let_def
        intro: moves_from [OF moves_stop ev(1)] moves_from [OF moves_connect ev(1)]
          moves_from [OF moves_connect ev(3)] moves_from [OF moves_back_off ev(1)]
          moves_from [OF moves_back_off ev(2)])
qed

lemma moves_ended: "moves G s (end_run alnum now cn r s)"
  by (rule moves_weaken) (rule moves_end_run)

lemma moves_early:
  "\<not> is_asking (eg_phase s) \<Longrightarrow> live_on (eg_phase s) = None \<Longrightarrow> moves None s (early_ctl m s)"
  by (cases m) (auto simp: early_ctl_def moves_stop moves_connect, simp add: moves_def)

lemma moves_live_ctl:
  assumes "eg_phase s = EgLive cn"
  shows "moves (Some (cn_generation cn)) s (live_ctl alnum now cn m os s)"
proof -
  have run: "moves (Some (cn_generation cn)) s (end_run alnum now cn r s)"
    "moves (Some (cn_generation cn)) s (end_run alnum now cn r (write_out bs s))" for r bs
    using moves_ended [of _ s] moves_ended [of _ "write_out bs s"] by simp_all
  have cut: "moves (Some (cn_generation cn)) s (cut_done n False d s)" for n d
    using assms by (simp add: moves_def)
  show ?thesis
    by (auto simp: live_ctl_def Let_def run cut split: option.split egress_ctl.split)
qed

lemma moves_live_data: "moves (Some (cn_generation cn)) s (live_data alnum now cn data s)"
proof -
  have "moves (Some (cn_generation cn)) s (go_to (EgLive (cn\<lparr>cn_session := c\<rparr>)) s)"
    "moves (Some (cn_generation cn)) s (go_to (EgWriting (cn\<lparr>cn_session := c\<rparr>) w) (write_out bs s))"
    for c w bs by (simp_all add: moves_def)
  then show ?thesis
    by (auto simp: live_data_def run_failed_def Let_def moves_ended
        split: prod.split sum.split option.split client_event.split)
qed

lemma moves_take_batch: "moves (Some (cn_generation cn)) s (take_batch guard cn n s)"
  by (auto simp: moves_def take_batch_def Let_def go_to_def write_out_def split: prod.split)

lemma moves_written: "moves (Some (cn_generation cn)) s (written cn w s)"
  by (auto simp: moves_def written_def Let_def go_to_def sub_backlog_def split: writing.split)

text \<open>A step: an answer is asked for, is taken, or has nothing to do with it.\<close>

lemma egress_step_moves:
  assumes "egress_step alnum guard now i s = Some s'" and "i \<noteq> CtlClosed"
  shows "(\<exists>n cn. i = Generation n \<and> is_asking (eg_phase s) \<and> eg_phase s' = EgLive cn \<and>
      cn_generation cn = n \<and> (\<exists>evs. eg_events s' = eg_events s @ evs \<and> asked evs = 0)) \<or>
    (\<forall>n. i \<noteq> Generation n) \<and> \<not> is_asking (eg_phase s) \<and>
      (moves (map_option cn_generation (live_on (eg_phase s))) s s' \<or>
       i = NoCtl \<and> is_asking (eg_phase s') \<and> eg_events s' = eg_events s @ [EgressConnected 0])"
proof (cases "eg_phase s")
  case EgIdle
  have "moves None s (connect_to t (s\<lparr>eg_failures := fs\<rparr>))" for t fs by (simp add: moves_def)
  moreover have "moves None s (cut_done n False None s)" "moves None s s" "moves None s (drop_media 1 s)"
    "moves None s (go_to EgGone s)" for n
    using EgIdle by (simp_all add: moves_def)
  ultimately show ?thesis
    using assms EgIdle
    by (cases i) (auto simp: egress_step_def split: egress_ctl.splits if_splits)
next
  case (EgConnecting t c)
  have "moves None s (opened alnum t rest s)" for rest
  proof (cases "rest = []")
    case False
    then show ?thesis
      using moves_connect_data [of "write_out bs s" for bs]
      by (auto simp: opened_def Let_def split: prod.split)
  qed (simp add: opened_def moves_def split: prod.split)
  with EgConnecting assms show ?thesis
    by (cases i; cases c) (auto simp: egress_step_def connect_failed_def moves_early moves_stop
        moves_back_off moves_connect_data)
next
  case (EgAccepted t c)
  with assms show ?thesis by (cases i) (auto simp: egress_step_def moves_early)
next
  case (EgAsking t c)
  with assms show ?thesis
    by (cases i) (auto simp: egress_step_def start_publish_def report_status_def)
next
  case (EgLive cn)
  with assms show ?thesis
    by (cases i) (auto simp: egress_step_def run_failed_def moves_live_ctl moves_live_data
        moves_take_batch moves_ended split: if_splits)
next
  case (EgWriting cn w)
  have "moves G s (end_run alnum now cn r (write_over w s))" for G r
    using moves_ended [of G "write_over w s"] by simp
  with EgWriting assms show ?thesis
    by (cases i) (auto simp: egress_step_def run_failed_def writing_ctl_def moves_written)
next
  case (EgBackoff t)
  have "moves None s (drop_media (Suc 0) s)" "moves None s (go_to EgIdle s)"
    using EgBackoff by (simp_all add: moves_def)
  with EgBackoff assms show ?thesis
    by (cases i) (auto simp: egress_step_def moves_early moves_stop moves_connect split: if_splits)
next
  case EgGone
  with assms show ?thesis by (simp add: egress_step_def)
qed

section \<open>The invariant\<close>

definition counters_ok :: "'p relay \<Rightarrow> bool" where
  "counters_ok r \<longleftrightarrow>
     (let c = rl_core r; g = rl_egress r in
      engine_wf (c_engine c) \<and> ct_cut (c_counters c) = c_cut c \<and> ct_cut (eg_counters g) = c_cut c \<and>
      counted g \<and> (\<forall>q \<in> set (eg_media g). q_cut q \<le> c_cut c \<and> q_generation q \<le> c_generation c))"

definition numbers_ok :: "'p relay \<Rightarrow> bool" where
  "numbers_ok r \<longleftrightarrow>
     (let c = rl_core r; p = eg_phase (rl_egress r); ns = rl_numbers r @ rl_answers r in
      c_generation c \<le> gen (c_engine c) \<and> sorted_wrt (<) ns \<and> (\<forall>n \<in> set ns. n \<le> c_generation c) \<and>
      (\<forall>cn. live_on p = Some cn \<longrightarrow> rl_numbers r \<noteq> [] \<and> cn_generation cn = last (rl_numbers r)) \<and>
      asked (rl_inbox r) + length (rl_answers r) = (if is_asking p then 1 else 0))"

definition dump_coming :: "'p relay \<Rightarrow> bool" where
  "dump_coming r \<longleftrightarrow>
     (c_dump (rl_core r) \<noteq> None \<longrightarrow>
        CtlCut (c_cut (rl_core r)) \<in> set (rl_ctl r) \<or>
        (\<exists>reset delivered. CutDone (c_cut (rl_core r)) reset delivered \<in> set (rl_inbox r)))"

definition relay_ok :: "'p relay \<Rightarrow> bool" where
  "relay_ok r \<longleftrightarrow> counters_ok r \<and> numbers_ok r \<and> dump_coming r"

lemma new_relay_ok: "relay_ok (new_relay cfg pocs)"
  using new_engine_engine_wf [of "rc_engine cfg"]
  by (simp add: relay_ok_def counters_ok_def numbers_ok_def dump_coming_def new_relay_def
      new_core_def new_egress_def counted_def counted_at_def in_flight_def queued_bytes_def)

subsection \<open>The core's turns\<close>

lemma relay_coreE:
  assumes "relay_core fp now w r = Some (wake, r')"
  obtains c inbox where "take_wakeup w (rl_inbox r) = Some inbox"
    and "core_turn fp now w (between (ct_backlog (eg_counters (rl_egress r)))
           (ct_written (eg_counters (rl_egress r))) (rl_core r)) = Some (wake, c)"
    and "r' = r\<lparr>rl_core := c,
      rl_egress := (rl_egress r)\<lparr>eg_media := eg_media (rl_egress r) @ c_media c, eg_counters := c_counters c\<rparr>,
      rl_ctl := rl_ctl r @ c_ctl c, rl_answers := rl_answers r @ connected_answers (c_replies c),
      rl_inbox := inbox\<rparr>"
  using assms by (auto simp: relay_core_def Let_def split: option.splits)

lemma take_wakeup_inbox:
  assumes "take_wakeup w inbox = Some rest"
  shows "(\<exists>ev. w = OnEvent ev \<and> from_egress ev \<and> inbox = ev # rest) \<or>
    rest = inbox \<and> (\<forall>ev. w = OnEvent ev \<longrightarrow> \<not> from_egress ev)"
  using assms by (auto simp: take_wakeup_def split: wakeup.splits if_splits list.splits)

lemma between_counters [simp]:
  "ct_backlog (c_counters (between b x c)) = b" "c_media (between b x c) = []"
  by (simp_all add: between_def)

lemma core_counters_ok:
  assumes ok: "counters_ok r" and num: "numbers_ok r" and step: "relay_core fp now w r = Some (wake, r')"
  shows "counters_ok r'" and "c_cut (rl_core r) \<le> c_cut (rl_core r')"
    and "c_generation (rl_core r) \<le> c_generation (rl_core r')"
proof -
  let ?g = "rl_egress r"
  obtain c inbox where turn: "core_turn fp now w (between (ct_backlog (eg_counters ?g))
        (ct_written (eg_counters ?g)) (rl_core r)) = Some (wake, c)"
    and r': "r' = r\<lparr>rl_core := c,
      rl_egress := ?g\<lparr>eg_media := eg_media ?g @ c_media c, eg_counters := c_counters c\<rparr>,
      rl_ctl := rl_ctl r @ c_ctl c, rl_answers := rl_answers r @ connected_answers (c_replies c),
      rl_inbox := inbox\<rparr>"
    using step by (rule relay_coreE)
  have wf: "engine_wf (c_engine (rl_core r))" and cut: "ct_cut (c_counters (rl_core r)) = c_cut (rl_core r)"
    and counted: "counted ?g" and old: "q \<in> set (eg_media ?g) \<Longrightarrow>
      q_cut q \<le> c_cut (rl_core r) \<and> q_generation q \<le> c_generation (rl_core r)" for q
    using ok by (auto simp: counters_ok_def Let_def)
  note sends = turn_sends [OF turn, simplified]
  have kept: "c_cut (rl_core r) \<le> c_cut c" "ct_cut (c_counters c) = c_cut c"
    using sends(3) cut by (auto simp: dump_kept_def)
  have "c_generation (rl_core r) \<le> c_generation c"
  proof (cases "\<exists>k. w = OnEvent (EgressConnected k)")
    case True
    with turn_number(3) [OF turn] wf num show ?thesis
      by (auto simp: numbers_ok_def Let_def)
  qed (use turn_number(2) [OF turn] wf in auto)
  with kept show gen: "c_cut (rl_core r) \<le> c_cut (rl_core r')"
    "c_generation (rl_core r) \<le> c_generation (rl_core r')"
    by (simp_all add: r')
  have "engine_wf (c_engine c)" using steps_wf [OF steps_turn [OF turn]] wf by simp
  moreover have "counted (rl_egress r')"
    using counted sends(1) by (simp add: r' counted_def counted_at_def)
  moreover have "q_cut q \<le> c_cut c \<and> q_generation q \<le> c_generation c"
    if "q \<in> set (eg_media (rl_egress r'))" for q
    using that old [of q] sends(2) [of q] gen by (fastforce simp: r')
  ultimately show "counters_ok r'" using kept by (simp add: counters_ok_def r')
qed

lemma core_numbers_ok:
  assumes wf: "engine_wf (c_engine (rl_core r))" and ok: "numbers_ok r"
    and step: "relay_core fp now w r = Some (wake, r')"
  shows "numbers_ok r'"
proof -
  let ?g = "rl_egress r"
  obtain c inbox where inbox: "take_wakeup w (rl_inbox r) = Some inbox"
    and turn: "core_turn fp now w (between (ct_backlog (eg_counters ?g))
        (ct_written (eg_counters ?g)) (rl_core r)) = Some (wake, c)"
    and r': "r' = r\<lparr>rl_core := c,
      rl_egress := ?g\<lparr>eg_media := eg_media ?g @ c_media c, eg_counters := c_counters c\<rparr>,
      rl_ctl := rl_ctl r @ c_ctl c, rl_answers := rl_answers r @ connected_answers (c_replies c),
      rl_inbox := inbox\<rparr>"
    using step by (rule relay_coreE)
  let ?ns = "rl_numbers r @ rl_answers r"
  have n: "c_generation (rl_core r) \<le> gen (c_engine (rl_core r))" "sorted_wrt (<) ?ns"
    "\<And>n. n \<in> set ?ns \<Longrightarrow> n \<le> c_generation (rl_core r)"
    "\<And>cn. live_on (eg_phase ?g) = Some cn \<Longrightarrow> rl_numbers r \<noteq> [] \<and> cn_generation cn = last (rl_numbers r)"
    "asked (rl_inbox r) + length (rl_answers r) = (if is_asking (eg_phase ?g) then 1 else 0)"
    using ok unfolding numbers_ok_def Let_def by blast+
  show ?thesis
  proof (cases "\<exists>k. w = OnEvent (EgressConnected k)")
    case True
    then obtain k where w: "w = OnEvent (EgressConnected k)" by blast
    have new: "c_generation c = Suc (gen (c_engine (rl_core r)))" "c_generation c \<le> gen (c_engine c)"
      "connected_answers (c_replies c) = [c_generation c]"
      using turn_number(3) [OF turn _ _ w] wf by simp_all
    from inbox w have "rl_inbox r = EgressConnected k # inbox"
      using take_wakeup_inbox [OF inbox] by (auto simp: from_egress_def)
    with n(5) have "asked inbox + length (rl_answers r) + 1 = (if is_asking (eg_phase ?g) then 1 else 0)"
      by simp
    moreover have "sorted_wrt (<) (?ns @ [c_generation c])"
      using n(1-3) new(1) by (fastforce simp: sorted_wrt_append)
    moreover have "m \<le> c_generation c" if "m \<in> set ?ns" for m
      using n(3) [OF that] n(1) new(1) by simp
    ultimately show ?thesis
      using n(4) new by (auto simp: numbers_ok_def r')
  next
    case False
    then have same: "c_generation c = c_generation (rl_core r)" "connected_answers (c_replies c) = []"
      "gen (c_engine (rl_core r)) \<le> gen (c_engine c)"
      using turn_number(1,2) [OF turn] wf by auto
    have "asked inbox = asked (rl_inbox r)"
      using take_wakeup_inbox [OF inbox] False by auto
    with n same show ?thesis by (auto simp: numbers_ok_def r')
  qed
qed

lemma core_dump_coming:
  assumes ok: "counters_ok r" and coming: "dump_coming r"
    and step: "relay_core fp now w r = Some (wake, r')"
  shows "dump_coming r'"
proof -
  let ?g = "rl_egress r"
  obtain c inbox where inbox: "take_wakeup w (rl_inbox r) = Some inbox"
    and turn: "core_turn fp now w (between (ct_backlog (eg_counters ?g))
        (ct_written (eg_counters ?g)) (rl_core r)) = Some (wake, c)"
    and r': "r' = r\<lparr>rl_core := c,
      rl_egress := ?g\<lparr>eg_media := eg_media ?g @ c_media c, eg_counters := c_counters c\<rparr>,
      rl_ctl := rl_ctl r @ c_ctl c, rl_answers := rl_answers r @ connected_answers (c_replies c),
      rl_inbox := inbox\<rparr>"
    using step by (rule relay_coreE)
  show ?thesis
  proof (cases "c_dump c = None \<or> CtlCut (c_cut c) \<in> set (c_ctl c)")
    case True
    then show ?thesis by (auto simp: dump_coming_def r')
  next
    case False
    with turn_sends(3) [OF turn]
    have old: "c_dump (rl_core r) \<noteq> None" "c_cut c = c_cut (rl_core r)"
      by (auto simp: dump_kept_def)
    have other: False if w: "w = OnEvent (CutDone (c_cut c) reset d)" for reset d
    proof -
      have "c_dump c = c_dump (core_wakeup now w (between (ct_backlog (eg_counters ?g))
          (ct_written (eg_counters ?g)) (rl_core r)))"
        using turn_queues [OF turn] by metis
      with w old(2) False show ?thesis
        by (simp add: core_wakeup_def core_event_def finish_dump_over)
    qed
    have "CutDone (c_cut c) reset d \<in> set inbox" if "CutDone (c_cut c) reset d \<in> set (rl_inbox r)" for reset d
      using take_wakeup_inbox [OF inbox] that other [of reset d] by (metis set_ConsD)
    with old coming show ?thesis by (fastforce simp: dump_coming_def r')
  qed
qed

subsection \<open>The egress's steps\<close>

lemma relay_egressE:
  assumes "relay_egress alnum guard now i r = Some r'"
  obtains r1 g where "take_input i r = Some r1" and "i \<noteq> CtlClosed"
    and "egress_step alnum guard now i (rl_egress r) = Some g" and "rl_core r1 = rl_core r"
    and "rl_inbox r1 = rl_inbox r" and "rl_egress r1 = rl_egress r"
    and "r' = r1\<lparr>rl_egress := g,
      rl_inbox := rl_inbox r @ drop (length (eg_events (rl_egress r))) (eg_events g)\<rparr>"
proof -
  note found = that
  from assms obtain r1 g where t: "take_input i r = Some r1"
    and g: "egress_step alnum guard now i (rl_egress r1) = Some g"
    and r': "r' = r1\<lparr>rl_egress := g,
      rl_inbox := rl_inbox r1 @ drop (length (eg_events (rl_egress r1))) (eg_events g)\<rparr>"
    by (auto simp: relay_egress_def split: option.splits)
  have "rl_core r1 = rl_core r" "rl_inbox r1 = rl_inbox r" "rl_egress r1 = rl_egress r" "i \<noteq> CtlClosed"
    using t by (auto simp: take_input_def split: egress_input.splits list.splits if_splits)
  with t g r' show thesis by (intro found) simp_all
qed

lemma egress_counters_ok:
  assumes ok: "counters_ok r" and step: "relay_egress alnum guard now i r = Some r'"
  shows "counters_ok r'" and "rl_core r' = rl_core r"
proof -
  obtain r1 g where g: "egress_step alnum guard now i (rl_egress r) = Some g"
    and r': "rl_core r1 = rl_core r" "r' = r1\<lparr>rl_egress := g,
      rl_inbox := rl_inbox r @ drop (length (eg_events (rl_egress r))) (eg_events g)\<rparr>"
    using step by (rule relay_egressE)
  then show same: "rl_core r' = rl_core r" by simp
  obtain qs where "step_of (rl_egress r) g qs" using egress_step_sends [OF g] by blast
  then obtain k where "eg_media g = drop k (eg_media (rl_egress r))"
    "ct_cut (eg_counters g) = ct_cut (eg_counters (rl_egress r))"
    by (auto simp: step_of_def)
  with ok egress_step_counted [OF _ g] r' show "counters_ok r'"
    by (auto simp: counters_ok_def Let_def dest: in_set_dropD)
qed

lemma take_input_numbers:
  assumes "take_input i r = Some r1"
  shows "(\<exists>n. i = Generation n \<and> rl_answers r = n # rl_answers r1 \<and> rl_numbers r1 = rl_numbers r @ [n]) \<or>
    (\<forall>n. i \<noteq> Generation n) \<and> rl_answers r1 = rl_answers r \<and> rl_numbers r1 = rl_numbers r"
  using assms by (auto simp: take_input_def split: egress_input.splits list.splits if_splits)

lemma egress_numbers_ok:
  assumes ok: "numbers_ok r" and step: "relay_egress alnum guard now i r = Some r'"
  shows "numbers_ok r'"
proof -
  obtain r1 g where take: "take_input i r = Some r1" and notclosed: "i \<noteq> CtlClosed"
    and g: "egress_step alnum guard now i (rl_egress r) = Some g"
    and core: "rl_core r1 = rl_core r" and r': "r' = r1\<lparr>rl_egress := g,
      rl_inbox := rl_inbox r @ drop (length (eg_events (rl_egress r))) (eg_events g)\<rparr>"
    using step by (rule relay_egressE)
  let ?p = "eg_phase (rl_egress r)"
  have n: "c_generation (rl_core r) \<le> gen (c_engine (rl_core r))"
    "sorted_wrt (<) (rl_numbers r @ rl_answers r)"
    "\<And>n. n \<in> set (rl_numbers r @ rl_answers r) \<Longrightarrow> n \<le> c_generation (rl_core r)"
    "\<And>cn. live_on ?p = Some cn \<Longrightarrow> rl_numbers r \<noteq> [] \<and> cn_generation cn = last (rl_numbers r)"
    "asked (rl_inbox r) + length (rl_answers r) = (if is_asking ?p then 1 else 0)"
    using ok unfolding numbers_ok_def Let_def by blast+
  note cases = take_input_numbers [OF take] egress_step_moves [OF g notclosed]
  show ?thesis
  proof (cases "\<exists>m. i = Generation m")
    case True
    then obtain m cn evs where m: "rl_answers r = m # rl_answers r1" "rl_numbers r1 = rl_numbers r @ [m]"
      "is_asking ?p" "eg_phase g = EgLive cn" "cn_generation cn = m"
      "eg_events g = eg_events (rl_egress r) @ evs" "asked evs = 0"
      using cases by auto
    with n show ?thesis by (auto simp: numbers_ok_def r' core)
  next
    case False
    then have same: "rl_answers r1 = rl_answers r" "rl_numbers r1 = rl_numbers r" "\<not> is_asking ?p"
      using cases by auto
    consider "moves (map_option cn_generation (live_on ?p)) (rl_egress r) g"
      | "is_asking (eg_phase g)" "eg_events g = eg_events (rl_egress r) @ [EgressConnected 0]"
      using cases(2) False by blast
    then show ?thesis
    proof cases
      case 1
      then obtain evs where "eg_events g = eg_events (rl_egress r) @ evs" "asked evs = 0"
        "\<not> is_asking (eg_phase g)" "\<forall>cn. live_on (eg_phase g) = Some cn \<longrightarrow>
           (\<exists>old. live_on ?p = Some old \<and> cn_generation old = cn_generation cn)"
        by (auto simp: moves_def)
      with n same show ?thesis
        by (simp add: numbers_ok_def r' core) metis
    next
      case 2
      then have "live_on (eg_phase g) = None" by (auto simp: is_asking_def split: phase.splits)
      with 2 n same show ?thesis by (auto simp: numbers_ok_def r' core)
    qed
  qed
qed

lemma egress_dump_coming:
  assumes coming: "dump_coming r" and step: "relay_egress alnum guard now i r = Some r'"
  shows "dump_coming r'"
proof -
  obtain r1 g where take: "take_input i r = Some r1" and notclosed: "i \<noteq> CtlClosed"
    and g: "egress_step alnum guard now i (rl_egress r) = Some g"
    and core: "rl_core r1 = rl_core r" and r': "r' = r1\<lparr>rl_egress := g,
      rl_inbox := rl_inbox r @ drop (length (eg_events (rl_egress r))) (eg_events g)\<rparr>"
    using step by (rule relay_egressE)
  let ?n = "c_cut (rl_core r)"
  show ?thesis
  proof (cases "\<exists>os. i = GotCtl (CtlCut ?n) os")
    case True
    then obtain os reset d where "filter is_answer (eg_events g) =
        filter is_answer (eg_events (rl_egress r)) @ [CutDone ?n reset d]"
      using cut_is_answered g by blast
    moreover obtain evs where "eg_events g = eg_events (rl_egress r) @ evs"
      using egress_step_moves [OF g notclosed] by (auto simp: moves_def)
    ultimately have "CutDone ?n reset d \<in> set (drop (length (eg_events (rl_egress r))) (eg_events g))"
      by (auto simp: filter_eq_Cons_iff)
    then show ?thesis by (auto simp: dump_coming_def r' core)
  next
    case False
    then have "CtlCut ?n \<in> set (rl_ctl r) \<Longrightarrow> CtlCut ?n \<in> set (rl_ctl r1)"
      using take by (auto simp: take_input_def split: egress_input.splits list.splits if_splits)
    with coming show ?thesis by (auto simp: dump_coming_def r' core)
  qed
qed

subsection \<open>The machine\<close>

lemma relay_step_ok:
  assumes "relay_ok r" and "relay_step fp alnum guard r r'"
  shows "relay_ok r' \<and> c_cut (rl_core r) \<le> c_cut (rl_core r') \<and>
    c_generation (rl_core r) \<le> c_generation (rl_core r')"
  using assms(2)
proof cases
  case (core now w wake)
  have ok: "counters_ok r" "numbers_ok r" "dump_coming r" "engine_wf (c_engine (rl_core r))"
    using assms(1) by (simp_all add: relay_ok_def counters_ok_def Let_def)
  from core_counters_ok [OF ok(1,2) core] core_numbers_ok [OF ok(4,2) core] core_dump_coming [OF ok(1,3) core]
  show ?thesis by (simp add: relay_ok_def)
next
  case (egress now i)
  have ok: "counters_ok r" "numbers_ok r" "dump_coming r"
    using assms(1) by (simp_all add: relay_ok_def)
  from egress_counters_ok [OF ok(1) egress] egress_numbers_ok [OF ok(2) egress] egress_dump_coming [OF ok(3) egress]
  show ?thesis by (simp add: relay_ok_def)
qed

definition fresh_relay :: "'p relay \<Rightarrow> bool" where
  "fresh_relay r \<longleftrightarrow> r = new_relay (c_config (rl_core r)) (eg_pocs (rl_egress r))"

lemma fresh_relay_ok: "fresh_relay r \<Longrightarrow> relay_ok r"
  using new_relay_ok by (metis fresh_relay_def)

interpretation relay_cuts:
  monotone_machine fresh_relay "relay_step fp alnum guard" relay_ok "\<lambda>r. c_cut (rl_core r)"
  for fp alnum guard
  by unfold_locales (auto simp: fresh_relay_ok relay_step_ok)

interpretation relay_numbers:
  monotone_machine fresh_relay "relay_step fp alnum guard" relay_ok "\<lambda>r. c_generation (rl_core r)"
  for fp alnum guard
  by unfold_locales (auto simp: fresh_relay_ok relay_step_ok)

section \<open>What the two tasks share\<close>

text \<open>
  C6. In every state the relay reaches, the backlog the two tasks count is exactly what is in
  the media channel and what is being written, so taking away what was written or dropped
  never goes below zero; the dump the egress compares against is the core's latest; nothing in
  the channel is marked with a later dump or connection than there is; a dump the core waits
  for is announced to the egress or answered already; and the egress waits for the number of a
  new connection exactly when one is asked for or answered.
\<close>

theorem relay_agrees:
  assumes "(relay_step fp alnum guard)\<^sup>*\<^sup>* (new_relay cfg pocs) r"
  shows "ct_backlog (eg_counters (rl_egress r)) =
      queued_bytes (eg_media (rl_egress r)) + in_flight (eg_phase (rl_egress r)) \<and>
    ct_cut (eg_counters (rl_egress r)) = c_cut (rl_core r) \<and>
    (\<forall>q \<in> set (eg_media (rl_egress r)).
       q_cut q \<le> c_cut (rl_core r) \<and> q_generation q \<le> c_generation (rl_core r)) \<and>
    (c_dump (rl_core r) \<noteq> None \<longrightarrow>
       CtlCut (c_cut (rl_core r)) \<in> set (rl_ctl r) \<or>
       (\<exists>reset delivered. CutDone (c_cut (rl_core r)) reset delivered \<in> set (rl_inbox r))) \<and>
    asked (rl_inbox r) + length (rl_answers r) = (if is_asking (eg_phase (rl_egress r)) then 1 else 0)"
  using relay_cuts.steps_inv [OF assms new_relay_ok]
  by (auto simp: relay_ok_def counters_ok_def numbers_ok_def dump_coming_def counted_def
      counted_at_def Let_def)

section \<open>What is sent\<close>

text \<open>A step's media: none, or the egress's, for the connection it is on.\<close>

lemma relay_step_sends:
  assumes ok: "relay_ok r" and step: "relay_step fp alnum guard r r'"
  obtains qs where "eg_sent (rl_egress r') = eg_sent (rl_egress r) @ qs"
    and "\<And>q. q \<in> set qs \<Longrightarrow> q \<in> set (eg_media (rl_egress r)) \<and> q_cut q = c_cut (rl_core r) \<and>
      rl_numbers r \<noteq> [] \<and> q_generation q = last (rl_numbers r) \<and>
      (\<exists>cn. live_on (eg_phase (rl_egress r)) = Some cn \<and> q_generation q = cn_generation cn)"
proof -
  note found = that
  from step show thesis
  proof cases
    case (core now w wake)
    then show thesis by (elim relay_coreE) (rule found [of "[]"], simp_all)
  next
    case (egress now i)
    obtain r1 g where g: "egress_step alnum guard now i (rl_egress r) = Some g" and r': "rl_egress r' = g"
      using egress by (elim relay_egressE) simp
    obtain qs where qs: "step_of (rl_egress r) g qs" "sends (rl_egress r) qs"
      using egress_step_sends [OF g] by blast
    have each: "q \<in> set (eg_media (rl_egress r)) \<and> q_cut q = c_cut (rl_core r) \<and> rl_numbers r \<noteq> [] \<and>
        q_generation q = last (rl_numbers r) \<and>
        (\<exists>cn. live_on (eg_phase (rl_egress r)) = Some cn \<and> q_generation q = cn_generation cn)"
      if "q \<in> set qs" for q
    proof -
      from qs(2) that obtain cn n where cn: "live_on (eg_phase (rl_egress r)) = Some cn"
        and q: "q \<in> set (take n (eg_media (rl_egress r)))"
        "current (cn_generation cn) (ct_cut (eg_counters (rl_egress r))) q"
        by (auto simp: sends_def)
      from ok cn q in_set_takeD [OF q(1)] show ?thesis
        by (auto simp: relay_ok_def counters_ok_def numbers_ok_def current_def Let_def)
    qed
    show thesis
    proof (rule found)
      show "eg_sent (rl_egress r') = eg_sent (rl_egress r) @ qs" using qs(1) r' by (simp add: step_of_def)
    qed (rule each)
  qed
qed

lemma relay_steps_send:
  assumes "(relay_step fp alnum guard)\<^sup>*\<^sup>* r r'" and "relay_ok r"
  obtains qs where "eg_sent (rl_egress r') = eg_sent (rl_egress r) @ qs"
    and "\<And>q. q \<in> set qs \<Longrightarrow> c_cut (rl_core r) \<le> q_cut q"
proof -
  have "\<exists>qs. eg_sent (rl_egress r') = eg_sent (rl_egress r) @ qs \<and>
      (\<forall>q \<in> set qs. c_cut (rl_core r) \<le> q_cut q)"
    using assms
  proof (induction rule: rtranclp_induct)
    case (step r1 r2)
    have ok: "relay_ok r1" and cut: "c_cut (rl_core r) \<le> c_cut (rl_core r1)"
      using relay_cuts.steps_inv [OF step.hyps(1) step.prems] relay_cuts.steps_level [OF step.hyps(1) step.prems]
      by simp_all
    obtain ps where "eg_sent (rl_egress r2) = eg_sent (rl_egress r1) @ ps"
      "\<And>q. q \<in> set ps \<Longrightarrow> q_cut q = c_cut (rl_core r1)"
      using relay_step_sends [OF ok step.hyps(2)] by metis
    with step.IH [OF step.prems] cut show ?case by fastforce
  qed simp
  with that show thesis by blast
qed

text \<open>
  C4. What a step sends was queued for the connection it goes out on, after the latest dump:
  every message given to the session carries the number of the connection in use and of the
  core's latest dump, and no two connections ever have the same number, so nothing queued for
  one connection is sent on a later one.
\<close>

theorem sent_is_current:
  assumes "relay_ok r" and "relay_step fp alnum guard r r'"
  shows "\<exists>qs. eg_sent (rl_egress r') = eg_sent (rl_egress r) @ qs \<and>
    (\<forall>q \<in> set qs. q_cut q = c_cut (rl_core r) \<and> rl_numbers r \<noteq> [] \<and>
       q_generation q = last (rl_numbers r)) \<and>
    sorted_wrt (<) (rl_numbers r')"
proof -
  obtain qs where qs: "eg_sent (rl_egress r') = eg_sent (rl_egress r) @ qs"
    "\<And>q. q \<in> set qs \<Longrightarrow> q_cut q = c_cut (rl_core r) \<and> rl_numbers r \<noteq> [] \<and>
       q_generation q = last (rl_numbers r)"
    using relay_step_sends [OF assms] by metis
  moreover have "sorted_wrt (<) (rl_numbers r')"
    using relay_step_ok [OF assms] by (auto simp: relay_ok_def numbers_ok_def Let_def sorted_wrt_append)
  ultimately show ?thesis by blast
qed

text \<open>
  A dump takes back everything queued: once the core has begun it, whatever the two tasks
  do afterwards and in whatever order, nothing sent to the destination was queued before it.
\<close>

theorem dump_takes_back_the_queue:
  assumes ok: "relay_ok r" and begun: "relay_core fp now w r = Some (wake, r1)"
    and new: "c_cut (rl_core r) < c_cut (rl_core r1)"
    and later: "(relay_step fp alnum guard)\<^sup>*\<^sup>* r1 r2"
  shows "(\<forall>q \<in> set (eg_media (rl_egress r)). q_cut q < c_cut (rl_core r1)) \<and>
    (\<exists>qs. eg_sent (rl_egress r2) = eg_sent (rl_egress r) @ qs \<and>
       (\<forall>q \<in> set qs. c_cut (rl_core r1) \<le> q_cut q))"
proof -
  have ok1: "relay_ok r1" using relay_step_ok [OF ok relay_step.core [OF begun]] by blast
  obtain qs where "eg_sent (rl_egress r2) = eg_sent (rl_egress r1) @ qs"
    "\<And>q. q \<in> set qs \<Longrightarrow> c_cut (rl_core r1) \<le> q_cut q"
    using relay_steps_send [OF later ok1] by metis
  moreover have "eg_sent (rl_egress r1) = eg_sent (rl_egress r)"
    using begun by (elim relay_coreE) simp
  moreover have "\<forall>q \<in> set (eg_media (rl_egress r)). q_cut q < c_cut (rl_core r1)"
    using ok new by (auto simp: relay_ok_def counters_ok_def Let_def)
  ultimately show ?thesis by auto
qed

section \<open>After the end of the stream\<close>

text \<open>
  \<open>since_end fp G e r\<close>: the core's engine comes from \<open>e\<close> discarded, and what waits for a connection
  with a number above \<open>G\<close> was recorded after that; \<open>gone G r\<close>: the connections up to \<open>G\<close> are
  over.
\<close>

definition since_end :: "(bytes \<Rightarrow> u64) \<Rightarrow> nat \<Rightarrow> engine \<Rightarrow> 'p relay \<Rightarrow> bool" where
  "since_end fp G e r \<longleftrightarrow>
     (engine_step fp)\<^sup>*\<^sup>* (discard e) (c_engine (rl_core r)) \<and> G \<le> c_generation (rl_core r) \<and>
     (\<forall>q \<in> set (eg_media (rl_egress r)). G < q_generation q \<longrightarrow> recorded_after fp e (q_msg q))"

definition gone :: "nat \<Rightarrow> 'p relay \<Rightarrow> bool" where
  "gone G r \<longleftrightarrow>
     (\<forall>cn. live_on (eg_phase (rl_egress r)) = Some cn \<longrightarrow> G < cn_generation cn) \<and>
     (\<forall>n \<in> set (rl_answers r). G < n)"

lemma since_end_core:
  assumes ok: "relay_ok r" and since: "since_end fp G e r" and wf: "engine_wf e"
    and step: "relay_core fp now w r = Some (wake, r')"
  shows "since_end fp G e r'"
proof -
  let ?g = "rl_egress r"
  obtain c inbox where turn: "core_turn fp now w (between (ct_backlog (eg_counters ?g))
        (ct_written (eg_counters ?g)) (rl_core r)) = Some (wake, c)"
    and r': "r' = r\<lparr>rl_core := c,
      rl_egress := ?g\<lparr>eg_media := eg_media ?g @ c_media c, eg_counters := c_counters c\<rparr>,
      rl_ctl := rl_ctl r @ c_ctl c, rl_answers := rl_answers r @ connected_answers (c_replies c),
      rl_inbox := inbox\<rparr>"
    using step by (rule relay_coreE)
  let ?c = "between (ct_backlog (eg_counters ?g)) (ct_written (eg_counters ?g)) (rl_core r)"
  have engine: "(engine_step fp)\<^sup>*\<^sup>* (discard e) (c_engine (rl_core r))"
    using since by (simp add: since_end_def)
  have "(engine_step fp)\<^sup>*\<^sup>* (c_engine (rl_core r)) (c_engine (core_wakeup now w ?c))"
    using steps_wakeup [of fp ?c now w] by (simp add: steps_def)
  with engine have woken: "(engine_step fp)\<^sup>*\<^sup>* (discard e) (c_engine (core_wakeup now w ?c))"
    by (rule rtranclp_trans)
  have new: "recorded_after fp e (q_msg q)" if "q \<in> set (c_media c)" for q
    using queued_after_discard [OF wf woken turn _ that] by simp
  have "(engine_step fp)\<^sup>*\<^sup>* (discard e) (c_engine c)"
    using engine steps_turn [OF turn] unfolding steps_def by (metis between_fields(1) rtranclp_trans)
  moreover have "c_generation (rl_core r) \<le> c_generation c"
    using relay_step_ok [OF ok relay_step.core [OF step]] by (simp add: r')
  ultimately show ?thesis
    using since new by (fastforce simp: since_end_def r')
qed

lemma since_end_egress:
  assumes since: "since_end fp G e r" and step: "relay_egress alnum guard now i r = Some r'"
  shows "since_end fp G e r'"
proof -
  obtain r1 g where g: "egress_step alnum guard now i (rl_egress r) = Some g"
    and core: "rl_core r1 = rl_core r" and r': "r' = r1\<lparr>rl_egress := g,
      rl_inbox := rl_inbox r @ drop (length (eg_events (rl_egress r))) (eg_events g)\<rparr>"
    using step by (rule relay_egressE)
  obtain qs where "step_of (rl_egress r) g qs" using egress_step_sends [OF g] by blast
  then obtain k where "eg_media g = drop k (eg_media (rl_egress r))" by (auto simp: step_of_def)
  with since core show ?thesis by (auto simp: since_end_def r' dest: in_set_dropD)
qed

lemma gone_core:
  assumes wf: "engine_wf (c_engine (rl_core r))" and num: "numbers_ok r" and gone: "gone G r"
    and G: "G \<le> c_generation (rl_core r)" and step: "relay_core fp now w r = Some (wake, r')"
  shows "gone G r'"
proof -
  let ?g = "rl_egress r"
  obtain c inbox where turn: "core_turn fp now w (between (ct_backlog (eg_counters ?g))
        (ct_written (eg_counters ?g)) (rl_core r)) = Some (wake, c)"
    and r': "r' = r\<lparr>rl_core := c,
      rl_egress := ?g\<lparr>eg_media := eg_media ?g @ c_media c, eg_counters := c_counters c\<rparr>,
      rl_ctl := rl_ctl r @ c_ctl c, rl_answers := rl_answers r @ connected_answers (c_replies c),
      rl_inbox := inbox\<rparr>"
    using step by (rule relay_coreE)
  have "\<forall>n \<in> set (connected_answers (c_replies c)). G < n"
  proof (cases "\<exists>k. w = OnEvent (EgressConnected k)")
    case True
    with turn_number(3) [OF turn] wf num G show ?thesis
      by (auto simp: numbers_ok_def Let_def)
  next
    case False
    with turn_number(2) [OF turn] wf show ?thesis by auto
  qed
  with gone show ?thesis by (auto simp: gone_def r')
qed

lemma gone_egress:
  assumes gone: "gone G r" and step: "relay_egress alnum guard now i r = Some r'"
  shows "gone G r'"
proof -
  obtain r1 g where take: "take_input i r = Some r1" and notclosed: "i \<noteq> CtlClosed"
    and g: "egress_step alnum guard now i (rl_egress r) = Some g"
    and r': "r' = r1\<lparr>rl_egress := g,
      rl_inbox := rl_inbox r @ drop (length (eg_events (rl_egress r))) (eg_events g)\<rparr>"
    using step by (rule relay_egressE)
  note cases = take_input_numbers [OF take] egress_step_moves [OF g notclosed]
  show ?thesis
  proof (cases "\<exists>m. i = Generation m")
    case True
    with cases gone show ?thesis by (auto simp: gone_def r')
  next
    case False
    then have answers: "rl_answers r1 = rl_answers r" using cases(1) by auto
    have "\<exists>old. live_on (eg_phase (rl_egress r)) = Some old \<and> cn_generation old = cn_generation cn"
      if "live_on (eg_phase g) = Some cn" for cn
      using cases(2) False that by (auto simp: moves_def is_asking_def split: phase.splits)
    with gone answers show ?thesis by (fastforce simp: gone_def r')
  qed
qed

text \<open>Taking \<^verbatim>\<open>Abort\<close> closes the connection, whatever phase the egress is in, and writes nothing.\<close>

lemma abort_closes:
  assumes "egress_step alnum guard now (GotCtl CtlAbort os) s = Some s'"
  shows "eg_phase s' = EgIdle" "eg_wire s' = eg_wire s" "eg_sent s' = eg_sent s"
proof -
  have stop: "eg_phase (stop_idle a) = EgIdle" "eg_wire (stop_idle a) = eg_wire a"
    "eg_sent (stop_idle a) = eg_sent a" for a
    by (simp_all add: stop_idle_def stopped_def report_status_def)
  have run: "eg_phase (end_run alnum now cn Stopped a) = EgIdle"
    "eg_wire (end_run alnum now cn Stopped a) = eg_wire a"
    "eg_sent (end_run alnum now cn Stopped a) = eg_sent a" for cn a
    by (simp_all add: end_run_def Let_def stop)
  have "eg_phase s' = EgIdle \<and> eg_wire s' = eg_wire s \<and> eg_sent s' = eg_sent s"
    using assms
    by (cases "eg_phase s") (auto simp: egress_step_def early_ctl_def live_ctl_def writing_ctl_def
        ended_by_def Let_def stop run)
  then show "eg_phase s' = EgIdle" "eg_wire s' = eg_wire s" "eg_sent s' = eg_sent s" by auto
qed

lemma egress_sends_live:
  assumes ok: "relay_ok r" and step: "relay_step fp alnum guard r r'" and gone: "gone G r"
  obtains qs where "eg_sent (rl_egress r') = eg_sent (rl_egress r) @ qs"
    and "\<And>q. q \<in> set qs \<Longrightarrow> G < q_generation q \<and> q \<in> set (eg_media (rl_egress r))"
  using relay_step_sends [OF ok step] gone unfolding gone_def by metis

lemma after_the_end:
  assumes wf: "engine_wf e" and steps: "(relay_step fp alnum guard)\<^sup>*\<^sup>* r r'"
    and ok: "relay_ok r" and since: "since_end fp G e r"
  shows "since_end fp G e r'"
    and "gone G r \<Longrightarrow> gone G r' \<and> (\<exists>qs. eg_sent (rl_egress r') = eg_sent (rl_egress r) @ qs \<and>
      (\<forall>q \<in> set qs. recorded_after fp e (q_msg q)))"
proof -
  have "since_end fp G e r' \<and>
    (gone G r \<longrightarrow> gone G r' \<and> (\<exists>qs. eg_sent (rl_egress r') = eg_sent (rl_egress r) @ qs \<and>
      (\<forall>q \<in> set qs. recorded_after fp e (q_msg q))))"
    using steps
  proof (induction rule: rtranclp_induct)
    case base
    then show ?case using since by auto
  next
    case (step r1 r2)
    have ok1: "relay_ok r1" using relay_cuts.steps_inv [OF step.hyps(1) ok] .
    then have wf1: "engine_wf (c_engine (rl_core r1))" "numbers_ok r1"
      by (simp_all add: relay_ok_def counters_ok_def Let_def)
    from step.IH have since1: "since_end fp G e r1" by blast
    then have G: "G \<le> c_generation (rl_core r1)" by (simp add: since_end_def)
    have since2: "since_end fp G e r2"
      using step.hyps(2) since_end_core [OF ok1 since1 wf] since_end_egress [OF since1]
      by (auto elim: relay_stepE)
    moreover have "gone G r2 \<and> (\<exists>qs. eg_sent (rl_egress r2) = eg_sent (rl_egress r) @ qs \<and>
      (\<forall>q \<in> set qs. recorded_after fp e (q_msg q)))" if "gone G r"
    proof -
      from step.IH that obtain ps where gone1: "gone G r1"
        and ps: "eg_sent (rl_egress r1) = eg_sent (rl_egress r) @ ps"
        "\<forall>q \<in> set ps. recorded_after fp e (q_msg q)" by blast
      have "gone G r2"
        using step.hyps(2) gone_core [OF wf1 gone1 G] gone_egress [OF gone1]
        by (auto elim: relay_stepE)
      moreover obtain qs where qs: "eg_sent (rl_egress r2) = eg_sent (rl_egress r1) @ qs"
        and live: "\<And>q. q \<in> set qs \<Longrightarrow> G < q_generation q \<and> q \<in> set (eg_media (rl_egress r1))"
        using egress_sends_live [OF ok1 step.hyps(2) gone1] by metis
      moreover have "\<forall>q \<in> set qs. recorded_after fp e (q_msg q)"
        using live since1 by (auto simp: since_end_def)
      ultimately show ?thesis using ps by (intro conjI exI [of _ "ps @ qs"]) auto
    qed
    ultimately show ?case by blast
  qed
  then show "since_end fp G e r'"
    and "gone G r \<Longrightarrow> gone G r' \<and> (\<exists>qs. eg_sent (rl_egress r') = eg_sent (rl_egress r) @ qs \<and>
      (\<forall>q \<in> set qs. recorded_after fp e (q_msg q)))" by blast+
qed


end
