(* ===== verification/Relay_Examples.thy ===== *)
theory Relay_Examples
  imports Relay_Promises Core_Examples
begin

text \<open>
  Concrete relays on which the theorems are applied: one on air, with a message queued for the
  connection it is on.
\<close>

definition demo_target :: target where
  "demo_target =
     \<lparr>tg_url = \<lparr>u_scheme = Rtmp, u_host = ascii ''example'', u_port = 1935, u_app = ascii ''app'',
                u_tc_url = ascii ''rtmp://example/app'', u_stream_key = None\<rparr>,
      tg_key = ascii ''key'', tg_props = []\<rparr>"

definition demo_connection :: connection where
  "demo_connection =
     \<lparr>cn_target = demo_target, cn_session = new_client_session (client_config_for demo_target),
      cn_generation = gen demo_live, cn_log = log_of [(100, Some 3), (50, Some 4)],
      cn_last_written = Some 4, cn_started = 0\<rparr>"

definition demo_queued :: queued where
  "demo_queued = \<lparr>q_generation = gen demo_live, q_cut = 0,
     q_msg = \<lparr>m_kind = Audio, m_timestamp = 0, m_payload = [0xAF, 1, 2, 3], m_seq = Some 0\<rparr>\<rparr>"

definition relay_on :: "unit relay" where
  "relay_on = (new_relay demo_relay ())
     \<lparr>rl_core := (new_core demo_relay)\<lparr>c_engine := demo_live, c_life := on_air encoder.Publishing LivePlan,
        c_generation := gen demo_live\<rparr>,
      rl_egress := (new_egress ())\<lparr>eg_phase := EgLive demo_connection, eg_media := [demo_queued],
        eg_counters := \<lparr>ct_backlog = 4, ct_written = 0, ct_cut = 0\<rparr>\<rparr>,
      rl_numbers := [gen demo_live]\<rparr>"

lemma relay_on_fields [simp]:
  "c_engine (rl_core relay_on) = demo_live" "c_cut (rl_core relay_on) = 0"
  "c_dump (rl_core relay_on) = None" "egress_on (c_life (rl_core relay_on))"
  "c_generation (rl_core relay_on) = gen demo_live" "ct_cut (c_counters (rl_core relay_on)) = 0"
  "eg_phase (rl_egress relay_on) = EgLive demo_connection" "eg_media (rl_egress relay_on) = [demo_queued]"
  "eg_counters (rl_egress relay_on) = \<lparr>ct_backlog = 4, ct_written = 0, ct_cut = 0\<rparr>"
  "eg_sent (rl_egress relay_on) = []" "eg_events (rl_egress relay_on) = []"
  "rl_ctl relay_on = []" "rl_answers relay_on = []" "rl_inbox relay_on = []"
  "rl_numbers relay_on = [gen demo_live]"
  by (simp_all add: relay_on_def new_relay_def new_core_def new_egress_def on_air_def egress_on_def)

lemma relay_on_ok: "relay_ok relay_on"
  using demo_live_wf
  by (simp add: relay_ok_def counters_ok_def numbers_ok_def dump_coming_def counted_def
      counted_at_def in_flight_def queued_bytes_def demo_queued_def demo_connection_def)

text \<open>The core always has a turn.\<close>

lemma relay_core_turns:
  assumes "relay_ok r" and "\<And>ev. w \<noteq> OnEvent ev"
  shows "\<exists>wake r'. relay_core fp now w r = Some (wake, r')"
proof -
  have "engine_wf (c_engine (rl_core r))" using assms(1) by (simp add: relay_ok_def counters_ok_def Let_def)
  then obtain wake c where "core_turn fp now w (between (ct_backlog (eg_counters (rl_egress r)))
      (ct_written (eg_counters (rl_egress r))) (rl_core r)) = Some (wake, c)"
    using turn_completes [of "between b x (rl_core r)" for b x] by fastforce
  moreover have "take_wakeup w (rl_inbox r) = Some (rl_inbox r)"
    using assms(2) by (cases w) (auto simp: take_wakeup_def)
  ultimately show ?thesis by (simp add: relay_core_def Let_def)
qed

lemma relay_agrees_witness:
  "\<exists>wake r. relay_core (\<lambda>_. 0) 50 OnTick (new_relay demo_relay ()) = Some (wake, r) \<and>
     ct_backlog (eg_counters (rl_egress r)) = queued_bytes (eg_media (rl_egress r))"
proof -
  let ?step = "relay_step (\<lambda>_. 0) (\<lambda>_. False) (\<lambda>_ _. (None, ()))"
  obtain wake r where r: "relay_core (\<lambda>_. 0) 50 OnTick (new_relay demo_relay ()) = Some (wake, r)"
    using relay_core_turns [OF new_relay_ok, of OnTick "\<lambda>_. 0" 50 demo_relay "()"] by auto
  then have "?step (new_relay demo_relay ()) r" by (rule relay_step.core)
  from relay_agrees [OF r_into_rtranclp [of ?step, OF this]] r
  have "ct_backlog (eg_counters (rl_egress r)) =
      queued_bytes (eg_media (rl_egress r)) + in_flight (eg_phase (rl_egress r))" by blast
  moreover have "eg_phase (rl_egress r) = EgIdle"
    using r by (elim relay_coreE) (simp add: new_relay_def new_egress_def)
  ultimately show ?thesis using r by (auto simp: in_flight_def)
qed

text \<open>The queued message is sent.\<close>

lemma sent_is_current_witness:
  "\<exists>r. relay_egress (\<lambda>_. False) (\<lambda>_ _. (None, ())) 9 (GotMedia 1) relay_on = Some r \<and>
     eg_sent (rl_egress r) = [demo_queued] \<and> q_generation demo_queued = last (rl_numbers relay_on)"
proof -
  let ?g = "take_batch (\<lambda>_ _. (None, ())) demo_connection 1 (rl_egress relay_on)"
  have "egress_step (\<lambda>_. False) (\<lambda>_ _. (None, ())) 9 (GotMedia 1) (rl_egress relay_on) = Some ?g"
    by (simp add: egress_step_def MAX_BATCH_def)
  then obtain r where r: "relay_egress (\<lambda>_. False) (\<lambda>_ _. (None, ())) 9 (GotMedia 1) relay_on = Some r"
    "rl_egress r = ?g"
    by (simp add: relay_egress_def take_input_def)
  moreover have "eg_sent ?g = [demo_queued]"
    by (simp add: take_batch_def Let_def current_def demo_queued_def demo_connection_def go_to_def
        write_out_def split: prod.split)
  ultimately show ?thesis
    using sent_is_current [OF relay_on_ok relay_step.egress [OF r(1), of "\<lambda>_. 0"]] by auto
qed

lemma demo_live_can_dump: "can_dump demo_live"
  by (simp add: can_dump_def dump_delay_def demo_live_out SEC_def default_config_def MS_def)

lemma dump_takes_back_the_queue_witness:
  "\<exists>wake r. relay_core (\<lambda>_. 0) 50 (OnControl (Command (DumpCmd MaskMode False) 7)) relay_on = Some (wake, r) \<and>
     q_cut demo_queued < c_cut (rl_core r)"
proof -
  let ?w = "OnControl (Command (DumpCmd MaskMode False) 7)"
  obtain wake r where r: "relay_core (\<lambda>_. 0) 50 ?w relay_on = Some (wake, r)"
    using relay_core_turns [OF relay_on_ok, of ?w "\<lambda>_. 0" 50] by auto
  then obtain c where turn: "core_turn (\<lambda>_. 0) 50 ?w (between 4 0 (rl_core relay_on)) = Some (wake, c)"
    and c: "rl_core r = c"
    by (elim relay_coreE) simp
  have "c_cut c = c_cut (core_wakeup 50 ?w (between 4 0 (rl_core relay_on)))"
    using turn_queues [OF turn] by metis
  then have "c_cut (rl_core relay_on) < c_cut (rl_core r)"
    using demo_live_can_dump by (simp add: c core_wakeup_def core_control_def start_dump_def Let_def)
  from dump_takes_back_the_queue [OF relay_on_ok r this rtranclp.rtrancl_refl [of "relay_step (\<lambda>_. 0) (\<lambda>_. False) (\<lambda>_ _. (None, ()))"]] r
  show ?thesis by auto
qed


text \<open>
  A dump on that connection while the OS still holds the last 50 of the 150 bytes written:
  the connection is reset, and message 3, whose write ended at 100, is the last that was
  surely sent.
\<close>

lemma dump_answered_once_and_honestly_witness:
  "\<exists>s'. egress_step (\<lambda>_. False) (\<lambda>_ _. (None, ())) 9
      (GotCtl (CtlCut 1) \<lparr>os_queue = Some \<lparr>sq_unsent = 20, sq_unacked = 30\<rparr>, os_buffer = None\<rparr>)
      (rl_egress relay_on) = Some s' \<and>
     filter is_answer (eg_events s') = [CutDone 1 True (Some 3)] \<and>
     eg_phase s' = EgConnecting demo_target None"
proof -
  let ?i = "GotCtl (CtlCut 1) \<lparr>os_queue = Some \<lparr>sq_unsent = 20, sq_unacked = 30\<rparr>, os_buffer = None\<rparr>"
  obtain s' where s': "egress_step (\<lambda>_. False) (\<lambda>_ _. (None, ())) 9 ?i (rl_egress relay_on) = Some s'"
    by (simp add: egress_step_def)
  from dump_answered_once_and_honestly [OF s']
  obtain reset d where r: "filter is_answer (eg_events s') = [CutDone 1 reset d]"
    "honest_answer (EgLive demo_connection) \<lparr>os_queue = Some \<lparr>sq_unsent = 20, sq_unacked = 30\<rparr>, os_buffer = None\<rparr>
       reset d (eg_phase s')"
    by auto
  have log: "surely_sent 50 (log_of [(100, Some 3), (50, Some 4)]) = Some 3"
    by (simp add: log_of_def new_log_def log_written_def surely_sent_def checked_sub_def find_last_def
        WRITTEN_KEPT_def Let_def)
  from r(2) have "reset \<and> d = Some 3 \<and> eg_phase s' = EgConnecting demo_target None"
    using log by (auto simp: honest_answer_def demo_connection_def held_def split: if_splits)
  with s' r(1) show ?thesis by auto
qed

end
