(* ===== verification/Rbsp.thy ===== *)
theory Rbsp
  imports Prelude
begin

text \<open>
  The bit level of \<^verbatim>\<open>crates/flv/src/hevc/poc.rs\<close>: emulation prevention bytes
  (\<^verbatim>\<open>unescape\<close>, \<^verbatim>\<open>escape\<close>), the reader of bits and of Exp-Golomb codes
  (\<^verbatim>\<open>Bits\<close>) and \<^verbatim>\<open>put_bits\<close>. A reader is a function of the bytes and a bit position to a
  value and the next position, or \<open>None\<close> where the source returns \<^verbatim>\<open>None\<close>; what a reader
  makes of the bits depends only on those it goes over (\<open>local_reader\<close>), and every reader
  composed of such readers is one.
\<close>

section \<open>Emulation prevention\<close>

fun unescape_from :: "nat \<Rightarrow> bytes \<Rightarrow> bytes" where
  "unescape_from zeros [] = []"
| "unescape_from zeros (b # bs) =
     (if 2 \<le> zeros \<and> b = 3 then unescape_from 0 bs
      else b # unescape_from (if b = 0 then zeros + 1 else 0) bs)"

definition unescape :: "bytes \<Rightarrow> bytes" where
  "unescape = unescape_from 0"

fun escape_from :: "nat \<Rightarrow> bytes \<Rightarrow> bytes" where
  "escape_from zeros [] = []"
| "escape_from zeros (b # bs) =
     (if 2 \<le> zeros \<and> b \<le> 3
      then 3 # b # escape_from (if b = 0 then 1 else 0) bs
      else b # escape_from (if b = 0 then zeros + 1 else 0) bs)"

definition escape :: "bytes \<Rightarrow> bytes" where
  "escape rbsp =
     (let bs = escape_from 0 rbsp in if last_opt bs = Some 0 then bs @ [3] else bs)"

section \<open>Readers\<close>

type_synonym 'a reader = "bytes \<Rightarrow> nat \<Rightarrow> ('a \<times> nat) option"

definition ret :: "'a \<Rightarrow> 'a reader" where
  "ret x = (\<lambda>b pos. Some (x, pos))"

definition fail_r :: "'a reader" where
  "fail_r = (\<lambda>b pos. None)"

text \<open>\<open>then_r r f\<close>: \<open>r\<close>, then \<open>f\<close> of what it read (the \<^verbatim>\<open>?\<close> of the source).\<close>

definition then_r :: "'a reader \<Rightarrow> ('a \<Rightarrow> 'b reader) \<Rightarrow> 'b reader" where
  "then_r r f = (\<lambda>b pos. case r b pos of None \<Rightarrow> None | Some (x, pos1) \<Rightarrow> f x b pos1)"

definition here :: "nat reader" where
  "here = (\<lambda>b pos. Some (pos, pos))"

definition bit_at :: "bytes \<Rightarrow> nat \<Rightarrow> bool" where
  "bit_at b pos = bit (b ! (pos div 8)) (7 - pos mod 8)"

definition r_bit :: "bool reader" where
  "r_bit = (\<lambda>b pos. if pos div 8 < length b then Some (bit_at b pos, pos + 1) else None)"

text \<open>
  \<^verbatim>\<open>bits(n)\<close>, \<open>v\<close> being what was read so far. No caller reads more than 32 bits, so the
  64-bit value never overflows.
\<close>

fun bits_from :: "nat \<Rightarrow> nat \<Rightarrow> nat reader" where
  "bits_from 0 v = (if v < 2 ^ 32 then ret v else fail_r)"
| "bits_from (Suc n) v = then_r r_bit (\<lambda>x. bits_from n (2 * v + of_bool x))"

definition r_bits :: "nat \<Rightarrow> nat reader" where
  "r_bits n = bits_from n 0"

definition skip_bits :: "nat \<Rightarrow> unit reader" where
  "skip_bits n = (\<lambda>b pos. if length b * 8 < pos + n then None else Some ((), pos + n))"

text \<open>\<^verbatim>\<open>ue\<close> after \<open>z\<close> zeros, of which \<open>left\<close> more may come.\<close>

fun ue_from :: "nat \<Rightarrow> nat \<Rightarrow> nat reader" where
  "ue_from left z =
     then_r r_bit (\<lambda>one.
       if one then
         then_r (r_bits z) (\<lambda>v. if 2 ^ z - 1 + v < 2 ^ 32 then ret (2 ^ z - 1 + v) else fail_r)
       else (case left of 0 \<Rightarrow> fail_r | Suc left1 \<Rightarrow> ue_from left1 (Suc z)))"

declare ue_from.simps [simp del]

definition r_ue :: "nat reader" where
  "r_ue = ue_from 31 0"

definition r_se :: "int reader" where
  "r_se = then_r r_ue (\<lambda>k. ret (if odd k then int ((k + 1) div 2) else - int (k div 2)))"

fun times_r :: "nat \<Rightarrow> unit reader \<Rightarrow> unit reader" where
  "times_r 0 r = ret ()"
| "times_r (Suc n) r = then_r r (\<lambda>_. times_r n r)"

definition skip_ue :: "unit reader" where
  "skip_ue = then_r r_ue (\<lambda>_. ret ())"

definition skip_se :: "unit reader" where
  "skip_se = then_r r_se (\<lambda>_. ret ())"

section \<open>Writing bits\<close>

definition put_bit :: "bytes \<Rightarrow> nat \<Rightarrow> bool \<Rightarrow> bytes" where
  "put_bit b p x =
     (let mask = drop_bit (p mod 8) 0x80
      in b[p div 8 := (if x then b ! (p div 8) OR mask else b ! (p div 8) AND NOT mask)])"

definition put_bits :: "bytes \<Rightarrow> nat \<Rightarrow> nat \<Rightarrow> nat \<Rightarrow> bytes" where
  "put_bits b pos n v = fold (\<lambda>i b. put_bit b (pos + i) (bit v (n - 1 - i))) [0..<n] b"

text \<open>How many bits \<open>n\<close> has (64 less its leading zeros).\<close>

fun bit_width :: "nat \<Rightarrow> nat" where
  "bit_width n = (if n = 0 then 0 else 1 + bit_width (n div 2))"

declare bit_width.simps [simp del]

definition ceil_log2 :: "nat \<Rightarrow> nat" where
  "ceil_log2 x = (if x \<le> 1 then 0 else bit_width (x - 1))"

section \<open>Emulation prevention, undone\<close>

text \<open>The zeros the escaper counts: it starts over after each byte it adds.\<close>

fun zeros_left :: "nat \<Rightarrow> bytes \<Rightarrow> nat" where
  "zeros_left z [] = z"
| "zeros_left z (b # bs) =
     zeros_left (if b = 0 then (if 2 \<le> z then 1 else z + 1) else 0) bs"

lemma unescape_prefix: "\<exists>more. unescape_from z (xs @ ys) = unescape_from z xs @ more"
  by (induction z xs rule: unescape_from.induct) auto

lemma unescape_escape_from:
  "unescape_from z (escape_from z bs @ ys) = bs @ unescape_from (zeros_left z bs) ys"
  if "z \<le> 2"
  using that
proof (induction z bs rule: escape_from.induct)
  case (2 z b bs)
  then show ?case by (cases "b = 0") auto
qed simp

lemma last_escape: "bs \<noteq> [] \<Longrightarrow> last (escape_from z bs) = last bs"
proof (induction z bs rule: escape_from.induct)
  case (2 z b bs)
  have "escape_from k bs = [] \<longleftrightarrow> bs = []" for k by (cases bs) auto
  with 2 show ?case by auto
qed simp

lemma escape_from_Nil [simp]: "escape_from z bs = [] \<longleftrightarrow> bs = []"
  by (cases bs) auto

text \<open>
  Unescaping what was escaped gives it back. A data byte 3 follows it when it ends in a
  zero that the escaper does not count as the second: by the standard an RBSP only ends in
  whole zero words (\<^verbatim>\<open>cabac_zero_word\<close>), and then nothing does.
\<close>

lemma zeros_left_zero: "zeros_left z bs = 0 \<longleftrightarrow> (if bs = [] then z = 0 else last bs \<noteq> 0)"
  by (induction z bs rule: zeros_left.induct) auto

lemma zeros_left_le: "z \<le> 2 \<Longrightarrow> zeros_left z bs \<le> 2"
  by (induction z bs rule: zeros_left.induct) auto

lemma unescape_escape:
  "unescape (escape bs) = bs @ (if zeros_left 0 bs = 1 then [3] else [])"
proof -
  have last: "last_opt (escape_from 0 bs) = Some 0 \<longleftrightarrow> zeros_left 0 bs \<noteq> 0"
    using last_escape [of bs 0] by (auto simp: last_opt_def zeros_left_zero)
  show ?thesis
    using unescape_escape_from [of 0 bs "[]"] unescape_escape_from [of 0 bs "[3]"] zeros_left_le [of 0 bs]
    by (auto simp: unescape_def escape_def Let_def last)
qed

text \<open>
  No start code in what was escaped: no three bytes in a row are two zeros and a byte below 3,
  and the last byte is not zero.
\<close>

fun no_start_code :: "nat \<Rightarrow> bytes \<Rightarrow> bool" where
  "no_start_code z [] \<longleftrightarrow> True"
| "no_start_code z (b # bs) \<longleftrightarrow>
     \<not> (2 \<le> z \<and> b < 3) \<and> no_start_code (if b = 0 then z + 1 else 0) bs"

lemma no_start_code_escape: "z \<le> 2 \<Longrightarrow> no_start_code z (escape_from z bs @ (if ys then [3] else []))"
proof (induction z bs rule: escape_from.induct)
  case (2 z b bs)
  then show ?case by (cases "b = 0") (auto simp: not_le word_le_less_eq)
qed auto

lemma no_start_code_nth:
  "no_start_code z bs \<Longrightarrow> i + 2 < length bs \<Longrightarrow> \<not> (bs ! i = 0 \<and> bs ! (i + 1) = 0 \<and> bs ! (i + 2) < 3)"
proof (induction z bs arbitrary: i rule: no_start_code.induct)
  case (2 z b bs)
  show ?case
  proof (cases i)
    case 0
    with 2(2,3) show ?thesis
      by (cases bs; cases "tl bs") (auto split: if_splits)
  next
    case (Suc j)
    with 2 show ?thesis by (auto split: if_splits)
  qed
qed simp

section \<open>What a reader depends on\<close>

text \<open>The bits of \<open>b'\<close> from \<open>lo\<close> to \<open>hi\<close> are those of \<open>b\<close>, and it is no shorter.\<close>

definition same_bits :: "bytes \<Rightarrow> bytes \<Rightarrow> nat \<Rightarrow> nat \<Rightarrow> bool" where
  "same_bits b b' lo hi \<longleftrightarrow>
     length b \<le> length b' \<and> (\<forall>p. lo \<le> p \<longrightarrow> p < hi \<longrightarrow> bit_at b' p = bit_at b p)"

lemma same_bits_sub: "same_bits b b' lo hi \<Longrightarrow> lo \<le> lo' \<Longrightarrow> hi' \<le> hi \<Longrightarrow> same_bits b b' lo' hi'"
  by (auto simp: same_bits_def)

definition local_reader :: "'a reader \<Rightarrow> bool" where
  "local_reader r \<longleftrightarrow>
     (\<forall>b pos x pos'. r b pos = Some (x, pos') \<longrightarrow>
        pos \<le> pos' \<and> (pos \<le> 8 * length b \<longrightarrow> pos' \<le> 8 * length b) \<and>
        (\<forall>b'. same_bits b b' pos pos' \<longrightarrow> r b' pos = Some (x, pos')))"

named_theorems local_intros

lemma local_readerD:
  assumes "local_reader r" and "r b pos = Some (x, pos')"
  shows "pos \<le> pos'" and "same_bits b b' pos pos' \<Longrightarrow> r b' pos = Some (x, pos')"
    and "pos \<le> 8 * length b \<Longrightarrow> pos' \<le> 8 * length b"
  using assms unfolding local_reader_def by blast+

lemma local_ret [local_intros]: "local_reader (ret x)"
  by (simp add: local_reader_def ret_def)

lemma local_fail [local_intros]: "local_reader fail_r"
  by (simp add: local_reader_def fail_r_def)

lemma local_here [local_intros]: "local_reader here"
  by (simp add: local_reader_def here_def)

lemma local_bit [local_intros]: "local_reader r_bit"
  by (auto simp: local_reader_def r_bit_def same_bits_def split: if_splits)

lemma local_skip [local_intros]: "local_reader (skip_bits n)"
  by (auto simp: local_reader_def skip_bits_def same_bits_def)

lemma local_then [local_intros]:
  assumes r: "local_reader r" and f: "\<And>x. local_reader (f x)"
  shows "local_reader (then_r r f)"
  unfolding local_reader_def
proof (intro allI impI)
  fix b pos y pos'
  assume "then_r r f b pos = Some (y, pos')"
  then obtain x pos1 where 1: "r b pos = Some (x, pos1)" and 2: "f x b pos1 = Some (y, pos')"
    by (auto simp: then_r_def split: option.splits)
  have le: "pos \<le> pos1" "pos1 \<le> pos'" using local_readerD(1) [OF r 1] local_readerD(1) [OF f 2] .
  have "then_r r f b' pos = Some (y, pos')" if same: "same_bits b b' pos pos'" for b'
  proof -
    have "r b' pos = Some (x, pos1)"
      using local_readerD(2) [OF r 1] same_bits_sub [OF same order_refl le(2)] by blast
    moreover have "f x b' pos1 = Some (y, pos')"
      using local_readerD(2) [OF f 2] same_bits_sub [OF same le(1) order_refl] by blast
    ultimately show ?thesis by (simp add: then_r_def)
  qed
  moreover have "pos \<le> 8 * length b \<Longrightarrow> pos' \<le> 8 * length b"
    using local_readerD(3) [OF r 1] local_readerD(3) [OF f 2] by blast
  ultimately show "pos \<le> pos' \<and> (pos \<le> 8 * length b \<longrightarrow> pos' \<le> 8 * length b) \<and>
      (\<forall>b'. same_bits b b' pos pos' \<longrightarrow> then_r r f b' pos = Some (y, pos'))"
    using le by simp
qed

lemma local_if [local_intros]:
  "(P \<Longrightarrow> local_reader r) \<Longrightarrow> (\<not> P \<Longrightarrow> local_reader s) \<Longrightarrow> local_reader (if P then r else s)"
  by simp

lemma local_let [local_intros]: "local_reader (f x) \<Longrightarrow> local_reader (let y = x in f y)"
  by simp

lemma local_bits_from [local_intros]: "local_reader (bits_from n v)"
  by (induction n arbitrary: v) (auto intro!: local_intros)

lemma local_bits [local_intros]: "local_reader (r_bits n)"
  unfolding r_bits_def by (rule local_intros)

lemma local_ue_from: "local_reader (ue_from left z)"
proof (induction left arbitrary: z)
  case 0
  show ?case by (subst ue_from.simps) (auto intro!: local_intros)
next
  case (Suc left)
  then show ?case by (subst ue_from.simps) (auto intro!: local_intros)
qed

lemma local_codes [local_intros]:
  "local_reader r_ue" "local_reader r_se" "local_reader skip_ue" "local_reader skip_se"
  by (auto simp: r_ue_def r_se_def skip_ue_def skip_se_def intro!: local_intros local_ue_from)

lemma local_times [local_intros]: "local_reader r \<Longrightarrow> local_reader (times_r n r)"
  by (induction n) (auto intro!: local_intros)

section \<open>Bits written and read\<close>

lemma mask_bit: "k < 8 \<Longrightarrow> bit (drop_bit k (0x80 :: u8)) j \<longleftrightarrow> j = 7 - k"
proof -
  assume k: "k < 8"
  have "bit (2 ^ 7 :: u8) i \<longleftrightarrow> i = 7" for i unfolding bit_exp_iff by auto
  then have bit7: "bit (0x80 :: u8) i \<longleftrightarrow> i = 7" for i by simp
  have "bit (drop_bit k (0x80 :: u8)) j \<longleftrightarrow> k + j = 7"
    by (simp only: bit_drop_bit_eq o_apply bit7)
  with k show ?thesis by arith
qed

lemma bit_at_put_bit:
  assumes "p < 8 * length b"
  shows "bit_at (put_bit b p x) q = (if q = p then x else bit_at b q)"
proof (cases "q div 8 = p div 8")
  case False
  then show ?thesis by (auto simp: bit_at_def put_bit_def Let_def)
next
  case True
  have i: "p div 8 < length b" using assms by (simp add: less_mult_imp_div_less mult.commute)
  have "q = p \<longleftrightarrow> q mod 8 = p mod 8"
    using True by (metis div_mult_mod_eq)
  moreover have "q mod 8 < 8" "p mod 8 < 8" by simp_all
  ultimately have at: "7 - q mod 8 = 7 - p mod 8 \<longleftrightarrow> q = p" by arith
  have range: "7 - q mod 8 < 8" by simp
  show ?thesis
    using True i at range by (auto simp: bit_at_def put_bit_def Let_def bit_or_iff bit_and_iff bit_not_iff mask_bit)
qed

lemma length_put_bit [simp]: "length (put_bit b p x) = length b"
  by (simp add: put_bit_def Let_def)

lemma put_bits_upto:
  assumes "pos + n \<le> 8 * length b" and "k \<le> n"
  shows "length (fold (\<lambda>i b. put_bit b (pos + i) (bit v (n - 1 - i))) [0..<k] b) = length b \<and>
    bit_at (fold (\<lambda>i b. put_bit b (pos + i) (bit v (n - 1 - i))) [0..<k] b) q =
      (if pos \<le> q \<and> q < pos + k then bit v (n - 1 - (q - pos)) else bit_at b q)"
  using assms(2)
proof (induction k arbitrary: q)
  case (Suc k)
  let ?b = "fold (\<lambda>i b. put_bit b (pos + i) (bit v (n - 1 - i))) [0..<k] b"
  have len: "length ?b = length b" using Suc by simp
  then have "pos + k < 8 * length ?b" using assms(1) Suc.prems by simp
  from bit_at_put_bit [OF this] len Suc show ?case by (auto simp: less_Suc_eq)
qed auto

lemma put_bits_bit:
  assumes "pos + n \<le> 8 * length b"
  shows "length (put_bits b pos n v) = length b"
    and "bit_at (put_bits b pos n v) q =
      (if pos \<le> q \<and> q < pos + n then bit v (n - 1 - (q - pos)) else bit_at b q)"
  using put_bits_upto [OF assms order_refl, of v q] by (simp_all add: put_bits_def)

lemma bits_from_reads:
  assumes "\<And>i. i < n \<Longrightarrow> bit_at b (pos + i) = bit u (n - 1 - i)" and "pos + n \<le> 8 * length b"
    and "u < 2 ^ n" and "v * 2 ^ n + u < 2 ^ 32"
  shows "bits_from n v b pos = Some (v * 2 ^ n + u, pos + n)"
  using assms
proof (induction n arbitrary: v u pos)
  case (Suc n)
  let ?x = "bit u n" and ?u = "take_bit n u"
  have u: "u = of_bool ?x * 2 ^ n + ?u"
  proof -
    have "u = take_bit (Suc n) u" using Suc.prems(3) by (simp add: take_bit_nat_eq_self)
    also have "\<dots> = 2 ^ n * of_bool ?x + ?u" by (rule take_bit_Suc_from_most)
    finally show ?thesis by (simp only: mult.commute)
  qed
  have val: "(2 * v + of_bool ?x) * 2 ^ n + ?u = v * 2 ^ Suc n + u"
    by (subst (2) u) (simp add: algebra_simps)
  have "bits_from n (2 * v + of_bool ?x) b (Suc pos) = Some ((2 * v + of_bool ?x) * 2 ^ n + ?u, Suc pos + n)"
  proof (rule Suc.IH)
    show "bit_at b (Suc pos + i) = bit ?u (n - 1 - i)" if "i < n" for i
      using Suc.prems(1) [of "Suc i"] that by (auto simp: bit_take_bit_iff)
    show "?u < 2 ^ n" by (rule take_bit_nat_less_exp)
  qed (use Suc.prems(2,4) val in simp_all)
  moreover have "r_bit b pos = Some (?x, Suc pos)"
    using Suc.prems(1) [of 0] Suc.prems(2) by (auto simp: r_bit_def)
  ultimately show ?case using val by (simp add: then_r_def)
qed (simp add: ret_def)

text \<open>What \<^verbatim>\<open>put_bits\<close> writes is read back, and nothing else changes.\<close>

lemma put_bits_read:
  assumes "pos + n \<le> 8 * length b" and "v < 2 ^ n" and "n \<le> 32"
  shows "r_bits n (put_bits b pos n v) pos = Some (v, pos + n)"
proof -
  have "v < 2 ^ 32" using assms(2,3) by (meson less_le_trans one_le_numeral power_increasing)
  with bits_from_reads [of n "put_bits b pos n v" pos v 0] put_bits_bit [OF assms(1)] assms(1,2)
  show ?thesis by (simp add: r_bits_def)
qed

lemma bits_from_Some:
  "bits_from n v b pos = Some (u, pos') \<Longrightarrow>
     pos' = pos + n \<and> u < 2 ^ 32 \<and> v * 2 ^ n \<le> u \<and> u < (v + 1) * 2 ^ n \<and> (0 < n \<longrightarrow> pos + n \<le> 8 * length b)"
proof (induction n arbitrary: v pos)
  case (Suc n)
  then obtain x where x: "r_bit b pos = Some (x, Suc pos)"
    and r: "bits_from n (2 * v + of_bool x) b (Suc pos) = Some (u, pos')"
    by (auto simp: then_r_def r_bit_def split: if_splits)
  from Suc.IH [OF r] x show ?case by (cases x) (auto simp: r_bit_def algebra_simps split: if_splits)
qed (auto simp: ret_def fail_r_def split: if_splits)

lemma r_bits_Some:
  "r_bits n b pos = Some (u, pos') \<Longrightarrow> pos' = pos + n \<and> u < 2 ^ n \<and> (0 < n \<longrightarrow> pos + n \<le> 8 * length b)"
  using bits_from_Some [of n 0 b pos u pos'] by (simp add: r_bits_def)

end
