(* ===== verification/Poc.thy ===== *)
theory Poc
  imports Rbsp Flv "HOL-Library.Signed_Division"
begin

text \<open>
  Picture numbering (\<^verbatim>\<open>crates/flv/src/hevc/poc.rs\<close>): the HEVC parameter sets as far as
  slices need them, the start of a slice header, the picture order count as FFmpeg reckons
  it, and \<^verbatim>\<open>PocGuard\<close>, which follows what a decoder holds and renumbers a sequence that
  would repeat a number held. Differences of order counts and the counts themselves, which
  the source keeps in 32 and 64 bits, are integers: a set's differences stay within the
  bounds the parser checks and no chain of sets or pictures comes near the width. The count of
  versions of parameter sets is a number too.
\<close>

definition TRAIL_N :: u8 where "TRAIL_N = 0"
definition TSA_N :: u8 where "TSA_N = 2"
definition STSA_N :: u8 where "STSA_N = 4"
definition RADL_N :: u8 where "RADL_N = 6"
definition RADL_R :: u8 where "RADL_R = 7"
definition BLA_N_LP :: u8 where "BLA_N_LP = 18"
definition IDR_W_RADL :: u8 where "IDR_W_RADL = 19"
definition IDR_N_LP :: u8 where "IDR_N_LP = 20"
definition SPS_NUT :: u8 where "SPS_NUT = 33"
definition PPS_NUT :: u8 where "PPS_NUT = 34"
definition EOS_NUT :: u8 where "EOS_NUT = 36"
definition EOB_NUT :: u8 where "EOB_NUT = 37"
definition SLICE_HEADER_BYTES :: nat where "SLICE_HEADER_BYTES = 512"

section \<open>Reference picture sets\<close>

record rps =
  rp_before :: "int list"
  rp_after :: "int list"

definition MAX_REFS :: nat where "MAX_REFS = 16"

text \<open>\<^verbatim>\<open>used || bit\<close>, \<open>n\<close> times: which pictures are kept.\<close>

fun kept_flags :: "nat \<Rightarrow> bool list reader" where
  "kept_flags 0 = ret []"
| "kept_flags (Suc n) =
     then_r r_bit (\<lambda>used. then_r (if used then ret True else r_bit)
       (\<lambda>k. then_r (kept_flags n) (\<lambda>ks. ret (k # ks))))"

text \<open>The differences \<open>ds\<close> moved by \<open>delta\<close>: those kept that \<open>side\<close> holds of.\<close>

definition moved :: "(int \<Rightarrow> bool) \<Rightarrow> int \<Rightarrow> bool list \<Rightarrow> int list \<Rightarrow> int list" where
  "moved side delta flags ds =
     map (\<lambda>(d, k). d + delta) (filter (\<lambda>(d, k). side (d + delta) \<and> k) (zip ds flags))"

text \<open>H.265 (7-61) and (7-62).\<close>

definition predicted_set :: "rps \<Rightarrow> int \<Rightarrow> bool list \<Rightarrow> rps" where
  "predicted_set base delta kept =
     (let k = length (rp_before base);
          n = k + length (rp_after base);
          neg = (\<lambda>d. d < 0); pos = (\<lambda>d. 0 < d)
      in \<lparr>rp_before = rev (moved neg delta (drop k kept) (rp_after base)) @
            (if delta < 0 \<and> kept ! n then [delta] else []) @ moved neg delta kept (rp_before base),
          rp_after = rev (moved pos delta kept (rp_before base)) @
            (if 0 < delta \<and> kept ! n then [delta] else []) @
            moved pos delta (drop k kept) (rp_after base)\<rparr>)"

definition read_predicted :: "rps list \<Rightarrow> nat \<Rightarrow> bool \<Rightarrow> rps reader" where
  "read_predicted sets idx in_slice =
     then_r (if in_slice then then_r r_ue (\<lambda>u. ret (u + 1)) else ret 1) (\<lambda>delta_idx.
       if delta_idx \<le> idx \<and> idx - delta_idx < length sets then
         (let base = sets ! (idx - delta_idx) in
          then_r r_bit (\<lambda>negative. then_r r_ue (\<lambda>u.
            let abs = int u + 1; delta = (if negative then - abs else abs) in
            if abs > 32768 then fail_r
            else then_r (kept_flags (length (rp_before base) + length (rp_after base) + 1)) (\<lambda>kept.
              let s = predicted_set base delta kept in
              if length (rp_before s) + length (rp_after s) \<le> MAX_REFS then ret s else fail_r))))
       else fail_r)"

text \<open>\<open>count\<close> differences, each \<open>sign\<close> times at least one further than \<open>prev\<close>.\<close>

fun read_diffs :: "nat \<Rightarrow> int \<Rightarrow> int \<Rightarrow> int list reader" where
  "read_diffs 0 sign prev = ret []"
| "read_diffs (Suc n) sign prev =
     then_r r_ue (\<lambda>u.
       if u + 1 \<le> 32768 then
         then_r (skip_bits 1) (\<lambda>_. then_r (read_diffs n sign (prev + sign * (int u + 1)))
           (\<lambda>ds. ret ((prev + sign * (int u + 1)) # ds)))
       else fail_r)"

definition read_explicit :: "rps reader" where
  "read_explicit =
     then_r r_ue (\<lambda>negative. then_r r_ue (\<lambda>positive.
       if MAX_REFS \<le> negative \<or> MAX_REFS \<le> positive then fail_r
       else then_r (read_diffs negative (-1) 0) (\<lambda>before.
         then_r (read_diffs positive 1 0) (\<lambda>after. ret \<lparr>rp_before = before, rp_after = after\<rparr>))))"

definition st_ref_pic_set :: "rps list \<Rightarrow> nat \<Rightarrow> bool \<Rightarrow> rps reader" where
  "st_ref_pic_set sets idx in_slice =
     then_r (if idx \<noteq> 0 then r_bit else ret False) (\<lambda>predicted.
       if predicted then read_predicted sets idx in_slice else read_explicit)"

section \<open>Sequence parameter sets\<close>

record sps =
  sp_log2 :: nat
  sp_colour :: bool
  sp_address_bits :: nat
  sp_sets :: "rps list"
  sp_long_term :: bool

fun flag_pairs :: "nat \<Rightarrow> (bool \<times> bool) list reader" where
  "flag_pairs 0 = ret []"
| "flag_pairs (Suc n) =
     then_r r_bit (\<lambda>x. then_r r_bit (\<lambda>y. then_r (flag_pairs n) (\<lambda>ps. ret ((x, y) # ps))))"

fun skip_levels :: "(bool \<times> bool) list \<Rightarrow> unit reader" where
  "skip_levels [] = ret ()"
| "skip_levels ((profile, level) # ps) =
     then_r (if profile then skip_bits 88 else ret ()) (\<lambda>_.
       then_r (if level then skip_bits 8 else ret ()) (\<lambda>_. skip_levels ps))"

definition skip_profile_tier_level :: "nat \<Rightarrow> unit reader" where
  "skip_profile_tier_level sub_layers =
     then_r (skip_bits 96) (\<lambda>_. then_r (flag_pairs sub_layers) (\<lambda>present.
       then_r (if 0 < sub_layers then skip_bits (2 * (8 - sub_layers)) else ret ()) (\<lambda>_.
         skip_levels present)))"

definition scaling_matrix :: "nat \<Rightarrow> unit reader" where
  "scaling_matrix size_id =
     then_r r_bit (\<lambda>coded.
       if coded then
         then_r (if 1 < size_id then skip_se else ret ()) (\<lambda>_.
           times_r (min 64 (2 ^ (4 + 2 * size_id))) skip_se)
       else skip_ue)"

text \<open>The matrices of size 3 go up by three, so there are two of them.\<close>

definition skip_scaling_list_data :: "unit reader" where
  "skip_scaling_list_data =
     then_r (times_r 6 (scaling_matrix 0)) (\<lambda>_. then_r (times_r 6 (scaling_matrix 1)) (\<lambda>_.
       then_r (times_r 6 (scaling_matrix 2)) (\<lambda>_. times_r 2 (scaling_matrix 3))))"

fun read_sets :: "nat \<Rightarrow> rps list \<Rightarrow> rps list reader" where
  "read_sets 0 sets = ret sets"
| "read_sets (Suc n) sets =
     then_r (st_ref_pic_set sets (length sets) False) (\<lambda>s. read_sets n (sets @ [s]))"

definition div_ceil :: "nat \<Rightarrow> nat \<Rightarrow> nat" where
  "div_ceil a b = (a + b - 1) div b"

text \<open>From \<^verbatim>\<open>amp_enabled_flag\<close> on: the optional PCM fields, the sets and long-term references.\<close>

definition sps_tail :: "nat \<Rightarrow> bool \<Rightarrow> nat \<Rightarrow> nat \<Rightarrow> nat \<Rightarrow> sps reader" where
  "sps_tail log2 colour width height ctb =
     then_r (skip_bits 2) (\<lambda>_. then_r r_bit (\<lambda>pcm.
       then_r (if pcm then then_r (skip_bits 8) (\<lambda>_. then_r (times_r 2 skip_ue) (\<lambda>_. skip_bits 1))
               else ret ()) (\<lambda>_.
       then_r r_ue (\<lambda>count.
         if 64 < count then fail_r
         else then_r (read_sets count []) (\<lambda>sets. then_r r_bit (\<lambda>long_term.
           let ctbs = div_ceil width ctb * div_ceil height ctb in
           if ctbs = 0 then fail_r
           else ret \<lparr>sp_log2 = log2, sp_colour = colour, sp_address_bits = ceil_log2 ctbs,
                     sp_sets = sets, sp_long_term = long_term\<rparr>))))))"

text \<open>From the sub-layer ordering on: the block size and the scaling lists.\<close>

definition sps_blocks :: "nat \<Rightarrow> nat \<Rightarrow> bool \<Rightarrow> nat \<Rightarrow> nat \<Rightarrow> sps reader" where
  "sps_blocks sub_layers log2 colour width height =
     then_r r_bit (\<lambda>all_layers.
     then_r (times_r (3 * (if all_layers then sub_layers + 1 else 1)) skip_ue) (\<lambda>_.
     then_r r_ue (\<lambda>u1. then_r r_ue (\<lambda>u2.
       if 16 < u1 + 3 + u2 then fail_r
       else
         then_r (times_r 4 skip_ue) (\<lambda>_.
         then_r r_bit (\<lambda>lists.
         then_r (if lists then r_bit else ret False) (\<lambda>listed.
         then_r (if listed then skip_scaling_list_data else ret ()) (\<lambda>_.
         sps_tail log2 colour width height (2 ^ (u1 + 3 + u2))))))))))"

definition sps_rest :: "nat \<Rightarrow> sps reader" where
  "sps_rest sub_layers =
     then_r r_ue (\<lambda>chroma.
       if 3 < chroma then fail_r
       else
         then_r (if chroma = 3 then r_bit else ret False) (\<lambda>colour.
         then_r r_ue (\<lambda>width.
         then_r r_ue (\<lambda>height.
         then_r r_bit (\<lambda>window.
         then_r (if window then times_r 4 skip_ue else ret ()) (\<lambda>_.
         then_r (times_r 2 skip_ue) (\<lambda>_.
         then_r r_ue (\<lambda>poc_bits.
           if 16 < poc_bits + 4 then fail_r
           else sps_blocks sub_layers (poc_bits + 4) colour width height))))))))"

text \<open>The fields before, the id, and the position and sub-layers the rest is read with.\<close>

definition sps_id :: "(nat \<times> nat) reader" where
  "sps_id =
     then_r (skip_bits 4) (\<lambda>_. then_r (r_bits 3) (\<lambda>sub_layers.
       if 6 < sub_layers then fail_r
       else then_r (skip_bits 1) (\<lambda>_. then_r (skip_profile_tier_level sub_layers) (\<lambda>_.
         then_r r_ue (\<lambda>i. if 16 \<le> i then fail_r else ret (i, sub_layers))))))"

definition parse_sps :: "bytes \<Rightarrow> (nat \<times> sps option) option" where
  "parse_sps rbsp =
     (case sps_id rbsp 16 of
        None \<Rightarrow> None
      | Some ((i, sub_layers), pos) \<Rightarrow> Some (i, map_option fst (sps_rest sub_layers rbsp pos)))"

section \<open>Picture parameter sets\<close>

record pps =
  pp_sps :: nat
  pp_dependent :: bool
  pp_output :: bool
  pp_extra_bits :: nat

definition read_pps :: "(nat \<times> pps) reader" where
  "read_pps =
     then_r r_ue (\<lambda>i. then_r r_ue (\<lambda>s.
       if 64 \<le> i \<or> 16 \<le> s then fail_r
       else then_r r_bit (\<lambda>dependent. then_r r_bit (\<lambda>shown. then_r (r_bits 3) (\<lambda>extra.
         ret (i, \<lparr>pp_sps = s, pp_dependent = dependent, pp_output = shown, pp_extra_bits = extra\<rparr>))))))"

definition parse_pps :: "bytes \<Rightarrow> (nat \<times> pps) option" where
  "parse_pps rbsp = map_option fst (read_pps rbsp 16)"

section \<open>Picture order counts\<close>

text \<open>The start of a slice header: \<open>sl_lsb\<close> is the position, width and value of the count's bits.\<close>

record slice_head =
  sl_first :: bool
  sl_sps :: nat
  sl_lsb :: "(nat \<times> nat \<times> nat) option"
  sl_rps :: rps

definition no_refs :: rps where
  "no_refs = \<lparr>rp_before = [], rp_after = []\<rparr>"

definition is_bla :: "u8 \<Rightarrow> bool" where
  "is_bla t \<longleftrightarrow> BLA_W_LP \<le> t \<and> t \<le> BLA_N_LP"

definition is_idr :: "u8 \<Rightarrow> bool" where
  "is_idr t \<longleftrightarrow> t = IDR_W_RADL \<or> t = IDR_N_LP"

text \<open>The source's \<^verbatim>\<open>%\<close> truncates towards zero (\<^verbatim>\<open>smod\<close>).\<close>

definition compute_poc :: "int \<Rightarrow> nat \<Rightarrow> nat \<Rightarrow> u8 \<Rightarrow> int" where
  "compute_poc prev_tid0 lsb0 log2 t =
     (let max = 2 ^ log2; lsb = int lsb0;
          prev_lsb = prev_tid0 smod max; prev_msb = prev_tid0 - prev_lsb;
          msb = (if lsb < prev_lsb \<and> max div 2 \<le> prev_lsb - lsb then prev_msb + max
                 else if prev_lsb < lsb \<and> max div 2 < lsb - prev_lsb then prev_msb - max
                 else prev_msb)
      in if is_bla t then lsb else msb + lsb)"

section \<open>The guard\<close>

record poc_guard =
  pg_sps :: "(nat \<times> bytes \<times> sps) option list"
  pg_pps :: "pps option list"
  pg_versions :: nat
  pg_active :: "(nat \<times> nat) option"
  pg_held :: "int list option"
  pg_prev :: int
  pg_ended :: bool
  pg_no_rasl :: bool
  pg_shift :: nat
  pg_lengths_ok :: bool

definition new_guard :: poc_guard where
  "new_guard =
     \<lparr>pg_sps = replicate 16 None, pg_pps = replicate 64 None, pg_versions = 0, pg_active = None,
      pg_held = Some [], pg_prev = 0, pg_ended = False, pg_no_rasl = False, pg_shift = 0,
      pg_lengths_ok = True\<rparr>"

definition set_sps :: "nat \<Rightarrow> bytes \<Rightarrow> sps option \<Rightarrow> poc_guard \<Rightarrow> poc_guard" where
  "set_sps i rbsp s g =
     (if s \<noteq> None \<and> (case pg_sps g ! i of None \<Rightarrow> False | Some (_, old, _) \<Rightarrow> old = rbsp) then g
      else
        (let v = pg_versions g + 1 in
         g\<lparr>pg_versions := v,
           pg_sps := (pg_sps g)[i := map_option (\<lambda>x. (v, rbsp, x)) s],
           pg_pps := map (\<lambda>p. case p of None \<Rightarrow> None
                              | Some q \<Rightarrow> if pp_sps q = i then None else Some q) (pg_pps g)\<rparr>))"

text \<open>The layer of a NAL unit, from the two bytes of its header.\<close>

definition nal_layer :: "u8 \<Rightarrow> u8 \<Rightarrow> u8" where
  "nal_layer b0 b1 = push_bit 5 (b0 AND 1) OR drop_bit 3 b1"

definition parameter_set :: "bytes \<Rightarrow> poc_guard \<Rightarrow> poc_guard" where
  "parameter_set nal g =
     (case nal of
        b0 # b1 # _ \<Rightarrow>
          if nal_layer b0 b1 \<noteq> 0 then g
          else if nal_type b0 = SPS_NUT then
            (case parse_sps (unescape nal) of
               None \<Rightarrow> g | Some (i, s) \<Rightarrow> set_sps i (unescape nal) s g)
          else if nal_type b0 = PPS_NUT then
            (case parse_pps (unescape nal) of
               None \<Rightarrow> g | Some (i, p) \<Rightarrow> g\<lparr>pg_pps := (pg_pps g)[i := Some p]\<rparr>)
          else g
      | _ \<Rightarrow> g)"

text \<open>
  The NAL units of an array of an \<^verbatim>\<open>hvcC\<close> record, \<open>n\<close> of them from \<open>pos\<close>: where they end,
  if the record holds them all. Those before a break have been taken.
\<close>

fun config_units :: "bytes \<Rightarrow> nat \<Rightarrow> nat \<Rightarrow> poc_guard \<Rightarrow> poc_guard \<times> nat option" where
  "config_units c 0 pos g = (g, Some pos)"
| "config_units c (Suc n) pos g =
     (case slice_opt c pos 2 of
        None \<Rightarrow> (g, None)
      | Some l \<Rightarrow>
          (case slice_opt c (pos + 2) (be_nat l) of
             None \<Rightarrow> (g, None)
           | Some nal \<Rightarrow> config_units c n (pos + 2 + be_nat l) (parameter_set nal g)))"

fun config_arrays :: "bytes \<Rightarrow> nat \<Rightarrow> nat \<Rightarrow> poc_guard \<Rightarrow> poc_guard" where
  "config_arrays c 0 pos g = g"
| "config_arrays c (Suc n) pos g =
     (case slice_opt c pos 3 of
        None \<Rightarrow> g
      | Some h \<Rightarrow>
          (case config_units c (be_nat [h ! 1, h ! 2]) (pos + 3) g of
             (g1, None) \<Rightarrow> g1
           | (g1, Some pos1) \<Rightarrow> config_arrays c n pos1 g1))"

definition configuration :: "bytes \<Rightarrow> poc_guard \<Rightarrow> poc_guard" where
  "configuration c g =
     (case (get_opt c 21, get_opt c 22) of
        (Some lengths, Some arrays) \<Rightarrow>
          config_arrays c (unat arrays) 23 (g\<lparr>pg_lengths_ok := (lengths AND 3 = 3)\<rparr>)
      | _ \<Rightarrow> g)"

section \<open>Slice headers\<close>

definition slice_rps :: "sps \<Rightarrow> rps reader" where
  "slice_rps s =
     (let n = length (sp_sets s) in
      then_r r_bit (\<lambda>listed.
        if listed
        then then_r (r_bits (ceil_log2 n)) (\<lambda>i. if i < n then ret (sp_sets s ! i) else fail_r)
        else st_ref_pic_set (sp_sets s) n True))"

text \<open>
  The header up to the bits of the count. Without a second part there are none to read: the
  slice segment depends on the one before, or its picture is an IDR picture.
\<close>

definition slice_start :: "bool \<Rightarrow> pps \<Rightarrow> sps \<Rightarrow> u8 \<Rightarrow> (slice_head \<times> sps option) reader" where
  "slice_start first p s t =
     (let plain = \<lparr>sl_first = first, sl_sps = pp_sps p, sl_lsb = None, sl_rps = no_refs\<rparr> in
      then_r (if \<not> first \<and> pp_dependent p then r_bit else ret False) (\<lambda>dependent.
        if dependent then ret (plain, None)
        else
          then_r (if first then ret () else skip_bits (sp_address_bits s)) (\<lambda>_.
          then_r (skip_bits (pp_extra_bits p)) (\<lambda>_.
          then_r r_ue (\<lambda>_.
          then_r (skip_bits (of_bool (pp_output p) + 2 * of_bool (sp_colour s))) (\<lambda>_.
          ret (plain, if is_idr t then None else Some s)))))))"

definition slice_head_of :: "poc_guard \<Rightarrow> u8 \<Rightarrow> (slice_head \<times> sps option) reader" where
  "slice_head_of g t =
     then_r r_bit (\<lambda>first.
     then_r (if is_irap t then skip_bits 1 else ret ()) (\<lambda>_.
     then_r r_ue (\<lambda>i.
       case (case get_opt (pg_pps g) i of None \<Rightarrow> None | Some p \<Rightarrow> p) of
         None \<Rightarrow> fail_r
       | Some p \<Rightarrow>
           (case pg_sps g ! pp_sps p of
              None \<Rightarrow> fail_r
            | Some (_, _, s) \<Rightarrow> if sp_long_term s then fail_r else slice_start first p s t))))"

text \<open>The bits of the count, with their position, and the reference picture set.\<close>

definition slice_count :: "slice_head \<Rightarrow> sps \<Rightarrow> slice_head reader" where
  "slice_count plain s =
     then_r here (\<lambda>at.
     then_r (r_bits (sp_log2 s)) (\<lambda>lsb.
     then_r (slice_rps s) (\<lambda>refs.
     ret (plain\<lparr>sl_lsb := Some (at, sp_log2 s, lsb), sl_rps := refs\<rparr>))))"

definition read_slice :: "poc_guard \<Rightarrow> u8 \<Rightarrow> slice_head reader" where
  "read_slice g t =
     then_r (slice_head_of g t) (\<lambda>(plain, more).
       case more of None \<Rightarrow> ret plain | Some s \<Rightarrow> slice_count plain s)"

definition slice_of :: "poc_guard \<Rightarrow> bytes \<Rightarrow> u8 \<Rightarrow> slice_head option" where
  "slice_of g rbsp t = map_option fst (read_slice g t rbsp 16)"

section \<open>Pictures\<close>

text \<open>The first shift that gives the picture a number not held.\<close>

definition new_shift :: "nat \<Rightarrow> u8 \<Rightarrow> slice_head \<Rightarrow> poc_guard \<Rightarrow> nat" where
  "new_shift log2 t s g =
     (case (sl_lsb s, pg_held g) of
        (Some (_, _, lsb), Some held) \<Rightarrow>
          (case find (\<lambda>d. compute_poc (pg_prev g) ((lsb + d) mod 2 ^ log2) log2 t \<notin> set held)
                  [0..<2 ^ log2] of
             None \<Rightarrow> 0 | Some d \<Rightarrow> d)
      | _ \<Rightarrow> 0)"

definition sub_layer_non_reference :: "u8 \<Rightarrow> bool" where
  "sub_layer_non_reference t \<longleftrightarrow>
     t \<in> {TRAIL_N, TSA_N, STSA_N, RADL_N, RADL_R, RASL_N, RASL_R}"

definition picture :: "u8 \<Rightarrow> nat \<Rightarrow> slice_head \<Rightarrow> bool \<Rightarrow> poc_guard \<Rightarrow> poc_guard" where
  "picture t tid s eos g =
     (case pg_sps g ! sl_sps s of
        None \<Rightarrow> g
      | Some (version, _, sps) \<Rightarrow>
          (let log2 = sp_log2 sps;
               g1 = (if is_irap t
                     then g\<lparr>pg_no_rasl := is_idr t \<or> is_bla t \<or> (t = CRA \<and> eos)\<rparr> else g)
           in if (t = RASL_N \<or> t = RASL_R) \<and> pg_no_rasl g1 then g1
              else
                (let changed = (pg_active g1 \<noteq> Some (sl_sps s, version));
                     g2 = g1\<lparr>pg_active := Some (sl_sps s, version)\<rparr>;
                     g3 = (if is_idr t \<or> changed then g2\<lparr>pg_held := Some []\<rparr> else g2);
                     g4 = (if is_idr t \<or> is_bla t \<or> eos \<or> changed
                           then g3\<lparr>pg_shift := new_shift log2 t s g3\<rparr> else g3);
                     poc = (case sl_lsb s of
                              None \<Rightarrow> 0
                            | Some (_, _, lsb) \<Rightarrow>
                                compute_poc (pg_prev g4) ((lsb + pg_shift g4) mod 2 ^ log2) log2 t);
                     g5 = (if tid = 0 \<and> \<not> sub_layer_non_reference t then g4\<lparr>pg_prev := poc\<rparr> else g4)
                 in g5\<lparr>pg_held :=
                      Some (poc # map (\<lambda>d. poc + d) (rp_before (sl_rps s) @ rp_after (sl_rps s)))\<rparr>)))"

section \<open>Coded frames\<close>

text \<open>The NAL units from \<open>pos\<close> on, each after its length, and where the last whole one ends.\<close>

function split_units :: "bytes \<Rightarrow> nat \<Rightarrow> bytes list \<times> nat" where
  "split_units payload pos =
     (case slice_opt payload pos 4 of
        None \<Rightarrow> ([], pos)
      | Some l \<Rightarrow>
          (case slice_opt payload (pos + 4) (be_nat l) of
             None \<Rightarrow> ([], pos)
           | Some nal \<Rightarrow>
               (let (units, fin) = split_units payload (pos + 4 + be_nat l) in (nal # units, fin))))"
  by pat_completeness auto
termination
  by (relation "measure (\<lambda>(payload, pos). length payload - pos)") (auto simp: slice_opt_Some)

declare split_units.simps [simp del]

text \<open>A slice with the bits of its count replaced.\<close>

definition renumbered :: "bytes \<Rightarrow> nat \<Rightarrow> nat \<Rightarrow> nat \<Rightarrow> bytes" where
  "renumbered nal at n lsb = escape (put_bits (unescape nal) at n lsb)"

definition slice_unit :: "bytes \<Rightarrow> u8 \<Rightarrow> nat \<Rightarrow> bool \<Rightarrow> poc_guard \<Rightarrow> poc_guard \<times> bytes option" where
  "slice_unit nal t tid eos g =
     (case slice_of g (unescape (take SLICE_HEADER_BYTES nal)) t of
        None \<Rightarrow> (g\<lparr>pg_held := None\<rparr>, None)
      | Some s \<Rightarrow>
          (let g1 = (if sl_first s then picture t tid s eos g else g) in
           (g1, case sl_lsb s of
                  None \<Rightarrow> None
                | Some (at, n, lsb) \<Rightarrow>
                    if pg_shift g1 \<noteq> 0
                    then Some (renumbered nal at n ((lsb + pg_shift g1) mod 2 ^ n)) else None)))"

text \<open>
  A NAL unit of a frame. The state is the guard, whether the packet comes after an end of
  sequence, and whether nothing else came before in it; the result what to write instead.
\<close>

definition coded_unit ::
  "bytes \<Rightarrow> poc_guard \<times> bool \<times> bool \<Rightarrow> (poc_guard \<times> bool \<times> bool) \<times> bytes option" where
  "coded_unit nal st =
     (case st of (g, eos, at_start) \<Rightarrow>
        (case nal of
           b0 # b1 # _ \<Rightarrow>
             (let t = nal_type b0; layer = nal_layer b0 b1 in
              if t = EOS_NUT \<or> t = EOB_NUT then
                (if at_start then (g, True, at_start) else (g\<lparr>pg_ended := True\<rparr>, eos, at_start), None)
              else if layer \<noteq> 0 \<or> 32 \<le> t then
                ((if layer = 0 then parameter_set nal g
                  else if t < 32 then g\<lparr>pg_held := None\<rparr> else g, eos, False), None)
              else if b1 AND 7 = 0 then ((g, eos, False), None)
              else (let (g1, new) = slice_unit nal t (unat (b1 AND 7) - 1) eos g
                    in ((g1, eos, False), new)))
         | _ \<Rightarrow> (st, None)))"

fun coded_units ::
  "bytes list \<Rightarrow> poc_guard \<times> bool \<times> bool \<Rightarrow> (poc_guard \<times> bool \<times> bool) \<times> bytes option list" where
  "coded_units [] st = (st, [])"
| "coded_units (nal # nals) st =
     (let (st1, new) = coded_unit nal st; (st2, news) = coded_units nals st1 in (st2, new # news))"

definition joined :: "bytes list \<Rightarrow> bytes" where
  "joined nals = concat (map (\<lambda>nal. put_be 4 (length nal) @ nal) nals)"

definition written_units :: "bytes list \<Rightarrow> bytes option list \<Rightarrow> bytes list" where
  "written_units nals news = map (\<lambda>(nal, new). case new of None \<Rightarrow> nal | Some n \<Rightarrow> n) (zip nals news)"

definition coded :: "bytes \<Rightarrow> nat \<Rightarrow> poc_guard \<Rightarrow> bytes option \<times> poc_guard" where
  "coded payload offset g =
     (if \<not> pg_lengths_ok g then (None, g)
      else
        (let (nals, pos) = split_units payload offset;
             ((g1, _, _), news) = coded_units nals (g\<lparr>pg_ended := False\<rparr>, pg_ended g, True)
         in if \<forall>new \<in> set news. new = None then (None, g1)
            else (Some (take offset payload @ joined (written_units nals news) @ drop pos payload), g1)))"

text \<open>\<^verbatim>\<open>video\<close>: what is written instead, and the guard.\<close>

definition guard_video :: "poc_guard \<Rightarrow> bytes \<Rightarrow> bytes option \<times> poc_guard" where
  "guard_video g payload =
     (case inspect_video payload of
        None \<Rightarrow> (None, g)
      | Some info \<Rightarrow>
          if vi_codec info \<noteq> Hevc \<or> vi_multitrack info then (None, g)
          else
            (case vi_config_offset info of
               Some start \<Rightarrow>
                 (None, if start \<le> length payload then configuration (drop start payload) g else g)
             | None \<Rightarrow>
                 (case vi_nal_offset info of
                    None \<Rightarrow> (None, g) | Some start \<Rightarrow> coded payload start g)))"

end
