(* ===== verification/Poc_Promises.thy ===== *)
theory Poc_Promises
  imports Poc
begin

text \<open>
  What the picture numbering promises: escaping is undone and hides start codes; the count is
  FFmpeg's; a sequence never starts on a number the decoder holds, as long as one is free; a
  renumbered slice reads as the same slice with its count moved; a renumbered frame has the
  same NAL units otherwise; and the guard never looks beyond its tables.
\<close>

section \<open>Escaping\<close>

text \<open>
  Escaping an RBSP is undone by unescaping, but for a 3 added behind one zero at the end,
  which whole zero words never have; and what is escaped holds no start code: no two zeros are
  followed by a byte below 3, and the last byte is not zero.
\<close>

theorem escape_is_undone:
  "unescape (escape rbsp) = rbsp @ (if zeros_left 0 rbsp = 1 then [3] else []) \<and>
   (\<forall>i. i + 2 < length (escape rbsp) \<longrightarrow>
      \<not> (escape rbsp ! i = 0 \<and> escape rbsp ! (i + 1) = 0 \<and> escape rbsp ! (i + 2) < 3)) \<and>
   last_opt (escape rbsp) \<noteq> Some 0"
proof -
  have "no_start_code 0 (escape rbsp)"
    using no_start_code_escape [of 0 rbsp True] no_start_code_escape [of 0 rbsp False]
    by (simp add: escape_def Let_def)
  moreover have "last_opt (escape rbsp) \<noteq> Some 0"
    by (auto simp: escape_def Let_def last_opt_def)
  ultimately show ?thesis using unescape_escape no_start_code_nth by blast
qed

section \<open>Counts\<close>

lemma truncated: "prev - prev smod m = prev sdiv m * m" for prev m :: int
  using sdiv_mult_smod_eq [of prev m] by simp

lemma compute_poc_mod:
  assumes "lsb < 2 ^ log2"
  shows "compute_poc prev lsb log2 t mod 2 ^ log2 = int lsb"
proof -
  let ?m = "2 ^ log2 :: int" and ?q = "prev sdiv 2 ^ log2"
  have f: "?q * ?m + ?m = (?q + 1) * ?m" "?q * ?m - ?m = (?q - 1) * ?m"
    by (simp_all only: distrib_right left_diff_distrib mult_1_left)
  have three: "\<exists>k. (if A then ?q * ?m + ?m else if B then ?q * ?m - ?m else ?q * ?m) + int lsb = int lsb + k * ?m" for A B
    unfolding f by (cases A; cases B; simp only: if_True if_False) (metis add.commute)+
  have "\<exists>k. compute_poc prev lsb log2 t = int lsb + k * ?m"
  proof (cases "is_bla t")
    case True
    then show ?thesis by (intro exI [of _ 0]) (simp add: compute_poc_def)
  next
    case False
    then show ?thesis unfolding compute_poc_def Let_def truncated by (simp only: if_False three)
  qed
  then obtain k where "compute_poc prev lsb log2 t = int lsb + k * ?m" ..
  moreover have "int lsb < ?m" using assms by (metis of_nat_less_iff of_nat_numeral of_nat_power)
  ultimately show ?thesis by simp
qed

text \<open>
  The count of a picture has the bits the slice gives, and lies within half a range of the
  count before it, so that it is the only one: FFmpeg's \<^verbatim>\<open>ff_hevc_compute_poc\<close> agrees
  with the standard's choice wherever the count before it is not negative.
\<close>

theorem poc_is_nearest:
  assumes "lsb < 2 ^ log2" and "0 < log2" and "0 \<le> prev" and "\<not> is_bla t"
  shows "compute_poc prev lsb log2 t mod 2 ^ log2 = int lsb \<and>
    prev - 2 ^ (log2 - 1) < compute_poc prev lsb log2 t \<and>
    compute_poc prev lsb log2 t \<le> prev + 2 ^ (log2 - 1)"
proof -
  let ?m = "2 ^ log2 :: int" and ?h = "2 ^ (log2 - 1) :: int" and ?l = "prev smod 2 ^ log2"
  have m: "?m = 2 * ?h" using assms(2) by (cases log2) simp_all
  have l: "0 \<le> ?l" "?l < ?m" using smod_int_compares(1,2) [of prev ?m] assms(3) by simp_all
  have h: "?m div 2 = ?h" using m by simp
  have lsb: "int lsb < ?m" using assms(1) by (metis of_nat_less_iff of_nat_numeral of_nat_power)
  let ?p = "compute_poc prev lsb log2 t"
  have "?p = prev - ?l + int lsb + (if int lsb < ?l \<and> ?h \<le> ?l - int lsb then ?m
      else if ?l < int lsb \<and> ?h < int lsb - ?l then - ?m else 0)"
    using assms(4) by (simp add: compute_poc_def Let_def h)
  then have "prev - ?h < ?p \<and> ?p \<le> prev + ?h" using l lsb m by (auto split: if_splits)
  with compute_poc_mod [OF assms(1), of prev t] show ?thesis by blast
qed

section \<open>A new sequence\<close>

text \<open>Shifts below the range give different counts.\<close>

lemma shifts_differ:
  "inj_on (\<lambda>d. compute_poc prev ((lsb + d) mod 2 ^ log2) log2 t) {0..<2 ^ log2}"
proof (rule inj_onI)
  fix d e :: nat
  assume range: "d \<in> {0..<2 ^ log2}" "e \<in> {0..<2 ^ log2}"
    and eq: "compute_poc prev ((lsb + d) mod 2 ^ log2) log2 t = compute_poc prev ((lsb + e) mod 2 ^ log2) log2 t"
  have "int ((lsb + d) mod 2 ^ log2) = int ((lsb + e) mod 2 ^ log2)"
  proof -
    have "int ((lsb + d) mod 2 ^ log2) = compute_poc prev ((lsb + d) mod 2 ^ log2) log2 t mod 2 ^ log2"
      by (rule compute_poc_mod [symmetric]) simp
    also have "\<dots> = compute_poc prev ((lsb + e) mod 2 ^ log2) log2 t mod 2 ^ log2" by (simp only: eq)
    also have "\<dots> = int ((lsb + e) mod 2 ^ log2)" by (rule compute_poc_mod) simp
    finally show ?thesis .
  qed
  then have "int (lsb + d) mod 2 ^ log2 = int (lsb + e) mod 2 ^ log2"
    by (simp only: of_nat_mod of_nat_power of_nat_numeral)
  then have "(int (lsb + d) - int lsb) mod 2 ^ log2 = (int (lsb + e) - int lsb) mod 2 ^ log2"
    by (rule mod_diff_cong) (rule refl)
  then have "int (d mod 2 ^ log2) = int (e mod 2 ^ log2)"
    by (simp add: of_nat_mod)
  with range show "d = e" by simp
qed

lemma free_shift:
  assumes "length held < 2 ^ log2"
  shows "\<exists>d < 2 ^ log2. compute_poc prev ((lsb + d) mod 2 ^ log2) log2 t \<notin> set held"
proof (rule ccontr)
  let ?f = "\<lambda>d. compute_poc prev ((lsb + d) mod 2 ^ log2) log2 t"
  assume "\<not> ?thesis"
  then have "?f ` {0..<2 ^ log2} \<subseteq> set held" by auto
  then have "card (?f ` {0..<2 ^ log2}) \<le> card (set held)" by (intro card_mono) simp_all
  then have "2 ^ log2 \<le> length held"
    using card_length [of held] by (simp add: card_image [OF shifts_differ])
  with assms show False by simp
qed

lemma new_shift_free:
  assumes "sl_lsb s = Some (at, n, lsb)" and "pg_held g = Some held" and "length held < 2 ^ log2"
  shows "compute_poc (pg_prev g) ((lsb + new_shift log2 t s g) mod 2 ^ log2) log2 t \<notin> set held"
proof -
  let ?P = "\<lambda>d. compute_poc (pg_prev g) ((lsb + d) mod 2 ^ log2) log2 t \<notin> set held"
  obtain d where "find ?P [0..<2 ^ log2] = Some d"
    using free_shift [OF assms(3), of "pg_prev g" lsb t]
    by (cases "find ?P [0..<2 ^ log2]") (auto simp: find_None_iff)
  moreover from this have "?P d" by (auto dest: find_Some_in)
  ultimately show ?thesis using assms by (simp add: new_shift_def)
qed

text \<open>
  C25. A picture that starts a new sequence never gets a number the decoder still holds, unless
  the decoder holds as many as there are: whether it is a BLA picture, one after an end of
  sequence, or one with other parameters (which, as an IDR picture does, clears what was
  held). Afterwards exactly the picture and those it keeps for reference are held.
\<close>

theorem new_sequence_repeats_nothing:
  assumes sps: "pg_sps g ! sl_sps s = Some (v, rbsp, sps)" and lsb: "sl_lsb s = Some (at, n, lsb)"
    and held: "pg_held g = Some held" and free: "length held < 2 ^ sp_log2 sps"
    and starts: "is_bla t \<or> eos \<or> pg_active g \<noteq> Some (sl_sps s, v)"
    and decoded: "t \<noteq> RASL_N" "t \<noteq> RASL_R"
  shows "\<exists>poc. poc \<notin> set (if is_idr t \<or> pg_active g \<noteq> Some (sl_sps s, v) then [] else held) \<and>
    poc = compute_poc (pg_prev g) ((lsb + pg_shift (picture t tid s eos g)) mod 2 ^ sp_log2 sps)
            (sp_log2 sps) t \<and>
    pg_held (picture t tid s eos g) =
      Some (poc # map (\<lambda>d. poc + d) (rp_before (sl_rps s) @ rp_after (sl_rps s)))"
proof -
  let ?clear = "is_idr t \<or> pg_active g \<noteq> Some (sl_sps s, v)"
  let ?g1 = "if is_irap t then g\<lparr>pg_no_rasl := is_idr t \<or> is_bla t \<or> (t = CRA \<and> eos)\<rparr> else g"
  let ?g2 = "?g1\<lparr>pg_active := Some (sl_sps s, v)\<rparr>"
  let ?g3 = "if ?clear then ?g2\<lparr>pg_held := Some []\<rparr> else ?g2"
  let ?shift = "new_shift (sp_log2 sps) t s ?g3"
  let ?held = "if ?clear then [] else held"
  let ?poc = "compute_poc (pg_prev g) ((lsb + ?shift) mod 2 ^ sp_log2 sps) (sp_log2 sps) t"
  have g1: "pg_active ?g1 = pg_active g" "pg_held ?g1 = pg_held g" "pg_prev ?g1 = pg_prev g" by simp_all
  then have "pg_held ?g3 = Some ?held" "pg_prev ?g3 = pg_prev g" using held by simp_all
  moreover have "length ?held < 2 ^ sp_log2 sps" using free by simp
  ultimately have "?poc \<notin> set ?held" using new_shift_free [OF lsb, of ?g3 ?held] by metis
  moreover have "pg_shift (picture t tid s eos g) = ?shift"
    "pg_held (picture t tid s eos g) =
      Some (?poc # map (\<lambda>d. ?poc + d) (rp_before (sl_rps s) @ rp_after (sl_rps s)))"
    using sps lsb starts decoded g1 by (auto simp: picture_def Let_def)
  ultimately show ?thesis by metis
qed

section \<open>The guard's tables\<close>

text \<open>
  The tables have their sizes, a picture parameter set names a sequence parameter set there is
  room for, and the counts of one have 4 to 16 bits: what the parsers check, so that no lookup
  is out of range and no shift too wide.
\<close>

definition sps_ok :: "sps \<Rightarrow> bool" where
  "sps_ok s \<longleftrightarrow> 4 \<le> sp_log2 s \<and> sp_log2 s \<le> 16"

definition guard_ok :: "poc_guard \<Rightarrow> bool" where
  "guard_ok g \<longleftrightarrow>
     length (pg_sps g) = 16 \<and> length (pg_pps g) = 64 \<and>
     (\<forall>v r s. Some (v, r, s) \<in> set (pg_sps g) \<longrightarrow> sps_ok s) \<and>
     (\<forall>p. Some p \<in> set (pg_pps g) \<longrightarrow> pp_sps p < 16)"

text \<open>What a reader gives, whatever it reads, satisfies \<open>P\<close>.\<close>

definition yields :: "('a \<Rightarrow> bool) \<Rightarrow> 'a reader \<Rightarrow> bool" where
  "yields P r \<longleftrightarrow> (\<forall>b pos x pos'. r b pos = Some (x, pos') \<longrightarrow> P x)"

named_theorems yields_intros

lemma yieldsD: "yields P r \<Longrightarrow> r b pos = Some (x, pos') \<Longrightarrow> P x"
  unfolding yields_def by blast

lemma yields_ret [yields_intros]: "P x \<Longrightarrow> yields P (ret x)"
  by (simp add: yields_def ret_def)

lemma yields_fail [yields_intros]: "yields P fail_r"
  by (simp add: yields_def fail_r_def)

lemma yields_then [yields_intros]: "(\<And>x. yields P (f x)) \<Longrightarrow> yields P (then_r r f)"
  by (auto simp: yields_def then_r_def split: option.splits)

lemma yields_if [yields_intros]: "(Q \<Longrightarrow> yields P r) \<Longrightarrow> (\<not> Q \<Longrightarrow> yields P s) \<Longrightarrow> yields P (if Q then r else s)"
  by simp

lemma yields_let [yields_intros]: "yields P (f x) \<Longrightarrow> yields P (let y = x in f y)"
  by simp

lemma sps_rest_ok: "yields sps_ok (sps_rest sub_layers)"
  unfolding sps_rest_def sps_blocks_def sps_tail_def
  by (intro yields_intros) (simp_all add: sps_ok_def)

lemma sps_id_ok: "yields (\<lambda>(i, _). i < 16) sps_id"
  unfolding sps_id_def by (intro yields_intros) simp_all

lemma read_pps_ok: "yields (\<lambda>(i, p). i < 64 \<and> pp_sps p < 16) read_pps"
  unfolding read_pps_def by (intro yields_intros) simp_all

lemma parse_sps_ok: "parse_sps rbsp = Some (i, s) \<Longrightarrow> i < 16 \<and> (\<forall>x. s = Some x \<longrightarrow> sps_ok x)"
  by (auto simp: parse_sps_def split: option.splits prod.splits
      dest: yieldsD [OF sps_id_ok] yieldsD [OF sps_rest_ok])

lemma parse_pps_ok: "parse_pps rbsp = Some (i, p) \<Longrightarrow> i < 64 \<and> pp_sps p < 16"
  by (auto simp: parse_pps_def dest: yieldsD [OF read_pps_ok])

lemma new_guard_ok: "guard_ok new_guard"
  by (simp add: guard_ok_def new_guard_def)

lemma guard_ok_tables:
  "length S = 16 \<Longrightarrow> length P = 64 \<Longrightarrow> (\<And>v r s. Some (v, r, s) \<in> set S \<Longrightarrow> sps_ok s) \<Longrightarrow>
   (\<And>p. Some p \<in> set P \<Longrightarrow> pp_sps p < 16) \<Longrightarrow>
   guard_ok (g\<lparr>pg_versions := w, pg_sps := S, pg_pps := P\<rparr>)"
  by (simp add: guard_ok_def)

lemma set_sps_ok:
  assumes "guard_ok g" and "i < 16" and "\<And>x. s = Some x \<Longrightarrow> sps_ok x"
  shows "guard_ok (set_sps i rbsp s g)"
proof -
  let ?S = "\<lambda>w. (pg_sps g)[i := map_option (\<lambda>x. (w, rbsp, x)) s]"
  let ?P = "map (\<lambda>p. case p of None \<Rightarrow> None
      | Some q \<Rightarrow> if pp_sps q = i then None else Some q) (pg_pps g)"
  have "guard_ok (g\<lparr>pg_versions := w, pg_sps := ?S w, pg_pps := ?P\<rparr>)" for w
  proof (rule guard_ok_tables)
    show "length (?S w) = 16" "length ?P = 64" using assms(1) by (simp_all add: guard_ok_def)
    show "sps_ok x" if "Some (v, r, x) \<in> set (?S w)" for v r x
    proof -
      have "Some (v, r, x) \<in> set (pg_sps g) \<or> s = Some x"
        using that set_update_subset_insert [of "pg_sps g" i "map_option (\<lambda>x. (w, rbsp, x)) s"]
        by (cases s) auto
      with assms(1,3) show ?thesis by (auto simp: guard_ok_def)
    qed
    show "pp_sps p < 16" if "Some p \<in> set ?P" for p
    proof -
      have "Some p \<in> set (pg_pps g)" using that by (auto split: option.splits if_splits)
      with assms(1) show ?thesis by (simp add: guard_ok_def)
    qed
  qed
  with assms(1) show ?thesis by (simp only: set_sps_def Let_def split: if_split) simp
qed

lemma parameter_set_ok: "guard_ok g \<Longrightarrow> guard_ok (parameter_set nal g)"
proof -
  assume ok: "guard_ok g"
  have pps: "guard_ok (g\<lparr>pg_pps := (pg_pps g)[i := Some p]\<rparr>)" if "pp_sps p < 16" for i p
    using ok that set_update_subset_insert [of "pg_pps g" i "Some p"] by (auto simp: guard_ok_def)
  show ?thesis
    using ok by (auto simp: parameter_set_def split: list.split option.split
        dest!: parse_sps_ok parse_pps_ok intro: set_sps_ok pps)
qed

lemma configuration_ok: "guard_ok g \<Longrightarrow> guard_ok (configuration c g)"
proof -
  have units: "guard_ok h \<Longrightarrow> guard_ok (fst (config_units c n pos h))" for c n pos h
    by (induction c n pos h rule: config_units.induct)
      (auto simp: parameter_set_ok split: option.split)
  have arrays: "guard_ok h \<Longrightarrow> guard_ok (config_arrays c n pos h)" for n pos h
  proof (induction c n pos h rule: config_arrays.induct)
    case (2 c n pos h)
    show ?case
    proof (cases "slice_opt c pos 3")
      case (Some x)
      obtain g1 r where u: "config_units c (be_nat [x ! 1, x ! 2]) (pos + 3) h = (g1, r)"
        by (rule prod.exhaust)
      have "guard_ok (fst (g1, r))" using u units [OF 2(2)] by metis
      then have "guard_ok g1" by simp
      with 2 Some u show ?thesis by (cases r) simp_all
    qed (use 2 in simp)
  qed simp
  show "guard_ok g \<Longrightarrow> ?thesis"
    by (auto simp: configuration_def guard_ok_def intro!: arrays [unfolded guard_ok_def] split: option.split)
qed

lemma picture_ok: "guard_ok g \<Longrightarrow> guard_ok (picture t tid s eos g)"
proof -
  have "pg_sps (picture t tid s eos g) = pg_sps g \<and> pg_pps (picture t tid s eos g) = pg_pps g"
    by (auto simp: picture_def Let_def split: option.split)
  then show "guard_ok g \<Longrightarrow> ?thesis" by (simp add: guard_ok_def)
qed

lemma slice_unit_ok: "guard_ok g \<Longrightarrow> guard_ok (fst (slice_unit nal t tid eos g))"
proof -
  assume ok: "guard_ok g"
  then have "guard_ok (g\<lparr>pg_held := None\<rparr>)" by (simp add: guard_ok_def)
  with ok picture_ok [OF ok] show ?thesis
    by (auto simp: slice_unit_def Let_def split: option.split)
qed

lemma coded_unit_ok: "guard_ok g \<Longrightarrow> guard_ok (fst (fst (coded_unit nal (g, eos, start))))"
proof -
  assume ok: "guard_ok g"
  then have "guard_ok (g\<lparr>pg_held := None\<rparr>)" "guard_ok (g\<lparr>pg_ended := True\<rparr>)" by (simp_all add: guard_ok_def)
  then show ?thesis
    using ok parameter_set_ok [OF ok] slice_unit_ok [OF ok]
    by (auto simp: coded_unit_def Let_def split: list.split prod.split) (metis fst_conv)+
qed

lemma coded_units_ok: "guard_ok (fst st) \<Longrightarrow> guard_ok (fst (fst (coded_units nals st)))"
proof (induction nals st rule: coded_units.induct)
  case (2 nal nals st)
  obtain st1 new where 1: "coded_unit nal st = (st1, new)" by (rule prod.exhaust)
  obtain g eos start where st: "st = (g, eos, start)" by (rule prod_cases3)
  have "guard_ok (fst st1)" using coded_unit_ok [of g nal eos start] 1 2(2) st by simp
  with 2(1) [OF 1 [symmetric] refl] 1 show ?case by (auto split: prod.split)
qed simp

text \<open>
  Whatever video messages go through it, the guard's tables keep their form: what is
  looked up in them is always there, and a count has between 4 and 16 bits.
\<close>

theorem guard_stays_ok:
  assumes "guard_ok g"
  shows "guard_ok (snd (guard_video g payload))"
proof -
  have "guard_ok (g\<lparr>pg_ended := b\<rparr>)" for b using assms by (simp add: guard_ok_def)
  then have "guard_ok (snd (coded payload start g))" for start
    using assms coded_units_ok [of "(g\<lparr>pg_ended := False\<rparr>, pg_ended g, True)" "fst (split_units payload start)"]
    by (auto simp: coded_def Let_def split: prod.split)
  with assms configuration_ok [OF assms] show ?thesis
    by (auto simp: guard_video_def split: option.split)
qed

section \<open>A slice renumbered\<close>

lemma local_kept [local_intros]: "local_reader (kept_flags n)"
  by (induction n) (auto intro!: local_intros)

lemma local_diffs [local_intros]: "local_reader (read_diffs n sign prev)"
  by (induction n arbitrary: prev) (auto intro!: local_intros)

lemma local_sets [local_intros]: "local_reader (st_ref_pic_set sets idx in_slice)"
  unfolding st_ref_pic_set_def read_predicted_def read_explicit_def Let_def
  by (intro local_intros)

lemma local_slice_rps [local_intros]: "local_reader (slice_rps s)"
  unfolding slice_rps_def Let_def by (intro local_intros)

lemma local_slice_start [local_intros]: "local_reader (slice_start first p s t)"
  unfolding slice_start_def Let_def by (intro local_intros)

lemma local_slice_head [local_intros]: "local_reader (slice_head_of g t)"
  unfolding slice_head_of_def
  by (intro local_intros) (auto intro!: local_intros split: option.split)

lemma bit_at_append: "p < 8 * length xs \<Longrightarrow> bit_at (xs @ ys) p = bit_at xs p"
  by (simp add: bit_at_def nth_append less_mult_imp_div_less mult.commute)

lemma slice_count_Some:
  assumes "slice_of g rbsp t = Some s" and "sl_lsb s = Some (at, n, lsb)"
  obtains plain sps refs pos where "slice_head_of g t rbsp 16 = Some ((plain, Some sps), at)"
    and "n = sp_log2 sps" and "r_bits n rbsp at = Some (lsb, at + n)"
    and "slice_rps sps rbsp (at + n) = Some (refs, pos)"
    and "s = plain\<lparr>sl_lsb := Some (at, n, lsb), sl_rps := refs\<rparr>"
proof -
  note found = that
  from assms(1) obtain pos where r: "read_slice g t rbsp 16 = Some (s, pos)"
    by (auto simp: slice_of_def)
  then obtain plain more pos1 where h: "slice_head_of g t rbsp 16 = Some ((plain, more), pos1)"
    and m: "(case more of None \<Rightarrow> ret plain | Some x \<Rightarrow> slice_count plain x) rbsp pos1 = Some (s, pos)"
    by (auto simp: read_slice_def then_r_def split: option.splits prod.splits)
  have none: "sl_lsb plain = None"
  proof -
    have start: "yields (\<lambda>(plain, _). sl_lsb plain = None) (slice_start first p x t)" for first p x
      unfolding slice_start_def Let_def by (intro yields_intros) simp_all
    have "yields (\<lambda>(plain, _). sl_lsb plain = None) (slice_head_of g t)"
      unfolding slice_head_of_def
      by (intro yields_intros) (auto intro!: yields_intros start split: option.split)
    from yieldsD [OF this h] show ?thesis by simp
  qed
  show thesis
  proof (cases more)
    case None
    with m none assms(2) show thesis by (simp add: ret_def)
  next
    case (Some x)
    with m obtain lsb1 pos2 refs where c: "r_bits (sp_log2 x) rbsp pos1 = Some (lsb1, pos2)"
      "slice_rps x rbsp pos2 = Some (refs, pos)"
      "s = plain\<lparr>sl_lsb := Some (pos1, sp_log2 x, lsb1), sl_rps := refs\<rparr>"
      by (auto simp: slice_count_def then_r_def here_def ret_def split: option.splits)
    with assms(2) have "at = pos1" "n = sp_log2 x" "lsb = lsb1" by simp_all
    with c h Some r_bits_Some [OF c(1)] show thesis by (intro found [of plain x refs pos]) simp_all
  qed
qed

text \<open>The count in the bytes from 16 on is read there, so it lies within them.\<close>

lemma slice_of_count:
  assumes "slice_head_of g t rbsp 16 = Some ((plain, Some sps), at)" and "n = sp_log2 sps"
    and "r_bits n rbsp at = Some (lsb, at + n)" and "slice_rps sps rbsp (at + n) = Some (refs, pos)"
  shows "slice_of g rbsp t = Some (plain\<lparr>sl_lsb := Some (at, n, lsb), sl_rps := refs\<rparr>)"
  using assms by (simp add: slice_of_def read_slice_def slice_count_def then_r_def here_def ret_def)

lemma head_prefix: "\<exists>more. unescape nal = unescape (take k nal) @ more"
  using unescape_prefix [of 0 "take k nal" "drop k nal"] by (simp add: unescape_def)

text \<open>The parameter set a slice is read with is one of the guard's.\<close>

lemma slice_sps_ok:
  assumes ok: "guard_ok g" and head: "slice_head_of g t h 16 = Some ((plain, Some sps), at)"
  shows "sps_ok sps"
proof -
  have start: "yields (\<lambda>(_, more). \<forall>y. more = Some y \<longrightarrow> sps_ok y) (slice_start first p x t)"
    if "sps_ok x" for first p x
    unfolding slice_start_def Let_def by (intro yields_intros) (use that in simp_all)
  have "sps_ok x" if "get_opt (pg_pps g) i = Some (Some p)" "pg_sps g ! pp_sps p = Some (v, r, x)" for i p v r x
  proof -
    have "Some p \<in> set (pg_pps g)" using that(1) by (metis get_opt_Some nth_mem)
    then have "pp_sps p < 16" using ok by (simp add: guard_ok_def)
    then have "Some (v, r, x) \<in> set (pg_sps g)" using ok that(2) by (metis guard_ok_def nth_mem)
    with ok show ?thesis by (auto simp: guard_ok_def)
  qed
  then have "yields (\<lambda>(_, more). \<forall>y. more = Some y \<longrightarrow> sps_ok y) (slice_head_of g t)"
    unfolding slice_head_of_def
    by (intro yields_intros) (auto intro!: yields_intros start split: option.splits)
  from yieldsD [OF this head] show ?thesis by simp
qed

lemma slice_count_range:
  assumes ok: "guard_ok g" and read: "slice_of g h t = Some s" and count: "sl_lsb s = Some (at, n, lsb)"
  shows "at + n \<le> 8 * length h"
proof -
  obtain plain sps refs pos where parts: "slice_head_of g t h 16 = Some ((plain, Some sps), at)"
    "n = sp_log2 sps" "r_bits n h at = Some (lsb, at + n)"
    using slice_count_Some [OF read count] by metis
  have "0 < n" using slice_sps_ok [OF ok parts(1)] parts(2) by (simp add: sps_ok_def)
  with r_bits_Some [OF parts(3)] show ?thesis by blast
qed

lemma renumbered_header:
  assumes ok: "guard_ok g" and read: "slice_of g (unescape (take SLICE_HEADER_BYTES nal)) t = Some s"
    and count: "sl_lsb s = Some (at, n, lsb)" and new: "new < 2 ^ n"
  shows "slice_of g (unescape (renumbered nal at n new)) t = Some (s\<lparr>sl_lsb := Some (at, n, new)\<rparr>)"
proof -
  let ?h = "unescape (take SLICE_HEADER_BYTES nal)"
  obtain plain sps refs pos where parts: "slice_head_of g t ?h 16 = Some ((plain, Some sps), at)"
    "n = sp_log2 sps" "r_bits n ?h at = Some (lsb, at + n)" "slice_rps sps ?h (at + n) = Some (refs, pos)"
    "s = plain\<lparr>sl_lsb := Some (at, n, lsb), sl_rps := refs\<rparr>"
    using slice_count_Some [OF read count] by metis
  have sps: "sps_ok sps" using slice_sps_ok [OF ok parts(1)] .
  then have n: "0 < n" "n \<le> 32" using parts(2) by (simp_all add: sps_ok_def)
  obtain more where all: "unescape nal = ?h @ more" using head_prefix by blast
  let ?b = "put_bits (?h @ more) at n new"
  have range: "at + n \<le> 8 * length ?h" using r_bits_Some [OF parts(3)] n(1) by blast
  then have range2: "at + n \<le> 8 * length (?h @ more)" by simp
  obtain extra where out: "unescape (renumbered nal at n new) = ?b @ extra"
    using unescape_escape by (auto simp: renumbered_def all)
  have len: "length ?b = length (?h @ more)" using put_bits_bit(1) [OF range2] .
  have bits: "bit_at (?b @ extra) p =
      (if at \<le> p \<and> p < at + n then bit new (n - 1 - (p - at)) else bit_at ?h p)" if "p < 8 * length ?h" for p
  proof -
    have "bit_at (?b @ extra) p = bit_at ?b p" using that len by (intro bit_at_append) simp
    also have "\<dots> = (if at \<le> p \<and> p < at + n then bit new (n - 1 - (p - at)) else bit_at (?h @ more) p)"
      using put_bits_bit(2) [OF range2] .
    finally show ?thesis using that by (simp add: bit_at_append)
  qed
  have start: "16 \<le> at" using local_readerD(1) [OF local_slice_head parts(1)] .
  have same1: "same_bits ?h (?b @ extra) 16 at"
    using bits range len by (auto simp: same_bits_def)
  have fin: "pos \<le> 8 * length ?h" using local_readerD(3) [OF local_slice_rps parts(4)] range by blast
  then have same2: "same_bits ?h (?b @ extra) (at + n) pos"
    using bits len by (auto simp: same_bits_def)
  have "bit_at (?b @ extra) (at + i) = bit new (n - 1 - i)" if "i < n" for i
    using bits [of "at + i"] that range by simp
  moreover have "new < 2 ^ 32"
    using new n(2) by (meson less_le_trans one_le_numeral power_increasing)
  ultimately have "r_bits n (?b @ extra) at = Some (new, at + n)"
    using bits_from_reads [of n "?b @ extra" at new 0] range len new by (simp add: r_bits_def)
  with local_readerD(2) [OF local_slice_head parts(1) same1] parts(2)
    local_readerD(2) [OF local_slice_rps parts(4) same2]
  have "slice_of g (?b @ extra) t = Some (plain\<lparr>sl_lsb := Some (at, n, new), sl_rps := refs\<rparr>)"
    by (intro slice_of_count)
  then show ?thesis unfolding out parts(5) by simp
qed

text \<open>Every byte, and of those of the count every bit outside it.\<close>

lemma renumbered_payload:
  assumes range: "at + n \<le> 8 * length (unescape nal)"
  shows "\<exists>b. length b = length (unescape nal) \<and>
    unescape (renumbered nal at n new) = b @ (if zeros_left 0 b = 1 then [3] else []) \<and>
    (\<forall>p. bit_at b p = (if at \<le> p \<and> p < at + n then bit new (n - 1 - (p - at)) else bit_at (unescape nal) p))"
  using put_bits_bit [OF range] unescape_escape by (intro exI [of _ "put_bits (unescape nal) at n new"])
    (simp add: renumbered_def)

text \<open>
  C26. What is written for a slice renumbered is the same slice with the count's bits changed to
  those meant and nothing else: its header, read from the bytes written, is the one that was read
  from the first 512 bytes received, the references included, with that count; and the whole of
  what is written, its emulation prevention undone, has the length of what was received and in
  every position outside the count's bits the same bit (at most followed by a byte 3, where it
  ends in a single zero and emulation prevention protects the end).
\<close>

theorem renumbered_slice_reads_back:
  assumes ok: "guard_ok g" and read: "slice_of g (unescape (take SLICE_HEADER_BYTES nal)) t = Some s"
    and count: "sl_lsb s = Some (at, n, lsb)" and new: "new < 2 ^ n"
  shows "slice_of g (unescape (renumbered nal at n new)) t = Some (s\<lparr>sl_lsb := Some (at, n, new)\<rparr>) \<and>
    (\<exists>b. length b = length (unescape nal) \<and>
       unescape (renumbered nal at n new) = b @ (if zeros_left 0 b = 1 then [3] else []) \<and>
       (\<forall>p. bit_at b p =
          (if at \<le> p \<and> p < at + n then bit new (n - 1 - (p - at)) else bit_at (unescape nal) p)))"
proof -
  have range: "at + n \<le> 8 * length (unescape nal)"
    using slice_count_range [OF ok read count] head_prefix [of nal SLICE_HEADER_BYTES] by auto
  from renumbered_header [OF assms] renumbered_payload [OF range] show ?thesis by blast
qed

section \<open>A frame renumbered\<close>

lemma split_units_joined:
  assumes "\<And>nal. nal \<in> set nals \<Longrightarrow> length nal < 2 ^ 32"
    and rest: "split_units (front @ joined nals @ rest) (length front + length (joined nals)) =
      ([], length front + length (joined nals))"
  shows "split_units (front @ joined nals @ rest) (length front) = (nals, length front + length (joined nals))"
  using assms
proof (induction nals arbitrary: front)
  case Nil
  then show ?case by (simp add: joined_def)
next
  case (Cons nal nals)
  let ?p = "put_be 4 (length nal)"
  have be: "be_nat ?p = length nal" using Cons.prems(1) [of nal] by (simp add: be_nat_put_be)
  have eq: "front @ joined (nal # nals) @ rest = (front @ ?p @ nal) @ joined nals @ rest"
    by (simp add: joined_def)
  have "split_units ((front @ ?p @ nal) @ joined nals @ rest) (length (front @ ?p @ nal)) =
      (nals, length (front @ ?p @ nal) + length (joined nals))"
  proof (rule Cons.IH)
    show "length x < 2 ^ 32" if "x \<in> set nals" for x using Cons.prems(1) that by simp
    show "split_units ((front @ ?p @ nal) @ joined nals @ rest) (length (front @ ?p @ nal) + length (joined nals)) =
        ([], length (front @ ?p @ nal) + length (joined nals))"
      using Cons.prems(2) by (simp add: joined_def add.assoc)
  qed
  moreover have "slice_opt (front @ joined (nal # nals) @ rest) (length front) 4 = Some ?p"
    "slice_opt (front @ joined (nal # nals) @ rest) (length front + 4) (length nal) = Some nal"
    by (simp_all add: slice_opt_def joined_def)
  ultimately show ?case
    by (subst split_units.simps) (simp add: be eq [symmetric] joined_def add.assoc)
qed

lemma split_units_end: "split_units payload pos = (nals, fin) \<Longrightarrow> split_units payload fin = ([], fin)"
proof (induction payload pos arbitrary: nals rule: split_units.induct)
  case (1 payload pos)
  show ?case
  proof (cases "slice_opt payload pos 4")
    case None
    with 1(2) show ?thesis by (simp add: split_units.simps [of payload])
  next
    case (Some l)
    show ?thesis
    proof (cases "slice_opt payload (pos + 4) (be_nat l)")
      case None
      with 1(2) Some show ?thesis by (simp add: split_units.simps [of payload])
    next
      case (Some nal)
      with \<open>slice_opt payload pos 4 = Some l\<close> 1(2) obtain units where
        "split_units payload (pos + 4 + be_nat l) = (units, fin)"
        by (auto simp: split_units.simps [of payload pos] split: prod.splits)
      with 1(1) Some \<open>slice_opt payload pos 4 = Some l\<close> show ?thesis by blast
    qed
  qed
qed

lemma split_units_fin: "split_units payload pos = (nals, fin) \<Longrightarrow> pos \<le> length payload \<Longrightarrow> fin \<le> length payload"
proof (induction payload pos arbitrary: nals rule: split_units.induct)
  case (1 payload pos)
  then show ?case
    by (subst (asm) (2) split_units.simps)
      (auto simp: slice_opt_Some split: option.splits prod.splits)
qed

text \<open>The tail that holds no whole NAL unit holds none wherever it stands.\<close>

lemma tail_alone:
  assumes "split_units payload fin = ([], fin)" and "fin \<le> length payload"
  shows "split_units (front @ drop fin payload) (length front) = ([], length front)"
proof -
  have same: "slice_opt (front @ drop fin payload) (length front + k) n = slice_opt payload (fin + k) n" for k n
    using assms(2) by (auto simp: slice_opt_def add.commute)
  from assms(1) have "slice_opt payload fin 4 = None \<or>
      (\<exists>l. slice_opt payload fin 4 = Some l \<and> slice_opt payload (fin + 4) (be_nat l) = None)"
    by (subst (asm) split_units.simps) (auto split: option.splits prod.splits)
  with same [of 0 4] same [of 4] show ?thesis
    by (subst split_units.simps) (auto split: option.split)
qed

lemma coded_units_length: "length (snd (coded_units nals st)) = length nals"
  by (induction nals st rule: coded_units.induct) (auto split: prod.split)

text \<open>
  A frame renumbered is the same frame otherwise: it has as many NAL units as before, in
  the same order, each either as it was or written anew, and whatever precedes and follows
  them is unchanged; so the lengths written agree with what follows them.
\<close>

theorem renumbered_frame_keeps_units:
  assumes out: "coded payload start g = (Some written, g')" and start: "start \<le> length payload"
    and units: "split_units payload start = (nals, fin)"
    and news: "coded_units nals (g\<lparr>pg_ended := False\<rparr>, pg_ended g, True) = (st, news)"
    and short: "\<And>nal. nal \<in> set (written_units nals news) \<Longrightarrow> length nal < 2 ^ 32"
  shows "length news = length nals \<and> take start written = take start payload \<and>
    (\<exists>fin'. split_units written start = (written_units nals news, fin') \<and>
       drop fin' written = drop fin payload)"
proof -
  let ?nals = "written_units nals news" and ?front = "take start payload"
  have len: "length news = length nals" using coded_units_length [of nals] news by (metis snd_conv)
  have w: "written = ?front @ joined ?nals @ drop fin payload"
    using out units news by (auto simp: coded_def Let_def split: if_splits prod.splits)
  have fin: "fin \<le> length payload" using split_units_fin [OF units start] .
  have "split_units ((?front @ joined ?nals) @ drop fin payload) (length (?front @ joined ?nals)) =
      ([], length (?front @ joined ?nals))"
    using tail_alone [OF split_units_end [OF units] fin] .
  then have "split_units written (length ?front) = (?nals, length ?front + length (joined ?nals))"
    unfolding w by (intro split_units_joined short) simp_all
  moreover have "length ?front = start" using start by simp
  ultimately have "split_units written start = (?nals, start + length (joined ?nals))" by simp
  moreover have "drop (start + length (joined ?nals)) written = drop fin payload"
    using start by (simp add: w)
  moreover have "take start written = take start payload" using start by (simp add: w)
  ultimately show ?thesis using len by blast
qed

end
