(* ===== verification/Poc_Examples.thy ===== *)
theory Poc_Examples
  imports Poc_Promises
begin

text \<open>
  Concrete guards and slices: four bits of count, one reference picture set, a slice of a
  trailing picture with count 5, and sequences moved by 3.
\<close>

definition demo_sps :: sps where
  "demo_sps = \<lparr>sp_log2 = 4, sp_colour = False, sp_address_bits = 0,
     sp_sets = [\<lparr>rp_before = [-1], rp_after = []\<rparr>], sp_long_term = False\<rparr>"

definition demo_pps :: pps where
  "demo_pps = \<lparr>pp_sps = 0, pp_dependent = False, pp_output = False, pp_extra_bits = 0\<rparr>"

definition demo_guard :: poc_guard where
  "demo_guard = new_guard\<lparr>pg_sps := (replicate 16 None)[0 := Some (1, [], demo_sps)],
     pg_pps := (replicate 64 None)[0 := Some demo_pps], pg_active := Some (0, 1),
     pg_held := Some [4, 3], pg_prev := 4, pg_shift := 3\<rparr>"

definition demo_slice :: bytes where
  "demo_slice = [2, 1, 0xEB, 0x80]"

definition demo_head :: slice_head where
  "demo_head = \<lparr>sl_first = True, sl_sps = 0, sl_lsb = Some (19, 4, 5),
     sl_rps = \<lparr>rp_before = [-1], rp_after = []\<rparr>\<rparr>"

lemma demo_guard_ok: "guard_ok demo_guard"
proof -
  have "sps_ok demo_sps" "pp_sps demo_pps < 16" by (simp_all add: sps_ok_def demo_sps_def demo_pps_def)
  then show ?thesis
    using set_update_subset_insert [of "replicate 16 None" 0 "Some (1 :: nat, [] :: bytes, demo_sps)"]
      set_update_subset_insert [of "replicate 64 None" 0 "Some demo_pps"]
    by (auto simp: guard_ok_def demo_guard_def)
qed

lemma bits_from_numeral [simp]:
  "bits_from (numeral k) v = then_r r_bit (\<lambda>x. bits_from (pred_numeral k) (2 * v + of_bool x))"
  by (simp add: numeral_eq_Suc)

lemma nal_types [simp]:
  "\<not> is_irap 1" "\<not> is_bla 1" "\<not> is_idr 1" "is_bla 16" "\<not> is_idr 16" "is_irap 16"
  by code_simp+

lemma demo_unescaped [simp]:
  "unescape demo_slice = demo_slice" "unescape (take SLICE_HEADER_BYTES demo_slice) = demo_slice"
  by (simp_all add: unescape_def demo_slice_def SLICE_HEADER_BYTES_def)

lemma demo_guard_fields [simp]:
  "pg_sps demo_guard = (replicate 16 None)[0 := Some (1, [], demo_sps)]"
  "pg_pps demo_guard = (replicate 64 None)[0 := Some demo_pps]" "pg_active demo_guard = Some (0, 1)"
  "pg_held demo_guard = Some [4, 3]" "pg_prev demo_guard = 4" "pg_shift demo_guard = 3"
  "pg_ended demo_guard = False" "pg_lengths_ok demo_guard"
  by (simp_all add: demo_guard_def new_guard_def)

lemma demo_slice_read: "slice_of g demo_slice 1 = Some demo_head"
  if "pg_sps g = pg_sps demo_guard" "pg_pps g = pg_pps demo_guard"
  using that
  by (simp add: slice_of_def read_slice_def slice_head_of_def slice_start_def slice_count_def
      slice_rps_def here_def then_r_def ret_def r_ue_def ue_from.simps r_bits_def r_bit_def bit_at_def
      demo_slice_def demo_head_def demo_sps_def demo_pps_def skip_bits_def get_opt_def ceil_log2_def)

lemma demo_read: "slice_of demo_guard (unescape (take SLICE_HEADER_BYTES demo_slice)) 1 = Some demo_head"
  by (simp only: demo_unescaped) (rule demo_slice_read, simp_all)

lemma demo_renumbered: "renumbered demo_slice 19 4 8 = [2, 1, 0xF1, 0x80]"
proof -
  have "put_bits demo_slice 19 4 8 = [2, 1, 0xF1, 0x80]"
    by (simp add: put_bits_def put_bit_def upt_rec demo_slice_def bit_Suc_0_iff)
  then show ?thesis by (simp add: renumbered_def escape_def last_opt_def)
qed

lemma escape_is_undone_witness:
  "escape [1, 0, 0, 0, 0] = [1, 0, 0, 3, 0, 0, 3] \<and> unescape [1, 0, 0, 3, 0, 0, 3] = [1, 0, 0, 0, 0]"
proof -
  have e: "escape [1, 0, 0, 0, 0] = [1, 0, 0, 3, 0, 0, 3]" by (simp add: escape_def last_opt_def)
  from escape_is_undone [of "[1, 0, 0, 0, 0]"] show ?thesis unfolding e by simp
qed

lemma poc_is_nearest_witness:
  "compute_poc 14 3 4 (1 :: u8) mod 16 = 3 \<and> 6 < compute_poc 14 3 4 (1 :: u8) \<and>
   compute_poc 14 3 4 (1 :: u8) \<le> 22"
  using poc_is_nearest [OF _ _ _ nal_types(2), of 3 4 14] by simp

text \<open>A BLA picture whose count, 4, is held: it is numbered 5.\<close>

lemma new_sequence_repeats_nothing_witness:
  "\<exists>poc. pg_held (picture 16 0 (demo_head\<lparr>sl_lsb := Some (19, 4, 4)\<rparr>) False demo_guard) =
      Some [poc, poc - 1] \<and> poc \<notin> {4, 3}"
proof -
  have sps: "pg_sps demo_guard ! sl_sps (demo_head\<lparr>sl_lsb := Some (19, 4, 4)\<rparr>) = Some (1, [], demo_sps)"
    by (simp add: demo_head_def)
  from new_sequence_repeats_nothing [OF sps, of 19 4 4 "[4, 3]" 16 False 0]
  show ?thesis by (auto simp: demo_head_def demo_sps_def RASL_N_def RASL_R_def)
qed

lemma guard_stays_ok_witness: "guard_ok (snd (guard_video new_guard [0x1C, 0]))"
  using guard_stays_ok [OF new_guard_ok] .

lemma renumbered_slice_reads_back_witness:
  "slice_of demo_guard (unescape (renumbered demo_slice 19 4 8)) 1 =
     Some (demo_head\<lparr>sl_lsb := Some (19, 4, 8)\<rparr>) \<and>
   slice_of demo_guard (unescape (take SLICE_HEADER_BYTES demo_slice)) 1 = Some demo_head \<and>
   length (unescape (renumbered demo_slice 19 4 8)) \<in> {4, 5}"
proof -
  have "length (unescape demo_slice) = 4" by (simp add: demo_slice_def unescape_def)
  with renumbered_slice_reads_back [OF demo_guard_ok demo_read, of 19 4 5 8] demo_read show ?thesis
    by (auto simp: demo_head_def)
qed

text \<open>A frame of that slice between other bytes.\<close>

definition demo_frame :: bytes where
  "demo_frame = 9 # put_be 4 4 @ demo_slice @ [7]"

lemma demo_units: "split_units demo_frame 1 = ([demo_slice], 9)"
proof -
  have p: "put_be 4 4 = [0, 0, 0, 4]" by code_simp
  have frame: "demo_frame = [9, 0, 0, 0, 4, 2, 1, 0xEB, 0x80, 7]"
    unfolding demo_frame_def p demo_slice_def by simp
  have be: "be_nat [0, 0, 0, 4] = 4" by (simp add: be_nat_def)
  have s: "slice_opt demo_frame (Suc 0) 4 = Some [0, 0, 0, 4]" "slice_opt demo_frame 5 4 = Some demo_slice"
    "slice_opt demo_frame 9 4 = None"
    by (simp_all add: frame slice_opt_def demo_slice_def)
  have "split_units demo_frame 9 = ([], 9)" by (subst split_units.simps) (simp add: s)
  then show ?thesis by (subst split_units.simps) (simp add: s be)
qed

lemma demo_news:
  "\<exists>st. coded_units [demo_slice] (demo_guard\<lparr>pg_ended := False\<rparr>, pg_ended demo_guard, True) =
     (st, [Some (renumbered demo_slice 19 4 8)])"
proof -
  let ?g = "demo_guard\<lparr>pg_ended := False\<rparr>"
  have shift: "pg_shift (picture 1 0 demo_head False ?g) = 3"
    by (simp add: picture_def demo_head_def RASL_N_def RASL_R_def Let_def)
  have "slice_of ?g demo_slice 1 = Some demo_head" by (rule demo_slice_read) simp_all
  then have "snd (slice_unit demo_slice 1 0 False ?g) = Some (renumbered demo_slice 19 4 8)"
    using shift by (simp add: slice_unit_def Let_def demo_head_def)
  moreover have "nal_type 2 = 1" "nal_layer 2 1 = 0" "(1 :: u8) AND 7 = 1" "\<not> (32 :: u8) \<le> 1"
    by (simp_all add: nal_type_def nal_layer_def word_le_nat_alt)
  ultimately have "snd (coded_unit demo_slice (?g, False, True)) = Some (renumbered demo_slice 19 4 8)"
    by (subst (1) demo_slice_def) (simp add: coded_unit_def EOS_NUT_def EOB_NUT_def Let_def demo_slice_def case_prod_unfold)
  then show ?thesis by (simp add: case_prod_unfold) (metis prod_cases3)
qed

lemma renumbered_frame_keeps_units_witness:
  "\<exists>written g'. coded demo_frame 1 demo_guard = (Some written, g') \<and>
     take 1 written = take 1 demo_frame \<and>
     (\<exists>fin. split_units written 1 = ([[2, 1, 0xF1, 0x80]], fin) \<and> drop fin written = drop 9 demo_frame)"
proof -
  obtain st where n: "coded_units [demo_slice] (demo_guard\<lparr>pg_ended := False\<rparr>, pg_ended demo_guard, True) =
      (st, [Some (renumbered demo_slice 19 4 8)])"
    using demo_news by blast
  obtain written g' where c: "coded demo_frame 1 demo_guard = (Some written, g')"
    using demo_units n by (cases st) (auto simp: coded_def Let_def)
  have "1 \<le> length demo_frame" by (simp add: demo_frame_def)
  from renumbered_frame_keeps_units [OF c this demo_units n] c show ?thesis
    by (simp add: written_units_def demo_renumbered)
qed

end
