(* ===== verification/Ingest_Slots.thy ===== *)
theory Ingest_Slots
  imports Prelude
begin

text \<open>
  Places for encoder connections (\<^verbatim>\<open>Conns\<close>, \<^verbatim>\<open>ConnSlot\<close> and \<^verbatim>\<open>addr_key\<close> of
  \<^verbatim>\<open>crates/relay/src/ingest.rs\<close>): how many there may be, and which is closed to make room for
  a new one. The flags a connection shares with its entry are kept in the entry; once the
  entry is gone nothing reads them. The lock of the list makes each operation one step.
\<close>

section \<open>Addresses\<close>

datatype ip_addr = V4 u8 u8 u8 u8 | V6 u16 u16 u16 u16 u16 u16 u16 u16

text \<open>\<^verbatim>\<open>IpAddr::to_canonical\<close>: an IPv4 address mapped into IPv6 is the IPv4 address.\<close>

fun to_canonical :: "ip_addr \<Rightarrow> ip_addr" where
  "to_canonical (V4 a b c d) = V4 a b c d"
| "to_canonical (V6 a b c d e f g h) =
     (if a = 0 \<and> b = 0 \<and> c = 0 \<and> d = 0 \<and> e = 0 \<and> f = 0xFFFF
      then V4 (ucast (drop_bit 8 g)) (ucast g) (ucast (drop_bit 8 h)) (ucast h)
      else V6 a b c d e f g h)"

fun is_loopback :: "ip_addr \<Rightarrow> bool" where
  "is_loopback (V4 a b c d) \<longleftrightarrow> a = 127"
| "is_loopback (V6 a b c d e f g h) \<longleftrightarrow>
     a = 0 \<and> b = 0 \<and> c = 0 \<and> d = 0 \<and> e = 0 \<and> f = 0 \<and> g = 0 \<and> h = 1"

definition addr_key :: "ip_addr \<Rightarrow> ip_addr" where
  "addr_key ip =
     (case to_canonical ip of
        V6 a b c d _ _ _ _ \<Rightarrow> V6 a b c d 0 0 0 0
      | v4 \<Rightarrow> v4)"

text \<open>What a connection is counted by; local programs are not counted.\<close>

definition counted_by :: "ip_addr \<Rightarrow> ip_addr option" where
  "counted_by peer =
     (let ip = to_canonical peer in if is_loopback ip then None else Some (addr_key ip))"

section \<open>Slots\<close>

definition MAX_CONNECTIONS :: nat where "MAX_CONNECTIONS = 16"
definition MAX_CONNECTIONS_PER_IP :: nat where "MAX_CONNECTIONS_PER_IP = 4"

record conn_entry =
  ce_id :: nat
  ce_addr :: "ip_addr option"
  ce_publishing :: bool
  ce_refused :: bool

text \<open>\<^verbatim>\<open>position\<close> and \<^verbatim>\<open>remove\<close>: the first that \<open>P\<close> holds of, and the others.\<close>

fun take_out :: "('a \<Rightarrow> bool) \<Rightarrow> 'a list \<Rightarrow> ('a \<times> 'a list) option" where
  "take_out P [] = None"
| "take_out P (x # xs) =
     (if P x then Some (x, xs)
      else (case take_out P xs of None \<Rightarrow> None | Some (y, ys) \<Rightarrow> Some (y, x # ys)))"

definition close_oldest_idle ::
  "(conn_entry \<Rightarrow> bool) \<Rightarrow> conn_entry list \<Rightarrow> (conn_entry \<times> conn_entry list) option" where
  "close_oldest_idle among v =
     (let idle = (\<lambda>e. among e \<and> \<not> ce_publishing e)
      in case take_out (\<lambda>e. idle e \<and> ce_refused e) v of
           None \<Rightarrow> take_out idle v
         | found \<Rightarrow> found)"

text \<open>
  The result: the connections told to close, the list, and whether the new one got a place.
\<close>

definition admit ::
  "nat \<Rightarrow> ip_addr option \<Rightarrow> conn_entry list \<Rightarrow> conn_entry list \<times> conn_entry list \<times> bool" where
  "admit i addr v =
     (let push = (\<lambda>v. v @ [\<lparr>ce_id = i, ce_addr = addr, ce_publishing = False, ce_refused = False\<rparr>]);
          room = (\<lambda>closed v.
            if MAX_CONNECTIONS \<le> length v
            then (case close_oldest_idle (\<lambda>_. True) v of
                    None \<Rightarrow> (closed, v, False)
                  | Some (old, v) \<Rightarrow> (closed @ [old], push v, True))
            else (closed, push v, True))
      in if addr \<noteq> None \<and>
            MAX_CONNECTIONS_PER_IP \<le> length (filter (\<lambda>e. ce_addr e = addr) v)
         then (case close_oldest_idle (\<lambda>e. ce_addr e = addr) v of
                 None \<Rightarrow> ([], v, False)
               | Some (old, v) \<Rightarrow> room [old] v)
         else room [] v)"

definition leave :: "nat \<Rightarrow> conn_entry list \<Rightarrow> conn_entry list" where
  "leave i v = filter (\<lambda>e. ce_id e \<noteq> i) v"

text \<open>The flags of connection \<open>i\<close>, while it has a place.\<close>

definition set_publishing :: "nat \<Rightarrow> bool \<Rightarrow> conn_entry list \<Rightarrow> conn_entry list" where
  "set_publishing i b v = map (\<lambda>e. if ce_id e = i then e\<lparr>ce_publishing := b\<rparr> else e) v"

definition set_refused :: "nat \<Rightarrow> conn_entry list \<Rightarrow> conn_entry list" where
  "set_refused i v = map (\<lambda>e. if ce_id e = i then e\<lparr>ce_refused := True\<rparr> else e) v"

section \<open>What making room does\<close>

lemma take_out_None [simp]: "take_out P xs = None \<longleftrightarrow> (\<forall>x \<in> set xs. \<not> P x)"
  by (induction xs) (auto split: option.splits)

lemma take_out_Some:
  "take_out P xs = Some (y, ys) \<Longrightarrow>
     \<exists>before after. xs = before @ y # after \<and> ys = before @ after \<and> P y \<and> (\<forall>x \<in> set before. \<not> P x)"
proof (induction xs arbitrary: ys)
  case (Cons x xs)
  show ?case
  proof (cases "P x")
    case True
    with Cons.prems have "x # xs = [] @ y # ys \<and> ys = [] @ ys \<and> P y" by simp
    then show ?thesis by fastforce
  next
    case False
    then obtain zs where "take_out P xs = Some (y, zs)" "ys = x # zs"
      using Cons.prems by (auto split: option.splits)
    with Cons.IH False obtain before after where
      "xs = before @ y # after" "zs = before @ after" "P y" "\<forall>x \<in> set before. \<not> P x" by blast
    with False \<open>ys = x # zs\<close> have "x # xs = (x # before) @ y # after \<and> ys = (x # before) @ after \<and>
        P y \<and> (\<forall>z \<in> set (x # before). \<not> P z)" by simp
    then show ?thesis by blast
  qed
qed simp

text \<open>
  The one closed was idle and the oldest of its kind: refused ones go before the others.
\<close>

lemma close_oldest_idle_Some:
  assumes "close_oldest_idle among v = Some (old, v')"
  shows "\<exists>before after. v = before @ old # after \<and> v' = before @ after \<and> among old \<and>
    \<not> ce_publishing old \<and>
    (\<forall>e \<in> set v. among e \<and> \<not> ce_publishing e \<and> ce_refused e \<longrightarrow> ce_refused old) \<and>
    (\<forall>e \<in> set before. among e \<and> \<not> ce_publishing e \<longrightarrow> ce_refused old \<and> \<not> ce_refused e)"
proof (cases "take_out (\<lambda>e. (among e \<and> \<not> ce_publishing e) \<and> ce_refused e) v")
  case None
  with assms have "take_out (\<lambda>e. among e \<and> \<not> ce_publishing e) v = Some (old, v')"
    unfolding close_oldest_idle_def Let_def by (simp only: option.case)
  from take_out_Some [OF this] None show ?thesis by auto
next
  case (Some r)
  with assms have "take_out (\<lambda>e. (among e \<and> \<not> ce_publishing e) \<and> ce_refused e) v = Some (old, v')"
    unfolding close_oldest_idle_def Let_def by (simp only: option.case)
  from take_out_Some [OF this] show ?thesis by auto
qed

lemma close_oldest_idle_None:
  "close_oldest_idle among v = None \<longleftrightarrow> (\<forall>e \<in> set v. among e \<longrightarrow> ce_publishing e)"
proof (cases "take_out (\<lambda>e. (among e \<and> \<not> ce_publishing e) \<and> ce_refused e) v")
  case None
  then have "close_oldest_idle among v = take_out (\<lambda>e. among e \<and> \<not> ce_publishing e) v"
    unfolding close_oldest_idle_def Let_def by (simp only: option.case)
  then show ?thesis by auto
next
  case (Some r)
  obtain e w where "r = (e, w)" by (cases r)
  with Some take_out_Some [of _ v e w] show ?thesis
    by (fastforce simp: close_oldest_idle_def Let_def)
qed

section \<open>The limits\<close>

definition slots_ok :: "conn_entry list \<Rightarrow> bool" where
  "slots_ok v \<longleftrightarrow> length v \<le> MAX_CONNECTIONS \<and> distinct (map ce_id v) \<and>
     (\<forall>a. length (filter (\<lambda>e. ce_addr e = Some a) v) \<le> MAX_CONNECTIONS_PER_IP)"

lemma slots_ok_sub:
  assumes "slots_ok (before @ e # after)"
  shows "slots_ok (before @ after)"
proof -
  have "length (filter (\<lambda>e. ce_addr e = Some a) (before @ after)) \<le> MAX_CONNECTIONS_PER_IP" for a
    using assms unfolding slots_ok_def by (elim conjE allE [of _ a]) (auto split: if_splits)
  with assms show ?thesis by (auto simp: slots_ok_def)
qed

lemma slots_ok_map:
  assumes "\<And>e. ce_id (f e) = ce_id e \<and> ce_addr (f e) = ce_addr e"
  shows "slots_ok (map f v) = slots_ok v"
proof -
  have "distinct (map ce_id (map f v)) = distinct (map ce_id v)" using assms by (simp add: comp_def)
  moreover have "length (filter (\<lambda>e. ce_addr e = Some a) (map f v)) =
      length (filter (\<lambda>e. ce_addr e = Some a) v)" for a
    using assms by (simp add: filter_map comp_def)
  ultimately show ?thesis unfolding slots_ok_def length_map by simp
qed

lemma slots_ok_leave:
  assumes "slots_ok v"
  shows "slots_ok (leave i v)"
proof -
  have "length (filter (\<lambda>e. ce_addr e = Some a) (leave i v)) \<le> MAX_CONNECTIONS_PER_IP" for a
  proof -
    have "length (filter (\<lambda>e. ce_addr e = Some a) (leave i v)) =
        length (filter (\<lambda>e. ce_id e \<noteq> i) (filter (\<lambda>e. ce_addr e = Some a) v))"
      by (simp add: leave_def filter_filter conj_commute)
    also have "\<dots> \<le> length (filter (\<lambda>e. ce_addr e = Some a) v)" by (rule length_filter_le)
    finally show ?thesis using assms unfolding slots_ok_def by (meson le_trans)
  qed
  with assms show ?thesis
    unfolding slots_ok_def leave_def by (meson distinct_map_filter le_trans length_filter_le)
qed

lemma slots_ok_push:
  assumes "slots_ok v" and "length v < MAX_CONNECTIONS" and "ce_id e \<notin> ce_id ` set v"
    and "ce_addr e \<noteq> None \<Longrightarrow> length (filter (\<lambda>x. ce_addr x = ce_addr e) v) < MAX_CONNECTIONS_PER_IP"
  shows "slots_ok (v @ [e])"
  using assms by (auto simp: slots_ok_def)

text \<open>One connection fewer leaves room: for its address, and among all.\<close>

lemma admit_cases:
  assumes ok: "slots_ok v" and adm: "admit i addr v = (closed, v', taken)"
  defines "new \<equiv> \<lparr>ce_id = i, ce_addr = addr, ce_publishing = False, ce_refused = False\<rparr>"
    and "here \<equiv> \<lambda>e. ce_addr e = addr"
  defines "crowded \<equiv> addr \<noteq> None \<and> MAX_CONNECTIONS_PER_IP \<le> length (filter here v)"
  defines "among \<equiv> if crowded then here else (\<lambda>_. True)"
  shows "if crowded \<or> length v = MAX_CONNECTIONS
    then (case close_oldest_idle among v of
            None \<Rightarrow> closed = [] \<and> v' = v \<and> \<not> taken
          | Some (old, w) \<Rightarrow> closed = [old] \<and> v' = w @ [new] \<and> taken)
    else closed = [] \<and> v' = v @ [new] \<and> taken"
proof -
  have full: "MAX_CONNECTIONS \<le> length v \<longleftrightarrow> length v = MAX_CONNECTIONS"
    using ok by (auto simp: slots_ok_def)
  show ?thesis
  proof (cases crowded)
    case True
    show ?thesis
    proof (cases "close_oldest_idle here v")
      case None
      with adm True show ?thesis
        by (simp add: admit_def Let_def crowded_def among_def here_def)
    next
      case (Some r)
      obtain old w where r: "r = (old, w)" by (cases r)
      from close_oldest_idle_Some [OF Some [unfolded r]] obtain b a where
        "v = b @ old # a" "w = b @ a" by blast
      with ok have "length w < MAX_CONNECTIONS" by (simp add: slots_ok_def)
      with adm True Some r show ?thesis
        by (simp add: admit_def Let_def crowded_def among_def here_def new_def)
    qed
  next
    case False
    with adm full show ?thesis
      by (auto simp: admit_def Let_def crowded_def among_def here_def new_def
          split: option.splits if_splits prod.splits)
  qed
qed

lemma admit_room:
  assumes ok: "slots_ok v" and fresh: "i \<notin> ce_id ` set v"
    and adm: "admit i addr v = (closed, v', taken)"
  defines "here \<equiv> \<lambda>e. ce_addr e = addr"
  defines "crowded \<equiv> addr \<noteq> None \<and> MAX_CONNECTIONS_PER_IP \<le> length (filter here v)"
  shows "slots_ok v' \<and> length closed \<le> 1 \<and>
    (taken \<longleftrightarrow>
       (if crowded then \<exists>e \<in> set v. here e \<and> \<not> ce_publishing e
        else length v < MAX_CONNECTIONS \<or> (\<exists>e \<in> set v. \<not> ce_publishing e))) \<and>
    set v' = (set v - set closed) \<union>
      (if taken then {\<lparr>ce_id = i, ce_addr = addr, ce_publishing = False, ce_refused = False\<rparr>} else {}) \<and>
    (\<forall>old \<in> set closed. old \<in> set v \<and> \<not> ce_publishing old \<and> (crowded \<longrightarrow> here old) \<and>
       ((\<exists>e \<in> set v. \<not> ce_publishing e \<and> ce_refused e \<and> (crowded \<longrightarrow> here e)) \<longrightarrow> ce_refused old))"
proof -
  define new where "new = \<lparr>ce_id = i, ce_addr = addr, ce_publishing = False, ce_refused = False\<rparr>"
  define among where "among = (if crowded then here else (\<lambda>_. True))"
  note c = admit_cases [OF ok adm, folded here_def, folded crowded_def, folded among_def new_def]
  have new [simp]: "ce_id new = i" "ce_addr new = addr" by (simp_all add: new_def)
  have among: "among e \<longleftrightarrow> (crowded \<longrightarrow> here e)" for e by (simp add: among_def)
  show ?thesis
  proof (cases "crowded \<or> length v = MAX_CONNECTIONS")
    case False
    have "slots_ok (v @ [new])"
      by (rule slots_ok_push) (use ok fresh False in \<open>auto simp: crowded_def here_def slots_ok_def\<close>)
    moreover have "length v < MAX_CONNECTIONS" using ok False by (simp add: slots_ok_def)
    ultimately show ?thesis using c False by (simp add: new_def)
  next
    case True
    show ?thesis
    proof (cases "close_oldest_idle among v")
      case None
      with c True have "closed = []" "v' = v" "\<not> taken" by simp_all
      moreover from None have "\<And>e. e \<in> set v \<Longrightarrow> among e \<Longrightarrow> ce_publishing e"
        by (simp add: close_oldest_idle_None)
      ultimately show ?thesis using ok True among by auto
    next
      case (Some r)
      obtain old w where r: "r = (old, w)" by (cases r)
      with c True Some have res: "closed = [old]" "v' = w @ [new]" taken by simp_all
      from close_oldest_idle_Some [OF Some [unfolded r]] obtain b a where
        v: "v = b @ old # a" "w = b @ a" and old: "among old" "\<not> ce_publishing old"
        and ref: "\<forall>e \<in> set v. among e \<and> \<not> ce_publishing e \<and> ce_refused e \<longrightarrow> ce_refused old" by blast
      have dist: "distinct (map ce_id v)" using ok by (simp add: slots_ok_def)
      then have w: "set w = set v - {old}" using v by auto
      have count: "length (filter here v) \<le> MAX_CONNECTIONS_PER_IP" if "addr \<noteq> None"
        using ok that unfolding slots_ok_def here_def by auto
      have "length (filter (\<lambda>x. ce_addr x = ce_addr new) w) < MAX_CONNECTIONS_PER_IP"
        if "ce_addr new \<noteq> None"
      proof (cases crowded)
        case True
        with old have "here old" by (simp add: among)
        with count that v show ?thesis by (simp add: here_def)
      next
        case False
        with that have "length (filter here v) < MAX_CONNECTIONS_PER_IP" by (simp add: crowded_def)
        with v show ?thesis by (auto simp: here_def split: if_splits)
      qed
      moreover have "length w < MAX_CONNECTIONS" using ok v by (simp add: slots_ok_def)
      moreover have "ce_id new \<notin> ce_id ` set w" using fresh w by auto
      ultimately have "slots_ok v'"
        using slots_ok_push [of w new] slots_ok_sub [of b old a] ok v res by simp
      moreover have "old \<in> set v" using v by simp
      ultimately show ?thesis using res w old ref True by (auto simp: among new_def)
    qed
  qed
qed

text \<open>
  An encoder always gets in, and a stream on air is never cut off for another: a new
  connection finds a place unless every place it could have (those of its address when that
  has used its four, otherwise all sixteen) is taken by a connection that publishes. At most one
  is closed for it, one that does not publish, of the same address when that is what is full,
  and the oldest of the refused ones if there are any. The limits hold afterwards.
\<close>

theorem newcomer_gets_in:
  assumes ok: "slots_ok v" and fresh: "i \<notin> ce_id ` set v"
    and adm: "admit i addr v = (closed, v', taken)"
  defines "here \<equiv> \<lambda>e. ce_addr e = addr"
  defines "crowded \<equiv> addr \<noteq> None \<and> MAX_CONNECTIONS_PER_IP \<le> length (filter here v)"
  shows "slots_ok v' \<and> length closed \<le> 1 \<and>
    (taken \<longleftrightarrow>
       (if crowded then \<exists>e \<in> set v. here e \<and> \<not> ce_publishing e
        else length v < MAX_CONNECTIONS \<or> (\<exists>e \<in> set v. \<not> ce_publishing e))) \<and>
    set v' = (set v - set closed) \<union>
      (if taken then {\<lparr>ce_id = i, ce_addr = addr, ce_publishing = False, ce_refused = False\<rparr>} else {}) \<and>
    (\<forall>old \<in> set closed. old \<in> set v \<and> \<not> ce_publishing old \<and> (crowded \<longrightarrow> here old) \<and>
       ((\<exists>e \<in> set v. \<not> ce_publishing e \<and> ce_refused e \<and> (crowded \<longrightarrow> here e)) \<longrightarrow> ce_refused old))"
  unfolding here_def crowded_def by (rule admit_room [OF ok fresh adm])

text \<open>Three idle connections and a refused one of an address make room for a fifth.\<close>

theorem newcomer_gets_in_witness:
  "admit 5 (Some (V4 10 0 0 1))
     (map (\<lambda>n. \<lparr>ce_id = n, ce_addr = Some (V4 10 0 0 1), ce_publishing = False, ce_refused = (n = 3)\<rparr>)
        [1, 2, 3, 4]) =
   ([\<lparr>ce_id = 3, ce_addr = Some (V4 10 0 0 1), ce_publishing = False, ce_refused = True\<rparr>],
    map (\<lambda>n. \<lparr>ce_id = n, ce_addr = Some (V4 10 0 0 1), ce_publishing = False, ce_refused = False\<rparr>)
      [1, 2, 4, 5], True) \<and>
   slots_ok (map (\<lambda>n. \<lparr>ce_id = n, ce_addr = Some (V4 10 0 0 1), ce_publishing = False, ce_refused = False\<rparr>)
      [1, 2, 4, 5])"
  (is "?adm = ?r \<and> slots_ok ?v'")
proof -
  let ?v = "map (\<lambda>n. \<lparr>ce_id = n, ce_addr = Some (V4 10 0 0 1), ce_publishing = False, ce_refused = (n = 3)\<rparr>)
        [1, 2, 3, 4 :: nat]"
  have adm: "?adm = ?r"
    by (simp add: admit_def close_oldest_idle_def MAX_CONNECTIONS_def MAX_CONNECTIONS_PER_IP_def)
  have ok: "slots_ok ?v" by (simp add: slots_ok_def MAX_CONNECTIONS_def MAX_CONNECTIONS_PER_IP_def)
  from newcomer_gets_in [OF ok _ adm] have "slots_ok ?v'" by simp
  with adm show ?thesis by blast
qed

end
