(* ===== verification/Ingest_Keys.thy ===== *)
theory Ingest_Keys
  imports Ingest_Slots Engine_Types "HOL-Library.AList"
begin

text \<open>
  Wrong stream keys (\<^verbatim>\<open>BadKeys\<close> of \<^verbatim>\<open>crates/relay/src/ingest.rs\<close>): how long each waits for
  its answer, so that an address gets only a few quick tries. The map of addresses is an
  association list with distinct keys; its order, which a hash map leaves open, only decides
  which of several equally old addresses is forgotten when there are too many.
\<close>

section \<open>The log\<close>

definition REJECT_DELAY :: nat where "REJECT_DELAY = 1 * SEC"
definition SLOW_REJECT_DELAY :: nat where "SLOW_REJECT_DELAY = 10 * SEC"
definition ATTACK_REJECT_DELAY :: nat where "ATTACK_REJECT_DELAY = 30 * SEC"
definition MAX_BAD_KEYS :: nat where "MAX_BAD_KEYS = 5"
definition BAD_KEY_COOLDOWN :: nat where "BAD_KEY_COOLDOWN = 60 * SEC"
definition MAX_BAD_KEYS_OVERALL :: nat where "MAX_BAD_KEYS_OVERALL = 20"
definition BAD_KEY_WINDOW :: nat where "BAD_KEY_WINDOW = 60 * SEC"
definition ATTACK_COOLDOWN :: nat where "ATTACK_COOLDOWN = 600 * SEC"
definition MAX_TRACKED_ADDRESSES :: nat where "MAX_TRACKED_ADDRESSES = 4096"

record bad_key_log =
  bk_per_addr :: "(ip_addr \<times> nat \<times> nat) list"
  bk_recent :: "nat list"

definition new_key_log :: bad_key_log where
  "new_key_log = \<lparr>bk_per_addr = [], bk_recent = []\<rparr>"

definition under_attack :: "nat \<Rightarrow> bad_key_log \<Rightarrow> bool \<times> bad_key_log" where
  "under_attack now l =
     (let recent = dropWhile (\<lambda>t. BAD_KEY_WINDOW \<le> now - t) (bk_recent l)
      in (MAX_BAD_KEYS_OVERALL \<le> length recent, l\<lparr>bk_recent := recent\<rparr>))"

text \<open>Tries per address, and how long one that used them up waits.\<close>

definition key_limits :: "nat \<Rightarrow> bad_key_log \<Rightarrow> (nat \<times> nat) \<times> bad_key_log" where
  "key_limits now l =
     (let (attack, l) = under_attack now l
      in (if attack then (1, ATTACK_COOLDOWN) else (MAX_BAD_KEYS, BAD_KEY_COOLDOWN), l))"

definition used_up :: "nat \<Rightarrow> ip_addr \<Rightarrow> nat \<times> nat \<Rightarrow> bad_key_log \<Rightarrow> bool" where
  "used_up now addr lim l =
     (case map_of (bk_per_addr l) addr of
        None \<Rightarrow> False | Some (n, at) \<Rightarrow> fst lim \<le> n \<and> now - at < snd lim)"

text \<open>Those that may still count are remembered, and the oldest goes when there are too many.\<close>

definition remembered :: "nat \<Rightarrow> ip_addr \<Rightarrow> (ip_addr \<times> nat \<times> nat) list \<Rightarrow> (ip_addr \<times> nat \<times> nat) list" where
  "remembered now addr per =
     (let per = filter (\<lambda>(_, _, at). now - at < ATTACK_COOLDOWN) per
      in if MAX_TRACKED_ADDRESSES \<le> length per \<and> addr \<notin> fst ` set per
         then AList.delete (fst (arg_min_list (\<lambda>(_, _, at). at) per)) per
         else per)"

definition count_key :: "nat \<Rightarrow> ip_addr \<Rightarrow> bad_key_log \<Rightarrow> bad_key_log" where
  "count_key now addr l =
     (let (before, l) = under_attack now l;
          recent = (if MAX_BAD_KEYS_OVERALL \<le> length (bk_recent l) then tl (bk_recent l)
                    else bk_recent l) @ [now];
          l = l\<lparr>bk_recent := recent\<rparr>;
          l = (if before then l else snd (under_attack now l));
          l = l\<lparr>bk_per_addr := remembered now addr (bk_per_addr l)\<rparr>;
          (_, l) = key_limits now l;
          (n, at) = (case map_of (bk_per_addr l) addr of None \<Rightarrow> (0, now) | Some e \<Rightarrow> e);
          n = (if BAD_KEY_COOLDOWN \<le> now - at then 0 else n)
      in l\<lparr>bk_per_addr := AList.update addr (n + 1, now) (bk_per_addr l)\<rparr>)"

definition record_bad_key :: "nat \<Rightarrow> ip_addr \<Rightarrow> bad_key_log \<Rightarrow> nat \<times> bad_key_log" where
  "record_bad_key now peer l =
     (let ip = to_canonical peer
      in if is_loopback ip then (REJECT_DELAY, l)
         else (let addr = addr_key ip; (lim, l) = key_limits now l
               in if used_up now addr lim l
                  then (if snd lim = ATTACK_COOLDOWN then ATTACK_REJECT_DELAY else SLOW_REJECT_DELAY, l)
                  else (REJECT_DELAY, count_key now addr l)))"

section \<open>The log within a minute\<close>

abbreviation in_window :: "nat \<Rightarrow> nat \<Rightarrow> bool" where
  "in_window from t \<equiv> from \<le> t \<and> t < from + BAD_KEY_COOLDOWN"

lemma under_attack_addrs [simp]:
  "under_attack now l = (b, l') \<Longrightarrow> bk_per_addr l' = bk_per_addr l"
  "bk_per_addr (snd (under_attack now l)) = bk_per_addr l"
  by (auto simp: under_attack_def Let_def)

lemma key_limits_addrs [simp]: "key_limits now l = (lim, l') \<Longrightarrow> bk_per_addr l' = bk_per_addr l"
  by (auto simp: key_limits_def split: prod.splits)

lemma key_limits_cases:
  "key_limits now l = (lim, l') \<Longrightarrow>
     lim = (1, ATTACK_COOLDOWN) \<or> lim = (MAX_BAD_KEYS, BAD_KEY_COOLDOWN)"
  by (cases "under_attack now l"; cases "fst (under_attack now l)") (simp_all add: key_limits_def)

lemma wait_simps [simp]:
  "REJECT_DELAY \<noteq> ATTACK_REJECT_DELAY" "REJECT_DELAY \<noteq> SLOW_REJECT_DELAY"
  "ATTACK_REJECT_DELAY \<noteq> REJECT_DELAY" "SLOW_REJECT_DELAY \<noteq> REJECT_DELAY"
  by (simp_all add: REJECT_DELAY_def SLOW_REJECT_DELAY_def ATTACK_REJECT_DELAY_def SEC_def)

definition counted :: "nat \<Rightarrow> ip_addr \<Rightarrow> (ip_addr \<times> nat \<times> nat) list \<Rightarrow> nat" where
  "counted now addr per =
     (case map_of per addr of
        None \<Rightarrow> 0 | Some (n, at) \<Rightarrow> if BAD_KEY_COOLDOWN \<le> now - at then 0 else n)"

lemma count_key_addrs:
  "bk_per_addr (count_key now addr l) =
     (let per = remembered now addr (bk_per_addr l) in AList.update addr (counted now addr per + 1, now) per)"
proof -
  obtain b l1 where l1: "under_attack now l = (b, l1)" by (rule prod.exhaust)
  define l2 where "l2 = l1\<lparr>bk_recent := (if MAX_BAD_KEYS_OVERALL \<le> length (bk_recent l1)
    then tl (bk_recent l1) else bk_recent l1) @ [now]\<rparr>"
  define l3 where "l3 = (if b then l2 else snd (under_attack now l2))"
  define l4 where "l4 = l3\<lparr>bk_per_addr := remembered now addr (bk_per_addr l3)\<rparr>"
  obtain lim l5 where l5: "key_limits now l4 = (lim, l5)" by (rule prod.exhaust)
  have per: "bk_per_addr l5 = remembered now addr (bk_per_addr l)"
    using l1 l5 by (simp add: l4_def l3_def l2_def)
  have "bk_per_addr (count_key now addr l) =
      (let (n, at) = (case map_of (bk_per_addr l5) addr of None \<Rightarrow> (0, now) | Some e \<Rightarrow> e);
           n = (if BAD_KEY_COOLDOWN \<le> now - at then 0 else n)
       in AList.update addr (n + 1, now) (bk_per_addr l5))"
    unfolding count_key_def l1 Let_def prod.case l2_def [symmetric] l3_def [symmetric]
      l4_def [symmetric] l5 by (simp split: prod.splits)
  then show ?thesis
    by (auto simp: per counted_def Let_def BAD_KEY_COOLDOWN_def SEC_def split: option.splits)
qed

text \<open>
  No address that tried within the minute is forgotten for another, while no more did than are
  remembered: the oldest is forgotten, so all that are left tried within it too.
\<close>

definition known_within :: "nat \<Rightarrow> ip_addr set \<Rightarrow> (ip_addr \<times> nat \<times> nat) list \<Rightarrow> bool" where
  "known_within from A per \<longleftrightarrow>
     distinct (map fst per) \<and> (\<forall>b n at. map_of per b = Some (n, at) \<and> from \<le> at \<longrightarrow> b \<in> A)"

lemma map_of_filter_value:
  "distinct (map fst xs) \<Longrightarrow>
     map_of (filter (\<lambda>(_, v). P v) xs) k =
       (case map_of xs k of None \<Rightarrow> None | Some v \<Rightarrow> if P v then Some v else None)"
  by (induction xs) (auto simp: map_of_eq_None_iff [symmetric] split: option.splits)

lemma recent_of:
  assumes "distinct (map fst per)"
  shows "map_of (filter (\<lambda>(_, _, at). now - at < ATTACK_COOLDOWN) per) b =
    (case map_of per b of
       None \<Rightarrow> None | Some (n, at) \<Rightarrow> if now - at < ATTACK_COOLDOWN then Some (n, at) else None)"
proof -
  have "filter (\<lambda>(_, _, at). now - at < ATTACK_COOLDOWN) per =
      filter (\<lambda>(_, v). now - snd v < ATTACK_COOLDOWN) per"
    by (rule filter_cong) auto
  with assms show ?thesis by (simp add: map_of_filter_value split: option.splits)
qed

lemma remembered_cases:
  obtains (all) "remembered now addr per = filter (\<lambda>(_, _, at). now - at < ATTACK_COOLDOWN) per"
  | (but_oldest) old where "old \<in> set (filter (\<lambda>(_, _, at). now - at < ATTACK_COOLDOWN) per)"
      "\<forall>e \<in> set (filter (\<lambda>(_, _, at). now - at < ATTACK_COOLDOWN) per). snd (snd old) \<le> snd (snd e)"
      "MAX_TRACKED_ADDRESSES \<le> length (filter (\<lambda>(_, _, at). now - at < ATTACK_COOLDOWN) per)"
      "addr \<notin> fst ` set (filter (\<lambda>(_, _, at). now - at < ATTACK_COOLDOWN) per)"
      "remembered now addr per = AList.delete (fst old) (filter (\<lambda>(_, _, at). now - at < ATTACK_COOLDOWN) per)"
proof -
  let ?per = "filter (\<lambda>(_, _, at). now - at < ATTACK_COOLDOWN) per"
  have age: "(\<lambda>(_, _, at). at) = (\<lambda>e :: ip_addr \<times> nat \<times> nat. snd (snd e))" by (simp add: case_prod_unfold)
  show thesis
  proof (cases "MAX_TRACKED_ADDRESSES \<le> length ?per \<and> addr \<notin> fst ` set ?per")
    case True
    let ?old = "arg_min_list (\<lambda>e. snd (snd e)) ?per"
    from True have some: "?per \<noteq> []" by (auto simp: MAX_TRACKED_ADDRESSES_def)
    have "\<forall>e \<in> set ?per. snd (snd ?old) \<le> snd (snd e)"
      unfolding f_arg_min_list_f [OF some, of "\<lambda>e. snd (snd e)"] by (intro ballI Min_le) auto
    moreover have "remembered now addr per = AList.delete (fst ?old) ?per"
      unfolding remembered_def Let_def age by (rule if_P [OF True])
    ultimately show ?thesis
      using True by (intro but_oldest [OF arg_min_list_in [OF some]]) blast+
  next
    case False
    then show ?thesis by (intro all) (simp only: remembered_def Let_def if_False)
  qed
qed

lemma remembered_within:
  assumes "known_within from A per"
  shows "known_within from A (remembered now addr per)"
  using assms
  by (cases rule: remembered_cases [of now addr per])
    (auto simp: known_within_def recent_of distinct_map_filter distinct_delete delete_conv restrict_map_def
      split: option.splits if_splits)

lemma remembered_keeps:
  assumes w: "known_within from A per" and few: "finite A" "card A \<le> MAX_TRACKED_ADDRESSES" "addr \<in> A"
    and now: "now < from + BAD_KEY_COOLDOWN" and a: "map_of per a = Some (n, at)" "from \<le> at"
  shows "map_of (remembered now addr per) a = Some (n, at)"
proof -
  let ?per = "filter (\<lambda>(_, _, at). now - at < ATTACK_COOLDOWN) per"
  have d: "distinct (map fst per)" "distinct (map fst ?per)"
    using w by (simp_all add: known_within_def distinct_map_filter)
  have "now - at < ATTACK_COOLDOWN" using now a(2) by (simp add: ATTACK_COOLDOWN_def BAD_KEY_COOLDOWN_def SEC_def)
  then have kept: "map_of ?per a = Some (n, at)" using a(1) by (simp add: recent_of [OF d(1)])
  show ?thesis
  proof (cases rule: remembered_cases [of now addr per])
    case (but_oldest old)
    have "fst old \<noteq> a"
    proof
      assume eq: "fst old = a"
      with but_oldest(1) d(2) have "map_of ?per a = Some (snd old)" by (metis map_of_is_SomeI prod.collapse)
      with kept a(2) have "from \<le> snd (snd old)" by simp
      with but_oldest(2) have late: "\<forall>e \<in> set ?per. from \<le> snd (snd e)" by (meson le_trans)
      have "fst e \<in> A" if "e \<in> set ?per" for e
      proof -
        have "(fst e, snd e) \<in> set per" using that by (simp only: set_filter mem_Collect_eq prod.collapse)
        with d(1) have "map_of per (fst e) = Some (snd e)" by (rule map_of_is_SomeI)
        with w late that show ?thesis unfolding known_within_def by (metis prod.collapse)
      qed
      then have "insert addr (fst ` set ?per) \<subseteq> A" using few(3) by blast
      then have "card (insert addr (fst ` set ?per)) \<le> MAX_TRACKED_ADDRESSES"
        using few(1,2) card_mono le_trans by blast
      moreover have "card (fst ` set ?per) = length ?per" using distinct_card [OF d(2)] by simp
      ultimately show False using but_oldest(3,4) by simp
    qed
    with kept but_oldest(5) show ?thesis by (simp add: delete_conv)
  qed (use kept in simp)
qed

text \<open>
  \<open>m\<close> quick answers to \<open>a\<close> since \<open>from\<close>: its entry counts them all.
\<close>

definition counts_all :: "nat \<Rightarrow> ip_addr \<Rightarrow> nat \<Rightarrow> (ip_addr \<times> nat \<times> nat) list \<Rightarrow> bool" where
  "counts_all from a m per \<longleftrightarrow>
     m \<le> MAX_BAD_KEYS \<and> (m = 0 \<or> (\<exists>n at. map_of per a = Some (n, at) \<and> from \<le> at \<and> m \<le> n))"

text \<open>Another quick answer: the entry counts it, and had less than five.\<close>

lemma counted_one_more:
  assumes c: "counts_all from a m per"
    and kept: "m \<noteq> 0 \<Longrightarrow> map_of (remembered now a per) a = map_of per a" and now: "in_window from now"
    and free: "\<not> used_up now a lim l" and l: "bk_per_addr l = per"
    and lim: "lim = (1, ATTACK_COOLDOWN) \<or> lim = (MAX_BAD_KEYS, BAD_KEY_COOLDOWN)"
  shows "Suc m \<le> MAX_BAD_KEYS \<and> Suc m \<le> counted now a (remembered now a per) + 1"
proof (cases "m = 0")
  case True
  then show ?thesis by (simp add: MAX_BAD_KEYS_def)
next
  case False
  with c obtain n at where e: "map_of per a = Some (n, at)" "from \<le> at" "m \<le> n"
    by (auto simp: counts_all_def)
  with now have "now - at < BAD_KEY_COOLDOWN" by (auto simp: BAD_KEY_COOLDOWN_def SEC_def)
  then have soon: "now - at < BAD_KEY_COOLDOWN" "now - at < ATTACK_COOLDOWN"
    by (simp_all add: ATTACK_COOLDOWN_def BAD_KEY_COOLDOWN_def)
  have "n < MAX_BAD_KEYS"
    using free lim soon e(1,3) False l by (auto simp: used_up_def)
  with e soon kept [OF False] show ?thesis by (simp add: counted_def)
qed

lemma record_bad_key_step:
  assumes c: "counts_all from a m (bk_per_addr l)" and w: "known_within from A (bk_per_addr l)"
    and few: "finite A" "card A \<le> MAX_TRACKED_ADDRESSES"
    and now: "now < from + BAD_KEY_COOLDOWN" "m = 0 \<or> from \<le> now"
    and b: "from \<le> now \<Longrightarrow> set_option (counted_by peer) \<subseteq> A"
    and r: "record_bad_key now peer l = (wait, l')"
  shows "counts_all from a (if counted_by peer = Some a \<and> wait = REJECT_DELAY \<and> from \<le> now then Suc m else m)
      (bk_per_addr l') \<and> known_within from A (bk_per_addr l')"
proof (cases "is_loopback (to_canonical peer)")
  case True
  with r c w show ?thesis by (auto simp: record_bad_key_def Let_def counted_by_def)
next
  case False
  define addr where "addr = addr_key (to_canonical peer)"
  have addr: "counted_by peer = Some addr" using False by (simp add: counted_by_def addr_def Let_def)
  obtain lim l1 where l1: "key_limits now l = (lim, l1)" by (rule prod.exhaust)
  show ?thesis
  proof (cases "used_up now addr lim l1")
    case True
    with r False l1 have "wait \<noteq> REJECT_DELAY" "l' = l1"
      by (auto simp: record_bad_key_def Let_def addr_def split: if_splits)
    with l1 c w show ?thesis by simp
  next
    case ok: False
    with r False l1 have wait: "wait = REJECT_DELAY" and l': "l' = count_key now addr l1"
      by (auto simp: record_bad_key_def Let_def addr_def)
    define per where "per = remembered now addr (bk_per_addr l)"
    have per': "bk_per_addr l' = AList.update addr (counted now addr per + 1, now) per"
      using l1 by (simp add: l' count_key_addrs per_def Let_def)
    have wp: "known_within from A per" unfolding per_def using w by (rule remembered_within)
    have in_A: "addr \<in> A" if "from \<le> now" using b [OF that] addr by simp
    have w': "known_within from A (bk_per_addr l')"
      using wp in_A unfolding per' by (auto simp: known_within_def distinct_update update_conv split: if_splits)
    have kept: "map_of per a = Some (n, at)"
      if "m \<noteq> 0" "map_of (bk_per_addr l) a = Some (n, at)" "from \<le> at" for n at
      unfolding per_def using that now in_A by (intro remembered_keeps [OF w few]) auto
    have kept': "map_of per a = map_of (bk_per_addr l) a" if "m \<noteq> 0"
      using that c kept by (auto simp: counts_all_def)
    show ?thesis
    proof (cases "addr = a \<and> from \<le> now")
      case True
      have "Suc m \<le> MAX_BAD_KEYS \<and> Suc m \<le> counted now a per + 1"
        using counted_one_more [OF c, of now lim l1] kept' now ok l1 key_limits_cases [OF l1] True
        by (auto simp: per_def)
      with True addr wait w' show ?thesis by (auto simp: counts_all_def per' update_conv)
    next
      case other: False
      have "counts_all from a m (bk_per_addr l')"
      proof (cases "m = 0")
        case False
        with other now(2) have "addr \<noteq> a" by auto
        with c kept False show ?thesis by (auto simp: counts_all_def per' update_conv)
      qed (simp add: counts_all_def)
      with other addr w' show ?thesis by auto
    qed
  qed
qed

section \<open>A few quick tries\<close>

text \<open>When address \<open>a\<close> is answered quickly, of the tries \<open>ts\<close> (when, and from where).\<close>

fun quick_times :: "ip_addr \<Rightarrow> (nat \<times> ip_addr) list \<Rightarrow> bad_key_log \<Rightarrow> nat list" where
  "quick_times a [] l = []"
| "quick_times a ((now, peer) # ts) l =
     (let (w, l') = record_bad_key now peer l
      in (if counted_by peer = Some a \<and> w = REJECT_DELAY then [now] else []) @ quick_times a ts l')"

text \<open>The addresses that try a wrong key within the minute from \<open>from\<close> on.\<close>

definition tried_within :: "nat \<Rightarrow> (nat \<times> ip_addr) list \<Rightarrow> ip_addr set" where
  "tried_within from ts =
     (\<Union>(_, peer) \<in> set (filter (\<lambda>(t, _). in_window from t) ts). set_option (counted_by peer))"

lemma tried_within_Cons:
  "tried_within from ((t, peer) # ts) =
     (if in_window from t then set_option (counted_by peer) else {}) \<union> tried_within from ts"
  by (simp add: tried_within_def)

lemma quick_times_later: "\<forall>(t, _) \<in> set ts. start \<le> t \<Longrightarrow> \<forall>t \<in> set (quick_times a ts l). start \<le> t"
  by (induction ts arbitrary: l) (auto split: prod.splits)

lemma quick_times_few:
  assumes "counts_all from a m (bk_per_addr l)" and "known_within from A (bk_per_addr l)"
    and "finite A" "card A \<le> MAX_TRACKED_ADDRESSES" "tried_within from ts \<subseteq> A"
    and "sorted (map fst ts)" "m = 0 \<or> (\<forall>(t, _) \<in> set ts. from \<le> t)"
  shows "m + length (filter (in_window from) (quick_times a ts l)) \<le> MAX_BAD_KEYS"
  using assms
proof (induction ts arbitrary: m l)
  case (Cons x ts)
  obtain now peer where x: "x = (now, peer)" by (cases x)
  obtain wait l' where r: "record_bad_key now peer l = (wait, l')" by (rule prod.exhaust)
  show ?case
  proof (cases "now < from + BAD_KEY_COOLDOWN")
    case True
    let ?m = "if counted_by peer = Some a \<and> wait = REJECT_DELAY \<and> from \<le> now then Suc m else m"
    have step: "counts_all from a ?m (bk_per_addr l') \<and> known_within from A (bk_per_addr l')"
      by (rule record_bad_key_step [OF Cons.prems(1-4) True _ _ r])
        (use Cons.prems(5,7) x True in \<open>auto simp: tried_within_Cons\<close>)
    have "?m + length (filter (in_window from) (quick_times a ts l')) \<le> MAX_BAD_KEYS"
      by (rule Cons.IH [OF conjunct1 [OF step] conjunct2 [OF step]])
        (use Cons.prems x in \<open>auto simp: tried_within_Cons\<close>)
    with x r True show ?thesis by (auto split: if_splits)
  next
    case False
    have "\<forall>(t, _) \<in> set (x # ts). from + BAD_KEY_COOLDOWN \<le> t"
      using False Cons.prems(6) x by fastforce
    from quick_times_later [OF this] have "filter (in_window from) (quick_times a (x # ts) l) = []"
      by (fastforce simp: filter_empty_conv)
    with Cons.prems(1) show ?thesis by (simp add: counts_all_def)
  qed
qed (simp add: counts_all_def)

text \<open>
  C19. Guessing is slow: within any 60 seconds, one address (for IPv6, one /64) gets at most
  five quick answers, whatever it and the others tried before and try after, as long as
  within those 60 seconds no more than 4096 addresses try, as many as are remembered. (Beyond
  that the one longest without a try is forgotten, and with it what it used up.) Only wrong keys
  are counted, so a right one never waits.
\<close>

theorem few_quick_tries:
  assumes "sorted (map fst ts)" and "card (tried_within from ts) \<le> MAX_TRACKED_ADDRESSES"
  shows "length (filter (in_window from) (quick_times a ts new_key_log)) \<le> MAX_BAD_KEYS"
proof -
  have "finite (tried_within from ts)" by (auto simp: tried_within_def)
  then show ?thesis
    using quick_times_few [where m = 0 and A = "tried_within from ts" and l = new_key_log] assms
    by (simp add: counts_all_def known_within_def new_key_log_def)
qed

text \<open>A try from a known address with tries left, while all is quiet.\<close>

lemma quick_try:
  assumes "n < MAX_BAD_KEYS" and "t - u < BAD_KEY_COOLDOWN"
    and "Suc (length rs) < MAX_BAD_KEYS_OVERALL" and "\<forall>r \<in> set rs. t - r < BAD_KEY_WINDOW"
  shows "record_bad_key t (V4 10 0 0 1) \<lparr>bk_per_addr = [(V4 10 0 0 1, n, u)], bk_recent = rs\<rparr> =
    (REJECT_DELAY, \<lparr>bk_per_addr = [(V4 10 0 0 1, Suc n, t)], bk_recent = rs @ [t]\<rparr>)"
proof -
  have drop: "dropWhile (\<lambda>r. BAD_KEY_WINDOW \<le> t - r) rs = rs"
    using assms(4) by (cases rs) auto
  have drop': "dropWhile (\<lambda>r. BAD_KEY_WINDOW \<le> t - r) (rs @ [t]) = rs @ [t]"
    using assms(4) by (cases rs) (auto simp: BAD_KEY_WINDOW_def SEC_def)
  have att: "t - u < ATTACK_COOLDOWN" using assms(2) by (simp add: ATTACK_COOLDOWN_def BAD_KEY_COOLDOWN_def)
  let ?l = "\<lparr>bk_per_addr = [(V4 10 0 0 1, n, u)], bk_recent = rs\<rparr>"
  have calm: "under_attack t (l\<lparr>bk_recent := qs\<rparr>) = (False, l\<lparr>bk_recent := qs\<rparr>)"
    if "qs = rs \<or> qs = rs @ [t]" for l :: bad_key_log and qs
  proof -
    have "dropWhile (\<lambda>r. BAD_KEY_WINDOW \<le> t - r) qs = qs" using that drop drop' by blast
    moreover have "\<not> MAX_BAD_KEYS_OVERALL \<le> length qs" using that assms(3) by auto
    ultimately show ?thesis by (simp add: under_attack_def)
  qed
  have calm0: "under_attack t ?l = (False, ?l)" using calm [of rs ?l] by simp
  have lim: "key_limits t ?l = ((MAX_BAD_KEYS, BAD_KEY_COOLDOWN), ?l)"
    by (simp add: key_limits_def calm0)
  have rem: "remembered t (V4 10 0 0 1) [(V4 10 0 0 1, n, u)] = [(V4 10 0 0 1, n, u)]"
    using att by (simp add: remembered_def)
  let ?l2 = "\<lparr>bk_per_addr = [(V4 10 0 0 1, n, u)], bk_recent = rs @ [t]\<rparr>"
  have calm2: "under_attack t ?l2 = (False, ?l2)" using calm [of "rs @ [t]" ?l2] by simp
  have "count_key t (V4 10 0 0 1) ?l = \<lparr>bk_per_addr = [(V4 10 0 0 1, Suc n, t)], bk_recent = rs @ [t]\<rparr>"
    using assms(2,3) by (simp add: count_key_def calm0 calm2 key_limits_def rem)
  moreover have "\<not> used_up t (V4 10 0 0 1) (MAX_BAD_KEYS, BAD_KEY_COOLDOWN) ?l"
    using assms(1) by (simp add: used_up_def)
  ultimately show ?thesis by (simp add: record_bad_key_def lim addr_key_def)
qed

lemma first_quick_try:
  "record_bad_key t (V4 10 0 0 1) new_key_log =
     (REJECT_DELAY, \<lparr>bk_per_addr = [(V4 10 0 0 1, 1, t)], bk_recent = [t]\<rparr>)"
proof -
  have "key_limits t new_key_log = ((MAX_BAD_KEYS, BAD_KEY_COOLDOWN), new_key_log)"
    by (simp add: key_limits_def under_attack_def new_key_log_def MAX_BAD_KEYS_OVERALL_def)
  moreover have "count_key t (V4 10 0 0 1) new_key_log =
      \<lparr>bk_per_addr = [(V4 10 0 0 1, 1, t)], bk_recent = [t]\<rparr>"
    by (simp add: count_key_def under_attack_def key_limits_def remembered_def new_key_log_def
        MAX_TRACKED_ADDRESSES_def MAX_BAD_KEYS_OVERALL_def BAD_KEY_COOLDOWN_def BAD_KEY_WINDOW_def SEC_def)
  moreover have "\<not> used_up t (V4 10 0 0 1) lim new_key_log" for lim
    by (simp add: used_up_def new_key_log_def)
  ultimately show ?thesis by (simp add: record_bad_key_def addr_key_def)
qed

text \<open>Five tries in five seconds are all answered quickly.\<close>

theorem few_quick_tries_witness:
  "quick_times (V4 10 0 0 1) (map (\<lambda>n. (n, V4 10 0 0 1)) [1, 2, 3, 4, 5]) new_key_log = [1, 2, 3, 4, 5] \<and>
   length (filter (in_window 0) [1, 2, 3, 4, 5]) \<le> MAX_BAD_KEYS"
proof -
  let ?ts = "map (\<lambda>n. (n, V4 10 0 0 1)) [1, 2, 3, 4, 5]"
  have "tried_within 0 ?ts = {V4 10 0 0 1}"
    by (simp add: tried_within_def counted_by_def addr_key_def BAD_KEY_COOLDOWN_def SEC_def)
  then have few: "card (tried_within 0 ?ts) \<le> MAX_TRACKED_ADDRESSES" by (simp add: MAX_TRACKED_ADDRESSES_def)
  have "counted_by (V4 10 0 0 1) = Some (V4 10 0 0 1)" by (simp add: counted_by_def addr_key_def)
  then have "quick_times (V4 10 0 0 1) ?ts new_key_log = [1, 2, 3, 4, 5]"
    by (simp add: first_quick_try quick_try MAX_BAD_KEYS_def BAD_KEY_COOLDOWN_def
        BAD_KEY_WINDOW_def MAX_BAD_KEYS_OVERALL_def SEC_def)
  moreover from few_quick_tries [OF _ few, of "V4 10 0 0 1"]
  have "length (filter (in_window 0) (quick_times (V4 10 0 0 1) ?ts new_key_log)) \<le> MAX_BAD_KEYS" by simp
  ultimately show ?thesis by simp
qed

end
