(* ===== verification/Ingest.thy ===== *)
theory Ingest
  imports Ingest_Keys Egress_Parts Server_Protocol Handshake Timestamps
begin

text \<open>
  An encoder connection (\<^verbatim>\<open>handle\<close> of \<^verbatim>\<open>crates/relay/src/ingest.rs\<close>, with
  \<^verbatim>\<open>server_handshake\<close> of \<^verbatim>\<open>io.rs\<close>): the handshake, what the session reports of what was
  received, the question to the core whether it may publish, and the media passed on. As in the
  theory of the egress, a phase is a point where the task waits and \<open>ingest_step\<close> is what it
  does with the input that ends the wait, up to the next one; what comes, and when, is up to
  the environment. What the listener's task does around it (\<^verbatim>\<open>listen_as\<close>: reporting the end,
  closing on request) is part of the steps that end it.

  The random bytes of the handshake are a parameter. \<open>it_in_use\<close> and \<open>it_refused\<close> are the
  flags of its place among the connections; \<open>it_peer\<close> and \<open>it_ip\<close> are its address as text. A connection asks at most once, so its number also
  names the channel of the answer.
\<close>

section \<open>State\<close>

definition IDLE_TIMEOUT :: nat where "IDLE_TIMEOUT = 30 * SEC"
definition QUEUED_OVERHEAD :: nat where "QUEUED_OVERHEAD = 128"
definition INGEST_QUEUE_BUDGET :: nat where "INGEST_QUEUE_BUDGET = 32 * 1024 * 1024"

text \<open>\<^verbatim>\<open>OWN_CONNECT_PROPS\<close> and \<^verbatim>\<open>forwarded_props\<close>.\<close>

definition OWN_CONNECT_PROPS :: "bytes list" where
  "OWN_CONNECT_PROPS = map ascii
     [''app'', ''type'', ''flashVer'', ''swfUrl'', ''tcUrl'', ''pageUrl'', ''objectEncoding'']"

definition forwarded_props :: "(bytes \<times> amf0) list \<Rightarrow> (bytes \<times> amf0) list" where
  "forwarded_props props = filter (\<lambda>(k, _). k \<notin> set OWN_CONNECT_PROPS) props"

text \<open>
  Where it waits: in the handshake for bytes or, with what followed it if it is over, for a
  write; for bytes of the encoder, since some time; for the core's answer; until a refusal is
  told, and for its write; for room in the queue to the core, with the event to send; and for
  a write of the session's answers. The events of one read that are left come last.
\<close>

datatype ingest_phase =
    Greeting server_handshake
  | GreetingWrite server_handshake "bytes option"
  | Receiving nat
  | Deciding "server_event list"
  | Refusing bytes nat
  | Telling nat
  | Reserving event "server_event list"
  | Answering nat
  | Gone

record ingest_task =
  it_conn :: nat
  it_peer :: bytes
  it_ip :: bytes
  it_addr :: ip_addr
  it_timeout :: nat
  it_phase :: ingest_phase
  it_session :: server_session
  it_props :: "(bytes \<times> amf0) list"
  it_audio :: ts_unwrapper
  it_video :: ts_unwrapper
  it_data :: ts_unwrapper
  it_publishing :: bool
  it_deadline :: "nat option"
  it_in_use :: bool
  it_refused :: bool
  it_events :: "event list"
  it_wire :: bytes

definition new_ingest :: "nat \<Rightarrow> bytes \<Rightarrow> bytes \<Rightarrow> ip_addr \<Rightarrow> nat \<Rightarrow> nat \<Rightarrow> ingest_task" where
  "new_ingest conn peer ip addr timeout now =
     \<lparr>it_conn = conn, it_peer = peer, it_ip = ip, it_addr = addr, it_timeout = timeout,
      it_phase = Greeting new_server, it_session = new_server_session default_server_config,
      it_props = [], it_audio = new_unwrapper, it_video = new_unwrapper, it_data = new_unwrapper,
      it_publishing = False, it_deadline = Some (now + timeout), it_in_use = False,
      it_refused = False, it_events = [], it_wire = []\<rparr>"

text \<open>
  What can end a wait. \<open>GotBytes []\<close> is the end of the stream; \<open>CoreSays None\<close> accepts.
\<close>

datatype ingest_input =
    GotBytes bytes
  | ReadFails bytes
  | TimeUp
  | CoreSays "rejection option"
  | CoreGone
  | Room
  | Wrote
  | WriteFails bytes
  | ToldToClose

section \<open>Steps\<close>

definition send_event :: "event \<Rightarrow> ingest_task \<Rightarrow> ingest_task" where
  "send_event ev s = s\<lparr>it_events := it_events s @ [ev]\<rparr>"

definition wait_in :: "ingest_phase \<Rightarrow> ingest_task \<Rightarrow> ingest_task" where
  "wait_in p s = s\<lparr>it_phase := p\<rparr>"

definition send_bytes :: "bytes \<Rightarrow> ingest_task \<Rightarrow> ingest_task" where
  "send_bytes bs s = s\<lparr>it_wire := it_wire s @ bs\<rparr>"

text \<open>The end of the task: the core is told, and the place is given up.\<close>

definition hang_up :: "bytes option \<Rightarrow> ingest_task \<Rightarrow> ingest_task" where
  "hang_up error s = wait_in Gone (send_event (IngestClosed (it_conn s) error False) s)"

definition not_publishing :: bytes where
  "not_publishing = ascii ''the encoder did not start publishing in time''"

definition stopped_reading :: bytes where
  "stopped_reading = ascii ''the encoder stopped reading''"

definition stop_publishing :: "nat \<Rightarrow> ingest_task \<Rightarrow> ingest_task" where
  "stop_publishing now s =
     send_event (IngestClosed (it_conn s) None True)
       (s\<lparr>it_publishing := False, it_in_use := False, it_deadline := Some (now + it_timeout s)\<rparr>)"

definition ask_to_publish :: "bytes \<Rightarrow> bytes \<Rightarrow> ingest_task \<Rightarrow> ingest_task" where
  "ask_to_publish app key s =
     send_event
       (IngestPublish (it_conn s) (it_peer s) (it_ip s) app key (it_props s) (it_conn s))
       (s\<lparr>it_in_use := True\<rparr>)"

definition pass_media :: "media_kind \<Rightarrow> u32 \<Rightarrow> bytes \<Rightarrow> ingest_task \<Rightarrow> event \<times> ingest_task" where
  "pass_media k ts payload s =
     (case k of
        AudioKind \<Rightarrow>
          (let (t, u) = unwrap (it_audio s) ts
           in (IngestMedia (it_conn s) Audio t payload, s\<lparr>it_audio := u\<rparr>))
      | VideoKind \<Rightarrow>
          (let (t, u) = unwrap (it_video s) ts
           in (IngestMedia (it_conn s) Video t payload, s\<lparr>it_video := u\<rparr>)))"

definition pass_data :: "u32 \<Rightarrow> bytes \<Rightarrow> ingest_task \<Rightarrow> event \<times> ingest_task" where
  "pass_data ts payload s =
     (let (t, u) = unwrap (it_data s) ts
      in (IngestMedia (it_conn s) kind.Data t payload, s\<lparr>it_data := u\<rparr>))"

definition answer_session :: "nat \<Rightarrow> ingest_task \<Rightarrow> ingest_task" where
  "answer_session now s =
     (let (bs, session) = server_take_output (it_session s);
          s = s\<lparr>it_session := session\<rparr>
      in if bs = [] then wait_in (Receiving now) s
         else wait_in (Answering now) (send_bytes bs s))"

text \<open>The events of one read, up to one that has to wait.\<close>

fun take_events :: "nat \<Rightarrow> server_event list \<Rightarrow> ingest_task \<Rightarrow> ingest_task" where
  "take_events now [] s = answer_session now s"
| "take_events now (Connect app tc props # evs) s =
     take_events now evs (s\<lparr>it_props := forwarded_props props\<rparr>)"
| "take_events now (PublishRequest app key # evs) s =
     wait_in (Deciding evs) (ask_to_publish app key s)"
| "take_events now (Media k ts payload # evs) s =
     (let (ev, s) = pass_media k ts payload s in wait_in (Reserving ev evs) s)"
| "take_events now (Data ts payload # evs) s =
     (let (ev, s) = pass_data ts payload s in wait_in (Reserving ev evs) s)"
| "take_events now (Metadata ts payload # evs) s =
     wait_in (Reserving (IngestMetadata (it_conn s) payload) evs) s"
| "take_events now (Unpublish # evs) s =
     take_events now evs (if it_publishing s then stop_publishing now s else s)"

definition take_data :: "nat \<Rightarrow> bytes \<Rightarrow> ingest_task \<Rightarrow> ingest_task" where
  "take_data now data s =
     (case Server_Session.server_feed data (it_session s) of
        (Inl e, session) \<Rightarrow> hang_up (Some (session_error_text e)) (s\<lparr>it_session := session\<rparr>)
      | (Inr evs, session) \<Rightarrow> take_events now evs (s\<lparr>it_session := session\<rparr>))"

text \<open>A byte as decimal digits, for the handshake's error.\<close>

definition hs_error_text :: "handshake_error \<Rightarrow> bytes" where
  "hs_error_text e =
     (case e of UnsupportedVersion v \<Rightarrow>
        ascii ''unsupported RTMP version '' @ decimal (unat v) @
        ascii '' (encrypted RTMPE is not supported)'')"

definition greet :: "nat \<Rightarrow> bytes \<Rightarrow> handshake_progress \<Rightarrow> server_handshake \<Rightarrow> ingest_task \<Rightarrow> ingest_task" where
  "greet now bs p hs s =
     (case p of
        NeedMore \<Rightarrow>
          if bs = [] then wait_in (Greeting hs) s
          else wait_in (GreetingWrite hs None) (send_bytes bs s)
      | Finished rest \<Rightarrow>
          if bs = [] then take_data now rest s
          else wait_in (GreetingWrite hs (Some rest)) (send_bytes bs s))"

definition greeting_data ::
  "bytes \<Rightarrow> nat \<Rightarrow> bytes \<Rightarrow> server_handshake \<Rightarrow> ingest_task \<Rightarrow> ingest_task" where
  "greeting_data rnd now data hs s =
     (if data = [] then hang_up (Some (ascii ''unexpected end of file'')) s
      else (case Handshake.server_feed rnd data hs of
              (Inl e, _, _) \<Rightarrow> hang_up (Some (hs_error_text e)) s
            | (Inr p, hs, bs) \<Rightarrow> greet now bs p hs s))"

text \<open>The core's answer. A refusal is told after a while; the log of wrong keys says when.\<close>

definition accepted_by_core :: "ingest_task \<Rightarrow> ingest_task" where
  "accepted_by_core s =
     s\<lparr>it_session := accept_publish (it_session s), it_publishing := True, it_deadline := None\<rparr>"

definition refused_by_core ::
  "nat \<Rightarrow> rejection \<Rightarrow> ingest_task \<Rightarrow> bad_key_log \<Rightarrow> ingest_task \<times> bad_key_log" where
  "refused_by_core now why s l =
     (let (wait, l) = (if rj_bad_key why then record_bad_key now (it_addr s) l else (REJECT_DELAY, l))
      in (wait_in (Refusing (rj_reason why) (now + wait))
            (s\<lparr>it_refused := True, it_in_use := False\<rparr>), l))"

definition tell_refusal :: "nat \<Rightarrow> bytes \<Rightarrow> ingest_task \<Rightarrow> ingest_task" where
  "tell_refusal now reason s =
     (let (bs, session) = server_take_output
            (reject_publish (ascii ''NetStream.Publish.BadName'') reason (it_session s))
      in wait_in (Telling now) (send_bytes bs (s\<lparr>it_session := session\<rparr>)))"

text \<open>Which timeout a wait has, and what it means.\<close>

definition read_until :: "nat \<Rightarrow> ingest_task \<Rightarrow> nat" where
  "read_until since s =
     (case it_deadline s of None \<Rightarrow> since + IDLE_TIMEOUT | Some d \<Rightarrow> min d (since + IDLE_TIMEOUT))"

definition late :: "nat \<Rightarrow> ingest_task \<Rightarrow> bool" where
  "late now s \<longleftrightarrow> (case it_deadline s of None \<Rightarrow> False | Some d \<Rightarrow> d \<le> now)"

definition time_up :: "nat \<Rightarrow> ingest_task \<Rightarrow> ingest_task option" where
  "time_up now s =
     (case it_phase s of
        Greeting _ \<Rightarrow> if late now s then Some (hang_up (Some not_publishing) s) else None
      | GreetingWrite _ _ \<Rightarrow> if late now s then Some (hang_up (Some not_publishing) s) else None
      | Receiving since \<Rightarrow>
          if read_until since s \<le> now
          then Some (hang_up (Some (if late now s then not_publishing else ascii ''timed out'')) s)
          else None
      | Refusing reason until \<Rightarrow> if until \<le> now then Some (tell_refusal now reason s) else None
      | Telling since \<Rightarrow>
          if since + IDLE_TIMEOUT \<le> now then Some (hang_up (Some stopped_reading) s) else None
      | Answering since \<Rightarrow>
          if since + IDLE_TIMEOUT \<le> now then Some (hang_up (Some stopped_reading) s) else None
      | _ \<Rightarrow> None)"

definition wrote :: "nat \<Rightarrow> ingest_task \<Rightarrow> ingest_task option" where
  "wrote now s =
     (case it_phase s of
        GreetingWrite hs None \<Rightarrow> Some (wait_in (Greeting hs) s)
      | GreetingWrite hs (Some rest) \<Rightarrow> Some (take_data now rest s)
      | Telling _ \<Rightarrow> Some (hang_up None s)
      | Answering _ \<Rightarrow> Some (wait_in (Receiving now) s)
      | _ \<Rightarrow> None)"

definition writing_out :: "ingest_phase \<Rightarrow> bool" where
  "writing_out p \<longleftrightarrow>
     (case p of GreetingWrite _ _ \<Rightarrow> True | Telling _ \<Rightarrow> True | Answering _ \<Rightarrow> True | _ \<Rightarrow> False)"

definition reading :: "ingest_phase \<Rightarrow> bool" where
  "reading p \<longleftrightarrow> (case p of Greeting _ \<Rightarrow> True | Receiving _ \<Rightarrow> True | _ \<Rightarrow> False)"

text \<open>A step, with the log of wrong keys all connections share.\<close>

fun ingest_step ::
  "bytes \<Rightarrow> nat \<Rightarrow> ingest_input \<Rightarrow> ingest_task \<times> bad_key_log \<Rightarrow> (ingest_task \<times> bad_key_log) option" where
  "ingest_step rnd now (GotBytes data) (s, l) =
     (case it_phase s of
        Greeting hs \<Rightarrow> Some (greeting_data rnd now data hs s, l)
      | Receiving _ \<Rightarrow> Some (if data = [] then hang_up None s else take_data now data s, l)
      | _ \<Rightarrow> None)"
| "ingest_step rnd now (ReadFails e) (s, l) =
     (if reading (it_phase s) then Some (hang_up (Some e) s, l) else None)"
| "ingest_step rnd now TimeUp (s, l) = map_option (\<lambda>s. (s, l)) (time_up now s)"
| "ingest_step rnd now (CoreSays a) (s, l) =
     (case it_phase s of
        Deciding evs \<Rightarrow>
          Some (case a of
                  None \<Rightarrow> (take_events now evs (accepted_by_core s), l)
                | Some why \<Rightarrow> refused_by_core now why s l)
      | _ \<Rightarrow> None)"
| "ingest_step rnd now CoreGone (s, l) =
     (case it_phase s of
        Deciding _ \<Rightarrow> Some (hang_up None s, l)
      | Reserving _ _ \<Rightarrow> Some (hang_up None s, l)
      | _ \<Rightarrow> None)"
| "ingest_step rnd now Room (s, l) =
     (case it_phase s of
        Reserving ev evs \<Rightarrow> Some (take_events now evs (send_event ev s), l)
      | _ \<Rightarrow> None)"
| "ingest_step rnd now Wrote (s, l) = map_option (\<lambda>s. (s, l)) (wrote now s)"
| "ingest_step rnd now (WriteFails e) (s, l) =
     (if writing_out (it_phase s) then Some (hang_up (Some e) s, l) else None)"
| "ingest_step rnd now ToldToClose (s, l) =
     (if it_phase s = Gone then None else Some (hang_up None s, l))"

end
