(* ===== verification/Ingest_Promises.thy ===== *)
theory Ingest_Promises
  imports Ingest
begin

text \<open>
  What an encoder connection promises: what it tells the core, as an automaton; that its place
  is marked as in use exactly while it asks or publishes; and that one that does not publish, does
  not send or does not read is closed in time.
\<close>

section \<open>Refinement under an invariant\<close>

locale invariant_refinement =
  fixes spec :: "'p \<Rightarrow> 'i \<Rightarrow> 'p option"
    and abstr :: "'s \<Rightarrow> 'p"
    and step :: "'s \<Rightarrow> 'i list \<Rightarrow> 's \<Rightarrow> bool"
    and inv :: "'s \<Rightarrow> bool"
  assumes step_keeps: "inv s \<Longrightarrow> step s is t \<Longrightarrow>
    spec_run spec (abstr s) is = Some (abstr t) \<and> inv t"
begin

lemma trace_keeps:
  assumes "trace_steps step s is t" and "inv s"
  shows "spec_run spec (abstr s) is = Some (abstr t) \<and> inv t"
  using assms
proof (induction)
  case (snoc s "is" t js u)
  with step_keeps [of t js u] show ?case by (simp add: spec_run_append)
qed simp

end

section \<open>The conversation with the core\<close>

text \<open>
  One connection's: it asks once whether it may publish; only when told that it may does it
  send anything of the stream, until it stops; and leaving is the last thing it says.
\<close>

datatype conversation = Quiet | Waiting | Airing | Stopped | Refused | Left

datatype saying = Sent event | Heard "rejection option"

fun talk :: "nat \<Rightarrow> conversation \<Rightarrow> saying \<Rightarrow> conversation option" where
  "talk n p (Heard a) =
     (if p = Waiting then Some (case a of None \<Rightarrow> Airing | Some _ \<Rightarrow> Refused) else None)"
| "talk n p (Sent (IngestPublish c _ _ _ _ _ _)) =
     (if p = Quiet \<and> c = n then Some Waiting else None)"
| "talk n p (Sent (IngestMedia c _ _ _)) = (if p = Airing \<and> c = n then Some Airing else None)"
| "talk n p (Sent (IngestMetadata c _)) = (if p = Airing \<and> c = n then Some Airing else None)"
| "talk n p (Sent (IngestClosed c e unpublished)) =
     (if c \<noteq> n \<or> p = Left then None
      else if unpublished then (if p = Airing \<and> e = None then Some Stopped else None)
      else Some Left)"
| "talk n p (Sent _) = None"

definition at_rest :: "ingest_task \<Rightarrow> conversation" where
  "at_rest s =
     (if it_publishing s then Airing else if sv_state (it_session s) = Closed then Stopped else Quiet)"

definition conversation_of :: "ingest_task \<Rightarrow> conversation" where
  "conversation_of s =
     (case it_phase s of
        Gone \<Rightarrow> Left
      | Deciding _ \<Rightarrow> Waiting
      | Refusing _ _ \<Rightarrow> Refused
      | Telling _ \<Rightarrow> Refused
      | _ \<Rightarrow> at_rest s)"

section \<open>The invariant\<close>

definition is_media :: "nat \<Rightarrow> event \<Rightarrow> bool" where
  "is_media n ev \<longleftrightarrow> talk n Airing (Sent ev) = Some Airing"

abbreviation runs_to :: "phase \<Rightarrow> server_event list \<Rightarrow> ingest_task \<Rightarrow> bool" where
  "runs_to p evs s \<equiv> spec_run protocol p (map Ev evs) = Some (phase_of (sv_state (it_session s)))"

text \<open>Where the session stood before the events still to be taken.\<close>

definition stands_at :: "phase \<Rightarrow> ingest_task \<Rightarrow> bool" where
  "stands_at p s \<longleftrightarrow> (if it_publishing s then p = OnAir else p \<in> {Fresh, Joined, Over})"

definition flags_ok :: "ingest_task \<Rightarrow> bool" where
  "flags_ok s \<longleftrightarrow>
     (it_in_use s \<longleftrightarrow> it_publishing s) \<and> (it_deadline s = None \<longleftrightarrow> it_publishing s)"

definition ingest_ok :: "nat \<Rightarrow> ingest_task \<Rightarrow> bool" where
  "ingest_ok n s \<longleftrightarrow> it_conn s = n \<and>
     (case it_phase s of
        Gone \<Rightarrow> True
      | Deciding evs \<Rightarrow> runs_to Asked evs s \<and> it_in_use s \<and> \<not> it_publishing s \<and> it_deadline s \<noteq> None
      | Refusing _ _ \<Rightarrow> \<not> it_in_use s \<and> \<not> it_publishing s \<and> it_deadline s \<noteq> None
      | Telling _ \<Rightarrow> \<not> it_in_use s \<and> \<not> it_publishing s \<and> it_deadline s \<noteq> None
      | Reserving ev evs \<Rightarrow> is_media n ev \<and> runs_to OnAir evs s \<and> it_publishing s \<and> flags_ok s
      | _ \<Rightarrow> stands_at (phase_of (sv_state (it_session s))) s \<and> flags_ok s)"

lemma ingest_fields [simp]:
  "it_phase (wait_in p s) = p" "it_session (wait_in p s) = it_session s"
  "it_publishing (wait_in p s) = it_publishing s" "it_deadline (wait_in p s) = it_deadline s"
  "it_in_use (wait_in p s) = it_in_use s" "it_events (wait_in p s) = it_events s"
  "it_conn (wait_in p s) = it_conn s"
  "it_phase (send_event ev s) = it_phase s" "it_session (send_event ev s) = it_session s"
  "it_publishing (send_event ev s) = it_publishing s" "it_deadline (send_event ev s) = it_deadline s"
  "it_in_use (send_event ev s) = it_in_use s" "it_events (send_event ev s) = it_events s @ [ev]"
  "it_conn (send_event ev s) = it_conn s"
  "it_phase (send_bytes bs s) = it_phase s" "it_session (send_bytes bs s) = it_session s"
  "it_publishing (send_bytes bs s) = it_publishing s" "it_deadline (send_bytes bs s) = it_deadline s"
  "it_in_use (send_bytes bs s) = it_in_use s" "it_events (send_bytes bs s) = it_events s"
  "it_conn (send_bytes bs s) = it_conn s"
  by (simp_all add: wait_in_def send_event_def send_bytes_def)

lemma hang_up_fields [simp]:
  "it_phase (hang_up e s) = Gone" "it_conn (hang_up e s) = it_conn s"
  "it_events (hang_up e s) = it_events s @ [IngestClosed (it_conn s) e False]"
  by (simp_all add: hang_up_def)

lemma protocol_over: "spec_run protocol Over (map Ev evs) = Some q \<Longrightarrow> evs = [] \<and> q = Over"
  by (cases evs) auto

lemma phase_of_simps [simp]:
  "phase_of q = OnAir \<longleftrightarrow> q = Publishing" "phase_of q = Over \<longleftrightarrow> q = Closed"
  "phase_of q = Fresh \<longleftrightarrow> q = AwaitConnect" "phase_of q = Joined \<longleftrightarrow> q = Connected"
  "phase_of q = Asked \<longleftrightarrow> q = PublishPending"
  by (cases q; simp)+

definition begins :: "phase \<Rightarrow> ingest_task \<Rightarrow> conversation" where
  "begins p s = (if it_publishing s then Airing else if p = Over then Stopped else Quiet)"

abbreviation said :: "nat \<Rightarrow> conversation \<Rightarrow> ingest_task \<Rightarrow> ingest_task \<Rightarrow> bool" where
  "said n q s s' \<equiv> \<exists>evs. it_events s' = it_events s @ evs \<and>
     spec_run (talk n) q (map Sent evs) = Some (conversation_of s') \<and> ingest_ok n s'"

lemma said_Sent:
  assumes "it_events s1 = it_events s @ [ev]" and "talk n q (Sent ev) = Some q1" and "said n q1 s1 s'"
  shows "said n q s s'"
proof -
  from assms(3) obtain evs where "it_events s' = it_events s1 @ evs"
    "spec_run (talk n) q1 (map Sent evs) = Some (conversation_of s')" "ingest_ok n s'" by blast
  with assms(1,2) show ?thesis by (intro exI [of _ "ev # evs"]) simp
qed

lemma hang_up_said: "it_conn s = n \<Longrightarrow> q \<noteq> Left \<Longrightarrow> said n q s (hang_up e s)"
  by (simp add: conversation_of_def ingest_ok_def)

lemma answer_session_said:
  assumes "it_conn s = n" "flags_ok s" "stands_at (phase_of (sv_state (it_session s))) s"
  shows "said n (begins (phase_of (sv_state (it_session s))) s) s (answer_session now s)"
proof -
  obtain bs session where t: "server_take_output (it_session s) = (bs, session)" by (rule prod.exhaust)
  have st: "sv_state session = sv_state (it_session s)"
    using t by (auto simp: server_take_output_def split: prod.splits)
  show ?thesis
    using assms st
    by (intro exI [of _ "[]"])
      (auto simp: answer_session_def Let_def t ingest_ok_def conversation_of_def at_rest_def begins_def
        flags_ok_def stands_at_def)
qed

lemma pass_fields:
  "pass_media k ts payload s = (ev, s') \<Longrightarrow> is_media (it_conn s) ev \<and> it_conn s' = it_conn s \<and>
     it_session s' = it_session s \<and> it_publishing s' = it_publishing s \<and>
     it_deadline s' = it_deadline s \<and> it_in_use s' = it_in_use s \<and> it_events s' = it_events s"
  "pass_data ts payload s = (ev, s') \<Longrightarrow> is_media (it_conn s) ev \<and> it_conn s' = it_conn s \<and>
     it_session s' = it_session s \<and> it_publishing s' = it_publishing s \<and>
     it_deadline s' = it_deadline s \<and> it_in_use s' = it_in_use s \<and> it_events s' = it_events s"
  by (auto simp: pass_media_def pass_data_def is_media_def split: media_kind.splits prod.splits)

lemma take_events_said:
  assumes "runs_to p evs s" and "stands_at p s" and "flags_ok s" and "it_conn s = n"
  shows "said n (begins p s) s (take_events now evs s)"
  using assms
proof (induction now evs s arbitrary: p rule: take_events.induct)
  case (1 now s)
  then show ?case using answer_session_said [of s n now] by simp
next
  case (2 now app tc props evs s)
  then have p: "p = Fresh" "\<not> it_publishing s" by (cases p; simp add: stands_at_def split: if_splits)+
  from 2(1) [of Joined] 2(2-) p show ?case by (simp add: stands_at_def flags_ok_def begins_def)
next
  case (3 now app key evs s)
  then have p: "p = Joined" "\<not> it_publishing s" by (cases p; simp add: stands_at_def split: if_splits)+
  from 3 p show ?case
    by (auto simp: ask_to_publish_def conversation_of_def ingest_ok_def begins_def flags_ok_def)
next
  case (4 now k ts payload evs s)
  then have p: "p = OnAir" by (cases p) simp_all
  obtain ev s1 where e: "pass_media k ts payload s = (ev, s1)" by (rule prod.exhaust)
  from 4 p pass_fields(1) [OF e] show ?case
    by (auto simp: e conversation_of_def at_rest_def ingest_ok_def begins_def flags_ok_def stands_at_def
        split: if_splits)
next
  case (5 now ts payload evs s)
  then have p: "p = OnAir" by (cases p) simp_all
  obtain ev s1 where e: "pass_data ts payload s = (ev, s1)" by (rule prod.exhaust)
  from 5 p pass_fields(2) [OF e] show ?case
    by (auto simp: e conversation_of_def at_rest_def ingest_ok_def begins_def flags_ok_def stands_at_def
        split: if_splits)
next
  case (6 now ts payload evs s)
  then have p: "p = OnAir" by (cases p) simp_all
  from 6 p show ?case
    by (auto simp: conversation_of_def at_rest_def ingest_ok_def begins_def flags_ok_def stands_at_def
        is_media_def split: if_splits)
next
  case (7 now evs s)
  then have p: "p = OnAir" "it_publishing s" by (cases p; simp add: stands_at_def split: if_splits)+
  let ?s = "stop_publishing now s"
  have "said n (begins Over ?s) ?s (take_events now evs ?s)"
    using 7(1) [of Over] 7(2-) p by (simp add: stands_at_def flags_ok_def stop_publishing_def)
  moreover have "begins p s = Airing" "begins Over ?s = Stopped" "it_conn s = n"
    using p 7(5) by (simp_all add: begins_def stop_publishing_def)
  moreover have "it_events ?s = it_events s @ [IngestClosed n None True]"
    using 7(5) by (simp add: stop_publishing_def)
  ultimately have "said n Airing s (take_events now evs ?s)"
    by (intro said_Sent [of ?s s "IngestClosed n None True" n Airing Stopped]) simp_all
  then show ?case using p \<open>begins p s = Airing\<close> by simp
qed

lemma take_data_said:
  assumes "it_conn s = n" "flags_ok s" "stands_at (phase_of (sv_state (it_session s))) s"
  shows "said n (begins (phase_of (sv_state (it_session s))) s) s (take_data now data s)"
proof -
  obtain r session where f: "Server_Session.server_feed data (it_session s) = (r, session)"
    by (rule prod.exhaust)
  show ?thesis
  proof (cases r)
    case (Inl e)
    have "begins (phase_of (sv_state (it_session s))) s \<noteq> Left" by (simp add: begins_def)
    from hang_up_said [of "s\<lparr>it_session := session\<rparr>", OF _ this] assms(1) Inl f
    show ?thesis by (simp add: take_data_def)
  next
    case (Inr evs)
    from server_loop_follows [OF f [unfolded Server_Session.server_feed_def Inr]]
    have "runs_to (phase_of (sv_state (it_session s))) evs (s\<lparr>it_session := session\<rparr>)" by simp
    from take_events_said [OF this, of n now] assms show ?thesis
      by (simp add: take_data_def f Inr stands_at_def flags_ok_def begins_def)
  qed
qed

section \<open>Every step keeps to it\<close>

lemma ingest_ok_rest:
  assumes "ingest_ok n s" and "it_phase s \<noteq> Gone" "\<And>evs. it_phase s \<noteq> Deciding evs"
    "\<And>w u. it_phase s \<noteq> Refusing w u" "\<And>u. it_phase s \<noteq> Telling u"
    "\<And>ev evs. it_phase s \<noteq> Reserving ev evs"
  shows "it_conn s = n \<and> flags_ok s \<and> stands_at (phase_of (sv_state (it_session s))) s \<and>
    conversation_of s = begins (phase_of (sv_state (it_session s))) s"
  using assms
  by (auto simp: ingest_ok_def conversation_of_def at_rest_def begins_def split: ingest_phase.splits)

lemma wait_said:
  assumes "it_conn s = n" "flags_ok s" "stands_at (phase_of (sv_state (it_session s))) s"
    and "(\<exists>hs. p = Greeting hs) \<or> (\<exists>hs r. p = GreetingWrite hs r) \<or> (\<exists>t. p = Receiving t)"
  shows "said n (begins (phase_of (sv_state (it_session s))) s) s (wait_in p s)"
  using assms
  by (intro exI [of _ "[]"])
    (auto simp: conversation_of_def at_rest_def begins_def ingest_ok_def flags_ok_def stands_at_def)

lemma greeting_said:
  assumes "it_conn s = n" "flags_ok s" "stands_at (phase_of (sv_state (it_session s))) s"
  shows "said n (begins (phase_of (sv_state (it_session s))) s) s (greeting_data rnd now data hs s)"
proof -
  have q: "begins (phase_of (sv_state (it_session s))) s \<noteq> Left" by (simp add: begins_def)
  have s': "said n (begins (phase_of (sv_state (it_session s))) s) s (wait_in p (send_bytes bs s))"
    if "\<exists>hs r. p = GreetingWrite hs r" for p bs
    using wait_said [of "send_bytes bs s" n p] assms that
    by (simp add: flags_ok_def stands_at_def begins_def)
  show ?thesis
    using hang_up_said [OF assms(1) q] take_data_said [OF assms] wait_said [OF assms] s'
    unfolding greeting_data_def greet_def
    by (auto split: prod.splits sum.splits handshake_progress.splits if_splits)
qed

lemma refused_said:
  assumes "ingest_ok n s" "it_phase s = Deciding evs" "refused_by_core now why s l = (s', l')"
  shows "it_events s' = it_events s \<and> conversation_of s' = Refused \<and> ingest_ok n s'"
  using assms
  by (auto simp: refused_by_core_def ingest_ok_def conversation_of_def split: prod.splits if_splits)

lemma tell_refusal_said:
  assumes "ingest_ok n s" "it_phase s = Refusing why u"
  shows "it_events (tell_refusal now reason s) = it_events s \<and>
    conversation_of (tell_refusal now reason s) = Refused \<and> ingest_ok n (tell_refusal now reason s)"
  using assms by (auto simp: tell_refusal_def ingest_ok_def conversation_of_def split: prod.splits)

lemma accepted_said:
  assumes "ingest_ok n s" "it_phase s = Deciding evs"
  shows "said n Airing s (take_events now evs (accepted_by_core s))"
proof -
  let ?s = "accepted_by_core s"
  have asked: "runs_to Asked evs s" using assms by (simp add: ingest_ok_def)
  have "runs_to OnAir evs ?s"
  proof (cases evs)
    case Nil
    with asked have "sv_state (it_session s) = PublishPending" by (cases "sv_state (it_session s)") auto
    then have "sv_state (accept_publish (it_session s)) = Publishing"
      by (simp add: accept_publish_def Let_def)
    with Nil show ?thesis by (simp add: accepted_by_core_def)
  next
    case (Cons ev rest)
    with asked have "ev = Unpublish" by (cases ev) simp_all
    with Cons asked protocol_over [of rest] have "rest = []" "sv_state (it_session s) = Closed"
      by auto
    with Cons \<open>ev = Unpublish\<close> show ?thesis by (simp add: accepted_by_core_def accept_publish_def)
  qed
  from take_events_said [OF this, of n now] assms show ?thesis
    by (simp add: accepted_by_core_def stands_at_def flags_ok_def begins_def ingest_ok_def)
qed

text \<open>What a step lets be seen: the answer heard, and what it sends.\<close>

definition heard :: "ingest_input \<Rightarrow> saying list" where
  "heard i = (case i of CoreSays a \<Rightarrow> [Heard a] | _ \<Rightarrow> [])"

lemma said_nothing: "it_events s' = it_events s \<Longrightarrow> conversation_of s' = q \<Longrightarrow> ingest_ok n s' \<Longrightarrow> said n q s s'"
  by (intro exI [of _ "[]"]) simp

lemma time_up_said:
  assumes ok: "ingest_ok n s" and t: "time_up now s = Some s'"
  shows "said n (conversation_of s) s s'"
proof -
  have hang: "said n (conversation_of s) s (hang_up e s)" if "it_phase s \<noteq> Gone" for e
    by (rule hang_up_said)
      (use ok that in \<open>auto simp: ingest_ok_def conversation_of_def at_rest_def split: ingest_phase.splits\<close>)
  show ?thesis
  proof (cases "it_phase s")
    case (Refusing why u)
    with t have "s' = tell_refusal now why s" by (simp add: time_up_def split: if_splits)
    with tell_refusal_said [OF ok Refusing] Refusing show ?thesis
      by (intro said_nothing) (simp_all add: conversation_of_def)
  qed (use t hang in \<open>auto simp: time_up_def split: if_splits\<close>)
qed

lemma wrote_said:
  assumes ok: "ingest_ok n s" and t: "wrote now s = Some s'"
  shows "said n (conversation_of s) s s'"
proof (cases "it_phase s")
  case (GreetingWrite hs rest)
  note r = ingest_ok_rest [OF ok, unfolded GreetingWrite, simplified]
  from t GreetingWrite r wait_said [of s n "Greeting hs"] take_data_said [of s n now] show ?thesis
    by (auto simp: wrote_def split: option.splits)
next
  case (Telling u)
  with t ok hang_up_said [of s n "conversation_of s" None] show ?thesis
    by (auto simp: wrote_def conversation_of_def ingest_ok_def)
next
  case (Answering u)
  note r = ingest_ok_rest [OF ok, unfolded Answering, simplified]
  from t Answering r wait_said [of s n "Receiving now"] show ?thesis by (auto simp: wrote_def)
qed (use t in \<open>auto simp: wrote_def\<close>)

lemma ingest_step_said:
  assumes ok: "ingest_ok n s" and step: "ingest_step rnd now i (s, l) = Some (s', l')"
  shows "\<exists>evs. it_events s' = it_events s @ evs \<and>
    spec_run (talk n) (conversation_of s) (heard i @ map Sent evs) = Some (conversation_of s') \<and>
    ingest_ok n s'"
proof -
  have left: "conversation_of s \<noteq> Left" if "it_phase s \<noteq> Gone"
    using that by (auto simp: conversation_of_def at_rest_def split: ingest_phase.splits)
  have conn: "it_conn s = n" using ok by (simp add: ingest_ok_def)
  have hang: "said n (conversation_of s) s (hang_up e s)" if "it_phase s \<noteq> Gone" for e
    using hang_up_said [OF conn left [OF that]] .
  have quiet: "said n (conversation_of s) s s'" if "heard i = []"
  proof (cases i)
    case (GotBytes data)
    show ?thesis
    proof (cases "it_phase s")
      case (Greeting hs)
      note r = ingest_ok_rest [OF ok, unfolded Greeting, simplified]
      from step GotBytes Greeting r greeting_said [of s n rnd now data hs] show ?thesis by auto
    next
      case (Receiving u)
      note r = ingest_ok_rest [OF ok, unfolded Receiving, simplified]
      show ?thesis
      proof (cases "data = []")
        case True
        with step GotBytes Receiving have "it_phase s \<noteq> Gone" "s' = hang_up None s" by simp_all
        note this(2) hang [OF this(1)]
    then show ?thesis by (simp only:)
      next
        case False
        with step GotBytes Receiving r take_data_said [of s n now data] show ?thesis by simp
      qed
    qed (use step GotBytes in auto)
  next
    case (ReadFails e)
    with step have "it_phase s \<noteq> Gone" "s' = hang_up (Some e) s"
      by (auto simp: reading_def split: if_splits ingest_phase.splits)
    note this(2) hang [OF this(1)]
    then show ?thesis by (simp only:)
  next
    case TimeUp
    with step time_up_said [OF ok] show ?thesis by auto
  next
    case CoreGone
    with step have "it_phase s \<noteq> Gone" "s' = hang_up None s" by (auto split: ingest_phase.splits)
    note this(2) hang [OF this(1)]
    then show ?thesis by (simp only:)
  next
    case Room
    then obtain ev evs where p: "it_phase s = Reserving ev evs"
      and s': "s' = take_events now evs (send_event ev s)"
      using step by (auto split: ingest_phase.splits)
    have b: "is_media n ev" "runs_to OnAir evs (send_event ev s)" "stands_at OnAir (send_event ev s)"
      "flags_ok (send_event ev s)" "it_publishing s"
      using ok p by (auto simp: ingest_ok_def stands_at_def flags_ok_def)
    have "said n Airing (send_event ev s) s'"
      using take_events_said [OF b(2-4), of n now] conn b(5) s' by (simp add: begins_def)
    moreover have "conversation_of s = Airing" using p b(5) by (simp add: conversation_of_def at_rest_def)
    ultimately show ?thesis
      using said_Sent [of "send_event ev s" s ev n Airing Airing s'] b(1) by (simp add: is_media_def)
  next
    case Wrote
    with step wrote_said [OF ok] show ?thesis by auto
  next
    case (WriteFails e)
    with step have "it_phase s \<noteq> Gone" "s' = hang_up (Some e) s"
      by (auto simp: writing_out_def split: if_splits ingest_phase.splits)
    note this(2) hang [OF this(1)]
    then show ?thesis by (simp only:)
  next
    case ToldToClose
    with step have "it_phase s \<noteq> Gone" "s' = hang_up None s" by (auto split: if_splits)
    note this(2) hang [OF this(1)]
    then show ?thesis by (simp only:)
  qed (use that in \<open>simp add: heard_def\<close>)
  show ?thesis
  proof (cases i)
    case (CoreSays a)
    then obtain evs where p: "it_phase s = Deciding evs" using step by (auto split: ingest_phase.splits)
    then have w: "conversation_of s = Waiting" by (simp add: conversation_of_def)
    show ?thesis
    proof (cases a)
      case None
      with step CoreSays p have "s' = take_events now evs (accepted_by_core s)" by simp
      with accepted_said [OF ok p, of now] CoreSays None w show ?thesis by (auto simp: heard_def)
    next
      case (Some why)
      with step CoreSays p have "refused_by_core now why s l = (s', l')" by simp
      from refused_said [OF ok p this] CoreSays Some w show ?thesis
        by (intro exI [of _ "[]"]) (simp add: heard_def)
    qed
  qed (use quiet in \<open>simp_all add: heard_def\<close>)
qed

section \<open>The refinement\<close>

definition ingest_says :: "bytes \<Rightarrow> ingest_task \<Rightarrow> saying list \<Rightarrow> ingest_task \<Rightarrow> bool" where
  "ingest_says rnd s items s' \<longleftrightarrow>
     (\<exists>now i l l'. ingest_step rnd now i (s, l) = Some (s', l') \<and>
        items = heard i @ map Sent (drop (length (it_events s)) (it_events s')))"

interpretation encoder: invariant_refinement "talk n" conversation_of "ingest_says rnd" "ingest_ok n"
  for n rnd
proof
  fix s "is" t
  assume ok: "ingest_ok n s" and says: "ingest_says rnd s is t"
  from says obtain now i l l' where "ingest_step rnd now i (s, l) = Some (t, l')"
    and items: "is = heard i @ map Sent (drop (length (it_events s)) (it_events t))"
    unfolding ingest_says_def by blast
  from ingest_step_said [OF ok this(1)] obtain evs where "it_events t = it_events s @ evs"
    "spec_run (talk n) (conversation_of s) (heard i @ map Sent evs) = Some (conversation_of t)"
    "ingest_ok n t" by blast
  with items show "spec_run (talk n) (conversation_of s) is = Some (conversation_of t) \<and> ingest_ok n t"
    by simp
qed

lemma new_ingest_ok: "ingest_ok n (new_ingest n peer ip addr timeout now)"
  by (simp add: ingest_ok_def new_ingest_def flags_ok_def stands_at_def)

lemma new_ingest_quiet: "conversation_of (new_ingest n peer ip addr timeout now) = Quiet"
  by (simp add: conversation_of_def at_rest_def new_ingest_def)

text \<open>
  C17. An encoder connection asks before it streams: whatever bytes the peer sends and however
  its waits end, it asks the core at most once whether it may publish, passes on media and
  metadata only from the core's yes to the end of the stream, and says last that it left. Its
  place counts as in use exactly from the question to the refusal or the end of the stream,
  so no stream on air is closed to make room; and it has a deadline to publish by whenever it
  is not on air.
\<close>

theorem ingest_asks_first:
  assumes "trace_steps (ingest_says rnd) (new_ingest n peer ip addr timeout t0) items s"
  shows "spec_run (talk n) Quiet items = Some (conversation_of s) \<and>
    (it_phase s = Gone \<or>
       (it_in_use s \<longleftrightarrow> conversation_of s \<in> {Waiting, Airing}) \<and>
       (it_deadline s = None \<longleftrightarrow> conversation_of s = Airing))"
proof -
  from encoder.trace_keeps [OF assms new_ingest_ok] new_ingest_quiet
  have r: "spec_run (talk n) Quiet items = Some (conversation_of s)" and ok: "ingest_ok n s" by simp_all
  from ok have "it_phase s = Gone \<or> (it_in_use s \<longleftrightarrow> conversation_of s \<in> {Waiting, Airing}) \<and>
      (it_deadline s = None \<longleftrightarrow> conversation_of s = Airing)"
    by (auto simp: ingest_ok_def conversation_of_def at_rest_def flags_ok_def split: ingest_phase.splits)
  with r show ?thesis by blast
qed

text \<open>A peer that connects and says nothing is gone at its deadline.\<close>

theorem ingest_asks_first_witness:
  "\<exists>s. ingest_says [] (new_ingest 7 [] [] (V4 10 0 0 1) 15 0)
      [Sent (IngestClosed 7 (Some not_publishing) False)] s \<and>
    spec_run (talk 7) Quiet [Sent (IngestClosed 7 (Some not_publishing) False)] = Some Left"
proof -
  let ?s = "new_ingest 7 [] [] (V4 10 0 0 1) 15 0"
  let ?e = "[Sent (IngestClosed 7 (Some not_publishing) False)]"
  have "ingest_step [] 15 TimeUp (?s, new_key_log) = Some (hang_up (Some not_publishing) ?s, new_key_log)"
    by (simp add: time_up_def new_ingest_def late_def)
  then have says: "ingest_says [] ?s ?e (hang_up (Some not_publishing) ?s)"
    unfolding ingest_says_def
    by (intro exI [of _ 15] exI [of _ TimeUp] exI [of _ new_key_log]) (simp add: heard_def new_ingest_def)
  then have "trace_steps (ingest_says []) ?s ([] @ ?e) (hang_up (Some not_publishing) ?s)"
    by (rule trace_steps.snoc [OF trace_steps.none])
  from ingest_asks_first [OF this] says show ?thesis by (auto simp: conversation_of_def)
qed

text \<open>A wait for bytes starts when the input that led to it came.\<close>

lemma take_events_since: "it_phase (take_events now evs s) = Receiving since \<Longrightarrow> since = now"
  by (induction now evs s rule: take_events.induct)
    (auto simp: answer_session_def wait_in_def send_bytes_def ask_to_publish_def send_event_def Let_def
      split: prod.splits if_splits)

lemma take_data_since: "it_phase (take_data now data s) = Receiving since \<Longrightarrow> since = now"
  using take_events_since
  by (auto simp: take_data_def hang_up_def wait_in_def split: prod.splits sum.splits)

lemma greeting_since: "it_phase (greeting_data rnd now data hs s) = Receiving since \<Longrightarrow> since = now"
  using take_data_since
  by (auto simp: greeting_data_def greet_def hang_up_def wait_in_def
      split: prod.splits sum.splits handshake_progress.splits if_splits)

lemma hang_up_gone [simp]:
  "it_phase (hang_up e s) = Gone"
  "it_events (hang_up e s) = it_events s @ [IngestClosed (it_conn s) e False]"
  by (simp_all add: hang_up_def wait_in_def send_event_def)

lemma time_up_since: "time_up now s = Some s' \<Longrightarrow> it_phase s' \<noteq> Receiving since"
  by (auto simp: time_up_def tell_refusal_def wait_in_def split: ingest_phase.splits if_splits prod.splits)

lemma wrote_since: "wrote now s = Some s' \<Longrightarrow> it_phase s' = Receiving since \<Longrightarrow> since = now"
  using take_data_since
  by (auto simp: wrote_def wait_in_def split: ingest_phase.splits option.splits)

lemma step_since:
  assumes "ingest_step rnd now i (s, l) = Some (s', l')" and "it_phase s' = Receiving since"
  shows "since = now"
  using assms
proof (cases i)
  case (CoreSays a)
  with assms take_events_since show ?thesis
    by (auto simp: refused_by_core_def wait_in_def split: ingest_phase.splits option.splits prod.splits if_splits)
qed (use assms time_up_since wrote_since take_data_since take_events_since greeting_since in
  \<open>auto split: ingest_phase.splits if_splits\<close>)

text \<open>
  C18. A connection cannot keep its place without publishing or without sending. One that is
  neither on air nor waiting for the core's answer, and that waits for the peer, has a deadline to
  publish by, and is closed as soon as it is over. One that waits for bytes, on air or not, is
  closed as soon as it waited 30 seconds, and unless its deadline is over not before; the wait
  is counted from the input before it, so whatever it sends (or reads) starts it anew. One that
  does not read what is written to it is closed after 30 seconds as well. In each case the
  core is told that it is gone, and why.
\<close>

theorem idle_connection_is_closed:
  assumes "trace_steps (ingest_says rnd) (new_ingest n peer ip addr timeout t0) items s"
  shows "(reading (it_phase s) \<and> conversation_of s \<noteq> Airing \<longrightarrow>
      (\<exists>d. it_deadline s = Some d \<and>
         (\<forall>now \<ge> d. ingest_step rnd now TimeUp (s, l) = Some (hang_up (Some not_publishing) s, l)))) \<and>
    (\<forall>since now. it_phase s = Receiving since \<longrightarrow>
      ingest_step rnd now TimeUp (s, l) =
        (if late now s then Some (hang_up (Some not_publishing) s, l)
         else if since + IDLE_TIMEOUT \<le> now then Some (hang_up (Some (ascii ''timed out'')) s, l)
         else None)) \<and>
    (\<forall>since now. it_phase s = Answering since \<or> it_phase s = Telling since \<longrightarrow>
      ingest_step rnd now TimeUp (s, l) =
        (if since + IDLE_TIMEOUT \<le> now then Some (hang_up (Some stopped_reading) s, l) else None)) \<and>
    (\<forall>now i s' l' since. ingest_step rnd now i (s, l) = Some (s', l') \<and> it_phase s' = Receiving since \<longrightarrow>
      since = now) \<and>
    (\<forall>why. it_phase (hang_up (Some why) s) = Gone \<and>
      it_events (hang_up (Some why) s) = it_events s @ [IngestClosed n (Some why) False])"
proof -
  from encoder.trace_keeps [OF assms new_ingest_ok] have ok: "ingest_ok n s" by simp
  then have conn: "it_conn s = n" by (simp add: ingest_ok_def)
  have "\<exists>d. it_deadline s = Some d \<and>
      (\<forall>now \<ge> d. ingest_step rnd now TimeUp (s, l) = Some (hang_up (Some not_publishing) s, l))"
    if "reading (it_phase s)" "conversation_of s \<noteq> Airing"
  proof -
    from ok that have "it_deadline s \<noteq> None"
      by (auto simp: reading_def ingest_ok_def conversation_of_def at_rest_def flags_ok_def
          split: ingest_phase.splits)
    then obtain d where d: "it_deadline s = Some d" by blast
    have "time_up now s = Some (hang_up (Some not_publishing) s)" if "d \<le> now" for now
      using that \<open>reading (it_phase s)\<close> d
      by (auto simp: time_up_def late_def read_until_def reading_def split: ingest_phase.splits)
    with d show ?thesis by simp
  qed
  moreover have "ingest_step rnd now TimeUp (s, l) =
        (if late now s then Some (hang_up (Some not_publishing) s, l)
         else if since + IDLE_TIMEOUT \<le> now then Some (hang_up (Some (ascii ''timed out'')) s, l)
         else None)" if "it_phase s = Receiving since" for since now
    using that by (auto simp: time_up_def late_def read_until_def split: option.splits)
  ultimately show ?thesis using step_since conn by (auto simp: time_up_def)
qed

text \<open>A connection that says nothing is closed at its deadline.\<close>

theorem idle_connection_is_closed_witness:
  "\<exists>d. it_deadline (new_ingest 7 [] [] (V4 10 0 0 1) 15 0) = Some d \<and> d = 15 \<and>
     ingest_step [] d TimeUp (new_ingest 7 [] [] (V4 10 0 0 1) 15 0, new_key_log) =
       Some (hang_up (Some not_publishing) (new_ingest 7 [] [] (V4 10 0 0 1) 15 0), new_key_log)"
proof -
  let ?s = "new_ingest 7 [] [] (V4 10 0 0 1) 15 0"
  have r: "reading (it_phase ?s)" by (simp add: reading_def new_ingest_def)
  have q: "conversation_of ?s \<noteq> Airing" by (simp add: new_ingest_quiet)
  from idle_connection_is_closed [OF trace_steps.none, where rnd = "[]" and n = 7 and peer = "[]" and ip = "[]" and
      addr = "V4 10 0 0 1" and timeout = 15 and ?t0.0 = 0 and l = new_key_log] r q
  obtain d where "it_deadline ?s = Some d"
    "ingest_step [] d TimeUp (?s, new_key_log) = Some (hang_up (Some not_publishing) ?s, new_key_log)"
    by blast
  moreover have "it_deadline ?s = Some 15" by (simp add: new_ingest_def)
  ultimately show ?thesis by simp
qed

end
