(* ===== verification/Ingest_Listener.thy ===== *)
theory Ingest_Listener
  imports Ingest_Promises
begin

text \<open>
  The listener (\<^verbatim>\<open>listen_as\<close> of \<^verbatim>\<open>crates/relay/src/ingest.rs\<close>): the connections that are
  open, their places, and the log of wrong keys they share. A step is a new connection or a
  step of one that is open; which, and when, is up to the environment. A connection told to
  close to make room for another has lost its place, and ends when its task gets to it.
\<close>

section \<open>State and steps\<close>

record listener =
  ls_next :: nat
  ls_slots :: "conn_entry list"
  ls_tasks :: "ingest_task list"
  ls_keys :: bad_key_log
  ls_inbox :: "event list"

definition new_listener :: listener where
  "new_listener =
     \<lparr>ls_next = 1, ls_slots = [], ls_tasks = [], ls_keys = new_key_log, ls_inbox = []\<rparr>"

definition accept_conn ::
  "nat \<Rightarrow> nat \<Rightarrow> bytes \<Rightarrow> bytes \<Rightarrow> ip_addr \<Rightarrow> listener \<Rightarrow> listener" where
  "accept_conn timeout now peer ip addr L =
     (let n = ls_next L;
          (_, slots, taken) = admit n (counted_by addr) (ls_slots L);
          L = L\<lparr>ls_next := n + 1, ls_slots := slots\<rparr>
      in if taken then L\<lparr>ls_tasks := ls_tasks L @ [new_ingest n peer ip addr timeout now]\<rparr> else L)"

text \<open>After a step of a connection: its flags are those of its place, which it gives up at its end.\<close>

definition show_flags :: "ingest_task \<Rightarrow> conn_entry list \<Rightarrow> conn_entry list" where
  "show_flags t v =
     (let v = set_publishing (it_conn t) (it_in_use t) v
      in if it_refused t then set_refused (it_conn t) v else v)"

definition task_done :: "ingest_task \<Rightarrow> ingest_task \<Rightarrow> bad_key_log \<Rightarrow> listener \<Rightarrow> listener" where
  "task_done t t' keys L =
     (let n = it_conn t;
          L = L\<lparr>ls_keys := keys,
                ls_inbox := ls_inbox L @ drop (length (it_events t)) (it_events t')\<rparr>
      in if it_phase t' = Gone
         then L\<lparr>ls_tasks := filter (\<lambda>u. it_conn u \<noteq> n) (ls_tasks L), ls_slots := leave n (ls_slots L)\<rparr>
         else L\<lparr>ls_tasks := map (\<lambda>u. if it_conn u = n then t' else u) (ls_tasks L),
                ls_slots := show_flags t' (ls_slots L)\<rparr>)"

inductive listener_step :: "nat \<Rightarrow> bytes \<Rightarrow> listener \<Rightarrow> listener \<Rightarrow> bool" for timeout rnd where
  accept: "listener_step timeout rnd L (accept_conn timeout now peer ip addr L)"
| act: "t \<in> set (ls_tasks L) \<Longrightarrow> ingest_step rnd now i (t, ls_keys L) = Some (t', keys) \<Longrightarrow>
    listener_step timeout rnd L (task_done t t' keys L)"

inductive_cases listener_stepE: "listener_step timeout rnd L L'"

section \<open>The invariant\<close>

definition has_task :: "ingest_task list \<Rightarrow> conn_entry \<Rightarrow> bool" where
  "has_task ts e \<longleftrightarrow> (\<exists>t \<in> set ts. it_conn t = ce_id e \<and> it_in_use t = ce_publishing e \<and>
     (it_refused t \<longrightarrow> ce_refused e))"

definition listener_ok :: "listener \<Rightarrow> bool" where
  "listener_ok L \<longleftrightarrow> slots_ok (ls_slots L) \<and> distinct (map it_conn (ls_tasks L)) \<and>
     (\<forall>t \<in> set (ls_tasks L). it_conn t < ls_next L \<and> ingest_ok (it_conn t) t \<and> it_phase t \<noteq> Gone) \<and>
     (\<forall>e \<in> set (ls_slots L). ce_id e < ls_next L \<and> has_task (ls_tasks L) e)"

lemma admit_entries:
  assumes "slots_ok v" "n \<notin> ce_id ` set v" "admit n addr v = (closed, v', taken)"
  shows "slots_ok v' \<and> (\<forall>e \<in> set v'. e \<in> set v \<or>
    taken \<and> e = \<lparr>ce_id = n, ce_addr = addr, ce_publishing = False, ce_refused = False\<rparr>) \<and>
    (\<forall>e \<in> set v. ce_publishing e \<longrightarrow> e \<in> set v')"
proof -
  note c = admit_room [OF assms]
  show ?thesis using c by (auto split: if_splits)
qed

lemma accept_ok:
  assumes ok: "listener_ok L"
  shows "listener_ok (accept_conn timeout now peer ip addr L)"
proof -
  let ?n = "ls_next L"
  obtain closed v' taken where a: "admit ?n (counted_by addr) (ls_slots L) = (closed, v', taken)"
    by (metis prod.exhaust)
  have fresh: "?n \<notin> ce_id ` set (ls_slots L)" using ok by (auto simp: listener_ok_def)
  note e = admit_entries [OF _ fresh a]
  let ?t = "new_ingest ?n peer ip addr timeout now"
  have t: "it_conn ?t = ?n" "it_phase ?t \<noteq> Gone" "\<not> it_in_use ?t" "\<not> it_refused ?t"
    by (simp_all add: new_ingest_def)
  have has: "has_task (ls_tasks L @ [?t]) e" if "has_task (ls_tasks L) e" for e
    using that by (auto simp: has_task_def)
  show ?thesis
  proof (cases taken)
    case True
    have "has_task (ls_tasks L @ [?t]) e" if "e \<in> set v'" for e
      using that e ok t has True by (auto simp: listener_ok_def has_task_def)
    with True ok e t new_ingest_ok show ?thesis
      by (fastforce simp: accept_conn_def a Let_def listener_ok_def)
  next
    case False
    with ok e show ?thesis by (fastforce simp: accept_conn_def a Let_def listener_ok_def)
  qed
qed

lemma show_flags_eq:
  "show_flags t v = map (\<lambda>e. if ce_id e = it_conn t
     then e\<lparr>ce_publishing := it_in_use t, ce_refused := it_refused t \<or> ce_refused e\<rparr> else e) v"
  by (auto simp: show_flags_def set_publishing_def set_refused_def Let_def)

lemma act_ok:
  assumes ok: "listener_ok L" and t: "t \<in> set (ls_tasks L)"
    and step: "ingest_step rnd now i (t, ls_keys L) = Some (t', keys)"
  shows "listener_ok (task_done t t' keys L)"
proof -
  let ?n = "it_conn t"
  have okt: "ingest_ok ?n t" using ok t by (simp add: listener_ok_def)
  from ingest_step_said [OF okt step] have okt': "ingest_ok ?n t'" by blast
  then have n': "it_conn t' = ?n" by (simp add: ingest_ok_def)
  have slots: "slots_ok (ls_slots L)" using ok by (simp add: listener_ok_def)
  show ?thesis
  proof (cases "it_phase t' = Gone")
    case True
    have "slots_ok (leave ?n (ls_slots L))" by (rule slots_ok_leave [OF slots])
    moreover have "has_task (filter (\<lambda>u. it_conn u \<noteq> ?n) (ls_tasks L)) e"
      if "has_task (ls_tasks L) e" "ce_id e \<noteq> ?n" for e
      using that by (fastforce simp: has_task_def)
    ultimately show ?thesis
      using True ok by (auto simp: task_done_def Let_def listener_ok_def leave_def distinct_map_filter)
  next
    case False
    have "slots_ok (show_flags t' (ls_slots L))"
      unfolding show_flags_eq by (subst slots_ok_map) (use slots in auto)
    moreover have "it_conn \<circ> (\<lambda>u. if it_conn u = ?n then t' else u) = it_conn"
      using n' by auto
    then have "distinct (map it_conn (map (\<lambda>u. if it_conn u = ?n then t' else u) (ls_tasks L)))"
      using ok by (simp only: map_map listener_ok_def)
    moreover have "has_task (map (\<lambda>u. if it_conn u = ?n then t' else u) (ls_tasks L)) e'"
      if "e' \<in> set (show_flags t' (ls_slots L))" for e'
    proof -
      from that obtain e where e: "e \<in> set (ls_slots L)" and e': "e' = (if ce_id e = ?n
          then e\<lparr>ce_publishing := it_in_use t', ce_refused := it_refused t' \<or> ce_refused e\<rparr> else e)"
        by (auto simp: show_flags_eq n')
      from e ok obtain u where u: "u \<in> set (ls_tasks L)" "it_conn u = ce_id e"
          "it_in_use u = ce_publishing e" "it_refused u \<longrightarrow> ce_refused e"
        by (auto simp: listener_ok_def has_task_def)
      show ?thesis
      proof (cases "ce_id e = ?n")
        case True
        have "t' \<in> set (map (\<lambda>u. if it_conn u = ?n then t' else u) (ls_tasks L))" using t by auto
        with True e' n' show ?thesis unfolding has_task_def by (intro bexI [of _ t']) auto
      next
        case False
        with u have "u \<in> set (map (\<lambda>u. if it_conn u = ?n then t' else u) (ls_tasks L))" by force
        with False u e' show ?thesis unfolding has_task_def by (intro bexI [of _ u]) auto
      qed
    qed
    moreover have "ce_id e < ls_next L" if "e \<in> set (show_flags t' (ls_slots L))" for e
      using that ok by (auto simp: show_flags_eq listener_ok_def)
    ultimately show ?thesis
      using False ok okt' n' t by (auto simp: task_done_def Let_def listener_ok_def)
  qed
qed

interpretation listening: state_machine "\<lambda>L. L = new_listener" "listener_step timeout rnd" listener_ok
  for timeout rnd
proof
  show "listener_ok L" if "L = new_listener" for L
    using that by (simp add: new_listener_def listener_ok_def slots_ok_def)
  show "listener_ok L'" if "listener_ok L" "listener_step timeout rnd L L'" for L L'
    using that(2) by cases (auto intro: accept_ok [OF that(1)] act_ok [OF that(1)])
qed

section \<open>Who keeps a place\<close>

definition on_slot :: "listener \<Rightarrow> ingest_task \<Rightarrow> bool" where
  "on_slot L t \<longleftrightarrow> t \<in> set (ls_tasks L) \<and> it_conn t \<in> ce_id ` set (ls_slots L)"

text \<open>
  C16. In every state of the listener there are at most sixteen places in use, four of one
  address from the network, each a connection's own; and whoever connects, a connection that is
  on air or waits for the core's answer keeps its place, and the newcomer gets one as long as
  some connection of those it competes with is neither.
\<close>

theorem on_air_keeps_its_place:
  assumes reach: "(listener_step timeout rnd)\<^sup>*\<^sup>* new_listener L"
    and t: "on_slot L t" and busy: "conversation_of t \<in> {Waiting, Airing}"
    and L'_def: "L' = accept_conn timeout now peer ip addr L"
  shows "slots_ok (ls_slots L) \<and> on_slot L' t \<and>
    (\<exists>e \<in> set (ls_slots L'). ce_id e = it_conn t \<and> ce_publishing e) \<and>
    ((\<exists>u. on_slot L u \<and> conversation_of u \<notin> {Waiting, Airing} \<and> counted_by addr = None) \<longrightarrow>
       ls_next L \<in> ce_id ` set (ls_slots L'))"
proof -
  have ok: "listener_ok L" using listening.reachable_inv [OF refl reach] .
  let ?n = "ls_next L"
  obtain closed v' taken where a: "admit ?n (counted_by addr) (ls_slots L) = (closed, v', taken)"
    by (metis prod.exhaust)
  have fresh: "?n \<notin> ce_id ` set (ls_slots L)" using ok by (auto simp: listener_ok_def)
  have slots: "slots_ok (ls_slots L)" using ok by (simp add: listener_ok_def)
  note ad = admit_entries [OF slots fresh a]
  have use: "it_in_use u \<longleftrightarrow> conversation_of u \<in> {Waiting, Airing}" if "u \<in> set (ls_tasks L)" for u
    using ok that
    by (auto simp: listener_ok_def ingest_ok_def conversation_of_def at_rest_def flags_ok_def
        split: ingest_phase.splits)
  have entry: "ce_publishing e = it_in_use u" if "e \<in> set (ls_slots L)" "u \<in> set (ls_tasks L)"
      "ce_id e = it_conn u" for e u
  proof -
    from that(1) ok obtain w where "w \<in> set (ls_tasks L)" "it_conn w = ce_id e"
      "it_in_use w = ce_publishing e" by (auto simp: listener_ok_def has_task_def)
    moreover have "inj_on it_conn (set (ls_tasks L))"
      using ok by (simp add: listener_ok_def distinct_map)
    ultimately show ?thesis using that by (auto dest: inj_onD)
  qed
  from t obtain e where e: "e \<in> set (ls_slots L)" "ce_id e = it_conn t" and t': "t \<in> set (ls_tasks L)"
    by (auto simp: on_slot_def)
  have pub: "ce_publishing e" using entry [OF e(1) t' e(2)] use [OF t'] busy by simp
  with ad e(1) have e': "e \<in> set v'" by blast
  have L': "ls_slots L' = v'" "set (ls_tasks L) \<subseteq> set (ls_tasks L')"
    by (auto simp: L'_def accept_conn_def a Let_def)
  have room: "?n \<in> ce_id ` set v'"
    if "on_slot L u" "conversation_of u \<notin> {Waiting, Airing}" "counted_by addr = None" for u
  proof -
    from that(1) obtain d where "d \<in> set (ls_slots L)" "ce_id d = it_conn u" "u \<in> set (ls_tasks L)"
      by (auto simp: on_slot_def)
    with entry use that(2) have "\<exists>d \<in> set (ls_slots L). \<not> ce_publishing d" by blast
    with admit_room [OF slots fresh a] that(3) have taken by simp
    with admit_room [OF slots fresh a] show ?thesis by (auto simp: image_iff)
  qed
  have "it_conn t \<in> ce_id ` set v'" using e' e(2) by force
  then show ?thesis
    unfolding on_slot_def L'(1) using slots e' e(2) pub t' L'(2) room by (auto simp: on_slot_def)
qed

end
