(* ===== verification/Ingest_Examples.thy ===== *)
theory Ingest_Examples
  imports Ingest_Listener Session_Media
begin

text \<open>
  A concrete listener: one connection from this computer, through the handshake, \<open>connect\<close>
  and \<open>publish\<close>, up to the question to the core; another connects beside it.
\<close>

definition alone :: "listener \<Rightarrow> ingest_task \<Rightarrow> bool" where
  "alone L t \<longleftrightarrow> (listener_step 15 [])\<^sup>*\<^sup>* new_listener L \<and> ls_tasks L = [t] \<and>
     map ce_id (ls_slots L) = [it_conn t]"

lemma alone_step:
  assumes "alone L t" and "\<And>l. ingest_step [] now i (t, l) = Some (t', l)"
    and "it_phase t' \<noteq> Gone" "it_conn t' = it_conn t"
  shows "\<exists>L'. alone L' t'"
proof -
  have "listener_step 15 [] L (task_done t t' (ls_keys L) L)"
    by (rule listener_step.act) (use assms(1,2) in \<open>auto simp: alone_def\<close>)
  with assms have "alone (task_done t t' (ls_keys L) L) t'"
    by (auto simp: alone_def task_done_def Let_def show_flags_eq comp_def if_distrib cong: if_cong)
  then show ?thesis by blast
qed

lemma only_connects:
  "spec_run protocol Fresh (map Ev evs) = Some Joined \<Longrightarrow> \<exists>a b c. evs = [Connect a b c]"
proof (cases evs)
  case (Cons ev rest)
  assume run: "spec_run protocol Fresh (map Ev evs) = Some Joined"
  with Cons have "\<exists>a b c. ev = Connect a b c" "spec_run protocol Joined (map Ev rest) = Some Joined"
    by (cases ev; simp)+
  moreover have "rest = []"
  proof (cases rest)
    case (Cons e es)
    with calculation(2) have "spec_run protocol Asked (map Ev es) = Some Joined" by (cases e) simp_all
    then show ?thesis
    proof (cases es)
      case (Cons f fs)
      with \<open>spec_run protocol Asked (map Ev es) = Some Joined\<close> protocol_over [of fs] show ?thesis
        by (cases f) auto
    qed simp
  qed simp
  ultimately show ?thesis using Cons by blast
qed simp

lemma only_asks:
  "spec_run protocol Joined (map Ev evs) = Some Asked \<Longrightarrow> \<exists>a k. evs = [PublishRequest a k]"
proof (cases evs)
  case (Cons ev rest)
  assume run: "spec_run protocol Joined (map Ev evs) = Some Asked"
  with Cons have "\<exists>a k. ev = PublishRequest a k" and r: "spec_run protocol Asked (map Ev rest) = Some Asked"
    by (cases ev; simp)+
  moreover have "rest = []"
  proof (cases rest)
    case (Cons e es)
    with r protocol_over [of es] show ?thesis by (cases e) auto
  qed simp
  ultimately show ?thesis using Cons by blast
qed simp

lemma answer_session_conn [simp]: "it_conn (answer_session now s) = it_conn s"
  by (simp add: answer_session_def Let_def split: prod.splits)

lemma answer_session_then:
  assumes "alone L (answer_session now s)"
  shows "\<exists>L' t. alone L' t \<and> it_phase t = Receiving now \<and> it_conn t = it_conn s \<and>
    lk_decoder (sv_link (it_session t)) = lk_decoder (sv_link (it_session s)) \<and>
    sv_state (it_session t) = sv_state (it_session s)"
proof -
  let ?t = "answer_session now s"
  have same: "lk_decoder (sv_link (it_session ?t)) = lk_decoder (sv_link (it_session s)) \<and>
    sv_state (it_session ?t) = sv_state (it_session s)"
    by (auto simp: answer_session_def server_take_output_def take_output_def Let_def split: prod.splits)
  show ?thesis
  proof (cases "it_phase ?t = Receiving now")
    case True
    with assms same show ?thesis by (intro exI [of _ L] exI [of _ ?t]) simp
  next
    case False
    then have "it_phase ?t = Answering now"
      by (auto simp: answer_session_def Let_def split: prod.splits if_splits)
    then have "ingest_step [] now Wrote (?t, l) = Some (wait_in (Receiving now) ?t, l)" for l
      by (simp add: wrote_def)
    from alone_step [OF assms this] same show ?thesis by fastforce
  qed
qed

lemma new_session_connects:
  "\<exists>a b c s1. Server_Session.server_feed (write_chunks 128 (bare_command ''connect''))
      (new_server_session default_server_config) = (Inr [Connect a b c], s1) \<and>
    sv_state s1 = Connected \<and> quiet s1 \<and>
    took (bare_command ''connect'') [] (lk_decoder (sv_link (new_server_session default_server_config)))
      (lk_decoder (sv_link s1))"
proof -
  let ?new = "new_server_session default_server_config"
  have "server_room ?new (bare_command ''connect'')"
    by (rule bare_room) (simp_all add: new_session_decoder MAX_CHUNK_STREAMS_def)
  from feed_command [OF new_session_decoder(1,2) this _ new_session_decoder(4),
      where P = "\<lambda>_ st. st = Connected"] bare_connects
  obtain evs s1 where f: "Server_Session.server_feed (write_chunks 128 (bare_command ''connect'')) ?new = (Inr evs, s1)"
    and s1: "sv_state s1 = Connected" "quiet s1"
    "took (bare_command ''connect'') [] (lk_decoder (sv_link ?new)) (lk_decoder (sv_link s1))"
    by (auto simp: bare_command_def)
  from server_loop_follows [OF f [unfolded Server_Session.server_feed_def]] s1(1)
  have "spec_run protocol Fresh (map Ev evs) = Some Joined" by simp
  from only_connects [OF this] f s1 show ?thesis by blast
qed

lemma connected_publishes:
  assumes "sv_state s = Connected" "quiet s"
    and t: "took (bare_command ''connect'') []
      (lk_decoder (sv_link (new_server_session default_server_config))) (lk_decoder (sv_link s))"
  shows "\<exists>a k s2. Server_Session.server_feed (write_chunks 128 (bare_command ''publish'')) s =
    (Inr [PublishRequest a k], s2)"
proof -
  have d: "pending_of s = []" "cd_chunk_size (lk_decoder (sv_link s)) = 128"
    "cd_max_other (lk_decoder (sv_link s)) = Some MAX_PRE_PUBLISH_MESSAGE"
    using t new_session_decoder [of default_server_config] by (simp_all add: took_def pending_of_def)
  have "fst ` set (cd_streams (lk_decoder (sv_link s))) = {CSID_COMMAND}"
    using t new_session_decoder [of default_server_config] by (simp add: took_def bare_command_def)
  then have "map_of (cd_streams (lk_decoder (sv_link s))) CSID_COMMAND \<noteq> None"
    by (simp add: map_of_eq_None_iff)
  then have "server_room s (bare_command ''publish'')" by (intro bare_room) (simp_all add: d)
  from feed_command [OF assms(2) d(1) this _ d(2), where P = "\<lambda>_ st. st = session_state.PublishPending"]
    bare_publishes assms(1)
  obtain evs s2 where f: "Server_Session.server_feed (write_chunks 128 (bare_command ''publish'')) s = (Inr evs, s2)"
    and s2: "sv_state s2 = session_state.PublishPending" by (auto simp: bare_command_def)
  from server_loop_follows [OF f [unfolded Server_Session.server_feed_def]] s2 assms(1)
  have "spec_run protocol Joined (map Ev evs) = Some Asked" by simp
  from only_asks [OF this] f show ?thesis by blast
qed

definition hello :: bytes where
  "hello = 3 # replicate 1536 0 @ replicate 1536 0 @ write_chunks 128 (bare_command ''connect'')"

lemma hello_greets:
  "\<exists>bs hs. Handshake.server_feed [] hello new_server =
    (Inr (Finished (write_chunks 128 (bare_command ''connect''))), hs, 3 # bs)"
  by (simp add: Handshake.server_feed_def new_server_def server_c0c1_def server_c2_def server_done_def
      hello_def HANDSHAKE_SIZE_def RTMP_VERSION_def Let_def)

lemma someone_asks: "\<exists>L t. alone L t \<and> conversation_of t = Waiting \<and> it_conn t = 1"
proof -
  let ?t0 = "new_ingest 1 [] [] (V4 127 0 0 1) 15 0"
  let ?L0 = "accept_conn 15 0 [] [] (V4 127 0 0 1) new_listener"
  have "listener_step 15 [] new_listener ?L0" by (rule listener_step.accept)
  then have a0: "alone ?L0 ?t0"
    by (auto simp: alone_def accept_conn_def new_listener_def admit_def counted_by_def Let_def
        MAX_CONNECTIONS_def) (simp_all add: new_ingest_def)
  obtain bs hs where g: "Handshake.server_feed [] hello new_server =
    (Inr (Finished (write_chunks 128 (bare_command ''connect''))), hs, 3 # bs)" using hello_greets by blast
  let ?t1 = "wait_in (GreetingWrite hs (Some (write_chunks 128 (bare_command ''connect''))))
    (send_bytes (3 # bs) ?t0)"
  have "ingest_step [] 0 (GotBytes hello) (?t0, l) = Some (?t1, l)" for l
    by (simp add: new_ingest_def greeting_data_def g greet_def) (simp add: hello_def)
  from alone_step [OF a0 this] obtain L1 where a1: "alone L1 ?t1" by (auto simp: new_ingest_def)
  obtain a b c s1 where f: "Server_Session.server_feed (write_chunks 128 (bare_command ''connect''))
      (new_server_session default_server_config) = (Inr [Connect a b c], s1)"
    and s1: "sv_state s1 = Connected" "quiet s1"
      "took (bare_command ''connect'') [] (lk_decoder (sv_link (new_server_session default_server_config)))
        (lk_decoder (sv_link s1))"
    using new_session_connects by blast
  let ?t2 = "?t1\<lparr>it_session := s1, it_props := forwarded_props c\<rparr>"
  have session: "it_session (new_ingest n [] [] (V4 127 0 0 1) 15 0) = new_server_session default_server_config"
    for n by (simp add: new_ingest_def)
  have "ingest_step [] 0 Wrote (?t1, l) = Some (answer_session 0 ?t2, l)" for l
    by (simp add: wrote_def take_data_def session f)
  moreover have "it_phase (answer_session 0 ?t2) \<noteq> Gone"
    by (auto simp: answer_session_def Let_def split: prod.splits)
  ultimately obtain L2 where "alone L2 (answer_session 0 ?t2)"
    using alone_step [OF a1, of 0 Wrote "answer_session 0 ?t2"] by auto
  from answer_session_then [OF this] obtain L3 t3 where a3: "alone L3 t3" and
    t3: "it_phase t3 = Receiving 0" "it_conn t3 = 1"
      "lk_decoder (sv_link (it_session t3)) = lk_decoder (sv_link s1)" "sv_state (it_session t3) = Connected"
    using s1(1) by (auto simp: new_ingest_def)
  have "quiet (it_session t3)" using s1(2) t3(3) by (simp add: quiet_def)
  with connected_publishes [of "it_session t3"] t3 s1(3) obtain a' k s4 where
    f4: "Server_Session.server_feed (write_chunks 128 (bare_command ''publish'')) (it_session t3) =
      (Inr [PublishRequest a' k], s4)" by auto
  let ?t4 = "wait_in (Deciding []) (ask_to_publish a' k (t3\<lparr>it_session := s4\<rparr>))"
  have "write_chunks 128 (bare_command ''publish'') \<noteq> []" by (simp add: write_chunks_def Let_def)
  then have "ingest_step [] 0 (GotBytes (write_chunks 128 (bare_command ''publish''))) (t3, l) =
      Some (?t4, l)" for l
    by (simp add: t3 take_data_def f4)
  from alone_step [OF a3 this] obtain L4 where "alone L4 ?t4" by (auto simp: ask_to_publish_def)
  then show ?thesis using t3(2)
    by (intro exI [of _ L4] exI [of _ ?t4]) (simp add: conversation_of_def ask_to_publish_def)
qed

text \<open>A connection waits for the core's answer; another of this computer gets a place beside it.\<close>

theorem on_air_keeps_its_place_witness:
  "\<exists>L t. alone L t \<and> conversation_of t = Waiting \<and>
     on_slot (accept_conn 15 9 [] [] (V4 127 0 0 1) L) t"
proof -
  obtain L t where a: "alone L t" and t: "conversation_of t = Waiting" using someone_asks by blast
  from a have "(listener_step 15 [])\<^sup>*\<^sup>* new_listener L" "on_slot L t"
    by (auto simp: alone_def on_slot_def)
  from on_air_keeps_its_place [OF this _ refl, of 9 "[]" "[]" "V4 127 0 0 1"] t a show ?thesis by auto
qed

end
