(* ===== verification/Config.thy ===== *)
theory Config
  imports Complex_Main Ingest_Slots Text Engine_Types Core
begin

text \<open>
  The settings (\<^verbatim>\<open>crates/config/src/lib.rs\<close>): the sections of the settings file with their
  defaults, the services offered, and how a destination set by an earlier version is brought
  up to date. A floating-point number is a rational, an infinity or NaN, which is what the
  comparisons made of it distinguish.
\<close>

section \<open>Floating-point numbers\<close>

datatype f64 = NaN | Infinite bool | Finite rat

fun f_le :: "f64 \<Rightarrow> f64 \<Rightarrow> bool" where
  "f_le NaN _ = False"
| "f_le _ NaN = False"
| "f_le (Infinite neg) y = (neg \<or> y = Infinite False)"
| "f_le x (Infinite neg) = (\<not> neg)"
| "f_le (Finite a) (Finite b) = (a \<le> b)"

definition is_finite :: "f64 \<Rightarrow> bool" where
  "is_finite x \<longleftrightarrow> (case x of Finite _ \<Rightarrow> True | _ \<Rightarrow> False)"

definition f_of_nat :: "nat \<Rightarrow> f64" where
  "f_of_nat n = Finite (of_nat n)"

section \<open>The sections\<close>

record socket_addr =
  sa_ip :: ip_addr
  sa_port :: nat

record ingest_config =
  ic_bind :: socket_addr
  ic_grace_seconds :: nat
  ic_key :: "bytes option"

definition default_ingest :: ingest_config where
  "default_ingest =
     \<lparr>ic_bind = \<lparr>sa_ip = V4 127 0 0 1, sa_port = 1935\<rparr>, ic_grace_seconds = 30, ic_key = None\<rparr>"

datatype key_mode = Stored | ForwardKey

record destination_config =
  dc_service :: bytes
  dc_url :: bytes
  dc_key_mode :: key_mode

record service =
  sv_id :: bytes
  sv_name :: bytes
  sv_url :: bytes

definition SERVICES :: "service list" where
  "SERVICES =
     [\<lparr>sv_id = ascii ''twitch'', sv_name = ascii ''Twitch'',
       sv_url = ascii ''rtmps://live.twitch.tv:443/app''\<rparr>,
      \<lparr>sv_id = ascii ''youtube'', sv_name = ascii ''YouTube'',
       sv_url = ascii ''rtmps://a.rtmps.youtube.com:443/live2''\<rparr>,
      \<lparr>sv_id = ascii ''twitch-rtmp'', sv_name = ascii ''Twitch (RTMP, unencrypted)'',
       sv_url = ascii ''rtmp://live.twitch.tv/app''\<rparr>,
      \<lparr>sv_id = ascii ''youtube-rtmp'', sv_name = ascii ''YouTube (RTMP, unencrypted)'',
       sv_url = ascii ''rtmp://a.rtmp.youtube.com/live2''\<rparr>,
      \<lparr>sv_id = ascii ''custom'', sv_name = ascii ''Custom RTMP/RTMPS server'', sv_url = []\<rparr>]"

definition default_destination :: destination_config where
  "default_destination =
     \<lparr>dc_service = ascii ''twitch'', dc_url = sv_url (SERVICES ! 0), dc_key_mode = Stored\<rparr>"

text \<open>\<^verbatim>\<open>DestinationConfig::upgrade\<close>: what earlier versions set, and what it is called now.\<close>

definition EARLIER :: "(bytes \<times> bytes \<times> bytes) list" where
  "EARLIER =
     [(ascii ''twitch'', ascii ''rtmp://live.twitch.tv/app'', ascii ''twitch''),
      (ascii ''youtube'', ascii ''rtmp://a.rtmp.youtube.com/live2'', ascii ''youtube''),
      (ascii ''twitch-rtmps'', [], ascii ''twitch''),
      (ascii ''youtube-rtmps'', [], ascii ''youtube'')]"

definition upgrade_one :: "bytes \<times> bytes \<times> bytes \<Rightarrow> destination_config \<Rightarrow> destination_config" where
  "upgrade_one e d =
     (case e of (service, url, now) \<Rightarrow>
        if dc_service d = service \<and> (url = [] \<or> dc_url d = url)
        then (let d = d\<lparr>dc_service := now\<rparr>
              in if url = [] then d
                 else d\<lparr>dc_url := (case find (\<lambda>s. sv_id s = now) SERVICES of
                                      None \<Rightarrow> [] | Some s \<Rightarrow> sv_url s)\<rparr>)
        else d)"

definition upgrade_destination :: "destination_config \<Rightarrow> bool \<times> destination_config" where
  "upgrade_destination d = (let d' = fold upgrade_one EARLIER d in (d' \<noteq> d, d'))"

record preset =
  ps_seconds :: f64
  ps_mode :: delay_mode

definition default_presets :: "preset list" where
  "default_presets = map (\<lambda>s. \<lparr>ps_seconds = Finite s, ps_mode = Rewind\<rparr>) [0, 15, 30, 60, 120]"

datatype after_reconnect = KeepDelay | RestoreDelay

record delay_config =
  dl_max_seconds :: nat
  dl_start_seconds :: f64
  dl_default_mode :: delay_mode
  dl_presets :: "preset list"
  dl_ram_cap_mb :: nat
  dl_keep_buffer :: bool
  dl_mask_margin_ms :: nat
  dl_mute_under_slate :: bool
  dl_after_reconnect :: after_reconnect

definition default_delay :: delay_config where
  "default_delay =
     \<lparr>dl_max_seconds = 120, dl_start_seconds = Finite 0, dl_default_mode = Rewind,
      dl_presets = default_presets, dl_ram_cap_mb = 512, dl_keep_buffer = True,
      dl_mask_margin_ms = 1500, dl_mute_under_slate = True, dl_after_reconnect = KeepDelay\<rparr>"

record api_config =
  ap_bind :: socket_addr
  ap_token :: bytes
  ap_allow_lan :: bool
  ap_allowed_hosts :: "bytes list"
  ap_allowed_origins :: "bytes list"

definition default_api :: api_config where
  "default_api =
     \<lparr>ap_bind = \<lparr>sa_ip = V4 127 0 0 1, sa_port = 7788\<rparr>, ap_token = [], ap_allow_lan = False,
      ap_allowed_hosts = [], ap_allowed_origins = []\<rparr>"

record overlay_config =
  ov_badge :: bool
  ov_badge_position :: bytes
  ov_popup :: bool
  ov_mask_title :: bytes
  ov_mask_subtitle :: bytes
  ov_accent_color :: bytes
  ov_background_color :: bytes
  ov_text_color :: bytes
  ov_mask_image :: bytes

definition default_overlay :: overlay_config where
  "default_overlay =
     \<lparr>ov_badge = True, ov_badge_position = ascii ''top-right'', ov_popup = True,
      ov_mask_title = ascii ''Stream delay is being added'',
      ov_mask_subtitle = ascii ''We'' @ [0x27] @ ascii ''ll be right back'',
      ov_accent_color = ascii ''#9147ff'', ov_background_color = ascii ''#0e0e10'',
      ov_text_color = ascii ''#efeff1'', ov_mask_image = []\<rparr>"

record obs_backup =
  ob_service_type :: bytes
  ob_obs :: "bytes option"
  ob_settings_json :: "bytes option"

record obs_config =
  oc_host :: bytes
  oc_port :: nat
  oc_backup :: "obs_backup option"

definition default_obs :: obs_config where
  "default_obs = \<lparr>oc_host = ascii ''127.0.0.1'', oc_port = 4455, oc_backup = None\<rparr>"

record hotkey_config =
  hk_enabled :: bool
  hk_go_live :: bytes
  hk_go_live_after_air :: bytes
  hk_end_stream :: bytes
  hk_end_stream_after_air :: bytes
  hk_dump :: bytes
  hk_presets :: "bytes list"

definition default_hotkeys :: hotkey_config where
  "default_hotkeys =
     \<lparr>hk_enabled = True, hk_go_live = ascii ''CmdOrCtrl+Alt+Shift+L'',
      hk_go_live_after_air = ascii ''CmdOrCtrl+Alt+Shift+A'', hk_end_stream = [],
      hk_end_stream_after_air = [], hk_dump = [],
      hk_presets = map (\<lambda>i. ascii ''CmdOrCtrl+Alt+Shift+'' @ decimal i) [1, 2, 3, 4, 5]\<rparr>"

record config =
  cf_ingest :: ingest_config
  cf_destination :: destination_config
  cf_delay :: delay_config
  cf_api :: api_config
  cf_overlay :: overlay_config
  cf_obs :: obs_config
  cf_hotkeys :: hotkey_config

definition default_config :: config where
  "default_config =
     \<lparr>cf_ingest = default_ingest, cf_destination = default_destination, cf_delay = default_delay,
      cf_api = default_api, cf_overlay = default_overlay, cf_obs = default_obs,
      cf_hotkeys = default_hotkeys\<rparr>"

section \<open>Loading\<close>

text \<open>
  \<^verbatim>\<open>Config::load_or_create\<close>: what a run starts with, what is written to the file, and whether a
  write that fails ends it. \<open>read\<close> is what the file parses to, if it is there and is read;
  \<open>token\<close> is the token generated.
\<close>

definition load_or_create :: "config option \<Rightarrow> bytes \<Rightarrow> config \<times> config option \<times> bool" where
  "load_or_create read token =
     (let c = (case read of None \<Rightarrow> default_config | Some c \<Rightarrow> c);
          (upgraded, d) = upgrade_destination (cf_destination c);
          c = c\<lparr>cf_destination := d\<rparr>
      in if ap_token (cf_api c) = [] \<or> read = None
         then (let c = (if ap_token (cf_api c) = []
                        then c\<lparr>cf_api := (cf_api c)\<lparr>ap_token := token\<rparr>\<rparr> else c)
               in (c, Some c, True))
         else (c, if upgraded then Some c else None, False))"

text \<open>
  \<open>engine_config\<close> and \<open>destination\<close> of \<^verbatim>\<open>crates/control/src/app.rs\<close>: what the relay is
  given of the settings.
\<close>

definition engine_config_of :: "config \<Rightarrow> engine_config" where
  "engine_config_of c =
     (let d = cf_delay c
      in Engine_Types.default_config
           \<lparr>max_delay_ms := dl_max_seconds d * 1000,
            ram_cap_bytes := min (dl_ram_cap_mb d * (1024 * 1024)) (2 ^ 64 - 1),
            keep_history := dl_keep_buffer d, mask_margin_ms := dl_mask_margin_ms d,
            mute_under_slate := dl_mute_under_slate d,
            restore_after_reconnect := (dl_after_reconnect d = RestoreDelay)\<rparr>)"

definition destination_of :: "config \<Rightarrow> bytes option \<Rightarrow> destination option" where
  "destination_of c key =
     (case parse_url (dc_url (cf_destination c)) of
        Inl _ \<Rightarrow> None
      | Inr _ \<Rightarrow>
          Some \<lparr>d_url = trim (dc_url (cf_destination c)),
                d_key = (case dc_key_mode (cf_destination c) of
                           ForwardKey \<Rightarrow> Passthrough
                         | Stored \<Rightarrow> Fixed (case key of None \<Rightarrow> [] | Some k \<Rightarrow> k))\<rparr>)"

end
