(* ===== verification/Secrets.thy ===== *)
theory Secrets
  imports Prelude
begin

text \<open>
  Where secrets are kept (\<^verbatim>\<open>crates/config/src/secrets.rs\<close>): the system's keychain, with a
  private file as fallback, either of which may fail at any call. The state holds what both
  hold and which of the calls to come fail (\<open>sec_faults\<close>, one flag for each call made; those
  past its end succeed), so what is proved holds whatever fails and when. A call that fails
  changes nothing: the keychain's by its contract, the file's because it is written aside and
  moved into place (\<open>replace_private\<close>). \<open>sec_warned\<close> says that a change could not be
  undone, which the code logs. The lock makes each operation one step.
\<close>

section \<open>State and calls\<close>

datatype secret_error = KeychainError | FileError | DamagedFile | StaleCopy

text \<open>The file: missing, holding values, or not parsing.\<close>

datatype file_state = NoFile | Readable "bytes \<rightharpoonup> bytes" | Damaged

record secrets =
  sec_keychain :: "(bytes \<rightharpoonup> bytes) option"
  sec_file :: file_state
  sec_faults :: "bool list"
  sec_warned :: bool

type_synonym 'a attempt = "secrets \<Rightarrow> (secret_error + 'a) \<times> secrets"

definition call_fails :: "secrets \<Rightarrow> bool \<times> secrets" where
  "call_fails s =
     (case sec_faults s of [] \<Rightarrow> (False, s) | f # fs \<Rightarrow> (f, s\<lparr>sec_faults := fs\<rparr>))"

definition try_call :: "secret_error \<Rightarrow> (secrets \<Rightarrow> 'a) \<Rightarrow> (secrets \<Rightarrow> secrets) \<Rightarrow> 'a attempt" where
  "try_call e result change s =
     (let (bad, s) = call_fails s in if bad then (Inl e, s) else (Inr (result s), change s))"

text \<open>\<open>and_try a f\<close>: \<open>a\<close>, then \<open>f\<close> of its result (the \<^verbatim>\<open>?\<close> of the source).\<close>

definition and_try :: "'a attempt \<Rightarrow> ('a \<Rightarrow> 'b attempt) \<Rightarrow> 'b attempt" where
  "and_try a f s = (case a s of (Inl e, s) \<Rightarrow> (Inl e, s) | (Inr x, s) \<Rightarrow> f x s)"

definition done_with :: "'a \<Rightarrow> 'a attempt" where
  "done_with x s = (Inr x, s)"

text \<open>The keychain (\<^verbatim>\<open>Keychain\<close>).\<close>

definition in_keychain :: "secrets \<Rightarrow> bytes \<Rightarrow> bytes option" where
  "in_keychain s name = (case sec_keychain s of None \<Rightarrow> None | Some k \<Rightarrow> k name)"

definition kc_get :: "bytes \<Rightarrow> bytes option attempt" where
  "kc_get name = try_call KeychainError (\<lambda>s. in_keychain s name) id"

definition kc_set :: "bytes \<Rightarrow> bytes \<Rightarrow> unit attempt" where
  "kc_set name v = try_call KeychainError (\<lambda>_. ())
     (\<lambda>s. s\<lparr>sec_keychain := map_option (\<lambda>k. k(name \<mapsto> v)) (sec_keychain s)\<rparr>)"

definition kc_delete :: "bytes \<Rightarrow> unit attempt" where
  "kc_delete name = try_call KeychainError (\<lambda>_. ())
     (\<lambda>s. s\<lparr>sec_keychain := map_option (\<lambda>k. k(name := None)) (sec_keychain s)\<rparr>)"

text \<open>The file. One that is missing reads as empty.\<close>

definition file_values :: "file_state \<Rightarrow> bytes \<rightharpoonup> bytes" where
  "file_values f = (case f of Readable m \<Rightarrow> m | _ \<Rightarrow> Map.empty)"

definition read_file :: "file_state attempt" where
  "read_file = try_call FileError
     (\<lambda>s. case sec_file s of NoFile \<Rightarrow> Readable Map.empty | f \<Rightarrow> f) id"

definition move_aside :: "unit attempt" where
  "move_aside = try_call FileError (\<lambda>_. ()) (\<lambda>s. s\<lparr>sec_file := NoFile\<rparr>)"

definition load_for_write :: "(bytes \<rightharpoonup> bytes) attempt" where
  "load_for_write =
     and_try read_file (\<lambda>f.
       case f of
         Damaged \<Rightarrow> and_try move_aside (\<lambda>_. done_with Map.empty)
       | f \<Rightarrow> done_with (file_values f))"

text \<open>Written next to the file, then moved into its place.\<close>

definition replace_private :: "(bytes \<rightharpoonup> bytes) \<Rightarrow> unit attempt" where
  "replace_private m =
     and_try (try_call FileError (\<lambda>_. ()) id) (\<lambda>_.
       try_call FileError (\<lambda>_. ()) (\<lambda>s. s\<lparr>sec_file := Readable m\<rparr>))"

definition write_file :: "(bytes \<rightharpoonup> bytes) \<Rightarrow> unit attempt" where
  "write_file m = and_try (try_call FileError (\<lambda>_. ()) id) (\<lambda>_. replace_private m)"

definition remove_from_file :: "bytes \<Rightarrow> unit attempt" where
  "remove_from_file name =
     and_try load_for_write (\<lambda>m.
       if m name \<noteq> None then write_file (m(name := None)) else done_with ())"

section \<open>The store\<close>

definition try_get_secret :: "bytes \<Rightarrow> bytes option attempt" where
  "try_get_secret name s =
     (let (r, s) = read_file s;
          found = (case r of Inr (Readable m) \<Rightarrow> m name | _ \<Rightarrow> None);
          trouble = (case r of Inl e \<Rightarrow> Some e | Inr Damaged \<Rightarrow> Some DamagedFile | _ \<Rightarrow> None)
      in case found of
           Some v \<Rightarrow> (Inr (Some v), s)
         | None \<Rightarrow>
             and_try (if sec_keychain s = None then done_with None else kc_get name) (\<lambda>v s.
               case (v, trouble) of
                 (Some v, _) \<Rightarrow> (Inr (Some v), s)
               | (None, Some e) \<Rightarrow> (Inl e, s)
               | (None, None) \<Rightarrow> (Inr None, s)) s)"

definition get_secret :: "bytes \<Rightarrow> secrets \<Rightarrow> bytes option \<times> secrets" where
  "get_secret name s =
     (case try_get_secret name s of (Inl e, s) \<Rightarrow> (None, s) | (Inr v, s) \<Rightarrow> (v, s))"

text \<open>What is logged when undoing fails.\<close>

definition note_undo :: "(secret_error + 'a) \<Rightarrow> secrets \<Rightarrow> secrets" where
  "note_undo r s = (case r of Inl _ \<Rightarrow> s\<lparr>sec_warned := True\<rparr> | Inr _ \<Rightarrow> s)"

definition set_in_file :: "bytes \<Rightarrow> bytes \<Rightarrow> (bytes \<rightharpoonup> bytes) \<Rightarrow> unit attempt" where
  "set_in_file name v before =
     and_try (write_file (before(name \<mapsto> v))) (\<lambda>_ s.
       if sec_keychain s = None then (Inr (), s)
       else (let (older, s) = kc_get name s
             in if older = Inr None then (Inr (), s)
                else (case kc_delete name s of
                        (Inr _, s) \<Rightarrow> (Inr (), s)
                      | (Inl _, s) \<Rightarrow>
                          (let (undo, s) = write_file before s in (Inl StaleCopy, note_undo undo s)))))"

definition set_in_keychain ::
  "bytes \<Rightarrow> secret_error + bytes option \<Rightarrow> (bytes \<rightharpoonup> bytes) \<Rightarrow> unit attempt" where
  "set_in_keychain name previous m s =
     (if m name = None then (Inr (), s)
      else (case write_file (m(name := None)) s of
              (Inr _, s) \<Rightarrow> (Inr (), s)
            | (Inl e, s) \<Rightarrow>
                (let (undo, s) = (case previous of
                        Inr (Some old) \<Rightarrow> kc_set name old s
                      | Inr None \<Rightarrow> kc_delete name s
                      | Inl e \<Rightarrow> (Inl e, s))
                 in (Inl e, note_undo undo s))))"

definition set_secret :: "bytes \<Rightarrow> bytes \<Rightarrow> unit attempt" where
  "set_secret name v =
     and_try load_for_write (\<lambda>m s.
       if sec_keychain s = None then set_in_file name v m s
       else (let (previous, s) = kc_get name s; (r, s) = kc_set name v s
             in case r of
                  Inr _ \<Rightarrow> set_in_keychain name previous m s
                | Inl _ \<Rightarrow> set_in_file name v m s))"

definition delete_secret :: "bytes \<Rightarrow> unit attempt" where
  "delete_secret name =
     and_try (\<lambda>s. if sec_keychain s = None then (Inr (), s) else kc_delete name s)
       (\<lambda>_. remove_from_file name)"

section \<open>What they do\<close>

text \<open>The value in effect: the file's, else the keychain's.\<close>

definition secret_value :: "secrets \<Rightarrow> bytes \<Rightarrow> bytes option" where
  "secret_value s name =
     (case file_values (sec_file s) name of Some v \<Rightarrow> Some v | None \<Rightarrow> in_keychain s name)"

definition one_place :: "secrets \<Rightarrow> bytes \<Rightarrow> bool" where
  "one_place s name \<longleftrightarrow> file_values (sec_file s) name = None \<or> in_keychain s name = None"

text \<open>Nothing is held differently.\<close>

definition same_values :: "secrets \<Rightarrow> secrets \<Rightarrow> bool" where
  "same_values s t \<longleftrightarrow> file_values (sec_file s) = file_values (sec_file t) \<and>
     in_keychain s = in_keychain t \<and> (sec_keychain s = None \<longleftrightarrow> sec_keychain t = None)"

lemma call_fails_fields:
  "call_fails s = (bad, t) \<Longrightarrow> sec_keychain t = sec_keychain s \<and> sec_file t = sec_file s \<and>
     sec_warned t = sec_warned s"
  by (auto simp: call_fails_def split: list.splits)

lemma try_call_cases:
  assumes "try_call e result change s = (r, t)"
  shows "\<exists>s'. sec_keychain s' = sec_keychain s \<and> sec_file s' = sec_file s \<and>
    sec_warned s' = sec_warned s \<and>
    (r = Inl e \<and> t = s' \<or> r = Inr (result s') \<and> t = change s')"
proof -
  obtain bad s' where c: "call_fails s = (bad, s')" by (rule prod.exhaust)
  from call_fails_fields [OF c] assms c show ?thesis
    by (intro exI [of _ s']) (auto simp: try_call_def split: if_splits)
qed

lemma kc_get_cases:
  assumes "kc_get name s = (r, t)"
  shows "sec_keychain t = sec_keychain s \<and> sec_file t = sec_file s \<and> sec_warned t = sec_warned s \<and>
    (r = Inl KeychainError \<or> r = Inr (in_keychain s name))"
  using try_call_cases [OF assms [unfolded kc_get_def]] by (auto simp: in_keychain_def)

lemma kc_set_cases:
  assumes "kc_set name v s = (r, t)"
  shows "sec_file t = sec_file s \<and> sec_warned t = sec_warned s \<and>
    (r = Inl KeychainError \<and> sec_keychain t = sec_keychain s \<or>
     r = Inr () \<and> sec_keychain t = map_option (\<lambda>k. k(name \<mapsto> v)) (sec_keychain s))"
  using try_call_cases [OF assms [unfolded kc_set_def]] by auto

lemma kc_delete_cases:
  assumes "kc_delete name s = (r, t)"
  shows "sec_file t = sec_file s \<and> sec_warned t = sec_warned s \<and>
    (r = Inl KeychainError \<and> sec_keychain t = sec_keychain s \<or>
     r = Inr () \<and> sec_keychain t = map_option (\<lambda>k. k(name := None)) (sec_keychain s))"
  using try_call_cases [OF assms [unfolded kc_delete_def]] by auto

lemma write_file_cases:
  assumes "write_file m s = (r, t)"
  shows "sec_keychain t = sec_keychain s \<and> sec_warned t = sec_warned s \<and>
    ((\<exists>e. r = Inl e) \<and> sec_file t = sec_file s \<or> r = Inr () \<and> sec_file t = Readable m)"
proof -
  obtain r1 s1 where a1: "try_call FileError (\<lambda>_. ()) id s = (r1, s1)" by (rule prod.exhaust)
  obtain r2 s2 where a2: "try_call FileError (\<lambda>_. ()) id s1 = (r2, s2)" by (rule prod.exhaust)
  obtain r3 s3 where a3: "try_call FileError (\<lambda>_. ()) (\<lambda>s. s\<lparr>sec_file := Readable m\<rparr>) s2 = (r3, s3)"
    by (rule prod.exhaust)
  from try_call_cases [OF a1] try_call_cases [OF a2] try_call_cases [OF a3] assms a1 a2 a3
  show ?thesis
    by (auto simp: write_file_def replace_private_def and_try_def split: sum.splits)
qed

lemma load_for_write_cases:
  assumes "load_for_write s = (r, t)"
  shows "sec_keychain t = sec_keychain s \<and> sec_warned t = sec_warned s \<and>
    file_values (sec_file t) = file_values (sec_file s) \<and>
    ((\<exists>e. r = Inl e) \<or> r = Inr (file_values (sec_file s)))"
proof -
  obtain r1 s1 where a1: "read_file s = (r1, s1)" by (rule prod.exhaust)
  obtain r2 s2 where a2: "move_aside s1 = (r2, s2)" by (rule prod.exhaust)
  from try_call_cases [OF a1 [unfolded read_file_def]] try_call_cases [OF a2 [unfolded move_aside_def]]
    assms a1 a2
  show ?thesis
    by (auto simp: load_for_write_def and_try_def done_with_def file_values_def
        split: sum.splits file_state.splits)
qed

text \<open>The keychain as a map.\<close>

lemma in_keychain_eq: "in_keychain s = (case sec_keychain s of None \<Rightarrow> Map.empty | Some k \<Rightarrow> k)"
  by (auto simp: in_keychain_def fun_eq_iff split: option.splits)

lemma map_upd_None: "m name = None \<Longrightarrow> m(name := None) = m"
  by auto

lemma set_in_file_cases:
  assumes "set_in_file name v m s = (r, t)" and m: "m = file_values (sec_file s)"
  shows "(sec_keychain t = None \<longleftrightarrow> sec_keychain s = None) \<and> (sec_warned s \<longrightarrow> sec_warned t) \<and>
    (case r of
       Inr _ \<Rightarrow> file_values (sec_file t) = m(name \<mapsto> v) \<and> in_keychain t = (in_keychain s)(name := None)
     | Inl _ \<Rightarrow> sec_keychain t = sec_keychain s \<and>
         (file_values (sec_file t) = m \<or>
          sec_warned t \<and> file_values (sec_file t) = m(name \<mapsto> v)))"
proof -
  obtain r1 s1 where a1: "write_file (m(name \<mapsto> v)) s = (r1, s1)" by (rule prod.exhaust)
  obtain r2 s2 where a2: "kc_get name s1 = (r2, s2)" by (rule prod.exhaust)
  obtain r3 s3 where a3: "kc_delete name s2 = (r3, s3)" by (rule prod.exhaust)
  obtain r4 s4 where a4: "write_file m s3 = (r4, s4)" by (rule prod.exhaust)
  note c = write_file_cases [OF a1] kc_get_cases [OF a2] kc_delete_cases [OF a3] write_file_cases [OF a4]
  show ?thesis
  proof (cases r1)
    case (Inl e)
    with assms a1 c(1) show ?thesis by (auto simp: set_in_file_def and_try_def file_values_def)
  next
    case r1: (Inr u)
    with c(1) have s1: "file_values (sec_file s1) = m(name \<mapsto> v)" "sec_keychain s1 = sec_keychain s"
      "sec_warned s1 = sec_warned s" by (auto simp: file_values_def)
    show ?thesis
    proof (cases "sec_keychain s1 = None \<or> r2 = Inr None")
      case True
      have "(in_keychain s1)(name := None) = in_keychain s1" if "in_keychain s1 name = None"
        using that by auto
      with True r1 assms(1) a1 a2 c(2) s1 show ?thesis
        by (auto simp: set_in_file_def and_try_def in_keychain_eq fun_eq_iff split: if_splits option.splits)
    next
      case no: False
      show ?thesis
      proof (cases r3)
        case (Inr x)
        with no r1 assms(1) a1 a2 a3 c s1 show ?thesis
          by (auto simp: set_in_file_def and_try_def in_keychain_eq split: option.splits)
      next
        case (Inl x)
        with no r1 assms(1) a1 a2 a3 a4 have "r = Inl StaleCopy" "t = note_undo r4 s4"
          by (auto simp: set_in_file_def and_try_def)
        with Inl c s1 show ?thesis
          by (auto simp: note_undo_def file_values_def split: sum.splits)
      qed
    qed
  qed
qed

lemma set_in_keychain_cases:
  assumes "set_in_keychain name previous m s = (r, t)" and m: "m = file_values (sec_file s)"
    and kc: "sec_keychain s = Some (k(name \<mapsto> v))"
    and prev: "previous = Inr (k name) \<or> (\<exists>e. previous = Inl e)"
  shows "sec_keychain t \<noteq> None \<and> (sec_warned s \<longrightarrow> sec_warned t) \<and>
    (case r of
       Inr _ \<Rightarrow> file_values (sec_file t) = m(name := None) \<and> in_keychain t = k(name \<mapsto> v)
     | Inl _ \<Rightarrow> file_values (sec_file t) = m \<and>
         (sec_keychain t = Some k \<or> sec_warned t \<and> sec_keychain t = Some (k(name \<mapsto> v))))"
proof (cases "m name = None")
  case True
  then have "m(name := None) = m" by auto
  with True assms(1) m kc show ?thesis by (auto simp: set_in_keychain_def in_keychain_eq)
next
  case False
  obtain r1 s1 where a1: "write_file (m(name := None)) s = (r1, s1)" by (rule prod.exhaust)
  note c1 = write_file_cases [OF a1]
  show ?thesis
  proof (cases r1)
    case (Inr u)
    with False assms(1) a1 c1 kc show ?thesis
      by (auto simp: set_in_keychain_def in_keychain_eq file_values_def)
  next
    case (Inl e)
    define undo where "undo = (case previous of
        Inr (Some old) \<Rightarrow> kc_set name old s1 | Inr None \<Rightarrow> kc_delete name s1 | Inl e \<Rightarrow> (Inl e, s1))"
    obtain r2 s2 where a2: "undo = (r2, s2)" by (rule prod.exhaust)
    from False obtain y where "m name = Some y" by blast
    with Inl assms(1) a1 a2 have t: "r = Inl e" "t = note_undo r2 s2"
      by (simp_all add: set_in_keychain_def undo_def)
    have s1: "sec_keychain s1 = Some (k(name \<mapsto> v))" "sec_file s1 = sec_file s" "sec_warned s1 = sec_warned s"
      using c1 Inl kc by auto
    have "sec_file s2 = sec_file s \<and> sec_warned s2 = sec_warned s \<and> sec_keychain s2 \<noteq> None \<and>
        ((\<exists>e. r2 = Inl e) \<and> sec_keychain s2 = Some (k(name \<mapsto> v)) \<or> sec_keychain s2 = Some k)"
    proof (cases previous)
      case (Inl x)
      with a2 s1 show ?thesis by (auto simp: undo_def)
    next
      case (Inr old)
      with prev have old: "old = k name" by simp
      show ?thesis
      proof (cases old)
        case None
        with a2 Inr have "kc_delete name s1 = (r2, s2)" by (simp add: undo_def)
        from kc_delete_cases [OF this] s1 old None show ?thesis by (auto simp: fun_upd_idem)
      next
        case (Some w)
        with a2 Inr have "kc_set name w s1 = (r2, s2)" by (simp add: undo_def)
        from kc_set_cases [OF this] s1 old Some show ?thesis by (auto simp: fun_upd_idem)
      qed
    qed
    with t m show ?thesis by (auto simp: note_undo_def split: sum.splits)
  qed
qed

text \<open>Undoing failed: the new value is in one of the two places, next to what was there before.\<close>

definition undo_failed :: "bytes \<Rightarrow> bytes \<Rightarrow> secrets \<Rightarrow> secrets \<Rightarrow> bool" where
  "undo_failed name v s t \<longleftrightarrow> sec_warned t \<and>
     (file_values (sec_file t) = (file_values (sec_file s))(name \<mapsto> v) \<and> in_keychain t = in_keychain s \<or>
      file_values (sec_file t) = file_values (sec_file s) \<and> in_keychain t = (in_keychain s)(name \<mapsto> v))"

lemma undo_failed_warned: "undo_failed name v s t \<Longrightarrow> sec_warned t"
  by (simp add: undo_failed_def)

lemma set_secret_cases:
  assumes "set_secret name v s = (r, t)"
  shows "(sec_keychain t = None \<longleftrightarrow> sec_keychain s = None) \<and> (sec_warned s \<longrightarrow> sec_warned t) \<and>
    (case r of
       Inr _ \<Rightarrow>
         file_values (sec_file t) = (file_values (sec_file s))(name \<mapsto> v) \<and>
           in_keychain t = (in_keychain s)(name := None) \<or>
         file_values (sec_file t) = (file_values (sec_file s))(name := None) \<and>
           in_keychain t = (in_keychain s)(name \<mapsto> v)
     | Inl _ \<Rightarrow> undo_failed name v s t \<or> same_values s t)"
proof -
  obtain r1 s1 where a1: "load_for_write s = (r1, s1)" by (rule prod.exhaust)
  note c1 = load_for_write_cases [OF a1]
  show ?thesis
  proof (cases r1)
    case (Inl e)
    with assms a1 c1 show ?thesis by (auto simp: set_secret_def and_try_def same_values_def in_keychain_eq)
  next
    case (Inr m)
    with c1 have m: "m = file_values (sec_file s1)" "file_values (sec_file s1) = file_values (sec_file s)"
      by auto
    have kc1: "in_keychain s1 = in_keychain s" "sec_keychain s1 = sec_keychain s"
      "sec_warned s1 = sec_warned s" using c1 by (auto simp: in_keychain_eq)
    have in_file: ?thesis if "set_in_file name v m s2 = (r, t)" "sec_keychain s2 = sec_keychain s1"
      "sec_file s2 = sec_file s1" "sec_warned s2 = sec_warned s1" for s2
      using set_in_file_cases [OF that(1)] m kc1 that(2-4)
      by (auto simp: same_values_def undo_failed_def in_keychain_eq split: sum.splits)
    show ?thesis
    proof (cases "sec_keychain s1")
      case None
      with assms a1 Inr have "set_in_file name v m s1 = (r, t)" by (simp add: set_secret_def and_try_def)
      with in_file show ?thesis by blast
    next
      case (Some k)
      obtain previous s2 where a2: "kc_get name s1 = (previous, s2)" by (rule prod.exhaust)
      obtain r3 s3 where a3: "kc_set name v s2 = (r3, s3)" by (rule prod.exhaust)
      note c = kc_get_cases [OF a2] kc_set_cases [OF a3]
      show ?thesis
      proof (cases r3)
        case (Inl e)
        with assms a1 a2 a3 Inr Some have "set_in_file name v m s3 = (r, t)"
          by (simp add: set_secret_def and_try_def)
        with in_file [of s3] c Inl show ?thesis by auto
      next
        case (Inr u)
        with assms a1 a2 a3 \<open>r1 = Inr m\<close> Some have set: "set_in_keychain name previous m s3 = (r, t)"
          by (simp add: set_secret_def and_try_def)
        have kc3: "sec_keychain s3 = Some (k(name \<mapsto> v))" "sec_file s3 = sec_file s1" "sec_warned s3 = sec_warned s1"
          using c Inr Some by auto
        have "previous = Inr (k name) \<or> (\<exists>e. previous = Inl e)"
          using c(1) Some by (auto simp: in_keychain_eq)
        moreover have "sec_keychain s = Some k" "sec_warned s3 = sec_warned s"
          "m = file_values (sec_file s3)" "file_values (sec_file s) = m"
          using Some kc1 kc3 m by simp_all
        ultimately show ?thesis
          using set_in_keychain_cases [OF set _ kc3(1)]
          by (auto simp: same_values_def undo_failed_def in_keychain_eq split: sum.splits)
      qed
    qed
  qed
qed

lemma delete_secret_cases:
  assumes "delete_secret name s = (r, t)"
  shows "(sec_keychain t = None \<longleftrightarrow> sec_keychain s = None) \<and> sec_warned t = sec_warned s \<and>
    (case r of
       Inr _ \<Rightarrow> file_values (sec_file t) = (file_values (sec_file s))(name := None) \<and>
         in_keychain t = (in_keychain s)(name := None)
     | Inl _ \<Rightarrow> file_values (sec_file t) = file_values (sec_file s) \<and>
         (in_keychain t = in_keychain s \<or> in_keychain t = (in_keychain s)(name := None)))"
proof -
  define first where "first = (if sec_keychain s = None then (Inr (), s) else kc_delete name s)"
  obtain r1 s1 where a1: "first = (r1, s1)" by (rule prod.exhaust)
  obtain r2 s2 where a2: "load_for_write s1 = (r2, s2)" by (rule prod.exhaust)
  have c1: "sec_file s1 = sec_file s \<and> sec_warned s1 = sec_warned s \<and>
      (sec_keychain s1 = None \<longleftrightarrow> sec_keychain s = None) \<and>
      ((\<exists>e. r1 = Inl e) \<and> in_keychain s1 = in_keychain s \<or>
       r1 = Inr () \<and> in_keychain s1 = (in_keychain s)(name := None))"
  proof (cases "sec_keychain s = None")
    case True
    with a1 show ?thesis by (auto simp: first_def in_keychain_eq)
  next
    case False
    with a1 have "kc_delete name s = (r1, s1)" by (simp add: first_def)
    from kc_delete_cases [OF this] False show ?thesis by (auto simp: in_keychain_eq split: option.splits)
  qed
  note c2 = load_for_write_cases [OF a2]
  have d: "delete_secret name s = (case first of (Inl e, s) \<Rightarrow> (Inl e, s) | (Inr x, s) \<Rightarrow> remove_from_file name s)"
    by (simp add: delete_secret_def and_try_def first_def)
  show ?thesis
  proof (cases r1)
    case (Inl e)
    with d a1 assms c1 show ?thesis by auto
  next
    case r1: (Inr u)
    show ?thesis
    proof (cases r2)
      case (Inl e)
      with r1 d a1 a2 assms c1 c2 show ?thesis
        by (auto simp: remove_from_file_def and_try_def in_keychain_eq)
    next
      case (Inr m)
      then have m: "m = file_values (sec_file s)" using c1 c2 by auto
      show ?thesis
      proof (cases "m name = None")
        case True
        then have "m(name := None) = m" by auto
        with True Inr r1 d a1 a2 assms c1 c2 m show ?thesis
          by (auto simp: remove_from_file_def and_try_def done_with_def in_keychain_eq)
      next
        case False
        obtain r3 s3 where a3: "write_file (m(name := None)) s2 = (r3, s3)" by (rule prod.exhaust)
        from write_file_cases [OF a3] False Inr r1 d a1 a2 a3 assms c1 c2 m show ?thesis
          by (auto simp: remove_from_file_def and_try_def in_keychain_eq file_values_def)
      qed
    qed
  qed
qed

section \<open>Each secret in one place\<close>

lemma same_values_value: "same_values s t \<Longrightarrow> secret_value t = secret_value s"
  unfolding same_values_def by (rule ext, elim conjE) (simp add: secret_value_def split: option.split)

lemma same_values_place: "same_values s t \<Longrightarrow> one_place t n = one_place s n"
  by (simp add: same_values_def one_place_def)

lemma try_get_secret_cases:
  assumes "try_get_secret name s = (r, t)"
  shows "sec_keychain t = sec_keychain s \<and> sec_file t = sec_file s \<and> sec_warned t = sec_warned s \<and>
    (one_place s name \<longrightarrow> (\<forall>x. r = Inr x \<longrightarrow> x = secret_value s name))"
proof -
  obtain r1 s1 where a1: "read_file s = (r1, s1)" by (rule prod.exhaust)
  obtain r2 s2 where a2: "kc_get name s1 = (r2, s2)" by (rule prod.exhaust)
  have k: "in_keychain s1 = in_keychain s" if "sec_keychain s1 = sec_keychain s"
    using that by (simp add: in_keychain_eq)
  from try_call_cases [OF a1 [unfolded read_file_def]] obtain s' where
    "sec_keychain s1 = sec_keychain s" "sec_file s1 = sec_file s" "sec_warned s1 = sec_warned s"
    "(\<exists>e. r1 = Inl e) \<or> r1 = Inr (case sec_file s of NoFile \<Rightarrow> Readable Map.empty | f \<Rightarrow> f)"
    by auto
  with kc_get_cases [OF a2] k assms a1 a2 show ?thesis
    by (auto simp: try_get_secret_def and_try_def done_with_def secret_value_def one_place_def
        file_values_def in_keychain_eq split: sum.splits option.splits file_state.splits if_splits)
qed

lemma secret_changes:
  shows "set_secret name v s = (r, t) \<Longrightarrow>
    (case r of
       Inr _ \<Rightarrow> secret_value t = (secret_value s)(name \<mapsto> v) \<and> one_place t name
     | Inl _ \<Rightarrow> sec_warned t \<or> secret_value t = secret_value s)"
    and "delete_secret name s = (r', t') \<Longrightarrow>
    (case r' of
       Inr _ \<Rightarrow> secret_value t' = (secret_value s)(name := None)
     | Inl _ \<Rightarrow> secret_value t' = secret_value s \<or> secret_value t' = (secret_value s)(name := None))"
proof -
  show "case r of
       Inr _ \<Rightarrow> secret_value t = (secret_value s)(name \<mapsto> v) \<and> one_place t name
     | Inl _ \<Rightarrow> sec_warned t \<or> secret_value t = secret_value s"
    if "set_secret name v s = (r, t)"
  proof (cases r)
    case (Inl e)
    with set_secret_cases [OF that] same_values_value [of s t] show ?thesis
      by (auto dest: undo_failed_warned)
  next
    case (Inr u)
    with set_secret_cases [OF that] show ?thesis
      by (auto simp: secret_value_def one_place_def split: option.splits)
  qed
  show "case r' of
       Inr _ \<Rightarrow> secret_value t' = (secret_value s)(name := None)
     | Inl _ \<Rightarrow> secret_value t' = secret_value s \<or> secret_value t' = (secret_value s)(name := None)"
    if "delete_secret name s = (r', t')"
  proof (cases r')
    case (Inr u)
    with delete_secret_cases [OF that] have "file_values (sec_file t') = (file_values (sec_file s))(name := None)"
      "in_keychain t' = (in_keychain s)(name := None)" by auto
    then have "secret_value t' = (secret_value s)(name := None)"
      by (intro ext) (simp add: secret_value_def split: option.split)
    with Inr show ?thesis by simp
  next
    case (Inl e)
    with delete_secret_cases [OF that] have f: "file_values (sec_file t') = file_values (sec_file s)"
      and k: "in_keychain t' = in_keychain s \<or> in_keychain t' = (in_keychain s)(name := None)" by auto
    from k show ?thesis
    proof
      assume "in_keychain t' = in_keychain s"
      with f have "secret_value t' = secret_value s" by (intro ext) (simp add: secret_value_def split: option.split)
      with Inl show ?thesis by simp
    next
      assume k': "in_keychain t' = (in_keychain s)(name := None)"
      show ?thesis
      proof (cases "file_values (sec_file s) name")
        case None
        with f k' have "secret_value t' = (secret_value s)(name := None)"
          by (intro ext) (simp add: secret_value_def split: option.split)
        with Inl show ?thesis by simp
      next
        case (Some v)
        with f k' have "secret_value t' = secret_value s" by (intro ext) (simp add: secret_value_def split: option.split)
        with Inl show ?thesis by simp
      qed
    qed
  qed
qed

lemma undo_failed_value:
  assumes "undo_failed name v s t"
  shows "secret_value t = secret_value s \<or> secret_value t = (secret_value s)(name \<mapsto> v)"
proof (cases "file_values (sec_file t) = file_values (sec_file s) \<and> file_values (sec_file s) name \<noteq> None")
  case True
  with assms have "secret_value t n = secret_value s n" for n
    by (auto simp: undo_failed_def secret_value_def split: option.split)
  then show ?thesis by blast
next
  case False
  with assms have "secret_value t n = ((secret_value s)(name \<mapsto> v)) n" for n
    by (auto simp: undo_failed_def secret_value_def split: option.split)
  then show ?thesis by blast
qed

lemma set_secret_value:
  assumes "set_secret name v s = (r, t)"
  shows "secret_value t = secret_value s \<and> (\<exists>e. r = Inl e) \<or>
    secret_value t = (secret_value s)(name \<mapsto> v) \<and> (r = Inr () \<or> sec_warned t)"
  using set_secret_cases [OF assms] secret_changes(1) [OF assms] undo_failed_value [of name v s t]
    same_values_value [of s t]
  by (cases r) (auto dest: undo_failed_warned)

text \<open>
  C20. A secret is saved, or nothing changes: whatever fails of the keychain and the file, in
  whatever calls, saving a secret that succeeds puts it, and nothing else, in effect, and one
  that fails leaves every secret as it was (unless undoing failed too, which is logged).
  Forgetting that succeeds removes it from both; one that fails keeps the others, and the
  secret itself or nothing of it, never an older value.
\<close>

theorem secret_saved_or_unchanged:
  assumes "set_secret name v s = (r, t)" and "delete_secret name s = (r', t')"
  shows "(case r of
       Inr _ \<Rightarrow> secret_value t = (secret_value s)(name \<mapsto> v) \<and> one_place t name
     | Inl _ \<Rightarrow> sec_warned t \<or> secret_value t = secret_value s) \<and>
    (case r' of
       Inr _ \<Rightarrow> secret_value t' = (secret_value s)(name := None)
     | Inl _ \<Rightarrow> secret_value t' = secret_value s \<or> secret_value t' = (secret_value s)(name := None))"
  using secret_changes(1) [OF assms(1)] secret_changes(2) [OF assms(2)] by blast

text \<open>The keychain refuses, and the file cannot be written: nothing is changed.\<close>

theorem secret_saved_or_unchanged_witness:
  "\<exists>t. set_secret [1] [7] \<lparr>sec_keychain = Some [[1] \<mapsto> [5]], sec_file = NoFile,
      sec_faults = [False, False, True, False, True], sec_warned = False\<rparr> = (Inl FileError, t) \<and>
    secret_value t [1] = Some [5]"
proof -
  let ?s = "\<lparr>sec_keychain = Some [[1] \<mapsto> [5]], sec_file = NoFile,
      sec_faults = [False, False, True, False, True], sec_warned = False\<rparr> :: secrets"
  obtain t where t: "set_secret [1] [7] ?s = (Inl FileError, t)" "\<not> sec_warned t"
    by (simp add: set_secret_def and_try_def load_for_write_def read_file_def try_call_def
        call_fails_def done_with_def kc_get_def kc_set_def set_in_file_def write_file_def
        replace_private_def file_values_def)
  obtain r' t' where "delete_secret [1] ?s = (r', t')" by (rule prod.exhaust)
  from secret_saved_or_unchanged [OF t(1) this] t(2) have "secret_value t = secret_value ?s" by simp
  moreover have "secret_value ?s [1] = Some [5]"
    by (simp add: secret_value_def file_values_def in_keychain_def)
  ultimately show ?thesis using t(1) by (intro exI [of _ t]) simp
qed

section \<open>Runs of the store\<close>

text \<open>
  A run of the store is recorded by what is known of each secret from its calls alone: the values
  it may have (\<open>kn_values\<close>), and whether it may be in two places (\<open>kn_twice\<close>). A secret saved has
  the value saved and is in one place; one forgotten has none; a call that fails changes
  nothing, but for two cases: forgetting that fails may have forgotten it, and saving that fails
  and whose undoing is logged to have failed may have left the value beside the one before.
  The log is emptied before each call, so that an entry is the call's own (no call reads it).
\<close>

record known =
  kn_values :: "bytes \<Rightarrow> bytes option set"
  kn_twice :: "bytes set"
  kn_store :: secrets

definition log_emptied :: "secrets \<Rightarrow> secrets" where
  "log_emptied s = s\<lparr>sec_warned := False\<rparr>"

definition known_at_start :: "secrets \<Rightarrow> known" where
  "known_at_start s =
     \<lparr>kn_values = (\<lambda>n. if one_place s n then {secret_value s n}
                     else {file_values (sec_file s) n, in_keychain s n}),
      kn_twice = {n. \<not> one_place s n}, kn_store = s\<rparr>"

definition known_after_set :: "bytes \<Rightarrow> bytes \<Rightarrow> known \<Rightarrow> (secret_error + unit) \<Rightarrow> secrets \<Rightarrow> known" where
  "known_after_set name v k r t =
     (let vs = kn_values k in
      case r of
        Inr _ \<Rightarrow> \<lparr>kn_values = vs(name := {Some v}), kn_twice = kn_twice k - {name}, kn_store = t\<rparr>
      | Inl _ \<Rightarrow>
          if sec_warned t
          then \<lparr>kn_values = vs(name := insert (Some v) (vs name)), kn_twice = insert name (kn_twice k), kn_store = t\<rparr>
          else k\<lparr>kn_store := t\<rparr>)"

definition known_after_delete :: "bytes \<Rightarrow> known \<Rightarrow> (secret_error + unit) \<Rightarrow> secrets \<Rightarrow> known" where
  "known_after_delete name k r t =
     (let vs = kn_values k in
      case r of
        Inr _ \<Rightarrow> \<lparr>kn_values = vs(name := {None}), kn_twice = kn_twice k - {name}, kn_store = t\<rparr>
      | Inl _ \<Rightarrow> k\<lparr>kn_values := vs(name := insert None (vs name)), kn_store := t\<rparr>)"

inductive store_step :: "known \<Rightarrow> known \<Rightarrow> bool" where
  set: "set_secret name v (log_emptied (kn_store k)) = (r, t) \<Longrightarrow> store_step k (known_after_set name v k r t)"
| delete: "delete_secret name (log_emptied (kn_store k)) = (r, t) \<Longrightarrow> store_step k (known_after_delete name k r t)"
| get: "try_get_secret name (log_emptied (kn_store k)) = (r, t) \<Longrightarrow> store_step k (k\<lparr>kn_store := t\<rparr>)"

text \<open>What the store holds is as known: the value in effect, and a copy of it in the keychain.\<close>

definition is_known :: "known \<Rightarrow> bytes \<Rightarrow> bool" where
  "is_known k n \<longleftrightarrow>
     (n \<notin> kn_twice k \<longrightarrow> one_place (kn_store k) n) \<and>
     secret_value (kn_store k) n \<in> kn_values k n \<and>
     (in_keychain (kn_store k) n \<noteq> None \<longrightarrow> in_keychain (kn_store k) n \<in> kn_values k n)"

definition as_known :: "known \<Rightarrow> bool" where
  "as_known k \<longleftrightarrow> (\<forall>n. is_known k n)"

lemma log_emptied [simp]:
  "sec_keychain (log_emptied s) = sec_keychain s" "sec_file (log_emptied s) = sec_file s"
  "in_keychain (log_emptied s) = in_keychain s" "secret_value (log_emptied s) = secret_value s"
  "one_place (log_emptied s) = one_place s" "same_values (log_emptied s) t = same_values s t"
  by (auto simp: log_emptied_def in_keychain_def secret_value_def one_place_def same_values_def fun_eq_iff
      split: option.splits)

lemma known_at_start_ok: "as_known (known_at_start s)"
  by (auto simp: as_known_def is_known_def known_at_start_def one_place_def secret_value_def split: option.split)

text \<open>Places as the two lookups: all that knowing a secret depends on.\<close>

lemma is_known_iff:
  "is_known \<lparr>kn_values = vs, kn_twice = D, kn_store = t\<rparr> n \<longleftrightarrow>
     (case (file_values (sec_file t) n, in_keychain t n) of
        (Some v, Some w) \<Rightarrow> n \<in> D \<and> Some v \<in> vs n \<and> Some w \<in> vs n
      | (Some v, None) \<Rightarrow> Some v \<in> vs n
      | (None, w) \<Rightarrow> w \<in> vs n)"
  by (auto simp: is_known_def one_place_def secret_value_def split: option.split)

lemma set_keeps:
  assumes "set_secret name v (log_emptied s) = (r, t)" and "is_known \<lparr>kn_values = vs, kn_twice = D, kn_store = s\<rparr> n"
  shows "is_known (known_after_set name v \<lparr>kn_values = vs, kn_twice = D, kn_store = s\<rparr> r t) n"
proof (cases r)
  case (Inl e)
  with set_secret_cases [OF assms(1)] have "undo_failed name v s t \<or> same_values s t"
    by (auto simp: undo_failed_def)
  with Inl assms(2) show ?thesis
    by (auto simp: known_after_set_def Let_def is_known_iff undo_failed_def same_values_def split: option.splits)
next
  case (Inr u)
  with set_secret_cases [OF assms(1)] assms(2) show ?thesis
    by (auto simp: known_after_set_def Let_def is_known_iff split: option.splits if_splits)
qed

lemma delete_keeps:
  assumes "delete_secret name (log_emptied s) = (r, t)" and "is_known \<lparr>kn_values = vs, kn_twice = D, kn_store = s\<rparr> n"
  shows "is_known (known_after_delete name \<lparr>kn_values = vs, kn_twice = D, kn_store = s\<rparr> r t) n"
  using delete_secret_cases [OF assms(1)] assms(2)
  by (cases r) (auto simp: known_after_delete_def Let_def is_known_iff split: option.splits if_splits)

lemma store_step_keeps:
  assumes "as_known k" and "store_step k k'"
  shows "as_known k'"
proof -
  obtain vs D s where k: "k = \<lparr>kn_values = vs, kn_twice = D, kn_store = s\<rparr>" by (cases k) simp
  from assms(2) show ?thesis
  proof cases
    case (get name r t)
    from try_get_secret_cases [OF get(2)] get(1) assms(1) show ?thesis
      by (simp add: k as_known_def is_known_iff in_keychain_eq)
  qed (use assms(1) k set_keeps delete_keeps in \<open>auto simp: as_known_def\<close>)
qed

interpretation secret_store: state_machine "\<lambda>k. k = known_at_start s" store_step as_known for s
  using store_step_keeps known_at_start_ok by unfold_locales blast+

text \<open>A read gives the value in effect, or the keychain's copy where the file cannot be read.\<close>

lemma try_get_secret_copy:
  assumes "try_get_secret name s = (Inr x, t)"
  shows "x = secret_value s name \<or> x = in_keychain s name \<and> x \<noteq> None"
proof -
  obtain r1 s1 where a1: "read_file s = (r1, s1)" by (rule prod.exhaust)
  obtain r2 s2 where a2: "kc_get name s1 = (r2, s2)" by (rule prod.exhaust)
  have k: "in_keychain s1 = in_keychain s" if "sec_keychain s1 = sec_keychain s"
    using that by (simp add: in_keychain_eq)
  from try_call_cases [OF a1 [unfolded read_file_def]] obtain s' where
    "sec_keychain s1 = sec_keychain s" "sec_file s1 = sec_file s" "sec_warned s1 = sec_warned s"
    "(\<exists>e. r1 = Inl e) \<or> r1 = Inr (case sec_file s of NoFile \<Rightarrow> Readable Map.empty | f \<Rightarrow> f)"
    by auto
  with kc_get_cases [OF a2] k assms a1 a2 show ?thesis
    by (auto simp: try_get_secret_def and_try_def done_with_def secret_value_def
        file_values_def in_keychain_eq split: sum.splits option.splits file_state.splits if_splits)
qed

text \<open>
  C21. No outdated copy comes back. Whatever the store held at the start, after any calls, whatever
  failed in them: a read gives a value the secret may have by the calls before, or fails, also
  where the file cannot be read or is damaged. That is the value last saved, or none if it was
  forgotten last; only where forgetting it failed since, none as well; and where saving it failed
  since and the log says that undoing failed, the value of that call as well (at the start, the
  copies it holds). A secret of which the log never said so, and that was not in two places at the
  start, is in one place, and what is read is the value in effect; so is one saved or forgotten since.
\<close>

theorem secrets_are_never_outdated:
  assumes run: "store_step\<^sup>*\<^sup>* (known_at_start start) k"
    and read: "try_get_secret n (kn_store k) = (Inr x, t)"
  shows "x \<in> kn_values k n \<and>
    (n \<notin> kn_twice k \<longrightarrow> one_place (kn_store k) n \<and> x = secret_value (kn_store k) n)"
  using secret_store.reachable_inv [OF refl run] try_get_secret_copy [OF read] try_get_secret_cases [OF read]
  by (auto simp: as_known_def is_known_def)

text \<open>
  The keychain refuses the value, which is kept in the file, the keychain's older copy removed;
  then the file cannot be read: the read fails or gives the value saved, never the older one.
\<close>

definition demo_store :: secrets where
  "demo_store = \<lparr>sec_keychain = Some [[1] \<mapsto> [5]], sec_file = NoFile,
     sec_faults = [False, False, True], sec_warned = False\<rparr>"

theorem secrets_are_never_outdated_witness:
  "\<exists>k t. store_step\<^sup>*\<^sup>* (known_at_start demo_store) k \<and> kn_values k [1] = {Some [7]} \<and>
     try_get_secret [1] (kn_store k) = (Inr (Some [7]), t) \<and>
     one_place (kn_store k) [1] \<and> secret_value (kn_store k) [1] = Some [7]"
proof -
  obtain t where t: "set_secret [1] [7] (log_emptied demo_store) = (Inr (), t)"
    "try_get_secret [1] t = (Inr (Some [7]), t)"
    by (simp add: demo_store_def log_emptied_def set_secret_def and_try_def load_for_write_def read_file_def
        try_call_def call_fails_def done_with_def kc_get_def kc_set_def kc_delete_def set_in_file_def
        write_file_def replace_private_def file_values_def in_keychain_def try_get_secret_def)
  let ?k = "known_after_set [1] [7] (known_at_start demo_store) (Inr ()) t"
  have "store_step (known_at_start demo_store) ?k"
    by (rule store_step.set) (simp add: t(1) known_at_start_def)
  then have run: "store_step\<^sup>*\<^sup>* (known_at_start demo_store) ?k" by (rule r_into_rtranclp)
  have k: "kn_store ?k = t" "kn_values ?k [1] = {Some [7]}" "[1] \<notin> kn_twice ?k"
    by (simp_all add: known_after_set_def Let_def)
  with secrets_are_never_outdated [OF run, of "[1]" "Some [7]" t] t run show ?thesis by metis
qed

end
