(* ===== verification/Stream_Key.thy ===== *)
theory Stream_Key
  imports Secrets Url
begin

text \<open>
  Which server a stream key may be sent to, and the key as it is kept with that server
  (\<^verbatim>\<open>crates/control/src/app.rs\<close>, \<^verbatim>\<open>bound.rs\<close> and \<^verbatim>\<open>dest_key.rs\<close>), and how a destination URL is
  shown (\<^verbatim>\<open>shown_server\<close> of \<^verbatim>\<open>crates/obs/src/lib.rs\<close>). The JSON of a secret kept with its owner
  is written and read by the library \<^verbatim>\<open>serde_json\<close>: \<open>enc\<close> and \<open>dec\<close> are parameters.
\<close>

section \<open>Servers\<close>

definition TWITCH_DOMAINS :: "bytes list" where
  "TWITCH_DOMAINS = [ascii ''twitch.tv'', ascii ''live-video.net'']"

definition YOUTUBE_DOMAINS :: "bytes list" where
  "YOUTUBE_DOMAINS = [ascii ''youtube.com'']"

definition SERVICE_DOMAINS :: "bytes list list" where
  "SERVICE_DOMAINS = [TWITCH_DOMAINS, YOUTUBE_DOMAINS]"

text \<open>A stream key in a destination URL, and the URL without it.\<close>

definition split_url_key :: "bytes \<Rightarrow> bytes \<times> bytes option" where
  "split_url_key url =
     (case parse_url url of
        Inr u \<Rightarrow> if u_stream_key u \<noteq> None then (u_tc_url u, u_stream_key u) else (url, None)
      | Inl _ \<Rightarrow> (url, None))"

text \<open>\<^verbatim>\<open>position\<close>: the first that satisfies \<open>P\<close>.\<close>

definition position :: "('a \<Rightarrow> bool) \<Rightarrow> 'a list \<Rightarrow> nat option" where
  "position P xs =
     (let n = length (takeWhile (\<lambda>x. \<not> P x) xs) in if n < length xs then Some n else None)"

definition service_of :: "bytes \<Rightarrow> nat option" where
  "service_of host = position (list_ex (in_domain host)) SERVICE_DOMAINS"

definition different_server :: "bytes \<Rightarrow> bytes \<Rightarrow> bool" where
  "different_server old new =
     (case parse_url new of
        Inl _ \<Rightarrow> False
      | Inr b \<Rightarrow>
          (case parse_url old of
             Inl _ \<Rightarrow> True
           | Inr a \<Rightarrow>
               (let host_a = map ascii_lower (u_host a); host_b = map ascii_lower (u_host b)
                in if encrypted a \<and> \<not> encrypted b then True
                   else (case service_of host_a of
                           Some s \<Rightarrow> service_of host_b \<noteq> Some s
                         | None \<Rightarrow>
                             \<not> (u_scheme a = u_scheme b \<and> host_a = host_b \<and>
                                u_port a = u_port b \<and> u_app a = u_app b)))))"

definition valid_url :: "bytes \<Rightarrow> bool" where
  "valid_url url \<longleftrightarrow> (case parse_url url of Inl _ \<Rightarrow> False | Inr _ \<Rightarrow> True)"

definition same_server :: "bytes \<Rightarrow> bytes \<Rightarrow> bool" where
  "same_server known url \<longleftrightarrow> valid_url url \<and> \<not> different_server known url"

section \<open>What is shown of a URL\<close>

text \<open>\<^verbatim>\<open>find\<close> of a text: where it first begins.\<close>

fun find_at :: "bytes \<Rightarrow> bytes \<Rightarrow> nat option" where
  "find_at p s =
     (if take (length p) s = p then Some 0
      else (case s of [] \<Rightarrow> None | _ # t \<Rightarrow> map_option Suc (find_at p t)))"

declare find_at.simps [simp del]

record server_parts =
  sp_scheme :: bytes
  sp_host :: bytes
  sp_path :: bytes
  sp_login :: bool
  sp_query :: bool
  sp_later_at :: bool

text \<open>The text after the last of a byte (\<^verbatim>\<open>rsplit_once\<close>).\<close>

definition after_last :: "u8 \<Rightarrow> bytes \<Rightarrow> bytes option" where
  "after_last b s = (if b \<in> set s then Some (rev (takeWhile (\<lambda>x. x \<noteq> b) (rev s))) else None)"

definition server_parts_of :: "bytes \<Rightarrow> server_parts" where
  "server_parts_of server =
     (let (scheme, rest) = (case find_at (ascii ''://'') server of
              Some i \<Rightarrow> (take (i + 3) server, drop (i + 3) server)
            | None \<Rightarrow> ([], server));
          ends = (\<lambda>b. b \<in> {0x2F, 0x3F, 0x23});
          authority = takeWhile (\<lambda>b. \<not> ends b) rest;
          path = dropWhile (\<lambda>b. \<not> ends b) rest;
          (login, host) = (case after_last 0x40 authority of
              Some host \<Rightarrow> (True, host)
            | None \<Rightarrow> (False, authority));
          starts = (\<lambda>b. b \<in> {0x3F, 0x23})
      in \<lparr>sp_scheme = scheme, sp_host = host, sp_path = takeWhile (\<lambda>b. \<not> starts b) path,
          sp_login = login, sp_query = list_ex starts path, sp_later_at = 0x40 \<in> set path\<rparr>)"

definition shown_server :: "bytes \<Rightarrow> bytes" where
  "shown_server server =
     (let p = server_parts_of (trim server)
      in if sp_later_at p then sp_scheme p @ ELLIPSIS
         else (let segments = filter (\<lambda>s. s \<noteq> []) (split_at 0x2F (sp_path p))
               in sp_scheme p @ (if sp_login p then ELLIPSIS @ [0x40] else []) @ sp_host p @
                  (case segments of [] \<Rightarrow> [] | app # _ \<Rightarrow> 0x2F # app) @
                  (if 1 < length segments then 0x2F # ELLIPSIS else []) @
                  (if sp_query p then 0x3F # ELLIPSIS else [])))"

definition shown_url :: "bytes \<Rightarrow> bytes" where
  "shown_url url =
     (case parse_url url of Inl _ \<Rightarrow> shown_server url | Inr u \<Rightarrow> redacted_url u)"

section \<open>Secrets kept with their owner\<close>

text \<open>\<open>enc owner value\<close> is the text kept; \<open>dec\<close> reads it.\<close>

record 'v saved =
  saved_owner :: "bytes option"
  saved_value :: 'v

definition bound_save :: "(bytes \<Rightarrow> 'v \<Rightarrow> bytes) \<Rightarrow> bytes \<Rightarrow> bytes \<Rightarrow> 'v \<Rightarrow> unit attempt" where
  "bound_save enc name owner v = set_secret name (enc owner v)"

definition bound_load ::
  "(bytes \<Rightarrow> (bytes \<times> 'v) option) \<Rightarrow> bytes \<Rightarrow> (bytes \<Rightarrow> 'v option) \<Rightarrow> secrets \<Rightarrow>
    'v saved option \<times> secrets" where
  "bound_load dec name legacy s =
     (case get_secret name s of
        (None, s) \<Rightarrow> (None, s)
      | (Some raw, s) \<Rightarrow>
          (case dec raw of
             Some (owner, v) \<Rightarrow> (Some \<lparr>saved_owner = Some owner, saved_value = v\<rparr>, s)
           | None \<Rightarrow> (map_option (\<lambda>v. \<lparr>saved_owner = None, saved_value = v\<rparr>) (legacy raw), s)))"

definition owner_or :: "bytes \<Rightarrow> 'v saved \<Rightarrow> bytes" where
  "owner_or legacy_owner r = (case saved_owner r of None \<Rightarrow> legacy_owner | Some o' \<Rightarrow> o')"

definition bound_load_for ::
  "(bytes \<Rightarrow> (bytes \<times> 'v) option) \<Rightarrow> bytes \<Rightarrow> bytes \<Rightarrow> bytes \<Rightarrow> (bytes \<Rightarrow> 'v option) \<Rightarrow> secrets \<Rightarrow>
    'v option \<times> secrets" where
  "bound_load_for dec name owner legacy_owner legacy s =
     (case bound_load dec name legacy s of
        (None, s) \<Rightarrow> (None, s)
      | (Some r, s) \<Rightarrow> (if owner_or legacy_owner r = owner then Some (saved_value r) else None, s))"

section \<open>The destination's stream key\<close>

definition DESTINATION_KEY :: bytes where
  "DESTINATION_KEY = ascii ''destination-key''"

definition key_read :: "(bytes \<Rightarrow> (bytes \<times> bytes) option) \<Rightarrow> secrets \<Rightarrow> bytes saved option \<times> secrets" where
  "key_read dec = bound_load dec DESTINATION_KEY Some"

definition key_save :: "(bytes \<Rightarrow> bytes \<Rightarrow> bytes) \<Rightarrow> bytes \<Rightarrow> bytes \<Rightarrow> unit attempt" where
  "key_save enc server key = bound_save enc DESTINATION_KEY (fst (split_url_key server)) key"

definition key_for_url ::
  "(bytes \<Rightarrow> (bytes \<times> bytes) option) \<Rightarrow> bytes \<Rightarrow> bytes \<Rightarrow> secrets \<Rightarrow> bytes option \<times> secrets" where
  "key_for_url dec url legacy_server s =
     (case key_read dec s of
        (None, s) \<Rightarrow> (None, s)
      | (Some r, s) \<Rightarrow>
          (if saved_value r \<noteq> [] \<and> \<not> different_server (owner_or legacy_server r) url
           then Some (saved_value r) else None, s))"

definition key_any :: "(bytes \<Rightarrow> (bytes \<times> bytes) option) \<Rightarrow> secrets \<Rightarrow> bytes option \<times> secrets" where
  "key_any dec s =
     (case key_read dec s of
        (None, s) \<Rightarrow> (None, s)
      | (Some r, s) \<Rightarrow> (if saved_value r = [] then None else Some (saved_value r), s))"

definition bind_legacy ::
  "(bytes \<Rightarrow> bytes \<Rightarrow> bytes) \<Rightarrow> (bytes \<Rightarrow> (bytes \<times> bytes) option) \<Rightarrow> bytes \<Rightarrow> bool attempt" where
  "bind_legacy enc dec server s =
     (case key_read dec s of
        (Some r, s) \<Rightarrow>
          if saved_owner r = None \<and> saved_value r \<noteq> []
          then and_try (key_save enc server (saved_value r)) (\<lambda>_. done_with True) s
          else (Inr False, s)
      | (None, s) \<Rightarrow> (Inr False, s))"

section \<open>A URL as the relay is given it\<close>

lemma front_of_prefix: "front_of ws (p @ t) = None \<Longrightarrow> front_of ws p = None"
  unfolding front_of_None
proof (intro ballI impI notI)
  fix w assume none: "\<forall>w \<in> set ws. w \<noteq> [] \<longrightarrow> take (length w) (p @ t) \<noteq> w"
    and w: "w \<in> set ws" "w \<noteq> []" "take (length w) p = w"
  then have "length w \<le> length p" by (metis length_take min.cobounded2 min.commute)
  with none w show False by auto
qed

lemma strip_front_suffix: "\<exists>p. s = p @ strip_front ws s"
proof (induction ws s rule: strip_front.induct)
  case (1 ws s)
  show ?case
  proof (cases "front_of ws s")
    case (Some w)
    with 1 obtain p where "drop (length w) s = p @ strip_front ws (drop (length w) s)" by blast
    with Some have "s = (take (length w) s @ p) @ strip_front ws s"
      by (metis append.assoc append_take_drop_id option.simps(5) strip_front.simps)
    then show ?thesis by blast
  qed (simp add: strip_front.simps [of ws s])
qed

lemma strip_front_done: "front_of ws (strip_front ws s) = None"
proof (induction ws s rule: strip_front.induct)
  case (1 ws s)
  then show ?case by (cases "front_of ws s") (simp_all add: strip_front.simps [of ws s])
qed

lemma trim_trim [simp]: "trim (trim s) = trim s"
proof -
  define t where "t = trim_start s"
  obtain p where p: "rev t = p @ strip_front (map rev white_space) (rev t)"
    using strip_front_suffix by blast
  then have t: "t = trim_end t @ rev p" by (metis rev_append rev_rev_ident trim_end_def)
  have "front_of white_space t = None" unfolding t_def trim_start_def by (rule strip_front_done)
  then have "front_of white_space (trim_end t @ rev p) = None" using t by simp
  then have "trim_start (trim_end t) = trim_end t"
    by (simp add: trim_start_def strip_front_same front_of_prefix)
  moreover have "trim_end (trim_end t) = trim_end t"
    by (simp add: trim_end_def strip_front_same strip_front_done)
  ultimately show ?thesis by (simp add: trim_def t_def [symmetric])
qed

lemma parse_trim [simp]: "parse_url (trim s) = parse_url s"
  by (simp add: parse_url_def)

lemma different_server_trim [simp]:
  "different_server (trim a) b = different_server a b"
  "different_server a (trim b) = different_server a b"
  by (simp_all only: different_server_def parse_trim)

section \<open>The same server, and the same again\<close>

text \<open>What two URLs of one server share.\<close>

definition one_server :: "rtmp_url \<Rightarrow> rtmp_url \<Rightarrow> bool" where
  "one_server a b \<longleftrightarrow>
     (encrypted a \<longrightarrow> encrypted b) \<and>
     (case service_of (map ascii_lower (u_host a)) of
        Some s \<Rightarrow> service_of (map ascii_lower (u_host b)) = Some s
      | None \<Rightarrow> u_scheme a = u_scheme b \<and> map ascii_lower (u_host a) = map ascii_lower (u_host b) \<and>
          u_port a = u_port b \<and> u_app a = u_app b)"

lemma different_server_iff:
  "parse_url x = Inr a \<Longrightarrow> parse_url y = Inr b \<Longrightarrow> different_server x y \<longleftrightarrow> \<not> one_server a b"
  by (auto simp: different_server_def one_server_def Let_def split: option.split)

lemma same_server_iff:
  "same_server x y \<longleftrightarrow> (\<exists>a b. parse_url x = Inr a \<and> parse_url y = Inr b \<and> one_server a b)"
proof (cases "parse_url x")
  case (Inl e)
  then show ?thesis
    by (auto simp: same_server_def valid_url_def different_server_def split: sum.split)
next
  case (Inr a)
  then show ?thesis
    by (cases "parse_url y") (auto simp: same_server_def valid_url_def different_server_iff)
qed

lemma one_server_trans: "one_server a b \<Longrightarrow> one_server b c \<Longrightarrow> one_server a c"
  unfolding one_server_def by (elim conjE, intro conjI) (auto split: option.splits)

lemma one_server_refl [simp]: "one_server a a"
  by (simp add: one_server_def split: option.split)

text \<open>
  Moving on from server to server never widens where a key may go: servers that count as
  the same form chains, so whatever the steps the last is the same as the first; it is
  encrypted if the first was, and of the same service, or else the same scheme, host, port and
  application.
\<close>

theorem same_server_chain:
  assumes "same_server x y" and "same_server y z"
    and "parse_url x = Inr a" and "parse_url z = Inr c"
  shows "same_server x z \<and> same_server x x \<and> (encrypted a \<longrightarrow> encrypted c) \<and>
    (case service_of (map ascii_lower (u_host a)) of
       Some s \<Rightarrow> service_of (map ascii_lower (u_host c)) = Some s
     | None \<Rightarrow> u_scheme a = u_scheme c \<and> map ascii_lower (u_host a) = map ascii_lower (u_host c) \<and>
         u_port a = u_port c \<and> u_app a = u_app c)"
proof -
  from assms obtain b where "one_server a b" "one_server b c" by (auto simp: same_server_iff)
  then have "one_server a c" by (rule one_server_trans)
  with assms(3,4) show ?thesis by (auto simp: same_server_iff one_server_def split: option.split)
qed

definition twitch_url :: bytes where "twitch_url = ascii ''rtmp://live.twitch.tv/app''"
definition twitch_tls_url :: bytes where "twitch_tls_url = ascii ''rtmps://live.Twitch.tv:443/app''"
definition twitch_eu_url :: bytes where "twitch_eu_url = ascii ''rtmps://eu.live-video.net/x''"

lemma twitch_trim: "trim twitch_url = twitch_url" "trim twitch_tls_url = twitch_tls_url"
  "trim twitch_eu_url = twitch_eu_url"
  unfolding trim_def trim_start_def trim_end_def
  by (simp_all add: twitch_url_def twitch_tls_url_def twitch_eu_url_def ascii_def
      strip_front_same [THEN iffD2] front_of_None white_space_def)

lemma twitch_parsed:
  "parse_url twitch_url = Inr \<lparr>u_scheme = Rtmp, u_host = ascii ''live.twitch.tv'', u_port = 1935,
     u_app = ascii ''app'', u_tc_url = twitch_url, u_stream_key = None\<rparr>"
  "parse_url twitch_tls_url = Inr \<lparr>u_scheme = Rtmps, u_host = ascii ''live.Twitch.tv'', u_port = 443,
     u_app = ascii ''app'', u_tc_url = ascii ''rtmps://live.Twitch.tv/app'', u_stream_key = None\<rparr>"
  "parse_url twitch_eu_url = Inr \<lparr>u_scheme = Rtmps, u_host = ascii ''eu.live-video.net'', u_port = 443,
     u_app = ascii ''x'', u_tc_url = twitch_eu_url, u_stream_key = None\<rparr>"
  unfolding parse_url_def twitch_trim
  by (simp_all add: twitch_url_def twitch_tls_url_def twitch_eu_url_def url_eval)

lemma twitch_service:
  "service_of (map ascii_lower (ascii ''live.twitch.tv'')) = Some 0"
  "service_of (map ascii_lower (ascii ''live.Twitch.tv'')) = Some 0"
  "service_of (map ascii_lower (ascii ''eu.live-video.net'')) = Some 0"
  by (simp_all add: service_of_def position_def SERVICE_DOMAINS_def TWITCH_DOMAINS_def
      YOUTUBE_DOMAINS_def in_domain_def eq_ignore_ascii_case_def ascii_lower_def ascii_def)

text \<open>From Twitch without encryption to one of its servers with it, and to another.\<close>

theorem same_server_chain_witness: "same_server twitch_url twitch_eu_url"
proof -
  have "same_server twitch_url twitch_tls_url" "same_server twitch_tls_url twitch_eu_url"
    by (simp_all add: same_server_iff twitch_parsed one_server_def encrypted_def twitch_service)
  from same_server_chain [OF this twitch_parsed(1) twitch_parsed(3)] show ?thesis by simp
qed

end
