(* ===== verification/Settings.thy ===== *)
theory Settings
  imports Config Stream_Key "HOL-Library.List_Lexorder"
begin

text \<open>
  Changes to the settings as the dashboard asks for them
  (\<^verbatim>\<open>crates/control/src/settings.rs\<close>): what is refused and why, and what an accepted change
  does. A parameter \<open>mac\<close> says whether the program is built for macOS.
\<close>

section \<open>Limits\<close>

datatype settings_error =
    MaxDelayRange | StartDelayRange | RamCapRange | MaskMarginRange | GraceTooLong
  | DestinationUrl url_error | HiddenStreamKey | HiddenQuery
  | PresetCount | PresetRange f64 nat
  | SameHotkey bytes bytes bytes
  | NotAColor bytes | OverlayTextTooLong | BadgePosition

definition MAX_GRACE_SECONDS :: nat where "MAX_GRACE_SECONDS = 600"

text \<open>Refusals in their order: the first that applies.\<close>

definition refuse :: "bool \<Rightarrow> 'e \<Rightarrow> 'e option \<Rightarrow> 'e option" where
  "refuse bad e rest = (if bad then Some e else rest)"

definition or_else :: "'e option \<Rightarrow> 'e option \<Rightarrow> 'e option" where
  "or_else a b = (case a of Some e \<Rightarrow> Some e | None \<Rightarrow> b)"

definition validate_limits :: "delay_config \<Rightarrow> nat \<Rightarrow> settings_error option" where
  "validate_limits d grace_seconds =
     refuse (\<not> (5 \<le> dl_max_seconds d \<and> dl_max_seconds d \<le> 900)) MaxDelayRange
       (refuse (\<not> (f_le (Finite 0) (dl_start_seconds d) \<and>
                   f_le (dl_start_seconds d) (f_of_nat (dl_max_seconds d)))) StartDelayRange
          (refuse (\<not> (16 \<le> dl_ram_cap_mb d \<and> dl_ram_cap_mb d \<le> 16384)) RamCapRange
             (refuse (\<not> (500 \<le> dl_mask_margin_ms d \<and> dl_mask_margin_ms d \<le> 5000)) MaskMarginRange
                (refuse (MAX_GRACE_SECONDS < grace_seconds) GraceTooLong None))))"

section \<open>Colors\<close>

definition color_digit :: "u8 \<Rightarrow> bool" where
  "color_digit b \<longleftrightarrow> digit b \<or> 0x41 \<le> b \<and> b \<le> 0x46 \<or> 0x61 \<le> b \<and> b \<le> 0x66"

definition valid_color :: "bytes \<Rightarrow> bool" where
  "valid_color c =
     (let hex = (if c \<noteq> [] \<and> hd c = 0x23 then tl c else [])
      in length hex \<in> {3, 6, 8} \<and> list_all color_digit hex)"

section \<open>Hotkeys\<close>

definition ascii_upper :: "u8 \<Rightarrow> u8" where
  "ascii_upper b = (if 0x61 \<le> b \<and> b \<le> 0x7A then b - 0x20 else b)"

fun join :: "bytes \<Rightarrow> bytes list \<Rightarrow> bytes" where
  "join sep [] = []"
| "join sep [s] = s"
| "join sep (s # t # ss) = s @ sep @ join sep (t # ss)"

definition modifier :: "bool \<Rightarrow> bytes \<Rightarrow> bytes" where
  "modifier mac m =
     (if m \<in> {ascii ''OPTION'', ascii ''ALT''} then ascii ''ALT''
      else if m \<in> {ascii ''CONTROL'', ascii ''CTRL''} then ascii ''CONTROL''
      else if m \<in> {ascii ''COMMAND'', ascii ''CMD'', ascii ''SUPER''} then ascii ''SUPER''
      else if m \<in> {ascii ''COMMANDORCONTROL'', ascii ''COMMANDORCTRL'', ascii ''CMDORCTRL'',
                   ascii ''CMDORCONTROL''}
           then (if mac then ascii ''SUPER'' else ascii ''CONTROL'')
      else m)"

text \<open>What follows a prefix, if it is one byte.\<close>

definition short_after :: "bytes \<Rightarrow> bytes \<Rightarrow> bytes option" where
  "short_after p key =
     (if take (length p) key = p \<and> length (drop (length p) key) = 1
      then Some (drop (length p) key) else None)"

definition hotkey_keys :: "bool \<Rightarrow> bytes \<Rightarrow> bytes option" where
  "hotkey_keys mac spec =
     (let parts = map (\<lambda>p. map ascii_upper (trim p)) (split_at 0x2B spec);
          key = last parts;
          mods = remdups_adj (sort (map (modifier mac) (butlast parts)));
          short = (case short_after (ascii ''DIGIT'') key of
                     Some k \<Rightarrow> k
                   | None \<Rightarrow> (case short_after (ascii ''KEY'') key of Some k \<Rightarrow> k | None \<Rightarrow> key))
      in if key = [] then None else Some (join [0x2B] mods @ 0x2B # short))"

definition hotkey_actions :: "hotkey_config \<Rightarrow> nat \<Rightarrow> (bytes \<times> bytes) list" where
  "hotkey_actions h presets =
     [(ascii ''Remove delay now'', hk_go_live h),
      (ascii ''Remove delay after it airs'', hk_go_live_after_air h),
      (ascii ''End stream now'', hk_end_stream h),
      (ascii ''End stream (after the buffer airs)'', hk_end_stream_after_air h),
      (ascii ''Dump buffer'', hk_dump h)] @
     map (\<lambda>(i, spec). (ascii ''Preset '' @ decimal (i + 1), spec))
       (enumerate 0 (take presets (hk_presets h)))"

fun same_hotkey ::
  "bool \<Rightarrow> (bytes \<times> bytes) list \<Rightarrow> (bytes \<times> bytes) list \<Rightarrow> settings_error option" where
  "same_hotkey mac seen [] = None"
| "same_hotkey mac seen ((name, spec) # actions) =
     (case hotkey_keys mac spec of
        None \<Rightarrow> same_hotkey mac seen actions
      | Some keys \<Rightarrow>
          (case find (\<lambda>(k, _). k = keys) seen of
             Some (_, other) \<Rightarrow> Some (SameHotkey other name (trim spec))
           | None \<Rightarrow> same_hotkey mac (seen @ [(keys, name)]) actions))"

definition check_hotkeys :: "bool \<Rightarrow> hotkey_config \<Rightarrow> nat \<Rightarrow> settings_error option" where
  "check_hotkeys mac h presets = same_hotkey mac [] (hotkey_actions h presets)"

section \<open>A change of some sections\<close>

record settings_update =
  su_destination :: "destination_config option"
  su_delay :: "delay_config option"
  su_overlay :: "overlay_config option"
  su_hotkeys :: "hotkey_config option"
  su_grace_seconds :: "nat option"
  su_allow_lan :: "bool option"

definition the_or :: "'a \<Rightarrow> 'a option \<Rightarrow> 'a" where
  "the_or d x = (case x of None \<Rightarrow> d | Some v \<Rightarrow> v)"

definition has_hidden :: "bytes \<Rightarrow> bool" where
  "has_hidden s \<longleftrightarrow> find_at ELLIPSIS s \<noteq> None"

definition validate_url :: "bytes \<Rightarrow> settings_error option" where
  "validate_url url =
     (if trim url = [] then None
      else (case parse_url url of
              Inl e \<Rightarrow> Some (DestinationUrl e)
            | Inr u \<Rightarrow>
                refuse (case u_stream_key u of None \<Rightarrow> False | Some k \<Rightarrow> has_hidden k) HiddenStreamKey
                  (refuse (case url_query u of None \<Rightarrow> False | Some q \<Rightarrow> has_hidden q) HiddenQuery
                     None)))"

definition f_lt :: "f64 \<Rightarrow> f64 \<Rightarrow> bool" where
  "f_lt x y \<longleftrightarrow> f_le x y \<and> \<not> f_le y x"

definition validate_presets :: "delay_config \<Rightarrow> settings_error option" where
  "validate_presets d =
     refuse (dl_presets d = [] \<or> 10 < length (dl_presets d)) PresetCount
       (map_option (\<lambda>p. PresetRange (ps_seconds p) (dl_max_seconds d))
          (find (\<lambda>p. \<not> is_finite (ps_seconds p) \<or> f_lt (ps_seconds p) (Finite 0) \<or>
                     f_lt (f_of_nat (dl_max_seconds d)) (ps_seconds p))
             (dl_presets d)))"

definition BADGE_POSITIONS :: "bytes list" where
  "BADGE_POSITIONS =
     [ascii ''top-left'', ascii ''top-right'', ascii ''bottom-left'', ascii ''bottom-right'']"

definition validate_overlay :: "overlay_config \<Rightarrow> settings_error option" where
  "validate_overlay o' =
     or_else (map_option NotAColor
                (find (\<lambda>c. \<not> valid_color c)
                   [ov_accent_color o', ov_background_color o', ov_text_color o']))
       (refuse (200 < length (chars (ov_mask_title o')) \<or>
                400 < length (chars (ov_mask_subtitle o')) \<or>
                2048 < length (chars (ov_mask_image o'))) OverlayTextTooLong
          (refuse (ov_badge_position o' \<notin> set BADGE_POSITIONS) BadgePosition None))"

definition validate :: "bool \<Rightarrow> settings_update \<Rightarrow> config \<Rightarrow> settings_error option" where
  "validate mac u current =
     or_else (case su_destination u of None \<Rightarrow> None | Some d \<Rightarrow> validate_url (dc_url d))
       (or_else (validate_limits (the_or (cf_delay current) (su_delay u))
                   (the_or (ic_grace_seconds (cf_ingest current)) (su_grace_seconds u)))
          (or_else (case su_delay u of None \<Rightarrow> None | Some d \<Rightarrow> validate_presets d)
             (or_else (if su_hotkeys u \<noteq> None \<or> su_delay u \<noteq> None
                       then check_hotkeys mac (the_or (cf_hotkeys current) (su_hotkeys u))
                              (length (dl_presets (the_or (cf_delay current) (su_delay u))))
                       else None)
                (case su_overlay u of None \<Rightarrow> None | Some o' \<Rightarrow> validate_overlay o'))))"

text \<open>What a change does beyond the settings file.\<close>

record applied =
  keep_buffer_changed :: bool
  after_reconnect_changed :: bool
  restart :: bool

text \<open>Each section is applied in turn.\<close>

definition when_given :: "'v option \<Rightarrow> ('v \<Rightarrow> 's \<Rightarrow> 's) \<Rightarrow> 's \<Rightarrow> 's" where
  "when_given v f s = (case v of None \<Rightarrow> s | Some x \<Rightarrow> f x s)"

definition apply_delay :: "delay_config \<Rightarrow> config \<times> applied \<Rightarrow> config \<times> applied" where
  "apply_delay d = (\<lambda>(c, a).
     (let old = cf_delay c
      in (c\<lparr>cf_delay := d\<rparr>,
          a\<lparr>restart := restart a \<or> dl_max_seconds d \<noteq> dl_max_seconds old \<or>
              dl_ram_cap_mb d \<noteq> dl_ram_cap_mb old \<or> dl_mask_margin_ms d \<noteq> dl_mask_margin_ms old \<or>
              dl_mute_under_slate d \<noteq> dl_mute_under_slate old,
            keep_buffer_changed := (dl_keep_buffer d \<noteq> dl_keep_buffer old),
            after_reconnect_changed := (dl_after_reconnect d \<noteq> dl_after_reconnect old)\<rparr>)))"

definition apply_grace :: "nat \<Rightarrow> config \<times> applied \<Rightarrow> config \<times> applied" where
  "apply_grace g = (\<lambda>(c, a).
     (c\<lparr>cf_ingest := (cf_ingest c)\<lparr>ic_grace_seconds := g\<rparr>\<rparr>,
      a\<lparr>restart := restart a \<or> g \<noteq> ic_grace_seconds (cf_ingest c)\<rparr>))"

definition apply_lan :: "bool \<Rightarrow> config \<times> applied \<Rightarrow> config \<times> applied" where
  "apply_lan l = (\<lambda>(c, a).
     (c\<lparr>cf_api := (cf_api c)\<lparr>ap_allow_lan := l\<rparr>\<rparr>,
      a\<lparr>restart := restart a \<or> l \<noteq> ap_allow_lan (cf_api c)\<rparr>))"

definition apply_update :: "settings_update \<Rightarrow> config \<Rightarrow> config \<times> applied" where
  "apply_update u c =
     when_given (su_allow_lan u) apply_lan
       (when_given (su_grace_seconds u) apply_grace
          (when_given (su_hotkeys u) (\<lambda>h (c, a). (c\<lparr>cf_hotkeys := h\<rparr>, a))
             (when_given (su_overlay u) (\<lambda>o' (c, a). (c\<lparr>cf_overlay := o'\<rparr>, a))
                (when_given (su_delay u) apply_delay
                   (when_given (su_destination u) (\<lambda>d (c, a). (c\<lparr>cf_destination := d\<rparr>, a))
                      (c, \<lparr>keep_buffer_changed = False, after_reconnect_changed = False,
                           restart = False\<rparr>))))))"

section \<open>Settings in order\<close>

text \<open>What settings in effect are to be, said without the order of the checks.\<close>

definition limits_ok :: "delay_config \<Rightarrow> nat \<Rightarrow> bool" where
  "limits_ok d grace \<longleftrightarrow>
     5 \<le> dl_max_seconds d \<and> dl_max_seconds d \<le> 900 \<and>
     (\<exists>r. dl_start_seconds d = Finite r \<and> 0 \<le> r \<and> r \<le> of_nat (dl_max_seconds d)) \<and>
     16 \<le> dl_ram_cap_mb d \<and> dl_ram_cap_mb d \<le> 16384 \<and>
     500 \<le> dl_mask_margin_ms d \<and> dl_mask_margin_ms d \<le> 5000 \<and> grace \<le> 600"

definition presets_ok :: "delay_config \<Rightarrow> bool" where
  "presets_ok d \<longleftrightarrow>
     1 \<le> length (dl_presets d) \<and> length (dl_presets d) \<le> 10 \<and>
     (\<forall>p \<in> set (dl_presets d). \<exists>r. ps_seconds p = Finite r \<and> 0 \<le> r \<and> r \<le> of_nat (dl_max_seconds d))"

text \<open>No two actions share a hotkey, as the desktop reads it.\<close>

definition hotkeys_ok :: "bool \<Rightarrow> hotkey_config \<Rightarrow> nat \<Rightarrow> bool" where
  "hotkeys_ok mac h presets \<longleftrightarrow>
     distinct (List.map_filter (\<lambda>(_, spec). hotkey_keys mac spec) (hotkey_actions h presets))"

definition overlay_ok :: "overlay_config \<Rightarrow> bool" where
  "overlay_ok o' \<longleftrightarrow>
     valid_color (ov_accent_color o') \<and> valid_color (ov_background_color o') \<and>
     valid_color (ov_text_color o') \<and> length (chars (ov_mask_title o')) \<le> 200 \<and>
     length (chars (ov_mask_subtitle o')) \<le> 400 \<and> length (chars (ov_mask_image o')) \<le> 2048 \<and>
     ov_badge_position o' \<in> set BADGE_POSITIONS"

definition settings_ok :: "bool \<Rightarrow> config \<Rightarrow> bool" where
  "settings_ok mac c \<longleftrightarrow>
     limits_ok (cf_delay c) (ic_grace_seconds (cf_ingest c)) \<and> presets_ok (cf_delay c) \<and>
     hotkeys_ok mac (cf_hotkeys c) (length (dl_presets (cf_delay c))) \<and> overlay_ok (cf_overlay c)"

text \<open>A destination URL that may be saved: none, or one that is read, and not as shown.\<close>

definition url_ok :: "bytes \<Rightarrow> bool" where
  "url_ok url \<longleftrightarrow> trim url = [] \<or>
     (\<exists>u. parse_url url = Inr u \<and> (\<forall>k. u_stream_key u = Some k \<longrightarrow> \<not> has_hidden k) \<and>
        (\<forall>q. url_query u = Some q \<longrightarrow> \<not> has_hidden q))"

lemma refuse_None [simp]: "refuse bad e rest = None \<longleftrightarrow> \<not> bad \<and> rest = None"
  by (simp add: refuse_def)

lemma or_else_None [simp]: "or_else a b = None \<longleftrightarrow> a = None \<and> b = None"
  by (simp add: or_else_def split: option.split)

lemma f_le_finite: "f_le (Finite 0) x \<and> f_le x (Finite b) \<longleftrightarrow> (\<exists>r. x = Finite r \<and> 0 \<le> r \<and> r \<le> b)"
  by (cases x) auto

lemma validate_limits_None: "validate_limits d g = None \<longleftrightarrow> limits_ok d g"
  using f_le_finite [of "dl_start_seconds d" "of_nat (dl_max_seconds d)"]
  by (auto simp: validate_limits_def limits_ok_def f_of_nat_def MAX_GRACE_SECONDS_def not_less)

lemma preset_in_range:
  "is_finite x \<and> \<not> f_lt x (Finite 0) \<and> \<not> f_lt (Finite b) x \<longleftrightarrow>
     (\<exists>r. x = Finite r \<and> 0 \<le> r \<and> r \<le> b)"
  by (cases x) (auto simp: is_finite_def f_lt_def)

lemma validate_presets_None: "validate_presets d = None \<longleftrightarrow> presets_ok d"
proof -
  have "(\<not> is_finite x \<or> f_lt x (Finite 0) \<or> f_lt (f_of_nat (dl_max_seconds d)) x) \<longleftrightarrow>
      \<not> (\<exists>r. x = Finite r \<and> 0 \<le> r \<and> r \<le> of_nat (dl_max_seconds d))" for x
    using preset_in_range [of x "of_nat (dl_max_seconds d)"] by (simp add: f_of_nat_def) blast
  then show ?thesis
    by (auto simp: validate_presets_def presets_ok_def find_None_iff not_less Suc_le_eq)
qed

lemma validate_overlay_None: "validate_overlay o' = None \<longleftrightarrow> overlay_ok o'"
  by (auto simp: validate_overlay_def overlay_ok_def not_less)

lemma validate_url_None: "validate_url url = None \<longleftrightarrow> url_ok url"
  by (auto simp: validate_url_def url_ok_def split: sum.splits option.splits)

lemma same_hotkey_None:
  "same_hotkey mac seen actions = None \<longleftrightarrow>
     (let ks = List.map_filter (\<lambda>(_, spec). hotkey_keys mac spec) actions
      in distinct ks \<and> set ks \<inter> fst ` set seen = {})"
proof (induction mac seen actions rule: same_hotkey.induct)
  case (1 mac seen)
  then show ?case by (simp add: List.map_filter_def)
next
  case (2 mac seen name spec actions)
  show ?case
  proof (cases "hotkey_keys mac spec")
    case None
    with 2 show ?thesis by (simp add: List.map_filter_def)
  next
    case (Some keys)
    show ?thesis
    proof (cases "find (\<lambda>(k, _). k = keys) seen")
      case None
      then have "keys \<notin> fst ` set seen" by (auto simp: find_None_iff)
      with 2(2) [OF Some None] Some None show ?thesis
        by (auto simp: List.map_filter_def Let_def)
    next
      case (Some e)
      then have "keys \<in> fst ` set seen" by (force dest: find_Some_in)
      with Some \<open>hotkey_keys mac spec = Some keys\<close> show ?thesis
        by (cases e) (auto simp: List.map_filter_def Let_def)
    qed
  qed
qed

lemma check_hotkeys_None: "check_hotkeys mac h n = None \<longleftrightarrow> hotkeys_ok mac h n"
  by (simp add: check_hotkeys_def same_hotkey_None hotkeys_ok_def Let_def)

lemmas checks_None = validate_limits_None validate_presets_None validate_overlay_None
  validate_url_None check_hotkeys_None

lemma apply_update_fields:
  "cf_delay (fst (apply_update u c)) = the_or (cf_delay c) (su_delay u)"
  "ic_grace_seconds (cf_ingest (fst (apply_update u c))) =
     the_or (ic_grace_seconds (cf_ingest c)) (su_grace_seconds u)"
  "cf_hotkeys (fst (apply_update u c)) = the_or (cf_hotkeys c) (su_hotkeys u)"
  "cf_overlay (fst (apply_update u c)) = the_or (cf_overlay c) (su_overlay u)"
  "cf_destination (fst (apply_update u c)) = the_or (cf_destination c) (su_destination u)"
  "cf_obs (fst (apply_update u c)) = cf_obs c"
  "ap_token (cf_api (fst (apply_update u c))) = ap_token (cf_api c)"
  "ic_key (cf_ingest (fst (apply_update u c))) = ic_key (cf_ingest c)"
  by (auto simp: apply_update_def when_given_def apply_delay_def apply_grace_def apply_lan_def
      the_or_def Let_def split: option.splits)

text \<open>
  C22. A change of the settings is refused exactly when something it gives would be out of order:
  whatever the settings are, it is accepted if and only if, of what it comes to, the limits (the
  delay's and the grace period, given or not) are in bounds; if a delay is given, its presets
  are; if hotkeys or a delay are given, no two actions have one hotkey however it is written; if
  an overlay is given, its colors and texts are in bounds; and a destination given is empty or can
  be read, and is not one with parts hidden as shown. What it does not give is not checked, so
  settings already out of order there stay as they are; and with settings in order, it
  is accepted exactly when it leaves them so.
\<close>

theorem update_accepted_iff:
  shows "(let c' = fst (apply_update u c) in
      (validate mac u c = None \<longleftrightarrow>
         limits_ok (cf_delay c') (ic_grace_seconds (cf_ingest c')) \<and>
         (su_delay u \<noteq> None \<longrightarrow> presets_ok (cf_delay c')) \<and>
         (su_hotkeys u \<noteq> None \<or> su_delay u \<noteq> None \<longrightarrow>
            hotkeys_ok mac (cf_hotkeys c') (length (dl_presets (cf_delay c')))) \<and>
         (su_overlay u \<noteq> None \<longrightarrow> overlay_ok (cf_overlay c')) \<and>
         (su_destination u \<noteq> None \<longrightarrow> url_ok (dc_url (cf_destination c')))) \<and>
      (settings_ok mac c \<longrightarrow>
         (validate mac u c = None \<longleftrightarrow>
            settings_ok mac c' \<and> (\<forall>d. su_destination u = Some d \<longrightarrow> url_ok (dc_url d)))))"
  by (cases "su_delay u"; cases "su_hotkeys u"; cases "su_overlay u"; cases "su_destination u")
    (auto simp: validate_def checks_None settings_ok_def apply_update_fields the_or_def Let_def)

text \<open>One key for two actions, written in two ways: refused.\<close>

definition two_ways :: "bytes \<times> bytes" where
  "two_ways = (ascii ''Ctrl+Option+1'', ascii ''alt+CONTROL+Digit1'')"

definition no_hotkeys :: hotkey_config where
  "no_hotkeys = \<lparr>hk_enabled = True, hk_go_live = [], hk_go_live_after_air = [], hk_end_stream = [],
     hk_end_stream_after_air = [], hk_dump = [], hk_presets = []\<rparr>"

definition demo_settings :: config where
  "demo_settings = default_config
     \<lparr>cf_hotkeys := no_hotkeys,
      cf_overlay := default_overlay\<lparr>ov_mask_title := [], ov_mask_subtitle := []\<rparr>\<rparr>"

definition demo_update :: settings_update where
  "demo_update = \<lparr>su_destination = None, su_delay = None, su_overlay = None,
     su_hotkeys = Some (no_hotkeys\<lparr>hk_go_live := fst two_ways, hk_dump := snd two_ways\<rparr>),
     su_grace_seconds = Some 60, su_allow_lan = None\<rparr>"

lemma trim_plain: "trim s = s" if "\<forall>b \<in> set s. 0x20 < b \<and> b < 0x80"
proof -
  have w: "\<forall>w \<in> set white_space. \<exists>b \<in> set w. \<not> (0x20 < b \<and> b < 0x80)"
    by (simp add: white_space_def)
  have none: "front_of ws s' = None" if "set s' = set s" "\<forall>w \<in> set ws. \<exists>b \<in> set w. \<not> (0x20 < b \<and> b < 0x80)"
    for ws s'
    unfolding front_of_None
    by (metis \<open>\<forall>b \<in> set s. 0x20 < b \<and> b < 0x80\<close> that in_set_takeD)
  from none [of s white_space] none [of "rev s" "map rev white_space"] w
  show ?thesis by (simp add: trim_def trim_start_def trim_end_def strip_front_same [THEN iffD2])
qed

lemma no_hotkey [simp]: "hotkey_keys mac [] = None"
  by (simp add: hotkey_keys_def split_at.simps trim_plain)

lemma two_ways_keys:
  "hotkey_keys mac (fst two_ways) = Some (ascii ''ALT+CONTROL+1'')"
  "hotkey_keys mac (snd two_ways) = Some (ascii ''ALT+CONTROL+1'')"
  by (simp_all add: two_ways_def hotkey_keys_def split_at.simps split_once_def ascii_def trim_plain
      ascii_upper_def modifier_def short_after_def)

lemma demo_settings_ok: "settings_ok mac demo_settings"
  by (simp add: settings_ok_def demo_settings_def default_config_def default_ingest_def
      default_delay_def default_presets_def limits_ok_def presets_ok_def hotkeys_ok_def no_hotkeys_def
      hotkey_actions_def List.map_filter_def overlay_ok_def default_overlay_def valid_color_def ascii_def
      color_digit_def digit_def BADGE_POSITIONS_def)

theorem update_accepted_iff_witness: "validate True demo_update demo_settings \<noteq> None"
proof -
  have "\<not> settings_ok True (fst (apply_update demo_update demo_settings))"
    by (simp add: settings_ok_def apply_update_fields hotkeys_ok_def demo_update_def the_or_def
        hotkey_actions_def no_hotkeys_def List.map_filter_def two_ways_keys)
  with update_accepted_iff [of demo_update demo_settings True] demo_settings_ok [of True] show ?thesis
    unfolding Let_def by blast
qed

end
