(* ===== verification/Settings_Merge.thy ===== *)
theory Settings_Merge
  imports Complex_Main Prelude
begin

text \<open>
  Which settings a change writes to the file (\<open>copy_changes\<close> and \<open>with_changes\<close> of
  \<^verbatim>\<open>crates/control/src/changes.rs\<close>): those it changed, not this run's overrides from the command
  line. The settings are compared as JSON values. An object is the list of its members in the
  order of their names; the encoding of the settings is what \<^verbatim>\<open>serde\<close> derives, so \<open>to_json\<close> and
  \<open>of_json\<close> are parameters of \<open>with_changes\<close>.
\<close>

datatype json =
    JNull | JBool bool | JNumber rat | JString bytes | JArray "json list"
  | JObject "(bytes \<times> json) list"

definition member :: "(bytes \<times> json) list \<Rightarrow> bytes \<Rightarrow> json option" where
  "member ms k = map_of ms k"

text \<open>A member set: in its place if there is one of its name.\<close>

fun set_member :: "bytes \<Rightarrow> json \<Rightarrow> (bytes \<times> json) list \<Rightarrow> (bytes \<times> json) list" where
  "set_member k v [] = [(k, v)]"
| "set_member k v ((k', w) # ms) = (if k = k' then (k, v) # ms else (k', w) # set_member k v ms)"

definition without :: "(bytes \<times> json) list \<Rightarrow> (bytes \<times> json) list \<Rightarrow> (bytes \<times> json) list \<Rightarrow> (bytes \<times> json) list" where
  "without b a t = filter (\<lambda>(k, _). \<not> (k \<in> fst ` set b \<and> k \<notin> fst ` set a)) t"

lemma size_members: "size_list (\<lambda>m. size (snd m)) ms < Suc (size_list (\<lambda>m. Suc (size (snd m))) ms)"
  by (induction ms) auto

text \<open>\<open>copy_changes target before after\<close>, and its loop over the members of \<open>after\<close>.\<close>

function copy_changes :: "json \<Rightarrow> json \<Rightarrow> json \<Rightarrow> json"
  and copy_members ::
    "(bytes \<times> json) list \<Rightarrow> (bytes \<times> json) list \<Rightarrow> (bytes \<times> json) list \<Rightarrow> (bytes \<times> json) list" where
  "copy_changes t b a =
     (if b = a then t
      else (case (t, b, a) of
              (JObject ts, JObject bs, JObject as) \<Rightarrow> JObject (without bs as (copy_members ts bs as))
            | _ \<Rightarrow> a))"
| "copy_members t b [] = t"
| "copy_members t b ((k, av) # as) =
     copy_members
       (case (member b k, member t k) of
          (Some bv, Some tv) \<Rightarrow> set_member k (copy_changes tv bv av) t
        | (Some bv, None) \<Rightarrow> if bv = av then t else set_member k av t
        | (None, _) \<Rightarrow> set_member k av t)
       b as"
  by pat_completeness auto
termination
  by (relation "measure (\<lambda>x. case x of Inl (_, _, a) \<Rightarrow> size a | Inr (_, _, as) \<Rightarrow> size_list (\<lambda>m. size (snd m)) as)")
    (auto simp: size_prod_simp size_members)

declare copy_changes.simps [simp del]

definition with_changes ::
  "('c \<Rightarrow> json option) \<Rightarrow> (json \<Rightarrow> 'c option) \<Rightarrow> 'c \<Rightarrow> 'c \<Rightarrow> 'c \<Rightarrow> 'c" where
  "with_changes to_json of_json saved before after =
     (case (to_json saved, to_json before, to_json after) of
        (Some s, Some b, Some a) \<Rightarrow>
          (case of_json (copy_changes s b a) of Some c \<Rightarrow> c | None \<Rightarrow> after)
      | _ \<Rightarrow> after)"

section \<open>What is written, setting by setting\<close>

text \<open>The value at a path of names.\<close>

fun json_at :: "bytes list \<Rightarrow> json \<Rightarrow> json option" where
  "json_at [] j = Some j"
| "json_at (k # ks) (JObject ms) = (case member ms k of None \<Rightarrow> None | Some j \<Rightarrow> json_at ks j)"
| "json_at (k # ks) _ = None"

text \<open>Each name once, in every object.\<close>

fun names_once :: "json \<Rightarrow> bool" where
  "names_once (JObject ms) \<longleftrightarrow> distinct (map fst ms) \<and> (\<forall>m \<in> set ms. names_once (snd m))"
| "names_once _ \<longleftrightarrow> True"

lemma member_set_member: "member (set_member k v ms) k' = (if k' = k then Some v else member ms k')"
  by (induction k v ms rule: set_member.induct) (auto simp: member_def)

lemma member_without:
  "member (without b a t) k =
     (if member b k \<noteq> None \<and> member a k = None then None else member t k)"
proof -
  have "map_of (filter (\<lambda>(k, _). P k) t) k = (if P k then map_of t k else None)" for P
    by (induction t) auto
  then show ?thesis by (auto simp: member_def without_def map_of_eq_None_iff)
qed

text \<open>The loop treats each member on its own.\<close>

definition merged_member :: "json option \<Rightarrow> json option \<Rightarrow> json \<Rightarrow> json option" where
  "merged_member tv bv av =
     (case (bv, tv) of
        (Some bv, Some tv) \<Rightarrow> Some (copy_changes tv bv av)
      | (Some bv, None) \<Rightarrow> if bv = av then None else Some av
      | (None, _) \<Rightarrow> Some av)"

lemma member_copy_members:
  assumes "distinct (map fst a)"
  shows "member (copy_members t b a) k =
    (case member a k of None \<Rightarrow> member t k | Some av \<Rightarrow> merged_member (member t k) (member b k) av)"
  using assms
proof (induction a arbitrary: t)
  case (Cons m a)
  obtain k' av where m: "m = (k', av)" by (rule prod.exhaust)
  with Cons.prems have new: "member a k' = None" by (simp add: member_def map_of_eq_None_iff)
  show ?case
    using Cons m new
    by (cases "k = k'")
      (auto simp: merged_member_def member_set_member split: option.split,
       auto simp: member_def)
qed (simp add: member_def)

text \<open>What becomes of a member of an object, when all three are objects.\<close>

lemma member_merged:
  assumes "distinct (map fst as)"
  shows "member (without bs as (copy_members ts bs as)) k =
    (case (member as k, member bs k) of
       (Some av, bv) \<Rightarrow> merged_member (member ts k) bv av
     | (None, Some _) \<Rightarrow> None
     | (None, None) \<Rightarrow> member ts k)"
  using assms by (auto simp: member_without member_copy_members split: option.split)

lemma names_once_member: "names_once (JObject ms) \<Longrightarrow> member ms k = Some v \<Longrightarrow> names_once v"
  by (auto simp: member_def dest!: map_of_SomeD)

lemma copy_same [simp]: "copy_changes t a a = t"
  by (simp add: copy_changes.simps)

lemma copy_objects:
  "b \<noteq> a \<Longrightarrow> b = JObject bs \<Longrightarrow> a = JObject as \<Longrightarrow> t = JObject ts \<Longrightarrow>
     copy_changes t b a = JObject (without bs as (copy_members ts bs as))"
  by (subst copy_changes.simps) simp

lemma copy_other:
  "b \<noteq> a \<Longrightarrow> (\<nexists>bs as ts. b = JObject bs \<and> a = JObject as \<and> t = JObject ts) \<Longrightarrow>
     copy_changes t b a = a"
  by (auto simp: copy_changes.simps [of t] split: json.split)

text \<open>A path into an object.\<close>

lemma json_at_Cons:
  "json_at (k # ks) j = Some v \<longleftrightarrow>
     (\<exists>ms w. j = JObject ms \<and> member ms k = Some w \<and> json_at ks w = Some v)"
  by (cases j) (auto split: option.splits)

lemma unchanged_is_kept:
  assumes "names_once a" and "json_at p b = Some v" and "json_at p a = Some v" and "json_at p t = Some w"
  shows "json_at p (copy_changes t b a) = Some w"
  using assms
proof (induction p arbitrary: t b a)
  case (Cons k p)
  from Cons.prems(2-4) obtain bs as ts bv av tv where
    o': "b = JObject bs" "a = JObject as" "t = JObject ts"
    and m: "member bs k = Some bv" "member as k = Some av" "member ts k = Some tv"
    and at: "json_at p bv = Some v" "json_at p av = Some v" "json_at p tv = Some w"
    unfolding json_at_Cons by blast
  show ?case
  proof (cases "b = a")
    case False
    from Cons.prems(1) o' m have "distinct (map fst as)" "names_once av"
      using names_once_member by auto
    with Cons.IH [of av bv tv] copy_objects [OF False o'] m at show ?thesis
      by (simp add: member_merged merged_member_def)
  qed (use Cons.prems in simp)
qed auto

lemma changed_is_written:
  assumes "names_once a" and "json_at p a = Some v" and "\<nexists>ms. v = JObject ms" and "json_at p b \<noteq> Some v"
  shows "json_at p (copy_changes t b a) = Some v"
  using assms
proof (induction p arbitrary: t b a)
  case Nil
  then show ?case by (subst copy_other) auto
next
  case (Cons k p)
  from Cons.prems(2) obtain as av where a: "a = JObject as" "member as k = Some av" "json_at p av = Some v"
    unfolding json_at_Cons by blast
  have ne: "b \<noteq> a" using Cons.prems(2,4) by auto
  show ?case
  proof (cases "\<exists>bs ts. b = JObject bs \<and> t = JObject ts")
    case True
    then obtain bs ts where o': "b = JObject bs" "t = JObject ts" by blast
    from Cons.prems(1) a have d: "distinct (map fst as)" "names_once av"
      using names_once_member by auto
    have bv: "json_at p bv \<noteq> Some v" if "member bs k = Some bv" for bv
      using Cons.prems(4) o' that by simp
    show ?thesis
      using copy_objects [OF ne o'(1) a(1) o'(2)] d a bv Cons.IH [OF d(2) a(3) Cons.prems(3)]
      by (auto simp: member_merged merged_member_def split: option.split)
  next
    case False
    with copy_other [OF ne, of t] a Cons.prems(2) show ?thesis by simp
  qed
qed

lemma removed_is_removed:
  assumes "names_once a" and "json_at p a = None" and "json_at p b \<noteq> None"
  shows "json_at p (copy_changes t b a) = None"
  using assms
proof (induction p arbitrary: t b a)
  case (Cons k p)
  from Cons.prems(3) obtain bs bv v where b: "b = JObject bs" "member bs k = Some bv" "json_at p bv = Some v"
    unfolding not_None_eq json_at_Cons by blast
  have ne: "b \<noteq> a" using Cons.prems(2,3) by auto
  show ?case
  proof (cases "\<exists>as ts. a = JObject as \<and> t = JObject ts")
    case True
    then obtain as ts where o': "a = JObject as" "t = JObject ts" by blast
    show ?thesis
    proof (cases "member as k")
      case None
      with copy_objects [OF ne b(1) o'] Cons.prems(1) o' b show ?thesis by (simp add: member_merged)
    next
      case (Some av)
      with Cons.prems(1) o' have d: "distinct (map fst as)" "names_once av"
        using names_once_member by auto
      have "json_at p av = None" using Cons.prems(2) o' Some by simp
      with copy_objects [OF ne b(1) o'] d b Some Cons.IH [of av bv] show ?thesis
        by (auto simp: member_merged merged_member_def split: option.split)
    qed
  next
    case False
    with copy_other [OF ne, of t] Cons.prems(2) show ?thesis by auto
  qed
qed auto

text \<open>
  What becomes of each setting of a section that the file, the settings before and those after
  all have.
\<close>

definition merged_setting :: "json option \<Rightarrow> json option \<Rightarrow> json option \<Rightarrow> json option" where
  "merged_setting tv bv av =
     (case av of None \<Rightarrow> if bv = None then tv else None | Some v \<Rightarrow> merged_member tv bv v)"

lemma merged_same: "merged_setting tv v v = tv"
  by (simp add: merged_setting_def merged_member_def split: option.split)

lemma json_at_snoc: "json_at q j = Some (JObject ms) \<Longrightarrow> json_at (q @ [k]) j = member ms k"
proof (induction q arbitrary: j)
  case (Cons l q)
  then obtain ns w where "j = JObject ns" "member ns l = Some w" "json_at q w = Some (JObject ms)"
    unfolding json_at_Cons by blast
  with Cons.IH show ?case by simp
qed (simp split: option.split)

lemma section_merged:
  assumes "names_once a" and "json_at q b = Some (JObject bs)" and "json_at q a = Some (JObject as)"
    and "json_at q t = Some (JObject ts)"
  shows "json_at (q @ [k]) (copy_changes t b a) = merged_setting (member ts k) (member bs k) (member as k)"
  using assms
proof (induction q arbitrary: t b a)
  case Nil
  then have o': "b = JObject bs" "a = JObject as" "t = JObject ts" by simp_all
  show ?case
  proof (cases "b = a")
    case True
    with o' show ?thesis by (simp add: merged_same split: option.split)
  next
    case False
    have "distinct (map fst as)" using Nil.prems(1) o' by simp
    with copy_objects [OF False o'] show ?thesis
      by (simp add: member_merged merged_setting_def merged_member_def split: option.split)
  qed
next
  case (Cons l q)
  then obtain bs' as' ts' bv av tv where
    o': "b = JObject bs'" "a = JObject as'" "t = JObject ts'"
    and m: "member bs' l = Some bv" "member as' l = Some av" "member ts' l = Some tv"
    and at: "json_at q bv = Some (JObject bs)" "json_at q av = Some (JObject as)" "json_at q tv = Some (JObject ts)"
    unfolding json_at_Cons by blast
  show ?case
  proof (cases "b = a")
    case True
    with Cons.prems(2,3) have "bs = as" by simp
    with True json_at_snoc [OF Cons.prems(4)] show ?thesis by (simp add: merged_same)
  next
    case False
    from Cons.prems(1) o' m have "distinct (map fst as')" "names_once av"
      using names_once_member by auto
    with Cons.IH [OF _ at] copy_objects [OF False o'] m show ?thesis
      by (simp add: member_merged merged_member_def)
  qed
qed

lemma merged_exactly:
  "bv = av \<Longrightarrow> merged_setting tv bv av = tv"
  "bv \<noteq> av \<Longrightarrow> \<not> (\<exists>ts bs as. tv = Some (JObject ts) \<and> bv = Some (JObject bs) \<and> av = Some (JObject as)) \<Longrightarrow>
     merged_setting tv bv av = av"
proof -
  assume d: "bv \<noteq> av"
    and no: "\<not> (\<exists>ts bs as. tv = Some (JObject ts) \<and> bv = Some (JObject bs) \<and> av = Some (JObject as))"
  have "copy_changes t b a = a" if "tv = Some t" "bv = Some b" "av = Some a" for t b a
    using that d no by (intro copy_other) auto
  with d show "merged_setting tv bv av = av"
    by (auto simp: merged_setting_def merged_member_def split: option.split)
qed (simp add: merged_same)

text \<open>
  C23. A change writes what it changed and nothing else: a setting it left alone keeps the
  value of the file, whatever override is in effect in its place; one it set to another value
  is written as set; one it took out is taken out, each at its own place whatever the rest.
  Exactly so, in every section that the file and the settings before and after all have: a
  setting of it that the change left alone, or knows nothing of, is in the file as it was, and is
  missing if it was; any other is as it is after the change, unless it is itself a section of
  all three, of which the same holds.
\<close>

theorem only_changes_are_written:
  assumes "names_once after"
  shows "(\<forall>p v w. json_at p before = Some v \<and> json_at p after = Some v \<and> json_at p file_value = Some w \<longrightarrow>
       json_at p (copy_changes file_value before after) = Some w) \<and>
    (\<forall>p v. json_at p after = Some v \<and> (\<forall>ms. v \<noteq> JObject ms) \<and> json_at p before \<noteq> Some v \<longrightarrow>
       json_at p (copy_changes file_value before after) = Some v) \<and>
    (\<forall>p. json_at p after = None \<and> json_at p before \<noteq> None \<longrightarrow>
       json_at p (copy_changes file_value before after) = None) \<and>
    (\<forall>q k bs as fs. json_at q before = Some (JObject bs) \<and> json_at q after = Some (JObject as) \<and>
       json_at q file_value = Some (JObject fs) \<longrightarrow>
       (member bs k = member as k \<longrightarrow>
          json_at (q @ [k]) (copy_changes file_value before after) = member fs k) \<and>
       (member bs k \<noteq> member as k \<and>
          \<not> (\<exists>x y z. member fs k = Some (JObject x) \<and> member bs k = Some (JObject y) \<and> member as k = Some (JObject z)) \<longrightarrow>
          json_at (q @ [k]) (copy_changes file_value before after) = member as k))"
  using unchanged_is_kept [OF assms] changed_is_written [OF assms] removed_is_removed [OF assms]
  by (intro conjI allI impI; (elim conjE)?) (simp_all add: section_merged [OF assms] merged_exactly)

text \<open>
  The maximum delay is 900 for this run, 120 in the file; the start delay is set to 500. The
  file then holds a start delay above its maximum, which the next start refuses.
\<close>

definition delay_json :: "rat \<Rightarrow> rat \<Rightarrow> json" where
  "delay_json most start =
     JObject [([1], JObject [([2], JNumber most), ([3], JNumber start)])]"

theorem only_changes_are_written_witness:
  "json_at [[1], [2]] (copy_changes (delay_json 120 0) (delay_json 900 0) (delay_json 900 500)) =
     Some (JNumber 120) \<and>
   json_at [[1], [3]] (copy_changes (delay_json 120 0) (delay_json 900 0) (delay_json 900 500)) =
     Some (JNumber 500)"
proof -
  have once: "names_once (delay_json 900 500)" by (simp add: delay_json_def)
  note w = only_changes_are_written [OF once, of "delay_json 900 0" "delay_json 120 0"]
  have "json_at [[1], [2]] (delay_json m s) = Some (JNumber m)"
    "json_at [[1], [3]] (delay_json m s) = Some (JNumber s)" for m s
    by (simp_all add: delay_json_def member_def)
  with w show ?thesis by simp
qed

end
