(* ===== verification/Settings_Change.thy ===== *)
theory Settings_Change
  imports Settings Settings_Merge
begin

text \<open>
  How settings, the saved stream key and the destination of the relay change together
  (\<^verbatim>\<open>crates/control/src/changes.rs\<close>, with \<^verbatim>\<open>update_config\<close> of \<^verbatim>\<open>settings.rs\<close> and \<^verbatim>\<open>AppState\<close> of
  \<^verbatim>\<open>lib.rs\<close>). A change runs under the settings lock, so it is one step. Saving the settings file
  is three calls, any of which may fail (\<open>st_save_faults\<close>, as \<open>sec_faults\<close> for the secrets);
  \<open>st_relay_up\<close> says whether the core of the relay still runs, and \<open>st_relay_calls\<close> is what it
  was sent.
\<close>

section \<open>State\<close>

text \<open>What the library \<^verbatim>\<open>serde\<close> does: the settings as JSON and a secret with its owner as text
  (a text or a JSON value), and JSON as text.\<close>

record codecs =
  cd_to_json :: "config \<Rightarrow> json option"
  cd_of_json :: "json \<Rightarrow> config option"
  cd_enc :: "bytes \<Rightarrow> bytes \<Rightarrow> bytes"
  cd_dec :: "bytes \<Rightarrow> (bytes \<times> bytes) option"
  cd_enc_json :: "bytes \<Rightarrow> json \<Rightarrow> bytes"
  cd_parse :: "bytes \<Rightarrow> json option"

record app_state =
  st_config :: config
  st_saved :: config
  st_path :: bool
  st_file :: "config option"
  st_secrets :: secrets
  st_key_override :: "bytes option"
  st_key_override_url :: bytes
  st_applied :: "destination option"
  st_relay_up :: bool
  st_relay_calls :: "control list"
  st_listeners :: config
  st_restart_required :: bool
  st_save_faults :: "bool list"

datatype change_error =
    NotAKey | CommandLineKey | BadSettings settings_error
  | SaveFailed | KeyFailed secret_error | KeyNotRestored secret_error
  | SecretFailed secret_error | SecretsNotRestored change_error secret_error
  | RelayClosed

type_synonym 'a outcome = "app_state \<Rightarrow> (change_error + 'a) \<times> app_state"

definition with_secrets :: "(secrets \<Rightarrow> 'a \<times> secrets) \<Rightarrow> app_state \<Rightarrow> 'a \<times> app_state" where
  "with_secrets f st = (case f (st_secrets st) of (r, s) \<Rightarrow> (r, st\<lparr>st_secrets := s\<rparr>))"

definition config_url :: "config \<Rightarrow> bytes" where
  "config_url c = dc_url (cf_destination c)"

section \<open>Saving the settings\<close>

definition file_call :: "app_state \<Rightarrow> bool \<times> app_state" where
  "file_call st =
     (case st_save_faults st of [] \<Rightarrow> (False, st) | f # fs \<Rightarrow> (f, st\<lparr>st_save_faults := fs\<rparr>))"

text \<open>\<^verbatim>\<open>Config::save\<close>: makes the directory, writes next to the file, moves into its place.\<close>

definition save_config :: "config \<Rightarrow> app_state \<Rightarrow> bool \<times> app_state" where
  "save_config c st =
     (let (bad, st) = file_call st
      in if bad then (False, st)
         else (let (bad, st) = file_call st
               in if bad then (False, st)
                  else (let (bad, st) = file_call st
                        in if bad then (False, st) else (True, st\<lparr>st_file := Some c\<rparr>))))"

definition save_settings :: "codecs \<Rightarrow> (config \<Rightarrow> config \<times> 'r) \<Rightarrow> (config \<times> 'r) outcome" where
  "save_settings cd change st =
     (let before = st_config st;
          (after, r) = change before;
          saved = with_changes (cd_to_json cd) (cd_of_json cd) (st_saved st) before after;
          (ok, st) = (if st_path st then save_config saved st else (True, st))
      in if ok
         then (Inr (after, r), st\<lparr>st_saved := saved, st_config := after, st_listeners := after\<rparr>)
         else (Inl SaveFailed, st))"

section \<open>The destination of the relay\<close>

definition key_override :: "app_state \<Rightarrow> bytes \<Rightarrow> bytes option" where
  "key_override st url =
     (case st_key_override st of
        None \<Rightarrow> None
      | Some k \<Rightarrow> if different_server (st_key_override_url st) url then None else Some k)"

definition stored_key :: "codecs \<Rightarrow> bytes \<Rightarrow> app_state \<Rightarrow> bytes option \<times> app_state" where
  "stored_key cd url st =
     with_secrets (key_for_url (cd_dec cd) url (config_url (st_saved st))) st"

definition app_destination :: "codecs \<Rightarrow> config \<Rightarrow> app_state \<Rightarrow> destination option \<times> app_state" where
  "app_destination cd c st =
     (case key_override st (config_url c) of
        Some k \<Rightarrow> (destination_of c (Some k), st)
      | None \<Rightarrow> (let (k, st) = stored_key cd (config_url c) st in (destination_of c k, st)))"

definition relay_told :: "control \<Rightarrow> unit outcome" where
  "relay_told call st =
     (if st_relay_up st then (Inr (), st\<lparr>st_relay_calls := st_relay_calls st @ [call]\<rparr>)
      else (Inl RelayClosed, st))"

definition sync_destination :: "codecs \<Rightarrow> unit outcome" where
  "sync_destination cd st =
     (let (dest, st) = app_destination cd (st_config st) st
      in if st_applied st = dest then (Inr (), st)
         else (case relay_told (SetDestination dest) st of
                 (Inl e, st) \<Rightarrow> (Inl e, st)
               | (Inr _, st) \<Rightarrow> (Inr (), st\<lparr>st_applied := dest\<rparr>)))"

section \<open>One change\<close>

datatype key_change = KeepKey | SaveKey bytes bytes | ForgetKey

definition change_key :: "codecs \<Rightarrow> key_change \<Rightarrow> unit attempt" where
  "change_key cd key =
     (case key of
        KeepKey \<Rightarrow> done_with ()
      | SaveKey server k \<Rightarrow> key_save (cd_enc cd) server k
      | ForgetKey \<Rightarrow> delete_secret DESTINATION_KEY)"

text \<open>A secret put back as it was.\<close>

definition put_back :: "bytes \<Rightarrow> bytes option \<Rightarrow> unit attempt" where
  "put_back name v = (case v of Some raw \<Rightarrow> set_secret name raw | None \<Rightarrow> delete_secret name)"

definition change_settings_locked ::
  "codecs \<Rightarrow> key_change \<Rightarrow> (config \<Rightarrow> config \<times> 'r) \<Rightarrow> (config \<times> 'r) outcome" where
  "change_settings_locked cd key change st =
     (let (before, st) = (if key = KeepKey then (Inr None, st)
                          else with_secrets (try_get_secret DESTINATION_KEY) st)
      in case before of
           Inl e \<Rightarrow> (Inl (KeyFailed e), st)
         | Inr key_before \<Rightarrow>
             (case with_secrets (change_key cd key) st of
                (Inl e, st) \<Rightarrow> (Inl (KeyFailed e), st)
              | (Inr _, st) \<Rightarrow>
                  (case save_settings cd change st of
                     (Inl save, st) \<Rightarrow>
                       (if key = KeepKey then (Inl save, st)
                        else (case with_secrets (put_back DESTINATION_KEY key_before) st of
                                (Inr _, st) \<Rightarrow> (Inl save, st)
                              | (Inl restore, st) \<Rightarrow> (Inl (KeyNotRestored restore), st)))
                   | (Inr changed, st) \<Rightarrow>
                       (case sync_destination cd st of
                          (Inl e, st) \<Rightarrow> (Inl e, st)
                        | (Inr _, st) \<Rightarrow> (Inr changed, st)))))"

text \<open>Other secrets changed with the settings.\<close>

fun take_secrets :: "bytes list \<Rightarrow> (bytes \<times> bytes option) list attempt" where
  "take_secrets [] = done_with []"
| "take_secrets (name # names) =
     and_try (try_get_secret name) (\<lambda>v.
       and_try (take_secrets names) (\<lambda>rest. done_with ((name, v) # rest)))"

text \<open>Puts back all it can; the first error.\<close>

fun restore_secrets :: "(bytes \<times> bytes option) list \<Rightarrow> unit attempt" where
  "restore_secrets [] s = (Inr (), s)"
| "restore_secrets ((name, v) # rest) s =
     (case put_back name v s of
        (Inl e, s) \<Rightarrow> (case restore_secrets rest s of (_, s) \<Rightarrow> (Inl e, s))
      | (Inr _, s) \<Rightarrow> restore_secrets rest s)"

definition change_settings_and_secrets ::
  "codecs \<Rightarrow> bytes list \<Rightarrow> unit attempt \<Rightarrow> key_change \<Rightarrow> (config \<Rightarrow> config \<times> 'r) \<Rightarrow> (config \<times> 'r) outcome"
where
  "change_settings_and_secrets cd names update key change st =
     (case with_secrets (take_secrets names) st of
        (Inl e, st) \<Rightarrow> (Inl (SecretFailed e), st)
      | (Inr before, st) \<Rightarrow>
          (case with_secrets update st of
             (Inl e, st) \<Rightarrow>
               (case with_secrets (restore_secrets before) st of (_, st) \<Rightarrow> (Inl (SecretFailed e), st))
           | (Inr _, st) \<Rightarrow>
               (case change_settings_locked cd key change st of
                  (Inr changed, st) \<Rightarrow> (Inr changed, st)
                | (Inl e, st) \<Rightarrow>
                    (if e = RelayClosed then (Inl e, st)
                     else (case with_secrets (restore_secrets before) st of
                             (Inr _, st) \<Rightarrow> (Inl e, st)
                           | (Inl restore, st) \<Rightarrow> (Inl (SecretsNotRestored e restore), st))))))"

definition save_destination_key :: "codecs \<Rightarrow> bytes \<Rightarrow> unit outcome" where
  "save_destination_key cd typed st =
     (let key = trim typed; saved = config_url (st_saved st)
      in if key = [] \<or> 512 < length key \<or> list_ex is_control (chars key) then (Inl NotAKey, st)
         else if different_server saved (config_url (st_config st)) then (Inl CommandLineKey, st)
         else (case with_secrets (key_save (cd_enc cd) saved key) st of
                 (Inl e, st) \<Rightarrow> (Inl (KeyFailed e), st)
               | (Inr _, st) \<Rightarrow> sync_destination cd st))"

definition forget_destination_key :: "codecs \<Rightarrow> unit outcome" where
  "forget_destination_key cd st =
     (case with_secrets (delete_secret DESTINATION_KEY) st of
        (Inl e, st) \<Rightarrow> (Inl (KeyFailed e), st)
      | (Inr _, st) \<Rightarrow> sync_destination cd st)"

section \<open>A change from the dashboard\<close>

text \<open>The URL as shown stands for the one in effect.\<close>

definition as_meant :: "bytes \<Rightarrow> settings_update \<Rightarrow> settings_update" where
  "as_meant in_effect u =
     u\<lparr>su_destination := map_option
         (\<lambda>d. if trim (dc_url d) \<noteq> in_effect \<and> trim (dc_url d) = shown_url in_effect
              then d\<lparr>dc_url := in_effect\<rparr> else d) (su_destination u)\<rparr>"

text \<open>The change with a key typed into the URL taken out, and what it does to the saved key.\<close>

definition key_of_update ::
  "bytes \<Rightarrow> bytes \<Rightarrow> settings_update \<Rightarrow> change_error + settings_update \<times> key_change" where
  "key_of_update in_effect saved u =
     (case su_destination u of
        None \<Rightarrow> Inr (u, KeepKey)
      | Some d \<Rightarrow>
          (let (url, url_key) = split_url_key (dc_url d);
               u = u\<lparr>su_destination := Some (d\<lparr>dc_url := url\<rparr>)\<rparr>;
               saved_after = (if url = in_effect then saved else url)
           in case url_key of
                Some k \<Rightarrow>
                  if different_server saved_after url then Inl CommandLineKey
                  else Inr (u, SaveKey url k)
              | None \<Rightarrow>
                  if different_server saved saved_after then Inr (u, ForgetKey) else Inr (u, KeepKey)))"

definition update_config :: "bool \<Rightarrow> codecs \<Rightarrow> settings_update \<Rightarrow> unit outcome" where
  "update_config mac cd u st =
     (let in_effect = config_url (st_config st); u = as_meant in_effect u
      in case validate mac u (st_config st) of
           Some e \<Rightarrow> (Inl (BadSettings e), st)
         | None \<Rightarrow>
             (case key_of_update in_effect (config_url (st_saved st)) u of
                Inl e \<Rightarrow> (Inl e, st)
              | Inr (u, key) \<Rightarrow>
                  (case change_settings_locked cd key (apply_update u) st of
                     (Inl e, st) \<Rightarrow> (Inl e, st)
                   | (Inr (c, a), st) \<Rightarrow>
                       (let st = (if restart a then st\<lparr>st_restart_required := True\<rparr> else st);
                            (r, st) = (if keep_buffer_changed a
                              then relay_told (SetKeepHistory (dl_keep_buffer (cf_delay c))) st
                              else (Inr (), st))
                        in case r of
                             Inl e \<Rightarrow> (Inl e, st)
                           | Inr _ \<Rightarrow>
                               if after_reconnect_changed a
                               then relay_told (SetRestoreAfterReconnect
                                      (dl_after_reconnect (cf_delay c) = RestoreDelay)) st
                               else (Inr (), st)))))"

end
