(* ===== verification/Settings_Promises.thy ===== *)
theory Settings_Promises
  imports Settings_Change
begin

text \<open>
  What a change of the settings promises: one that cannot be saved changes nothing, with what
  may become of the stream key whichever call fails.
\<close>

section \<open>What each step leaves alone\<close>

text \<open>Everything but the secrets and the faults to come.\<close>

definition same_settings :: "app_state \<Rightarrow> app_state \<Rightarrow> bool" where
  "same_settings s t \<longleftrightarrow>
     (\<exists>x fs. t = s\<lparr>st_secrets := x, st_save_faults := fs\<rparr>)"

text \<open>The store holds the same.\<close>

definition same_store :: "secrets \<Rightarrow> secrets \<Rightarrow> bool" where
  "same_store s t \<longleftrightarrow> sec_keychain t = sec_keychain s \<and> sec_file t = sec_file s \<and>
     sec_warned t = sec_warned s"

lemma same_settings_I: "t = s\<lparr>st_secrets := x, st_save_faults := fs\<rparr> \<Longrightarrow> same_settings s t"
  by (auto simp: same_settings_def)

lemma same_settings_refl [simp]: "same_settings s s"
  by (rule same_settings_I [where x = "st_secrets s" and fs = "st_save_faults s"]) simp

lemma same_settings_trans: "same_settings s t \<Longrightarrow> same_settings t u \<Longrightarrow> same_settings s u"
  unfolding same_settings_def by (elim exE) (simp, blast)

lemma same_settings_secrets [simp]: "same_settings s (s\<lparr>st_secrets := x\<rparr>)"
  by (rule same_settings_I [where x = x and fs = "st_save_faults s"]) simp

lemma same_settings_faults [simp]: "same_settings s (s\<lparr>st_save_faults := fs\<rparr>)"
  by (rule same_settings_I [where x = "st_secrets s" and fs = fs]) simp

lemma same_settings_file:
  "same_settings s t \<Longrightarrow> same_settings (s\<lparr>st_file := f\<rparr>) (t\<lparr>st_file := f\<rparr>)"
  unfolding same_settings_def
proof (elim exE)
  fix x fs assume "t = s\<lparr>st_secrets := x, st_save_faults := fs\<rparr>"
  then have "t\<lparr>st_file := f\<rparr> = s\<lparr>st_file := f, st_secrets := x, st_save_faults := fs\<rparr>" by simp
  then show "\<exists>x fs. t\<lparr>st_file := f\<rparr> = s\<lparr>st_file := f, st_secrets := x, st_save_faults := fs\<rparr>" by blast
qed

lemma same_settings_fields:
  assumes "same_settings s t"
  shows "st_config t = st_config s" "st_saved t = st_saved s" "st_path t = st_path s"
    "st_file t = st_file s" "st_key_override t = st_key_override s"
    "st_key_override_url t = st_key_override_url s" "st_applied t = st_applied s"
    "st_relay_up t = st_relay_up s" "st_relay_calls t = st_relay_calls s"
    "st_listeners t = st_listeners s" "st_restart_required t = st_restart_required s"
  using assms by (auto simp: same_settings_def)

lemma same_store_refl [simp]: "same_store s s"
  by (simp add: same_store_def)

lemma same_store_trans: "same_store s t \<Longrightarrow> same_store t u \<Longrightarrow> same_store s u"
  by (simp add: same_store_def)

lemma same_store_value: "same_store s t \<Longrightarrow> secret_value t = secret_value s"
  by (intro ext) (simp add: same_store_def secret_value_def in_keychain_def split: option.split)

lemma same_store_place: "same_store s t \<Longrightarrow> one_place t n = one_place s n"
  by (simp add: same_store_def one_place_def in_keychain_def)

lemma with_secretsE:
  assumes "with_secrets f s = (r, t)"
  obtains x where "f (st_secrets s) = (r, x)" "t = s\<lparr>st_secrets := x\<rparr>"
  using assms by (auto simp: with_secrets_def split: prod.splits)

lemma with_secrets_same: "with_secrets f s = (r, t) \<Longrightarrow> same_settings s t"
  by (auto elim: with_secretsE)

lemma try_get_same:
  "try_get_secret name s = (r, t) \<Longrightarrow> same_store s t"
  by (drule try_get_secret_cases) (simp add: same_store_def)

lemma get_secret_same: "get_secret name s = (r, t) \<Longrightarrow> same_store s t"
  by (auto simp: get_secret_def split: prod.splits sum.splits dest: try_get_same)

lemma key_read_same: "key_read dec s = (r, t) \<Longrightarrow> same_store s t"
  by (auto simp: key_read_def bound_load_def split: prod.splits option.splits dest: get_secret_same)

lemma key_for_url_same: "key_for_url dec url legacy s = (r, t) \<Longrightarrow> same_store s t"
  by (auto simp: key_for_url_def split: prod.splits option.splits dest: key_read_same)

lemma app_destination_same:
  assumes "app_destination cd c s = (d, t)"
  shows "same_settings s t" "same_store (st_secrets s) (st_secrets t)"
    "st_save_faults t = st_save_faults s"
  using assms
  by (auto simp: app_destination_def stored_key_def split: option.splits prod.splits
      elim!: with_secretsE dest!: key_for_url_same)

lemma file_call_same:
  assumes "file_call s = (bad, t)"
  shows "same_settings s t" "st_secrets t = st_secrets s"
  using assms
  by (auto simp: file_call_def split: list.splits)

lemma save_config_cases:
  assumes "save_config c s = (ok, t)"
  shows "same_settings (if ok then s\<lparr>st_file := Some c\<rparr> else s) t \<and> st_secrets t = st_secrets s"
proof -
  obtain b1 s1 where 1: "file_call s = (b1, s1)" by (rule prod.exhaust)
  obtain b2 s2 where 2: "file_call s1 = (b2, s2)" by (rule prod.exhaust)
  obtain b3 s3 where 3: "file_call s2 = (b3, s3)" by (rule prod.exhaust)
  note s = file_call_same [OF 1] file_call_same [OF 2] file_call_same [OF 3]
  have "same_settings s s2" "same_settings s s3"
    using s same_settings_trans by blast+
  moreover have "same_settings (s\<lparr>st_file := Some c\<rparr>) (s3\<lparr>st_file := Some c\<rparr>)"
    using \<open>same_settings s s3\<close> by (rule same_settings_file)
  ultimately show ?thesis
    using assms 1 2 3 s by (auto simp: save_config_def split: if_splits)
qed

section \<open>A change that cannot be saved\<close>

text \<open>What a change of the settings puts in effect.\<close>

definition in_effect :: "config \<Rightarrow> config \<Rightarrow> app_state \<Rightarrow> app_state" where
  "in_effect saved after s =
     s\<lparr>st_saved := saved, st_config := after, st_listeners := after,
       st_file := (if st_path s then Some saved else st_file s)\<rparr>"

lemma save_settings_cases:
  assumes "save_settings cd change s = (r, t)"
  shows "st_secrets t = st_secrets s \<and>
    (r = Inl SaveFailed \<and> same_settings s t \<or>
     r = Inr (change (st_config s)) \<and>
       (let after = fst (change (st_config s)) in
        same_settings
          (in_effect (with_changes (cd_to_json cd) (cd_of_json cd) (st_saved s) (st_config s) after) after s) t))"
proof -
  obtain after x where ch: "change (st_config s) = (after, x)" by (rule prod.exhaust)
  define saved where "saved = with_changes (cd_to_json cd) (cd_of_json cd) (st_saved s) (st_config s) after"
  define writes where "writes = (if st_path s then save_config saved s else (True, s))"
  obtain ok u where w: "writes = (ok, u)" by (rule prod.exhaust)
  have "same_settings (if ok \<and> st_path s then s\<lparr>st_file := Some saved\<rparr> else s) u \<and> st_secrets u = st_secrets s"
    using w save_config_cases [of saved s ok u] by (auto simp: writes_def split: if_splits)
  moreover have "save_settings cd change s =
      (if ok then (Inr (after, x), u\<lparr>st_saved := saved, st_config := after, st_listeners := after\<rparr>)
       else (Inl SaveFailed, u))"
    using w by (simp add: save_settings_def ch saved_def [symmetric] writes_def)
  moreover have "same_settings (in_effect saved after s)
      (u\<lparr>st_saved := saved, st_config := after, st_listeners := after\<rparr>)"
    if "same_settings (if st_path s then s\<lparr>st_file := Some saved\<rparr> else s) u"
  proof -
    from that obtain y fs where
      "u = (if st_path s then s\<lparr>st_file := Some saved\<rparr> else s)\<lparr>st_secrets := y, st_save_faults := fs\<rparr>"
      by (auto simp: same_settings_def)
    then have "u\<lparr>st_saved := saved, st_config := after, st_listeners := after\<rparr> =
        (in_effect saved after s)\<lparr>st_secrets := y, st_save_faults := fs\<rparr>"
      by (simp add: in_effect_def)
    then show ?thesis by (rule same_settings_I)
  qed
  ultimately show ?thesis
    using assms ch by (auto simp: saved_def split: if_splits)
qed

text \<open>The relay is told of the destination, or is gone.\<close>

lemma sync_destination_cases:
  assumes "sync_destination cd s = (r, t)"
  shows "same_store (st_secrets s) (st_secrets t) \<and>
    (\<exists>d u. app_destination cd (st_config s) s = (d, u) \<and>
       (r = Inr () \<and> t = u \<and> st_applied s = d \<or>
        r = Inl RelayClosed \<and> t = u \<or>
        r = Inr () \<and> t = u\<lparr>st_relay_calls := st_relay_calls s @ [SetDestination d], st_applied := d\<rparr>))"
proof -
  obtain d u where a: "app_destination cd (st_config s) s = (d, u)" by (rule prod.exhaust)
  from app_destination_same [OF a] have u: "same_store (st_secrets s) (st_secrets u)"
    "st_applied u = st_applied s" "st_relay_calls u = st_relay_calls s"
    by (simp_all add: same_settings_fields)
  with assms a show ?thesis
    by (auto simp: sync_destination_def relay_told_def split: if_splits)
qed

text \<open>The key as a change leaves it in the store: the one saved with its server, or none.\<close>

definition new_key :: "codecs \<Rightarrow> key_change \<Rightarrow> bytes option" where
  "new_key cd key =
     (case key of SaveKey server k \<Rightarrow> Some (cd_enc cd (fst (split_url_key server)) k) | _ \<Rightarrow> None)"

lemma delete_secret_value:
  assumes "delete_secret name s = (r, t)"
  shows "secret_value t = secret_value s \<and> (\<exists>e. r = Inl e) \<or> secret_value t = (secret_value s)(name := None)"
  using secret_changes(2) [OF assms] by (cases r) auto

lemma put_back_value:
  assumes "put_back name v s = (r, t)"
  shows "secret_value t = secret_value s \<and> (\<exists>e. r = Inl e) \<or> secret_value t = (secret_value s)(name := v)"
  using assms set_secret_value [of name _ s r t] delete_secret_value [of name s r t]
  by (cases v) (auto simp: put_back_def)

lemma change_key_value:
  assumes "change_key cd key s = (r, t)"
  shows "case r of
      Inl e \<Rightarrow> secret_value t = secret_value s \<or>
        secret_value t = (secret_value s)(DESTINATION_KEY := new_key cd key) \<and> (key = ForgetKey \<or> sec_warned t)
    | Inr _ \<Rightarrow> if key = KeepKey then t = s
        else secret_value t = (secret_value s)(DESTINATION_KEY := new_key cd key)"
proof (cases key)
  case KeepKey
  with assms show ?thesis by (auto simp: change_key_def done_with_def)
next
  case (SaveKey server k)
  with assms have "set_secret DESTINATION_KEY (cd_enc cd (fst (split_url_key server)) k) s = (r, t)"
    by (simp add: change_key_def key_save_def bound_save_def)
  from set_secret_value [OF this] SaveKey show ?thesis by (auto simp: new_key_def split: sum.split)
next
  case ForgetKey
  with assms have "delete_secret DESTINATION_KEY s = (r, t)" by (simp add: change_key_def)
  from delete_secret_value [OF this] ForgetKey show ?thesis by (auto simp: new_key_def split: sum.split)
qed

lemma in_effect_same:
  assumes "same_settings s t" shows "same_settings (in_effect a b s) (in_effect a b t)"
proof -
  from assms obtain x fs where "t = s\<lparr>st_secrets := x, st_save_faults := fs\<rparr>"
    by (auto simp: same_settings_def)
  then have "in_effect a b t = (in_effect a b s)\<lparr>st_secrets := x, st_save_faults := fs\<rparr>"
    by (simp add: in_effect_def)
  then show ?thesis by (rule same_settings_I)
qed

text \<open>What a change comes to, once it is saved.\<close>

definition after_change :: "codecs \<Rightarrow> (config \<Rightarrow> config \<times> 'r) \<Rightarrow> app_state \<Rightarrow> app_state" where
  "after_change cd change s =
     (let after = fst (change (st_config s)) in
      in_effect (with_changes (cd_to_json cd) (cd_of_json cd) (st_saved s) (st_config s) after) after s)"

lemma after_change_same: "same_settings s t \<Longrightarrow> same_settings (after_change cd change s) (after_change cd change t)"
  using in_effect_same [of s t] by (simp add: after_change_def Let_def same_settings_fields)

text \<open>
  How one change ends: the key as it was cannot be read, the key cannot be changed, the
  settings cannot be saved (and the key is put back, if it was changed), or all is saved.
\<close>

lemma change_settings_parts:
  assumes "change_settings_locked cd key change s = (r, t)"
  obtains (unread) e where "r = Inl (KeyFailed e)" "same_settings s t" "same_store (st_secrets s) (st_secrets t)"
  | (key_failed) s1 e where "r = Inl (KeyFailed e)" "same_settings s t" "same_store (st_secrets s) s1"
      "change_key cd key s1 = (Inl e, st_secrets t)"
  | (kept) "key = KeepKey" "r = Inl SaveFailed" "same_settings s t" "st_secrets t = st_secrets s"
  | (undone) kb s1 s2 r4 where "same_settings s t" "same_store (st_secrets s) s1"
      "try_get_secret DESTINATION_KEY (st_secrets s) = (Inr kb, s1)"
      "change_key cd key s1 = (Inr (), s2)" "put_back DESTINATION_KEY kb s2 = (r4, st_secrets t)"
      "r = Inl (case r4 of Inr _ \<Rightarrow> SaveFailed | Inl e \<Rightarrow> KeyNotRestored e)" "key \<noteq> KeepKey"
  | (saved) s1 u r5 where "same_store (st_secrets s) s1" "change_key cd key s1 = (Inr (), st_secrets u)"
      "same_settings (after_change cd change s) u" "sync_destination cd u = (r5, t)"
      "r = (case r5 of Inl e \<Rightarrow> Inl e | Inr _ \<Rightarrow> Inr (change (st_config s)))"
proof -
  obtain before s1 where b: "(if key = KeepKey then (Inr None, s)
      else with_secrets (try_get_secret DESTINATION_KEY) s) = (before, s1)" by (rule prod.exhaust)
  have s1: "same_settings s s1" "same_store (st_secrets s) (st_secrets s1)" "key = KeepKey \<longrightarrow> s1 = s"
    using b by (auto split: if_splits elim!: with_secretsE dest: try_get_same)
  show thesis
  proof (cases before)
    case (Inl e)
    with assms b s1 show ?thesis by (intro unread) (auto simp: change_settings_locked_def)
  next
    case (Inr kb)
    obtain r2 s2 where k: "with_secrets (change_key cd key) s1 = (r2, s2)" by (rule prod.exhaust)
    obtain r3 s3 where sv: "save_settings cd change s2 = (r3, s3)" by (rule prod.exhaust)
    obtain r4 s4 where pb: "with_secrets (put_back DESTINATION_KEY kb) s3 = (r4, s4)" by (rule prod.exhaust)
    obtain r5 s5 where sy: "sync_destination cd s3 = (r5, s5)" by (rule prod.exhaust)
    have run: "(r, t) = (case r2 of
        Inl e \<Rightarrow> (Inl (KeyFailed e), s2)
      | Inr _ \<Rightarrow>
          (case r3 of
             Inl save \<Rightarrow>
               if key = KeepKey then (Inl save, s3)
               else (case r4 of Inr _ \<Rightarrow> (Inl save, s4) | Inl e \<Rightarrow> (Inl (KeyNotRestored e), s4))
           | Inr changed \<Rightarrow> (case r5 of Inl e \<Rightarrow> (Inl e, s5) | Inr _ \<Rightarrow> (Inr changed, s5))))"
      using assms b Inr k sv pb sy
      by (auto simp: change_settings_locked_def split: sum.split if_splits)
    have got: "key \<noteq> KeepKey \<Longrightarrow> try_get_secret DESTINATION_KEY (st_secrets s) = (Inr kb, st_secrets s1)"
      using b Inr by (auto elim!: with_secretsE)
    have key: "change_key cd key (st_secrets s1) = (r2, st_secrets s2)"
      using k by (auto elim: with_secretsE)
    have s2: "same_settings s s2" using s1(1) with_secrets_same [OF k] by (rule same_settings_trans)
    have undo: "put_back DESTINATION_KEY kb (st_secrets s3) = (r4, st_secrets s4)"
      using pb by (auto elim: with_secretsE)
    note sv' = save_settings_cases [OF sv]
    show ?thesis
    proof (cases r2)
      case (Inl e)
      with run s1(2) s2 key show ?thesis by (intro key_failed) auto
    next
      case r2: (Inr u)
      show ?thesis
      proof (cases r3)
        case (Inr c)
        with sv' have c: "c = change (st_config s)" and "same_settings (after_change cd change s2) s3"
          using same_settings_fields [OF s2] by (auto simp: Let_def after_change_def)
        with after_change_same [OF s2] have "same_settings (after_change cd change s) s3"
          by (blast intro: same_settings_trans)
        with r2 Inr run sv' s1(2) key sy c show ?thesis
          by (intro saved [of "st_secrets s1" s3 r5]) (auto split: sum.splits)
      next
        case (Inl save)
        with sv' have s3: "save = SaveFailed" "same_settings s s3" "st_secrets s3 = st_secrets s2"
          using s2 same_settings_trans by auto
        show ?thesis
        proof (cases "key = KeepKey")
          case True
          with run r2 Inl s3 key s1(3) show ?thesis
            by (intro kept) (auto simp: change_key_def done_with_def)
        next
          case False
          from run r2 Inl False have rt: "r = Inl (case r4 of Inr _ \<Rightarrow> save | Inl e \<Rightarrow> KeyNotRestored e)" "t = s4"
            by (auto split: sum.splits)
          have "same_settings s s4" using s3(2) with_secrets_same [OF pb] by (rule same_settings_trans)
          with got [OF False] key r2 undo rt s3 s1(2) False show ?thesis
            by (intro undone [of "st_secrets s1" kb "st_secrets s2" r4]) auto
        qed
      qed
    qed
  qed
qed

lemma change_settings_cases:
  assumes "change_settings_locked cd key change s = (r, t)"
  shows "(\<exists>e. r = Inl e \<and> e \<noteq> RelayClosed \<and> same_settings s t) \<or>
    (\<exists>u r5. same_settings (after_change cd change s) u \<and> sync_destination cd u = (r5, t) \<and>
       r = (case r5 of Inl e \<Rightarrow> Inl e | Inr _ \<Rightarrow> Inr (change (st_config s))))"
  using assms
proof (cases rule: change_settings_parts)
  case (undone kb s1 s2 r4)
  then show ?thesis by (cases r4) auto
qed auto

text \<open>The change with the log emptied first: what it says after is about this change.\<close>

definition log_cleared :: "app_state \<Rightarrow> app_state" where
  "log_cleared s = s\<lparr>st_secrets := log_emptied (st_secrets s)\<rparr>"

lemma log_cleared [simp]: "same_settings s (log_cleared s)" "st_secrets (log_cleared s) = log_emptied (st_secrets s)"
  by (simp_all add: log_cleared_def)

text \<open>
  C10. A change that cannot be saved changes nothing. Whichever call fails, of the keychain,
  of the secrets' file or of the settings file, the settings in effect, those saved and in the
  file, and the destination of the relay stay as they were, and so does every secret other than
  the stream key. The stream key keeps its value as well, except in these cases. Undoing a key that
  could not be saved failed, which is logged: it may have the new value. It was to be
  forgotten, and the keychain let go of it before the file failed: it may be gone, though the
  error says that nothing was changed. The error says that the key could not be put back: it
  may have the value the change gave it. And where there were two copies of it before (which C21
  keeps out unless undoing failed before), the keychain's may be the one put back.
  A relay that is gone (\<open>RelayClosed\<close>) is no failure to save: all is saved by then.
\<close>

theorem unsaved_change_changes_nothing:
  assumes run: "change_settings_locked cd key change (log_cleared s) = (Inl e, t)" and e: "e \<noteq> RelayClosed"
  shows "same_settings s t \<and>
    (let old = secret_value (st_secrets s); now = secret_value (st_secrets t);
         changed = old(DESTINATION_KEY := new_key cd key);
         put_back_older = (\<not> one_place (st_secrets s) DESTINATION_KEY \<and>
           now = old(DESTINATION_KEY := in_keychain (st_secrets s) DESTINATION_KEY))
     in case e of
          KeyFailed x \<Rightarrow> now = old \<or> now = changed \<and> (key = ForgetKey \<or> sec_warned (st_secrets t))
        | SaveFailed \<Rightarrow> now = old \<or> key \<noteq> KeepKey \<and> put_back_older
        | KeyNotRestored x \<Rightarrow> key \<noteq> KeepKey \<and> (now = old \<or> now = changed \<or> put_back_older)
        | _ \<Rightarrow> False)"
  using run
proof (cases rule: change_settings_parts)
  case (unread x)
  with same_store_value [OF unread(3)] same_settings_trans [OF log_cleared(1) unread(2)] show ?thesis
    by (simp add: Let_def)
next
  case (key_failed s1 x)
  have "\<not> sec_warned s1" using key_failed(3) by (simp add: same_store_def log_emptied_def)
  with change_key_value [OF key_failed(4)] same_store_value [OF key_failed(3)] key_failed(1)
    same_settings_trans [OF log_cleared(1) key_failed(2)]
  show ?thesis by (auto simp: Let_def)
next
  case kept
  with same_settings_trans [OF log_cleared(1) kept(3)] show ?thesis by (simp add: Let_def)
next
  case (undone kb s1 s2 r4)
  let ?old = "secret_value (st_secrets s)"
  have changes: "key \<noteq> KeepKey" using undone(7) .
  have s1: "secret_value s1 = ?old" using same_store_value [OF undone(2)] by simp
  have s2: "secret_value s2 = ?old(DESTINATION_KEY := new_key cd key)"
    using change_key_value [OF undone(4)] changes s1 by simp
  have kb: "kb = ?old DESTINATION_KEY \<or>
      \<not> one_place (st_secrets s) DESTINATION_KEY \<and> kb = in_keychain (st_secrets s) DESTINATION_KEY"
    using try_get_secret_copy [OF undone(3)] try_get_secret_cases [OF undone(3)] by auto
  have "secret_value (st_secrets t) = ?old(DESTINATION_KEY := new_key cd key) \<and> (\<exists>x. r4 = Inl x) \<or>
      secret_value (st_secrets t) = ?old(DESTINATION_KEY := kb)"
    using put_back_value [OF undone(5)] s2 by auto
  with kb changes undone(6) same_settings_trans [OF log_cleared(1) undone(1)] show ?thesis
    by (cases r4) (auto simp: Let_def)
next
  case (saved s1 u r5)
  with e show ?thesis by (cases r5) (auto dest: sync_destination_cases)
qed

text \<open>A codec: the length of the owner in unary, then both. And a state to start from.\<close>

definition demo_enc :: "bytes \<Rightarrow> bytes \<Rightarrow> bytes" where
  "demo_enc owner v = replicate (length owner) 1 @ 0 # owner @ v"

definition demo_dec :: "bytes \<Rightarrow> (bytes \<times> bytes) option" where
  "demo_dec s =
     (let n = length (takeWhile (\<lambda>b. b = 1) s); r = drop (n + 1) s in Some (take n r, drop n r))"

lemma demo_dec_enc: "demo_dec (demo_enc owner v) = Some (owner, v)"
  by (simp add: demo_dec_def demo_enc_def takeWhile_append)

definition demo_codecs :: codecs where
  "demo_codecs = \<lparr>cd_to_json = (\<lambda>_. None), cd_of_json = (\<lambda>_. None), cd_enc = demo_enc, cd_dec = demo_dec,
     cd_enc_json = (\<lambda>_ _. []), cd_parse = (\<lambda>_. None)\<rparr>"

definition demo_app :: "config \<Rightarrow> secrets \<Rightarrow> app_state" where
  "demo_app c s = \<lparr>st_config = c, st_saved = c, st_path = True, st_file = Some c, st_secrets = s,
     st_key_override = None, st_key_override_url = [], st_applied = None, st_relay_up = True,
     st_relay_calls = [], st_listeners = c, st_restart_required = False, st_save_faults = []\<rparr>"

text \<open>The keychain lets go of the key, and the secrets' file cannot be read.\<close>

definition half_deleted :: secrets where
  "half_deleted = \<lparr>sec_keychain = Some [DESTINATION_KEY \<mapsto> [5]], sec_file = NoFile,
     sec_faults = [False, False, False, True], sec_warned = False\<rparr>"

theorem unsaved_change_changes_nothing_witness:
  "\<exists>t. change_settings_locked demo_codecs ForgetKey (\<lambda>c. (c, ()))
        (log_cleared (demo_app default_config half_deleted)) = (Inl (KeyFailed FileError), t) \<and>
     same_settings (demo_app default_config half_deleted) t \<and>
     secret_value (st_secrets t) = (secret_value half_deleted)(DESTINATION_KEY := None) \<and>
     secret_value half_deleted DESTINATION_KEY = Some [5]"
proof -
  let ?s = "demo_app default_config half_deleted"
  obtain t where run: "change_settings_locked demo_codecs ForgetKey (\<lambda>c. (c, ())) (log_cleared ?s) =
      (Inl (KeyFailed FileError), t)"
    and gone: "secret_value (st_secrets t) DESTINATION_KEY = None"
    by (simp add: change_settings_locked_def with_secrets_def demo_app_def half_deleted_def
        log_cleared_def log_emptied_def
        try_get_secret_def read_file_def try_call_def call_fails_def and_try_def kc_get_def
        in_keychain_def change_key_def delete_secret_def kc_delete_def remove_from_file_def
        load_for_write_def secret_value_def file_values_def)
  have old: "secret_value half_deleted DESTINATION_KEY = Some [5]"
    by (simp add: half_deleted_def secret_value_def file_values_def in_keychain_def)
  have "st_secrets ?s = half_deleted" by (simp add: demo_app_def)
  with unsaved_change_changes_nothing [OF run] gone old have "same_settings ?s t \<and>
      secret_value (st_secrets t) = (secret_value half_deleted)(DESTINATION_KEY := None)"
    by (auto simp: Let_def new_key_def)
  with run old show ?thesis by blast
qed

end
