(* ===== verification/Startup.thy ===== *)
theory Startup
  imports Settings_Change
begin

text \<open>
  How a run starts (\<^verbatim>\<open>App::start\<close> of \<^verbatim>\<open>crates/control/src/app.rs\<close>, with \<^verbatim>\<open>migrate_backup\<close> of
  \<^verbatim>\<open>obs_routes.rs\<close> and the checks of \<^verbatim>\<open>start\<close> in \<^verbatim>\<open>crates/relay/src/lib.rs\<close>): the settings are
  loaded, keys left in them moved to the secret store, the command line's overrides applied, and
  all of it checked before anything listens. Left out is the start delay asked of the relay.
\<close>

section \<open>Ingest keys\<close>

definition MIN_INGEST_KEY_LEN :: nat where "MIN_INGEST_KEY_LEN = 16"
definition STRONG_INGEST_KEY_BITS :: nat where "STRONG_INGEST_KEY_BITS = 80"

datatype key_weakness = TooShort | Pattern | Guessable

text \<open>The number of a character, from its bytes.\<close>

definition code_point :: "bytes \<Rightarrow> int" where
  "code_point c =
     (case map uint c of
        [a] \<Rightarrow> a
      | [a, b] \<Rightarrow> (a - 0xC0) * 64 + (b - 0x80)
      | [a, b, d] \<Rightarrow> (a - 0xE0) * 4096 + (b - 0x80) * 64 + (d - 0x80)
      | [a, b, d, e] \<Rightarrow> (a - 0xF0) * 262144 + (b - 0x80) * 4096 + (d - 0x80) * 64 + (e - 0x80)
      | _ \<Rightarrow> 0)"

definition ascii_is :: "(u8 \<Rightarrow> bool) \<Rightarrow> bytes \<Rightarrow> bool" where
  "ascii_is P c \<longleftrightarrow> (case c of [b] \<Rightarrow> P b | _ \<Rightarrow> False)"

definition lower_case :: "u8 \<Rightarrow> bool" where "lower_case b \<longleftrightarrow> 0x61 \<le> b \<and> b \<le> 0x7A"
definition upper_case :: "u8 \<Rightarrow> bool" where "upper_case b \<longleftrightarrow> 0x41 \<le> b \<and> b \<le> 0x5A"

definition alphanumeric :: "u8 \<Rightarrow> bool" where
  "alphanumeric b \<longleftrightarrow> lower_case b \<or> upper_case b \<or> digit b"

text \<open>
  \<^verbatim>\<open>ingest_key_weakness\<close>. \<open>length\<close> times the logarithm of \<open>pool\<close> is below 80 when the power is
  below \<open>2 ^ 80\<close>; how many bits it has, for the warning, is left out.
\<close>

definition repeats_every :: "nat \<Rightarrow> bytes list \<Rightarrow> bool" where
  "repeats_every p cs \<longleftrightarrow> list_all (\<lambda>(a, b). a = b) (zip (drop p cs) cs)"

definition runs_by :: "int \<Rightarrow> bytes list \<Rightarrow> bool" where
  "runs_by by_step cs \<longleftrightarrow>
     list_all (\<lambda>(a, b). code_point b - code_point a = by_step) (zip cs (tl cs))"

definition pool_size :: "bytes list \<Rightarrow> nat" where
  "pool_size cs =
     (if list_ex (ascii_is lower_case) cs then 26 else 0) +
     (if list_ex (ascii_is upper_case) cs then 26 else 0) +
     (if list_ex (ascii_is digit) cs then 10 else 0) +
     (if list_ex (\<lambda>c. \<not> ascii_is alphanumeric c) cs then 33 else 0)"

definition ingest_key_weakness :: "bytes \<Rightarrow> key_weakness option" where
  "ingest_key_weakness key =
     (let cs = chars key
      in if length cs < MIN_INGEST_KEY_LEN then Some TooShort
         else if list_ex (\<lambda>p. repeats_every p cs) [1, 2, 3, 4] \<or> runs_by 1 cs \<or> runs_by (-1) cs
         then Some Pattern
         else if pool_size cs ^ length cs < 2 ^ STRONG_INGEST_KEY_BITS then Some Guessable
         else None)"

definition refused_weakness :: "key_weakness \<Rightarrow> bool" where
  "refused_weakness w \<longleftrightarrow> w \<noteq> Guessable"

datatype app_error =
    ConfigFailed | RelayUrl url_error | ListenFailed | InvalidSettings settings_error
  | WeakToken | TokenCharacters | IngestKeyRequired | WeakIngestKey key_weakness

text \<open>What \<^verbatim>\<open>start\<close> of the relay refuses; \<open>listens\<close> says whether its port is free.\<close>

definition relay_start_check ::
  "bool \<Rightarrow> destination option \<Rightarrow> ip_addr \<Rightarrow> bytes option \<Rightarrow> app_error option" where
  "relay_start_check listens dest ip key =
     or_else
       (case dest of
          None \<Rightarrow> None
        | Some d \<Rightarrow> (case parse_url (d_url d) of Inl e \<Rightarrow> Some (RelayUrl e) | Inr _ \<Rightarrow> None))
       (or_else
          (if is_loopback (to_canonical ip) then None
           else (case key of
                   None \<Rightarrow> Some IngestKeyRequired
                 | Some k \<Rightarrow>
                     if k = [] then Some IngestKeyRequired
                     else (case ingest_key_weakness k of
                             Some w \<Rightarrow> if refused_weakness w then Some (WeakIngestKey w) else None
                           | None \<Rightarrow> None)))
          (refuse (\<not> listens) ListenFailed None))"

section \<open>What an earlier version left in the settings\<close>

definition OBS_BACKUP :: bytes where "OBS_BACKUP = ascii ''obs-backup''"
definition OBS_BACKUP_KEY :: bytes where "OBS_BACKUP_KEY = ascii ''obs-backup-key''"

definition obs_id :: "bytes \<Rightarrow> nat \<Rightarrow> bytes" where
  "obs_id host port =
     (let host = map ascii_lower (trim host)
      in (if 0x3A \<in> set host \<and> (host = [] \<or> hd host \<noteq> 0x5B) then 0x5B # host @ [0x5D] else host) @
         0x3A # decimal port)"

text \<open>Moves a backup of OBS's settings to the secret store. Whether the settings changed.\<close>

definition migrate_backup :: "codecs \<Rightarrow> config \<Rightarrow> secrets \<Rightarrow> (bool \<times> config) \<times> secrets" where
  "migrate_backup cd c s =
     (case oc_backup (cf_obs c) of
        None \<Rightarrow> ((False, c), s)
      | Some backup \<Rightarrow>
          (case ob_settings_json backup of
             None \<Rightarrow> ((False, c), s)
           | Some text \<Rightarrow>
               (let changed = (ob_obs backup = None);
                    obs = the_or (obs_id (oc_host (cf_obs c)) (oc_port (cf_obs c))) (ob_obs backup);
                    backup = backup\<lparr>ob_obs := Some obs\<rparr>;
                    with_backup = (\<lambda>b. c\<lparr>cf_obs := (cf_obs c)\<lparr>oc_backup := Some b\<rparr>\<rparr>)
                in case cd_parse cd text of
                     None \<Rightarrow> ((changed, with_backup backup), s)
                   | Some settings \<Rightarrow>
                       (let (key, s) = get_secret OBS_BACKUP_KEY s;
                            settings = (case (settings, key) of
                              (JObject ms, Some k) \<Rightarrow> JObject (set_member (ascii ''key'') (JString k) ms)
                            | _ \<Rightarrow> settings)
                        in case bound_save (cd_enc_json cd) OBS_BACKUP obs settings s of
                             (Inr _, s) \<Rightarrow>
                               (case delete_secret OBS_BACKUP_KEY s of
                                  (_, s) \<Rightarrow> ((True, with_backup (backup\<lparr>ob_settings_json := None\<rparr>)), s))
                           | (Inl _, s) \<Rightarrow> ((changed, with_backup backup), s)))))"

section \<open>Starting\<close>

record overrides =
  or_ingest :: "socket_addr option"
  or_api :: "socket_addr option"
  or_destination_url :: "bytes option"
  or_destination_key :: "bytes option"
  or_passthrough :: bool
  or_token :: "bytes option"
  or_max_delay_seconds :: "nat option"
  or_start_delay_seconds :: "f64 option"
  or_grace_seconds :: "nat option"
  or_allow_lan :: bool
  or_ingest_key :: "bytes option"

text \<open>
  What a start finds: whether there is a settings file to keep, what it reads as (\<open>None\<close> if it
  cannot be read or parsed, \<open>Some None\<close> if it is missing), the secrets, the tokens generated,
  and whether the ports are free.
\<close>

record surroundings =
  su_path :: bool
  su_read :: "config option option"
  su_secrets :: secrets
  su_faults :: "bool list"
  su_token :: bytes
  su_new_key :: bytes
  su_api_listens :: bool
  su_relay_listens :: bool

definition save_if_path :: "config \<Rightarrow> app_state \<Rightarrow> bool \<times> app_state" where
  "save_if_path c st = (if st_path st then save_config c st else (True, st))"

text \<open>The state a start works on, of the settings loaded and the secrets.\<close>

definition booting :: "surroundings \<Rightarrow> app_state" where
  "booting w =
     \<lparr>st_config = default_config, st_saved = default_config, st_path = su_path w,
      st_file = (case su_read w of Some r \<Rightarrow> r | None \<Rightarrow> None), st_secrets = su_secrets w,
      st_key_override = None, st_key_override_url = [], st_applied = None, st_relay_up = True,
      st_relay_calls = [], st_listeners = default_config, st_restart_required = False,
      st_save_faults = su_faults w\<rparr>"

definition load_settings :: "surroundings \<Rightarrow> app_error + app_state" where
  "load_settings w =
     (let st = booting w
      in if \<not> su_path w
         then Inr (st\<lparr>st_config := default_config
                \<lparr>cf_api := (cf_api default_config)\<lparr>ap_token := su_token w\<rparr>\<rparr>\<rparr>)
         else (case su_read w of
                 None \<Rightarrow> Inl ConfigFailed
               | Some read \<Rightarrow>
                   (let (c, kept, needed) = load_or_create read (su_token w);
                        (ok, st) = (case kept of None \<Rightarrow> (True, st) | Some k \<Rightarrow> save_config k st)
                    in if needed \<and> \<not> ok then Inl ConfigFailed else Inr (st\<lparr>st_config := c\<rparr>))))"

definition move_url_key :: "codecs \<Rightarrow> app_state \<Rightarrow> app_error + app_state" where
  "move_url_key cd st =
     (let c = st_config st
      in case split_url_key (config_url c) of
           (_, None) \<Rightarrow> Inr st
         | (url, Some key) \<Rightarrow>
             (let (stored, st) = with_secrets (get_secret DESTINATION_KEY) st;
                  (moved, st) = (case stored of
                      Some k \<Rightarrow> if k \<noteq> [] then (Inr (), st)
                                else with_secrets (key_save (cd_enc cd) url key) st
                    | None \<Rightarrow> with_secrets (key_save (cd_enc cd) url key) st)
              in case moved of
                   Inl _ \<Rightarrow> Inr st
                 | Inr _ \<Rightarrow>
                     (let c = c\<lparr>cf_destination := (cf_destination c)\<lparr>dc_url := url\<rparr>\<rparr>;
                          (ok, st) = save_if_path c (st\<lparr>st_config := c\<rparr>)
                      in if ok then Inr st else Inl ConfigFailed)))"

definition move_backup :: "codecs \<Rightarrow> app_state \<Rightarrow> app_error + app_state" where
  "move_backup cd st =
     (let ((changed, c), st) = with_secrets (migrate_backup cd (st_config st)) st;
          st = st\<lparr>st_config := c\<rparr>;
          (ok, st) = (if changed then save_if_path c st else (True, st))
      in if ok then Inr st else Inl ConfigFailed)"

definition tie_legacy_key :: "codecs \<Rightarrow> app_state \<Rightarrow> app_state" where
  "tie_legacy_key cd st =
     snd (with_secrets (bind_legacy (cd_enc cd) (cd_dec cd) (config_url (st_config st))) st)"

text \<open>The overrides, on the settings in effect only.\<close>

definition override_settings :: "overrides \<Rightarrow> config \<Rightarrow> config" where
  "override_settings o' c =
     c\<lparr>cf_ingest := (cf_ingest c)
         \<lparr>ic_bind := the_or (ic_bind (cf_ingest c)) (or_ingest o'),
          ic_grace_seconds := the_or (ic_grace_seconds (cf_ingest c)) (or_grace_seconds o'),
          ic_key := (case or_ingest_key o' of Some k \<Rightarrow> Some k | None \<Rightarrow> ic_key (cf_ingest c))\<rparr>,
       cf_destination :=
         (let d = (case or_destination_url o' of
                Some v \<Rightarrow> (cf_destination c)\<lparr>dc_url := fst (split_url_key v), dc_service := ascii ''custom''\<rparr>
              | None \<Rightarrow> cf_destination c)
          in if or_passthrough o' then d\<lparr>dc_key_mode := ForwardKey\<rparr> else d),
       cf_delay := (cf_delay c)
         \<lparr>dl_max_seconds := the_or (dl_max_seconds (cf_delay c)) (or_max_delay_seconds o'),
          dl_start_seconds := the_or (dl_start_seconds (cf_delay c)) (or_start_delay_seconds o')\<rparr>,
       cf_api := (cf_api c)
         \<lparr>ap_bind := the_or (ap_bind (cf_api c)) (or_api o'),
          ap_token := the_or (ap_token (cf_api c)) (or_token o'),
          ap_allow_lan := ap_allow_lan (cf_api c) \<or> or_allow_lan o'\<rparr>\<rparr>"

definition apply_overrides :: "overrides \<Rightarrow> app_state \<Rightarrow> app_error + app_state" where
  "apply_overrides o' st =
     (let st = st\<lparr>st_saved := st_config st, st_config := override_settings o' (st_config st)\<rparr>
      in case or_destination_url o' of
           None \<Rightarrow> Inr (st\<lparr>st_key_override := or_destination_key o'\<rparr>)
         | Some v \<Rightarrow>
             (case parse_url v of
                Inl e \<Rightarrow> Inl (RelayUrl e)
              | Inr _ \<Rightarrow>
                  Inr (st\<lparr>st_key_override := (case or_destination_key o' of
                            Some k \<Rightarrow> Some k | None \<Rightarrow> snd (split_url_key v))\<rparr>)))"

definition no_key :: "bytes option \<Rightarrow> bool" where
  "no_key k \<longleftrightarrow> k = None \<or> k = Some []"

definition set_ingest_key :: "bytes \<Rightarrow> config \<Rightarrow> config" where
  "set_ingest_key k c = c\<lparr>cf_ingest := (cf_ingest c)\<lparr>ic_key := Some k\<rparr>\<rparr>"

definition ensure_ingest_key :: "bytes \<Rightarrow> app_state \<Rightarrow> app_error + app_state" where
  "ensure_ingest_key new_key st =
     (let i = cf_ingest (st_config st)
      in if no_key (ic_key i) \<and> \<not> is_loopback (to_canonical (sa_ip (ic_bind i)))
         then (let saved = set_ingest_key new_key (st_saved st);
                   (ok, st) = save_if_path saved (st\<lparr>st_saved := saved\<rparr>)
               in if ok then Inr (st\<lparr>st_config := set_ingest_key new_key (st_config st)\<rparr>)
                  else Inl ConfigFailed)
         else Inr st)"

text \<open>Presets that could only fail are dropped; one without delay is left if none is.\<close>

definition fit_presets :: "delay_config \<Rightarrow> delay_config" where
  "fit_presets d =
     (let ps = filter (\<lambda>p. f_le (ps_seconds p) (f_of_nat (dl_max_seconds d))) (dl_presets d)
      in d\<lparr>dl_presets := (if ps = [] then [\<lparr>ps_seconds = Finite 0, ps_mode = dl_default_mode d\<rparr>]
                        else ps)\<rparr>)"

definition MIN_TOKEN_LEN :: nat where "MIN_TOKEN_LEN = 16"

definition token_byte :: "u8 \<Rightarrow> bool" where
  "token_byte b \<longleftrightarrow> alphanumeric b \<or> b \<in> set (ascii ''._~-'')"

definition check_settings :: "app_state \<Rightarrow> app_error + app_state" where
  "check_settings st =
     (let c = st_config st
      in case validate_limits (cf_delay c) (ic_grace_seconds (cf_ingest c)) of
           Some e \<Rightarrow> Inl (InvalidSettings e)
         | None \<Rightarrow>
             (let c = c\<lparr>cf_delay := fit_presets (cf_delay c)\<rparr>
              in if length (chars (ap_token (cf_api c))) < MIN_TOKEN_LEN then Inl WeakToken
                 else if \<not> list_all token_byte (ap_token (cf_api c)) then Inl TokenCharacters
                 else Inr (st\<lparr>st_config := c\<rparr>)))"

text \<open>
  The relay is started with the destination; that counts as the first it was told. What is
  remembered of it is worked out again (\<open>st_applied\<close>).
\<close>

definition start_relay :: "codecs \<Rightarrow> surroundings \<Rightarrow> app_state \<Rightarrow> app_error + app_state" where
  "start_relay cd w st =
     (let c = st_config st; url = config_url c;
          (key, st) = (case st_key_override st of
              Some k \<Rightarrow> (Some k, st) | None \<Rightarrow> stored_key cd url st);
          dest = destination_of c key
      in if \<not> su_api_listens w then Inl ListenFailed
         else (case relay_start_check (su_relay_listens w) dest (sa_ip (ic_bind (cf_ingest c)))
                      (ic_key (cf_ingest c)) of
                 Some e \<Rightarrow> Inl e
               | None \<Rightarrow>
                   (let st = st\<lparr>st_key_override_url := url, st_listeners := c,
                          st_relay_calls := [SetDestination dest]\<rparr>;
                        (applied, st) = app_destination cd c st
                    in Inr (st\<lparr>st_applied := applied\<rparr>))))"

definition and_start ::
  "app_error + app_state \<Rightarrow> (app_state \<Rightarrow> app_error + app_state) \<Rightarrow> app_error + app_state" where
  "and_start a f = (case a of Inl e \<Rightarrow> Inl e | Inr st \<Rightarrow> f st)"

definition start_app :: "codecs \<Rightarrow> overrides \<Rightarrow> surroundings \<Rightarrow> app_error + app_state" where
  "start_app cd o' w =
     and_start (and_start (and_start (and_start (and_start (and_start
       (load_settings w) (move_url_key cd)) (move_backup cd))
       (\<lambda>st. apply_overrides o' (tie_legacy_key cd st))) (ensure_ingest_key (su_new_key w)))
       check_settings) (start_relay cd w)"

end
