(* ===== verification/Settings_Key.thy ===== *)
theory Settings_Key
  imports Settings_Promises Startup
begin

text \<open>
  The stream key over a whole run: whatever settings are changed, in whatever order and with
  whatever failures, the relay is only given a key for the server it was entered for. The
  state is paired with what was entered so far: the server and the key, each time.
\<close>

section \<open>What the store may come to hold\<close>

text \<open>Each value held is allowed by \<open>A\<close>.\<close>

definition map_within :: "(bytes \<times> bytes) set \<Rightarrow> (bytes \<rightharpoonup> bytes) \<Rightarrow> bool" where
  "map_within A m \<longleftrightarrow> (\<forall>n v. m n = Some v \<longrightarrow> (n, v) \<in> A)"

definition store_within :: "(bytes \<times> bytes) set \<Rightarrow> secrets \<Rightarrow> bool" where
  "store_within A s \<longleftrightarrow> map_within A (file_values (sec_file s)) \<and> map_within A (in_keychain s)"

lemma map_within_upd [simp]: "map_within A m \<Longrightarrow> (n, v) \<in> A \<Longrightarrow> map_within A (m(n \<mapsto> v))"
  by (auto simp: map_within_def)

lemma map_within_del [simp]: "map_within A m \<Longrightarrow> map_within A (m(n := None))"
  by (auto simp: map_within_def)

lemma map_within_empty [simp]: "map_within A (\<lambda>_. None)"
  by (simp add: map_within_def)

lemma store_within_same: "same_store s t \<Longrightarrow> store_within A s \<Longrightarrow> store_within A t"
  by (simp add: same_store_def store_within_def in_keychain_eq)

lemma write_file_within:
  "write_file m s = (r, t) \<Longrightarrow> store_within A s \<Longrightarrow> map_within A m \<Longrightarrow> store_within A t"
  by (drule write_file_cases) (auto simp: store_within_def in_keychain_eq file_values_def)

lemma kc_get_within:
  "kc_get n s = (r, t) \<Longrightarrow> store_within A s \<Longrightarrow>
     store_within A t \<and> (\<forall>v. r = Inr (Some v) \<longrightarrow> (n, v) \<in> A)"
  by (drule kc_get_cases) (auto simp: store_within_def in_keychain_eq map_within_def)

lemma kc_set_within:
  "kc_set n v s = (r, t) \<Longrightarrow> store_within A s \<Longrightarrow> (n, v) \<in> A \<Longrightarrow> store_within A t"
  by (drule kc_set_cases) (auto simp: store_within_def in_keychain_eq split: option.splits)

lemma kc_delete_within:
  "kc_delete n s = (r, t) \<Longrightarrow> store_within A s \<Longrightarrow> store_within A t"
  by (drule kc_delete_cases) (auto simp: store_within_def in_keychain_eq split: option.splits)

lemma load_for_write_within:
  "load_for_write s = (r, t) \<Longrightarrow> store_within A s \<Longrightarrow>
     store_within A t \<and> (\<forall>m. r = Inr m \<longrightarrow> map_within A m)"
  by (drule load_for_write_cases) (auto simp: store_within_def in_keychain_eq)

lemma note_undo_within [simp]: "store_within A (note_undo r s) = store_within A s"
  by (simp add: note_undo_def store_within_def in_keychain_eq split: sum.split)

lemma set_in_file_within:
  assumes "set_in_file n v m s = (r, t)" "store_within A s" "map_within A m" "(n, v) \<in> A"
  shows "store_within A t"
proof -
  obtain r1 s1 where 1: "write_file (m(n \<mapsto> v)) s = (r1, s1)" by (rule prod.exhaust)
  obtain r2 s2 where 2: "kc_get n s1 = (r2, s2)" by (rule prod.exhaust)
  obtain r3 s3 where 3: "kc_delete n s2 = (r3, s3)" by (rule prod.exhaust)
  obtain r4 s4 where 4: "write_file m s3 = (r4, s4)" by (rule prod.exhaust)
  have s1: "store_within A s1" using write_file_within [OF 1] assms by simp
  have s2: "store_within A s2" using kc_get_within [OF 2 s1] by simp
  have s3: "store_within A s3" using kc_delete_within [OF 3 s2] .
  have s4: "store_within A s4" using write_file_within [OF 4 s3 assms(3)] .
  from assms(1) 1 2 3 4 s1 s2 s3 s4 show ?thesis
    by (auto simp: set_in_file_def and_try_def split: sum.splits if_splits)
qed

lemma set_in_keychain_within:
  assumes "set_in_keychain n previous m s = (r, t)" "store_within A s" "map_within A m"
    and "\<forall>v. previous = Inr (Some v) \<longrightarrow> (n, v) \<in> A"
  shows "store_within A t"
proof -
  obtain r1 s1 where 1: "write_file (m(n := None)) s = (r1, s1)" by (rule prod.exhaust)
  have s1: "store_within A s1" using write_file_within [OF 1] assms by simp
  define undo where "undo = (case previous of
      Inr (Some old) \<Rightarrow> kc_set n old s1 | Inr None \<Rightarrow> kc_delete n s1 | Inl e \<Rightarrow> (Inl e, s1))"
  obtain r2 s2 where 2: "undo = (r2, s2)" by (rule prod.exhaust)
  have "store_within A s2"
  proof (cases "\<exists>v. previous = Inr (Some v)")
    case True
    with 2 assms(4) s1 show ?thesis by (auto simp: undo_def intro: kc_set_within)
  next
    case False
    with 2 s1 show ?thesis
      by (auto simp: undo_def split: sum.splits option.splits intro: kc_delete_within)
  qed
  with assms(1,2) 1 2 s1 show ?thesis
    by (auto simp: set_in_keychain_def undo_def [symmetric] split: sum.splits if_splits)
qed

lemma set_secret_within:
  assumes "set_secret n v s = (r, t)" "store_within A s" "(n, v) \<in> A"
  shows "store_within A t"
proof -
  obtain r1 s1 where 1: "load_for_write s = (r1, s1)" by (rule prod.exhaust)
  obtain previous s2 where 2: "kc_get n s1 = (previous, s2)" by (rule prod.exhaust)
  obtain r3 s3 where 3: "kc_set n v s2 = (r3, s3)" by (rule prod.exhaust)
  note s1 = load_for_write_within [OF 1 assms(2)]
  note s2 = kc_get_within [OF 2 conjunct1 [OF s1]]
  note s3 = kc_set_within [OF 3 conjunct1 [OF s2] assms(3)]
  from assms 1 2 3 s1 s2 s3 show ?thesis
    by (auto simp: set_secret_def and_try_def split: sum.splits if_splits
        intro: set_in_file_within set_in_keychain_within)
qed

lemma delete_secret_within:
  assumes "delete_secret n s = (r, t)" "store_within A s"
  shows "store_within A t"
  using delete_secret_cases [OF assms(1)] assms(2)
  by (auto simp: store_within_def split: sum.splits)

lemma try_get_within:
  assumes "try_get_secret n s = (r, t)" "store_within A s"
  shows "store_within A t \<and> (\<forall>v. r = Inr (Some v) \<longrightarrow> (n, v) \<in> A)"
proof -
  obtain r1 s1 where 1: "read_file s = (r1, s1)" by (rule prod.exhaust)
  obtain r2 s2 where 2: "kc_get n s1 = (r2, s2)" by (rule prod.exhaust)
  from try_call_cases [OF 1 [unfolded read_file_def]] obtain s' where same: "same_store s s1"
    and r1: "(\<exists>e. r1 = Inl e) \<or> r1 = Inr (case sec_file s of NoFile \<Rightarrow> Readable Map.empty | f \<Rightarrow> f)"
    by (auto simp: same_store_def)
  have s1: "store_within A s1" using store_within_same [OF same assms(2)] .
  have f: "(n, v) \<in> A" if "r1 = Inr (Readable m)" "m n = Some v" for m v
    using r1 that assms(2)
    by (auto simp: store_within_def map_within_def file_values_def split: file_state.splits)
  from store_within_same [OF try_get_same [OF assms(1)] assms(2)] assms(1) 1 2 f kc_get_within [OF 2 s1]
  show ?thesis
    by (auto simp: try_get_secret_def and_try_def done_with_def
        split: sum.splits option.splits file_state.splits if_splits)
qed

lemma put_back_within:
  "put_back n v s = (r, t) \<Longrightarrow> store_within A s \<Longrightarrow> (\<forall>w. v = Some w \<longrightarrow> (n, w) \<in> A) \<Longrightarrow> store_within A t"
  by (auto simp: put_back_def split: option.splits intro: set_secret_within delete_secret_within)

lemma take_secrets_within:
  "take_secrets ns s = (r, t) \<Longrightarrow> store_within A s \<Longrightarrow>
     store_within A t \<and> (\<forall>kept n w. r = Inr kept \<longrightarrow> (n, Some w) \<in> set kept \<longrightarrow> (n, w) \<in> A)"
proof (induction ns arbitrary: s r t)
  case (Cons n ns)
  obtain r1 s1 where 1: "try_get_secret n s = (r1, s1)" by (rule prod.exhaust)
  obtain r2 s2 where 2: "take_secrets ns s1 = (r2, s2)" by (rule prod.exhaust)
  note w = try_get_within [OF 1 Cons.prems(2)]
  from Cons.prems(1) 1 2 w Cons.IH [OF 2 conjunct1 [OF w]] show ?case
    by (auto simp: and_try_def done_with_def split: sum.splits)
qed (auto simp: done_with_def)

lemma restore_secrets_within:
  "restore_secrets kept s = (r, t) \<Longrightarrow> store_within A s \<Longrightarrow>
     (\<forall>n w. (n, Some w) \<in> set kept \<longrightarrow> (n, w) \<in> A) \<Longrightarrow> store_within A t"
proof (induction kept s arbitrary: r t rule: restore_secrets.induct)
  case (2 n v rest s)
  obtain r1 s1 where 1: "put_back n v s = (r1, s1)" by (rule prod.exhaust)
  have "store_within A s1" using put_back_within [OF 1] 2 by auto
  with 2 1 show ?case by (auto split: sum.splits prod.splits)
qed auto

section \<open>Runs\<close>

text \<open>What was entered: each server, as a URL without a key, with the key entered for it.\<close>

type_synonym entries = "(bytes \<times> bytes) set"

definition entered_for :: "bytes \<Rightarrow> bytes \<Rightarrow> entries" where
  "entered_for server key = {(fst (split_url_key server), key)}"

definition entered :: "key_change \<Rightarrow> entries" where
  "entered key = (case key of SaveKey server k \<Rightarrow> entered_for server k | _ \<Rightarrow> {})"

definition entered_in_update :: "app_state \<Rightarrow> settings_update \<Rightarrow> entries" where
  "entered_in_update st u =
     (case key_of_update (config_url (st_config st)) (config_url (st_saved st))
             (as_meant (config_url (st_config st)) u) of
        Inl _ \<Rightarrow> {} | Inr (_, key) \<Rightarrow> entered key)"

text \<open>A change of secrets that leaves the stream key alone.\<close>

definition spares_key :: "unit attempt \<Rightarrow> bool" where
  "spares_key update \<longleftrightarrow>
     (\<forall>A s r t. update s = (r, t) \<longrightarrow> store_within {(n, v). n = DESTINATION_KEY \<longrightarrow> v \<in> A} s \<longrightarrow>
        store_within {(n, v). n = DESTINATION_KEY \<longrightarrow> v \<in> A} t)"

text \<open>A change of the settings that leaves those checked alone.\<close>

definition spares_limits :: "(config \<Rightarrow> config \<times> 'r) \<Rightarrow> bool" where
  "spares_limits change \<longleftrightarrow>
     (\<forall>c. cf_delay (fst (change c)) = cf_delay c \<and> cf_ingest (fst (change c)) = cf_ingest c)"

inductive settings_step ::
  "bool \<Rightarrow> codecs \<Rightarrow> app_state \<times> entries \<Rightarrow> app_state \<times> entries \<Rightarrow> bool"
  for mac :: bool and cd :: codecs where
  update: "update_config mac cd u st = (r, st') \<Longrightarrow>
     settings_step mac cd (st, g) (st', g \<union> entered_in_update st u)"
| other: "change_settings_and_secrets cd names upd key (change :: config \<Rightarrow> config \<times> unit) st = (r, st') \<Longrightarrow>
     spares_key upd \<Longrightarrow> spares_limits change \<Longrightarrow>
     settings_step mac cd (st, g) (st', g \<union> entered key)"
| save_key: "save_destination_key cd typed st = (r, st') \<Longrightarrow>
     settings_step mac cd (st, g) (st', g \<union> entered_for (config_url (st_saved st)) (trim typed))"
| forget_key: "forget_destination_key cd st = (r, st') \<Longrightarrow> settings_step mac cd (st, g) (st', g)"

section \<open>What holds throughout\<close>

definition kept_as :: "codecs \<Rightarrow> entries \<Rightarrow> (bytes \<times> bytes) set" where
  "kept_as cd g = {(n, v). n = DESTINATION_KEY \<longrightarrow> v \<in> (\<lambda>(server, k). cd_enc cd server k) ` g}"

text \<open>A key that goes to a destination was entered for its server.\<close>

definition vouched :: "app_state \<Rightarrow> entries \<Rightarrow> destination \<Rightarrow> bool" where
  "vouched st g d \<longleftrightarrow>
     (\<forall>k. d_key d = Fixed k \<and> k \<noteq> [] \<longrightarrow>
        st_key_override st = Some k \<and> same_server (st_key_override_url st) (d_url d) \<or>
        (\<exists>server. (server, k) \<in> g \<and> same_server server (d_url d)))"

definition settings_inv :: "codecs \<Rightarrow> app_state \<times> entries \<Rightarrow> bool" where
  "settings_inv cd = (\<lambda>(st, g).
     store_within (kept_as cd g) (st_secrets st) \<and>
     (\<forall>d. SetDestination (Some d) \<in> set (st_relay_calls st) \<or> st_applied st = Some d \<longrightarrow> vouched st g d) \<and>
     st_listeners st = st_config st \<and>
     limits_ok (cf_delay (st_config st)) (ic_grace_seconds (cf_ingest (st_config st))))"

text \<open>Only the override of the state counts.\<close>

lemma vouched_same:
  "st_key_override t = st_key_override s \<Longrightarrow> st_key_override_url t = st_key_override_url s \<Longrightarrow>
     vouched t = vouched s"
  by (intro ext) (simp add: vouched_def)

lemmas vouched_upd [simp] =
  vouched_same [of "s\<lparr>st_relay_calls := x\<rparr>" s for s x, simplified]
  vouched_same [of "s\<lparr>st_applied := x\<rparr>" s for s x, simplified]
  vouched_same [of "s\<lparr>st_restart_required := x\<rparr>" s for s x, simplified]
  vouched_same [of "in_effect a b s" s for a b s, unfolded in_effect_def, simplified]

lemma kept_as_mono: "g \<subseteq> h \<Longrightarrow> store_within (kept_as cd g) s \<Longrightarrow> store_within (kept_as cd h) s"
  by (auto simp: store_within_def map_within_def kept_as_def) blast+

lemma vouched_mono: "vouched s g d \<Longrightarrow> g \<subseteq> h \<Longrightarrow> vouched s h d"
  unfolding vouched_def by blast

lemma spares_key_kept: "spares_key upd \<Longrightarrow> upd s = (r, t) \<Longrightarrow> store_within (kept_as cd g) s \<Longrightarrow>
    store_within (kept_as cd g) t"
  unfolding spares_key_def kept_as_def by blast

lemma key_save_within:
  "key_save (cd_enc cd) server k s = (r, t) \<Longrightarrow> store_within (kept_as cd g) s \<Longrightarrow>
     entered_for server k \<subseteq> g \<Longrightarrow> store_within (kept_as cd g) t"
  unfolding key_save_def bound_save_def
  by (rule set_secret_within) (auto simp: kept_as_def entered_for_def)

lemma change_key_within:
  assumes "change_key cd key s = (r, t)" "store_within (kept_as cd g) s" "entered key \<subseteq> g"
  shows "store_within (kept_as cd g) t"
  using assms
  by (cases key) (auto simp: change_key_def done_with_def entered_def
      intro: key_save_within delete_secret_within)

lemma change_settings_within:
  assumes "change_settings_locked cd key change s = (r, t)"
    and w: "store_within (kept_as cd g) (st_secrets s)" and g: "entered key \<subseteq> g"
  shows "store_within (kept_as cd g) (st_secrets t)"
  using assms(1)
proof (cases rule: change_settings_parts)
  case (unread e)
  with w store_within_same show ?thesis by blast
next
  case (key_failed s1 e)
  with change_key_within [OF key_failed(4) _ g] store_within_same [OF key_failed(3) w] show ?thesis by blast
next
  case (undone kb s1 s2 r4)
  have "store_within (kept_as cd g) s2"
    using change_key_within [OF undone(4) _ g] store_within_same [OF undone(2) w] by blast
  moreover have "\<forall>v. kb = Some v \<longrightarrow> (DESTINATION_KEY, v) \<in> kept_as cd g"
    using try_get_within [OF undone(3) w] by blast
  ultimately show ?thesis using put_back_within [OF undone(5)] by blast
next
  case (saved s1 u r5)
  have "store_within (kept_as cd g) (st_secrets u)"
    using change_key_within [OF saved(2) _ g] store_within_same [OF saved(1) w] by blast
  moreover have "same_store (st_secrets u) (st_secrets t)"
    using sync_destination_cases [OF saved(4)] by blast
  ultimately show ?thesis using store_within_same by blast
qed (use w in simp)

lemma valid_trim [simp]: "valid_url (trim u) = valid_url u"
  by (simp add: valid_url_def)

lemma destination_of_Some:
  assumes "destination_of c key = Some d"
  shows "d_url d = trim (config_url c)" "valid_url (d_url d)"
    "d_key d = Fixed k \<Longrightarrow> k \<noteq> [] \<Longrightarrow> key = Some k"
  using assms
  by (auto simp: destination_of_def config_url_def valid_url_def split: option.splits sum.splits key_mode.splits)

lemma key_override_same:
  "key_override s url = Some k \<Longrightarrow> st_key_override s = Some k \<and> \<not> different_server (st_key_override_url s) url"
  by (auto simp: key_override_def split: option.splits if_splits)

lemma stored_key_entered:
  assumes dec: "\<And>server k. cd_dec cd (cd_enc cd server k) = Some (server, k)"
    and k: "fst (stored_key cd url s) = Some k" and w: "store_within (kept_as cd g) (st_secrets s)"
  shows "\<exists>server. (server, k) \<in> g \<and> \<not> different_server server url"
proof -
  from k obtain raw x server where get: "get_secret DESTINATION_KEY (st_secrets s) = (Some raw, x)"
    and r: "key_read (cd_dec cd) (st_secrets s) = (Some server, x)"
    "saved_value server = k" "\<not> different_server (owner_or (config_url (st_saved s)) server) url"
    by (auto simp: stored_key_def with_secrets_def key_for_url_def key_read_def bound_load_def
        split: prod.splits option.splits if_splits)
  from get obtain x' where "try_get_secret DESTINATION_KEY (st_secrets s) = (Inr (Some raw), x')"
    by (auto simp: get_secret_def split: prod.splits sum.splits)
  from try_get_within [OF this w] obtain o' k' where "(o', k') \<in> g" "raw = cd_enc cd o' k'"
    by (auto simp: kept_as_def)
  with get r dec [of o' k'] show ?thesis
    by (auto simp: key_read_def bound_load_def owner_or_def)
qed

lemma destination_vouched:
  assumes "destination_of c key = Some d"
    and "\<And>k. key = Some k \<Longrightarrow>
      st_key_override s = Some k \<and> \<not> different_server (st_key_override_url s) (config_url c) \<or>
      (\<exists>server. (server, k) \<in> g \<and> \<not> different_server server (config_url c))"
  shows "vouched s g d"
  using assms(2) destination_of_Some [OF assms(1)] by (auto simp: vouched_def same_server_def)

lemma app_destination_vouched:
  assumes dec: "\<And>server k. cd_dec cd (cd_enc cd server k) = Some (server, k)"
    and d: "app_destination cd c s = (Some d, t)" and w: "store_within (kept_as cd g) (st_secrets s)"
  shows "vouched s g d"
proof (cases "key_override s (config_url c)")
  case None
  with d have "destination_of c (fst (stored_key cd (config_url c) s)) = Some d"
    by (auto simp: app_destination_def split: prod.splits)
  then show ?thesis by (rule destination_vouched) (use stored_key_entered [OF dec _ w] in blast)
next
  case (Some k)
  with d have "destination_of c (Some k) = Some d" by (simp add: app_destination_def)
  then show ?thesis by (rule destination_vouched) (use key_override_same [OF Some] in auto)
qed

lemma settings_inv_same:
  assumes "settings_inv cd (s, g)" "same_settings s t" "store_within (kept_as cd g) (st_secrets t)"
  shows "settings_inv cd (t, g)"
  using assms(1,3) by (simp add: settings_inv_def vouched_same [of t s] same_settings_fields [OF assms(2)])

lemma sync_destination_inv:
  assumes dec: "\<And>server k. cd_dec cd (cd_enc cd server k) = Some (server, k)"
    and sy: "sync_destination cd s = (r, t)" and inv: "settings_inv cd (s, g)"
  shows "settings_inv cd (t, g)"
proof -
  from sync_destination_cases [OF sy] obtain d u where a: "app_destination cd (st_config s) s = (d, u)"
    and t: "t = u \<or> t = u\<lparr>st_relay_calls := st_relay_calls s @ [SetDestination d], st_applied := d\<rparr>"
    by auto
  from inv have w: "store_within (kept_as cd g) (st_secrets s)" by (simp add: settings_inv_def)
  from settings_inv_same [OF inv app_destination_same(1) [OF a]
      store_within_same [OF app_destination_same(2) [OF a] w]]
  have u: "settings_inv cd (u, g)" .
  note f = same_settings_fields [OF app_destination_same(1) [OF a]]
  have "vouched s g d'" if "d = Some d'" for d'
    using app_destination_vouched [OF dec _ w] a that by blast
  with t u f vouched_same [of u s] show ?thesis by (auto simp: settings_inv_def)
qed

lemma change_settings_inv:
  assumes dec: "\<And>server k. cd_dec cd (cd_enc cd server k) = Some (server, k)"
    and run: "change_settings_locked cd key change s = (r, t)" and inv: "settings_inv cd (s, g)"
    and limits: "let after = fst (change (st_config s)) in
      limits_ok (cf_delay after) (ic_grace_seconds (cf_ingest after))"
  shows "settings_inv cd (t, g \<union> entered key)"
proof -
  let ?g = "g \<union> entered key"
  from inv have s: "settings_inv cd (s, ?g)"
    unfolding settings_inv_def using kept_as_mono [of g ?g] vouched_mono [of s g _ ?g] by auto
  then have "store_within (kept_as cd ?g) (st_secrets s)" by (simp add: settings_inv_def)
  from change_settings_within [OF run this] have wt: "store_within (kept_as cd ?g) (st_secrets t)" by simp
  show ?thesis
    using change_settings_cases [OF run]
  proof (elim disjE exE conjE)
    assume "same_settings s t"
    then show ?thesis using settings_inv_same [OF s _ wt] by simp
  next
    fix u r5
    assume u: "same_settings (after_change cd change s) u" and sy: "sync_destination cd u = (r5, t)"
    have "same_store (st_secrets u) (st_secrets t)" using sync_destination_cases [OF sy] by simp
    then have "same_store (st_secrets t) (st_secrets u)" by (simp add: same_store_def)
    from store_within_same [OF this wt] have wu: "store_within (kept_as cd ?g) (st_secrets u)" .
    have "settings_inv cd (after_change cd change s, ?g)"
      using s limits by (auto simp: settings_inv_def after_change_def in_effect_def Let_def)
    from settings_inv_same [OF this u wu] show ?thesis by (rule sync_destination_inv [OF dec sy])
  qed
qed

lemma with_secrets_inv:
  assumes "with_secrets f s = (r, t)" "settings_inv cd (s, g)"
    and "\<And>x. f (st_secrets s) = (r, x) \<Longrightarrow> store_within (kept_as cd g) x"
  shows "settings_inv cd (t, g)"
  using assms by (auto elim!: with_secretsE intro: settings_inv_same)

lemma relay_told_inv:
  assumes "relay_told call s = (r, t)" "settings_inv cd (s, g)" "\<forall>d. call \<noteq> SetDestination d"
  shows "settings_inv cd (t, g)"
  using assms by (auto simp: relay_told_def settings_inv_def split: if_splits)

lemma update_config_inv:
  assumes dec: "\<And>server k. cd_dec cd (cd_enc cd server k) = Some (server, k)"
    and run: "update_config mac cd u s = (r, t)" and inv: "settings_inv cd (s, g)"
  shows "settings_inv cd (t, g \<union> entered_in_update s u)"
proof -
  let ?g = "g \<union> entered_in_update s u"
  define url where "url = config_url (st_config s)"
  define saved where "saved = config_url (st_saved s)"
  have g: "settings_inv cd (s, ?g)"
    using inv unfolding settings_inv_def using kept_as_mono [of g ?g] vouched_mono [of s g _ ?g] by auto
  show ?thesis
  proof (cases "validate mac (as_meant url u) (st_config s)")
    case (Some e)
    with run g show ?thesis by (simp add: update_config_def url_def)
  next
    case valid: None
    show ?thesis
    proof (cases "key_of_update url saved (as_meant url u)")
      case (Inl e)
      with run g valid show ?thesis by (simp add: update_config_def url_def saved_def)
    next
      case (Inr uk)
      obtain u' key where uk: "uk = (u', key)" by (rule prod.exhaust)
      obtain r1 s1 where ch: "change_settings_locked cd key (apply_update u') s = (r1, s1)"
        by (rule prod.exhaust)
      have same: "su_delay u' = su_delay (as_meant url u)"
        "su_grace_seconds u' = su_grace_seconds (as_meant url u)"
        using Inr uk by (auto simp: key_of_update_def Let_def split: option.splits prod.splits if_splits)
      have "limits_ok (the_or (cf_delay (st_config s)) (su_delay u'))
          (the_or (ic_grace_seconds (cf_ingest (st_config s))) (su_grace_seconds u'))"
        using valid by (simp add: validate_def validate_limits_None same)
      then have s1: "settings_inv cd (s1, ?g)"
        using change_settings_inv [OF dec ch inv] Inr uk
        by (simp add: Let_def apply_update_fields entered_in_update_def url_def saved_def)
      show ?thesis
      proof (cases r1)
        case (Inl e)
        with run valid Inr uk ch s1 show ?thesis
          by (simp add: update_config_def url_def [symmetric] saved_def [symmetric])
      next
        case r1: (Inr ca)
        obtain c a where ca: "ca = (c, a)" by (rule prod.exhaust)
        define s2 where "s2 = (if restart a then s1\<lparr>st_restart_required := True\<rparr> else s1)"
        define told where "told = (if keep_buffer_changed a
            then relay_told (SetKeepHistory (dl_keep_buffer (cf_delay c))) s2 else (Inr (), s2))"
        obtain r3 s3 where tb: "told = (r3, s3)" by (rule prod.exhaust)
        have s2: "settings_inv cd (s2, ?g)"
          using s1 by (simp add: s2_def settings_inv_def)
        have s3: "settings_inv cd (s3, ?g)"
          using tb s2 relay_told_inv [of _ s2 r3 s3 cd ?g] by (auto simp: told_def split: if_splits)
        have "(r, t) = (case r3 of
            Inl e \<Rightarrow> (Inl e, s3)
          | Inr _ \<Rightarrow> if after_reconnect_changed a
              then relay_told (SetRestoreAfterReconnect (dl_after_reconnect (cf_delay c) = RestoreDelay)) s3
              else (Inr (), s3))"
          using run valid Inr uk ch r1 ca tb
          by (simp add: update_config_def url_def [symmetric] saved_def [symmetric] s2_def [symmetric]
              told_def [symmetric])
        with s3 relay_told_inv [of _ s3 r t cd ?g] show ?thesis
          by (auto split: sum.splits if_splits)
      qed
    qed
  qed
qed

lemma settings_inv_mono: "settings_inv cd (s, g) \<Longrightarrow> g \<subseteq> h \<Longrightarrow> settings_inv cd (s, h)"
  unfolding settings_inv_def using kept_as_mono [of g h] vouched_mono [of s g _ h] by auto

lemma settings_inv_store: "settings_inv cd (s, g) \<Longrightarrow> store_within (kept_as cd g) (st_secrets s)"
  by (simp add: settings_inv_def)

lemma other_change_inv:
  assumes dec: "\<And>server k. cd_dec cd (cd_enc cd server k) = Some (server, k)"
    and run: "change_settings_and_secrets cd names upd key change s = (r, t)"
    and spares: "spares_key upd" "spares_limits change" and inv: "settings_inv cd (s, g)"
  shows "settings_inv cd (t, g \<union> entered key)"
proof -
  let ?g = "g \<union> entered key"
  obtain r1 s1 where 1: "with_secrets (take_secrets names) s = (r1, s1)" by (rule prod.exhaust)
  obtain r2 s2 where 2: "with_secrets upd s1 = (r2, s2)" by (rule prod.exhaust)
  obtain r3 s3 where 3: "change_settings_locked cd key change s2 = (r3, s3)" by (rule prod.exhaust)
  have kept: "\<forall>kept n w. r1 = Inr kept \<longrightarrow> (n, Some w) \<in> set kept \<longrightarrow> (n, w) \<in> kept_as cd g"
    and s1: "settings_inv cd (s1, g)"
    using 1 take_secrets_within [OF _ settings_inv_store [OF inv]] settings_inv_same [OF inv with_secrets_same [OF 1]]
    by (auto elim!: with_secretsE)
  have s2: "settings_inv cd (s2, g)"
    using 2 spares_key_kept [OF spares(1) _ settings_inv_store [OF s1]] settings_inv_same [OF s1 with_secrets_same [OF 2]]
    by (auto elim!: with_secretsE)
  have "limits_ok (cf_delay (st_config s2)) (ic_grace_seconds (cf_ingest (st_config s2)))"
    using s2 by (simp add: settings_inv_def)
  with change_settings_inv [OF dec 3 s2] spares(2) have s3: "settings_inv cd (s3, ?g)"
    by (simp add: spares_limits_def Let_def)
  have put: "settings_inv cd (v, ?g)" if "with_secrets (restore_secrets kept) u = (r4, v)"
    "r1 = Inr kept" "settings_inv cd (u, ?g)" for kept u r4 v
  proof -
    from kept that(2) have "\<forall>n w. (n, Some w) \<in> set kept \<longrightarrow> (n, w) \<in> kept_as cd ?g"
      by (auto simp: kept_as_def)
    with that settings_inv_store [OF that(3)] restore_secrets_within show ?thesis
      by (blast intro: with_secrets_inv)
  qed
  have up: "settings_inv cd (s1, ?g)" "settings_inv cd (s2, ?g)"
    using settings_inv_mono [OF s1, of ?g] settings_inv_mono [OF s2, of ?g] by simp_all
  from run 1 2 3 show ?thesis
    using up s3 put
    by (auto simp: change_settings_and_secrets_def split: sum.splits prod.splits if_splits)
qed

lemma saved_key_inv:
  assumes dec: "\<And>server k. cd_dec cd (cd_enc cd server k) = Some (server, k)"
    and run: "save_destination_key cd typed s = (r, t)" and inv: "settings_inv cd (s, g)"
  shows "settings_inv cd (t, g \<union> entered_for (config_url (st_saved s)) (trim typed))"
proof -
  let ?g = "g \<union> entered_for (config_url (st_saved s)) (trim typed)"
  obtain r1 s1 where 1: "with_secrets (key_save (cd_enc cd) (config_url (st_saved s)) (trim typed)) s = (r1, s1)"
    by (rule prod.exhaust)
  have s: "settings_inv cd (s, ?g)" using settings_inv_mono [OF inv, of ?g] by simp
  have s1: "settings_inv cd (s1, ?g)"
    using with_secrets_inv [OF 1 s] key_save_within [OF _ settings_inv_store [OF s]] by simp
  from run 1 s s1 sync_destination_inv [OF dec _ s1] show ?thesis
    by (auto simp: save_destination_key_def Let_def split: if_splits sum.splits)
qed

lemma forgotten_key_inv:
  assumes dec: "\<And>server k. cd_dec cd (cd_enc cd server k) = Some (server, k)"
    and run: "forget_destination_key cd s = (r, t)" and inv: "settings_inv cd (s, g)"
  shows "settings_inv cd (t, g)"
proof -
  obtain r1 s1 where 1: "with_secrets (delete_secret DESTINATION_KEY) s = (r1, s1)" by (rule prod.exhaust)
  have s1: "settings_inv cd (s1, g)"
    using with_secrets_inv [OF 1 inv] delete_secret_within [OF _ settings_inv_store [OF inv]] by blast
  from run 1 s1 sync_destination_inv [OF dec _ s1] show ?thesis
    by (auto simp: forget_destination_key_def split: sum.splits)
qed

lemma settings_step_inv:
  assumes dec: "\<And>server k. cd_dec cd (cd_enc cd server k) = Some (server, k)"
    and "settings_step mac cd x y" and "settings_inv cd x"
  shows "settings_inv cd y"
  using assms(2,3)
proof cases
  case (update u st r st' g)
  with update_config_inv [OF dec] assms(3) show ?thesis by blast
next
  case (other names upd key change st r st' g)
  with other_change_inv [OF dec] assms(3) show ?thesis by blast
next
  case (save_key typed st r st' g)
  with saved_key_inv [OF dec] assms(3) show ?thesis by blast
next
  case (forget_key st r st' g)
  with forgotten_key_inv [OF dec] assms(3) show ?thesis by blast
qed

end
