(* ===== verification/Settings_Run.thy ===== *)
theory Settings_Run
  imports Settings_Key
begin

text \<open>
  A run from its start: what a start that succeeds has checked, that overrides stay out of what
  is saved, and where the stream key goes in any run.
\<close>

section \<open>Starting\<close>

text \<open>A start, stage by stage: what the stages before the overrides leave does not depend on them.\<close>

definition boot :: "codecs \<Rightarrow> surroundings \<Rightarrow> app_error + app_state" where
  "boot cd w = and_start (and_start (load_settings w) (move_url_key cd)) (move_backup cd)"

lemma and_startE:
  assumes "and_start a f = Inr t"
  obtains s where "a = Inr s" "f s = Inr t"
  using assms by (auto simp: and_start_def split: sum.splits)

lemma start_stages:
  assumes "start_app cd o' w = Inr t"
  obtains b s1 s2 s3 where "boot cd w = Inr b" "apply_overrides o' (tie_legacy_key cd b) = Inr s1"
    "ensure_ingest_key (su_new_key w) s1 = Inr s2" "check_settings s2 = Inr s3" "start_relay cd w s3 = Inr t"
  using assms unfolding start_app_def boot_def [symmetric] by (elim and_startE) blast

lemma apply_overrides_Inr:
  "apply_overrides o' st = Inr t \<Longrightarrow> st_saved t = st_config st \<and>
     st_config t = override_settings o' (st_config st) \<and> st_path t = st_path st"
  by (auto simp: apply_overrides_def Let_def split: option.splits sum.splits)

lemma save_if_path_fields:
  assumes "save_if_path c s = (ok, t)"
  shows "st_config t = st_config s" "st_saved t = st_saved s"
proof -
  have "same_settings (if st_path s \<and> ok then s\<lparr>st_file := Some c\<rparr> else s) t"
    using assms save_config_cases [of c s ok t] by (auto simp: save_if_path_def split: if_splits)
  from same_settings_fields [OF this] show "st_config t = st_config s" "st_saved t = st_saved s"
    by simp_all
qed

lemma ensure_ingest_key_Inr:
  assumes "ensure_ingest_key k st = Inr t"
  shows "(st_saved t = st_saved st \<or> st_saved t = set_ingest_key k (st_saved st)) \<and>
    cf_delay (st_config t) = cf_delay (st_config st) \<and> cf_api (st_config t) = cf_api (st_config st)"
proof (cases "no_key (ic_key (cf_ingest (st_config st))) \<and>
    \<not> is_loopback (to_canonical (sa_ip (ic_bind (cf_ingest (st_config st)))))")
  case True
  let ?saved = "set_ingest_key k (st_saved st)"
  obtain ok u where s: "save_if_path ?saved (st\<lparr>st_saved := ?saved\<rparr>) = (ok, u)" by (rule prod.exhaust)
  from True assms s save_if_path_fields [OF s] show ?thesis
    by (auto simp: ensure_ingest_key_def Let_def set_ingest_key_def split: if_splits)
next
  case False
  with assms show ?thesis by (simp add: ensure_ingest_key_def Let_def split: if_splits)
qed

lemma check_settings_Inr:
  assumes "check_settings st = Inr t"
  shows "\<exists>d. t = st\<lparr>st_config := (st_config st)\<lparr>cf_delay := d\<rparr>\<rparr> \<and> d = fit_presets (cf_delay (st_config st)) \<and>
    limits_ok d (ic_grace_seconds (cf_ingest (st_config st))) \<and>
    16 \<le> length (chars (ap_token (cf_api (st_config st)))) \<and>
    list_all token_byte (ap_token (cf_api (st_config st)))"
  using assms
  by (auto simp: check_settings_def Let_def validate_limits_None MIN_TOKEN_LEN_def limits_ok_def
      fit_presets_def split: option.splits if_splits)

lemma start_relay_Inr:
  assumes "start_relay cd w s = Inr t"
  obtains key u d applied v where
    "(case st_key_override s of Some k \<Rightarrow> (Some k, s) | None \<Rightarrow> stored_key cd (config_url (st_config s)) s) = (key, u)"
    "d = destination_of (st_config s) key"
    "relay_start_check (su_relay_listens w) d (sa_ip (ic_bind (cf_ingest (st_config s))))
       (ic_key (cf_ingest (st_config s))) = None"
    "app_destination cd (st_config s) (u\<lparr>st_key_override_url := config_url (st_config s),
       st_listeners := st_config s, st_relay_calls := [SetDestination d]\<rparr>) = (applied, v)"
    "t = v\<lparr>st_applied := applied\<rparr>"
proof -
  obtain key u where k: "(case st_key_override s of Some k \<Rightarrow> (Some k, s)
      | None \<Rightarrow> stored_key cd (config_url (st_config s)) s) = (key, u)" by (rule prod.exhaust)
  obtain applied v where a: "app_destination cd (st_config s) (u\<lparr>st_key_override_url := config_url (st_config s),
       st_listeners := st_config s, st_relay_calls := [SetDestination (destination_of (st_config s) key)]\<rparr>) =
     (applied, v)" by (rule prod.exhaust)
  have "relay_start_check (su_relay_listens w) (destination_of (st_config s) key)
      (sa_ip (ic_bind (cf_ingest (st_config s)))) (ic_key (cf_ingest (st_config s))) = None"
    "t = v\<lparr>st_applied := applied\<rparr>"
    using assms k a by (auto simp: start_relay_def Let_def split: if_splits option.splits)
  with that k a show thesis by blast
qed

lemma stored_key_same:
  "stored_key cd url s = (k, t) \<Longrightarrow> same_settings s t \<and> same_store (st_secrets s) (st_secrets t)"
  by (auto simp: stored_key_def elim!: with_secretsE dest: key_for_url_same)

lemma start_relay_fields:
  assumes "start_relay cd w s = Inr t"
  shows "st_config t = st_config s" "st_saved t = st_saved s"
proof -
  from assms show "st_config t = st_config s" "st_saved t = st_saved s"
  proof (atomize (full), cases rule: start_relay_Inr)
    case (1 key u d applied v)
    have "same_settings s u" using 1(1) stored_key_same by (auto split: option.splits)
    with app_destination_same(1) [OF 1(4)] 1(5)
    show "st_config t = st_config s \<and> st_saved t = st_saved s"
      by (simp add: same_settings_fields)
  qed
qed

text \<open>An ingest key that others may try is neither short nor a pattern.\<close>

definition hard_key :: "bytes option \<Rightarrow> bool" where
  "hard_key key \<longleftrightarrow>
     (\<exists>k. key = Some k \<and> 16 \<le> length (chars k) \<and>
        (\<forall>p \<in> {1, 2, 3, 4}. \<not> repeats_every p (chars k)) \<and> \<not> runs_by 1 (chars k) \<and> \<not> runs_by (-1) (chars k))"

lemma accepted_key_is_hard:
  "ingest_key_weakness k = None \<or> ingest_key_weakness k = Some Guessable \<Longrightarrow> hard_key (Some k)"
  by (auto simp: ingest_key_weakness_def hard_key_def Let_def MIN_INGEST_KEY_LEN_def split: if_splits)

lemma relay_start_check_None:
  "relay_start_check l d ip key = None \<Longrightarrow> is_loopback (to_canonical ip) \<or> hard_key key"
proof -
  assume a: "relay_start_check l d ip key = None"
  show ?thesis
  proof (cases "is_loopback (to_canonical ip)")
    case False
    with a obtain k where k: "key = Some k"
      by (auto simp: relay_start_check_def split: option.splits)
    with False a have "ingest_key_weakness k = None \<or> ingest_key_weakness k = Some Guessable"
      by (auto simp: relay_start_check_def refused_weakness_def split: option.splits if_splits)
    with k accepted_key_is_hard show ?thesis by blast
  qed simp
qed

lemma fit_presets_ok:
  "dl_presets (fit_presets d) \<noteq> [] \<and> (\<forall>p \<in> set (dl_presets (fit_presets d)).
     f_le (ps_seconds p) (f_of_nat (dl_max_seconds (fit_presets d))))"
  by (auto simp: fit_presets_def Let_def f_of_nat_def)

text \<open>
  C24. A start that succeeds is in order, whatever the file and the command line say: delay,
  memory, slate and grace within their limits; at least one preset, none above the maximum; a
  token of sixteen characters or more that a link can carry as it is; and, unless only this
  computer can reach the RTMP input, an ingest key that is neither short nor a pattern.
\<close>

theorem start_is_in_order:
  assumes "start_app cd o' w = Inr st"
  shows "let c = st_config st in
    limits_ok (cf_delay c) (ic_grace_seconds (cf_ingest c)) \<and>
    dl_presets (cf_delay c) \<noteq> [] \<and>
    (\<forall>p \<in> set (dl_presets (cf_delay c)). f_le (ps_seconds p) (f_of_nat (dl_max_seconds (cf_delay c)))) \<and>
    16 \<le> length (chars (ap_token (cf_api c))) \<and> list_all token_byte (ap_token (cf_api c)) \<and>
    (is_loopback (to_canonical (sa_ip (ic_bind (cf_ingest c)))) \<or> hard_key (ic_key (cf_ingest c)))"
proof -
  define c where "c = st_config st"
  from assms obtain s2 s3 where chk: "check_settings s2 = Inr s3" and rel: "start_relay cd w s3 = Inr st"
    by (rule start_stages)
  have c: "c = st_config s3" using start_relay_fields [OF rel] by (simp add: c_def)
  from rel have hard: "is_loopback (to_canonical (sa_ip (ic_bind (cf_ingest c)))) \<or> hard_key (ic_key (cf_ingest c))"
    by (rule start_relay_Inr) (use c relay_start_check_None in blast)
  from check_settings_Inr [OF chk] have "cf_delay c = fit_presets (cf_delay (st_config s2))"
    "limits_ok (cf_delay c) (ic_grace_seconds (cf_ingest c))"
    "16 \<le> length (chars (ap_token (cf_api c)))" "list_all token_byte (ap_token (cf_api c))"
    by (auto simp: c)
  with hard fit_presets_ok [of "cf_delay (st_config s2)"] show ?thesis
    by (simp add: c_def [symmetric] Let_def)
qed

text \<open>
  The command line stays out of the settings saved: two starts in the same surroundings
  that differ only in their overrides save the same settings, but for an ingest key that one of
  them had to generate.
\<close>

theorem overrides_are_not_saved:
  assumes "start_app cd o1 w = Inr s1" and "start_app cd o2 w = Inr s2"
  shows "set_ingest_key (su_new_key w) (st_saved s1) = set_ingest_key (su_new_key w) (st_saved s2)"
proof -
  have saved: "\<exists>b. boot cd w = Inr b \<and> (st_saved s = st_config (tie_legacy_key cd b) \<or>
      st_saved s = set_ingest_key (su_new_key w) (st_config (tie_legacy_key cd b)))"
    if start: "start_app cd o' w = Inr s" for o' s
    using start
  proof (cases rule: start_stages)
    case (1 b s1 s2 s3)
    then show ?thesis
      using start_relay_fields [OF 1(5)] check_settings_Inr [OF 1(4)] ensure_ingest_key_Inr [OF 1(3)]
        apply_overrides_Inr [OF 1(2)] by auto
  qed
  from saved [OF assms(1)] saved [OF assms(2)] show ?thesis
    by (auto simp: set_ingest_key_def)
qed

section \<open>Where the key goes\<close>

definition codec_ok :: "codecs \<Rightarrow> bool" where
  "codec_ok cd \<longleftrightarrow> (\<forall>server k. cd_dec cd (cd_enc cd server k) = Some (server, k))"

text \<open>A run just started, with what was entered before for the key it found.\<close>

definition just_started :: "codecs \<Rightarrow> app_state \<times> entries \<Rightarrow> bool" where
  "just_started cd = (\<lambda>(st, g).
     codec_ok cd \<and> (\<exists>o' w. start_app cd o' w = Inr st) \<and> store_within (kept_as cd g) (st_secrets st))"

lemma not_different_self [simp]: "\<not> different_server u u"
  by (cases "parse_url u") (simp_all add: different_server_iff, simp add: different_server_def)

lemma relay_started_inv:
  assumes "codec_ok cd" and rel: "start_relay cd w s = Inr t"
    and w: "store_within (kept_as cd g) (st_secrets t)"
    and l: "limits_ok (cf_delay (st_config s)) (ic_grace_seconds (cf_ingest (st_config s)))"
  shows "settings_inv cd (t, g)"
  using rel
proof (cases rule: start_relay_Inr)
  case (1 key u d applied v)
  let ?c = "st_config s"
  let ?u = "u\<lparr>st_key_override_url := config_url ?c, st_listeners := ?c, st_relay_calls := [SetDestination d]\<rparr>"
  have dec: "\<And>server k. cd_dec cd (cd_enc cd server k) = Some (server, k)"
    using assms(1) by (simp add: codec_ok_def)
  have su: "same_settings s u" "same_store (st_secrets s) (st_secrets u)"
    using 1(1) stored_key_same by (auto split: option.splits)
  note uv = app_destination_same [OF 1(4)]
  note f = same_settings_fields [OF su(1)] same_settings_fields [OF uv(1)]
  have wu: "store_within (kept_as cd g) (st_secrets ?u)" "store_within (kept_as cd g) (st_secrets s)"
    using store_within_same [of "st_secrets t" _ "kept_as cd g"] w su(2) uv(2) 1(5)
    by (auto simp: same_store_def)
  have "vouched t g d'" if "d = Some d'" for d'
  proof -
    have t: "st_key_override t = st_key_override s" "st_key_override_url t = config_url ?c"
      using f 1(5) by simp_all
    from 1(2) that have "destination_of ?c key = Some d'" by simp
    then show ?thesis
    proof (rule destination_vouched)
      fix k assume "key = Some k"
      then show "st_key_override t = Some k \<and> \<not> different_server (st_key_override_url t) (config_url ?c) \<or>
          (\<exists>server. (server, k) \<in> g \<and> \<not> different_server server (config_url ?c))"
        using 1(1) t stored_key_entered [OF dec _ wu(2), of "config_url ?c" k]
        by (auto split: option.splits)
    qed
  qed
  moreover have "vouched t g d'" if "applied = Some d'" for d'
    using app_destination_vouched [OF dec _ wu(1), of ?c d' v] 1(4,5) that f
      vouched_same [of t ?u] by simp
  ultimately show ?thesis
    using w l f 1(5) by (auto simp: settings_inv_def)
qed

lemma started_inv: "just_started cd x \<Longrightarrow> settings_inv cd x"
proof -
  assume "just_started cd x"
  then obtain st g o' w where x: "x = (st, g)" "codec_ok cd" "start_app cd o' w = Inr st"
    "store_within (kept_as cd g) (st_secrets st)"
    by (cases x) (auto simp: just_started_def)
  from x(3) obtain s2 s3 where chk: "check_settings s2 = Inr s3" and rel: "start_relay cd w s3 = Inr st"
    by (rule start_stages)
  from check_settings_Inr [OF chk]
  have "limits_ok (cf_delay (st_config s3)) (ic_grace_seconds (cf_ingest (st_config s3)))" by auto
  with relay_started_inv [OF x(2) rel x(4)] x(1) show ?thesis by simp
qed

text \<open>The step of a run whose codec is in order; what holds is kept.\<close>

definition run_step :: "bool \<Rightarrow> codecs \<Rightarrow> app_state \<times> entries \<Rightarrow> app_state \<times> entries \<Rightarrow> bool" where
  "run_step mac cd x y \<longleftrightarrow> codec_ok cd \<and> settings_step mac cd x y"

interpretation settings_run: state_machine "just_started cd" "run_step mac cd" "settings_inv cd" for mac cd
  using started_inv settings_step_inv by unfold_locales (auto simp: run_step_def codec_ok_def)

text \<open>
  C5. The stream key stays with its server. In every run, whatever settings are changed, in
  whatever order and with whatever of the keychain, the files and the relay failing: each
  destination the relay is ever given with a stored key has a key that was entered for a server
  that is the same server as that destination, or the key of the command line with the
  destination it was given for. And the limits of the settings hold throughout.
\<close>

theorem key_stays_with_its_server:
  assumes "just_started cd start" and "(run_step mac cd)\<^sup>*\<^sup>* start (st, g)"
    and "SetDestination (Some d) \<in> set (st_relay_calls st)" and "d_key d = Fixed k" and "k \<noteq> []"
  shows "(st_key_override st = Some k \<and> same_server (st_key_override_url st) (d_url d) \<or>
     (\<exists>server. (server, k) \<in> g \<and> same_server server (d_url d))) \<and>
    limits_ok (cf_delay (st_config st)) (ic_grace_seconds (cf_ingest (st_config st)))"
  using settings_run.reachable_inv [OF assms(1,2)] assms(3-5)
  by (auto simp: settings_inv_def vouched_def)

end
