(* ===== verification/Settings_Examples.thy ===== *)
theory Settings_Examples
  imports Settings_Run
begin

text \<open>
  A run to see the promises of the settings at: it finds no settings file and the key of the
  default destination, in the secrets' file.
\<close>

definition default_url :: bytes where
  "default_url = ascii ''rtmps://live.twitch.tv:443/app''"

definition demo_store :: secrets where
  "demo_store = \<lparr>sec_keychain = None, sec_file = Readable [DESTINATION_KEY \<mapsto> demo_enc default_url [5]],
     sec_faults = [], sec_warned = False\<rparr>"

definition demo_surroundings :: surroundings where
  "demo_surroundings = \<lparr>su_path = False, su_read = None, su_secrets = demo_store, su_faults = [],
     su_token = replicate 16 0x61, su_new_key = [], su_api_listens = True, su_relay_listens = True\<rparr>"

definition with_grace :: "nat option \<Rightarrow> overrides" where
  "with_grace g = \<lparr>or_ingest = None, or_api = None, or_destination_url = None, or_destination_key = None,
     or_passthrough = False, or_token = None, or_max_delay_seconds = None, or_start_delay_seconds = None,
     or_grace_seconds = g, or_allow_lan = False, or_ingest_key = None\<rparr>"

lemma default_url_parsed:
  "parse_url default_url = Inr \<lparr>u_scheme = Rtmps, u_host = ascii ''live.twitch.tv'', u_port = 443,
     u_app = ascii ''app'', u_tc_url = ascii ''rtmps://live.twitch.tv/app'', u_stream_key = None\<rparr>"
proof -
  have t: "trim default_url = default_url"
    by (rule trim_plain) (simp add: default_url_def ascii_def)
  show ?thesis unfolding parse_url_def t by (simp add: default_url_def url_eval)
qed

lemma chars_ascii: "\<forall>b \<in> set s. b < 0x80 \<Longrightarrow> chars s = map (\<lambda>b. [b]) s"
  by (induction s) (simp_all add: chars.simps utf8_step_def)

lemma config_url_default [simp]: "dc_url default_destination = default_url"
  by (simp add: default_destination_def SERVICES_def default_url_def)

lemma default_url_key [simp]: "split_url_key default_url = (default_url, None)"
  by (simp add: split_url_key_def default_url_parsed)

definition demo_config :: "nat option \<Rightarrow> config" where
  "demo_config g = default_config
     \<lparr>cf_api := default_api\<lparr>ap_token := replicate 16 0x61\<rparr>,
      cf_ingest := default_ingest\<lparr>ic_grace_seconds := the_or 30 g\<rparr>\<rparr>"

lemma demo_booted:
  "boot demo_codecs demo_surroundings =
     Inr ((booting demo_surroundings)\<lparr>st_config := demo_config None\<rparr>)"
  by (simp add: boot_def load_settings_def demo_surroundings_def and_start_def move_url_key_def
      move_backup_def with_secrets_def migrate_backup_def config_url_def default_config_def
      default_obs_def demo_config_def default_ingest_def the_or_def booting_def)

lemma demo_key_read:
  "get_secret DESTINATION_KEY demo_store = (Some (demo_enc default_url [5]), demo_store)"
  by (simp add: get_secret_def try_get_secret_def read_file_def try_call_def call_fails_def demo_store_def)

lemma demo_tied:
  assumes "st_secrets s = demo_store"
  shows "tie_legacy_key demo_codecs s = s"
  using assms
  by (simp add: tie_legacy_key_def with_secrets_def bind_legacy_def key_read_def bound_load_def
      demo_key_read demo_codecs_def demo_dec_enc)

lemma demo_stored_key:
  assumes "st_secrets s = demo_store"
  shows "stored_key demo_codecs default_url s = (Some [5], s)"
  using assms
  by (simp add: stored_key_def with_secrets_def key_for_url_def key_read_def bound_load_def
      demo_key_read demo_codecs_def demo_dec_enc owner_or_def)

definition demo_destination :: destination where
  "demo_destination = \<lparr>d_url = trim default_url, d_key = Fixed [5]\<rparr>"

definition demo_running :: "nat option \<Rightarrow> app_state" where
  "demo_running g = (booting demo_surroundings)
     \<lparr>st_config := demo_config g, st_saved := demo_config None, st_key_override_url := default_url,
      st_listeners := demo_config g, st_relay_calls := [SetDestination (Some demo_destination)],
      st_applied := Some demo_destination\<rparr>"

lemma demo_config_fields [simp]:
  "config_url (demo_config g) = default_url" "cf_ingest (demo_config g) = default_ingest\<lparr>ic_grace_seconds := the_or 30 g\<rparr>"
  "cf_delay (demo_config g) = default_delay" "ap_token (cf_api (demo_config g)) = replicate 16 0x61"
  by (simp_all add: demo_config_def default_config_def config_url_def)

lemma demo_overridden:
  "override_settings (with_grace g) (demo_config None) = demo_config g"
  by (cases g) (simp_all add: override_settings_def with_grace_def demo_config_def default_config_def
      default_ingest_def default_api_def default_delay_def default_destination_def the_or_def)

lemma demo_checked:
  assumes "st_config s = demo_config g" "the_or 30 g \<le> 600"
  shows "check_settings s = Inr s"
proof -
  have l: "limits_ok default_delay (the_or 30 g)"
    using assms(2) by (simp add: limits_ok_def default_delay_def)
  have p: "fit_presets default_delay = default_delay"
    by (simp add: fit_presets_def default_delay_def default_presets_def f_of_nat_def)
  have c: "chars (replicate 16 0x61 :: bytes) = replicate 16 [0x61]"
    by (simp add: chars_ascii)
  have t: "list_all token_byte (replicate 16 0x61)"
    by (simp add: list_all_iff token_byte_def alphanumeric_def lower_case_def)
  have "(demo_config g)\<lparr>cf_delay := default_delay\<rparr> = demo_config g"
    by (simp add: demo_config_def default_config_def)
  moreover have "s\<lparr>st_config := demo_config g\<rparr> = s" using assms(1) by (cases s) simp
  ultimately show ?thesis
    using assms l p c t
    by (simp add: check_settings_def validate_limits_None [THEN iffD2] MIN_TOKEN_LEN_def default_ingest_def)
qed

lemma demo_destination_of:
  "destination_of (demo_config g) (Some [5]) = Some demo_destination"
  by (simp add: destination_of_def default_url_parsed demo_destination_def demo_config_def
      default_config_def default_destination_def SERVICES_def default_url_def [symmetric])

lemma demo_app_destination:
  assumes "st_secrets s = demo_store" "st_key_override s = None"
  shows "app_destination demo_codecs (demo_config g) s = (Some demo_destination, s)"
  using assms demo_stored_key [OF assms(1)]
  by (simp add: app_destination_def key_override_def demo_destination_of)

lemma demo_start_check:
  "relay_start_check True (Some demo_destination) (V4 127 0 0 1) None = None"
  by (simp add: relay_start_check_def or_else_def refuse_def demo_destination_def default_url_parsed)

lemma demo_started:
  assumes "the_or 30 g \<le> 600"
  shows "start_app demo_codecs (with_grace g) demo_surroundings = Inr (demo_running g)"
proof -
  let ?b = "(booting demo_surroundings)\<lparr>st_config := demo_config None\<rparr>"
  let ?s = "(booting demo_surroundings)\<lparr>st_config := demo_config g, st_saved := demo_config None\<rparr>"
  have b: "st_secrets ?b = demo_store" "st_key_override ?b = None"
    by (simp_all add: booting_def demo_surroundings_def)
  have o': "apply_overrides (with_grace g) ?b = Inr ?s"
    using demo_overridden [of g] b(2)
    by (simp add: apply_overrides_def with_grace_def booting_def)
  have e: "ensure_ingest_key k ?s = Inr ?s" for k
    by (simp add: ensure_ingest_key_def Let_def default_ingest_def)
  have c: "check_settings ?s = Inr ?s" by (rule demo_checked [OF _ assms]) simp
  have r: "start_relay demo_codecs demo_surroundings ?s = Inr (demo_running g)"
    using demo_stored_key [of ?s] b
    by (simp add: start_relay_def Let_def default_ingest_def demo_destination_of demo_app_destination
        demo_start_check demo_running_def demo_surroundings_def booting_def)
  show ?thesis
    unfolding start_app_def boot_def [symmetric] demo_booted
    by (simp add: and_start_def demo_tied b o' e c r)
qed

theorem start_is_in_order_witness:
  "16 \<le> length (chars (ap_token (cf_api (st_config (demo_running (Some 60))))))"
  using start_is_in_order [OF demo_started [of "Some 60"]] by (simp add: the_or_def Let_def)

theorem overrides_are_not_saved_witness:
  "set_ingest_key [] (st_saved (demo_running (Some 60))) = set_ingest_key [] (st_saved (demo_running None))"
  using overrides_are_not_saved [OF demo_started [of "Some 60"] demo_started [of None]]
  by (simp add: the_or_def demo_surroundings_def)

text \<open>The key found goes to the default destination; what was entered for it says so.\<close>

theorem key_stays_with_its_server_witness:
  "same_server default_url (d_url demo_destination)"
proof -
  have "codec_ok demo_codecs" by (simp add: codec_ok_def demo_codecs_def demo_dec_enc)
  moreover have "store_within (kept_as demo_codecs {(default_url, [5])}) (st_secrets (demo_running None))"
    by (simp add: demo_running_def booting_def demo_surroundings_def demo_store_def store_within_def
        map_within_def file_values_def in_keychain_def kept_as_def demo_codecs_def)
  ultimately have "just_started demo_codecs (demo_running None, {(default_url, [5])})"
    using demo_started [of None] by (auto simp: just_started_def the_or_def)
  moreover have "SetDestination (Some demo_destination) \<in> set (st_relay_calls (demo_running None))"
    "d_key demo_destination = Fixed [5]" "([5] :: bytes) \<noteq> []"
    "st_key_override (demo_running None) = None"
    by (simp_all add: demo_running_def demo_destination_def booting_def)
  ultimately show ?thesis
    using key_stays_with_its_server [where cd = demo_codecs and mac = True and st = "demo_running None"
        and g = "{(default_url, [5])}" and d = demo_destination and k = "[5]",
        OF _ rtranclp.rtrancl_refl]
    by simp
qed

end
