(* ===== verification/Spec2Isabelle.thy ===== *)
theory Spec2Isabelle
  imports Timestamps Engine_Examples Engine_Generation Lifecycle Chunk_Roundtrip Amf0_Codec Handshake
    Server_Memory Session_Media Url Core_Examples Relay_Examples Poc_Examples
    Ingest_Examples Settings_Examples
begin

text \<open>
  Stream Delay takes the stream of one encoder over RTMP, holds it back by a delay the
  streamer sets while on air, and publishes it to one destination. This development models
  the daemon's own logic as functions and step relations translated from the Rust sources
  (under \<^verbatim>\<open>crates/\<close> of the repository), and proves what it promises.

  The parts and how they interact. An encoder connects to the ingest server, a session of
  \<^verbatim>\<open>rtmp\<close> (handshake, chunks, commands); what it publishes reaches the core
  (\<^verbatim>\<open>relay/src/core.rs\<close>), which decides who may publish and hands each message to the delay
  engine (\<^verbatim>\<open>engine\<close>). In each turn the engine's output loop sends what is due into a
  channel, from which the egress (\<^verbatim>\<open>relay/src/egress.rs\<close>) writes it to the destination, as
  an RTMP client, with the pictures renumbered where a decoder would drop one
  (\<^verbatim>\<open>flv/src/hevc/poc.rs\<close>). The settings, the secret store and what a change of either does to
  the relay are kept by \<^verbatim>\<open>config\<close> and \<^verbatim>\<open>control\<close>. The lifecycle (\<^verbatim>\<open>relay/src/lifecycle.rs\<close>) decides when a
  connection to the destination is on.

  Theories, in their order.

  Prelude: what the others share (list, word and \<open>bind\<close> lemmas, the collections of simp
  rules, the locale of monotone machines).

  Timestamps (\<^verbatim>\<open>rtmp/src/ts.rs\<close>); Flv (\<^verbatim>\<open>flv/src/lib.rs\<close>): video and audio tag inspection
  and the rewriting of CRA pictures. Rbsp and Poc (\<^verbatim>\<open>flv/src/hevc/poc.rs\<close>): the bit reader,
  parameter sets, slice headers and \<open>guard_video\<close>; Poc_Promises and Poc_Examples: no count
  repeated, what is renumbered reads back.

  The delay engine (\<^verbatim>\<open>engine/src/lib.rs\<close>): Engine_Types (its messages, entries and the
  record of its state, \<open>engine\<close>, with the fields of \<^verbatim>\<open>Engine\<close>), Engine_Buffer (ring,
  keyframes, sessions), Engine_Splice, Engine_Pending, Engine_Evict, Engine_Poll (the
  output loop), Engine_Ingest, Engine_Command, Engine_Output (connections, discard), one
  group of operations each with the invariant they keep; Engine_Progress (the loop returns),
  Engine_Safety (nothing airs early), Engine_Reach (reachable states), Engine_Held (where what is
  sent comes from: the buffer, a keyframe held that the output had passed, or the decoder
  configuration and metadata of a session; so nothing discarded is sent in any form),
  Engine_Promises (which commands are refused, what a dump comes to), Engine_Timestamps,
  Engine_Generation; Engine_Examples holds concrete states.

  RTMP (\<^verbatim>\<open>rtmp/src\<close>): Chunk (\<^verbatim>\<open>chunk.rs\<close>), Chunk_Invariant, Chunk_Pieces and
  Chunk_Roundtrip; Amf0 and Amf0_Codec (\<^verbatim>\<open>amf0.rs\<close>); Rtmp_Message (\<^verbatim>\<open>message.rs\<close>); Handshake
  (\<^verbatim>\<open>handshake.rs\<close>); Link (the byte streams of a session, \<^verbatim>\<open>session/mod.rs\<close>); Server_Session,
  Server_Protocol and Server_Memory (\<^verbatim>\<open>session/server.rs\<close>); Client_Session
  (\<^verbatim>\<open>session/client.rs\<close>); Session_Media (client and server together); Text and Url
  (\<^verbatim>\<open>url.rs\<close>).

  The relay (\<^verbatim>\<open>relay/src\<close>): Lifecycle (\<^verbatim>\<open>lifecycle.rs\<close>); Core, Core_Engine, Core_Protocol,
  Core_Promises and Core_Examples (\<^verbatim>\<open>core.rs\<close>); Egress_Parts, Egress and Egress_Promises
  (\<^verbatim>\<open>egress.rs\<close>); Relay, Relay_Promises and Relay_Examples: the two tasks and the channels
  between them.

  The ingest server (\<^verbatim>\<open>relay/src/ingest.rs\<close>): Ingest_Slots (places for connections),
  Ingest_Keys (wrong keys), Ingest (the task of a connection, its phases the awaits of
  \<^verbatim>\<open>handle\<close>), Ingest_Promises, Ingest_Listener (the listener with all its tasks) and
  Ingest_Examples.

  Settings and secrets: Secrets (\<^verbatim>\<open>config/src/secrets.rs\<close>: keychain and private file, with a
  list of which calls fail); Config (\<^verbatim>\<open>config/src/lib.rs\<close>: sections and defaults); Stream_Key
  (\<^verbatim>\<open>control/src/app.rs\<close>, \<^verbatim>\<open>bound.rs\<close>, \<^verbatim>\<open>dest_key.rs\<close>: which servers are one, the key and its
  server); Settings (\<^verbatim>\<open>control/src/settings.rs\<close>: what is refused, what a change sets);
  Settings_Merge (\<^verbatim>\<open>changes.rs\<close>: which settings reach the file, as JSON); Settings_Change
  (\<^verbatim>\<open>changes.rs\<close>: the state of \<^verbatim>\<open>AppState\<close> and every change of it); Startup (\<^verbatim>\<open>App::start\<close>);
  Settings_Promises, Settings_Key and Settings_Run (a change that cannot be saved, the key over
  a whole run, the start); Settings_Examples.

  Conventions. A struct is a record and an enum a datatype of the same constructors; a
  method is a function from the state to the state, with its result beside it. Bytes and the
  integers whose width matters are words (\<open>u8\<close>, \<open>u32\<close>, \<open>u64\<close>); times are numbers of
  microseconds and sequence numbers naturals. Errors are \<open>Inl\<close> of a datatype or
  \<open>None\<close>. Strings are their UTF-8 bytes. A task that awaits is a phase and a step for each
  input that ends the wait; a turn of the core, from one await to the next, is one step,
  as no other task reads its state, and its sends keep their order in the channels.
  Arbitrary inputs stand for the encoder, the streamer, the clock and the network, so what
  is proved holds for every scheduling.

  Termination. The output loop is \<open>poll_budget\<close>, a partial function, and
  \<open>poll_returns\<close> proves that it returns in every well-formed state (a rank of pending
  change, session and position goes down); eviction, the chunk decoder, the sessions' feed
  loops, URLs and slice headers are functions with measures. No fuel is used, except the
  bound of nesting that AMF0 itself has.

  What the groups of lemmas show. Each component has a well-formedness invariant
  (\<open>engine_wf\<close>, \<open>relay_ok\<close>, \<open>guard_ok\<close> and those of the decoder and the sessions) kept
  by every operation; safety of the delay (nothing airs early, nothing thrown away airs, in
  the engine and across both tasks); timestamps in order; refinement of protocol automata by
  the server session and the core; round trips of chunks, AMF0 and slice headers; bounds of
  what a peer makes the decoders hold; exact conditions of every refusal; the ingest
  connection refines an automaton of what it tells the core; a secret or a change of the
  settings is saved or nothing changes, whichever calls fail, with the exceptions stated; in a run
  of the secret store, recorded beside it as what may be known of each secret from its calls, no
  read gives anything else; a stream key stays with its server in every run. An address gets few
  quick answers to wrong keys in a minute in which no more addresses try than the log remembers.

  Parameters are code outside the repository: the hash of configuration bytes (\<open>fp\<close>),
  the Unicode table of letters and digits (\<open>alnum\<close>), random bytes of the handshake and
  tokens, the JSON of \<^verbatim>\<open>serde\<close> (\<open>codecs\<close>), and what TLS, sockets, the OS's send queue, the
  keychain and the file system do (inputs, and lists of calls that fail).

  Not modelled, and why: bit rates, the engine's snapshot and the start delay
  (floating-point figures); tracing and log lines; \<^verbatim>\<open>relay/src/sendq.rs\<close>, \<^verbatim>\<open>io.rs\<close> but its server
  handshake, and \<^verbatim>\<open>heap.rs\<close> (system calls); the routes of the HTTP control API, the OBS client,
  the daemon and the desktop application (\<^verbatim>\<open>control/src/routes.rs\<close>, \<^verbatim>\<open>obs\<close>, \<^verbatim>\<open>streamdelayd\<close>,
  \<^verbatim>\<open>apps/desktop\<close>), which are glue over HTTP, WebSockets, files and windows; \<^verbatim>\<open>ui\<close>, tests and
  fuzz targets.
\<close>

end
